(* ===== verification/Kogane_Prelude.thy ===== *)
theory Kogane_Prelude
  imports Complex_Main "HOL-Library.List_Lexorder" "HOL-Library.Char_ord" "HOL-Library.Multiset"
    "HOL-Library.Signed_Division"
begin

text \<open>
  What the components of the model share: the pieces of the JavaScript standard library the
  source uses (text of integers, \<open>padStart\<close>, \<open>Array.prototype.sort\<close> with a comparator,
  \<open>[...new Set(xs)]\<close>, truncating BigInt division), generic lemmas on lists and rationals, and
  the development's theorem collections.

  Strings are char lists compared by code unit (\<open>List_Lexorder\<close> over \<open>Char_ord\<close>), which is the
  order of the JavaScript operators on strings for code units below 256.
\<close>

section \<open>Collections and types\<close>

named_theorems value_simps "what an exact decimal operation means as a rational"
named_theorems canon_intros "operations that return canonical decimals"

section \<open>Text of integers\<close>

definition digit_char :: "nat \<Rightarrow> char" where
  "digit_char d = char_of (48 + d)"

definition char_digit :: "char \<Rightarrow> nat" where
  "char_digit c = of_char c - 48"

definition is_digit :: "char \<Rightarrow> bool" where
  "is_digit c \<longleftrightarrow> 48 \<le> (of_char c :: nat) \<and> (of_char c :: nat) \<le> 57"

fun nat_text :: "nat \<Rightarrow> string" where
  "nat_text n = (if n < 10 then [digit_char n] else nat_text (n div 10) @ [digit_char (n mod 10)])"

declare nat_text.simps [simp del]

definition int_text :: "int \<Rightarrow> string" where
  "int_text i = (if i < 0 then CHR ''-'' # nat_text (nat (- i)) else nat_text (nat i))"

definition digits_value :: "string \<Rightarrow> nat" where
  "digits_value s = foldl (\<lambda>acc c. acc * 10 + char_digit c) 0 s"

definition padStart :: "nat \<Rightarrow> char \<Rightarrow> string \<Rightarrow> string" where
  "padStart n c s = replicate (n - length s) c @ s"

definition padEnd :: "nat \<Rightarrow> char \<Rightarrow> string \<Rightarrow> string" where
  "padEnd n c s = s @ replicate (n - length s) c"

lemma of_char_digit_char: "d < 10 \<Longrightarrow> (of_char (digit_char d) :: nat) = 48 + d"
  by (simp add: digit_char_def)

lemma char_digit_digit_char [simp]: "d < 10 \<Longrightarrow> char_digit (digit_char d) = d"
  by (simp add: char_digit_def of_char_digit_char)

lemma is_digit_digit_char [simp]: "d < 10 \<Longrightarrow> is_digit (digit_char d)"
  by (simp add: is_digit_def of_char_digit_char)

lemma digit_char_char_digit [simp]: "is_digit c \<Longrightarrow> digit_char (char_digit c) = c"
  by (simp add: digit_char_def char_digit_def is_digit_def)

lemma char_digit_less [simp]: "is_digit c \<Longrightarrow> char_digit c < 10"
  by (auto simp: char_digit_def is_digit_def)

lemma digits_value_Nil [simp]: "digits_value [] = 0"
  by (simp add: digits_value_def)

lemma digits_value_snoc [simp]: "digits_value (s @ [c]) = digits_value s * 10 + char_digit c"
  by (simp add: digits_value_def)

lemma digits_value_append:
  "digits_value (s @ t) = digits_value s * 10 ^ length t + digits_value t"
  by (induction t rule: rev_induct)
    (simp_all add: algebra_simps flip: append_assoc)

lemma digits_value_zeros [simp]: "digits_value (replicate n (CHR ''0'')) = 0"
  by (induction n) (simp_all add: replicate_append_same [symmetric] char_digit_def)

lemma digits_value_pad [simp]: "digits_value (padStart n (CHR ''0'') s) = digits_value s"
  by (simp add: padStart_def digits_value_append)

lemma digits_value_nat_text [simp]: "digits_value (nat_text n) = n"
proof (induction n rule: nat_text.induct)
  case (1 n)
  show ?case
  proof (cases "n < 10")
    case True
    then show ?thesis
      by (subst nat_text.simps) (simp add: digits_value_def)
  next
    case False
    with 1 show ?thesis by (subst nat_text.simps) simp
  qed
qed

lemma nat_text_digits: "list_all is_digit (nat_text n)"
proof (induction n rule: nat_text.induct)
  case (1 n)
  then show ?case by (cases "n < 10") (simp_all add: nat_text.simps [of n])
qed

lemma nat_text_nonempty [simp]: "nat_text n \<noteq> []"
  by (subst nat_text.simps) simp

lemma nat_text_inject [simp]: "nat_text m = nat_text n \<longleftrightarrow> m = n"
  by (metis digits_value_nat_text)

lemma nat_text_length_bound: "n < 10 ^ k \<Longrightarrow> 0 < k \<Longrightarrow> length (nat_text n) \<le> k"
proof (induction n arbitrary: k rule: nat_text.induct)
  case (1 n)
  show ?case
  proof (cases "n < 10")
    case True
    with 1 show ?thesis by (simp add: nat_text.simps [of n])
  next
    case False
    with 1(2,3) obtain j where k: "k = Suc j" "0 < j"
      by (cases k; cases "k - 1") auto
    with 1(2) have "n div 10 < 10 ^ j" by (simp add: less_mult_imp_div_less mult.commute)
    with 1(1) False k(2) have "length (nat_text (n div 10)) \<le> j" by blast
    with False k show ?thesis by (simp add: nat_text.simps [of n])
  qed
qed

lemma length_padStart [simp]: "length (padStart n c s) = max n (length s)"
  by (simp add: padStart_def)

lemma int_text_inject [simp]: "int_text i = int_text j \<longleftrightarrow> i = j"
proof -
  have minus: "CHR ''-'' \<notin> set (nat_text n)" for n
    using nat_text_digits [of n] by (auto simp: list_all_iff is_digit_def)
  have hd: "nat_text n \<noteq> CHR ''-'' # s" for n s
    using minus [of n] by (metis list.set_intros(1))
  show ?thesis using hd hd [symmetric] by (auto simp: int_text_def)
qed

section \<open>Arrays: comparator sort, sets in insertion order\<close>

text \<open>
  \<open>xs.sort(cmp)\<close> is the stable sort by the comparator; for a comparator that is a total
  preorder there is one stable result, computed here by insertion from the right.
\<close>

fun sort_insert :: "('a \<Rightarrow> 'a \<Rightarrow> int) \<Rightarrow> 'a \<Rightarrow> 'a list \<Rightarrow> 'a list" where
  "sort_insert cmp x [] = [x]"
| "sort_insert cmp x (y # ys) = (if cmp x y \<le> 0 then x # y # ys else y # sort_insert cmp x ys)"

definition js_sort :: "('a \<Rightarrow> 'a \<Rightarrow> int) \<Rightarrow> 'a list \<Rightarrow> 'a list" where
  "js_sort cmp xs = foldr (sort_insert cmp) xs []"

lemma js_sort_simps [simp]:
  "js_sort cmp [] = []"
  "js_sort cmp (x # xs) = sort_insert cmp x (js_sort cmp xs)"
  by (simp_all add: js_sort_def)

lemma mset_sort_insert [simp]: "mset (sort_insert cmp x xs) = add_mset x (mset xs)"
  by (induction xs) auto

lemma mset_js_sort [simp]: "mset (js_sort cmp xs) = mset xs"
  by (induction xs) auto

lemma set_js_sort [simp]: "set (js_sort cmp xs) = set xs"
  by (metis mset_js_sort set_mset_mset)

lemma length_js_sort [simp]: "length (js_sort cmp xs) = length xs"
  by (metis mset_js_sort size_mset)

lemma js_sort_Nil_iff [simp]: "js_sort cmp xs = [] \<longleftrightarrow> xs = []"
  using length_js_sort [of cmp xs] by (metis length_0_conv)

lemma distinct_js_sort [simp]: "distinct (map f (js_sort cmp xs)) = distinct (map f xs)"
proof -
  have "mset (map f (js_sort cmp xs)) = mset (map f xs)" by (simp add: mset_map)
  then show ?thesis by (rule mset_eq_imp_distinct_iff)
qed

lemma set_sort_insert [simp]: "set (sort_insert cmp x xs) = insert x (set xs)"
  by (metis mset_sort_insert set_mset_add_mset_insert set_mset_mset)

lemma sort_insert_cong:
  "(\<And>y. y \<in> set xs \<Longrightarrow> cmp x y = cmp' x y) \<Longrightarrow> sort_insert cmp x xs = sort_insert cmp' x xs"
  by (induction xs) auto

lemma js_sort_cong:
  "(\<And>x y. x \<in> set xs \<Longrightarrow> y \<in> set xs \<Longrightarrow> cmp x y = cmp' x y) \<Longrightarrow> js_sort cmp xs = js_sort cmp' xs"
proof (induction xs)
  case (Cons x xs)
  then have "js_sort cmp xs = js_sort cmp' xs" by simp
  moreover have "sort_insert cmp x (js_sort cmp' xs) = sort_insert cmp' x (js_sort cmp' xs)"
    using Cons.prems by (intro sort_insert_cong) simp
  ultimately show ?case by simp
qed simp

lemma mset_concat_map: "mset (concat (map h xs)) = sum_mset (image_mset (\<lambda>x. mset (h x)) (mset xs))"
  by (induction xs) simp_all

text \<open>What a sort needs of its comparator: a total preorder read off the sign.\<close>

locale comparator =
  fixes cmp :: "'a \<Rightarrow> 'a \<Rightarrow> int"
  assumes cmp_total: "0 < cmp x y \<Longrightarrow> cmp y x \<le> 0"
    and cmp_trans: "cmp x y \<le> 0 \<Longrightarrow> cmp y z \<le> 0 \<Longrightarrow> cmp x z \<le> 0"
begin

lemma sorted_insert:
  "sorted_wrt (\<lambda>a b. cmp a b \<le> 0) xs \<Longrightarrow> sorted_wrt (\<lambda>a b. cmp a b \<le> 0) (sort_insert cmp x xs)"
proof (induction xs)
  case (Cons y ys)
  show ?case
  proof (cases "cmp x y \<le> 0")
    case True
    with Cons.prems show ?thesis by (auto intro: cmp_trans)
  next
    case False
    then have yx: "cmp y x \<le> 0" using cmp_total [of x y] by simp
    with Cons False yx show ?thesis by auto
  qed
qed simp

lemma sorted_js_sort: "sorted_wrt (\<lambda>a b. cmp a b \<le> 0) (js_sort cmp xs)"
  by (induction xs) (auto intro: sorted_insert)

text \<open>
  A list whose elements are told apart by the comparator has exactly one sorted order, so the
  result does not depend on the order of the input.
\<close>

lemma sorted_unique:
  assumes "sorted_wrt (\<lambda>a b. cmp a b \<le> 0) xs" and "sorted_wrt (\<lambda>a b. cmp a b \<le> 0) ys"
    and "mset xs = mset ys"
    and "\<And>a b. a \<in> set xs \<Longrightarrow> b \<in> set xs \<Longrightarrow> cmp a b \<le> 0 \<Longrightarrow> cmp b a \<le> 0 \<Longrightarrow> a = b"
  shows "xs = ys"
  using assms
proof (induction xs arbitrary: ys)
  case Nil
  then show ?case by simp
next
  case (Cons x xs)
  from Cons.prems(3) obtain y ys' where ys: "ys = y # ys'" by (cases ys) auto
  have sets: "set (x # xs) = set ys" using Cons.prems(3) by (metis set_mset_mset)
  have refl: "cmp a a \<le> 0" for a using cmp_total [of a a] by linarith
  have "cmp x y \<le> 0" using Cons.prems(1) sets ys refl [of x] by auto
  moreover have "cmp y x \<le> 0" using Cons.prems(2) sets ys refl [of y] by auto
  ultimately have xy: "x = y" using Cons.prems(4) sets ys by auto
  then have "mset xs = mset ys'" using Cons.prems(3) ys by simp
  then have "xs = ys'" using Cons.IH [of ys'] Cons.prems(1,2,4) ys by auto
  with xy ys show ?case by simp
qed

lemma js_sort_perm:
  assumes "mset xs = mset ys"
    and "\<And>a b. a \<in> set xs \<Longrightarrow> b \<in> set xs \<Longrightarrow> cmp a b \<le> 0 \<Longrightarrow> cmp b a \<le> 0 \<Longrightarrow> a = b"
  shows "js_sort cmp xs = js_sort cmp ys"
  by (rule sorted_unique [OF sorted_js_sort sorted_js_sort]) (use assms in auto)

end

text \<open>The comparator of two texts (or of any linear order), as the source writes it out.\<close>

definition compareText :: "('a :: linorder) \<Rightarrow> 'a \<Rightarrow> int" where
  "compareText a b = (if a < b then - 1 else if b < a then 1 else 0)"

lemma compareText_le [simp]: "compareText a b \<le> 0 \<longleftrightarrow> a \<le> b"
  by (auto simp: compareText_def)

lemma compareText_less [simp]: "0 < compareText a b \<longleftrightarrow> b < a"
  by (auto simp: compareText_def)

lemma compareText_zero [simp]: "compareText a b = 0 \<longleftrightarrow> a = b"
  by (auto simp: compareText_def)

text \<open>\<open>a || b\<close> on numbers.\<close>

definition or_else :: "int \<Rightarrow> int \<Rightarrow> int" where
  "or_else a b = (if a \<noteq> 0 then a else b)"

interpretation text_order: comparator "\<lambda>x y. compareText (f x) (f y)" for f :: "'a \<Rightarrow> 'b :: linorder"
  by unfold_locales auto

definition js_set :: "'a list \<Rightarrow> 'a list" where
  "js_set xs = rev (remdups (rev xs))"

lemma set_js_set [simp]: "set (js_set xs) = set xs"
  by (simp add: js_set_def)

lemma distinct_js_set [simp]: "distinct (js_set xs)"
  by (simp add: js_set_def)

lemma js_set_Nil [simp]: "js_set [] = []" "js_set xs = [] \<longleftrightarrow> xs = []"
  by (simp_all add: js_set_def)

lemma js_set_distinct: "distinct xs \<Longrightarrow> js_set xs = xs"
  by (simp add: js_set_def distinct_remdups_id)

lemma length_js_set: "length (js_set xs) = length xs \<longleftrightarrow> distinct xs"
  using length_remdups_eq [of "rev xs"] by (simp add: js_set_def remdups_id_iff_distinct)

lemma several_js_set: "1 < length (js_set xs) \<longleftrightarrow> (\<exists>x\<in>set xs. \<exists>y\<in>set xs. x \<noteq> y)"
proof -
  have "length (js_set xs) = card (set xs)" by (metis distinct_card distinct_js_set set_js_set)
  then show ?thesis using card_le_Suc0_iff_eq [of "set xs"] by (auto simp: not_less_eq_eq [symmetric])
qed

lemma set_map_filter: "set (List.map_filter f xs) = {y. \<exists>x\<in>set xs. f x = Some y}"
  by (auto simp: List.map_filter_def image_iff) (metis option.sel)

text \<open>\<open>[...new Set(xs)].sort()\<close>: it depends on the members only.\<close>

definition sorted_set :: "('a :: linorder) list \<Rightarrow> 'a list" where
  "sorted_set xs = sort (js_set xs)"

lemma set_sorted_set [simp]: "set (sorted_set xs) = set xs"
  by (simp add: sorted_set_def)

lemma sorted_sorted_set [simp]: "sorted (sorted_set xs)"
  by (simp add: sorted_set_def)

lemma distinct_sorted_set [simp]: "distinct (sorted_set xs)"
  by (simp add: sorted_set_def)

lemma sorted_set_cong: "set xs = set ys \<Longrightarrow> sorted_set xs = sorted_set ys"
  by (metis distinct_sorted_set set_sorted_set sorted_distinct_set_unique sorted_sorted_set)

lemma sorted_set_Nil [simp]: "sorted_set [] = []" "sorted_set xs = [] \<longleftrightarrow> xs = []"
  by (metis set_empty set_sorted_set)+

section \<open>Truncating division\<close>

lemma smod_zero_iff_dvd: "(a :: int) smod b = 0 \<longleftrightarrow> b dvd a"
proof -
  have "a smod b = sgn a * (\<bar>a\<bar> mod \<bar>b\<bar>)" by (rule smod_int_alt_def)
  then show ?thesis by (auto simp: sgn_if dvd_eq_mod_eq_0 [symmetric])
qed

lemma sdiv_exact: "(b :: int) dvd a \<Longrightarrow> a sdiv b = a div b"
proof -
  assume "b dvd a"
  then obtain k where a: "a = b * k" ..
  show ?thesis
  proof (cases "b = 0")
    case False
    have "(b * k) sdiv b = sgn (b * k) * sgn b * (\<bar>b\<bar> * \<bar>k\<bar> div \<bar>b\<bar>)"
      by (simp add: signed_divide_int_def abs_mult)
    also have "\<dots> = sgn k * \<bar>k\<bar>"
      using False by (simp add: sgn_mult mult.assoc mult.commute [of "sgn k"])
    finally show ?thesis using a False by (simp add: sgn_mult_abs)
  qed simp
qed

end
