(* ===== verification/Exact_Values.thy ===== *)
theory Exact_Values
  imports Kogane_Prelude
begin

text \<open>
  The exact quantities of \<open>packages/domain/src/values.ts\<close>: decimals \<open>coefficient * 10 ^ -scale\<close> in
  the decimal-v1 canonical form, ratios, explicit rounding, and quantities that carry a unit and
  a value state.

  The source stores a coefficient as the text of a BigInt in its canonical form. The model keeps
  the integer and writes \<open>int_text\<close> where the text itself is read (its length, its digits);
  \<open>int_text\<close> is injective, and \<open>coefficient === "0"\<close>, \<open>coefficient.startsWith("-")\<close> and
  \<open>coefficient.endsWith("0")\<close> become the tests \<open>= 0\<close>, \<open>< 0\<close> and divisibility by ten. The meaning
  of a decimal is its rational \<open>dec_value\<close>.
\<close>

section \<open>Data\<close>

record ExactDecimal =
  coefficient :: int
  scale :: nat

definition DECIMAL_DIGIT_LIMIT :: nat where
  "DECIMAL_DIGIT_LIMIT = 4096"

definition ARITHMETIC_POLICY_VERSION :: string where
  "ARITHMETIC_POLICY_VERSION = ''exact-arith-v1''"

datatype AbsentStatus = Missing | Unparsed | Conflict

datatype ValueState =
    ExactValue ExactDecimal string
  | AbsentValue AbsentStatus string

record Quantity =
  unitRef :: string
  quantityValue :: ValueState

record ExactRatio =
  numerator :: int
  denominator :: int

datatype RoundingMode = Down | Up | Floor | Ceiling | HalfUp | HalfEven

record Rounding =
  roundScale :: nat
  roundMode :: RoundingMode

datatype ValueErrorCode =
    Unit_mismatch | Value_not_exact | Inexact_result | Invalid_decimal | Invalid_ratio
  | Division_by_zero

record ValueError =
  errorCode :: ValueErrorCode
  errorMessage :: string
  errorRefs :: "string list"

fun value_error_text :: "ValueErrorCode \<Rightarrow> string" where
  "value_error_text Unit_mismatch = ''unit_mismatch''"
| "value_error_text Value_not_exact = ''value_not_exact''"
| "value_error_text Inexact_result = ''inexact_result''"
| "value_error_text Invalid_decimal = ''invalid_decimal''"
| "value_error_text Invalid_ratio = ''invalid_ratio''"
| "value_error_text Division_by_zero = ''division_by_zero''"

definition value_error :: "ValueErrorCode \<Rightarrow> string \<Rightarrow> string list \<Rightarrow> ValueError" where
  "value_error c m rs = \<lparr>errorCode = c, errorMessage = m, errorRefs = rs\<rparr>"

definition isText :: "nat \<Rightarrow> string \<Rightarrow> bool" where
  "isText mx s \<longleftrightarrow> 0 < length s \<and> length s \<le> mx"

definition validExactDecimal :: "ExactDecimal \<Rightarrow> bool" where
  "validExactDecimal d \<longleftrightarrow>
     length (int_text (coefficient d)) \<le> DECIMAL_DIGIT_LIMIT + 1 \<and>
     scale d \<le> DECIMAL_DIGIT_LIMIT \<and>
     (if coefficient d = 0 then scale d = 0
      else scale d = 0 \<or> coefficient d smod 10 \<noteq> 0)"

definition validExactRatio :: "ExactRatio \<Rightarrow> bool" where
  "validExactRatio r \<longleftrightarrow>
     length (int_text (numerator r)) \<le> DECIMAL_DIGIT_LIMIT + 1 \<and>
     length (int_text (denominator r)) \<le> DECIMAL_DIGIT_LIMIT \<and>
     0 < denominator r"

fun validValueState :: "ValueState \<Rightarrow> bool" where
  "validValueState (ExactValue v nv) \<longleftrightarrow> validExactDecimal v \<and> isText 64 nv"
| "validValueState (AbsentValue s reason) \<longleftrightarrow> isText 128 reason"

definition validQuantity :: "Quantity \<Rightarrow> bool" where
  "validQuantity q \<longleftrightarrow> isText 128 (unitRef q) \<and> validValueState (quantityValue q)"

section \<open>Canonical decimals\<close>

fun strip_zeros :: "int \<Rightarrow> nat \<Rightarrow> int \<times> nat" where
  "strip_zeros c 0 = (c, 0)"
| "strip_zeros c (Suc s) = (if c smod 10 = 0 then strip_zeros (c sdiv 10) s else (c, Suc s))"

definition normalizeDecimal :: "int \<Rightarrow> int \<Rightarrow> ExactDecimal" where
  "normalizeDecimal coeff scl =
     (let (c, s) = (if scl < 0 then (coeff * 10 ^ nat (- scl), 0) else (coeff, nat scl))
      in if c = 0 then \<lparr>coefficient = 0, scale = 0\<rparr>
         else let (c', s') = strip_zeros c s in \<lparr>coefficient = c', scale = s'\<rparr>)"

definition dec_value :: "ExactDecimal \<Rightarrow> rat" where
  "dec_value d = of_int (coefficient d) / 10 ^ scale d"

definition canonical :: "ExactDecimal \<Rightarrow> bool" where
  "canonical d \<longleftrightarrow> (if coefficient d = 0 then scale d = 0 else scale d = 0 \<or> \<not> 10 dvd coefficient d)"

lemma validExactDecimal_canonical: "validExactDecimal d \<Longrightarrow> canonical d"
  by (auto simp: validExactDecimal_def canonical_def smod_zero_iff_dvd split: if_splits)

lemma strip_zeros_spec:
  assumes "strip_zeros c s = (c', s')" and "c \<noteq> 0"
  shows "c = c' * 10 ^ (s - s') \<and> s' \<le> s \<and> c' \<noteq> 0 \<and> (s' = 0 \<or> \<not> 10 dvd c')"
  using assms
proof (induction c s rule: strip_zeros.induct)
  case (2 c s)
  show ?case
  proof (cases "10 dvd c")
    case True
    then obtain k where c: "c = 10 * k" ..
    then have k: "c sdiv 10 = k" by (simp add: sdiv_exact)
    with True 2 c have "k = c' * 10 ^ (s - s') \<and> s' \<le> s \<and> c' \<noteq> 0 \<and> (s' = 0 \<or> \<not> 10 dvd c')"
      by (simp add: smod_zero_iff_dvd)
    with c show ?thesis by (auto simp: Suc_diff_le)
  next
    case False
    with 2 show ?thesis by (auto simp: smod_zero_iff_dvd)
  qed
qed auto

lemma normalizeDecimal_spec:
  "canonical (normalizeDecimal c s) \<and>
   dec_value (normalizeDecimal c s) =
     (if s < 0 then of_int c * 10 ^ nat (- s) else of_int c / 10 ^ nat s)"
proof -
  define c0 where "c0 = (if s < 0 then c * 10 ^ nat (- s) else c)"
  define s0 where "s0 = (if s < 0 then 0 else nat s)"
  have unfold: "normalizeDecimal c s = (if c0 = 0 then \<lparr>coefficient = 0, scale = 0\<rparr>
      else let (c', s') = strip_zeros c0 s0 in \<lparr>coefficient = c', scale = s'\<rparr>)"
    by (simp add: normalizeDecimal_def c0_def s0_def)
  have meaning: "(if s < 0 then of_int c * 10 ^ nat (- s) else of_int c / 10 ^ nat s)
      = (of_int c0 / 10 ^ s0 :: rat)"
    by (simp add: c0_def s0_def)
  show ?thesis
  proof (cases "c0 = 0")
    case True
    then show ?thesis unfolding meaning by (simp add: unfold canonical_def dec_value_def)
  next
    case False
    obtain c' s' where sz: "strip_zeros c0 s0 = (c', s')" by fastforce
    note spec = strip_zeros_spec [OF sz False]
    have "(of_int c0 / 10 ^ s0 :: rat) = of_int c' * 10 ^ (s0 - s') / 10 ^ s0"
      using spec by simp
    also have "\<dots> = of_int c' / 10 ^ s'"
      using spec by (simp add: power_diff field_simps)
    finally have val: "(of_int c0 / 10 ^ s0 :: rat) = of_int c' / 10 ^ s'" .
    have nz: "normalizeDecimal c s = \<lparr>coefficient = c', scale = s'\<rparr>"
      using False by (simp only: unfold sz) simp
    show ?thesis unfolding meaning nz val using spec by (simp add: canonical_def dec_value_def)
  qed
qed

lemma canonical_normalizeDecimal [simp, canon_intros]: "canonical (normalizeDecimal c s)"
  by (simp add: normalizeDecimal_spec)

lemma dec_value_normalizeDecimal [value_simps]:
  "dec_value (normalizeDecimal c (int s)) = of_int c / 10 ^ s"
  by (simp add: normalizeDecimal_spec)

text \<open>A rational has at most one canonical decimal.\<close>

lemma canonical_unique_le:
  assumes "canonical a" and "canonical b" and eq: "dec_value a = dec_value b"
    and le: "scale a \<le> scale b"
  shows "a = b"
proof -
  have "(of_int (coefficient a * 10 ^ scale b) :: rat) = of_int (coefficient b * 10 ^ scale a)"
    using eq by (simp add: dec_value_def field_simps)
  then have "coefficient a * 10 ^ scale b = coefficient b * 10 ^ scale a"
    by (simp only: of_int_eq_iff)
  then have "(coefficient a * 10 ^ (scale b - scale a)) * 10 ^ scale a
      = coefficient b * 10 ^ scale a"
    using le by (simp add: mult.assoc flip: power_add)
  then have co: "coefficient b = coefficient a * 10 ^ (scale b - scale a)" by simp
  have "scale a = scale b"
  proof (cases "coefficient b = 0")
    case True
    with assms(1,2) co show ?thesis by (simp add: canonical_def)
  next
    case False
    show ?thesis
    proof (rule ccontr)
      assume "scale a \<noteq> scale b"
      with le have "0 < scale b - scale a" by simp
      then have "10 dvd coefficient b" using co by (simp add: dvd_power)
      with assms(2) False \<open>scale a \<noteq> scale b\<close> le show False by (simp add: canonical_def)
    qed
  qed
  with co show ?thesis by simp
qed

lemma canonical_unique:
  "canonical a \<Longrightarrow> canonical b \<Longrightarrow> dec_value a = dec_value b \<longleftrightarrow> a = b"
  by (metis canonical_unique_le linear)

section \<open>Arithmetic\<close>

definition integerDecimal :: "int \<Rightarrow> ExactDecimal" where
  "integerDecimal i = normalizeDecimal i 0"

definition isZeroDecimal :: "ExactDecimal \<Rightarrow> bool" where
  "isZeroDecimal d \<longleftrightarrow> coefficient d = 0"

record AlignedScales =
  alignedA :: int
  alignedB :: int
  alignedScale :: nat

definition alignScales :: "ExactDecimal \<Rightarrow> ExactDecimal \<Rightarrow> AlignedScales" where
  "alignScales a b =
     (let s = max (scale a) (scale b)
      in \<lparr>alignedA = coefficient a * 10 ^ (s - scale a),
          alignedB = coefficient b * 10 ^ (s - scale b),
          alignedScale = s\<rparr>)"

definition addDecimals :: "ExactDecimal \<Rightarrow> ExactDecimal \<Rightarrow> ExactDecimal" where
  "addDecimals a b =
     (let al = alignScales a b
      in normalizeDecimal (alignedA al + alignedB al) (int (alignedScale al)))"

definition subtractDecimals :: "ExactDecimal \<Rightarrow> ExactDecimal \<Rightarrow> ExactDecimal" where
  "subtractDecimals a b =
     (let al = alignScales a b
      in normalizeDecimal (alignedA al - alignedB al) (int (alignedScale al)))"

definition negateDecimal :: "ExactDecimal \<Rightarrow> ExactDecimal" where
  "negateDecimal a = normalizeDecimal (- coefficient a) (int (scale a))"

definition multiplyDecimals :: "ExactDecimal \<Rightarrow> ExactDecimal \<Rightarrow> ExactDecimal" where
  "multiplyDecimals a b =
     normalizeDecimal (coefficient a * coefficient b) (int (scale a) + int (scale b))"

definition compareDecimals :: "ExactDecimal \<Rightarrow> ExactDecimal \<Rightarrow> int" where
  "compareDecimals a b =
     (let al = alignScales a b
      in if alignedA al < alignedB al then - 1 else if alignedB al < alignedA al then 1 else 0)"

definition decimalEquals :: "ExactDecimal \<Rightarrow> ExactDecimal \<Rightarrow> bool" where
  "decimalEquals a b \<longleftrightarrow> compareDecimals a b = 0"

definition sumDecimals :: "ExactDecimal list \<Rightarrow> ExactDecimal" where
  "sumDecimals ds = foldl addDecimals (integerDecimal 0) ds"

lemma aligned_values:
  "of_int (alignedA (alignScales a b)) / 10 ^ alignedScale (alignScales a b) = dec_value a"
  "of_int (alignedB (alignScales a b)) / 10 ^ alignedScale (alignScales a b) = dec_value b"
  by (simp_all add: alignScales_def Let_def dec_value_def field_simps flip: power_add)

lemma aligned_eq:
  "of_int (alignedA (alignScales a b)) = dec_value a * 10 ^ alignedScale (alignScales a b)"
  "of_int (alignedB (alignScales a b)) = dec_value b * 10 ^ alignedScale (alignScales a b)"
  by (simp_all flip: aligned_values [of a b])

lemma dec_value_integerDecimal [value_simps]: "dec_value (integerDecimal i) = of_int i"
  using normalizeDecimal_spec [of i 0] by (simp add: integerDecimal_def)

lemma dec_value_addDecimals [value_simps]:
  "dec_value (addDecimals a b) = dec_value a + dec_value b"
  by (simp add: addDecimals_def Let_def dec_value_normalizeDecimal add_divide_distrib aligned_values)

lemma dec_value_subtractDecimals [value_simps]:
  "dec_value (subtractDecimals a b) = dec_value a - dec_value b"
  by (simp add: subtractDecimals_def Let_def dec_value_normalizeDecimal diff_divide_distrib
      aligned_values)

lemma dec_value_negateDecimal [value_simps]: "dec_value (negateDecimal a) = - dec_value a"
  by (simp add: negateDecimal_def dec_value_normalizeDecimal) (simp add: dec_value_def)

lemma dec_value_multiplyDecimals [value_simps]:
  "dec_value (multiplyDecimals a b) = dec_value a * dec_value b"
  by (simp add: multiplyDecimals_def dec_value_normalizeDecimal flip: of_nat_add)
    (simp add: dec_value_def power_add)

lemma compareDecimals_value [value_simps]:
  "compareDecimals a b =
     (if dec_value a < dec_value b then - 1 else if dec_value b < dec_value a then 1 else 0)"
proof -
  have less: "x < y \<longleftrightarrow> (of_int x :: rat) < of_int y" for x y :: int by simp
  have "alignedA (alignScales a b) < alignedB (alignScales a b) \<longleftrightarrow> dec_value a < dec_value b"
    "alignedB (alignScales a b) < alignedA (alignScales a b) \<longleftrightarrow> dec_value b < dec_value a"
    unfolding less aligned_eq by simp_all
  then show ?thesis by (simp add: compareDecimals_def Let_def)
qed

lemma decimalEquals_value [value_simps]: "decimalEquals a b \<longleftrightarrow> dec_value a = dec_value b"
  by (auto simp: decimalEquals_def compareDecimals_value)

lemma isZeroDecimal_value [value_simps]: "isZeroDecimal a \<longleftrightarrow> dec_value a = 0"
  by (simp add: isZeroDecimal_def dec_value_def)

lemma dec_value_sumDecimals [value_simps]: "dec_value (sumDecimals ds) = sum_list (map dec_value ds)"
proof -
  have "dec_value (foldl addDecimals z ds) = dec_value z + sum_list (map dec_value ds)" for z
    by (induction ds arbitrary: z) (simp_all add: dec_value_addDecimals)
  then show ?thesis by (simp add: sumDecimals_def dec_value_integerDecimal)
qed

lemma canonical_arith [simp, canon_intros]:
  "canonical (addDecimals a b)" "canonical (subtractDecimals a b)" "canonical (negateDecimal a)"
  "canonical (multiplyDecimals a b)" "canonical (integerDecimal i)"
  by (simp_all add: addDecimals_def subtractDecimals_def negateDecimal_def multiplyDecimals_def
      integerDecimal_def Let_def)

lemma canonical_sumDecimals [simp, canon_intros]: "canonical (sumDecimals ds)"
  by (cases ds rule: rev_cases) (simp_all add: sumDecimals_def)

text \<open>No operation has more decimal places than its operands.\<close>

lemma scale_strip: "snd (strip_zeros c s) \<le> s"
  by (induction c s rule: strip_zeros.induct) auto

lemma scale_normalize: "scale (normalizeDecimal c (int s)) \<le> s"
  using scale_strip [of c s] by (auto simp: normalizeDecimal_def split: prod.split)

lemma scale_subtract: "scale (subtractDecimals a b) \<le> max (scale a) (scale b)"
  using scale_normalize by (simp add: subtractDecimals_def Let_def alignScales_def)

section \<open>Ratios and explicit rounding\<close>

function euclid :: "int \<Rightarrow> int \<Rightarrow> int" where
  "euclid x y = (if y = 0 then x else euclid y (x smod y))"
  by pat_completeness auto
termination
proof (relation "measure (\<lambda>(x, y). nat \<bar>y\<bar>)")
  fix x y :: int
  assume "y \<noteq> 0"
  then have "\<bar>x smod y\<bar> < \<bar>y\<bar>" by (simp add: smod_int_alt_def abs_mult sgn_if)
  then show "((y, x smod y), x, y) \<in> measure (\<lambda>(x, y). nat \<bar>y\<bar>)" by simp
qed simp

declare euclid.simps [simp del]

definition gcdBig :: "int \<Rightarrow> int \<Rightarrow> int" where
  "gcdBig a b = euclid (if a < 0 then - a else a) (if b < 0 then - b else b)"

definition roundQuotient :: "RoundingMode \<Rightarrow> int \<Rightarrow> int \<Rightarrow> int" where
  "roundQuotient mode scaled d =
     (let quotient = scaled sdiv d;
          remainder = scaled smod d
      in if remainder = 0 then quotient
         else
           let negative = (scaled < 0);
               twice = (if remainder < 0 then - remainder else remainder) * 2;
               away = quotient + (if negative then - 1 else 1)
           in case mode of
                Down \<Rightarrow> quotient
              | Up \<Rightarrow> away
              | Floor \<Rightarrow> if negative then quotient - 1 else quotient
              | Ceiling \<Rightarrow> if \<not> negative then quotient + 1 else quotient
              | HalfUp \<Rightarrow> if d \<le> twice then away else quotient
              | HalfEven \<Rightarrow>
                  if d < twice \<or> (twice = d \<and> quotient smod 2 \<noteq> 0) then away else quotient)"

text \<open>
  The two factor loops divide \<open>rest\<close> while a prime divides it. The source calls them with the
  reduced positive denominator; the guard \<open>0 < rest\<close> states that.
\<close>

function factorOut :: "int \<Rightarrow> int \<Rightarrow> nat \<Rightarrow> int \<times> nat" where
  "factorOut p rest k =
     (if 0 < rest \<and> 1 < p \<and> rest smod p = 0 then factorOut p (rest sdiv p) (Suc k) else (rest, k))"
  by pat_completeness auto
termination
proof (relation "measure (\<lambda>(p, rest, k). nat rest)")
  fix p rest :: int and k :: nat
  assume "0 < rest \<and> 1 < p \<and> rest smod p = 0"
  then have "0 < rest" "1 < p" "rest sdiv p = rest div p" by (simp_all add: smod_zero_iff_dvd sdiv_exact)
  then have "rest sdiv p < rest" by (simp add: int_div_less_self)
  then show "((p, rest sdiv p, Suc k), p, rest, k) \<in> measure (\<lambda>(p, rest, k). nat rest)"
    using \<open>0 < rest\<close> by simp
qed simp

declare factorOut.simps [simp del]

definition reducedRatio :: "int \<Rightarrow> int \<Rightarrow> int \<times> int" where
  "reducedRatio num den =
     (let (n, d) = (if den < 0 then (- num, - den) else (num, den));
          g = gcdBig n d
      in if 1 < g then (n sdiv g, d sdiv g) else (n, d))"

definition ratioToDecimal :: "int \<Rightarrow> int \<Rightarrow> Rounding option \<Rightarrow> ValueError + ExactDecimal" where
  "ratioToDecimal num den rounding =
     (if den = 0 then Inl (value_error Division_by_zero ''ratio denominator is zero'' [])
      else
        let (n, d) = reducedRatio num den
        in case rounding of
             Some r \<Rightarrow>
               Inr (normalizeDecimal (roundQuotient (roundMode r) (n * 10 ^ roundScale r) d)
                     (int (roundScale r)))
           | None \<Rightarrow>
               (let (rest, twos) = factorOut 2 d 0;
                    (rest, fives) = factorOut 5 rest 0
                in if rest \<noteq> 1 then
                     Inl (value_error Inexact_result
                       ''ratio is not a finite decimal; supply an explicit rounding'' [])
                   else
                     let s = max twos fives
                     in Inr (normalizeDecimal ((n * 10 ^ s) sdiv d) (int s))))"

definition multiplyByRatio ::
  "ExactDecimal \<Rightarrow> ExactRatio \<Rightarrow> Rounding option \<Rightarrow> ValueError + ExactDecimal" where
  "multiplyByRatio v r rounding =
     (if \<not> validExactRatio r then
        Inl (value_error Invalid_ratio ''ratio must be integer / positive integer'' [])
      else ratioToDecimal (coefficient v * numerator r) (denominator r * 10 ^ scale v) rounding)"

definition divideDecimals ::
  "ExactDecimal \<Rightarrow> ExactDecimal \<Rightarrow> Rounding option \<Rightarrow> ValueError + ExactDecimal" where
  "divideDecimals dividend divisor rounding =
     ratioToDecimal (coefficient dividend * 10 ^ scale divisor)
       (coefficient divisor * 10 ^ scale dividend) rounding"

subsection \<open>What the loops compute\<close>

lemma euclid_gcd: "0 \<le> x \<Longrightarrow> 0 \<le> y \<Longrightarrow> euclid x y = gcd x y"
proof (induction x y rule: euclid.induct)
  case (1 x y)
  show ?case
  proof (cases "y = 0")
    case False
    with 1 have "x smod y = x mod y" by (simp add: smod_mod_positive)
    with 1 False show ?thesis by (simp add: euclid.simps [of x y] gcd_red_int [of x y])
  qed (use 1 in \<open>simp add: euclid.simps\<close>)
qed

lemma gcdBig_gcd: "gcdBig a b = gcd a b"
  by (simp add: gcdBig_def euclid_gcd)

lemma factorOut_spec:
  assumes "factorOut p rest k = (rest', k')" and "0 < rest" and "1 < p"
  shows "k \<le> k' \<and> rest = rest' * p ^ (k' - k) \<and> 0 < rest' \<and> \<not> p dvd rest'"
  using assms
proof (induction p rest k rule: factorOut.induct)
  case (1 p rest k)
  show ?case
  proof (cases "p dvd rest")
    case True
    then obtain m where m: "rest = p * m" ..
    with 1 have "0 < m" by (simp add: zero_less_mult_iff)
    moreover have sd: "rest sdiv p = m" using m 1(4) by (simp add: sdiv_exact)
    ultimately have "Suc k \<le> k' \<and> m = rest' * p ^ (k' - Suc k) \<and> 0 < rest' \<and> \<not> p dvd rest'"
      using 1 True by (simp add: factorOut.simps [of p rest k] smod_zero_iff_dvd)
    moreover have "p ^ (k' - k) = p * p ^ (k' - Suc k)" if "Suc k \<le> k'"
      using that by (metis Suc_diff_Suc Suc_le_lessD power_Suc)
    ultimately show ?thesis using m by auto
  next
    case False
    with 1 show ?thesis by (simp add: factorOut.simps [of p rest k] smod_zero_iff_dvd)
  qed
qed

lemma coprime_five: "\<not> 5 dvd (r :: int) \<Longrightarrow> coprime r 5"
proof -
  assume "\<not> 5 dvd r"
  then have "r mod 5 \<in> {1, 2, 3, 4}" by (simp add: dvd_eq_mod_eq_0) presburger
  moreover have "coprime r 5 \<longleftrightarrow> gcd 5 (r mod 5) = 1"
    by (simp add: coprime_iff_gcd_eq_1 gcd.commute flip: gcd_red_int)
  ultimately show ?thesis by (auto simp: gcd_non_0_int)
qed

text \<open>
  A denominator of a reduced fraction is a product of twos and fives exactly when the fraction
  is a finite decimal.
\<close>

lemma finite_decimal_iff:
  fixes n d rest :: int
  assumes "coprime n d" and d: "d = rest * 5 ^ b * 2 ^ a" and "0 < rest"
    and "\<not> 2 dvd rest" and "\<not> 5 dvd rest"
  shows "(\<exists>c s. n * 10 ^ s = c * d) \<longleftrightarrow> rest = 1"
proof
  assume "\<exists>c s. n * 10 ^ s = c * d"
  then obtain c s where "n * 10 ^ s = c * d" by blast
  then have "d dvd n * 10 ^ s" by simp
  then have "d dvd 10 ^ s" using assms(1) by (simp add: coprime_commute coprime_dvd_mult_right_iff)
  then have "rest dvd 2 ^ s * 5 ^ s" using d by (auto simp flip: power_mult_distrib intro: dvd_trans)
  moreover have "coprime rest 2" using assms(4) by simp
  moreover have "coprime rest 5" using assms(5) by (rule coprime_five)
  ultimately have "rest dvd 1"
    by (metis coprime_dvd_mult_right_iff coprime_power_right_iff coprime_def dvd_refl)
  then show "rest = 1" using assms(3) by simp
next
  assume "rest = 1"
  then have "d dvd 2 ^ max a b * 5 ^ max a b"
    using d by (simp add: mult.commute mult_dvd_mono le_imp_power_dvd)
  then have "d dvd n * 10 ^ max a b" by (simp flip: power_mult_distrib)
  then obtain c where "n * 10 ^ max a b = d * c" ..
  then show "\<exists>c s. n * 10 ^ s = c * d" by (metis mult.commute)
qed

lemma reducedRatio_spec:
  assumes "den \<noteq> 0" and "reducedRatio num den = (n, d)"
  shows "0 < d \<and> coprime n d \<and> n * den = num * d"
proof -
  define n0 where "n0 = (if den < 0 then - num else num)"
  define d0 where "d0 = (if den < 0 then - den else den)"
  have d0: "0 < d0" using assms(1) by (simp add: d0_def)
  have cross: "n0 * den = num * d0" by (simp add: n0_def d0_def)
  define g where "g = gcd n0 d0"
  have g: "0 < g" "g dvd n0" "g dvd d0" using d0 by (simp_all add: g_def)
  have "reducedRatio num den = (if 1 < g then (n0 sdiv g, d0 sdiv g) else (n0, d0))"
    by (simp add: reducedRatio_def gcdBig_gcd Let_def g_def n0_def d0_def)
  also have "\<dots> = (n0 div g, d0 div g)"
    using g by (auto simp: sdiv_exact)
  finally have nd: "n = n0 div g" "d = d0 div g" using assms(2) by simp_all
  have "coprime n d" unfolding nd g_def using d0 by (intro div_gcd_coprime) simp
  moreover have "0 < d" using g d0 nd by (simp add: pos_imp_zdiv_pos_iff zdvd_imp_le)
  moreover have "n * den = num * d"
  proof -
    have n0: "n0 = n * g" and d0': "d0 = d * g" using g nd by simp_all
    have "(n * den) * g = (num * d) * g" using cross unfolding n0 d0' by (simp add: ac_simps)
    with g(1) show ?thesis by simp
  qed
  ultimately show ?thesis by blast
qed

lemma reducedRatio_value:
  assumes "den \<noteq> 0" and "reducedRatio num den = (n, d)"
  shows "(of_int n / of_int d :: rat) = of_int num / of_int den"
proof -
  note spec = reducedRatio_spec [OF assms]
  then have "(of_int (n * den) :: rat) = of_int (num * d)" by (simp only:)
  then show ?thesis using spec assms(1) by (simp add: field_simps)
qed

text \<open>
  The exact conversion: it returns the ratio's value when that is a finite decimal, and refuses
  exactly when it is not.
\<close>

lemma ratioToDecimal_exact:
  assumes den: "den \<noteq> 0"
  shows "case ratioToDecimal num den None of
      Inr v \<Rightarrow> canonical v \<and> dec_value v = of_int num / of_int den
    | Inl e \<Rightarrow> errorCode e = Inexact_result \<and> \<not> (\<exists>v. dec_value v = of_int num / of_int den)"
proof -
  obtain n d where nd: "reducedRatio num den = (n, d)" by fastforce
  note red = reducedRatio_spec [OF den nd] and quot = reducedRatio_value [OF den nd]
  obtain r1 a where f2: "factorOut 2 d 0 = (r1, a)" by fastforce
  obtain rest b where f5: "factorOut 5 r1 0 = (rest, b)" by fastforce
  have s2: "d = r1 * 2 ^ a" "0 < r1" "\<not> 2 dvd r1"
    using factorOut_spec [OF f2] red by auto
  have s5: "r1 = rest * 5 ^ b" "0 < rest" "\<not> 5 dvd rest"
    using factorOut_spec [OF f5] s2 by auto
  have d: "d = rest * 5 ^ b * 2 ^ a" using s2 s5 by simp
  have odd: "\<not> 2 dvd rest" using s2(3) s5(1) by simp
  have iff: "(\<exists>c s. n * 10 ^ s = c * d) \<longleftrightarrow> rest = 1"
    using red d s5 odd by (intro finite_decimal_iff [where b = b and a = a]) auto
  have dec: "(\<exists>v. dec_value v = of_int num / of_int den) \<longleftrightarrow> (\<exists>c s. n * 10 ^ s = c * d)"
  proof -
    have "dec_value v = of_int num / of_int den \<longleftrightarrow> n * 10 ^ scale v = coefficient v * d" for v
    proof -
      have "dec_value v = of_int num / of_int den
          \<longleftrightarrow> (of_int (n * 10 ^ scale v) :: rat) = of_int (coefficient v * d)"
        using red by (auto simp: dec_value_def quot [symmetric] field_simps)
      then show ?thesis by (simp only: of_int_eq_iff)
    qed
    then show ?thesis by (metis ExactDecimal.select_convs)
  qed
  show ?thesis
  proof (cases "rest = 1")
    case True
    then have "d dvd 2 ^ max a b * 5 ^ max a b"
      using d by (simp add: mult.commute mult_dvd_mono le_imp_power_dvd)
    then have dv: "d dvd n * 10 ^ max a b" by (simp flip: power_mult_distrib)
    then have "(n * 10 ^ max a b) sdiv d * d = n * 10 ^ max a b" by (simp add: sdiv_exact)
    then have "(of_int ((n * 10 ^ max a b) sdiv d) :: rat) * of_int d = of_int (n * 10 ^ max a b)"
      by (metis of_int_mult)
    then have "of_int ((n * 10 ^ max a b) sdiv d) / 10 ^ max a b = (of_int n / of_int d :: rat)"
      using red by (simp add: field_simps)
    then show ?thesis
      using True den
      by (simp add: ratioToDecimal_def nd f2 f5 dec_value_normalizeDecimal quot Let_def)
  next
    case False
    then show ?thesis using den iff dec
      by (simp add: ratioToDecimal_def nd f2 f5 value_error_def)
  qed
qed

subsection \<open>What the rounding modes mean\<close>

text \<open>\<open>rounds_to m y z\<close>: the integer \<open>z\<close> is the rational \<open>y\<close> rounded under the mode.\<close>

fun rounds_to :: "RoundingMode \<Rightarrow> rat \<Rightarrow> int \<Rightarrow> bool" where
  "rounds_to Down y z \<longleftrightarrow> \<bar>y - of_int z\<bar> < 1 \<and> \<bar>of_int z\<bar> \<le> \<bar>y\<bar> \<and> 0 \<le> y * of_int z"
| "rounds_to Up y z \<longleftrightarrow> \<bar>y - of_int z\<bar> < 1 \<and> \<bar>y\<bar> \<le> \<bar>of_int z\<bar> \<and> 0 \<le> y * of_int z"
| "rounds_to Floor y z \<longleftrightarrow> of_int z \<le> y \<and> y < of_int z + 1"
| "rounds_to Ceiling y z \<longleftrightarrow> y \<le> of_int z \<and> of_int z - 1 < y"
| "rounds_to HalfUp y z \<longleftrightarrow>
     \<bar>y - of_int z\<bar> \<le> 1 / 2 \<and> (\<bar>y - of_int z\<bar> = 1 / 2 \<longrightarrow> \<bar>y\<bar> < \<bar>of_int z\<bar>)"
| "rounds_to HalfEven y z \<longleftrightarrow>
     \<bar>y - of_int z\<bar> \<le> 1 / 2 \<and> (\<bar>y - of_int z\<bar> = 1 / 2 \<longrightarrow> even z)"

text \<open>
  The shape shared by every mode: the quotient's magnitude \<open>q\<close>, the remainder as a fraction
  \<open>f\<close> below one, and the comparisons of the code as comparisons of \<open>f\<close>.
\<close>

lemma quotient_shape:
  fixes m d :: int
  assumes "0 < d" and "0 \<le> m"
  obtains f :: rat where "of_int m / of_int d = of_int (m div d) + f" and "0 \<le> f" and "f < 1"
    and "m mod d = 0 \<longleftrightarrow> f = 0" and "d \<le> m mod d * 2 \<longleftrightarrow> 1 / 2 \<le> f"
    and "d < m mod d * 2 \<longleftrightarrow> 1 / 2 < f" and "m mod d * 2 = d \<longleftrightarrow> f = 1 / 2"
proof
  let ?f = "of_int (m mod d) / of_int d :: rat"
  have d: "(0 :: rat) < of_int d" using assms(1) by simp
  have m: "m = m div d * d + m mod d" by simp
  have "(of_int m :: rat) = of_int (m div d) * of_int d + of_int (m mod d)"
    by (subst m) (simp only: of_int_add of_int_mult)
  then show "of_int m / of_int d = of_int (m div d) + ?f" using d by (simp add: field_simps)
  show "0 \<le> ?f" "?f < 1" using assms(1) by simp_all
  show "m mod d = 0 \<longleftrightarrow> ?f = 0" using assms(1) by simp
  have le: "x \<le> y \<longleftrightarrow> (of_int x :: rat) \<le> of_int y" for x y :: int by simp
  show half: "d \<le> m mod d * 2 \<longleftrightarrow> 1 / 2 \<le> ?f"
    unfolding le using d by (simp add: field_simps)
  have le': "m mod d * 2 \<le> d \<longleftrightarrow> ?f \<le> 1 / 2"
    unfolding le using d by (simp add: field_simps)
  show "d < m mod d * 2 \<longleftrightarrow> 1 / 2 < ?f" using le' by (simp add: not_le [symmetric])
  show "m mod d * 2 = d \<longleftrightarrow> ?f = 1 / 2" using le' half by (metis antisym order_refl)
qed

text \<open>The magnitude the code returns, by mode, sign, quotient magnitude and fraction.\<close>

definition roundMagnitude :: "RoundingMode \<Rightarrow> bool \<Rightarrow> int \<Rightarrow> rat \<Rightarrow> int" where
  "roundMagnitude mode negative q f =
     (if f = 0 then q
      else case mode of
        Down \<Rightarrow> q
      | Up \<Rightarrow> q + 1
      | Floor \<Rightarrow> if negative then q + 1 else q
      | Ceiling \<Rightarrow> if negative then q else q + 1
      | HalfUp \<Rightarrow> if 1 / 2 \<le> f then q + 1 else q
      | HalfEven \<Rightarrow> if 1 / 2 < f \<or> (f = 1 / 2 \<and> odd q) then q + 1 else q)"

lemma roundQuotient_magnitude:
  assumes "0 < d"
  obtains q f where "of_int N / of_int d = (if N < 0 then - (of_int q + f) else of_int q + f)"
    and "0 \<le> q" and "0 \<le> f" and "f < 1"
    and "roundQuotient mode N d =
      (if N < 0 then - roundMagnitude mode (N < 0) q f else roundMagnitude mode (N < 0) q f)"
proof -
  define m where "m = \<bar>N\<bar>"
  have m: "0 \<le> m" by (simp add: m_def)
  obtain f :: rat where f: "of_int m / of_int d = of_int (m div d) + f" "0 \<le> f" "f < 1"
    "m mod d = 0 \<longleftrightarrow> f = 0" "d \<le> m mod d * 2 \<longleftrightarrow> 1 / 2 \<le> f"
    "d < m mod d * 2 \<longleftrightarrow> 1 / 2 < f" "m mod d * 2 = d \<longleftrightarrow> f = 1 / 2"
    by (rule quotient_shape [OF assms m]) (rule that)
  define q r where "q = m div d" and "r = m mod d"
  have q: "0 \<le> q" and r: "0 \<le> r" using assms m by (simp_all add: q_def r_def pos_imp_zdiv_nonneg_iff)
  have sd: "N sdiv d = (if N < 0 then - q else q)" "N smod d = (if N < 0 then - r else r)"
    using assms m by (auto simp: signed_divide_int_def smod_int_alt_def sgn_if q_def r_def m_def)
  have par: "(- q) smod 2 = 0 \<longleftrightarrow> even q" "q smod 2 = 0 \<longleftrightarrow> even q" by (simp_all add: smod_zero_iff_dvd)
  have "roundQuotient mode N d =
      (if N < 0 then - roundMagnitude mode (N < 0) q f else roundMagnitude mode (N < 0) q f)"
  proof -
    have rem: "(if N < 0 then - r else r) = 0 \<longleftrightarrow> f = 0" using f(4) by (simp add: r_def)
    have twice: "(if (if N < 0 then - r else r) < 0 then - (if N < 0 then - r else r)
        else (if N < 0 then - r else r)) * 2 = r * 2"
      using r by auto
    have odd: "(if N < 0 then - q else q) smod 2 \<noteq> 0 \<longleftrightarrow> odd q" using par by simp
    show ?thesis
      unfolding roundQuotient_def Let_def sd twice rem odd roundMagnitude_def f(5-7) [folded r_def]
      by (cases mode; cases "N < 0"; cases "f = 0") simp_all
  qed
  moreover have "of_int N / of_int d = (if N < 0 then - (of_int q + f) else of_int q + f)"
    using f(1) by (auto simp: m_def q_def abs_if split: if_splits)
  ultimately show thesis using that q f(2,3) by blast
qed

lemma roundMagnitude_spec:
  fixes f :: rat
  assumes "0 \<le> q" and "0 \<le> f" and "f < 1"
  shows "rounds_to mode (if ng then - (of_int q + f) else of_int q + f)
    (if ng then - roundMagnitude mode ng q f else roundMagnitude mode ng q f)"
proof -
  have q: "(0 :: rat) \<le> of_int q" using assms(1) by simp
  have prods: "0 \<le> (of_int q + f) * of_int q" "0 \<le> (of_int q + f) * (of_int q + 1)"
    "0 \<le> (of_int q :: rat) * of_int q"
    using q assms(2) by simp_all
  have prod: "0 \<le> (of_int q + f) * of_int (roundMagnitude mode ng q f)"
    using prods assms by (auto simp: roundMagnitude_def split: RoundingMode.split)
  have near: "of_int (roundMagnitude mode ng q f) = of_int q + (0 :: rat) \<and>
      roundMagnitude mode ng q f = q \<or>
      of_int (roundMagnitude mode ng q f) = of_int q + (1 :: rat) \<and> f \<noteq> 0 \<and>
      roundMagnitude mode ng q f = q + 1"
    by (auto simp: roundMagnitude_def split: RoundingMode.split)
  show ?thesis
  proof (cases mode)
    case Down
    then show ?thesis using assms q prod by (cases ng) (simp_all add: roundMagnitude_def algebra_simps)
  next
    case Up
    then show ?thesis using assms q prod by (cases ng) (simp_all add: roundMagnitude_def algebra_simps)
  next
    case Floor
    then show ?thesis using assms by (cases ng) (auto simp: roundMagnitude_def)
  next
    case Ceiling
    then show ?thesis using assms by (cases ng) (auto simp: roundMagnitude_def)
  next
    case HalfUp
    then show ?thesis using assms q by (cases ng) (auto simp: roundMagnitude_def abs_if)
  next
    case HalfEven
    then show ?thesis using assms q by (cases ng) (auto simp: roundMagnitude_def abs_if)
  qed
qed

lemma roundQuotient_spec:
  "0 < d \<Longrightarrow> rounds_to mode (of_int N / of_int d) (roundQuotient mode N d)"
  by (rule roundQuotient_magnitude [of d N mode]) (auto dest: roundMagnitude_spec [of _ _ mode "N < 0"] split: if_splits)

definition ratio_value :: "ExactRatio \<Rightarrow> rat" where
  "ratio_value r = of_int (numerator r) / of_int (denominator r)"

lemma scaled_ratio_value:
  "validExactRatio r \<Longrightarrow>
   of_int (coefficient v * numerator r) / of_int (denominator r * 10 ^ scale v)
     = dec_value v * ratio_value r"
  by (simp add: dec_value_def ratio_value_def)

lemma multiplyByRatio_ok:
  assumes "multiplyByRatio v r None = Inr d"
  shows "canonical d" and "dec_value d = dec_value v * ratio_value r" and "validExactRatio r"
proof -
  show ok: "validExactRatio r" using assms by (auto simp: multiplyByRatio_def split: if_splits)
  then have "denominator r * 10 ^ scale v \<noteq> 0" by (simp add: validExactRatio_def)
  note exact = ratioToDecimal_exact [OF this, of "coefficient v * numerator r",
      unfolded scaled_ratio_value [OF ok]]
  have "ratioToDecimal (coefficient v * numerator r) (denominator r * 10 ^ scale v) None = Inr d"
    using assms ok by (simp add: multiplyByRatio_def)
  with exact show "canonical d" "dec_value d = dec_value v * ratio_value r"
    by simp_all
qed

lemma multiplyByRatio_exact_cases:
  assumes "validExactRatio r"
  shows "case multiplyByRatio v r None of
      Inr d \<Rightarrow> canonical d \<and> dec_value d = dec_value v * ratio_value r
    | Inl e \<Rightarrow> errorCode e = Inexact_result \<and> \<not> (\<exists>d. dec_value d = dec_value v * ratio_value r)"
proof -
  have "denominator r * 10 ^ scale v \<noteq> 0" using assms by (simp add: validExactRatio_def)
  from ratioToDecimal_exact [OF this, of "coefficient v * numerator r",
      unfolded scaled_ratio_value [OF assms]]
  show ?thesis using assms by (simp add: multiplyByRatio_def)
qed

lemma multiplyByRatio_rounding:
  assumes "validExactRatio r"
  shows "\<exists>z. multiplyByRatio v r (Some rd) = Inr (normalizeDecimal z (int (roundScale rd))) \<and>
    rounds_to (roundMode rd) (dec_value v * ratio_value r * 10 ^ roundScale rd) z"
proof -
  let ?num = "coefficient v * numerator r" and ?den = "denominator r * 10 ^ scale v"
  have den: "?den \<noteq> 0" using assms by (simp add: validExactRatio_def)
  obtain n d where nd: "reducedRatio ?num ?den = (n, d)" by fastforce
  have "of_int (n * 10 ^ roundScale rd) / of_int d = dec_value v * ratio_value r * 10 ^ roundScale rd"
    unfolding reducedRatio_value [OF den nd, unfolded scaled_ratio_value [OF assms], symmetric] by simp
  moreover have "0 < d" using reducedRatio_spec [OF den nd] by simp
  ultimately have "rounds_to (roundMode rd) (dec_value v * ratio_value r * 10 ^ roundScale rd)
      (roundQuotient (roundMode rd) (n * 10 ^ roundScale rd) d)"
    by (metis roundQuotient_spec)
  then show ?thesis using assms den nd
    by (auto simp: multiplyByRatio_def ratioToDecimal_def)
qed

section \<open>Decimal text\<close>

definition is_blank :: "char \<Rightarrow> bool" where
  "is_blank c \<longleftrightarrow> c = CHR '' '' \<or> c = CHR 0x09 \<or> c = CHR 0x0D \<or> c = CHR 0x0A"

text \<open>
  The regular expression \<open>DECIMAL_TEXT\<close>: blanks, an optional sign, digits, optionally a dot with at
  least one digit, blanks. Its character classes are disjoint, so reading greedily from the left
  is matching.
\<close>

definition split_sign :: "string \<Rightarrow> bool \<times> string" where
  "split_sign s =
     (case s of
        [] \<Rightarrow> (False, [])
      | c # r \<Rightarrow> if c = CHR ''-'' then (True, r) else if c = CHR ''+'' then (False, r) else (False, s))"

definition split_fraction :: "string \<Rightarrow> string \<times> string" where
  "split_fraction s =
     (case s of
        [] \<Rightarrow> ([], [])
      | c # r \<Rightarrow> if c = CHR ''.'' \<and> takeWhile is_digit r \<noteq> []
                 then (takeWhile is_digit r, dropWhile is_digit r) else ([], s))"

definition decimal_match :: "string \<Rightarrow> (bool \<times> string \<times> string) option" where
  "decimal_match s =
     (let (neg, s2) = split_sign (dropWhile is_blank s);
          (fp, s4) = split_fraction (dropWhile is_digit s2)
      in if list_all is_blank s4 then Some (neg, takeWhile is_digit s2, fp) else None)"

definition decimalFromString :: "string \<Rightarrow> ValueError + ExactDecimal" where
  "decimalFromString s =
     (if length s > DECIMAL_DIGIT_LIMIT then
        Inl (value_error Invalid_decimal ''decimal text exceeds the digit limit'' [])
      else case decimal_match s of
        None \<Rightarrow> Inl (value_error Invalid_decimal ''decimal text is not a plain decimal'' [])
      | Some (neg, ip, fp) \<Rightarrow>
          if ip = [] \<and> fp = [] then
            Inl (value_error Invalid_decimal ''decimal text is not a plain decimal'' [])
          else
            let magnitude = int (digits_value (ip @ fp))
            in Inr (normalizeDecimal (if neg then - magnitude else magnitude) (int (length fp))))"

definition decimalToString :: "ExactDecimal \<Rightarrow> string" where
  "decimalToString v =
     (if scale v = 0 then int_text (coefficient v)
      else
        let negative = (coefficient v < 0);
            digits = (if negative then drop 1 (int_text (coefficient v)) else int_text (coefficient v));
            padded = padStart (scale v + 1) (CHR ''0'') digits;
            ip = take (length padded - scale v) padded;
            fp = drop (length padded - scale v) padded
        in (if negative then ''-'' else []) @ ip @ ''.'' @ fp)"

lemma digit_not_special:
  "is_digit c \<Longrightarrow> \<not> is_blank c \<and> c \<noteq> CHR ''-'' \<and> c \<noteq> CHR ''+'' \<and> c \<noteq> CHR ''.''"
  by (auto simp: is_digit_def is_blank_def)

lemma takeWhile_all: "list_all P xs \<Longrightarrow> takeWhile P xs = xs \<and> dropWhile P xs = []"
  by (induction xs) auto

lemma takeWhile_stop:
  "list_all P xs \<Longrightarrow> \<not> P c \<Longrightarrow> takeWhile P (xs @ c # ys) = xs \<and> dropWhile P (xs @ c # ys) = c # ys"
  by (induction xs) auto

lemma decimal_match_plain:
  assumes "list_all is_digit ip" and "ip \<noteq> []" and "list_all is_digit fp"
  shows "decimal_match ((if neg then ''-'' else []) @ ip @ (if fp = [] then [] else CHR ''.'' # fp))
    = Some (neg, ip, fp)"
proof -
  obtain c r where ip: "ip = c # r" using assms(2) by (cases ip) auto
  then have c: "is_digit c" using assms(1) by simp
  define rest where "rest = (if fp = [] then [] else CHR ''.'' # fp)"
  have dot: "\<not> is_digit CHR ''.''" by (simp add: is_digit_def)
  have digits: "takeWhile is_digit (ip @ rest) = ip \<and> dropWhile is_digit (ip @ rest) = rest"
    using takeWhile_all [OF assms(1)] takeWhile_stop [OF assms(1) dot, of fp] by (simp add: rest_def)
  have sign: "split_sign (dropWhile is_blank ((if neg then ''-'' else []) @ ip @ rest)) = (neg, ip @ rest)"
    using digit_not_special [OF c] by (simp add: ip split_sign_def is_blank_def)
  have frac: "split_fraction rest = (fp, [])"
    by (cases "fp = []")
      (simp_all add: rest_def split_fraction_def
        takeWhile_all [OF assms(3), THEN conjunct1] takeWhile_all [OF assms(3), THEN conjunct2])
  show ?thesis
    unfolding rest_def [symmetric] decimal_match_def sign
    using digits frac by simp
qed

lemma nat_text_padded:
  "list_all is_digit (padStart n (CHR ''0'') (nat_text m))"
  using nat_text_digits [of m] by (auto simp: padStart_def list_all_iff is_digit_def)

lemma decimalToString_parts:
  obtains ip fp where "decimalToString v =
      (if coefficient v < 0 then ''-'' else []) @ ip @ (if fp = [] then [] else CHR ''.'' # fp)"
    and "list_all is_digit ip" and "ip \<noteq> []" and "list_all is_digit fp"
    and "length fp = scale v" and "int (digits_value (ip @ fp)) = \<bar>coefficient v\<bar>"
proof (cases "scale v = 0")
  case True
  show thesis
  proof (rule that [of "nat_text (nat \<bar>coefficient v\<bar>)" "[]"])
    show "decimalToString v = (if coefficient v < 0 then ''-'' else []) @
        nat_text (nat \<bar>coefficient v\<bar>) @ (if [] = [] then [] else CHR ''.'' # [])"
      using True by (simp add: decimalToString_def int_text_def)
  qed (use True nat_text_digits in simp_all)
next
  case False
  define pd where "pd = padStart (scale v + 1) (CHR ''0'') (nat_text (nat \<bar>coefficient v\<bar>))"
  define ip where "ip = take (length pd - scale v) pd"
  define fp where "fp = drop (length pd - scale v) pd"
  have all: "list_all is_digit pd" by (simp add: pd_def nat_text_padded)
  have cat: "ip @ fp = pd" by (simp add: ip_def fp_def)
  have len: "length pd \<ge> scale v + 1" by (simp add: pd_def)
  show thesis
  proof (rule that [of ip fp])
    have "fp \<noteq> []" using len False by (simp add: fp_def)
    then show "decimalToString v =
        (if coefficient v < 0 then ''-'' else []) @ ip @ (if fp = [] then [] else CHR ''.'' # fp)"
      using False by (simp add: decimalToString_def Let_def int_text_def ip_def fp_def pd_def)
    show "list_all is_digit ip" "list_all is_digit fp"
      using all unfolding cat [symmetric] by simp_all
    show "ip \<noteq> []" using len by (simp add: ip_def) (metis Suc_n_not_le_n list.size(3) not_less_eq_eq zero_le)
    show "length fp = scale v" using len by (simp add: fp_def)
    show "int (digits_value (ip @ fp)) = \<bar>coefficient v\<bar>" unfolding cat by (simp add: pd_def)
  qed
qed

lemma normalize_canonical:
  assumes "canonical v"
  shows "normalizeDecimal (coefficient v) (int (scale v)) = v"
proof -
  have "dec_value (normalizeDecimal (coefficient v) (int (scale v))) = dec_value v"
    unfolding dec_value_normalizeDecimal by (simp add: dec_value_def)
  then show ?thesis by (simp add: canonical_unique assms)
qed

section \<open>Quantities\<close>

definition exactQuantity :: "string \<Rightarrow> ExactDecimal \<Rightarrow> Quantity" where
  "exactQuantity u v = \<lparr>unitRef = u, quantityValue = ExactValue v ARITHMETIC_POLICY_VERSION\<rparr>"

definition absentQuantity :: "string \<Rightarrow> AbsentStatus \<Rightarrow> string \<Rightarrow> Quantity" where
  "absentQuantity u status reason = \<lparr>unitRef = u, quantityValue = AbsentValue status reason\<rparr>"

fun absent_status_text :: "AbsentStatus \<Rightarrow> string" where
  "absent_status_text Missing = ''missing''"
| "absent_status_text Unparsed = ''unparsed''"
| "absent_status_text Conflict = ''conflict''"

fun exact_part :: "Quantity \<Rightarrow> ExactDecimal list" where
  "exact_part q = (case quantityValue q of ExactValue v _ \<Rightarrow> [v] | AbsentValue _ _ \<Rightarrow> [])"

fun absent_part :: "Quantity \<Rightarrow> string list" where
  "absent_part q = (case quantityValue q of ExactValue _ _ \<Rightarrow> []
     | AbsentValue status reason \<Rightarrow> [absent_status_text status @ '':'' @ reason])"

definition exactOperands :: "Quantity list \<Rightarrow> string \<Rightarrow> ValueError + ExactDecimal list" where
  "exactOperands quantities u =
     (let units = map unitRef (filter (\<lambda>q. unitRef q \<noteq> u) quantities)
      in if units \<noteq> [] then
           Inl (value_error Unit_mismatch ''quantities with different units are not added'' (u # units))
         else
           let absent = concat (map absent_part quantities)
           in if absent \<noteq> [] then
                Inl (value_error Value_not_exact
                  ''missing, unparsed or conflicting values are never zero'' absent)
              else Inr (concat (map exact_part quantities)))"

definition addQuantities :: "Quantity \<Rightarrow> Quantity \<Rightarrow> ValueError + Quantity" where
  "addQuantities a b =
     (case exactOperands [a, b] (unitRef a) of
        Inl e \<Rightarrow> Inl e
      | Inr vs \<Rightarrow> Inr (exactQuantity (unitRef a) (sumDecimals vs)))"

definition subtractQuantities :: "Quantity \<Rightarrow> Quantity \<Rightarrow> ValueError + Quantity" where
  "subtractQuantities a b =
     (case exactOperands [a, b] (unitRef a) of
        Inl e \<Rightarrow> Inl e
      | Inr vs \<Rightarrow> Inr (exactQuantity (unitRef a) (subtractDecimals (vs ! 0) (vs ! 1))))"

definition sumQuantities :: "string \<Rightarrow> Quantity list \<Rightarrow> ValueError + Quantity" where
  "sumQuantities u quantities =
     (case exactOperands quantities u of
        Inl e \<Rightarrow> Inl e
      | Inr vs \<Rightarrow> Inr (exactQuantity u (sumDecimals vs)))"

definition scaleQuantity :: "Quantity \<Rightarrow> ExactRatio \<Rightarrow> Rounding option \<Rightarrow> ValueError + Quantity" where
  "scaleQuantity q ratio rounding =
     (case quantityValue q of
        AbsentValue status reason \<Rightarrow>
          Inl (value_error Value_not_exact ''only exact quantities are scaled''
            [absent_status_text status @ '':'' @ reason])
      | ExactValue v _ \<Rightarrow>
          (case multiplyByRatio v ratio rounding of
             Inl e \<Rightarrow> Inl e
           | Inr scaled \<Rightarrow> Inr (exactQuantity (unitRef q) scaled)))"

definition compareQuantities :: "Quantity \<Rightarrow> Quantity \<Rightarrow> ValueError + int" where
  "compareQuantities a b =
     (case exactOperands [a, b] (unitRef a) of
        Inl e \<Rightarrow> Inl e
      | Inr vs \<Rightarrow> Inr (compareDecimals (vs ! 0) (vs ! 1)))"

definition is_exact :: "Quantity \<Rightarrow> bool" where
  "is_exact q \<longleftrightarrow> (\<exists>v nv. quantityValue q = ExactValue v nv)"

lemma exactQuantity_simps [simp]:
  "unitRef (exactQuantity u v) = u"
  "quantityValue (exactQuantity u v) = ExactValue v ARITHMETIC_POLICY_VERSION"
  "is_exact (exactQuantity u v)"
  by (simp_all add: exactQuantity_def is_exact_def)

lemma absent_parts_Nil: "concat (map absent_part qs) = [] \<longleftrightarrow> (\<forall>q\<in>set qs. is_exact q)"
  by (induction qs) (auto simp: is_exact_def split: ValueState.splits)

lemma exactOperands_Inr:
  "exactOperands qs u = Inr vs \<longleftrightarrow>
     (\<forall>q\<in>set qs. unitRef q = u \<and> is_exact q) \<and> vs = concat (map exact_part qs)"
  by (auto simp: exactOperands_def Let_def filter_empty_conv absent_parts_Nil
      simp del: absent_part.simps concat_eq_Nil_conv)

lemma addQuantities_exact:
  "addQuantities (exactQuantity u a) (exactQuantity w b) =
     (if u = w then Inr (exactQuantity u (sumDecimals [a, b]))
      else Inl (value_error Unit_mismatch ''quantities with different units are not added'' [u, w]))"
  by (auto simp: addQuantities_def exactOperands_def Let_def)

lemma subtractQuantities_exact:
  "subtractQuantities (exactQuantity u a) (exactQuantity w b) =
     (if u = w then Inr (exactQuantity u (subtractDecimals a b))
      else Inl (value_error Unit_mismatch ''quantities with different units are not added'' [u, w]))"
  by (auto simp: subtractQuantities_def exactOperands_def Let_def)

text \<open>The exact amount of a quantity as a number, and the quantities of one unit that have one.\<close>

definition amount_value :: "Quantity \<Rightarrow> rat" where
  "amount_value q = (case quantityValue q of ExactValue v _ \<Rightarrow> dec_value v | AbsentValue _ _ \<Rightarrow> 0)"

definition exact_in :: "string \<Rightarrow> Quantity \<Rightarrow> bool" where
  "exact_in u q \<longleftrightarrow> unitRef q = u \<and> is_exact q"

lemma compareQuantities_exact:
  assumes "quantityValue a = ExactValue x nx" and "quantityValue b = ExactValue y ny"
  shows "compareQuantities a b =
    (if unitRef a = unitRef b then Inr (compareDecimals x y)
     else Inl (value_error Unit_mismatch ''quantities with different units are not added'' [unitRef a, unitRef b]))"
  using assms by (auto simp: compareQuantities_def exactOperands_def Let_def)

lemma exact_inE:
  assumes "exact_in u q"
  obtains v nv where "unitRef q = u" "quantityValue q = ExactValue v nv" "amount_value q = dec_value v"
  using assms by (auto simp: exact_in_def is_exact_def amount_value_def)

lemma exact_in_exactQuantity [simp]: "exact_in u (exactQuantity w v) \<longleftrightarrow> w = u"
  by (simp add: exact_in_def)

lemma amount_value_exactQuantity [simp]: "amount_value (exactQuantity u v) = dec_value v"
  by (simp add: amount_value_def)

lemma addQuantities_in:
  assumes "exact_in u a" and "exact_in u b"
  obtains q where "addQuantities a b = Inr q" "exact_in u q" "amount_value q = amount_value a + amount_value b"
proof -
  from assms(1) obtain v nv where a: "unitRef a = u" "quantityValue a = ExactValue v nv"
    "amount_value a = dec_value v" by (rule exact_inE)
  from assms(2) obtain w nw where b: "unitRef b = u" "quantityValue b = ExactValue w nw"
    "amount_value b = dec_value w" by (rule exact_inE)
  from a b have "addQuantities a b = Inr (exactQuantity u (sumDecimals [v, w]))"
    "dec_value (sumDecimals [v, w]) = amount_value a + amount_value b"
    by (auto simp: addQuantities_def exactOperands_def Let_def dec_value_sumDecimals)
  then show thesis using that by simp
qed

lemma compareQuantities_in:
  assumes "exact_in u a" and "exact_in u b"
  shows "compareQuantities a b =
    Inr (if amount_value a < amount_value b then - 1 else if amount_value b < amount_value a then 1 else 0)"
proof -
  from assms(1) obtain v nv where a: "unitRef a = u" "quantityValue a = ExactValue v nv"
    "amount_value a = dec_value v" by (rule exact_inE)
  from assms(2) obtain w nw where b: "unitRef b = u" "quantityValue b = ExactValue w nw"
    "amount_value b = dec_value w" by (rule exact_inE)
  from a b show ?thesis by (simp add: compareQuantities_exact compareDecimals_value)
qed

section \<open>Stored decimals\<close>

datatype NormalizedStatus = NormalizedExact | NormalizedAbsent AbsentStatus

datatype NormalizedBasis = Minor_units | Decimal_text | Agreement | No_basis

record NormalizedDecimal =
  policyVersion :: string
  normalizedStatus :: NormalizedStatus
  normalizedCoefficient :: "int option"
  normalizedScale :: "int option"
  normalizedBasis :: NormalizedBasis

definition validNormalizedDecimal :: "NormalizedDecimal \<Rightarrow> bool" where
  "validNormalizedDecimal row \<longleftrightarrow>
     policyVersion row = ''decimal-v1'' \<and>
     (if normalizedStatus row \<noteq> NormalizedExact then
        normalizedCoefficient row = None \<and> normalizedScale row = None \<and>
        normalizedBasis row = No_basis
      else
        normalizedBasis row \<noteq> No_basis \<and>
        (case normalizedCoefficient row of
           None \<Rightarrow> False
         | Some c \<Rightarrow>
             length (int_text c) \<le> 4096 \<and>
             (case normalizedScale row of
                None \<Rightarrow> False
              | Some s \<Rightarrow> 0 \<le> s \<and> s \<le> 4096 \<and> (c \<noteq> 0 \<or> s = 0))))"

definition isNormalizedZero :: "NormalizedDecimal option \<Rightarrow> bool" where
  "isNormalizedZero v \<longleftrightarrow>
     (case v of None \<Rightarrow> False
      | Some row \<Rightarrow> normalizedStatus row = NormalizedExact \<and> normalizedCoefficient row = Some 0)"

definition fromNormalizedDecimal :: "NormalizedDecimal \<Rightarrow> ValueState" where
  "fromNormalizedDecimal v =
     (if \<not> validNormalizedDecimal v then AbsentValue Unparsed ''normalized_decimal_invalid''
      else case normalizedStatus v of
        NormalizedExact \<Rightarrow>
          (case (normalizedCoefficient v, normalizedScale v) of
             (Some c, Some s) \<Rightarrow> ExactValue (normalizeDecimal c s) (policyVersion v)
           | _ \<Rightarrow> AbsentValue Unparsed ''normalized_decimal_invalid'')
      | NormalizedAbsent status \<Rightarrow>
          AbsentValue status (policyVersion v @ '':'' @ absent_status_text status))"

definition quantityFromNormalizedDecimal :: "string \<Rightarrow> NormalizedDecimal \<Rightarrow> Quantity" where
  "quantityFromNormalizedDecimal u v = \<lparr>unitRef = u, quantityValue = fromNormalizedDecimal v\<rparr>"

section \<open>Properties\<close>

text \<open>
  The arithmetic is exact and closed. Addition, subtraction, negation, multiplication
  and summation return canonical decimals whose values are the sum, difference, negation, product
  and total of the operands' values, whatever scales the operands have.
\<close>
theorem decimal_arithmetic_exact:
  "(canonical (addDecimals a b) \<and> dec_value (addDecimals a b) = dec_value a + dec_value b) \<and>
   (canonical (subtractDecimals a b) \<and> dec_value (subtractDecimals a b) = dec_value a - dec_value b) \<and>
   (canonical (negateDecimal a) \<and> dec_value (negateDecimal a) = - dec_value a) \<and>
   (canonical (multiplyDecimals a b) \<and> dec_value (multiplyDecimals a b) = dec_value a * dec_value b) \<and>
   (canonical (sumDecimals ds) \<and> dec_value (sumDecimals ds) = sum_list (map dec_value ds))"
  by (simp add: value_simps)

text \<open>
  The canonical form is a normal form. Two canonical decimals are the same record
  (the same coefficient and the same scale) exactly when they compare as equal.
\<close>
theorem canonical_normal_form:
  assumes "canonical a" and "canonical b"
  shows "decimalEquals a b \<longleftrightarrow> a = b"
  using assms by (simp add: decimalEquals_value canonical_unique)

theorem canonical_normal_form_witness:
  "decimalEquals (normalizeDecimal 1500 2) (addDecimals (integerDecimal 7) (integerDecimal 8)) \<longleftrightarrow>
   normalizeDecimal 1500 2 = addDecimals (integerDecimal 7) (integerDecimal 8)"
  by (rule canonical_normal_form) simp_all

text \<open>
  Multiplication by a ratio without a rounding instruction. The result is canonical
  and has exactly the value \<open>v * n / d\<close>; the only refusal is \<open>inexact_result\<close>, and it is returned
  only when no decimal at all has that value.
\<close>
theorem multiplyByRatio_exact_or_inexact:
  assumes "validExactRatio r"
  shows "case multiplyByRatio v r None of
      Inr d \<Rightarrow> canonical d \<and> dec_value d = dec_value v * ratio_value r
    | Inl e \<Rightarrow> errorCode e = Inexact_result \<and> \<not> (\<exists>d. dec_value d = dec_value v * ratio_value r)"
  using assms by (rule multiplyByRatio_exact_cases)

definition third :: ExactRatio where
  "third = \<lparr>numerator = 1, denominator = 3\<rparr>"

theorem multiplyByRatio_exact_or_inexact_witness:
  "case multiplyByRatio (integerDecimal 1) third None of
      Inr d \<Rightarrow> canonical d \<and> dec_value d = dec_value (integerDecimal 1) * ratio_value third
    | Inl e \<Rightarrow> errorCode e = Inexact_result \<and>
        \<not> (\<exists>d. dec_value d = dec_value (integerDecimal 1) * ratio_value third)"
proof -
  have "validExactRatio third" by code_simp
  then show ?thesis by (rule multiplyByRatio_exact_or_inexact)
qed

text \<open>
  Multiplication by a ratio with an explicit rounding never fails on a valid ratio, and
  the result is the decimal of an integer at the rounding's scale that is the exact product rounded
  under the rounding's mode (towards zero, away from zero, down, up, half away from zero, half to
  even).
\<close>
theorem multiplyByRatio_rounds:
  assumes "validExactRatio r"
  shows "\<exists>z. multiplyByRatio v r (Some rd) = Inr (normalizeDecimal z (int (roundScale rd))) \<and>
    rounds_to (roundMode rd) (dec_value v * ratio_value r * 10 ^ roundScale rd) z"
  using assms by (rule multiplyByRatio_rounding)

theorem multiplyByRatio_rounds_witness:
  "\<exists>z. multiplyByRatio (integerDecimal 2) third (Some \<lparr>roundScale = 2, roundMode = HalfUp\<rparr>)
      = Inr (normalizeDecimal z 2) \<and>
    rounds_to HalfUp (dec_value (integerDecimal 2) * ratio_value third * 10 ^ 2) z"
proof -
  have "validExactRatio third" by code_simp
  from multiplyByRatio_rounds [OF this, of "integerDecimal 2" "\<lparr>roundScale = 2, roundMode = HalfUp\<rparr>"]
  show ?thesis by simp
qed

text \<open>
  Decimal text round-trips. Printing a canonical decimal and parsing the text gives the
  decimal back, as long as the text stays within the digit limit the parser enforces.
\<close>
theorem decimal_text_roundtrip:
  assumes "canonical v" and "length (decimalToString v) \<le> DECIMAL_DIGIT_LIMIT"
  shows "decimalFromString (decimalToString v) = Inr v"
proof -
  obtain ip fp where parts: "decimalToString v =
      (if coefficient v < 0 then ''-'' else []) @ ip @ (if fp = [] then [] else CHR ''.'' # fp)"
    "list_all is_digit ip" "ip \<noteq> []" "list_all is_digit fp" "length fp = scale v"
    "int (digits_value (ip @ fp)) = \<bar>coefficient v\<bar>"
    by (rule decimalToString_parts)
  have "decimal_match (decimalToString v) = Some (coefficient v < 0, ip, fp)"
    unfolding parts(1) by (rule decimal_match_plain [OF parts(2-4)])
  then show ?thesis
    using assms(2) parts(3,5,6) normalize_canonical [OF assms(1)]
    by (auto simp: decimalFromString_def abs_if split: if_splits)
qed

theorem decimal_text_roundtrip_witness:
  "decimalFromString (decimalToString (normalizeDecimal (- 1050) 4)) = Inr (normalizeDecimal (- 1050) 4)"
proof -
  have "length (decimalToString (normalizeDecimal (- 1050) 4)) \<le> DECIMAL_DIGIT_LIMIT" by code_simp
  then show ?thesis by (intro decimal_text_roundtrip) simp_all
qed

text \<open>
  A sum of quantities exists exactly when every operand is in the requested unit and
  has an exact value, and it is then the exact total in that unit: no missing, unparsed or
  conflicting value is counted as zero and no two units are added. A unit mismatch is reported
  before an absent value.
\<close>
theorem sumQuantities_total:
  "sumQuantities u qs =
     (if \<exists>q. q \<in> set qs \<and> unitRef q \<noteq> u then
        Inl (value_error Unit_mismatch ''quantities with different units are not added''
          (u # map unitRef (filter (\<lambda>q. unitRef q \<noteq> u) qs)))
      else if \<exists>q. q \<in> set qs \<and> \<not> is_exact q then
        Inl (value_error Value_not_exact ''missing, unparsed or conflicting values are never zero''
          (concat (map absent_part qs)))
      else Inr (exactQuantity u (sumDecimals (concat (map exact_part qs)))))"
proof -
  have units: "map unitRef (filter (\<lambda>q. unitRef q \<noteq> u) qs) \<noteq> [] \<longleftrightarrow> (\<exists>q. q \<in> set qs \<and> unitRef q \<noteq> u)"
    by (auto simp: filter_empty_conv)
  have absent: "concat (map absent_part qs) \<noteq> [] \<longleftrightarrow> (\<exists>q. q \<in> set qs \<and> \<not> is_exact q)"
    using absent_parts_Nil [of qs] by blast
  show ?thesis
    unfolding sumQuantities_def exactOperands_def Let_def units absent by auto
qed

end
