(* ===== verification/Civil_Time.thy ===== *)
theory Civil_Time
  imports Exact_Values "HOL-Library.Monad_Syntax"
begin

text \<open>
  Role-typed time, \<open>packages/domain/src/time.ts\<close>: civil dates and their day numbers in the proleptic
  Gregorian calendar, month arithmetic, RFC 3339 instants with their own offset, periods as
  half-open day intervals, and the semantic comparison of times, which orders only what the
  evidence orders. Numbers are integers (every value here is far below 2^53); \<open>Math.floor\<close> of a
  quotient is \<open>div\<close>.
\<close>

section \<open>Data\<close>

datatype TemporalBasis = Provider | Collector | Derived

datatype PeriodGranularity = GDay | GMonth | GYear

record PeriodValue =
  periodStart :: string
  periodEnd :: string
  endExclusive :: bool
  periodZone :: "string option"
  granularity :: PeriodGranularity

datatype TemporalValue =
    Instant string string TemporalBasis
  | LocalDate string "string option" TemporalBasis
  | Period PeriodValue
  | UnknownTime string

record CivilDate =
  year :: int
  month :: int
  day :: int

datatype TemporalIncomparableReason = IUnknown_time | IZone_mismatch | IWithin_day | IWithin_period | IOverlap

datatype TemporalOrder = Ordered int | Incomparable TemporalIncomparableReason

record ParsedInstant =
  epochSeconds :: int
  nanoseconds :: int
  instantLocalDate :: string

section \<open>Calendar\<close>

definition isLeapYear :: "int \<Rightarrow> bool" where
  "isLeapYear y \<longleftrightarrow> y mod 4 = 0 \<and> (y mod 100 \<noteq> 0 \<or> y mod 400 = 0)"

definition daysInMonth :: "int \<Rightarrow> int \<Rightarrow> int" where
  "daysInMonth y m =
     (if m = 2 then (if isLeapYear y then 29 else 28)
      else if m \<in> {4, 6, 9, 11} then 30 else 31)"

definition civil :: "int \<Rightarrow> int \<Rightarrow> int \<Rightarrow> CivilDate option" where
  "civil y m d =
     (if m < 1 \<or> m > 12 \<or> d < 1 \<or> d > daysInMonth y m then None
      else Some \<lparr>year = y, month = m, day = d\<rparr>)"

definition validCivil :: "CivilDate \<Rightarrow> bool" where
  "validCivil d \<longleftrightarrow> 1 \<le> month d \<and> month d \<le> 12 \<and> 1 \<le> day d \<and> day d \<le> daysInMonth (year d) (month d)"

definition daysFromCivil :: "CivilDate \<Rightarrow> int" where
  "daysFromCivil date =
     (let y = (if month date \<le> 2 then year date - 1 else year date);
          era = y div 400;
          yoe = y - era * 400;
          mp = (month date + 9) smod 12;
          doy = (153 * mp + 2) div 5 + day date - 1;
          doe = yoe * 365 + yoe div 4 - yoe div 100 + doy
      in era * 146097 + doe - 719468)"

definition civilFromDays :: "int \<Rightarrow> CivilDate" where
  "civilFromDays days =
     (let z = days + 719468;
          era = z div 146097;
          doe = z - era * 146097;
          yoe = (doe - doe div 1460 + doe div 36524 - doe div 146096) div 365;
          doy = doe - (365 * yoe + yoe div 4 - yoe div 100);
          mp = (5 * doy + 2) div 153;
          d = doy - (153 * mp + 2) div 5 + 1;
          m = (if mp < 10 then mp + 3 else mp - 9)
      in \<lparr>year = yoe + era * 400 + (if m \<le> 2 then 1 else 0), month = m, day = d\<rparr>)"

definition addDays :: "CivilDate \<Rightarrow> int \<Rightarrow> CivilDate" where
  "addDays date days = civilFromDays (daysFromCivil date + days)"

definition daysBetween :: "CivilDate \<Rightarrow> CivilDate \<Rightarrow> int" where
  "daysBetween a b = daysFromCivil b - daysFromCivil a"

datatype EndOfMonthPolicy = Clamp | PreserveEndOfMonth

definition addMonths :: "CivilDate \<Rightarrow> int \<Rightarrow> EndOfMonthPolicy \<Rightarrow> CivilDate" where
  "addMonths date months policy =
     (let index = year date * 12 + (month date - 1) + months;
          y = index div 12;
          m = index - y * 12 + 1;
          last = daysInMonth y m;
          atEnd = (day date = daysInMonth (year date) (month date));
          d = (if policy = PreserveEndOfMonth \<and> atEnd then last else min (day date) last)
      in \<lparr>year = y, month = m, day = d\<rparr>)"

lemma civil_Some [simp]: "civil y m d = Some c \<longleftrightarrow> validCivil c \<and> c = \<lparr>year = y, month = m, day = d\<rparr>"
  by (auto simp: civil_def validCivil_def)

lemma leap_periodic: "isLeapYear (y + 400 * k) \<longleftrightarrow> isLeapYear y"
proof -
  have "(y + 400 * k) mod 4 = y mod 4" "(y + 400 * k) mod 100 = y mod 100"
    using mod_mult_self2 [of y 4 "100 * k"] mod_mult_self2 [of y 100 "4 * k"] by simp_all
  then show ?thesis by (simp add: isLeapYear_def)
qed

lemma leap_mod: "isLeapYear (y mod 400 + 1) \<longleftrightarrow> isLeapYear (y + 1)"
  using leap_periodic [of "y mod 400 + 1" "y div 400"] by (simp add: algebra_simps)

subsection \<open>Day numbers and dates are in bijection\<close>

text \<open>Days before the year \<open>y\<close> of a 400-year era, years starting in March.\<close>

definition year_start :: "int \<Rightarrow> int" where
  "year_start y = 365 * y + y div 4 - y div 100"

definition era_year :: "int \<Rightarrow> int" where
  "era_year doe = (doe - doe div 1460 + doe div 36524 - doe div 146096) div 365"

lemma era_year_step:
  "x - x div 1460 + x div 36524 - x div 146096
    \<le> (x + 1) - (x + 1) div 1460 + (x + 1) div 36524 - (x + 1) div (146096 :: int)"
proof -
  have quarter: "x div 146096 = (x div 36524) div 4" for x :: int
    using zdiv_zmult2_eq [of 4 x 36524] by simp
  have "(x + 1) div 1460 \<le> x div 1460 + 1" by arith
  moreover have "x div 36524 \<le> (x + 1) div 36524" by (simp add: zdiv_mono1)
  then have "(x + 1) div 146096 - x div 146096 \<le> (x + 1) div 36524 - x div 36524"
    unfolding quarter by arith
  ultimately show ?thesis by linarith
qed

lemma era_year_mono: "x \<le> y \<Longrightarrow> era_year x \<le> era_year y"
proof (induction y rule: int_ge_induct)
  case (step y)
  have "era_year y \<le> era_year (y + 1)"
    unfolding era_year_def by (rule zdiv_mono1 [OF era_year_step]) simp
  with step.IH show ?case by simp
qed simp

lemma era_year_ends:
  "list_all (\<lambda>y. era_year (year_start y) = y \<and>
     era_year (year_start y + (if isLeapYear (y + 1) then 365 else 364)) = y) [0..399]"
  by code_simp

lemma era_year_recovers:
  assumes "0 \<le> y" and "y < 400" and "0 \<le> doy" and "doy \<le> (if isLeapYear (y + 1) then 365 else 364)"
  shows "era_year (year_start y + doy) = y"
proof -
  have "y \<in> set [0..399]" using assms(1,2) by simp
  then have ends: "era_year (year_start y) = y"
    "era_year (year_start y + (if isLeapYear (y + 1) then 365 else 364)) = y"
    using era_year_ends by (simp_all add: list_all_iff)
  show ?thesis
    using era_year_mono [of "year_start y" "year_start y + doy"] ends assms(3,4)
      era_year_mono [of "year_start y + doy" "year_start y + (if isLeapYear (y + 1) then 365 else 364)"]
    by linarith
qed

lemma year_start_lengths:
  "list_all (\<lambda>y. year_start (y + 1) - year_start y = (if isLeapYear (y + 1) then 366 else 365)) [0..398]"
  by code_simp

lemma year_of_day:
  assumes "0 \<le> doe" and "doe < 146097"
  obtains y doy where "doe = year_start y + doy" and "0 \<le> y" and "y < 400" and "0 \<le> doy"
    and "doy \<le> (if isLeapYear (y + 1) then 365 else 364)"
proof -
  let ?good = "\<lambda>y doy. doe = year_start y + doy \<and> 0 \<le> y \<and> y < 400 \<and> 0 \<le> doy \<and>
    doy \<le> (if isLeapYear (y + 1) then 365 else 364)"
  have below: "doe < year_start (int k) \<Longrightarrow> k \<le> 399 \<Longrightarrow> \<exists>y doy. ?good y doy" for k :: nat
  proof (induction k)
    case 0
    then show ?case using assms(1) by (simp add: year_start_def)
  next
    case (Suc k)
    show ?case
    proof (cases "doe < year_start (int k)")
      case True
      with Suc show ?thesis by simp
    next
      case False
      have "int k \<in> set [0..398]" using Suc.prems(2) by simp
      then have "year_start (int k + 1) - year_start (int k) = (if isLeapYear (int k + 1) then 366 else 365)"
        using year_start_lengths unfolding list_all_iff by blast
      then have "?good (int k) (doe - year_start (int k))"
        using False Suc.prems by (auto simp: add.commute split: if_splits)
      then show ?thesis by blast
    qed
  qed
  have "\<exists>y doy. ?good y doy"
  proof (cases "doe < year_start 399")
    case True
    then show ?thesis using below [of 399] by simp
  next
    case False
    then have "?good 399 (doe - year_start 399)"
      using assms by (simp add: year_start_def isLeapYear_def)
    then show ?thesis by blast
  qed
  then show thesis using that by blast
qed

text \<open>Months counted from March: their lengths, and the day of the year they start on.\<close>

definition march_length :: "bool \<Rightarrow> int \<Rightarrow> int" where
  "march_length leap mp =
     (if mp = 11 then (if leap then 29 else 28) else if mp \<in> {1, 3, 6, 8} then 30 else 31)"

definition march_to_month :: "int \<Rightarrow> int" where
  "march_to_month mp = (if mp < 10 then mp + 3 else mp - 9)"

lemma march_cases:
  assumes "0 \<le> mp" and "mp \<le> (11 :: int)"
  shows "mp \<in> set [0..11]"
  using assms by simp

lemma month_table:
  "list_all (\<lambda>mp. let m = march_to_month mp in 1 \<le> m \<and> m \<le> 12 \<and> (m + 9) smod 12 = mp \<and>
     (if m = 2 then mp = 11 else mp \<noteq> 11) \<and> (m \<in> {4, 6, 9, 11} \<longleftrightarrow> mp \<in> {1, 3, 6, 8})) [0..11]"
  "list_all (\<lambda>m. let mp = (m + 9) smod 12 in 0 \<le> mp \<and> mp \<le> 11 \<and> march_to_month mp = m \<and>
     (m \<le> 2 \<longleftrightarrow> 10 \<le> mp)) [1..12]"
  "list_all (\<lambda>mp. list_all (\<lambda>d. (5 * ((153 * mp + 2) div 5 + d - 1) + 2) div 153 = mp \<and>
     0 \<le> (153 * mp + 2) div 5 + d - 1 \<and>
     (153 * mp + 2) div 5 + d - 1 \<le> (if mp = 11 \<and> d = 29 then 365 else 364))
     [1..march_length True mp]) [0..11]"
  "list_all (\<lambda>doy. let mp = (5 * doy + 2) div 153; d = doy - (153 * mp + 2) div 5 + 1
     in 0 \<le> mp \<and> mp \<le> 11 \<and> 1 \<le> d \<and> d \<le> march_length (doy = 365) mp) [0..365]"
  by code_simp+

lemma daysInMonth_march:
  assumes "0 \<le> mp" and "mp \<le> 11"
  shows "daysInMonth y (march_to_month mp) = march_length (isLeapYear y) mp"
proof -
  note entry = bspec [OF month_table(1) [unfolded list_all_iff Let_def] march_cases [OF assms]]
  have feb: "march_to_month mp = 2 \<longleftrightarrow> mp = 11"
  proof -
    have "if march_to_month mp = 2 then mp = 11 else mp \<noteq> 11" using entry by (elim conjE)
    then show ?thesis by (simp split: if_splits)
  qed
  have short: "march_to_month mp \<in> {4, 6, 9, 11} \<longleftrightarrow> mp \<in> {1, 3, 6, 8}"
    using entry by (elim conjE)
  show ?thesis unfolding daysInMonth_def march_length_def feb short by (rule refl)
qed

lemma march_length_mono: "march_length b mp \<le> march_length True mp"
  by (simp add: march_length_def)

text \<open>The month, the day of the year and the year of the era that a valid date has.\<close>

lemma valid_date_shape:
  assumes "validCivil date"
  defines "y \<equiv> (if month date \<le> 2 then year date - 1 else year date)"
    and "mp \<equiv> (month date + 9) smod 12"
  defines "doy \<equiv> (153 * mp + 2) div 5 + day date - 1"
  shows "(5 * doy + 2) div 153 = mp" and "0 \<le> doy"
    and "doy \<le> (if isLeapYear (y mod 400 + 1) then 365 else 364)"
    and "month date = march_to_month mp" and "month date \<le> 2 \<longleftrightarrow> 10 \<le> mp"
proof -
  have "month date \<in> set [1..12]" using assms(1) by (simp add: validCivil_def)
  from bspec [OF month_table(2) [unfolded list_all_iff Let_def] this, folded mp_def]
  have mp: "0 \<le> mp" "mp \<le> 11" and month: "march_to_month mp = month date" "month date \<le> 2 \<longleftrightarrow> 10 \<le> mp"
    by simp_all
  then show "month date = march_to_month mp" "month date \<le> 2 \<longleftrightarrow> 10 \<le> mp" by simp_all
  have d: "1 \<le> day date" "day date \<le> march_length (isLeapYear (year date)) mp"
    using assms(1) daysInMonth_march [OF mp, of "year date"] by (simp_all add: validCivil_def month)
  then have dset: "day date \<in> set [1..march_length True mp]"
    using march_length_mono [of "isLeapYear (year date)" mp] by simp
  have table: "(5 * doy + 2) div 153 = mp \<and> 0 \<le> doy \<and> doy \<le> (if mp = 11 \<and> day date = 29 then 365 else 364)"
    using bspec [OF bspec [OF month_table(3) [unfolded list_all_iff] march_cases [OF mp]] dset]
    unfolding doy_def .
  then show "(5 * doy + 2) div 153 = mp" "0 \<le> doy" by simp_all
  show "doy \<le> (if isLeapYear (y mod 400 + 1) then 365 else 364)"
  proof (cases "mp = 11 \<and> day date = 29")
    case True
    then have "isLeapYear (year date)" using d by (simp add: march_length_def split: if_splits)
    moreover have "y = year date - 1" using True month(2) by (simp add: y_def)
    ultimately have "isLeapYear (y mod 400 + 1)" by (simp add: leap_mod)
    with table show ?thesis by (simp split: if_splits)
  next
    case False
    with table show ?thesis by (simp split: if_splits)
  qed
qed

lemma daysFromCivil_shape:
  "daysFromCivil date =
     (let y = (if month date \<le> 2 then year date - 1 else year date);
          doy = (153 * ((month date + 9) smod 12) + 2) div 5 + day date - 1
      in y div 400 * 146097 + (year_start (y mod 400) + doy) - 719468)"
  unfolding daysFromCivil_def Let_def minus_div_mult_eq_mod year_start_def by simp

lemma civilFromDays_shape:
  assumes "z = era * 146097 + doe" and "0 \<le> doe" and "doe < 146097"
    and "doe = year_start yoe + doy" and "era_year doe = yoe"
  shows "civilFromDays (z - 719468) =
    (let mp = (5 * doy + 2) div 153;
         m = march_to_month mp
     in \<lparr>year = yoe + era * 400 + (if m \<le> 2 then 1 else 0), month = m,
         day = doy - (153 * mp + 2) div 5 + 1\<rparr>)"
proof -
  have era: "z div 146097 = era"
    by (rule int_div_pos_eq [of _ _ _ doe]) (use assms(1-3) in auto)
  have doe: "z - era * 146097 = doe" using assms(1) by simp
  have yoe: "(doe - doe div 1460 + doe div 36524 - doe div 146096) div 365 = yoe"
    using assms(5) by (simp add: era_year_def)
  have doy: "doe - (365 * yoe + yoe div 4 - yoe div 100) = doy"
    using assms(4) by (simp add: year_start_def)
  show ?thesis
    unfolding civilFromDays_def Let_def diff_add_cancel era doe yoe doy march_to_month_def ..
qed

lemma year_start_bounds:
  assumes "0 \<le> y" and "y < 400" and "0 \<le> doy" and "doy \<le> (if isLeapYear (y + 1) then 365 else 364)"
  shows "0 \<le> year_start y + doy" and "year_start y + doy < 146097"
proof -
  have "0 \<le> y div 4 - y div 100" using assms(1) by (simp add: zdiv_mono2)
  then show "0 \<le> year_start y + doy" using assms(1,3) by (simp add: year_start_def)
  show "year_start y + doy < 146097"
  proof (cases "y = 399")
    case True
    then show ?thesis using assms(4) by (simp add: year_start_def isLeapYear_def split: if_splits)
  next
    case False
    then have "365 * y \<le> 365 * 398" "y div 4 \<le> 99" using assms(1,2) by auto
    moreover have "0 \<le> y div 100" using assms(1) by (simp add: pos_imp_zdiv_nonneg_iff)
    moreover have "doy \<le> 365" using assms(4) by (simp split: if_splits)
    ultimately show ?thesis by (simp add: year_start_def)
  qed
qed

lemma civilFromDays_daysFromCivil:
  assumes "validCivil date"
  shows "civilFromDays (daysFromCivil date) = date"
proof -
  define y where "y = (if month date \<le> 2 then year date - 1 else year date)"
  define mp where "mp = (month date + 9) smod 12"
  define doy where "doy = (153 * mp + 2) div 5 + day date - 1"
  note shape = valid_date_shape [OF assms, folded y_def mp_def, folded doy_def]
  have ym: "0 \<le> y mod 400" "y mod 400 < 400" by simp_all
  define doe where "doe = year_start (y mod 400) + doy"
  note bounds = year_start_bounds [OF ym shape(2,3), folded doe_def]
  have days: "daysFromCivil date = (y div 400 * 146097 + doe) - 719468"
    by (simp add: daysFromCivil_shape Let_def y_def mp_def doy_def doe_def)
  have "era_year doe = y mod 400"
    unfolding doe_def by (rule era_year_recovers [OF ym shape(2,3)])
  note rec = civilFromDays_shape [OF refl [of "y div 400 * 146097 + doe"] bounds doe_def this, folded days, unfolded Let_def shape(1),
      folded shape(4)]
  have "y mod 400 + y div 400 * 400 + (if month date \<le> 2 then 1 else 0) = year date"
    by (simp add: mod_div_mult_eq) (simp add: y_def)
  then show ?thesis unfolding rec doy_def by simp
qed

lemma daysFromCivil_civilFromDays:
  "validCivil (civilFromDays n) \<and> daysFromCivil (civilFromDays n) = n"
proof -
  define z where "z = n + 719468"
  define era where "era = z div 146097"
  define doe where "doe = z mod 146097"
  have z: "z = era * 146097 + doe" by (simp add: era_def doe_def)
  have doe: "0 \<le> doe" "doe < 146097" by (simp_all add: doe_def)
  obtain y doy where yd: "doe = year_start y + doy" "0 \<le> y" "y < 400" "0 \<le> doy"
    "doy \<le> (if isLeapYear (y + 1) then 365 else 364)"
    by (rule year_of_day [OF doe])
  have ey: "era_year doe = y" unfolding yd(1) by (rule era_year_recovers [OF yd(2-5)])
  define mp where "mp = (5 * doy + 2) div 153"
  define m where "m = march_to_month mp"
  define d where "d = doy - (153 * mp + 2) div 5 + 1"
  have eq: "civilFromDays n = \<lparr>year = y + era * 400 + (if m \<le> 2 then 1 else 0), month = m, day = d\<rparr>"
    using civilFromDays_shape [OF z doe yd(1) ey] by (simp add: z_def mp_def m_def d_def Let_def)
  have "doy \<in> set [0..365]" using yd(4,5) by (simp split: if_splits)
  from bspec [OF month_table(4) [unfolded list_all_iff Let_def] this, folded mp_def, folded d_def]
  have mp: "0 \<le> mp" "mp \<le> 11" and d: "1 \<le> d" "d \<le> march_length (doy = 365) mp"
    by simp_all
  from bspec [OF month_table(1) [unfolded list_all_iff Let_def] march_cases [OF mp], folded m_def]
  have m: "1 \<le> m" "m \<le> 12" and smod: "(m + 9) smod 12 = mp"
    by simp_all
  have m2: "m \<le> 2 \<longleftrightarrow> 10 \<le> mp" using mp by (simp add: m_def march_to_month_def)
  have leap: "isLeapYear (y + era * 400 + 1) \<longleftrightarrow> isLeapYear (y + 1)"
    using leap_periodic [of "y + 1" era] by (simp add: algebra_simps)
  have leap365: "doy = 365 \<Longrightarrow> isLeapYear (y + 1)" using yd(5) by (simp split: if_splits)
  have "march_length (doy = 365) mp \<le> daysInMonth (year (civilFromDays n)) m"
    using daysInMonth_march [OF mp, of "year (civilFromDays n)"] m2 leap leap365
    by (auto simp: eq m_def [symmetric] march_length_def)
  then have valid: "validCivil (civilFromDays n)"
    using m d by (simp add: validCivil_def eq)
  have "daysFromCivil (civilFromDays n) = n"
  proof -
    have "(if m \<le> 2 then year (civilFromDays n) - 1 else year (civilFromDays n)) = y + era * 400"
      by (simp add: eq)
    then show ?thesis
      using yd(1-3) z by (simp add: daysFromCivil_shape Let_def smod eq d_def z_def)
  qed
  with valid show ?thesis ..
qed

section \<open>Text forms\<close>

text \<open>
  The regular expressions \<open>LOCAL_DATE\<close>, \<open>MONTH\<close>, \<open>YEAR\<close> and \<open>INSTANT\<close> are sequences of fixed-width digit
  fields and literal characters; each is read as such a sequence in the option monad.
\<close>

definition digit_field :: "nat \<Rightarrow> string \<Rightarrow> (int \<times> string) option" where
  "digit_field n s =
     (if n \<le> length s \<and> list_all is_digit (take n s)
      then Some (int (digits_value (take n s)), drop n s) else None)"

definition literal :: "char \<Rightarrow> string \<Rightarrow> string option" where
  "literal c s = (case s of [] \<Rightarrow> None | d # r \<Rightarrow> if d = c then Some r else None)"

definition date_fields :: "string \<Rightarrow> (int \<times> int \<times> int \<times> string) option" where
  "date_fields s0 = do {
     (y, s1) \<leftarrow> digit_field 4 s0;
     s2 \<leftarrow> literal (CHR ''-'') s1;
     (m, s3) \<leftarrow> digit_field 2 s2;
     s4 \<leftarrow> literal (CHR ''-'') s3;
     (d, s5) \<leftarrow> digit_field 2 s4;
     Some (y, m, d, s5)
   }"

definition parseLocalDate :: "string \<Rightarrow> CivilDate option" where
  "parseLocalDate s =
     (case date_fields s of
        Some (y, m, d, []) \<Rightarrow> civil y m d
      | _ \<Rightarrow> None)"

definition padNumber :: "int \<Rightarrow> nat \<Rightarrow> string" where
  "padNumber n width = padStart width (CHR ''0'') (int_text n)"

definition formatLocalDate :: "CivilDate \<Rightarrow> string" where
  "formatLocalDate date =
     padNumber (year date) 4 @ ''-'' @ padNumber (month date) 2 @ ''-'' @ padNumber (day date) 2"

definition fraction_field :: "string \<Rightarrow> (string \<times> string) option" where
  "fraction_field s =
     (case s of
        [] \<Rightarrow> Some ([], [])
      | c # r \<Rightarrow>
          if c = CHR ''.'' then
            let ds = takeWhile is_digit r
            in if 1 \<le> length ds \<and> length ds \<le> 9 then Some (ds, dropWhile is_digit r) else None
          else Some ([], s))"

text \<open>The offset at the end of the text: \<open>Z\<close>, or a sign with hours and minutes.\<close>

definition offset_field :: "string \<Rightarrow> (int \<times> int \<times> int) option" where
  "offset_field s =
     (case s of
        [] \<Rightarrow> None
      | c # r \<Rightarrow>
          if c = CHR ''Z'' then (if r = [] then Some (0, 0, 0) else None)
          else if c = CHR ''+'' \<or> c = CHR ''-'' then do {
            (h, s1) \<leftarrow> digit_field 2 r;
            s2 \<leftarrow> literal (CHR '':'') s1;
            (m, s3) \<leftarrow> digit_field 2 s2;
            if s3 = [] then Some (if c = CHR ''-'' then - 1 else 1, h, m) else None
          }
          else None)"

definition parseInstant :: "string \<Rightarrow> ParsedInstant option" where
  "parseInstant s0 = do {
     (y, m, d, s1) \<leftarrow> date_fields s0;
     s2 \<leftarrow> literal (CHR ''T'') s1;
     (hour, s3) \<leftarrow> digit_field 2 s2;
     s4 \<leftarrow> literal (CHR '':'') s3;
     (minute, s5) \<leftarrow> digit_field 2 s4;
     s6 \<leftarrow> literal (CHR '':'') s5;
     (second, s7) \<leftarrow> digit_field 2 s6;
     (fraction, s8) \<leftarrow> fraction_field s7;
     (sign, offsetHours, offsetMinutes) \<leftarrow> offset_field s8;
     date \<leftarrow> civil y m d;
     if hour > 23 \<or> minute > 59 \<or> second > 59 then None
     else if offsetHours > 18 \<or> offsetMinutes > 59 then None
     else
       let offsetSeconds = sign * (offsetHours * 3600 + offsetMinutes * 60)
       in Some \<lparr>epochSeconds =
                  daysFromCivil date * 86400 + hour * 3600 + minute * 60 + second - offsetSeconds,
                nanoseconds = int (digits_value (padEnd 9 (CHR ''0'') fraction)),
                instantLocalDate = formatLocalDate date\<rparr>
   }"

definition validInstantText :: "string \<Rightarrow> bool" where
  "validInstantText s \<longleftrightarrow> parseInstant s \<noteq> None"

definition validLocalDateText :: "string \<Rightarrow> bool" where
  "validLocalDateText s \<longleftrightarrow> parseLocalDate s \<noteq> None"

definition is_letter :: "char \<Rightarrow> bool" where
  "is_letter c \<longleftrightarrow> (65 \<le> (of_char c :: nat) \<and> (of_char c :: nat) \<le> 90) \<or>
     (97 \<le> (of_char c :: nat) \<and> (of_char c :: nat) \<le> 122)"

definition is_zone_char :: "char \<Rightarrow> bool" where
  "is_zone_char c \<longleftrightarrow> is_letter c \<or> is_digit c \<or> c \<in> {CHR ''_'', CHR ''+'', CHR ''-''}"

text \<open>\<open>zone_tail b s\<close>: \<open>s\<close> continues a segment that already has a character when \<open>b\<close> holds.\<close>

fun zone_tail :: "bool \<Rightarrow> string \<Rightarrow> bool" where
  "zone_tail b [] = b"
| "zone_tail b (c # cs) =
     (if is_zone_char c then zone_tail True cs else c = CHR ''/'' \<and> b \<and> zone_tail False cs)"

definition validZone :: "string \<Rightarrow> bool" where
  "validZone s \<longleftrightarrow>
     isText 64 s \<and> (case s of [] \<Rightarrow> False | c # cs \<Rightarrow> is_letter c \<and> zone_tail True cs)"

section \<open>Periods\<close>

definition unitStart :: "string \<Rightarrow> PeriodGranularity \<Rightarrow> CivilDate option" where
  "unitStart s g =
     (case g of
        GDay \<Rightarrow> parseLocalDate s
      | GMonth \<Rightarrow> do {
          (y, s1) \<leftarrow> digit_field 4 s;
          s2 \<leftarrow> literal (CHR ''-'') s1;
          (m, s3) \<leftarrow> digit_field 2 s2;
          if s3 = [] then civil y m 1 else None
        }
      | GYear \<Rightarrow> do {
          (y, s1) \<leftarrow> digit_field 4 s;
          if s1 = [] then civil y 1 1 else None
        })"

definition nextUnit :: "CivilDate \<Rightarrow> PeriodGranularity \<Rightarrow> CivilDate" where
  "nextUnit date g =
     (case g of
        GDay \<Rightarrow> addDays date 1
      | GMonth \<Rightarrow> addMonths date 1 Clamp
      | GYear \<Rightarrow> \<lparr>year = year date + 1, month = 1, day = 1\<rparr>)"

definition periodBounds :: "PeriodValue \<Rightarrow> (CivilDate \<times> CivilDate) option" where
  "periodBounds p =
     (case (unitStart (periodStart p) (granularity p), unitStart (periodEnd p) (granularity p)) of
        (Some start, Some final) \<Rightarrow>
          (let endEx = (if endExclusive p then final else nextUnit final (granularity p))
           in if daysFromCivil endEx \<le> daysFromCivil start then None else Some (start, endEx))
      | _ \<Rightarrow> None)"

definition periodDays :: "PeriodValue \<Rightarrow> int option" where
  "periodDays p = map_option (\<lambda>(start, endEx). daysBetween start endEx) (periodBounds p)"

definition periodContainsDate :: "PeriodValue \<Rightarrow> CivilDate \<Rightarrow> bool" where
  "periodContainsDate p date =
     (case periodBounds p of
        None \<Rightarrow> False
      | Some (start, endEx) \<Rightarrow>
          (let d = daysFromCivil date in daysFromCivil start \<le> d \<and> d < daysFromCivil endEx))"

definition monthPeriod :: "int \<Rightarrow> int \<Rightarrow> string option \<Rightarrow> PeriodValue" where
  "monthPeriod y m zone =
     (let s = padNumber y 4 @ ''-'' @ padNumber m 2
      in \<lparr>periodStart = s, periodEnd = s, endExclusive = False, periodZone = zone,
          granularity = GMonth\<rparr>)"

definition validPeriodValue :: "PeriodValue \<Rightarrow> bool" where
  "validPeriodValue p \<longleftrightarrow>
     isText 10 (periodStart p) \<and> isText 10 (periodEnd p) \<and>
     (case periodZone p of None \<Rightarrow> True | Some z \<Rightarrow> validZone z) \<and> periodBounds p \<noteq> None"

fun validTemporalValue :: "TemporalValue \<Rightarrow> bool" where
  "validTemporalValue (Instant v zone _) \<longleftrightarrow> validInstantText v \<and> validZone zone"
| "validTemporalValue (LocalDate v zone _) \<longleftrightarrow>
     validLocalDateText v \<and> (case zone of None \<Rightarrow> True | Some z \<Rightarrow> validZone z)"
| "validTemporalValue (Period p) \<longleftrightarrow> validPeriodValue p"
| "validTemporalValue (UnknownTime reason) \<longleftrightarrow> isText 128 reason"

section \<open>Comparison\<close>

record DayInterval =
  intervalStart :: int
  intervalEnd :: int
  intervalZone :: "string option"

fun dayInterval :: "TemporalValue \<Rightarrow> DayInterval option" where
  "dayInterval (LocalDate v zone _) =
     (case parseLocalDate v of
        None \<Rightarrow> None
      | Some date \<Rightarrow>
          (let start = daysFromCivil date
           in Some \<lparr>intervalStart = start, intervalEnd = start + 1, intervalZone = zone\<rparr>))"
| "dayInterval (Period p) =
     (case periodBounds p of
        None \<Rightarrow> None
      | Some (start, endEx) \<Rightarrow>
          Some \<lparr>intervalStart = daysFromCivil start, intervalEnd = daysFromCivil endEx,
                intervalZone = periodZone p\<rparr>)"
| "dayInterval _ = None"

definition zonesCompatible :: "string option \<Rightarrow> string option \<Rightarrow> bool" where
  "zonesCompatible a b \<longleftrightarrow> a = None \<or> b = None \<or> a = b"

fun zoneOf :: "TemporalValue \<Rightarrow> string option" where
  "zoneOf (Instant _ zone _) = Some zone"
| "zoneOf (LocalDate _ zone _) = zone"
| "zoneOf (Period p) = periodZone p"
| "zoneOf (UnknownTime _) = None"

definition compareInstants :: "string \<Rightarrow> string \<Rightarrow> TemporalOrder" where
  "compareInstants a b =
     (case (parseInstant a, parseInstant b) of
        (Some x, Some y) \<Rightarrow>
          Ordered
            (if epochSeconds x \<noteq> epochSeconds y then (if epochSeconds x < epochSeconds y then - 1 else 1)
             else if nanoseconds x \<noteq> nanoseconds y
               then (if nanoseconds x < nanoseconds y then - 1 else 1)
             else 0)
      | _ \<Rightarrow> Incomparable IUnknown_time)"

text \<open>An instant against a date or a period; \<open>flipped\<close> when the instant is the second argument.\<close>

definition compareInstantOther :: "bool \<Rightarrow> string \<Rightarrow> string \<Rightarrow> TemporalValue \<Rightarrow> TemporalOrder" where
  "compareInstantOther flipped instant zone other =
     (if \<not> zonesCompatible (Some zone) (zoneOf other) then Incomparable IZone_mismatch
      else case (parseInstant instant, dayInterval other) of
        (Some parsed, Some interval) \<Rightarrow>
          (let d = daysFromCivil (the (parseLocalDate (instantLocalDate parsed)))
           in if d < intervalStart interval then Ordered (if flipped then 1 else - 1)
              else if intervalEnd interval \<le> d then Ordered (if flipped then - 1 else 1)
              else Incomparable
                (case other of LocalDate _ _ _ \<Rightarrow> IWithin_day | _ \<Rightarrow> IWithin_period))
      | _ \<Rightarrow> Incomparable IUnknown_time)"

definition compareIntervals :: "TemporalValue \<Rightarrow> TemporalValue \<Rightarrow> TemporalOrder" where
  "compareIntervals a b =
     (case (dayInterval a, dayInterval b) of
        (Some x, Some y) \<Rightarrow>
          if \<not> zonesCompatible (intervalZone x) (intervalZone y) then Incomparable IZone_mismatch
          else if intervalStart x = intervalStart y \<and> intervalEnd x = intervalEnd y then Ordered 0
          else if intervalEnd x \<le> intervalStart y then Ordered (- 1)
          else if intervalEnd y \<le> intervalStart x then Ordered 1
          else Incomparable IOverlap
      | _ \<Rightarrow> Incomparable IUnknown_time)"

fun compareTemporal :: "TemporalValue \<Rightarrow> TemporalValue \<Rightarrow> TemporalOrder" where
  "compareTemporal (UnknownTime _) b = Incomparable IUnknown_time"
| "compareTemporal a (UnknownTime _) = Incomparable IUnknown_time"
| "compareTemporal (Instant a _ _) (Instant b _ _) = compareInstants a b"
| "compareTemporal (Instant a zone _) b = compareInstantOther False a zone b"
| "compareTemporal a (Instant b zone _) = compareInstantOther True b zone a"
| "compareTemporal a b = compareIntervals a b"

fun temporalOrderingKey :: "TemporalValue \<Rightarrow> string" where
  "temporalOrderingKey (Instant v _ _) =
     (case parseInstant v of
        None \<Rightarrow> ''3:invalid_instant''
      | Some p \<Rightarrow> ''0:'' @ padNumber (epochSeconds p + 2 ^ 40) 13 @ '':'' @ padNumber (nanoseconds p) 9)"
| "temporalOrderingKey (LocalDate v _ _) = ''1:'' @ v"
| "temporalOrderingKey (Period p) =
     (case periodBounds p of
        None \<Rightarrow> ''3:invalid_period''
      | Some (start, endEx) \<Rightarrow> ''2:'' @ formatLocalDate start @ '':'' @ formatLocalDate endEx)"
| "temporalOrderingKey (UnknownTime reason) = ''3:'' @ reason"

section \<open>Lemmas on text forms\<close>

lemma digit_field_pad:
  assumes "0 \<le> n" and "n < 10 ^ w" and "0 < w"
  shows "digit_field w (padNumber n w @ s) = Some (n, s)"
proof -
  have "length (nat_text (nat n)) \<le> w"
    using assms by (intro nat_text_length_bound) (simp_all add: nat_less_iff)
  then have len: "length (padNumber n w) = w" using assms(1) by (simp add: padNumber_def int_text_def)
  moreover have "list_all is_digit (padNumber n w)"
    using assms(1) by (simp add: padNumber_def int_text_def nat_text_padded)
  moreover have "digits_value (padNumber n w) = nat n"
    using assms(1) by (simp add: padNumber_def int_text_def)
  ultimately show ?thesis using assms(1) by (simp add: digit_field_def)
qed

lemma literal_Cons [simp]: "literal c (c # s) = Some s"
  by (simp add: literal_def)

lemma daysInMonth_bound: "daysInMonth y m \<le> 31"
  by (simp add: daysInMonth_def)

lemma date_fields_format:
  assumes "validCivil date" and "0 \<le> year date" and "year date \<le> 9999"
  shows "date_fields (formatLocalDate date @ s) = Some (year date, month date, day date, s)"
proof -
  have "day date \<le> 31"
    using assms(1) daysInMonth_bound [of "year date" "month date"] by (simp add: validCivil_def)
  then show ?thesis
    using assms by (simp add: date_fields_def formatLocalDate_def digit_field_pad validCivil_def)
qed

lemma parse_format_date:
  assumes "validCivil date" and "0 \<le> year date" and "year date \<le> 9999"
  shows "parseLocalDate (formatLocalDate date) = Some date"
  using date_fields_format [OF assms, of "[]"] assms(1) by (simp add: parseLocalDate_def)

lemma digit_char_0: "digit_char 0 = CHR ''0''"
  using digit_char_char_digit [of "CHR ''0''"] by (simp add: is_digit_def char_digit_def)

lemma nat_text_digits_value:
  assumes "list_all is_digit s" and "s \<noteq> []"
  shows "padStart (length s) (CHR ''0'') (nat_text (digits_value s)) = s"
  using assms
proof (induction s rule: rev_induct)
  case (snoc c s)
  let ?d = "char_digit c"
  have c: "is_digit c" "?d < 10" "digit_char ?d = c" using snoc.prems by simp_all
  show ?case
  proof (cases "digits_value s = 0")
    case True
    then have zeros: "s = replicate (length s) (CHR ''0'')"
    proof (cases "s = []")
      case False
      then obtain k where k: "length s = Suc k" by (cases s) auto
      have "padStart (length s) (CHR ''0'') (nat_text 0) = replicate k (CHR ''0'') @ [CHR ''0'']"
        by (simp add: padStart_def nat_text.simps [of 0] digit_char_0 k)
      moreover have "padStart (length s) (CHR ''0'') (nat_text 0) = s"
        using False snoc.IH snoc.prems(1) unfolding True by simp
      ultimately show ?thesis by (simp add: k replicate_append_same)
    qed simp
    have "nat_text (digits_value (s @ [c])) = [c]" using True c by (simp add: nat_text.simps)
    then show ?thesis using zeros by (simp add: padStart_def)
  next
    case False
    then have s: "s \<noteq> []" by auto
    have "nat_text (digits_value (s @ [c])) = nat_text (digits_value s) @ [c]"
      using False c by (subst nat_text.simps) simp
    with snoc s show ?thesis by (simp add: padStart_def)
  qed
qed simp

lemma digit_field_Some:
  assumes "digit_field w s = Some (n, r)" and "0 < w"
  shows "s = padNumber n w @ r \<and> 0 \<le> n \<and> n < 10 ^ w"
proof -
  have t: "w \<le> length s" "list_all is_digit (take w s)" "n = int (digits_value (take w s))" "r = drop w s"
    using assms(1) by (simp_all add: digit_field_def split: if_splits)
  have len: "length (take w s) = w" using t(1) by simp
  then have "take w s \<noteq> []" using assms(2) by auto
  then have pad: "padNumber n w = take w s"
    using nat_text_digits_value [OF t(2)] len t(3) by (simp add: padNumber_def int_text_def)
  have "digits_value x < 10 ^ length x" if "list_all is_digit x" for x
    using that
  proof (induction x rule: rev_induct)
    case (snoc c x)
    then have "digits_value x * 10 + char_digit c < (digits_value x + 1) * 10" by simp
    also have "\<dots> \<le> 10 ^ length x * 10"
      using snoc by (intro mult_le_mono1) (simp add: Suc_leI)
    finally show ?case by (simp add: mult.commute)
  qed simp
  from this [OF t(2)] have "digits_value (take w s) < 10 ^ w" by (simp only: len)
  then have "int (digits_value (take w s)) < int (10 ^ w)" by (simp only: of_nat_less_iff)
  then show ?thesis using pad t(3,4) by simp
qed

lemma literal_Some: "literal c s = Some r \<longleftrightarrow> s = c # r"
  by (auto simp: literal_def split: list.splits if_splits)

lemma date_fields_Some:
  assumes "date_fields s = Some (y, m, d, r)"
  shows "s = formatLocalDate \<lparr>year = y, month = m, day = d\<rparr> @ r \<and> 0 \<le> y \<and> y \<le> 9999"
  using assms unfolding date_fields_def formatLocalDate_def
  by (auto simp: bind_eq_Some_conv literal_Some dest!: digit_field_Some)

lemma parseLocalDate_Some:
  assumes "parseLocalDate s = Some date"
  shows "s = formatLocalDate date \<and> validCivil date \<and> 0 \<le> year date \<and> year date \<le> 9999"
  using assms date_fields_Some [of s]
  by (auto simp: parseLocalDate_def split: option.splits prod.splits list.splits)

lemma unitStart_month:
  assumes "0 \<le> y" and "y \<le> 9999" and "0 \<le> m" and "m \<le> 99"
  shows "unitStart (padNumber y 4 @ CHR ''-'' # padNumber m 2) GMonth = civil y m 1"
proof -
  have "digit_field 2 (padNumber m 2) = Some (m, [])"
    using digit_field_pad [of m 2 "[]"] assms(3,4) by simp
  then show ?thesis using assms(1,2) by (simp add: unitStart_def digit_field_pad)
qed

lemma parseInstant_localDate:
  assumes "parseInstant s = Some p"
  shows "parseLocalDate (instantLocalDate p) \<noteq> None"
proof -
  have "\<exists>date. instantLocalDate p = formatLocalDate date \<and> validCivil date \<and> 0 \<le> year date \<and> year date \<le> 9999"
    using assms unfolding parseInstant_def
    by (auto simp: bind_eq_Some_conv Let_def split: if_splits dest!: date_fields_Some)
  then show ?thesis using parse_format_date by fastforce
qed

section \<open>Properties\<close>

text \<open>
  Day numbers and civil dates are in bijection. Converting a valid date to its day
  number and back gives the date, and every integer is the day number of exactly one valid date:
  the one \<open>civilFromDays\<close> returns.
\<close>
theorem civil_days_bijection:
  "bij_betw daysFromCivil {d. validCivil d} UNIV \<and>
   (\<forall>d. civilFromDays (daysFromCivil d) = d \<longleftrightarrow> validCivil d) \<and>
   (\<forall>n. validCivil (civilFromDays n) \<and> daysFromCivil (civilFromDays n) = n)"
proof (intro conjI allI)
  show days: "validCivil (civilFromDays n)" "daysFromCivil (civilFromDays n) = n" for n
    using daysFromCivil_civilFromDays [of n] by simp_all
  show "civilFromDays (daysFromCivil d) = d \<longleftrightarrow> validCivil d" for d
    using civilFromDays_daysFromCivil days [of "daysFromCivil d"] by metis
  show "bij_betw daysFromCivil {d. validCivil d} UNIV"
    by (rule bij_betw_byWitness [where f' = civilFromDays])
      (use civilFromDays_daysFromCivil days in auto)
qed

text \<open>
  Date text round-trips. The parser accepts exactly the texts the formatter prints for
  valid dates of the years 0 to 9999, and returns the date that was printed.
\<close>
theorem local_date_roundtrip:
  "parseLocalDate s = Some d \<longleftrightarrow>
     s = formatLocalDate d \<and> validCivil d \<and> 0 \<le> year d \<and> year d \<le> 9999"
  using parseLocalDate_Some parse_format_date by blast

text \<open>
  Month arithmetic stays in the calendar. Adding months to a valid date gives a valid
  date exactly that many months later; under \<open>clamp\<close> the day is kept or is the last of the month,
  and under \<open>preserve-end-of-month\<close> a month end goes to a month end.
\<close>
theorem addMonths_correct:
  assumes "validCivil d"
  shows "let r = addMonths d n p in
    validCivil r \<and> year r * 12 + month r = year d * 12 + month d + n \<and>
    day r = (if p = PreserveEndOfMonth \<and> day d = daysInMonth (year d) (month d)
             then daysInMonth (year r) (month r)
             else min (day d) (daysInMonth (year r) (month r)))"
proof -
  let ?i = "year d * 12 + (month d - 1) + n"
  define r where "r = addMonths d n p"
  have mod: "?i - ?i div 12 * 12 = ?i mod 12" by (rule minus_div_mult_eq_mod)
  have last: "1 \<le> daysInMonth y m" for y m by (simp add: daysInMonth_def)
  have r: "year r = ?i div 12" "month r = ?i mod 12 + 1"
    "day r = (if p = PreserveEndOfMonth \<and> day d = daysInMonth (year d) (month d)
             then daysInMonth (year r) (month r)
             else min (day d) (daysInMonth (year r) (month r)))"
    by (simp_all add: r_def addMonths_def Let_def mod)
  have "1 \<le> day r" "day r \<le> daysInMonth (year r) (month r)"
    using assms(1) last unfolding r(3) validCivil_def by auto
  moreover have "year r * 12 + month r = year d * 12 + month d + n"
    using r(1,2) div_mult_mod_eq [of ?i 12] by linarith
  moreover have "1 \<le> month r" "month r \<le> 12" using r(2) by simp_all
  ultimately show ?thesis
    unfolding Let_def r_def [symmetric] using r(3) by (simp add: validCivil_def)
qed

theorem addMonths_correct_witness:
  "day (addMonths \<lparr>year = 2024, month = 2, day = 29\<rparr> 1 PreserveEndOfMonth) = 31"
proof -
  have "validCivil \<lparr>year = 2024, month = 2, day = 29\<rparr>" by code_simp
  from addMonths_correct [OF this, of 1 PreserveEndOfMonth] show ?thesis
    by (simp add: addMonths_def daysInMonth_def isLeapYear_def)
qed

text \<open>
  A period contains a date exactly when the date's day number lies in the half-open
  interval of the period's bounds, which is never empty; the number of such days is the period's
  length.
\<close>
theorem period_is_interval:
  "periodBounds p = Some (a, b) \<Longrightarrow>
     daysFromCivil a < daysFromCivil b \<and>
     periodDays p = Some (int (card {d. validCivil d \<and> periodContainsDate p d}))"
proof -
  assume p: "periodBounds p = Some (a, b)"
  then have less: "daysFromCivil a < daysFromCivil b"
    by (auto simp: periodBounds_def Let_def split: option.splits if_splits)
  let ?I = "{daysFromCivil a..<daysFromCivil b}"
  have "{d. validCivil d \<and> periodContainsDate p d} = civilFromDays ` ?I"
  proof (intro equalityI subsetI)
    fix d assume "d \<in> {d. validCivil d \<and> periodContainsDate p d}"
    then have "daysFromCivil d \<in> ?I" "civilFromDays (daysFromCivil d) = d"
      using civilFromDays_daysFromCivil by (simp_all add: periodContainsDate_def p Let_def)
    then show "d \<in> civilFromDays ` ?I" by (metis image_eqI)
  next
    fix d assume "d \<in> civilFromDays ` ?I"
    then show "d \<in> {d. validCivil d \<and> periodContainsDate p d}"
      using daysFromCivil_civilFromDays by (auto simp: periodContainsDate_def p Let_def)
  qed
  moreover have "inj_on civilFromDays ?I" by (metis daysFromCivil_civilFromDays inj_onI)
  ultimately have "card {d. validCivil d \<and> periodContainsDate p d} = card ?I"
    by (simp add: card_image)
  then show ?thesis using less by (simp add: periodDays_def p daysBetween_def)
qed

definition february_2024 :: PeriodValue where
  "february_2024 = monthPeriod 2024 2 None"

theorem period_is_interval_witness:
  "periodDays february_2024 = Some (int (card {d. validCivil d \<and> periodContainsDate february_2024 d}))"
proof -
  have "periodBounds february_2024 = Some (\<lparr>year = 2024, month = 2, day = 1\<rparr>, \<lparr>year = 2024, month = 3, day = 1\<rparr>)"
    by (simp add: february_2024_def monthPeriod_def Let_def periodBounds_def unitStart_month nextUnit_def
        civil_def daysInMonth_def isLeapYear_def addMonths_def daysFromCivil_def del: civil_Some)
  from period_is_interval [OF this] show ?thesis by (rule conjunct2)
qed

text \<open>
  The semantic comparison is antisymmetric. Swapping the arguments reverses an order
  and keeps the reason two times are not ordered.
\<close>
theorem compareTemporal_swap:
  "compareTemporal b a =
     (case compareTemporal a b of Ordered n \<Rightarrow> Ordered (- n) | Incomparable r \<Rightarrow> Incomparable r)"
proof -
  have inst: "compareInstants y x =
      (case compareInstants x y of Ordered n \<Rightarrow> Ordered (- n) | Incomparable r \<Rightarrow> Incomparable r)" for x y
    by (auto simp: compareInstants_def split: option.splits)
  have mixed: "compareInstantOther (\<not> f) i z v =
      (case compareInstantOther f i z v of Ordered n \<Rightarrow> Ordered (- n) | Incomparable r \<Rightarrow> Incomparable r)"
    for f i z v
    by (auto simp: compareInstantOther_def Let_def split: option.splits)
  have ordered: "intervalStart x < intervalEnd x" if "dayInterval v = Some x" for v x
    using that by (cases v) (auto simp: periodBounds_def Let_def split: option.splits if_splits prod.splits)
  have zones: "zonesCompatible z w \<longleftrightarrow> zonesCompatible w z" for z w by (auto simp: zonesCompatible_def)
  have civil: "compareIntervals y x =
      (case compareIntervals x y of Ordered n \<Rightarrow> Ordered (- n) | Incomparable r \<Rightarrow> Incomparable r)" for x y
  proof (cases "dayInterval x"; cases "dayInterval y")
    fix i j assume ij: "dayInterval x = Some i" "dayInterval y = Some j"
    then have "intervalStart i < intervalEnd i" "intervalStart j < intervalEnd j"
      using ordered by blast+
    then show ?thesis
      unfolding compareIntervals_def ij option.case prod.case
        zones [of "intervalZone j" "intervalZone i"]
      by (cases "zonesCompatible (intervalZone i) (intervalZone j)") simp_all
  qed (simp_all add: compareIntervals_def)
  show ?thesis
    by (cases a; cases b; simp only: compareTemporal.simps TemporalOrder.case;
        rule inst civil mixed [of True, simplified] mixed [of False, simplified])
qed

end
