(* ===== verification/Lot_Inputs.thy ===== *)
theory Lot_Inputs
  imports Civil_Time
begin

text \<open>
  The inputs of the lot engine, \<open>packages/domain/src/lots.ts\<close>: pinned references, inputs, policies, their
  validators and the per-kind rules, with the rounding policy and the cost-basis gate of
  \<open>packages/domain/src/calculation.ts\<close>. The shape checks of the validators (record, exact keys, closed
  enumerations) are the types below; what the validators check of the values is written out.
\<close>

section \<open>Closed vocabularies\<close>

definition LOT_INPUT_CONTRACT :: string where
  "LOT_INPUT_CONTRACT = ''provisional-lot-input-v0''"

definition LOT_ENGINE_VERSION :: string where
  "LOT_ENGINE_VERSION = ''lot-engine-v0''"

definition MAX_SAFE_INTEGER :: int where
  "MAX_SAFE_INTEGER = 9007199254740991"

datatype LotInputKind = Acquisition | Disposal | Split | Snapshot | Transfer

datatype LotObservationFactKind = PositionFact | TransactionFact | ValuationFact

datatype LotInputRef =
    EventRef string int
  | ObservationRef LotObservationFactKind int int "string option"

datatype InstrumentClass =
    Cash | Deposit | Listed_equity | Fund_unit | Crypto_asset | Derivative | Margin_position
  | Nominal_contract | Unknown_class

datatype LotPurpose = Investment_analysis | Tax

datatype LotMethod = Fifo | Moving_average | Specific_identification

datatype LotAcquisitionFeeMode = Capitalize | Exclude

datatype LotDisposalFeeMode = Reduce_proceeds | Separate

datatype LotFxMode = Lot_currency | Convert_at_input_rate

datatype LotScope = Holder_instrument_wrapper

datatype LotTimeBasis = Trade_date | Settlement_date

datatype LotOrderingRule = Temporal_then_indeterminate

datatype RoundingPoint = At_leg | At_execution | At_statement | At_aggregate

datatype ResidualHandling = Carry | Largest_remainder | Leave | Refuse

datatype ResultPartition = Complete | Partial_verified_scope | Not_computable

record RoundingPolicy =
  rpPolicyId :: string
  rpWhere :: RoundingPoint
  rpMode :: RoundingMode
  rpPrecision :: nat
  rpResidual :: ResidualHandling

record RoundingInputs =
  riPolicyId :: string
  riWhere :: RoundingPoint
  riMode :: RoundingMode
  riPrecision :: nat
  riResidual :: ResidualHandling
  riOperands :: "ExactDecimal list"
  riPreRounding :: "ExactDecimal option"

record LotFxRate =
  fxRate :: ExactDecimal
  fxFromUnit :: string
  fxToUnit :: string
  fxRateRef :: string

record LotInputTimes =
  trade :: TemporalValue
  settlement :: TemporalValue

record LotSelection =
  selectionLotId :: string
  selectionQuantity :: Quantity

record LotInput =
  contract :: string
  inputRef :: LotInputRef
  kind :: LotInputKind
  holderRef :: string
  instrumentRef :: string
  wrapperKey :: string
  instrumentClass :: InstrumentClass
  inputTime :: LotInputTimes
  quantity :: Quantity
  consideration :: "Quantity option"
  inputFees :: "Quantity list"
  fx :: "LotFxRate option"
  split :: "ExactRatio option"
  lotSelections :: "LotSelection list option"

record LotPolicy =
  policyId :: string
  version :: int
  purpose :: LotPurpose
  lotMethod :: LotMethod
  lotScope :: LotScope
  timeBasis :: LotTimeBasis
  ordering :: LotOrderingRule
  acquisitionFee :: LotAcquisitionFeeMode
  disposalFee :: LotDisposalFeeMode
  fxMode :: LotFxMode
  fxPolicyRef :: string
  costUnitRef :: "string option"
  rounding :: "RoundingPolicy option"

section \<open>References and validators\<close>

fun fact_kind_text :: "LotObservationFactKind \<Rightarrow> string" where
  "fact_kind_text PositionFact = ''position''"
| "fact_kind_text TransactionFact = ''transaction''"
| "fact_kind_text ValuationFact = ''valuation''"

fun lotInputRefText :: "LotInputRef \<Rightarrow> string" where
  "lotInputRefText (EventRef eventId revision) = ''event:'' @ eventId @ ''@'' @ int_text revision"
| "lotInputRefText (ObservationRef factKind observationId parseRunId jsonPath) =
     (let base = fact_kind_text factKind @ '':'' @ int_text observationId @ ''@parse_run:'' @
                 int_text parseRunId
      in case jsonPath of None \<Rightarrow> base | Some path \<Rightarrow> base @ ''#'' @ path)"

definition is_event_char :: "char \<Rightarrow> bool" where
  "is_event_char c \<longleftrightarrow> is_letter c \<or> is_digit c \<or> c \<in> {CHR ''_'', CHR ''.'', CHR '':'', CHR ''-''}"

definition validEventId :: "string \<Rightarrow> bool" where
  "validEventId s \<longleftrightarrow>
     (case s of
        [] \<Rightarrow> False
      | c # r \<Rightarrow> (is_letter c \<or> is_digit c) \<and> length r \<le> 255 \<and> list_all is_event_char r)"

definition is_space :: "char \<Rightarrow> bool" where
  "is_space c \<longleftrightarrow> of_char c \<in> ({9, 10, 11, 12, 13, 32, 160} :: nat set)"

definition isSafeIntFrom :: "int \<Rightarrow> int \<Rightarrow> bool" where
  "isSafeIntFrom lo n \<longleftrightarrow> lo \<le> n \<and> n \<le> MAX_SAFE_INTEGER"

definition starts_with :: "string \<Rightarrow> string \<Rightarrow> bool" where
  "starts_with p s \<longleftrightarrow> take (length p) s = p"

fun validLotInputRef :: "LotInputRef \<Rightarrow> bool" where
  "validLotInputRef (EventRef eventId revision) \<longleftrightarrow> validEventId eventId \<and> isSafeIntFrom 1 revision"
| "validLotInputRef (ObservationRef factKind observationId parseRunId jsonPath) \<longleftrightarrow>
     isSafeIntFrom 1 observationId \<and> isSafeIntFrom 1 parseRunId \<and>
     (case jsonPath of
        None \<Rightarrow> True
      | Some path \<Rightarrow> isText 512 path \<and> starts_with ''$'' path \<and> \<not> list_ex is_space path)"

definition validLotFxRate :: "LotFxRate \<Rightarrow> bool" where
  "validLotFxRate r \<longleftrightarrow>
     validExactDecimal (fxRate r) \<and> isText 128 (fxFromUnit r) \<and> isText 128 (fxToUnit r) \<and>
     isText 512 (fxRateRef r)"

definition validLotInputTimes :: "LotInputTimes \<Rightarrow> bool" where
  "validLotInputTimes t \<longleftrightarrow> validTemporalValue (trade t) \<and> validTemporalValue (settlement t)"

definition validLotSelection :: "LotSelection \<Rightarrow> bool" where
  "validLotSelection s \<longleftrightarrow> isText 1024 (selectionLotId s) \<and> validQuantity (selectionQuantity s)"

definition validLotInput :: "LotInput \<Rightarrow> bool" where
  "validLotInput i \<longleftrightarrow>
     contract i = LOT_INPUT_CONTRACT \<and>
     validLotInputRef (inputRef i) \<and>
     isText 256 (holderRef i) \<and>
     starts_with ''account:'' (holderRef i) \<and>
     length ''account:'' < length (holderRef i) \<and>
     isText 256 (instrumentRef i) \<and>
     isText 256 (wrapperKey i) \<and>
     validLotInputTimes (inputTime i) \<and>
     validQuantity (quantity i) \<and>
     (case consideration i of None \<Rightarrow> True | Some q \<Rightarrow> validQuantity q) \<and>
     length (inputFees i) \<le> 64 \<and> list_all validQuantity (inputFees i) \<and>
     (case fx i of None \<Rightarrow> True | Some r \<Rightarrow> validLotFxRate r) \<and>
     (case split i of None \<Rightarrow> True | Some r \<Rightarrow> validExactRatio r) \<and>
     (case lotSelections i of None \<Rightarrow> True
      | Some ss \<Rightarrow> length ss \<le> 10000 \<and> list_all validLotSelection ss)"

definition validRoundingPolicy :: "RoundingPolicy \<Rightarrow> bool" where
  "validRoundingPolicy r \<longleftrightarrow> isText 256 (rpPolicyId r) \<and> rpPrecision r \<le> 4096"

definition validLotPolicy :: "LotPolicy \<Rightarrow> bool" where
  "validLotPolicy p \<longleftrightarrow>
     isText 256 (policyId p) \<and>
     isSafeIntFrom 1 (version p) \<and>
     isText 256 (fxPolicyRef p) \<and>
     (if fxMode p = Convert_at_input_rate
      then (case costUnitRef p of None \<Rightarrow> False | Some u \<Rightarrow> isText 128 u)
      else costUnitRef p = None) \<and>
     (case rounding p of None \<Rightarrow> True | Some r \<Rightarrow> validRoundingPolicy r)"

definition lotPolicyRef :: "LotPolicy \<Rightarrow> string" where
  "lotPolicyRef p = policyId p @ ''@'' @ int_text (version p)"

section \<open>Per-kind rules\<close>

definition ZERO :: ExactDecimal where
  "ZERO = integerDecimal 0"

definition exactValue :: "Quantity \<Rightarrow> ExactDecimal option" where
  "exactValue q = (case quantityValue q of ExactValue v _ \<Rightarrow> Some v | AbsentValue _ _ \<Rightarrow> None)"

definition signRefused :: "Quantity \<Rightarrow> bool \<Rightarrow> bool" where
  "signRefused q allowZero \<longleftrightarrow>
     (case exactValue q of
        None \<Rightarrow> False
      | Some v \<Rightarrow>
          (let order = compareDecimals v ZERO in if allowZero then order < 0 else order \<le> 0))"

definition costless :: "LotInput \<Rightarrow> bool" where
  "costless i \<longleftrightarrow>
     consideration i = None \<and> inputFees i = [] \<and> fx i = None \<and> lotSelections i = None"

definition inputRulesHold :: "LotInput \<Rightarrow> LotPolicy \<Rightarrow> bool" where
  "inputRulesHold i p =
     (if unitRef (quantity i) \<noteq> instrumentRef i then False
      else if list_ex (\<lambda>fee. signRefused fee True) (inputFees i) then False
      else if (case consideration i of None \<Rightarrow> False | Some c \<Rightarrow> signRefused c True) then False
      else if (case fx i of None \<Rightarrow> False
               | Some r \<Rightarrow> compareDecimals (fxRate r) ZERO \<le> 0 \<or> fxFromUnit r = fxToUnit r) then False
      else case kind i of
        Acquisition \<Rightarrow>
          \<not> signRefused (quantity i) False \<and> split i = None \<and> lotSelections i = None
      | Disposal \<Rightarrow>
          (if signRefused (quantity i) False \<or> split i \<noteq> None then False
           else case lotSelections i of
             None \<Rightarrow> True
           | Some ss \<Rightarrow>
               (if lotMethod p \<noteq> Specific_identification then False
                else distinct (map selectionLotId ss) \<and>
                  list_all (\<lambda>s. unitRef (selectionQuantity s) = instrumentRef i \<and>
                    \<not> signRefused (selectionQuantity s) False) ss))
      | Split \<Rightarrow>
          costless i \<and>
          (case split i of None \<Rightarrow> False | Some r \<Rightarrow> 0 < numerator r) \<and>
          \<not> signRefused (quantity i) True
      | Snapshot \<Rightarrow> costless i \<and> split i = None \<and> \<not> signRefused (quantity i) True
      | Transfer \<Rightarrow> split i = None \<and> lotSelections i = None)"

lemma dec_value_ZERO [simp]: "dec_value ZERO = 0"
  by (simp add: ZERO_def value_simps)

lemma canonical_ZERO [simp]: "canonical ZERO"
  by (simp add: ZERO_def)

lemma exactValue_exactQuantity [simp]: "exactValue (exactQuantity u v) = Some v"
  by (simp add: exactValue_def)

lemma signRefused_value:
  "exactValue q = Some v \<Longrightarrow> signRefused q True \<longleftrightarrow> dec_value v < 0"
  "exactValue q = Some v \<Longrightarrow> signRefused q False \<longleftrightarrow> dec_value v \<le> 0"
  by (auto simp: signRefused_def compareDecimals_value Let_def)

lemma validQuantity_canonical:
  "validQuantity q \<Longrightarrow> exactValue q = Some v \<Longrightarrow> canonical v"
  by (auto simp: validQuantity_def exactValue_def validExactDecimal_canonical split: ValueState.splits)

text \<open>What the rules say of the exact quantity of each kind of input.\<close>

lemma rules_positive:
  assumes "inputRulesHold i p" and "kind i \<in> {Acquisition, Disposal}" and "exactValue (quantity i) = Some v"
  shows "0 < dec_value v"
  using assms signRefused_value(2) [OF assms(3)]
  by (auto simp: inputRulesHold_def split: if_splits)

lemma rules_nonneg:
  assumes "inputRulesHold i p" and "kind i \<in> {Split, Snapshot}" and "exactValue (quantity i) = Some v"
  shows "0 \<le> dec_value v"
  using assms signRefused_value(1) [OF assms(3)]
  by (auto simp: inputRulesHold_def split: if_splits)

lemma rules_split:
  assumes "inputRulesHold i p" and "kind i = Split"
  obtains r where "split i = Some r" and "0 < numerator r"
  using assms by (auto simp: inputRulesHold_def split: if_splits option.splits)

lemma rules_selections:
  assumes "inputRulesHold i p" and "kind i = Disposal" and "lotSelections i = Some ss"
  shows "distinct (map selectionLotId ss)"
    and "s \<in> set ss \<Longrightarrow> exactValue (selectionQuantity s) = Some v \<Longrightarrow> 0 < dec_value v"
proof -
  have all: "distinct (map selectionLotId ss) \<and>
      list_all (\<lambda>s. unitRef (selectionQuantity s) = instrumentRef i \<and>
        \<not> signRefused (selectionQuantity s) False) ss"
    using assms by (simp add: inputRulesHold_def split: if_splits)
  then show "distinct (map selectionLotId ss)" by simp
  assume "s \<in> set ss" "exactValue (selectionQuantity s) = Some v"
  with all show "0 < dec_value v"
    using signRefused_value(2) [of "selectionQuantity s" v] by (auto simp: list_all_iff)
qed

end
