(* ===== verification/Lot_Amounts.thy ===== *)
theory Lot_Amounts
  imports Lot_Inputs
begin

text \<open>
  Amounts of the lot engine (\<open>packages/domain/src/lots.ts\<close>): the closed reason codes, known and
  unknown amounts and their combination, the cost-unit conversion of an input's own amounts, and
  the share of a lot's amount that a disposal takes. The lemmas say that shares are exact: what is
  taken and what is left always add up to what was there.
\<close>

section \<open>Reason codes\<close>

datatype LotReasonCode =
    R_order_tie | R_unknown_time | R_negative_holding | R_unknown_cost | R_unknown_acquisition_fee
  | R_unknown_proceeds | R_unknown_disposal_fee | R_snapshot_mismatch | R_unknown_lot
  | R_lot_selection_missing | R_lot_selection_mismatch | R_inexact_allocation | R_fx_rate_missing
  | R_unit_mismatch | R_value_not_exact | R_corporate_action_unsupported | R_upstream_indeterminate

fun reason_text :: "LotReasonCode \<Rightarrow> string" where
  "reason_text R_order_tie = ''order_tie''"
| "reason_text R_unknown_time = ''unknown_time''"
| "reason_text R_negative_holding = ''negative_holding''"
| "reason_text R_unknown_cost = ''unknown_cost''"
| "reason_text R_unknown_acquisition_fee = ''unknown_acquisition_fee''"
| "reason_text R_unknown_proceeds = ''unknown_proceeds''"
| "reason_text R_unknown_disposal_fee = ''unknown_disposal_fee''"
| "reason_text R_snapshot_mismatch = ''snapshot_mismatch''"
| "reason_text R_unknown_lot = ''unknown_lot''"
| "reason_text R_lot_selection_missing = ''lot_selection_missing''"
| "reason_text R_lot_selection_mismatch = ''lot_selection_mismatch''"
| "reason_text R_inexact_allocation = ''inexact_allocation''"
| "reason_text R_fx_rate_missing = ''fx_rate_missing''"
| "reason_text R_unit_mismatch = ''unit_mismatch''"
| "reason_text R_value_not_exact = ''value_not_exact''"
| "reason_text R_corporate_action_unsupported = ''corporate_action_unsupported''"
| "reason_text R_upstream_indeterminate = ''upstream_indeterminate''"

lemma reason_text_inject [simp]: "reason_text a = reason_text b \<longleftrightarrow> a = b"
  by (cases a; cases b) simp_all

text \<open>Reason codes are sorted as texts, so their order is the order of the texts.\<close>

instantiation LotReasonCode :: linorder
begin

definition less_eq_LotReasonCode :: "LotReasonCode \<Rightarrow> LotReasonCode \<Rightarrow> bool" where
  "a \<le> b \<longleftrightarrow> reason_text a \<le> reason_text b"

definition less_LotReasonCode :: "LotReasonCode \<Rightarrow> LotReasonCode \<Rightarrow> bool" where
  "a < b \<longleftrightarrow> reason_text a < reason_text b"

instance
  by standard (auto simp: less_eq_LotReasonCode_def less_LotReasonCode_def less_le)

end

definition LOT_LIMITED_REASON_CODES :: "LotReasonCode list" where
  "LOT_LIMITED_REASON_CODES =
     [R_unknown_cost, R_unknown_acquisition_fee, R_unknown_proceeds, R_unknown_disposal_fee,
      R_fx_rate_missing, R_unit_mismatch]"

datatype LotAmountUnknownReason =
  Snapshot_only | Consideration_missing | Fee_unknown | Amount_fx_rate_missing | Amount_unit_mismatch

section \<open>Amounts\<close>

datatype LotAmount = AmountKnown Quantity | AmountUnknown LotAmountUnknownReason

datatype Amount = KnownAmount string ExactDecimal | UnknownAmount LotAmountUnknownReason

fun lotAmount :: "Amount \<Rightarrow> LotAmount" where
  "lotAmount (KnownAmount u v) = AmountKnown (exactQuantity u v)"
| "lotAmount (UnknownAmount r) = AmountUnknown r"

definition combine :: "Amount \<Rightarrow> Amount \<Rightarrow> int \<Rightarrow> Amount" where
  "combine a b sign =
     (case a of
        UnknownAmount _ \<Rightarrow> a
      | KnownAmount ua va \<Rightarrow>
          (case b of
             UnknownAmount _ \<Rightarrow> b
           | KnownAmount ub vb \<Rightarrow>
               (let operate = (if sign = 1 then addQuantities else subtractQuantities)
                in case operate (exactQuantity ua va) (exactQuantity ub vb) of
                     Inl _ \<Rightarrow> UnknownAmount Amount_unit_mismatch
                   | Inr q \<Rightarrow> KnownAmount (unitRef q) (the (exactValue q)))))"

definition sumAmounts :: "Amount list \<Rightarrow> Amount option" where
  "sumAmounts amounts =
     (case amounts of
        [] \<Rightarrow> None
      | first # rest \<Rightarrow> Some (foldl (\<lambda>total nxt. combine total nxt 1) first rest))"

definition inCostUnit ::
  "Quantity \<Rightarrow> LotFxRate option \<Rightarrow> LotPolicy \<Rightarrow> LotAmountUnknownReason \<Rightarrow> Amount \<times> LotFxRate option"
where
  "inCostUnit q rate p absent =
     (case exactValue q of
        None \<Rightarrow> (UnknownAmount absent, None)
      | Some v \<Rightarrow>
          if fxMode p = Lot_currency \<or> Some (unitRef q) = costUnitRef p then
            (KnownAmount (unitRef q) v, None)
          else case rate of
            None \<Rightarrow> (UnknownAmount Amount_fx_rate_missing, None)
          | Some r \<Rightarrow>
              if fxFromUnit r = unitRef q \<and> Some (fxToUnit r) = costUnitRef p then
                (KnownAmount (fxToUnit r) (multiplyDecimals v (fxRate r)), Some r)
              else (UnknownAmount Amount_fx_rate_missing, None))"

record InputAmounts =
  considerationAmount :: Amount
  feesAmount :: "Amount option"
  fxUsed :: "LotFxRate option"

definition inputAmounts :: "LotInput \<Rightarrow> LotPolicy \<Rightarrow> InputAmounts" where
  "inputAmounts i p =
     (let con = (case consideration i of
                   None \<Rightarrow> (UnknownAmount Consideration_missing, None)
                 | Some q \<Rightarrow> inCostUnit q (fx i) p Consideration_missing);
          parts = map (\<lambda>fee. inCostUnit fee (fx i) p Fee_unknown) (inputFees i);
          used = (if list_ex (\<lambda>part. snd part \<noteq> None) (con # parts) then fx i else None)
      in \<lparr>considerationAmount = fst con, feesAmount = sumAmounts (map fst parts), fxUsed = used\<rparr>)"

fun amountReasons :: "Amount option \<Rightarrow> LotReasonCode \<Rightarrow> LotReasonCode list" where
  "amountReasons None general = []"
| "amountReasons (Some (KnownAmount _ _)) general = []"
| "amountReasons (Some (UnknownAmount r)) general =
     (if r = Amount_fx_rate_missing then [general, R_fx_rate_missing]
      else if r = Amount_unit_mismatch then [general, R_unit_mismatch]
      else [general])"

section \<open>Shares\<close>

definition ratioOf :: "ExactDecimal \<Rightarrow> ExactDecimal \<Rightarrow> ExactRatio" where
  "ratioOf part whole =
     (let al = alignScales part whole in \<lparr>numerator = alignedA al, denominator = alignedB al\<rparr>)"

record Share =
  shareAmount :: Amount
  shareRounding :: "RoundingInputs option"

text \<open>The overshoot guard of a rounded share, with the amount's sign as the code reads it.\<close>

definition overshoots :: "ExactDecimal \<Rightarrow> ExactDecimal \<Rightarrow> bool" where
  "overshoots amount rounded =
     (let sign = compareDecimals amount ZERO;
          shareSign = compareDecimals rounded ZERO;
          magnitude = (\<lambda>v. if sign < 0 then negateDecimal v else v)
      in (shareSign \<noteq> 0 \<and> shareSign \<noteq> sign) \<or>
         compareDecimals (magnitude rounded) (magnitude amount) > 0)"

definition shareOf ::
  "Amount \<Rightarrow> ExactDecimal \<Rightarrow> ExactDecimal \<Rightarrow> RoundingPolicy option \<Rightarrow> Share option"
where
  "shareOf amount taken left rp =
     (case amount of
        UnknownAmount _ \<Rightarrow> Some \<lparr>shareAmount = amount, shareRounding = None\<rparr>
      | KnownAmount u v \<Rightarrow>
          if decimalEquals taken left then Some \<lparr>shareAmount = amount, shareRounding = None\<rparr>
          else
            let ratio = ratioOf taken left; exact = multiplyByRatio v ratio None
            in case rp of
                 None \<Rightarrow>
                   (case exact of
                      Inl _ \<Rightarrow> None
                    | Inr e \<Rightarrow> Some \<lparr>shareAmount = KnownAmount u e, shareRounding = None\<rparr>)
               | Some r \<Rightarrow>
                   (case multiplyByRatio v ratio
                          (Some \<lparr>roundScale = rpPrecision r, roundMode = rpMode r\<rparr>) of
                      Inl _ \<Rightarrow> None
                    | Inr d \<Rightarrow>
                        if overshoots v d then None
                        else Some \<lparr>shareAmount = KnownAmount u d,
                               shareRounding = Some \<lparr>riPolicyId = rpPolicyId r, riWhere = rpWhere r,
                                 riMode = rpMode r, riPrecision = rpPrecision r,
                                 riResidual = rpResidual r, riOperands = [v, taken, left],
                                 riPreRounding = (case exact of Inl _ \<Rightarrow> None | Inr e \<Rightarrow> Some e)\<rparr>\<rparr>))"

section \<open>What amounts and shares mean\<close>

lemma lotAmount_inject [simp]: "lotAmount a = lotAmount b \<longleftrightarrow> a = b"
  by (cases a; cases b) (auto simp: exactQuantity_def)

lemma combine_simps [simp]:
  "combine (UnknownAmount r) b sign = UnknownAmount r"
  "combine (KnownAmount u v) (UnknownAmount r) sign = UnknownAmount r"
  "combine (KnownAmount u v) (KnownAmount w x) 1 =
     (if u = w then KnownAmount u (sumDecimals [v, x]) else UnknownAmount Amount_unit_mismatch)"
  "combine (KnownAmount u v) (KnownAmount w x) (- 1) =
     (if u = w then KnownAmount u (subtractDecimals v x) else UnknownAmount Amount_unit_mismatch)"
  by (simp_all add: combine_def addQuantities_exact subtractQuantities_exact)

fun amount_canonical :: "Amount \<Rightarrow> bool" where
  "amount_canonical (KnownAmount _ v) \<longleftrightarrow> canonical v"
| "amount_canonical (UnknownAmount _) \<longleftrightarrow> True"

lemma amount_canonical_combine [simp]:
  "amount_canonical a \<Longrightarrow> amount_canonical b \<Longrightarrow> amount_canonical (combine a b 1)"
  "amount_canonical a \<Longrightarrow> amount_canonical b \<Longrightarrow> amount_canonical (combine a b (- 1))"
  by (cases a; cases b; simp)+

text \<open>The value an amount contributes to a total of known amounts.\<close>

fun amount_value :: "Amount \<Rightarrow> rat" where
  "amount_value (KnownAmount _ v) = dec_value v"
| "amount_value (UnknownAmount _) = 0"

fun amount_unit :: "Amount \<Rightarrow> string option" where
  "amount_unit (KnownAmount u _) = Some u"
| "amount_unit (UnknownAmount _) = None"

lemma length_nat_text_less: "length (nat_text n) \<le> k \<longleftrightarrow> 0 < k \<and> n < 10 ^ k"
proof (induction n arbitrary: k rule: nat_text.induct)
  case (1 n)
  show ?case
  proof (cases "n < 10")
    case True
    have "(10 :: nat) ^ 1 \<le> 10 ^ k" if "0 < k" using that by (intro power_increasing) auto
    with True show ?thesis by (auto simp: nat_text.simps [of n] Suc_le_eq)
  next
    case False
    then obtain j where IH: "\<And>k. length (nat_text (n div 10)) \<le> k \<longleftrightarrow> 0 < k \<and> n div 10 < 10 ^ k"
      using 1 by blast
    have len: "length (nat_text n) = Suc (length (nat_text (n div 10)))"
      using False by (simp add: nat_text.simps [of n])
    show ?thesis
    proof (cases k)
      case (Suc i)
      have "n div 10 < 10 ^ i \<longleftrightarrow> n < 10 ^ Suc i" by (simp add: div_less_iff_less_mult mult.commute)
      moreover have "0 < i" if "n div 10 < 10 ^ i" using that False by (cases i) auto
      ultimately show ?thesis using IH [of i] Suc len by auto
    qed (simp add: len)
  qed
qed

lemma length_int_text_less:
  "0 \<le> i \<Longrightarrow> length (int_text i) \<le> k \<longleftrightarrow> 0 < k \<and> i < 10 ^ k"
  by (auto simp: int_text_def length_nat_text_less nat_less_iff)

text \<open>
  The ratio of a part to a positive whole is valid exactly when the whole, written at the finer of
  the two scales, stays within the digit limit.
\<close>

definition ratio_fits :: "ExactDecimal \<Rightarrow> ExactDecimal \<Rightarrow> bool" where
  "ratio_fits part whole \<longleftrightarrow> alignedB (alignScales part whole) < 10 ^ DECIMAL_DIGIT_LIMIT"

lemma aligned_order:
  "alignedA (alignScales a b) \<le> alignedB (alignScales a b) \<longleftrightarrow> dec_value a \<le> dec_value b"
  "0 \<le> alignedA (alignScales a b) \<longleftrightarrow> 0 \<le> dec_value a"
  "0 < alignedB (alignScales a b) \<longleftrightarrow> 0 < dec_value b"
proof -
  have le: "x \<le> y \<longleftrightarrow> (of_int x :: rat) \<le> of_int y" "x < y \<longleftrightarrow> (of_int x :: rat) < of_int y"
    for x y :: int by simp_all
  have pos: "\<not> (10 :: rat) ^ alignedScale (alignScales a b) \<le> 0" by (simp add: not_le)
  show "alignedA (alignScales a b) \<le> alignedB (alignScales a b) \<longleftrightarrow> dec_value a \<le> dec_value b"
    "0 \<le> alignedA (alignScales a b) \<longleftrightarrow> 0 \<le> dec_value a"
    "0 < alignedB (alignScales a b) \<longleftrightarrow> 0 < dec_value b"
    unfolding le aligned_eq using pos
    by (simp_all add: zero_le_mult_iff zero_less_mult_iff del: zero_less_power)
qed

lemma ratioOf_valid:
  assumes "0 \<le> dec_value part" and "dec_value part \<le> dec_value whole" and "0 < dec_value whole"
  shows "validExactRatio (ratioOf part whole) \<longleftrightarrow> ratio_fits part whole"
proof -
  let ?a = "alignedA (alignScales part whole)" and ?b = "alignedB (alignScales part whole)"
  have ab: "0 \<le> ?a" "?a \<le> ?b" "0 < ?b" using assms by (simp_all add: aligned_order)
  have "length (int_text ?a) \<le> DECIMAL_DIGIT_LIMIT + 1" if "?b < 10 ^ DECIMAL_DIGIT_LIMIT"
  proof -
    have "?a < 10 ^ DECIMAL_DIGIT_LIMIT" using ab that by linarith
    also have "\<dots> \<le> 10 ^ (DECIMAL_DIGIT_LIMIT + 1)" by (intro power_increasing) auto
    finally show ?thesis using ab by (simp add: length_int_text_less)
  qed
  moreover have "0 < DECIMAL_DIGIT_LIMIT" by (simp add: DECIMAL_DIGIT_LIMIT_def)
  ultimately show ?thesis
    using ab length_int_text_less [of ?b DECIMAL_DIGIT_LIMIT]
    by (auto simp: validExactRatio_def ratioOf_def Let_def ratio_fits_def)
qed

lemma ratioOf_value:
  "0 < dec_value whole \<Longrightarrow> ratio_value (ratioOf part whole) = dec_value part / dec_value whole"
  by (simp add: ratio_value_def ratioOf_def Let_def aligned_eq)

text \<open>
  A share of a positive part of what is left: an unknown amount is passed on, the whole takes the
  amount as it is, and a part takes a share that never changes the sign and never exceeds the
  amount. Without rounding it is exactly proportional.
\<close>

lemma shareOf_Unknown [simp]:
  "shareOf (UnknownAmount r) taken left rp = Some \<lparr>shareAmount = UnknownAmount r, shareRounding = None\<rparr>"
  by (simp add: shareOf_def)

lemma shareOf_whole:
  "dec_value taken = dec_value left \<Longrightarrow>
   shareOf a taken left rp = Some \<lparr>shareAmount = a, shareRounding = None\<rparr>"
  by (cases a) (simp_all add: shareOf_def decimalEquals_value)

lemma not_overshoots:
  "\<not> overshoots a b \<Longrightarrow> 0 \<le> dec_value a * dec_value b \<and> \<bar>dec_value b\<bar> \<le> \<bar>dec_value a\<bar>"
  by (cases "dec_value a" "0 :: rat" rule: linorder_cases;
      cases "dec_value b" "0 :: rat" rule: linorder_cases)
    (auto simp: overshoots_def Let_def compareDecimals_value dec_value_negateDecimal
      zero_le_mult_iff split: if_splits)

lemma shareOf_Known:
  assumes "shareOf (KnownAmount u v) taken left rp = Some s"
    and "0 < dec_value taken" and "dec_value taken \<le> dec_value left"
  obtains w where "shareAmount s = KnownAmount u w"
    and "canonical v \<Longrightarrow> canonical w"
    and "0 \<le> dec_value v * dec_value w" and "\<bar>dec_value w\<bar> \<le> \<bar>dec_value v\<bar>"
    and "rp = None \<Longrightarrow> dec_value w = dec_value v * (dec_value taken / dec_value left)"
proof (cases "dec_value taken = dec_value left")
  case True
  then have "shareAmount s = KnownAmount u v" using assms(1) by (auto simp: shareOf_whole)
  then show ?thesis using True assms(2) that [of v] by simp
next
  case False
  let ?q = "dec_value taken / dec_value left"
  have q: "0 \<le> ?q" "?q \<le> 1" and left: "0 < dec_value left" using assms(2,3) by simp_all
  show ?thesis
  proof (cases rp)
    case None
    then obtain e where e: "multiplyByRatio v (ratioOf taken left) None = Inr e"
      "shareAmount s = KnownAmount u e"
      using assms(1) False by (auto simp: shareOf_def decimalEquals_value Let_def split: sum.splits)
    note ok = multiplyByRatio_ok [OF e(1), unfolded ratioOf_value [OF left]]
    have "0 \<le> dec_value v * dec_value e"
      using mult_nonneg_nonneg [OF zero_le_square [of "dec_value v"] q(1)]
      unfolding ok(2) by (simp add: mult.assoc)
    moreover have "\<bar>dec_value e\<bar> \<le> \<bar>dec_value v\<bar>"
      using q mult_left_le [of "?q" "\<bar>dec_value v\<bar>"] unfolding ok(2)
      by (simp only: abs_mult [of "dec_value v"] abs_of_nonneg abs_ge_zero)
    ultimately show ?thesis using that [of e] e(2) ok(1,2) by simp
  next
    case (Some r)
    then obtain d where d: "multiplyByRatio v (ratioOf taken left)
        (Some \<lparr>roundScale = rpPrecision r, roundMode = rpMode r\<rparr>) = Inr d"
      "\<not> overshoots v d" "shareAmount s = KnownAmount u d"
      using assms(1) False
      by (auto simp: shareOf_def decimalEquals_value Let_def split: sum.splits if_splits)
    have "validExactRatio (ratioOf taken left)" using d(1) by (auto simp: multiplyByRatio_def split: if_splits)
    from multiplyByRatio_rounding [OF this, of v "\<lparr>roundScale = rpPrecision r, roundMode = rpMode r\<rparr>"]
    have "canonical d" using d(1) by auto
    then show ?thesis using that [of d] not_overshoots [OF d(2)] d(3) Some by simp
  qed
qed

lemma shareOf_exact_iff:
  assumes "0 < dec_value taken" and "dec_value taken < dec_value left"
  shows "shareOf (KnownAmount u v) taken left None = None \<longleftrightarrow>
    \<not> ratio_fits taken left \<or>
    \<not> (\<exists>d. dec_value d = dec_value v * (dec_value taken / dec_value left))"
proof -
  have fits: "validExactRatio (ratioOf taken left) \<longleftrightarrow> ratio_fits taken left"
    using assms by (intro ratioOf_valid) simp_all
  have val: "ratio_value (ratioOf taken left) = dec_value taken / dec_value left"
    using assms by (intro ratioOf_value) simp
  show ?thesis
  proof (cases "ratio_fits taken left")
    case True
    with multiplyByRatio_exact_cases [of "ratioOf taken left" v] assms fits val show ?thesis
      by (auto simp: shareOf_def decimalEquals_value Let_def split: sum.splits)
  next
    case False
    with assms fits show ?thesis
      by (simp add: shareOf_def decimalEquals_value Let_def multiplyByRatio_def)
  qed
qed

end
