(* ===== verification/Lot_Book.thy ===== *)
theory Lot_Book
  imports Lot_Amounts
begin

text \<open>
  The state of one book of the lot engine (\<open>packages/domain/src/lots.ts\<close>) and the operations that
  apply one input to it: \<open>applyAcquisition\<close>, \<open>applyDisposal\<close>, \<open>applySplit\<close>, \<open>applySnapshot\<close> and
  the dispatcher \<open>applyEntry\<close>. The source mutates the state; here every operation returns the new
  one. A lot mutated through a reference is the element of \<open>lots\<close> at its position.
\<close>

section \<open>State\<close>

record LotSplitStep =
  splitRef :: string
  splitRatio :: ExactRatio

record LotLineage =
  originRef :: string
  originAcquiredAt :: "TemporalValue option"
  originCostUnit :: "string option"
  fragmentOf :: "string option"
  splits :: "LotSplitStep list"

record Lot =
  lotId :: string
  acquisitionRefs :: "string list"
  acquiredAt :: "TemporalValue option"
  lotQuantity :: ExactDecimal
  remaining :: ExactDecimal
  cost :: Amount
  remainingCost :: Amount
  fees :: "Amount option"
  remainingFees :: "Amount option"
  fxBasis :: "LotFxRate list"
  costUnits :: "string list"
  lineage :: LotLineage

record LotPool =
  poolLotId :: string
  poolAcquisitionRefs :: "string list"

record LotAllocation =
  allocLotId :: string
  allocAcquisitionRefs :: "string list option"
  poolMembers :: "nat option"
  allocQuantity :: Quantity
  allocCost :: LotAmount
  allocFees :: "LotAmount option"
  allocFxBasis :: "LotFxRate list"
  costRounding :: "RoundingInputs option"
  feesRounding :: "RoundingInputs option"

datatype LotDisposalOutcome = Allocated | Limited | Indeterminate

record LotDisposal =
  disposalRef :: string
  disposalTime :: TemporalValue
  disposalQuantity :: Quantity
  allocations :: "LotAllocation list"
  allocatedCost :: "Quantity option"
  proceeds :: LotAmount
  disposalFees :: "LotAmount option"
  disposalFxBasis :: "LotFxRate option"
  outcome :: LotDisposalOutcome
  reasonCodes :: "LotReasonCode list"

record LotState =
  stateLotId :: string
  stateAcquisitionRefs :: "string list"
  stateAcquiredAt :: "TemporalValue option"
  stateQuantity :: Quantity
  stateRemainingQuantity :: Quantity
  stateCost :: LotAmount
  stateRemainingCost :: LotAmount
  stateFees :: "LotAmount option"
  stateRemainingFees :: "LotAmount option"
  stateFxBasis :: "LotFxRate list"
  stateLineage :: LotLineage

record StopPoint =
  stopRefs :: "string list"
  stopReason :: LotReasonCode

record BookState =
  lots :: "Lot list"
  index :: "string \<rightharpoonup> nat"
  firstOpen :: nat
  held :: ExactDecimal
  closedPools :: "LotPool list"
  history :: bool
  indeterminate :: "StopPoint option"
  disposals :: "LotDisposal list"

record Entry =
  entryInput :: LotInput
  entryRef :: string
  entryTime :: TemporalValue

definition emptyState :: BookState where
  "emptyState = \<lparr>lots = [], index = Map.empty, firstOpen = 0, held = ZERO, closedPools = [],
     history = False, indeterminate = None, disposals = []\<rparr>"

definition trialState :: "BookState \<Rightarrow> BookState" where
  "trialState st = st\<lparr>disposals := []\<rparr>"

definition poolOf :: "Lot \<Rightarrow> LotPool" where
  "poolOf l = \<lparr>poolLotId = lotId l, poolAcquisitionRefs = acquisitionRefs l\<rparr>"

definition addLot :: "BookState \<Rightarrow> Lot \<Rightarrow> BookState" where
  "addLot st l = st\<lparr>index := (index st)(lotId l \<mapsto> length (lots st)),
     lots := lots st @ [l], held := addDecimals (held st) (remaining l)\<rparr>"

definition lotState :: "Lot \<Rightarrow> string \<Rightarrow> LotState" where
  "lotState l instrument = \<lparr>
     stateLotId = lotId l,
     stateAcquisitionRefs = acquisitionRefs l,
     stateAcquiredAt = acquiredAt l,
     stateQuantity = exactQuantity instrument (lotQuantity l),
     stateRemainingQuantity = exactQuantity instrument (remaining l),
     stateCost = lotAmount (cost l),
     stateRemainingCost = lotAmount (remainingCost l),
     stateFees = map_option lotAmount (fees l),
     stateRemainingFees = map_option lotAmount (remainingFees l),
     stateFxBasis = fxBasis l,
     stateLineage = lineage l\<rparr>"

definition originLineage :: "string \<Rightarrow> TemporalValue option \<Rightarrow> Amount \<Rightarrow> LotLineage" where
  "originLineage ref acquired c = \<lparr>originRef = ref, originAcquiredAt = acquired,
     originCostUnit = (case c of KnownAmount u _ \<Rightarrow> Some u | UnknownAmount _ \<Rightarrow> None),
     fragmentOf = None, splits = []\<rparr>"

definition markIndeterminate :: "BookState \<Rightarrow> string list \<Rightarrow> LotReasonCode \<Rightarrow> BookState" where
  "markIndeterminate st refs reason =
     (if indeterminate st = None
      then st\<lparr>indeterminate := Some \<lparr>stopRefs = sort refs, stopReason = reason\<rparr>\<rparr> else st)"

definition unionSorted :: "string list \<Rightarrow> string list \<Rightarrow> string list" where
  "unionSorted a b = sorted_set (a @ b)"

definition costUnitsOf :: "LotInput \<Rightarrow> LotPolicy \<Rightarrow> string list" where
  "costUnitsOf i p =
     (if fxMode p = Convert_at_input_rate then [the (costUnitRef p)]
      else
        let units = (case consideration i of None \<Rightarrow> [] | Some c \<Rightarrow> [unitRef c]);
            feeUnits = (if acquisitionFee p = Capitalize then map unitRef (inputFees i) else [])
        in unionSorted units feeUnits)"

text \<open>\<open>Map.set\<close>: an existing key keeps its place and takes the new value, a new key is appended.\<close>

fun map_set :: "'k \<Rightarrow> 'v \<Rightarrow> ('k \<times> 'v) list \<Rightarrow> ('k \<times> 'v) list" where
  "map_set k v [] = [(k, v)]"
| "map_set k v ((k', v') # m) = (if k = k' then (k, v) # m else (k', v') # map_set k v m)"

definition fxKey :: "LotFxRate \<Rightarrow> string" where
  "fxKey r = fxRateRef r @ CHR 0x00 # fxFromUnit r @ CHR 0x00 # fxToUnit r @ CHR 0x00 #
     int_text (coefficient (fxRate r)) @ CHR ''e'' # nat_text (scale (fxRate r))"

definition addFxBasis :: "LotFxRate list \<Rightarrow> LotFxRate option \<Rightarrow> LotFxRate list" where
  "addFxBasis rates rate =
     (case rate of
        None \<Rightarrow> rates
      | Some r \<Rightarrow>
          (let merged = map_set (fxKey r) r (foldl (\<lambda>m x. map_set (fxKey x) x m) [] rates)
           in map snd (js_sort (\<lambda>a b. compareText (fst a) (fst b)) merged)))"

section \<open>Acquisitions\<close>

definition addFees :: "Amount option \<Rightarrow> Amount option \<Rightarrow> Amount option" where
  "addFees a b =
     (case a of
        None \<Rightarrow> b
      | Some x \<Rightarrow> (case b of None \<Rightarrow> a | Some y \<Rightarrow> Some (combine x y 1)))"

definition acquisitionCost :: "LotInput \<Rightarrow> LotPolicy \<Rightarrow> Amount" where
  "acquisitionCost i p =
     (let amounts = inputAmounts i p
      in case feesAmount amounts of
           Some f \<Rightarrow> if acquisitionFee p = Capitalize
                      then combine (considerationAmount amounts) f 1
                      else considerationAmount amounts
         | None \<Rightarrow> considerationAmount amounts)"

definition openLot :: "Entry \<Rightarrow> ExactDecimal \<Rightarrow> LotPolicy \<Rightarrow> Lot" where
  "openLot e q p =
     (let amounts = inputAmounts (entryInput e) p;
          c = acquisitionCost (entryInput e) p;
          acquired = (if lotMethod p = Moving_average then None else Some (entryTime e))
      in \<lparr>lotId = (if lotMethod p = Moving_average then ''pool:'' @ entryRef e else entryRef e),
          acquisitionRefs = [entryRef e],
          acquiredAt = acquired,
          lotQuantity = q,
          remaining = q,
          cost = c,
          remainingCost = c,
          fees = feesAmount amounts,
          remainingFees = feesAmount amounts,
          fxBasis = (case fxUsed amounts of None \<Rightarrow> [] | Some r \<Rightarrow> [r]),
          costUnits = costUnitsOf (entryInput e) p,
          lineage = originLineage (entryRef e) acquired c\<rparr>)"

definition joinPool :: "Lot \<Rightarrow> Entry \<Rightarrow> ExactDecimal \<Rightarrow> LotPolicy \<Rightarrow> string list \<Rightarrow> Lot" where
  "joinPool pool e q p units =
     (let amounts = inputAmounts (entryInput e) p;
          c = acquisitionCost (entryInput e) p
      in pool\<lparr>costUnits := units,
          acquisitionRefs := acquisitionRefs pool @ [entryRef e],
          lotQuantity := addDecimals (lotQuantity pool) q,
          remaining := addDecimals (remaining pool) q,
          cost := combine (cost pool) c 1,
          remainingCost := combine (remainingCost pool) c 1,
          fees := addFees (fees pool) (feesAmount amounts),
          remainingFees := addFees (remainingFees pool) (feesAmount amounts),
          fxBasis := addFxBasis (fxBasis pool) (fxUsed amounts)\<rparr>)"

definition applyAcquisition :: "BookState \<Rightarrow> Entry \<Rightarrow> ExactDecimal \<Rightarrow> LotPolicy \<Rightarrow> BookState" where
  "applyAcquisition st e q p =
     (let units = unionSorted (case lots st of [] \<Rightarrow> [] | pool # _ \<Rightarrow> costUnits pool)
                    (costUnitsOf (entryInput e) p)
      in if lotMethod p = Moving_average \<and> 1 < length units then
           markIndeterminate st [entryRef e] R_unit_mismatch
         else if lotMethod p \<noteq> Moving_average \<or> lots st = [] then addLot st (openLot e q p)
         else st\<lparr>lots := (lots st)[0 := joinPool (hd (lots st)) e q p units],
                 held := addDecimals (held st) q\<rparr>)"

section \<open>Disposals\<close>

record DisposalSide =
  sideProceeds :: Amount
  sideFees :: "Amount option"
  sideFxUsed :: "LotFxRate option"

definition disposalSide :: "LotInput \<Rightarrow> LotPolicy \<Rightarrow> DisposalSide" where
  "disposalSide i p =
     (let amounts = inputAmounts i p
      in \<lparr>sideProceeds =
            (case feesAmount amounts of
               Some f \<Rightarrow> if disposalFee p = Reduce_proceeds
                          then combine (considerationAmount amounts) f (- 1)
                          else considerationAmount amounts
             | None \<Rightarrow> considerationAmount amounts),
          sideFees = feesAmount amounts,
          sideFxUsed = fxUsed amounts\<rparr>)"

definition disposalRecord ::
  "Entry \<Rightarrow> DisposalSide \<Rightarrow> LotAllocation list \<Rightarrow> Quantity option \<Rightarrow> LotDisposalOutcome \<Rightarrow>
   LotReasonCode list \<Rightarrow> LotDisposal"
where
  "disposalRecord e side allocs allocated out reasons = \<lparr>
     disposalRef = entryRef e,
     disposalTime = entryTime e,
     disposalQuantity = quantity (entryInput e),
     allocations = allocs,
     allocatedCost = allocated,
     proceeds = lotAmount (sideProceeds side),
     disposalFees = map_option lotAmount (sideFees side),
     disposalFxBasis = sideFxUsed side,
     outcome = out,
     reasonCodes = sorted_set reasons\<rparr>"

definition indeterminateDisposal :: "Entry \<Rightarrow> LotPolicy \<Rightarrow> LotReasonCode \<Rightarrow> LotDisposal" where
  "indeterminateDisposal e p reason =
     disposalRecord e (disposalSide (entryInput e) p) [] None Indeterminate [reason]"

definition pushDisposal :: "BookState \<Rightarrow> LotDisposal \<Rightarrow> BookState" where
  "pushDisposal st d = st\<lparr>disposals := disposals st @ [d]\<rparr>"

definition failDisposal :: "BookState \<Rightarrow> Entry \<Rightarrow> LotPolicy \<Rightarrow> LotReasonCode \<Rightarrow> BookState" where
  "failDisposal st e p reason =
     pushDisposal (markIndeterminate st [entryRef e] reason) (indeterminateDisposal e p reason)"

text \<open>
  The plan of a disposal: which lots, by position, and how much of each. Specific identification
  resolves every selection, then follows lot order; the other methods walk the lots from the first
  open one.
\<close>

fun pickSelections ::
  "(string \<rightharpoonup> nat) \<Rightarrow> LotSelection list \<Rightarrow> LotReasonCode + (nat \<times> ExactDecimal) list"
where
  "pickSelections idx [] = Inr []"
| "pickSelections idx (s # ss) =
     (case exactValue (selectionQuantity s) of
        None \<Rightarrow> Inl R_value_not_exact
      | Some taken \<Rightarrow>
          (case idx (selectionLotId s) of
             None \<Rightarrow> Inl R_unknown_lot
           | Some position \<Rightarrow>
               (case pickSelections idx ss of
                  Inl r \<Rightarrow> Inl r
                | Inr picked \<Rightarrow> Inr ((position, taken) # picked))))"

definition planSelected ::
  "BookState \<Rightarrow> LotSelection list option \<Rightarrow> ExactDecimal \<Rightarrow> LotReasonCode + (nat \<times> ExactDecimal) list"
where
  "planSelected st selections q =
     (case selections of
        None \<Rightarrow> Inl R_lot_selection_missing
      | Some ss \<Rightarrow>
          (case pickSelections (index st) ss of
             Inl r \<Rightarrow> Inl r
           | Inr picked \<Rightarrow>
               (let plan = js_sort (\<lambda>a b. int (fst a) - int (fst b)) picked
                in if list_ex (\<lambda>(position, taken).
                        compareDecimals taken (remaining (lots st ! position)) > 0) plan then
                     Inl R_lot_selection_mismatch
                   else if \<not> decimalEquals (foldl addDecimals ZERO (map snd plan)) q then
                     Inl R_lot_selection_mismatch
                   else Inr plan)))"

fun planOpen :: "nat \<Rightarrow> Lot list \<Rightarrow> ExactDecimal \<Rightarrow> (nat \<times> ExactDecimal) list" where
  "planOpen position [] left = []"
| "planOpen position (l # ls) left =
     (if isZeroDecimal left then []
      else if isZeroDecimal (remaining l) then planOpen (Suc position) ls left
      else
        let taken = (if compareDecimals (remaining l) left < 0 then remaining l else left)
        in (position, taken) # planOpen (Suc position) ls (subtractDecimals left taken))"

definition planDisposal ::
  "BookState \<Rightarrow> Entry \<Rightarrow> ExactDecimal \<Rightarrow> LotPolicy \<Rightarrow> LotReasonCode + (nat \<times> ExactDecimal) list"
where
  "planDisposal st e q p =
     (if compareDecimals (held st) q < 0 then Inl R_negative_holding
      else if lotMethod p = Specific_identification then
        planSelected st (lotSelections (entryInput e)) q
      else Inr (planOpen (firstOpen st) (drop (firstOpen st) (lots st)) q))"

text \<open>The shares of one step: of the cost, and of the fees when the lot has any.\<close>

record StepShares =
  costShare :: Share
  feesShare :: "Share option"

definition stepShares ::
  "Lot list \<Rightarrow> LotPolicy \<Rightarrow> nat \<times> ExactDecimal \<Rightarrow> StepShares option"
where
  "stepShares ls p step =
     (let l = ls ! fst step; taken = snd step
      in case shareOf (remainingCost l) taken (remaining l) (rounding p) of
           None \<Rightarrow> None
         | Some c \<Rightarrow>
             (case remainingFees l of
                None \<Rightarrow> Some \<lparr>costShare = c, feesShare = None\<rparr>
              | Some f \<Rightarrow>
                  (case shareOf f taken (remaining l) (rounding p) of
                     None \<Rightarrow> None
                   | Some fs \<Rightarrow> Some \<lparr>costShare = c, feesShare = Some fs\<rparr>)))"

fun collect :: "('a \<Rightarrow> 'b option) \<Rightarrow> 'a list \<Rightarrow> 'b list option" where
  "collect f [] = Some []"
| "collect f (x # xs) =
     (case f x of None \<Rightarrow> None
      | Some y \<Rightarrow> (case collect f xs of None \<Rightarrow> None | Some ys \<Rightarrow> Some (y # ys)))"

definition allocationOf ::
  "LotPolicy \<Rightarrow> Entry \<Rightarrow> Lot \<Rightarrow> ExactDecimal \<Rightarrow> StepShares \<Rightarrow> LotAllocation"
where
  "allocationOf p e l taken s = \<lparr>
     allocLotId = lotId l,
     allocAcquisitionRefs =
       (if lotMethod p = Moving_average then None else Some (acquisitionRefs l)),
     poolMembers =
       (if lotMethod p = Moving_average then Some (length (acquisitionRefs l)) else None),
     allocQuantity = exactQuantity (instrumentRef (entryInput e)) taken,
     allocCost = lotAmount (shareAmount (costShare s)),
     allocFees = map_option (\<lambda>f. lotAmount (shareAmount f)) (feesShare s),
     allocFxBasis = fxBasis l,
     costRounding = shareRounding (costShare s),
     feesRounding = (case feesShare s of None \<Rightarrow> None | Some f \<Rightarrow> shareRounding f)\<rparr>"

definition takeFrom :: "Lot \<Rightarrow> ExactDecimal \<Rightarrow> StepShares \<Rightarrow> Lot" where
  "takeFrom l taken s = l\<lparr>
     remaining := subtractDecimals (remaining l) taken,
     remainingCost := combine (remainingCost l) (shareAmount (costShare s)) (- 1),
     remainingFees :=
       (case (remainingFees l, feesShare s) of
          (Some f, Some fs) \<Rightarrow> Some (combine f (shareAmount fs) (- 1))
        | _ \<Rightarrow> remainingFees l)\<rparr>"

fun takePlan :: "Lot list \<Rightarrow> ((nat \<times> ExactDecimal) \<times> StepShares) list \<Rightarrow> Lot list" where
  "takePlan ls [] = ls"
| "takePlan ls (((position, taken), s) # steps) =
     takePlan (ls[position := takeFrom (ls ! position) taken s]) steps"

definition stepReasons :: "StepShares \<Rightarrow> LotReasonCode list" where
  "stepReasons s =
     amountReasons (Some (shareAmount (costShare s))) R_unknown_cost @
     amountReasons (map_option shareAmount (feesShare s)) R_unknown_acquisition_fee"

function advanceOpen :: "Lot list \<Rightarrow> nat \<Rightarrow> nat" where
  "advanceOpen ls k =
     (if k < length ls \<and> isZeroDecimal (remaining (ls ! k)) then advanceOpen ls (Suc k) else k)"
  by pat_completeness auto
termination by (relation "measure (\<lambda>(ls, k). length ls - k)") auto

declare advanceOpen.simps [simp del]

definition closePool :: "BookState \<Rightarrow> LotPolicy \<Rightarrow> BookState" where
  "closePool st p =
     (case lots st of
        [] \<Rightarrow> st
      | pool # _ \<Rightarrow>
          if lotMethod p = Moving_average \<and> isZeroDecimal (remaining pool) then
            st\<lparr>closedPools := closedPools st @ [poolOf pool], lots := [], index := Map.empty,
               firstOpen := 0\<rparr>
          else st)"

definition applyPlan ::
  "BookState \<Rightarrow> Entry \<Rightarrow> ExactDecimal \<Rightarrow> LotPolicy \<Rightarrow> (nat \<times> ExactDecimal) list \<Rightarrow> StepShares list \<Rightarrow>
   BookState"
where
  "applyPlan st e q p plan shares =
     (let allocs = map (\<lambda>((position, taken), s). allocationOf p e (lots st ! position) taken s)
                     (zip plan shares);
          ls = takePlan (lots st) (zip plan shares);
          st1 = st\<lparr>lots := ls, held := subtractDecimals (held st) q,
                   firstOpen := advanceOpen ls (firstOpen st)\<rparr>;
          st2 = closePool st1 p;
          total = sumAmounts (map (\<lambda>s. shareAmount (costShare s)) shares);
          allocated = (case total of
                         Some (KnownAmount u v) \<Rightarrow> Some (exactQuantity u v)
                       | _ \<Rightarrow> None);
          side = disposalSide (entryInput e) p;
          reasons = concat (map stepReasons shares) @
            (if total = Some (UnknownAmount Amount_unit_mismatch) then [R_unit_mismatch] else []) @
            amountReasons (Some (sideProceeds side)) R_unknown_proceeds @
            amountReasons (sideFees side) R_unknown_disposal_fee
      in pushDisposal st2
           (disposalRecord e side allocs allocated
             (if reasons = [] then Allocated else Limited) reasons))"

definition applyDisposal :: "BookState \<Rightarrow> Entry \<Rightarrow> ExactDecimal \<Rightarrow> LotPolicy \<Rightarrow> BookState" where
  "applyDisposal st e q p =
     (case planDisposal st e q p of
        Inl reason \<Rightarrow> failDisposal st e p reason
      | Inr plan \<Rightarrow>
          (case collect (stepShares (lots st) p) plan of
             None \<Rightarrow> failDisposal st e p R_inexact_allocation
           | Some shares \<Rightarrow> applyPlan st e q p plan shares))"

section \<open>Splits and snapshots\<close>

fun scaleOpen :: "ExactRatio \<Rightarrow> nat \<Rightarrow> Lot list \<Rightarrow> (nat \<times> ExactDecimal) list option" where
  "scaleOpen r position [] = Some []"
| "scaleOpen r position (l # ls) =
     (if isZeroDecimal (remaining l) then scaleOpen r (Suc position) ls
      else case multiplyByRatio (remaining l) r None of
        Inl _ \<Rightarrow> None
      | Inr d \<Rightarrow>
          (case scaleOpen r (Suc position) ls of
             None \<Rightarrow> None
           | Some rest \<Rightarrow> Some ((position, d) # rest)))"

definition splitLot :: "string \<Rightarrow> ExactRatio \<Rightarrow> Lot \<Rightarrow> ExactDecimal \<Rightarrow> Lot" where
  "splitLot ref r l d = l\<lparr>remaining := d,
     lineage := (lineage l)\<lparr>splits := splits (lineage l) @ [\<lparr>splitRef = ref, splitRatio = r\<rparr>]\<rparr>\<rparr>"

definition applySplit :: "BookState \<Rightarrow> Entry \<Rightarrow> ExactDecimal \<Rightarrow> BookState" where
  "applySplit st e stated =
     (let r = the (split (entryInput e))
      in case scaleOpen r (firstOpen st) (drop (firstOpen st) (lots st)) of
           None \<Rightarrow> markIndeterminate st [entryRef e] R_corporate_action_unsupported
         | Some scaled \<Rightarrow>
             (let after = foldl addDecimals ZERO (map snd scaled)
              in if \<not> decimalEquals after stated then
                   markIndeterminate st [entryRef e] R_corporate_action_unsupported
                 else st\<lparr>held := after,
                   lots := foldl (\<lambda>ls (position, d).
                     ls[position := splitLot (entryRef e) r (ls ! position) d]) (lots st) scaled\<rparr>))"

definition seedLot :: "Entry \<Rightarrow> ExactDecimal \<Rightarrow> LotPolicy \<Rightarrow> Lot" where
  "seedLot e stated p =
     (let unknownCost = UnknownAmount Snapshot_only;
          acquired = (if lotMethod p = Moving_average then None
                      else Some (UnknownTime ''snapshot_only''))
      in \<lparr>lotId = (if lotMethod p = Moving_average then ''pool:'' @ entryRef e else entryRef e),
          acquisitionRefs = [entryRef e],
          acquiredAt = acquired,
          lotQuantity = stated,
          remaining = stated,
          cost = unknownCost,
          remainingCost = unknownCost,
          fees = None,
          remainingFees = None,
          fxBasis = [],
          costUnits = [],
          lineage = originLineage (entryRef e) acquired unknownCost\<rparr>)"

definition applySnapshot :: "BookState \<Rightarrow> Entry \<Rightarrow> ExactDecimal \<Rightarrow> LotPolicy \<Rightarrow> BookState" where
  "applySnapshot st e stated p =
     (if history st then
        (if \<not> decimalEquals (held st) stated
         then markIndeterminate st [entryRef e] R_snapshot_mismatch else st)
      else if isZeroDecimal stated then st
      else addLot st (seedLot e stated p))"

section \<open>One input\<close>

text \<open>A transfer makes the source throw: that is the value \<open>None\<close>.\<close>

definition applyEntry :: "BookState \<Rightarrow> Entry \<Rightarrow> LotPolicy \<Rightarrow> BookState option" where
  "applyEntry st e p =
     (let i = entryInput e
      in if indeterminate st \<noteq> None then
           Some (if kind i = Disposal
                 then pushDisposal st (indeterminateDisposal e p R_upstream_indeterminate) else st)
         else case exactValue (quantity i) of
           None \<Rightarrow>
             (let st' = markIndeterminate st [entryRef e] R_value_not_exact
              in Some (if kind i = Disposal
                       then pushDisposal st' (indeterminateDisposal e p R_value_not_exact) else st'))
         | Some q \<Rightarrow>
             map_option (\<lambda>st'. st'\<lparr>history := True\<rparr>)
               (case kind i of
                  Acquisition \<Rightarrow> Some (applyAcquisition st e q p)
                | Disposal \<Rightarrow> Some (applyDisposal st e q p)
                | Split \<Rightarrow> Some (applySplit st e q)
                | Snapshot \<Rightarrow> Some (applySnapshot st e q p)
                | Transfer \<Rightarrow> None))"

fun applyEntries :: "BookState \<Rightarrow> Entry list \<Rightarrow> LotPolicy \<Rightarrow> BookState option" where
  "applyEntries st [] p = Some st"
| "applyEntries st (e # es) p =
     (case applyEntry st e p of None \<Rightarrow> None | Some st' \<Rightarrow> applyEntries st' es p)"

end
