(* ===== verification/Lot_Plans.thy ===== *)
theory Lot_Plans
  imports Lot_Book
begin

text \<open>
  What the plans of a disposal are and what taking one does (\<open>applyDisposal\<close> of
  \<open>packages/domain/src/lots.ts\<close>): a plan names distinct lots, takes a positive part of each that the
  lot has left, and adds up to the disposed quantity; the first-in-first-out walk empties every lot
  before the last one it draws on.
\<close>

section \<open>Holdings\<close>

definition left_in :: "Lot \<Rightarrow> rat" where
  "left_in l = dec_value (remaining l)"

definition total_left :: "Lot list \<Rightarrow> rat" where
  "total_left ls = sum_list (map left_in ls)"

lemma total_left_simps [simp]:
  "total_left [] = 0"
  "total_left (l # ls) = left_in l + total_left ls"
  "total_left (ls @ ms) = total_left ls + total_left ms"
  by (simp_all add: total_left_def)

lemma total_left_nonneg: "(\<And>l. l \<in> set ls \<Longrightarrow> 0 \<le> left_in l) \<Longrightarrow> 0 \<le> total_left ls"
  unfolding total_left_def by (intro sum_list_nonneg) auto

lemma total_left_zero:
  "(\<And>l. l \<in> set ls \<Longrightarrow> left_in l = 0) \<Longrightarrow> total_left ls = 0"
  by (induction ls) auto

lemma total_left_update:
  "k < length ls \<Longrightarrow> total_left (ls[k := l]) = total_left ls - left_in (ls ! k) + left_in l"
  by (induction ls arbitrary: k) (auto split: nat.split)

lemma total_left_drop:
  assumes "n \<le> length ls" and "\<And>k. k < n \<Longrightarrow> left_in (ls ! k) = 0"
  shows "total_left (drop n ls) = total_left ls"
proof -
  have "left_in l = 0" if "l \<in> set (take n ls)" for l
    using that assms by (auto simp: in_set_conv_nth)
  then have "total_left (take n ls) = 0" by (rule total_left_zero)
  then show ?thesis
    using total_left_simps(3) [of "take n ls" "drop n ls"] by simp
qed

section \<open>Plans\<close>

type_synonym plan = "(nat \<times> ExactDecimal) list"

definition planned :: "plan \<Rightarrow> rat" where
  "planned plan = sum_list (map (\<lambda>step. dec_value (snd step)) plan)"

lemma planned_simps [simp]: "planned [] = 0" "planned (step # plan) = dec_value (snd step) + planned plan"
  by (simp_all add: planned_def)

text \<open>The positions \<open>lo, \<dots>, lo + length ls - 1\<close> are those of \<open>ls\<close>.\<close>

definition plan_fits :: "nat \<Rightarrow> Lot list \<Rightarrow> plan \<Rightarrow> bool" where
  "plan_fits lo ls plan \<longleftrightarrow>
     distinct (map fst plan) \<and>
     (\<forall>step\<in>set plan. \<exists>i<length ls. fst step = lo + i \<and> 0 < dec_value (snd step) \<and>
        dec_value (snd step) \<le> left_in (ls ! i))"

lemma plan_fits_Nil [simp]: "plan_fits lo ls []"
  by (simp add: plan_fits_def)

lemma plan_fits_Suc: "plan_fits (Suc lo) ls plan \<Longrightarrow> plan_fits lo (l # ls) plan"
proof -
  assume fits: "plan_fits (Suc lo) ls plan"
  have "\<exists>i<length (l # ls). fst step = lo + i \<and> 0 < dec_value (snd step) \<and>
      dec_value (snd step) \<le> left_in ((l # ls) ! i)" if step: "step \<in> set plan" for step
  proof -
    obtain i where "i < length ls" "fst step = Suc lo + i" "0 < dec_value (snd step)"
      "dec_value (snd step) \<le> left_in (ls ! i)"
      using fits step by (auto simp: plan_fits_def)
    then show ?thesis by (intro exI [of _ "Suc i"]) simp
  qed
  then show ?thesis using fits by (simp add: plan_fits_def)
qed

lemma plan_fits_Cons:
  assumes "plan_fits (Suc lo) ls plan" and "0 < dec_value t" and "dec_value t \<le> left_in l"
  shows "plan_fits lo (l # ls) ((lo, t) # plan)"
  using assms plan_fits_Suc [OF assms(1), of l] by (fastforce simp: plan_fits_def)

lemma planOpen_fits:
  assumes "\<And>l. l \<in> set ls \<Longrightarrow> 0 \<le> left_in l" and "0 \<le> dec_value q" and "dec_value q \<le> total_left ls"
  shows "plan_fits lo ls (planOpen lo ls q) \<and> planned (planOpen lo ls q) = dec_value q"
  using assms
proof (induction lo ls q rule: planOpen.induct)
  case (2 lo l ls q)
  let ?t = "if compareDecimals (remaining l) q < 0 then remaining l else q"
  have t: "dec_value ?t = min (left_in l) (dec_value q)"
    by (auto simp: compareDecimals_value left_in_def)
  consider "dec_value q = 0" | "dec_value q \<noteq> 0" "left_in l = 0" | "dec_value q \<noteq> 0" "left_in l \<noteq> 0"
    by blast
  then show ?case
  proof cases
    case 2
    then have "plan_fits (Suc lo) ls (planOpen (Suc lo) ls q) \<and>
        planned (planOpen (Suc lo) ls q) = dec_value q"
      using "2.prems" by (intro "2.IH"(1)) (auto simp: isZeroDecimal_value left_in_def)
    then show ?thesis using 2 by (auto simp: isZeroDecimal_value left_in_def intro: plan_fits_Suc)
  next
    case 3
    have rest: "0 \<le> total_left ls" using "2.prems"(1) by (intro total_left_nonneg) auto
    from 3 have pos: "0 < dec_value q" "0 < left_in l" using "2.prems"(1) [of l] "2.prems"(2) by auto
    have "plan_fits (Suc lo) ls (planOpen (Suc lo) ls (subtractDecimals q ?t)) \<and>
        planned (planOpen (Suc lo) ls (subtractDecimals q ?t)) = dec_value (subtractDecimals q ?t)"
      using "2.prems" 3 rest by (intro "2.IH"(2)) (auto simp: isZeroDecimal_value left_in_def value_simps t)
    moreover have "0 < dec_value ?t" "dec_value ?t \<le> left_in l" using t pos by auto
    ultimately show ?thesis
      using 3 by (auto simp: isZeroDecimal_value left_in_def [symmetric] Let_def value_simps
          intro: plan_fits_Cons simp del: if_split_asm)
  qed (simp add: isZeroDecimal_value)
qed simp

text \<open>First in, first out: everything before a lot the walk draws on is emptied by it.\<close>

definition planned_at :: "plan \<Rightarrow> nat \<Rightarrow> rat" where
  "planned_at plan k = (case map_of plan k of None \<Rightarrow> 0 | Some t \<Rightarrow> dec_value t)"

lemma planned_at_simps [simp]:
  "planned_at [] k = 0"
  "planned_at ((j, t) # plan) k = (if k = j then dec_value t else planned_at plan k)"
  by (simp_all add: planned_at_def)

lemma planOpen_positions: "step \<in> set (planOpen lo ls q) \<Longrightarrow> lo \<le> fst step"
  by (induction lo ls q rule: planOpen.induct) (fastforce simp: Let_def split: if_splits)+

lemma planned_at_before: "k < lo \<Longrightarrow> planned_at (planOpen lo ls q) k = 0"
  using planOpen_positions [of _ lo ls q]
  by (fastforce simp: planned_at_def split: option.splits dest: map_of_SomeD)

lemma planOpen_prefix:
  assumes "0 \<le> dec_value q" and "(j, t) \<in> set (planOpen lo ls q)"
    and "lo + i < j" and "i < length ls"
  shows "planned_at (planOpen lo ls q) (lo + i) = left_in (ls ! i)"
  using assms
proof (induction lo ls q arbitrary: i rule: planOpen.induct)
  case (2 lo l ls q)
  let ?t = "if compareDecimals (remaining l) q < 0 then remaining l else q"
  show ?case
  proof (cases "dec_value q = 0")
    case False
    show ?thesis
    proof (cases "left_in l = 0")
      case True
      then have plan: "planOpen lo (l # ls) q = planOpen (Suc lo) ls q"
        using False by (simp add: isZeroDecimal_value left_in_def)
      show ?thesis
      proof (cases i)
        case 0
        then show ?thesis using True by (simp add: plan planned_at_before del: planOpen.simps)
      next
        case (Suc n)
        then have "planned_at (planOpen (Suc lo) ls q) (Suc lo + n) = left_in (ls ! n)"
          using "2.prems" False True
          by (intro "2.IH"(1)) (simp_all add: isZeroDecimal_value left_in_def [symmetric] plan del: planOpen.simps)
        then show ?thesis using Suc by (simp add: plan del: planOpen.simps)
      qed
    next
      case nonzero: False
      let ?rest = "planOpen (Suc lo) ls (subtractDecimals q ?t)"
      have plan: "planOpen lo (l # ls) q = (lo, ?t) # ?rest"
        using False nonzero by (simp add: isZeroDecimal_value left_in_def Let_def)
      have jt: "(j, t) \<in> set ?rest" using "2.prems"(2,3) unfolding plan by auto
      show ?thesis
      proof (cases i)
        case 0
        have "dec_value q \<noteq> dec_value ?t"
        proof
          assume "dec_value q = dec_value ?t"
          then have "isZeroDecimal (subtractDecimals q ?t)" by (simp only: isZeroDecimal_value value_simps)
          then have "?rest = []" by (cases ls) simp_all
          then show False using jt by simp
        qed
        then have "dec_value ?t = left_in l" by (auto simp: left_in_def split: if_splits)
        then show ?thesis using 0 by (simp add: plan del: planOpen.simps)
      next
        case (Suc n)
        have "0 \<le> dec_value (subtractDecimals q ?t)"
          using "2.prems"(1) by (auto simp: value_simps)
        then have "planned_at ?rest (Suc lo + n) = left_in (ls ! n)"
          using "2.prems" Suc jt False nonzero
          by (intro "2.IH"(2)) (simp_all add: isZeroDecimal_value left_in_def)
        then show ?thesis using Suc by (simp add: plan del: planOpen.simps)
      qed
    qed
  qed (use 2 in \<open>simp add: isZeroDecimal_value\<close>)
qed simp

section \<open>Selections\<close>

lemma foldl_addDecimals:
  "dec_value (foldl addDecimals z ds) = dec_value z + sum_list (map dec_value ds)"
  by (induction ds arbitrary: z) (simp_all add: value_simps)

lemma pickSelections_Inr:
  "pickSelections idx ss = Inr picked \<Longrightarrow>
     list_all2 (\<lambda>s step. idx (selectionLotId s) = Some (fst step) \<and>
       exactValue (selectionQuantity s) = Some (snd step)) ss picked"
  by (induction ss arbitrary: picked) (auto split: option.splits sum.splits simp: list_all2_Cons1)

text \<open>
  Selections of distinct lots resolve to distinct positions, because the index sends every id to a
  lot of that id.
\<close>

lemma pickSelections_fits:
  assumes picked: "pickSelections idx ss = Inr picked"
    and ids: "distinct (map selectionLotId ss)"
    and idx: "\<And>x k. idx x = Some k \<Longrightarrow> k < length ls \<and> lotId (ls ! k) = x"
  shows "distinct (map fst picked) \<and> (\<forall>step\<in>set picked. fst step < length ls \<and>
    (\<exists>s\<in>set ss. exactValue (selectionQuantity s) = Some (snd step)))"
proof -
  have all: "list_all2 (\<lambda>s step. idx (selectionLotId s) = Some (fst step) \<and>
      exactValue (selectionQuantity s) = Some (snd step)) ss picked"
    using picked by (rule pickSelections_Inr)
  then have "map selectionLotId ss = map (\<lambda>step. lotId (ls ! fst step)) picked"
    by (induction rule: list_all2_induct) (use idx in auto)
  then have "distinct (map (\<lambda>step. lotId (ls ! fst step)) picked)" using ids by simp
  then have "distinct (map fst picked)"
    by (auto simp: distinct_map inj_on_def)
  moreover from all have "\<forall>step\<in>set picked. fst step < length ls \<and>
      (\<exists>s\<in>set ss. exactValue (selectionQuantity s) = Some (snd step))"
    by (induction rule: list_all2_induct) (use idx in auto)
  ultimately show ?thesis by blast
qed

lemma planned_js_sort [simp]: "planned (js_sort cmp plan) = planned plan"
  by (metis mset_js_sort mset_map planned_def sum_mset_sum_list)

lemma planSelected_fits:
  assumes plan: "planSelected st (Some ss) q = Inr plan"
    and ids: "distinct (map selectionLotId ss)"
    and pos: "\<And>s v. s \<in> set ss \<Longrightarrow> exactValue (selectionQuantity s) = Some v \<Longrightarrow> 0 < dec_value v"
    and idx: "\<And>x k. index st x = Some k \<Longrightarrow> k < length (lots st) \<and> lotId (lots st ! k) = x"
  shows "plan_fits 0 (lots st) plan \<and> planned plan = dec_value q"
proof -
  from plan obtain picked where picked: "pickSelections (index st) ss = Inr picked"
    and sorted: "plan = js_sort (\<lambda>a b. int (fst a) - int (fst b)) picked"
    and within: "\<not> list_ex (\<lambda>(position, taken).
      compareDecimals taken (remaining (lots st ! position)) > 0) plan"
    and exact: "decimalEquals (foldl addDecimals ZERO (map snd plan)) q"
    by (auto simp: planSelected_def Let_def split: sum.splits if_splits)
  have enough: "dec_value (snd step) \<le> left_in (lots st ! fst step)" if "step \<in> set plan" for step
    using within that
    by (cases step) (fastforce simp: list_ex_iff compareDecimals_value left_in_def split: if_splits)
  have sum: "planned plan = dec_value q"
    using exact by (simp add: decimalEquals_value foldl_addDecimals planned_def comp_def)
  note fits = pickSelections_fits [OF picked ids idx]
  have "\<exists>i<length (lots st). fst step = 0 + i \<and> 0 < dec_value (snd step) \<and>
      dec_value (snd step) \<le> left_in (lots st ! i)" if step: "step \<in> set plan" for step
  proof -
    have "step \<in> set picked" using step sorted by simp
    then have "fst step < length (lots st)" "0 < dec_value (snd step)"
      using fits pos by blast+
    then show ?thesis using enough step by auto
  qed
  then show ?thesis using fits sum unfolding plan_fits_def sorted by simp
qed

section \<open>Taking a plan\<close>

lemma collect_Some: "collect f xs = Some ys \<longleftrightarrow> map f xs = map Some ys"
proof (induction xs arbitrary: ys)
  case (Cons x xs)
  show ?case by (cases ys) (auto simp flip: Cons split: option.splits)
qed auto

lemma length_takePlan [simp]: "length (takePlan ls steps) = length ls"
  by (induction ls steps rule: takePlan.induct) simp_all

definition positions :: "((nat \<times> ExactDecimal) \<times> StepShares) list \<Rightarrow> nat list" where
  "positions steps = map (\<lambda>step. fst (fst step)) steps"

lemma positions_simps [simp]:
  "positions [] = []" "positions (((k, t), s) # steps) = k # positions steps"
  by (simp_all add: positions_def)

lemma positions_zip:
  "length plan = length shares \<Longrightarrow> positions (zip plan shares) = map fst plan"
  by (induction plan shares rule: list_induct2) auto

lemma takePlan_other: "k \<notin> set (positions steps) \<Longrightarrow> takePlan ls steps ! k = ls ! k"
  by (induction ls steps rule: takePlan.induct) auto

lemma takePlan_at:
  "distinct (positions steps) \<Longrightarrow> ((k, t), s) \<in> set steps \<Longrightarrow> k < length ls \<Longrightarrow>
   takePlan ls steps ! k = takeFrom (ls ! k) t s"
proof (induction ls steps rule: takePlan.induct)
  case (2 ls position taken sh steps)
  show ?case
  proof (cases "((k, t), s) = ((position, taken), sh)")
    case True
    with 2 show ?thesis by (simp add: takePlan_other)
  next
    case False
    then have mem: "((k, t), s) \<in> set steps" using "2.prems"(2) by auto
    then have "k \<in> set (positions steps)" by (force simp: positions_def)
    then have "k \<noteq> position" using "2.prems"(1) by auto
    with 2 mem show ?thesis by simp
  qed
qed simp

text \<open>Every lot after the plan is the lot at the same position before, or a part was taken from it.\<close>

lemma takePlan_cases:
  assumes "distinct (positions steps)" and "k < length ls"
  obtains "takePlan ls steps ! k = ls ! k" "k \<notin> set (positions steps)"
  | t s where "((k, t), s) \<in> set steps" "takePlan ls steps ! k = takeFrom (ls ! k) t s"
proof (cases "k \<in> set (positions steps)")
  case True
  then obtain t s where "((k, t), s) \<in> set steps" by (auto simp: positions_def)
  then show ?thesis using that(2) takePlan_at [OF assms(1) _ assms(2)] by blast
next
  case False
  then show ?thesis using that(1) takePlan_other [OF False] by blast
qed

lemma takeFrom_simps [simp]:
  "lotId (takeFrom l t s) = lotId l" "acquisitionRefs (takeFrom l t s) = acquisitionRefs l"
  "lotQuantity (takeFrom l t s) = lotQuantity l" "cost (takeFrom l t s) = cost l"
  "fees (takeFrom l t s) = fees l" "fxBasis (takeFrom l t s) = fxBasis l"
  "costUnits (takeFrom l t s) = costUnits l" "lineage (takeFrom l t s) = lineage l"
  "acquiredAt (takeFrom l t s) = acquiredAt l"
  "remaining (takeFrom l t s) = subtractDecimals (remaining l) t"
  "remainingCost (takeFrom l t s) = combine (remainingCost l) (shareAmount (costShare s)) (- 1)"
  by (simp_all add: takeFrom_def)

lemma left_in_takeFrom [simp]: "left_in (takeFrom l t s) = left_in l - dec_value t"
  by (simp add: left_in_def value_simps)

lemma takePlan_ids [simp]: "map lotId (takePlan ls steps) = map lotId ls"
proof (induction ls steps rule: takePlan.induct)
  case (2 ls position taken s steps)
  have "map lotId (ls[position := takeFrom (ls ! position) taken s]) = map lotId ls"
    by (cases "position < length ls") (simp_all add: map_update list_update_same_conv list_update_beyond)
  with 2 show ?case by simp
qed simp

lemma takePlan_total:
  assumes "\<forall>step\<in>set steps. fst (fst step) < length ls"
  shows "total_left (takePlan ls steps) = total_left ls - planned (map fst steps)"
  using assms
  by (induction ls steps rule: takePlan.induct) (simp_all add: total_left_update)

end
