(* ===== verification/Lot_Invariants.thy ===== *)
theory Lot_Invariants
  imports Lot_Plans
begin

text \<open>
  The invariant of a book and its preservation by every operation of \<open>packages/domain/src/lots.ts\<close>:
  the holding kept in \<open>held\<close> is the sum of what the lots have left, nothing is negative, every lot
  before \<open>firstOpen\<close> is empty, the index finds exactly the lots there are, and a moving-average book
  has at most one pool, which is never empty.
\<close>

definition newLotId :: "LotPolicy \<Rightarrow> string \<Rightarrow> string" where
  "newLotId p ref = (if lotMethod p = Moving_average then ''pool:'' @ ref else ref)"

lemma newLotId_inject [simp]: "newLotId p a = newLotId p b \<longleftrightarrow> a = b"
  by (simp add: newLotId_def)

definition entry_ok :: "LotPolicy \<Rightarrow> Entry \<Rightarrow> bool" where
  "entry_ok p e \<longleftrightarrow> validLotInput (entryInput e) \<and> inputRulesHold (entryInput e) p"

definition fresh :: "LotPolicy \<Rightarrow> BookState \<Rightarrow> Entry \<Rightarrow> bool" where
  "fresh p st e \<longleftrightarrow> newLotId p (entryRef e) \<notin> lotId ` set (lots st)"

definition lot_ok :: "Lot \<Rightarrow> bool" where
  "lot_ok l \<longleftrightarrow> canonical (remaining l) \<and> 0 \<le> left_in l"

definition holding_ok :: "BookState \<Rightarrow> bool" where
  "holding_ok st \<longleftrightarrow>
     list_all lot_ok (lots st) \<and>
     canonical (held st) \<and> dec_value (held st) = total_left (lots st) \<and>
     firstOpen st \<le> length (lots st) \<and> (\<forall>k<firstOpen st. left_in (lots st ! k) = 0)"

definition index_ok :: "BookState \<Rightarrow> bool" where
  "index_ok st \<longleftrightarrow>
     (\<forall>x k. index st x = Some k \<longleftrightarrow> k < length (lots st) \<and> lotId (lots st ! k) = x)"

definition pool_ok :: "LotPolicy \<Rightarrow> BookState \<Rightarrow> bool" where
  "pool_ok p st \<longleftrightarrow>
     (lotMethod p = Moving_average \<longrightarrow>
        length (lots st) \<le> 1 \<and> list_all (\<lambda>l. 0 < left_in l) (lots st) \<and> firstOpen st = 0)"

definition book_ok :: "LotPolicy \<Rightarrow> BookState \<Rightarrow> bool" where
  "book_ok p st \<longleftrightarrow> holding_ok st \<and> index_ok st \<and> pool_ok p st"

lemmas book_defs = book_ok_def holding_ok_def index_ok_def pool_ok_def

lemma book_ok_empty [simp]: "book_ok p emptyState"
  by (simp add: book_defs emptyState_def)

text \<open>Marking a book, recording a disposal and setting the history flag leave the holding alone.\<close>

lemma book_ok_marks [simp]:
  "book_ok p (markIndeterminate st refs r) = book_ok p st"
  "book_ok p (pushDisposal st d) = book_ok p st"
  "book_ok p (failDisposal st e p' r) = book_ok p st"
  "book_ok p (st\<lparr>history := b\<rparr>) = book_ok p st"
  "book_ok p (st\<lparr>disposals := ds\<rparr>) = book_ok p st"
  by (simp_all add: book_defs markIndeterminate_def pushDisposal_def failDisposal_def)

lemma book_ok_lots:
  assumes "book_ok p st" and "l \<in> set (lots st)"
  shows "0 \<le> left_in l" and "canonical (remaining l)"
  using assms by (auto simp: book_defs list_all_iff lot_ok_def)

lemma distinct_ids: "index_ok st \<Longrightarrow> distinct (map lotId (lots st))"
  by (auto simp: index_ok_def distinct_conv_nth) (metis option.inject)

lemma index_ok_append:
  assumes "index_ok st" and "lotId l \<notin> lotId ` set (lots st)"
  shows "index_ok (addLot st l)"
  unfolding index_ok_def
proof (intro allI)
  fix x k
  have old: "index st x = Some k \<longleftrightarrow> k < length (lots st) \<and> lotId (lots st ! k) = x"
    using assms(1) by (simp add: index_ok_def)
  have "lotId (lots st ! k) \<noteq> lotId l" if "k < length (lots st)"
    using assms(2) that by (metis image_eqI nth_mem)
  then show "index (addLot st l) x = Some k \<longleftrightarrow>
      k < length (lots (addLot st l)) \<and> lotId (lots (addLot st l) ! k) = x"
    using old by (auto simp: addLot_def nth_append less_Suc_eq)
qed

lemma book_ok_addLot:
  assumes "book_ok p st" and "lotId l \<notin> lotId ` set (lots st)"
    and "lot_ok l" and "lotMethod p = Moving_average \<Longrightarrow> lots st = [] \<and> 0 < left_in l"
  shows "book_ok p (addLot st l)"
proof -
  have "holding_ok (addLot st l)"
    using assms(1,3) by (auto simp: book_defs addLot_def value_simps left_in_def nth_append)
  moreover have "pool_ok p (addLot st l)" using assms(1,4) by (auto simp: book_defs addLot_def)
  moreover have "index_ok (addLot st l)" using assms(1,2) by (auto simp: book_ok_def intro: index_ok_append)
  ultimately show ?thesis by (simp add: book_ok_def)
qed

lemma entry_quantity:
  assumes "entry_ok p e" and "exactValue (quantity (entryInput e)) = Some q"
  shows "canonical q"
    and "kind (entryInput e) \<in> {Acquisition, Disposal} \<Longrightarrow> 0 < dec_value q"
    and "kind (entryInput e) \<in> {Split, Snapshot} \<Longrightarrow> 0 \<le> dec_value q"
  using assms validQuantity_canonical [of "quantity (entryInput e)" q] rules_positive rules_nonneg
  by (auto simp: entry_ok_def validLotInput_def)

section \<open>Acquisitions and snapshots\<close>

lemma openLot_simps [simp]:
  "lotId (openLot e q p) = newLotId p (entryRef e)" "remaining (openLot e q p) = q"
  "lotQuantity (openLot e q p) = q"
  "cost (openLot e q p) = acquisitionCost (entryInput e) p"
  "remainingCost (openLot e q p) = acquisitionCost (entryInput e) p"
  "fees (openLot e q p) = feesAmount (inputAmounts (entryInput e) p)"
  "remainingFees (openLot e q p) = feesAmount (inputAmounts (entryInput e) p)"
  "costUnits (openLot e q p) = costUnitsOf (entryInput e) p"
  by (simp_all add: openLot_def Let_def newLotId_def)

lemma joinPool_simps [simp]:
  "lotId (joinPool pool e q p us) = lotId pool"
  "remaining (joinPool pool e q p us) = addDecimals (remaining pool) q"
  "cost (joinPool pool e q p us) = combine (cost pool) (acquisitionCost (entryInput e) p) 1"
  "remainingCost (joinPool pool e q p us) =
     combine (remainingCost pool) (acquisitionCost (entryInput e) p) 1"
  "fees (joinPool pool e q p us) = addFees (fees pool) (feesAmount (inputAmounts (entryInput e) p))"
  "remainingFees (joinPool pool e q p us) =
     addFees (remainingFees pool) (feesAmount (inputAmounts (entryInput e) p))"
  "costUnits (joinPool pool e q p us) = us"
  by (simp_all add: joinPool_def Let_def)

lemma seedLot_simps [simp]:
  "lotId (seedLot e q p) = newLotId p (entryRef e)" "remaining (seedLot e q p) = q"
  "cost (seedLot e q p) = UnknownAmount Snapshot_only"
  "remainingCost (seedLot e q p) = UnknownAmount Snapshot_only"
  "fees (seedLot e q p) = None" "remainingFees (seedLot e q p) = None"
  by (simp_all add: seedLot_def Let_def newLotId_def)

lemma pool_shape:
  assumes "book_ok p st" and "lotMethod p = Moving_average" and "lots st \<noteq> []"
  obtains pool where "lots st = [pool]"
  using assms by (cases "lots st") (auto simp: book_defs)

text \<open>The pooled lot an acquisition updates in a moving-average book.\<close>

lemma book_ok_pool:
  assumes ok: "book_ok p st" and lots: "lots st = [pool]"
    and q: "0 < dec_value q" and ma: "lotMethod p = Moving_average"
  shows "book_ok p (st\<lparr>lots := [joinPool pool e q p us], held := addDecimals (held st) q\<rparr>)"
  using ok q ma unfolding book_defs lots
  by (auto simp: lot_ok_def left_in_def value_simps)

lemma applyAcquisition_cases:
  assumes ok: "book_ok p st"
  obtains (marked) "applyAcquisition st e q p = markIndeterminate st [entryRef e] R_unit_mismatch"
  | (opened) "applyAcquisition st e q p = addLot st (openLot e q p)"
      "lotMethod p = Moving_average \<Longrightarrow> lots st = []"
  | (joined) pool us where "lots st = [pool]" "lotMethod p = Moving_average"
      "applyAcquisition st e q p =
         st\<lparr>lots := [joinPool pool e q p us], held := addDecimals (held st) q\<rparr>"
proof -
  let ?us = "unionSorted (case lots st of [] \<Rightarrow> [] | pool # _ \<Rightarrow> costUnits pool) (costUnitsOf (entryInput e) p)"
  consider "lotMethod p = Moving_average \<and> 1 < length ?us"
    | "\<not> (lotMethod p = Moving_average \<and> 1 < length ?us)" "lotMethod p = Moving_average \<Longrightarrow> lots st = []"
    | "\<not> (lotMethod p = Moving_average \<and> 1 < length ?us)" "lotMethod p = Moving_average" "lots st \<noteq> []"
    by blast
  then show thesis
  proof cases
    case 1
    then show thesis by (intro marked) (simp add: applyAcquisition_def Let_def)
  next
    case 2
    then show thesis by (intro opened) (auto simp: applyAcquisition_def Let_def)
  next
    case 3
    then obtain pool where "lots st = [pool]" using pool_shape [OF ok] by blast
    then show thesis using 3 by (intro joined [of pool ?us]) (auto simp: applyAcquisition_def Let_def)
  qed
qed

lemma applyAcquisition_ok:
  assumes ok: "book_ok p st" and new: "fresh p st e" and q: "0 < dec_value q" "canonical q"
  shows "book_ok p (applyAcquisition st e q p)"
proof (cases rule: applyAcquisition_cases [OF ok, of e q, case_names marked opened joined])
  case opened
  have "book_ok p (addLot st (openLot e q p))"
    using ok new q opened(2) by (intro book_ok_addLot) (auto simp: fresh_def lot_ok_def left_in_def)
  with opened show ?thesis by simp
next
  case (joined pool us)
  then show ?thesis using book_ok_pool [OF ok _ q(1)] by simp
qed (use ok in simp)

lemma applySnapshot_cases:
  obtains (same) "applySnapshot st e q p = st"
  | (marked) "applySnapshot st e q p = markIndeterminate st [entryRef e] R_snapshot_mismatch"
  | (opened) "applySnapshot st e q p = addLot st (seedLot e q p)" "\<not> history st" "dec_value q \<noteq> 0"
  unfolding applySnapshot_def isZeroDecimal_value by (cases "history st") metis+

lemma applySnapshot_ok:
  assumes ok: "book_ok p st" and new: "fresh p st e" and q: "0 \<le> dec_value q" "canonical q"
    and seed: "history st \<or> lots st = []"
  shows "book_ok p (applySnapshot st e q p)"
proof (cases rule: applySnapshot_cases [of st e q p])
  case opened
  have "book_ok p (addLot st (seedLot e q p))"
    using ok new q opened seed by (intro book_ok_addLot) (auto simp: fresh_def lot_ok_def left_in_def)
  with opened show ?thesis by simp
qed (use ok in simp_all)

section \<open>Splits\<close>

definition splitLots :: "string \<Rightarrow> ExactRatio \<Rightarrow> Lot list \<Rightarrow> Lot list" where
  "splitLots ref r ls = map (\<lambda>l. if isZeroDecimal (remaining l) then l
     else splitLot ref r l (projr (multiplyByRatio (remaining l) r None))) ls"

lemma splitLot_simps [simp]:
  "remaining (splitLot ref r l d) = d" "lotId (splitLot ref r l d) = lotId l"
  "cost (splitLot ref r l d) = cost l" "remainingCost (splitLot ref r l d) = remainingCost l"
  "fees (splitLot ref r l d) = fees l" "remainingFees (splitLot ref r l d) = remainingFees l"
  "lotQuantity (splitLot ref r l d) = lotQuantity l"
  by (simp_all add: splitLot_def)

lemma scaleOpen_splitLots:
  assumes "scaleOpen r (length before) ls = Some scaled"
  shows "foldl (\<lambda>ls (position, d). ls[position := splitLot ref r (ls ! position) d]) (before @ ls) scaled
      = before @ splitLots ref r ls \<and>
    sum_list (map (\<lambda>step. dec_value (snd step)) scaled) = total_left (splitLots ref r ls)"
  using assms
proof (induction ls arbitrary: before scaled)
  case (Cons l ls)
  show ?case
  proof (cases "isZeroDecimal (remaining l)")
    case True
    then have "scaleOpen r (length (before @ [l])) ls = Some scaled" using Cons.prems by simp
    from Cons.IH [OF this] show ?thesis
      using True by (simp add: splitLots_def left_in_def isZeroDecimal_value)
  next
    case False
    with Cons.prems obtain d rest where d: "multiplyByRatio (remaining l) r None = Inr d"
      and rest: "scaleOpen r (Suc (length before)) ls = Some rest"
      and scaled: "scaled = (length before, d) # rest"
      by (auto split: sum.splits option.splits)
    from rest have "scaleOpen r (length (before @ [splitLot ref r l d])) ls = Some rest" by simp
    from Cons.IH [OF this] show ?thesis
      using False d by (simp add: scaled splitLots_def left_in_def)
  qed
qed (simp add: splitLots_def)

lemma splitLots_scaled:
  assumes "scaleOpen r lo ls = Some scaled" and "i < length ls"
  shows "left_in (splitLots ref r ls ! i) = left_in (ls ! i) * ratio_value r \<and>
    (canonical (remaining (ls ! i)) \<longrightarrow> canonical (remaining (splitLots ref r ls ! i))) \<and>
    lotId (splitLots ref r ls ! i) = lotId (ls ! i)"
  using assms
proof (induction ls arbitrary: lo scaled i)
  case (Cons l ls)
  have step: "isZeroDecimal (remaining l) \<or> (\<exists>d. multiplyByRatio (remaining l) r None = Inr d)"
    using Cons.prems by (auto split: sum.splits if_splits)
  obtain rest where rest: "scaleOpen r (Suc lo) ls = Some rest"
    using Cons.prems(1) by (auto split: sum.splits option.splits if_splits)
  show ?case
  proof (cases i)
    case 0
    then show ?thesis using step
      by (auto simp: splitLots_def left_in_def isZeroDecimal_value dest: multiplyByRatio_ok)
  next
    case (Suc n)
    with Cons.IH [OF rest] Cons.prems(2) show ?thesis by (simp add: splitLots_def)
  qed
qed simp

lemma splitLots_ids: "map lotId (splitLots ref r ls) = map lotId ls"
  by (simp add: splitLots_def comp_def if_distrib cong: if_cong)

lemma length_splitLots [simp]: "length (splitLots ref r ls) = length ls"
  by (simp add: splitLots_def)

text \<open>A split either marks the book or scales every open lot by the ratio, to the stated total.\<close>

lemma applySplit_cases:
  assumes "firstOpen st \<le> length (lots st)"
  obtains "applySplit st e stated = markIndeterminate st [entryRef e] R_corporate_action_unsupported"
  | scaled h where "applySplit st e stated = st\<lparr>held := h, lots :=
        take (firstOpen st) (lots st) @
        splitLots (entryRef e) (the (split (entryInput e))) (drop (firstOpen st) (lots st))\<rparr>"
    and "scaleOpen (the (split (entryInput e))) (firstOpen st) (drop (firstOpen st) (lots st)) = Some scaled"
    and "dec_value h = total_left (splitLots (entryRef e) (the (split (entryInput e)))
           (drop (firstOpen st) (lots st)))"
    and "dec_value h = dec_value stated" and "canonical h"
proof (cases "scaleOpen (the (split (entryInput e))) (firstOpen st) (drop (firstOpen st) (lots st))")
  case None
  then show ?thesis using that(1) by (simp add: applySplit_def)
next
  case (Some scaled)
  let ?r = "the (split (entryInput e))" and ?open = "drop (firstOpen st) (lots st)"
    and ?h = "foldl addDecimals ZERO (map snd scaled)"
  have len: "length (take (firstOpen st) (lots st)) = firstOpen st" using assms by simp
  have fold: "foldl (\<lambda>ls (position, d). ls[position := splitLot (entryRef e) ?r (ls ! position) d])
        (lots st) scaled = take (firstOpen st) (lots st) @ splitLots (entryRef e) ?r ?open"
    and sum: "sum_list (map (\<lambda>step. dec_value (snd step)) scaled)
        = total_left (splitLots (entryRef e) ?r ?open)"
    using scaleOpen_splitLots [of ?r "take (firstOpen st) (lots st)" ?open scaled "entryRef e"] Some
    unfolding len append_take_drop_id by blast+
  have "canonical ?h" by (cases scaled rule: rev_cases) simp_all
  moreover have "dec_value ?h = total_left (splitLots (entryRef e) ?r ?open)"
    using sum by (simp add: foldl_addDecimals comp_def)
  moreover have "applySplit st e stated =
      (if dec_value ?h \<noteq> dec_value stated
       then markIndeterminate st [entryRef e] R_corporate_action_unsupported
       else st\<lparr>held := ?h, lots := take (firstOpen st) (lots st) @ splitLots (entryRef e) ?r ?open\<rparr>)"
    using Some fold by (simp add: applySplit_def Let_def decimalEquals_value)
  ultimately show ?thesis using that(1) that(2) [of ?h scaled] Some by presburger
qed

lemma applySplit_ok:
  assumes ok: "book_ok p st" and r: "0 < ratio_value (the (split (entryInput e)))"
  shows "book_ok p (applySplit st e stated)"
proof -
  let ?r = "the (split (entryInput e))" and ?n = "firstOpen st" and ?ls = "lots st"
  have n: "?n \<le> length ?ls" using ok by (simp add: book_defs)
  show ?thesis
  proof (rule applySplit_cases [OF n, of e stated])
    fix scaled h
    assume st': "applySplit st e stated = st\<lparr>held := h, lots :=
        take ?n ?ls @ splitLots (entryRef e) ?r (drop ?n ?ls)\<rparr>"
      and scaled: "scaleOpen ?r ?n (drop ?n ?ls) = Some scaled"
      and h: "dec_value h = total_left (splitLots (entryRef e) ?r (drop ?n ?ls))" "canonical h"
    let ?new = "take ?n ?ls @ splitLots (entryRef e) ?r (drop ?n ?ls)"
    have at: "left_in (?new ! k) = (if k < ?n then left_in (?ls ! k) else left_in (?ls ! k) * ratio_value ?r)"
      "canonical (remaining (?ls ! k)) \<Longrightarrow> canonical (remaining (?new ! k))"
      "lotId (?new ! k) = lotId (?ls ! k)" if "k < length ?ls" for k
      using splitLots_scaled [OF scaled, of "k - ?n" "entryRef e"] that n
      by (auto simp: nth_append)
    have old: "lot_ok (?ls ! k)" if "k < length ?ls" for k
      using ok that by (simp add: book_defs list_all_length)
    have empty: "left_in (?ls ! k) = 0" if "k < ?n" for k using ok that by (simp add: book_defs)
    have "left_in l = 0" if "l \<in> set (take ?n ?ls)" for l
      using that n empty by (auto simp: in_set_conv_nth)
    then have "total_left ?new = dec_value h" using total_left_zero [of "take ?n ?ls"] h by simp
    moreover have "list_all lot_ok ?new"
      using at old r n by (auto simp: list_all_length lot_ok_def)
    ultimately have "holding_ok (applySplit st e stated)"
      using h n at empty unfolding st' holding_ok_def by auto
    moreover have "index_ok (applySplit st e stated)"
      using ok at n unfolding st' book_ok_def index_ok_def by auto
    moreover have "pool_ok p (applySplit st e stated)"
      using ok at r n unfolding st' book_ok_def pool_ok_def by (auto simp: list_all_length)
    ultimately show ?thesis by (simp add: book_ok_def)
  qed (use ok in simp)
qed

section \<open>Disposals\<close>

lemma advanceOpen_spec:
  assumes "k \<le> length ls" and "\<forall>j<k. left_in (ls ! j) = 0"
  shows "advanceOpen ls k \<le> length ls \<and> (\<forall>j<advanceOpen ls k. left_in (ls ! j) = 0) \<and>
    (advanceOpen ls k < length ls \<longrightarrow> left_in (ls ! advanceOpen ls k) \<noteq> 0)"
  using assms
proof (induction ls k rule: advanceOpen.induct)
  case (1 ls k)
  show ?case
  proof (cases "k < length ls \<and> isZeroDecimal (remaining (ls ! k))")
    case True
    then have "\<forall>j<Suc k. left_in (ls ! j) = 0"
      using "1.prems" by (auto simp: less_Suc_eq left_in_def isZeroDecimal_value)
    with True "1.IH" show ?thesis by (simp add: advanceOpen.simps [of ls k])
  next
    case False
    with "1.prems" show ?thesis
      by (auto simp: advanceOpen.simps [of ls k] left_in_def isZeroDecimal_value)
  qed
qed

lemma closePool_ok:
  assumes "holding_ok st" and "index_ok st"
    and "lotMethod p = Moving_average \<Longrightarrow> length (lots st) \<le> 1"
    and front: "firstOpen st < length (lots st) \<Longrightarrow> left_in (lots st ! firstOpen st) \<noteq> 0"
  shows "book_ok p (closePool st p)"
proof (cases "lotMethod p = Moving_average \<and> lots st \<noteq> []")
  case True
  then obtain pool where pool: "lots st = [pool]" using assms(3) by (cases "lots st") auto
  show ?thesis
  proof (cases "left_in pool = 0")
    case zero: True
    then show ?thesis using True assms(1) pool
      by (simp add: closePool_def isZeroDecimal_value left_in_def [symmetric] book_defs)
  next
    case False
    then have "firstOpen st = 0" using assms(1) pool by (auto simp: holding_ok_def)
    then show ?thesis using True assms(1,2) pool False
      by (auto simp: closePool_def isZeroDecimal_value left_in_def [symmetric] book_ok_def
          pool_ok_def holding_ok_def lot_ok_def)
  qed
next
  case False
  then show ?thesis using assms(1,2)
    by (auto simp: closePool_def book_ok_def pool_ok_def holding_ok_def split: list.split)
qed

lemma plan_fits_drop:
  assumes "plan_fits n (drop n ls) plan" and "n \<le> length ls"
  shows "plan_fits 0 ls plan"
proof -
  have "\<exists>i<length ls. fst step = 0 + i \<and> 0 < dec_value (snd step) \<and>
      dec_value (snd step) \<le> left_in (ls ! i)" if mem: "step \<in> set plan" for step
  proof -
    obtain i where "i < length (drop n ls)" "fst step = n + i" "0 < dec_value (snd step)"
      "dec_value (snd step) \<le> left_in (drop n ls ! i)"
      using bspec [OF conjunct2 [OF assms(1) [unfolded plan_fits_def]] mem] by auto
    then show ?thesis using assms(2) by (intro exI [of _ "n + i"]) simp
  qed
  then show ?thesis using assms(1) by (simp add: plan_fits_def)
qed

lemma plan_fits_step:
  assumes "plan_fits 0 ls plan" and "(k, t) \<in> set plan"
  shows "k < length ls \<and> 0 < dec_value t \<and> dec_value t \<le> left_in (ls ! k)"
  using assms by (force simp: plan_fits_def)

text \<open>A plan, whatever the method, fits the lots and adds up to the disposed quantity.\<close>

lemma planDisposal_fits:
  assumes ok: "book_ok p st" and entry: "entry_ok p e" "kind (entryInput e) = Disposal"
    and q: "0 < dec_value q" and plan: "planDisposal st e q p = Inr plan"
  shows "plan_fits 0 (lots st) plan \<and> planned plan = dec_value q"
proof (cases "lotMethod p = Specific_identification")
  case True
  with plan obtain ss where ss: "lotSelections (entryInput e) = Some ss"
    and sel: "planSelected st (Some ss) q = Inr plan"
    by (auto simp: planDisposal_def planSelected_def split: if_splits option.splits)
  have "inputRulesHold (entryInput e) p" using entry by (simp add: entry_ok_def)
  note rules = rules_selections [OF this entry(2) ss]
  show ?thesis
    by (rule planSelected_fits [OF sel rules]) (use ok in \<open>auto simp: book_defs\<close>)
next
  case False
  let ?n = "firstOpen st" and ?ls = "lots st"
  from False plan have enough: "dec_value q \<le> dec_value (held st)"
    and walk: "plan = planOpen ?n (drop ?n ?ls) q"
    by (auto simp: planDisposal_def compareDecimals_value split: if_splits)
  have n: "?n \<le> length ?ls" using ok by (simp add: book_defs)
  have "total_left (drop ?n ?ls) = dec_value (held st)"
    using ok total_left_drop [OF n] by (simp add: book_defs)
  then have "plan_fits ?n (drop ?n ?ls) plan \<and> planned plan = dec_value q"
    unfolding walk using ok q enough
    by (intro planOpen_fits) (auto dest: in_set_dropD intro: book_ok_lots(1))
  then show ?thesis using plan_fits_drop [OF _ n] by blast
qed

lemma applyPlan_ok:
  assumes ok: "book_ok p st" and fits: "plan_fits 0 (lots st) plan" "planned plan = dec_value q"
    and len: "length shares = length plan"
  shows "book_ok p (applyPlan st e q p plan shares)"
proof -
  define steps where "steps = zip plan shares"
  define ls where "ls = takePlan (lots st) steps"
  define st1 where "st1 = st\<lparr>lots := ls, held := subtractDecimals (held st) q,
    firstOpen := advanceOpen ls (firstOpen st)\<rparr>"
  have steps: "positions steps = map fst plan" "map fst steps = plan"
    using len by (simp_all add: steps_def positions_zip)
  have dist: "distinct (positions steps)" using fits(1) by (simp add: steps plan_fits_def)
  have within: "fst (fst step) < length (lots st)" if "step \<in> set steps" for step
  proof -
    have "fst step \<in> set plan" using that steps(2) by (metis image_eqI set_map)
    then show ?thesis using plan_fits_step [OF fits(1), of "fst (fst step)" "snd (fst step)"] by simp
  qed
  have total: "total_left ls = total_left (lots st) - dec_value q"
    using takePlan_total [of steps "lots st"] within by (simp add: ls_def steps fits(2))
  have each: "lot_ok (ls ! k) \<and> left_in (ls ! k) \<le> left_in (lots st ! k)" if k: "k < length (lots st)" for k
  proof (rule takePlan_cases [OF dist k])
    assume "takePlan (lots st) steps ! k = lots st ! k"
    then show ?thesis using ok k by (simp add: ls_def book_defs list_all_length)
  next
    fix t s
    assume step: "((k, t), s) \<in> set steps" and taken: "takePlan (lots st) steps ! k = takeFrom (lots st ! k) t s"
    have "(k, t) \<in> set plan" using step steps(2) by (metis fst_conv image_eqI set_map)
    then show ?thesis using plan_fits_step [OF fits(1), of k t]
      by (simp add: ls_def taken lot_ok_def)
  qed
  have zero: "\<forall>j<firstOpen st. left_in (ls ! j) = 0"
  proof (intro allI impI)
    fix j assume "j < firstOpen st"
    then have "j < length (lots st)" "left_in (lots st ! j) = 0"
      using ok by (auto simp: book_ok_def holding_ok_def)
    then show "left_in (ls ! j) = 0" using each [of j] by (simp add: lot_ok_def)
  qed
  have adv: "advanceOpen ls (firstOpen st) \<le> length ls"
    "\<forall>j<advanceOpen ls (firstOpen st). left_in (ls ! j) = 0"
    "advanceOpen ls (firstOpen st) < length ls \<Longrightarrow> left_in (ls ! advanceOpen ls (firstOpen st)) \<noteq> 0"
    using advanceOpen_spec [of "firstOpen st" ls, OF _ zero] ok by (simp_all add: ls_def book_defs)
  have len': "length ls = length (lots st)" by (simp add: ls_def)
  have "holding_ok st1"
    using ok total each adv len' by (auto simp: st1_def book_defs list_all_length value_simps)
  moreover have "index_ok st1"
  proof -
    have "map lotId ls = map lotId (lots st)" by (simp add: ls_def)
    then have "lotId (ls ! k) = lotId (lots st ! k)" if "k < length (lots st)" for k
      using that len' by (metis nth_map)
    then show ?thesis using ok len' by (auto simp: st1_def book_defs)
  qed
  ultimately have "book_ok p (closePool st1 p)"
    by (rule closePool_ok) (use ok adv(3) len' in \<open>simp_all add: st1_def book_ok_def pool_ok_def\<close>)
  then show ?thesis
    by (simp add: applyPlan_def Let_def st1_def ls_def steps_def)
qed

lemma applyDisposal_ok:
  assumes ok: "book_ok p st" and entry: "entry_ok p e" "kind (entryInput e) = Disposal"
    and q: "0 < dec_value q"
  shows "book_ok p (applyDisposal st e q p)"
proof (cases "planDisposal st e q p")
  case (Inr plan)
  note fits = planDisposal_fits [OF ok entry q Inr]
  have "length shares = length plan" if "collect (stepShares (lots st) p) plan = Some shares" for shares
    using that unfolding collect_Some by (metis length_map)
  then show ?thesis
    using ok fits Inr by (auto simp: applyDisposal_def intro: applyPlan_ok split: option.split)
qed (simp add: applyDisposal_def ok)

section \<open>One input\<close>

definition seeded :: "BookState \<Rightarrow> bool" where
  "seeded st \<longleftrightarrow> history st \<or> lots st = []"

lemma ratio_positive:
  assumes "entry_ok p e" and "kind (entryInput e) = Split"
  shows "0 < ratio_value (the (split (entryInput e)))"
proof -
  have rules: "inputRulesHold (entryInput e) p" using assms by (simp add: entry_ok_def)
  obtain r where "split (entryInput e) = Some r" "0 < numerator r"
    by (rule rules_split [OF rules assms(2)])
  moreover from this have "0 < denominator r"
    using assms(1) by (auto simp: entry_ok_def validLotInput_def validExactRatio_def)
  ultimately show ?thesis by (simp add: ratio_value_def)
qed

lemma applyEntry_ok:
  assumes ok: "book_ok p st" "seeded st" and entry: "entry_ok p e" and new: "fresh p st e"
    and run: "applyEntry st e p = Some st'"
  shows "book_ok p st'"
proof (cases "indeterminate st \<noteq> None \<or> exactValue (quantity (entryInput e)) = None")
  case True
  then show ?thesis using run ok by (auto simp: applyEntry_def Let_def split: if_splits)
next
  case False
  then obtain q where q: "exactValue (quantity (entryInput e)) = Some q" by auto
  note qs = entry_quantity [OF entry q]
  have "book_ok p (applyAcquisition st e q p)" if "kind (entryInput e) = Acquisition"
    using applyAcquisition_ok [OF ok(1) new] qs that by simp
  moreover have "book_ok p (applyDisposal st e q p)" if "kind (entryInput e) = Disposal"
    using applyDisposal_ok [OF ok(1) entry that] qs that by simp
  moreover have "book_ok p (applySplit st e q)" if "kind (entryInput e) = Split"
    using applySplit_ok [OF ok(1) ratio_positive [OF entry that]] .
  moreover have "book_ok p (applySnapshot st e q p)" if "kind (entryInput e) = Snapshot"
    using applySnapshot_ok [OF ok(1) new] qs that ok(2) by (simp add: seeded_def)
  ultimately show ?thesis
    using run False q by (auto simp: applyEntry_def Let_def split: LotInputKind.splits)
qed

end
