(* ===== verification/Lot_Conservation.thy ===== *)
theory Lot_Conservation
  imports Lot_Invariants
begin

text \<open>
  What the disposals of a book record (\<open>packages/domain/src/lots.ts\<close>): every recorded disposal is
  either indeterminate and empty or accounts for its whole quantity, its outcome says exactly what
  is known of it, and over a book the cost that entered a lot is what is left of it plus every share
  that was allocated.
\<close>

section \<open>Sums of amounts\<close>

definition all_known :: "string \<Rightarrow> Amount list \<Rightarrow> bool" where
  "all_known u as \<longleftrightarrow> (\<forall>a\<in>set as. amount_unit a = Some u)"

lemma amount_unit_Some: "amount_unit a = Some u \<longleftrightarrow> (\<exists>v. a = KnownAmount u v)"
  by (cases a) auto

lemma combine_Known:
  "combine a b 1 = KnownAmount u v \<longleftrightarrow>
     (\<exists>x y. a = KnownAmount u x \<and> b = KnownAmount u y \<and> v = sumDecimals [x, y])"
  by (cases a; cases b) auto

lemma foldl_combine_Known:
  "foldl (\<lambda>total nxt. combine total nxt 1) a as = KnownAmount u v \<Longrightarrow>
   all_known u (a # as) \<and> dec_value v = amount_value a + sum_list (map amount_value as)"
proof (induction as arbitrary: a)
  case (Cons b bs)
  then have IH: "all_known u (combine a b 1 # bs)"
    "dec_value v = amount_value (combine a b 1) + sum_list (map amount_value bs)"
    by auto
  then obtain w where "combine a b 1 = KnownAmount u w" by (auto simp: all_known_def amount_unit_Some)
  then obtain x y where "a = KnownAmount u x" "b = KnownAmount u y" by (auto simp: combine_Known)
  with IH show ?case by (auto simp: all_known_def dec_value_sumDecimals)
qed (simp add: all_known_def)

lemma foldl_combine_Unknown:
  "foldl (\<lambda>total nxt. combine total nxt 1) a as = UnknownAmount r \<Longrightarrow>
   r = Amount_unit_mismatch \<or> UnknownAmount r \<in> set (a # as)"
proof (induction as arbitrary: a)
  case (Cons b bs)
  then have "r = Amount_unit_mismatch \<or> UnknownAmount r \<in> set (combine a b 1 # bs)" by simp
  then show ?case by (cases a; cases b) (auto split: if_splits)
qed simp

lemma sumAmounts_Known:
  "sumAmounts as = Some (KnownAmount u v) \<Longrightarrow>
   all_known u as \<and> as \<noteq> [] \<and> dec_value v = sum_list (map amount_value as)"
  by (cases as) (auto simp: sumAmounts_def dest: foldl_combine_Known)

lemma sumAmounts_Unknown:
  "sumAmounts as = Some (UnknownAmount r) \<Longrightarrow> r = Amount_unit_mismatch \<or> UnknownAmount r \<in> set as"
  by (cases as) (auto simp: sumAmounts_def dest: foldl_combine_Unknown)

section \<open>What one record says\<close>

fun lot_amount_value :: "LotAmount \<Rightarrow> rat" where
  "lot_amount_value (AmountKnown q) = (case exactValue q of Some v \<Rightarrow> dec_value v | None \<Rightarrow> 0)"
| "lot_amount_value (AmountUnknown _) = 0"

lemma lot_amount_value_lotAmount [simp]: "lot_amount_value (lotAmount a) = amount_value a"
  by (cases a) simp_all

definition is_known :: "LotAmount \<Rightarrow> bool" where
  "is_known a \<longleftrightarrow> (case a of AmountKnown _ \<Rightarrow> True | AmountUnknown _ \<Rightarrow> False)"

lemma is_known_lotAmount: "is_known (lotAmount a) \<longleftrightarrow> amount_unit a \<noteq> None"
  by (cases a) (simp_all add: is_known_def)

definition quantity_value :: "Quantity \<Rightarrow> rat" where
  "quantity_value q = (case exactValue q of Some v \<Rightarrow> dec_value v | None \<Rightarrow> 0)"

lemma quantity_value_exact [simp]: "quantity_value (exactQuantity u v) = dec_value v"
  by (simp add: quantity_value_def)

definition disposal_ok :: "LotDisposal \<Rightarrow> bool" where
  "disposal_ok d \<longleftrightarrow>
     (case outcome d of
        Indeterminate \<Rightarrow> allocations d = [] \<and> allocatedCost d = None \<and> reasonCodes d \<noteq> []
      | Allocated \<Rightarrow>
          reasonCodes d = [] \<and>
          list_all (\<lambda>a. is_known (allocCost a) \<and> pred_option is_known (allocFees a)) (allocations d) \<and>
          is_known (proceeds d) \<and> pred_option is_known (disposalFees d) \<and>
          allocatedCost d \<noteq> None
      | Limited \<Rightarrow> reasonCodes d \<noteq> [] \<and> set (reasonCodes d) \<subseteq> set LOT_LIMITED_REASON_CODES) \<and>
     (outcome d \<noteq> Indeterminate \<longrightarrow>
        sum_list (map (\<lambda>a. quantity_value (allocQuantity a)) (allocations d)) =
          quantity_value (disposalQuantity d) \<and>
        list_all (\<lambda>a. 0 < quantity_value (allocQuantity a)) (allocations d)) \<and>
     (\<forall>c. allocatedCost d = Some c \<longrightarrow>
        quantity_value c = sum_list (map (\<lambda>a. lot_amount_value (allocCost a)) (allocations d)))"

lemma indeterminateDisposal_ok [simp]: "disposal_ok (indeterminateDisposal e p r)"
  by (simp add: disposal_ok_def indeterminateDisposal_def disposalRecord_def)

lemma amountReasons_limited:
  "g \<in> set LOT_LIMITED_REASON_CODES \<Longrightarrow> set (amountReasons a g) \<subseteq> set LOT_LIMITED_REASON_CODES"
  by (cases "(a, g)" rule: amountReasons.cases) (auto simp: LOT_LIMITED_REASON_CODES_def)

lemma amountReasons_Nil: "amountReasons a g = [] \<longleftrightarrow> pred_option (\<lambda>x. amount_unit x \<noteq> None) a"
  by (cases "(a, g)" rule: amountReasons.cases) auto

lemma stepReasons_limited: "set (stepReasons s) \<subseteq> set LOT_LIMITED_REASON_CODES"
  using amountReasons_limited
  by (auto simp: stepReasons_def LOT_LIMITED_REASON_CODES_def dest: subsetD)

text \<open>The allocations of a plan, and when all their amounts are known.\<close>

abbreviation plan_allocations ::
  "LotPolicy \<Rightarrow> Entry \<Rightarrow> Lot list \<Rightarrow> ((nat \<times> ExactDecimal) \<times> StepShares) list \<Rightarrow> LotAllocation list"
where
  "plan_allocations p e ls steps \<equiv> map (\<lambda>((position, taken), s). allocationOf p e (ls ! position) taken s) steps"

lemma plan_allocation_values:
  assumes "length shares = length plan"
  shows "map (\<lambda>a. quantity_value (allocQuantity a)) (plan_allocations p e ls (zip plan shares)) = map (\<lambda>step. dec_value (snd step)) plan"
    and "map (\<lambda>a. lot_amount_value (allocCost a)) (plan_allocations p e ls (zip plan shares)) =
      map (\<lambda>s. amount_value (shareAmount (costShare s))) shares"
proof -
  have zips: "map f plan = map (f \<circ> fst) (zip plan shares)" "map g shares = map (g \<circ> snd) (zip plan shares)"
    for f :: "_ \<Rightarrow> rat" and g :: "_ \<Rightarrow> rat"
    using assms by (simp_all add: map_map [symmetric] del: map_map)
  show "map (\<lambda>a. quantity_value (allocQuantity a)) (plan_allocations p e ls (zip plan shares)) = map (\<lambda>step. dec_value (snd step)) plan"
    "map (\<lambda>a. lot_amount_value (allocCost a)) (plan_allocations p e ls (zip plan shares)) =
      map (\<lambda>s. amount_value (shareAmount (costShare s))) shares"
    unfolding zips by (simp_all add: allocationOf_def split_beta)
qed

lemma plan_allocations_known:
  assumes "\<forall>s\<in>set shares. stepReasons s = []"
  shows "list_all (\<lambda>a. is_known (allocCost a) \<and> pred_option is_known (allocFees a)) (plan_allocations p e ls (zip plan shares))"
proof -
  have shares_known: "amount_unit (shareAmount (costShare s)) \<noteq> None"
    "pred_option (\<lambda>x. amount_unit x \<noteq> None) (map_option shareAmount (feesShare s))" if "s \<in> set shares" for s
    using assms that by (simp_all add: stepReasons_def amountReasons_Nil)
  have "snd step \<in> set shares" if "step \<in> set (zip plan shares)" for step
    using set_zip_rightD [of "fst step" "snd step"] that by simp
  then show ?thesis
    using shares_known
    by (fastforce simp: list_all_iff allocationOf_def is_known_lotAmount pred_option_def split: option.splits)
qed

lemma sumAmounts_all_known:
  assumes "as \<noteq> []" and "\<forall>a\<in>set as. amount_unit a \<noteq> None"
    and "sumAmounts as \<noteq> Some (UnknownAmount Amount_unit_mismatch)"
  obtains u v where "sumAmounts as = Some (KnownAmount u v)"
proof -
  obtain a where a: "sumAmounts as = Some a" using assms(1) by (cases as) (auto simp: sumAmounts_def)
  have "UnknownAmount r \<notin> set as" for r using assms(2) by fastforce
  then show thesis using a assms(3) sumAmounts_Unknown that by (cases a) fastforce+
qed

lemma applyPlan_record:
  assumes fits: "plan_fits 0 (lots st) plan" "planned plan = dec_value q"
    and q: "exactValue (quantity (entryInput e)) = Some q" "0 < dec_value q"
    and len: "length shares = length plan"
  obtains d where "disposals (applyPlan st e q p plan shares) = disposals st @ [d]"
    and "disposal_ok d" and "disposalRef d = entryRef e" and "outcome d \<noteq> Indeterminate"
    and "allocations d = plan_allocations p e (lots st) (zip plan shares)"
proof -
  define allocs where "allocs = plan_allocations p e (lots st) (zip plan shares)"
  define total where "total = sumAmounts (map (\<lambda>s. shareAmount (costShare s)) shares)"
  define allocated where "allocated = (case total of
    Some (KnownAmount u v) \<Rightarrow> Some (exactQuantity u v) | _ \<Rightarrow> None)"
  define side where "side = disposalSide (entryInput e) p"
  define reasons where "reasons = concat (map stepReasons shares) @
    (if total = Some (UnknownAmount Amount_unit_mismatch) then [R_unit_mismatch] else []) @
    amountReasons (Some (sideProceeds side)) R_unknown_proceeds @
    amountReasons (sideFees side) R_unknown_disposal_fee"
  define d where "d = disposalRecord e side allocs allocated
    (if reasons = [] then Allocated else Limited) reasons"
  note vals = plan_allocation_values [OF len, of p e "lots st", folded allocs_def]
  have push: "disposals (applyPlan st e q p plan shares) = disposals st @ [d]"
    by (simp add: applyPlan_def Let_def pushDisposal_def closePool_def d_def reasons_def side_def
        allocated_def total_def allocs_def split: list.split)
  have positive: "0 < dec_value (snd step)" if "step \<in> set plan" for step
    using fits(1) that by (auto simp: plan_fits_def)
  have "list_all (\<lambda>x. 0 < x) (map (\<lambda>a. quantity_value (allocQuantity a)) allocs)"
    unfolding vals(1) using positive by (simp add: list_all_iff)
  then have pos: "list_all (\<lambda>a. 0 < quantity_value (allocQuantity a)) allocs"
    by (simp add: list_all_iff)
  have sum: "sum_list (map (\<lambda>a. quantity_value (allocQuantity a)) allocs) = dec_value q"
    using fits(2) by (simp add: vals(1) planned_def)
  have limited: "set reasons \<subseteq> set LOT_LIMITED_REASON_CODES"
    using stepReasons_limited amountReasons_limited
    unfolding reasons_def by (auto simp: LOT_LIMITED_REASON_CODES_def dest: subsetD)
  have known: "list_all (\<lambda>a. is_known (allocCost a) \<and> pred_option is_known (allocFees a)) allocs \<and>
      is_known (lotAmount (sideProceeds side)) \<and>
      pred_option is_known (map_option lotAmount (sideFees side)) \<and> allocated \<noteq> None"
    if none: "reasons = []"
  proof (intro conjI)
    have steps: "\<forall>s\<in>set shares. stepReasons s = []" using none by (simp add: reasons_def)
    then show "list_all (\<lambda>a. is_known (allocCost a) \<and> pred_option is_known (allocFees a)) allocs"
      unfolding allocs_def by (rule plan_allocations_known)
    show "is_known (lotAmount (sideProceeds side))"
      "pred_option is_known (map_option lotAmount (sideFees side))"
      using none by (auto simp: reasons_def amountReasons_Nil is_known_lotAmount pred_option_def)
    have "planned plan \<noteq> 0" using fits(2) q(2) by simp
    then have "shares \<noteq> []" using len by auto
    moreover have "total \<noteq> Some (UnknownAmount Amount_unit_mismatch)" using none by (auto simp: reasons_def)
    ultimately obtain u v where "total = Some (KnownAmount u v)"
      unfolding total_def using steps by (elim sumAmounts_all_known [rotated 2]) (auto simp: stepReasons_def amountReasons_Nil)
    then show "allocated \<noteq> None" by (simp add: allocated_def)
  qed
  have "quantity_value c = sum_list (map (\<lambda>a. lot_amount_value (allocCost a)) allocs)"
    if "allocated = Some c" for c
    using that unfolding allocated_def total_def vals(2)
    by (auto split: option.splits Amount.splits dest!: sumAmounts_Known simp: comp_def)
  then have "disposal_ok d"
    using q(1) pos sum limited known
    by (simp add: d_def disposalRecord_def disposal_ok_def quantity_value_def)
  with push show thesis
    by (rule that) (simp_all add: d_def disposalRecord_def allocs_def)
qed

section \<open>The ledger of a lot\<close>

text \<open>
  What entered is what is left plus what was allocated, as long as it is known; an unknown amount
  keeps its reason.
\<close>

fun balanced :: "Amount \<Rightarrow> Amount \<Rightarrow> LotAmount list \<Rightarrow> bool" where
  "balanced (KnownAmount u c) (KnownAmount w r) parts \<longleftrightarrow>
     u = w \<and> list_all (\<lambda>a. \<exists>v. a = AmountKnown (exactQuantity u v)) parts \<and>
     dec_value c = dec_value r + sum_list (map lot_amount_value parts)"
| "balanced (UnknownAmount a) (UnknownAmount b) parts \<longleftrightarrow> a = b"
| "balanced _ _ parts \<longleftrightarrow> False"

lemma balanced_start [simp]: "balanced c c []"
  by (cases c) simp_all

lemma balanced_add: "balanced c r parts \<Longrightarrow> balanced (combine c x 1) (combine r x 1) parts"
  by (cases "(c, r, parts)" rule: balanced.cases; cases x) (auto simp: dec_value_sumDecimals)

lemma balanced_take:
  assumes "balanced c r parts" and "shareOf r t left rp = Some s"
    and "0 < dec_value t" and "dec_value t \<le> dec_value left"
  shows "balanced c (combine r (shareAmount s) (- 1)) (parts @ [lotAmount (shareAmount s)])"
proof (cases r)
  case (KnownAmount u v)
  then obtain w where "shareAmount s = KnownAmount u w"
    using shareOf_Known [of u v t left rp s] assms(2-4) by blast
  with assms(1) KnownAmount show ?thesis by (cases c) (auto simp: value_simps)
qed (use assms in \<open>cases c; auto\<close>)

lemma take_sign:
  assumes "shareOf r t left rp = Some s" and "0 < dec_value t" and "dec_value t \<le> dec_value left"
    and "0 \<le> amount_value r"
  shows "0 \<le> amount_value (combine r (shareAmount s) (- 1)) \<and>
    (dec_value t = dec_value left \<longrightarrow> amount_value (combine r (shareAmount s) (- 1)) = 0)"
proof (cases r)
  case (KnownAmount u v)
  then obtain w where w: "shareAmount s = KnownAmount u w" "\<bar>dec_value w\<bar> \<le> \<bar>dec_value v\<bar>"
    using shareOf_Known [of u v t left rp s] assms(1-3) by blast
  have "w = v" if "dec_value t = dec_value left"
    using assms(1) that w(1) KnownAmount by (auto simp: shareOf_whole)
  with w KnownAmount assms(4) show ?thesis by (auto simp: value_simps)
qed (use assms in auto)

definition allocs_of :: "LotDisposal list \<Rightarrow> string \<Rightarrow> LotAllocation list" where
  "allocs_of ds lid = filter (\<lambda>a. allocLotId a = lid) (concat (map allocations ds))"

lemma allocs_of_append [simp]: "allocs_of (ds @ ds') lid = allocs_of ds lid @ allocs_of ds' lid"
  by (simp add: allocs_of_def)

lemma allocs_of_empty [simp]: "allocs_of [indeterminateDisposal e p r] lid = []"
  by (simp add: allocs_of_def indeterminateDisposal_def disposalRecord_def)

definition lot_balanced :: "LotAllocation list \<Rightarrow> Lot \<Rightarrow> bool" where
  "lot_balanced allocs l \<longleftrightarrow>
     balanced (cost l) (remainingCost l) (map allocCost allocs) \<and>
     (case (fees l, remainingFees l) of
        (None, None) \<Rightarrow> List.map_filter allocFees allocs = []
      | (Some f, Some r) \<Rightarrow> balanced f r (List.map_filter allocFees allocs)
      | _ \<Rightarrow> False) \<and>
     0 \<le> amount_value (remainingCost l) \<and>
     (left_in l = 0 \<longrightarrow> amount_value (remainingCost l) = 0)"

definition ids_within :: "LotPolicy \<Rightarrow> string set \<Rightarrow> BookState \<Rightarrow> bool" where
  "ids_within p seen st \<longleftrightarrow>
     lotId ` set (lots st) \<subseteq> newLotId p ` seen \<and>
     (\<forall>lid. lid \<notin> newLotId p ` seen \<longrightarrow> allocs_of (disposals st) lid = [])"

definition ledger_ok :: "LotPolicy \<Rightarrow> string set \<Rightarrow> BookState \<Rightarrow> bool" where
  "ledger_ok p seen st \<longleftrightarrow>
     book_ok p st \<and> seeded st \<and> ids_within p seen st \<and>
     list_all disposal_ok (disposals st) \<and>
     list_all (\<lambda>l. lot_balanced (allocs_of (disposals st) (lotId l)) l) (lots st)"

lemma ledger_ok_empty [simp]: "ledger_ok p {} emptyState"
proof -
  have "book_ok p emptyState" by simp
  then show ?thesis by (simp add: ledger_ok_def seeded_def ids_within_def allocs_of_def) (simp add: emptyState_def)
qed

lemma ledger_ok_marks:
  assumes "ledger_ok p seen st"
  shows "ledger_ok p seen (markIndeterminate st refs r)"
    and "ledger_ok p seen (pushDisposal st (indeterminateDisposal e p r'))"
    and "ledger_ok p seen (st\<lparr>history := True\<rparr>)"
  using assms
  by (auto simp: ledger_ok_def seeded_def ids_within_def markIndeterminate_def pushDisposal_def
      book_ok_marks(4) book_ok_marks(5)) (auto simp: book_defs)

section \<open>What an input costs is never negative\<close>

lemma combine_nonneg:
  "0 \<le> amount_value a \<Longrightarrow> 0 \<le> amount_value b \<Longrightarrow> 0 \<le> amount_value (combine a b 1)"
  by (cases a; cases b) (simp_all add: value_simps)

lemma sumAmounts_nonneg:
  assumes "\<And>a. a \<in> set as \<Longrightarrow> 0 \<le> amount_value a" and "sumAmounts as = Some s"
  shows "0 \<le> amount_value s"
proof -
  have "0 \<le> amount_value (foldl (\<lambda>total nxt. combine total nxt 1) z bs)"
    if "0 \<le> amount_value z" "\<forall>b\<in>set bs. 0 \<le> amount_value b" for z bs
    using that by (induction bs arbitrary: z) (simp_all add: combine_nonneg)
  with assms show ?thesis by (cases as) (auto simp: sumAmounts_def)
qed

lemma inCostUnit_nonneg:
  assumes "\<not> signRefused q True" and "\<And>r. rate = Some r \<Longrightarrow> 0 \<le> dec_value (fxRate r)"
  shows "0 \<le> amount_value (fst (inCostUnit q rate p absent))"
proof (cases "exactValue q")
  case (Some v)
  then have "0 \<le> dec_value v" using assms(1) signRefused_value(1) [OF Some] by simp
  then show ?thesis using Some assms(2)
    by (auto simp: inCostUnit_def value_simps split: option.splits)
qed (simp add: inCostUnit_def)

lemma acquisitionCost_nonneg:
  assumes rules: "inputRulesHold i p"
  shows "0 \<le> amount_value (acquisitionCost i p)"
proof -
  have rate: "0 \<le> dec_value (fxRate r)" if "fx i = Some r" for r
    using rules that by (auto simp: inputRulesHold_def compareDecimals_value split: if_splits)
  have con: "0 \<le> amount_value (considerationAmount (inputAmounts i p))"
  proof (cases "consideration i")
    case (Some c)
    then have "\<not> signRefused c True" using rules by (simp add: inputRulesHold_def split: if_splits)
    then show ?thesis using Some rate by (simp add: inputAmounts_def Let_def inCostUnit_nonneg)
  qed (simp add: inputAmounts_def Let_def)
  have fee: "0 \<le> amount_value (fst (inCostUnit fee (fx i) p Fee_unknown))" if "fee \<in> set (inputFees i)" for fee
    using rules that inCostUnit_nonneg rate
    by (auto simp: inputRulesHold_def list_ex_iff split: if_splits)
  have "0 \<le> amount_value f" if "feesAmount (inputAmounts i p) = Some f" for f
    by (rule sumAmounts_nonneg [OF _ that [unfolded inputAmounts_def Let_def InputAmounts.select_convs]])
      (use fee in auto)
  then show ?thesis using con by (auto simp: acquisitionCost_def Let_def combine_nonneg split: option.split)
qed

section \<open>Every operation keeps the ledger\<close>

text \<open>A new lot starts balanced: nothing was allocated from it.\<close>

lemma ledger_ok_addLot:
  assumes led: "ledger_ok p seen st" and ref: "ref \<notin> seen"
    and new: "lotId l = newLotId p ref" "book_ok p (addLot st l)"
    and start: "remainingCost l = cost l" "remainingFees l = fees l" "0 \<le> amount_value (cost l)"
      "left_in l \<noteq> 0"
    and hist: "seeded (st' :: BookState)" "lots st' = lots (addLot st l)" "disposals st' = disposals st"
      "book_ok p st' = book_ok p (addLot st l)"
  shows "ledger_ok p (insert ref seen) st'"
proof -
  have none: "allocs_of (disposals st) (newLotId p ref) = []"
  proof -
    have "newLotId p ref \<notin> newLotId p ` seen" using ref by auto
    then show ?thesis using led unfolding ledger_ok_def ids_within_def by blast
  qed
  have "lot_balanced [] l"
    using start by (auto simp: lot_balanced_def List.map_filter_def split: option.split)
  then have "list_all (\<lambda>l. lot_balanced (allocs_of (disposals st) (lotId l)) l) (lots st @ [l])"
    using led none new(1) by (simp add: ledger_ok_def)
  moreover have "ids_within p (insert ref seen) st'"
    using led new(1) hist by (auto simp: ledger_ok_def ids_within_def addLot_def)
  ultimately show ?thesis
    using led new hist by (simp add: ledger_ok_def addLot_def)
qed

lemma ids_within_mono: "ids_within p seen st \<Longrightarrow> ids_within p (insert ref seen) st"
  by (auto simp: ids_within_def)

lemma ledger_ok_seen: "ledger_ok p seen st \<Longrightarrow> ledger_ok p (insert ref seen) st"
  by (auto simp: ledger_ok_def ids_within_mono)

lemma ledger_ok_history: "ledger_ok p seen st \<Longrightarrow> ledger_ok p seen (st\<lparr>history := True\<rparr>)"
  by (rule ledger_ok_marks(3))

lemma addFees_balanced:
  assumes "case (a, b) of (None, None) \<Rightarrow> parts = [] | (Some f, Some r) \<Rightarrow> balanced f r parts | _ \<Rightarrow> False"
  shows "case (addFees a x, addFees b x) of
      (None, None) \<Rightarrow> parts = [] | (Some f, Some r) \<Rightarrow> balanced f r parts | _ \<Rightarrow> False"
  using assms by (auto simp: addFees_def balanced_add split: option.splits)

lemma ledger_fresh:
  assumes "ledger_ok p seen st" and "entryRef e \<notin> seen"
  shows "fresh p st e"
proof -
  have "newLotId p (entryRef e) \<notin> newLotId p ` seen" using assms(2) by auto
  then show ?thesis using assms(1) by (auto simp: fresh_def ledger_ok_def ids_within_def)
qed

lemma applyAcquisition_ledger:
  assumes led: "ledger_ok p seen st" and e: "entryRef e \<notin> seen" "inputRulesHold (entryInput e) p"
    and q: "0 < dec_value q" "canonical q"
  shows "ledger_ok p (insert (entryRef e) seen) ((applyAcquisition st e q p)\<lparr>history := True\<rparr>)"
proof -
  have ok: "book_ok p st" using led by (simp add: ledger_ok_def)
  have cost: "0 \<le> amount_value (acquisitionCost (entryInput e) p)"
    by (rule acquisitionCost_nonneg [OF e(2)])
  have after: "book_ok p (applyAcquisition st e q p)"
    by (rule applyAcquisition_ok [OF ok ledger_fresh [OF led e(1)] q])
  show ?thesis
  proof (cases rule: applyAcquisition_cases [OF ok, of e q, case_names marked opened joined])
    case marked
    then show ?thesis using led by (simp add: ledger_ok_marks ledger_ok_seen)
  next
    case opened
    show ?thesis
      unfolding opened(1)
      by (rule ledger_ok_addLot [OF led e(1), where l = "openLot e q p"])
        (use after opened cost q in \<open>simp_all add: seeded_def left_in_def addLot_def\<close>)
  next
    case (joined pool us)
    let ?allocs = "allocs_of (disposals st) (lotId pool)" and ?pool = "joinPool pool e q p us"
    have bal: "lot_balanced ?allocs pool" and left: "0 \<le> left_in pool"
      using led joined(1) book_ok_lots(1) [OF ok, of pool] by (simp_all add: ledger_ok_def)
    have "lot_balanced ?allocs ?pool"
      unfolding lot_balanced_def
    proof (intro conjI)
      show "case (fees ?pool, remainingFees ?pool) of
          (None, None) \<Rightarrow> List.map_filter allocFees ?allocs = []
        | (Some f, Some r) \<Rightarrow> balanced f r (List.map_filter allocFees ?allocs) | _ \<Rightarrow> False"
        unfolding joinPool_simps by (rule addFees_balanced) (use bal in \<open>simp add: lot_balanced_def\<close>)
      show "left_in ?pool = 0 \<longrightarrow> amount_value (remainingCost ?pool) = 0"
        using left q by (simp add: left_in_def value_simps)
    qed (use bal cost in \<open>simp_all add: lot_balanced_def balanced_add combine_nonneg\<close>)
    then show ?thesis
      using led after joined(1) unfolding joined(3) by (auto simp: ledger_ok_def ids_within_def seeded_def)
  qed
qed

lemma applySnapshot_ledger:
  assumes led: "ledger_ok p seen st" and e: "entryRef e \<notin> seen"
    and q: "0 \<le> dec_value q" "canonical q"
  shows "ledger_ok p (insert (entryRef e) seen) ((applySnapshot st e q p)\<lparr>history := True\<rparr>)"
proof -
  have ok: "book_ok p st" and seed: "seeded st" using led by (simp_all add: ledger_ok_def)
  have after: "book_ok p (applySnapshot st e q p)"
    using applySnapshot_ok [OF ok ledger_fresh [OF led e] q] seed by (simp add: seeded_def)
  show ?thesis
  proof (cases rule: applySnapshot_cases [of st e q p])
    case opened
    show ?thesis
      unfolding opened(1)
      by (rule ledger_ok_addLot [OF led e, where l = "seedLot e q p"])
        (use after opened q in \<open>simp_all add: seeded_def left_in_def addLot_def\<close>)
  qed (use led in \<open>simp_all add: ledger_ok_marks ledger_ok_seen\<close>)
qed

lemma applySplit_ledger:
  assumes led: "ledger_ok p seen st" and r: "0 < ratio_value (the (split (entryInput e)))"
  shows "ledger_ok p seen ((applySplit st e q)\<lparr>history := True\<rparr>)"
proof -
  let ?r = "the (split (entryInput e))" and ?n = "firstOpen st" and ?ls = "lots st"
  have ok: "book_ok p st" using led by (simp add: ledger_ok_def)
  then have n: "?n \<le> length ?ls" by (simp add: book_defs)
  have after: "book_ok p (applySplit st e q)" by (rule applySplit_ok [OF ok r])
  show ?thesis
  proof (rule applySplit_cases [OF n, of e q])
    fix scaled h
    assume st': "applySplit st e q = st\<lparr>held := h, lots :=
        take ?n ?ls @ splitLots (entryRef e) ?r (drop ?n ?ls)\<rparr>"
      and scaled: "scaleOpen ?r ?n (drop ?n ?ls) = Some scaled"
    let ?new = "take ?n ?ls @ splitLots (entryRef e) ?r (drop ?n ?ls)"
    have same: "cost (?new ! k) = cost (?ls ! k)" "remainingCost (?new ! k) = remainingCost (?ls ! k)"
      "fees (?new ! k) = fees (?ls ! k)" "remainingFees (?new ! k) = remainingFees (?ls ! k)"
      "lotId (?new ! k) = lotId (?ls ! k)" "left_in (?new ! k) = 0 \<longleftrightarrow> left_in (?ls ! k) = 0"
      if "k < length ?ls" for k
      using splitLots_scaled [OF scaled, of "k - ?n" "entryRef e"] that n r
      by (auto simp: nth_append splitLots_def)
    have "lot_balanced allocs (?new ! k) \<longleftrightarrow> lot_balanced allocs (?ls ! k)" if "k < length ?ls" for k allocs
      using same [OF that] by (simp add: lot_balanced_def)
    then have bal: "list_all (\<lambda>l. lot_balanced (allocs_of (disposals st) (lotId l)) l) ?new"
      using led same n by (auto simp: ledger_ok_def list_all_length)
    have "map lotId ?new = map lotId ?ls"
      by (simp only: map_append splitLots_ids) (simp flip: map_append)
    then have "lotId ` set ?new = lotId ` set ?ls" by (metis set_map)
    then show ?thesis
      using led after bal unfolding st' by (auto simp: ledger_ok_def ids_within_def seeded_def)
  qed (use led in \<open>simp add: ledger_ok_marks\<close>)
qed

lemma stepShares_Some:
  assumes "stepShares ls p (k, t) = Some s"
  shows "shareOf (remainingCost (ls ! k)) t (remaining (ls ! k)) (rounding p) = Some (costShare s)"
    and "case remainingFees (ls ! k) of
        None \<Rightarrow> feesShare s = None
      | Some f \<Rightarrow> \<exists>fs. feesShare s = Some fs \<and> shareOf f t (remaining (ls ! k)) (rounding p) = Some fs"
  using assms by (auto simp: stepShares_def Let_def split: option.splits)

lemma lot_balanced_take:
  assumes bal: "lot_balanced allocs (ls ! k)" and step: "stepShares ls p (k, t) = Some s"
    and t: "0 < dec_value t" "dec_value t \<le> left_in (ls ! k)"
  shows "lot_balanced (allocs @ [allocationOf p e (ls ! k) t s]) (takeFrom (ls ! k) t s)"
proof -
  let ?l = "ls ! k" and ?a = "allocationOf p e (ls ! k) t s"
  note share = stepShares_Some [OF step]
  have t': "dec_value t \<le> dec_value (remaining ?l)" using t(2) by (simp add: left_in_def)
  have "balanced (cost ?l) (remainingCost (takeFrom ?l t s)) (map allocCost (allocs @ [?a]))"
    using balanced_take [OF _ share(1) t(1) t'] bal by (simp add: lot_balanced_def allocationOf_def)
  moreover have "case (fees ?l, remainingFees (takeFrom ?l t s)) of
      (None, None) \<Rightarrow> List.map_filter allocFees (allocs @ [?a]) = []
    | (Some f, Some r) \<Rightarrow> balanced f r (List.map_filter allocFees (allocs @ [?a])) | _ \<Rightarrow> False"
  proof (cases "remainingFees ?l")
    case None
    then show ?thesis using bal share(2)
      by (auto simp: lot_balanced_def takeFrom_def allocationOf_def List.map_filter_def split: option.splits)
  next
    case (Some r)
    then obtain fs where fs: "feesShare s = Some fs"
      "shareOf r t (remaining ?l) (rounding p) = Some fs" using share(2) by auto
    obtain f where f: "fees ?l = Some f" "balanced f r (List.map_filter allocFees allocs)"
      using bal Some by (auto simp: lot_balanced_def split: option.splits)
    have "balanced f (combine r (shareAmount fs) (- 1))
        (List.map_filter allocFees allocs @ [lotAmount (shareAmount fs)])"
      by (rule balanced_take [OF f(2) fs(2) t(1) t'])
    then show ?thesis using Some fs f by (simp add: takeFrom_def allocationOf_def List.map_filter_def)
  qed
  moreover have "0 \<le> amount_value (remainingCost (takeFrom ?l t s)) \<and>
      (left_in (takeFrom ?l t s) = 0 \<longrightarrow> amount_value (remainingCost (takeFrom ?l t s)) = 0)"
    using take_sign [OF share(1) t(1) t'] bal by (auto simp: lot_balanced_def left_in_def value_simps)
  ultimately show ?thesis by (simp add: lot_balanced_def)
qed

text \<open>A plan allocates from the lot at a position exactly what it takes there.\<close>

lemma filter_steps:
  "distinct (positions steps) \<Longrightarrow> ((k, t), s) \<in> set steps \<Longrightarrow>
   filter (\<lambda>step. fst (fst step) = k) steps = [((k, t), s)]"
proof (induction steps)
  case (Cons step steps)
  obtain j u v where step: "step = ((j, u), v)" by (metis prod.exhaust)
  have none: "filter (\<lambda>step. fst (fst step) = j) steps = []"
    using Cons.prems(1) step by (auto simp: filter_empty_conv positions_def)
  show ?case
  proof (cases "((k, t), s) = step")
    case True
    then show ?thesis using none step by auto
  next
    case False
    then have mem: "((k, t), s) \<in> set steps" using Cons.prems(2) by auto
    then have "k \<in> set (positions steps)" by (force simp: positions_def)
    then have "k \<noteq> j" using Cons.prems(1) step by auto
    with Cons step mem show ?thesis by simp
  qed
qed simp

lemma allocs_at:
  assumes ids: "distinct (map lotId ls)" and within: "\<And>step. step \<in> set steps \<Longrightarrow> fst (fst step) < length ls"
    and k: "k < length ls"
  shows "filter (\<lambda>a. allocLotId a = lotId (ls ! k))
      (map (\<lambda>((position, taken), s). allocationOf p e (ls ! position) taken s) steps) =
    map (\<lambda>((position, taken), s). allocationOf p e (ls ! position) taken s)
      (filter (\<lambda>step. fst (fst step) = k) steps)"
proof -
  have "lotId (ls ! j) = lotId (ls ! k) \<longleftrightarrow> j = k" if "j < length ls" for j
    using ids k that by (metis distinct_conv_nth length_map nth_map)
  with within show ?thesis
    by (induction steps) (auto simp: allocationOf_def split_beta)
qed

lemma applyPlan_lots:
  "lots (applyPlan st e q p plan shares) = takePlan (lots st) (zip plan shares) \<or>
   lots (applyPlan st e q p plan shares) = []"
  by (simp add: applyPlan_def Let_def pushDisposal_def closePool_def split: list.split)

text \<open>What a plan does to one lot: the lot stays balanced against the disposals, the new one included.\<close>

lemma plan_lot_balanced:
  assumes old: "lot_balanced (allocs_of ds (lotId (lots st ! k))) (lots st ! k)" and k: "k < length (lots st)"
    and ids: "distinct (map lotId (lots st))" and fits: "plan_fits 0 (lots st) plan"
    and shares: "collect (stepShares (lots st) p) plan = Some shares"
    and allocs: "allocations d = plan_allocations p e (lots st) (zip plan shares)"
  shows "lot_balanced (allocs_of (ds @ [d]) (lotId (takePlan (lots st) (zip plan shares) ! k)))
    (takePlan (lots st) (zip plan shares) ! k)"
proof -
  let ?steps = "zip plan shares"
  have len: "length shares = length plan" using shares unfolding collect_Some by (metis length_map)
  have pos: "positions ?steps = map fst plan" "map fst ?steps = plan" using len by (simp_all add: positions_zip)
  have dist: "distinct (positions ?steps)" using fits by (simp add: pos plan_fits_def)
  have mem: "(k, t) \<in> set plan \<and> stepShares (lots st) p (k, t) = Some s" if "((k, t), s) \<in> set ?steps" for k t s
  proof -
    from that obtain i where "i < length plan" "plan ! i = (k, t)" "shares ! i = s" using len by (auto simp: in_set_zip)
    then show ?thesis using shares len unfolding collect_Some by (metis nth_map nth_mem)
  qed
  have within: "fst (fst step) < length (lots st)" if "step \<in> set ?steps" for step
    using plan_fits_step [OF fits, of "fst (fst step)" "snd (fst step)"] mem [of "fst (fst step)" "snd (fst step)" "snd step"] that
    by simp
  have own: "allocs_of [d] (lotId (lots st ! k)) = plan_allocations p e (lots st) (filter (\<lambda>step. fst (fst step) = k) ?steps)"
    using allocs_at [OF ids within k] by (simp add: allocs_of_def allocs)
  show ?thesis
  proof (rule takePlan_cases [OF dist k])
    assume same: "takePlan (lots st) ?steps ! k = lots st ! k" and "k \<notin> set (positions ?steps)"
    then have "filter (\<lambda>step. fst (fst step) = k) ?steps = []" by (auto simp: filter_empty_conv positions_def)
    then show ?thesis using old own by (simp add: same)
  next
    fix t s
    assume step: "((k, t), s) \<in> set ?steps" and taken: "takePlan (lots st) ?steps ! k = takeFrom (lots st ! k) t s"
    have t: "0 < dec_value t" "dec_value t \<le> left_in (lots st ! k)" using plan_fits_step [OF fits] mem [OF step] by blast+
    show ?thesis
      using lot_balanced_take [OF old _ t] mem [OF step] own filter_steps [OF dist step] by (simp add: taken)
  qed
qed

lemma applyPlan_ledger:
  assumes led: "ledger_ok p seen st"
    and fits: "plan_fits 0 (lots st) plan" "planned plan = dec_value q"
    and q: "exactValue (quantity (entryInput e)) = Some q" "0 < dec_value q"
    and shares: "collect (stepShares (lots st) p) plan = Some shares"
  shows "ledger_ok p seen ((applyPlan st e q p plan shares)\<lparr>history := True\<rparr>)"
proof -
  let ?lots = "lots (applyPlan st e q p plan shares)"
  have ok: "book_ok p st" using led by (simp add: ledger_ok_def)
  have len: "length shares = length plan" using shares unfolding collect_Some by (metis length_map)
  obtain d where d: "disposals (applyPlan st e q p plan shares) = disposals st @ [d]" "disposal_ok d"
    and allocs: "allocations d = plan_allocations p e (lots st) (zip plan shares)"
    by (rule applyPlan_record [OF fits q len])
  have after: "book_ok p (applyPlan st e q p plan shares)" by (rule applyPlan_ok [OF ok fits len])
  have ids: "distinct (map lotId (lots st))" using ok by (simp add: book_ok_def distinct_ids)
  have "lot_balanced (allocs_of (disposals st @ [d]) (lotId (takePlan (lots st) (zip plan shares) ! k)))
      (takePlan (lots st) (zip plan shares) ! k)" if k: "k < length (lots st)" for k
    by (rule plan_lot_balanced [OF _ k ids fits(1) shares allocs]) (use led k in \<open>simp add: ledger_ok_def list_all_length\<close>)
  then have all: "list_all (\<lambda>l. lot_balanced (allocs_of (disposals st @ [d]) (lotId l)) l) ?lots"
    using applyPlan_lots [of st e q p plan shares] by (auto simp: list_all_length)
  have "lotId ` set (takePlan (lots st) (zip plan shares)) = lotId ` set (lots st)"
    unfolding set_map [symmetric] takePlan_ids ..
  then have lots: "lotId ` set ?lots \<subseteq> lotId ` set (lots st)"
    using applyPlan_lots [of st e q p plan shares]
    by (elim disjE) (simp_all only: list.set image_empty empty_subsetI subset_refl)
  have fresh: "allocs_of [d] lid = []" if "lid \<notin> lotId ` set (lots st)" for lid
  proof -
    have "k < length (lots st)" if "((k, t), s) \<in> set (zip plan shares)" for k t s
      using plan_fits_step [OF fits(1)] set_zip_leftD [OF that] by blast
    with that show ?thesis by (fastforce simp: allocs_of_def allocs filter_empty_conv allocationOf_def split_beta)
  qed
  have "lotId ` set (lots st) \<subseteq> newLotId p ` seen"
    "lid \<notin> newLotId p ` seen \<Longrightarrow> allocs_of (disposals st) lid = []" for lid
    using led unfolding ledger_ok_def ids_within_def by blast+
  with lots fresh have "ids_within p seen (applyPlan st e q p plan shares)"
    unfolding ids_within_def d(1) allocs_of_append append_is_Nil_conv by blast
  then show ?thesis
    using led after all d by (simp add: ledger_ok_def seeded_def ids_within_def)
qed

lemma applyDisposal_ledger:
  assumes led: "ledger_ok p seen st" and entry: "entry_ok p e" "kind (entryInput e) = Disposal"
    and q: "exactValue (quantity (entryInput e)) = Some q" "0 < dec_value q"
  shows "ledger_ok p seen ((applyDisposal st e q p)\<lparr>history := True\<rparr>)"
proof -
  have ok: "book_ok p st" using led by (simp add: ledger_ok_def)
  have fail: "ledger_ok p seen ((failDisposal st e p r)\<lparr>history := True\<rparr>)" for r
    using led by (simp add: failDisposal_def ledger_ok_marks)
  show ?thesis
  proof (cases "planDisposal st e q p")
    case (Inr plan)
    then show ?thesis
      using fail applyPlan_ledger [OF led _ _ q] planDisposal_fits [OF ok entry q(2) Inr]
      by (auto simp: applyDisposal_def split: option.split)
  qed (simp add: applyDisposal_def fail)
qed

lemma applyEntry_ledger:
  assumes led: "ledger_ok p seen st" and entry: "entry_ok p e" "entryRef e \<notin> seen"
    and run: "applyEntry st e p = Some st'"
  shows "ledger_ok p (insert (entryRef e) seen) st'"
proof (cases "indeterminate st \<noteq> None \<or> exactValue (quantity (entryInput e)) = None")
  case True
  then show ?thesis using run ledger_ok_seen [OF led]
    by (auto simp: applyEntry_def Let_def ledger_ok_marks split: if_splits)
next
  case False
  then obtain q where q: "exactValue (quantity (entryInput e)) = Some q" by auto
  note qs = entry_quantity [OF entry(1) q]
  have rules: "inputRulesHold (entryInput e) p" using entry(1) by (simp add: entry_ok_def)
  show ?thesis
  proof (cases "kind (entryInput e)")
    case Acquisition
    then show ?thesis using run False q qs applyAcquisition_ledger [OF led entry(2) rules]
      by (auto simp: applyEntry_def Let_def)
  next
    case Disposal
    then show ?thesis using run False q qs ledger_ok_seen [OF applyDisposal_ledger [OF led entry(1) Disposal q]]
      by (auto simp: applyEntry_def Let_def)
  next
    case Split
    then show ?thesis
      using run False q ledger_ok_seen [OF applySplit_ledger [OF led ratio_positive [OF entry(1) Split]]]
      by (auto simp: applyEntry_def Let_def)
  next
    case Snapshot
    then show ?thesis using run False q qs applySnapshot_ledger [OF led entry(2)]
      by (auto simp: applyEntry_def Let_def)
  next
    case Transfer
    then show ?thesis using run False q by (auto simp: applyEntry_def Let_def)
  qed
qed

end
