(* ===== verification/Lot_Runs.thy ===== *)
theory Lot_Runs
  imports Lot_Conservation
begin

text \<open>
  Runs of the lot engine over several inputs (\<open>packages/domain/src/lots.ts\<close>): a run over inputs that
  are not transfers always returns, keeps the ledger, records exactly one disposal per disposal
  input, stays indeterminate once it is, and does not read the disposals recorded before it, which
  is why a trial on a copy with no disposals can be adopted.
\<close>

section \<open>The recorded disposals are only appended to\<close>

definition after_records :: "LotDisposal list \<Rightarrow> BookState \<Rightarrow> BookState" where
  "after_records ds st = st\<lparr>disposals := ds @ disposals st\<rparr>"

lemma after_records_simps [simp]:
  "lots (after_records ds st) = lots st" "index (after_records ds st) = index st"
  "firstOpen (after_records ds st) = firstOpen st" "held (after_records ds st) = held st"
  "closedPools (after_records ds st) = closedPools st" "history (after_records ds st) = history st"
  "indeterminate (after_records ds st) = indeterminate st"
  "disposals (after_records ds st) = ds @ disposals st"
  by (simp_all add: after_records_def)

lemma after_records_ops:
  "pushDisposal (after_records ds st) d = after_records ds (pushDisposal st d)"
  "markIndeterminate (after_records ds st) refs r = after_records ds (markIndeterminate st refs r)"
  "failDisposal (after_records ds st) e p r = after_records ds (failDisposal st e p r)"
  "addLot (after_records ds st) l = after_records ds (addLot st l)"
  "(after_records ds st)\<lparr>history := True\<rparr> = after_records ds (st\<lparr>history := True\<rparr>)"
  by (simp_all add: pushDisposal_def after_records_def markIndeterminate_def failDisposal_def addLot_def)

lemma applyPlan_after:
  "applyPlan (after_records ds st) e q p plan shares = after_records ds (applyPlan st e q p plan shares)"
  unfolding applyPlan_def Let_def after_records_ops(1) [symmetric] after_records_simps
  by (rule arg_cong2 [of _ _ _ _ pushDisposal])
    (simp_all add: closePool_def after_records_def split: list.split)

lemma applyDisposal_after:
  "applyDisposal (after_records ds st) e q p = after_records ds (applyDisposal st e q p)"
proof -
  have "planDisposal (after_records ds st) e q p = planDisposal st e q p"
    unfolding planDisposal_def planSelected_def after_records_simps ..
  then show ?thesis
    by (simp add: applyDisposal_def after_records_ops applyPlan_after split: sum.split option.split)
qed

lemma applyEntry_after:
  "applyEntry (after_records ds st) e p = map_option (after_records ds) (applyEntry st e p)"
proof -
  have "applyAcquisition (after_records ds st) e q p = after_records ds (applyAcquisition st e q p)" for q
    unfolding applyAcquisition_def Let_def after_records_simps after_records_ops
    by (auto simp: after_records_def)
  moreover have "applySnapshot (after_records ds st) e q p = after_records ds (applySnapshot st e q p)" for q
    unfolding applySnapshot_def after_records_simps after_records_ops by simp
  moreover have "applySplit (after_records ds st) e q = after_records ds (applySplit st e q)" for q
    unfolding applySplit_def Let_def after_records_simps after_records_ops
    by (simp add: after_records_def split: option.split)
  ultimately show ?thesis
    by (simp add: applyEntry_def Let_def applyDisposal_after after_records_ops
        split: option.split LotInputKind.split)
qed

lemma applyEntries_after:
  "applyEntries (after_records ds st) es p = map_option (after_records ds) (applyEntries st es p)"
  by (induction es arbitrary: st) (simp_all add: applyEntry_after split: option.split)

text \<open>A trial on a copy without disposals, put back behind the recorded ones, is the run itself.\<close>

lemma trial_is_run:
  assumes "applyEntries (trialState st) es p = Some trial"
  shows "applyEntries st es p = Some (trial\<lparr>disposals := disposals st @ disposals trial\<rparr>)"
proof -
  have "after_records (disposals st) (trialState st) = st" by (simp add: after_records_def trialState_def)
  then show ?thesis
    using applyEntries_after [of "disposals st" "trialState st" es p] assms
    by (simp add: after_records_def)
qed

lemma applyEntries_append:
  "applyEntries st (es @ fs) p = Option.bind (applyEntries st es p) (\<lambda>st'. applyEntries st' fs p)"
  by (induction es arbitrary: st) (simp_all split: option.split)

section \<open>A run returns and keeps the ledger\<close>

lemma applyEntry_total: "kind (entryInput e) \<noteq> Transfer \<Longrightarrow> \<exists>st'. applyEntry st e p = Some st'"
  by (cases "kind (entryInput e)") (auto simp: applyEntry_def Let_def split: option.split)

lemma applyEntries_total:
  "\<forall>e\<in>set es. kind (entryInput e) \<noteq> Transfer \<Longrightarrow> \<exists>st'. applyEntries st es p = Some st'"
proof (induction es arbitrary: st)
  case (Cons e es)
  then obtain st' where "applyEntry st e p = Some st'" using applyEntry_total by (metis list.set_intros(1))
  with Cons show ?case by simp
qed simp

lemma applyEntries_ledger:
  assumes "ledger_ok p seen st" and "\<forall>e\<in>set es. entry_ok p e"
    and "distinct (map entryRef es)" and "seen \<inter> entryRef ` set es = {}"
    and "applyEntries st es p = Some st'"
  shows "ledger_ok p (seen \<union> entryRef ` set es) st'"
  using assms
proof (induction es arbitrary: seen st)
  case (Cons e es)
  then obtain st1 where st1: "applyEntry st e p = Some st1" and run: "applyEntries st1 es p = Some st'"
    by (auto split: option.splits)
  have "ledger_ok p (insert (entryRef e) seen) st1"
    using Cons.prems by (intro applyEntry_ledger [OF _ _ _ st1]) auto
  then have "ledger_ok p (insert (entryRef e) seen \<union> entryRef ` set es) st'"
    using Cons.prems(2-4) run by (intro Cons.IH) auto
  then show ?case by simp
qed simp

section \<open>One record per disposal input\<close>

definition is_disposal :: "Entry \<Rightarrow> bool" where
  "is_disposal e \<longleftrightarrow> kind (entryInput e) = Disposal"

definition records :: "LotDisposal list \<Rightarrow> string list" where
  "records ds = map disposalRef ds"

lemma indeterminateDisposal_ref [simp]: "disposalRef (indeterminateDisposal e p r) = entryRef e"
  by (simp add: indeterminateDisposal_def disposalRecord_def)

lemma applyPlan_ref: "\<exists>d. disposals (applyPlan st e q p plan shares) = disposals st @ [d] \<and> disposalRef d = entryRef e"
  by (simp add: applyPlan_def Let_def pushDisposal_def closePool_def disposalRecord_def split: list.split)

lemma markIndeterminate_disposals [simp]: "disposals (markIndeterminate st refs r) = disposals st"
  by (simp add: markIndeterminate_def)

lemma applyEntry_records:
  assumes "applyEntry st e p = Some st'"
  shows "records (disposals st') = records (disposals st) @ (if is_disposal e then [entryRef e] else [])"
proof -
  have "records (disposals (applyDisposal st e q p)) = records (disposals st) @ [entryRef e]" for q
  proof -
    have "records (disposals (applyPlan st e q p plan shares)) = records (disposals st) @ [entryRef e]"
      for plan shares
      using applyPlan_ref [of st e q p plan shares] by (auto simp: records_def)
    then show ?thesis
      by (simp add: applyDisposal_def failDisposal_def pushDisposal_def records_def
          split: sum.split option.split)
  qed
  moreover have "disposals (applyAcquisition st e q p) = disposals st" for q
    by (simp add: applyAcquisition_def Let_def addLot_def)
  moreover have "disposals (applySplit st e q) = disposals st" for q
    by (simp add: applySplit_def Let_def split: option.split)
  moreover have "disposals (applySnapshot st e q p) = disposals st" for q
    by (simp add: applySnapshot_def addLot_def)
  ultimately show ?thesis
    using assms
    by (auto simp: applyEntry_def Let_def is_disposal_def pushDisposal_def records_def
        split: if_splits option.splits LotInputKind.splits)
qed

lemma applyEntries_records:
  "applyEntries st es p = Some st' \<Longrightarrow>
   records (disposals st') = records (disposals st) @ map entryRef (filter is_disposal es)"
  by (induction es arbitrary: st) (auto split: option.splits dest: applyEntry_records)

section \<open>Indeterminacy is final\<close>

lemma applyEntry_stopped:
  assumes "indeterminate st = Some stop"
  shows "applyEntry st e p = Some (if is_disposal e
    then pushDisposal st (indeterminateDisposal e p R_upstream_indeterminate) else st)"
  using assms by (simp add: applyEntry_def is_disposal_def Let_def)

lemma applyEntries_stopped:
  assumes "indeterminate st = Some stop"
  shows "applyEntries st es p = Some (st\<lparr>disposals := disposals st @
    map (\<lambda>e. indeterminateDisposal e p R_upstream_indeterminate) (filter is_disposal es)\<rparr>)"
  using assms
  by (induction es arbitrary: st) (simp_all add: applyEntry_stopped pushDisposal_def)

end
