(* ===== verification/Lot_Order.thy ===== *)
theory Lot_Order
  imports Lot_Book "HOL-Library.Product_Lexorder"
begin

text \<open>
  The ordering of a book's inputs (\<open>packages/domain/src/lots.ts\<close>): where a time sits on one line
  (\<open>timeSpan\<close>), the layout order (\<open>compareLaidOut\<close>) and the cutting of the laid-out inputs into groups
  (\<open>timeGroups\<close>). The groups are cut by running extremes; they are proved to be the groups of the
  quadratic reading, where a cut is allowed when every earlier input is before every later one, and
  that relation is proved to be \<open>compareTemporal\<close>'s.
\<close>

section \<open>Layout\<close>

record TimeSpan =
  spanLo :: int
  spanLoNanos :: int
  spanHi :: int
  spanEpoch :: int
  spanNanos :: int
  spanDay :: int
  spanEndDay :: int

record LaidOut =
  laidEntry :: Entry
  laidSpan :: TimeSpan

definition DAY_SECONDS :: int where
  "DAY_SECONDS = 86400"

text \<open>The expression \<open>OFFSET\<close> reads the end of a validated instant text.\<close>

definition offsetSeconds :: "string \<Rightarrow> int" where
  "offsetSeconds s =
     (if drop (length s - 1) s = ''Z'' then 0
      else
        let t = drop (length s - 6) s;
            hours = int (digits_value (take 2 (drop 1 t)));
            minutes = int (digits_value (take 2 (drop 4 t)));
            seconds = hours * 3600 + minutes * 60
        in if hd t = CHR ''-'' then - seconds else seconds)"

fun timeSpan :: "TemporalValue \<Rightarrow> bool \<Rightarrow> TimeSpan" where
  "timeSpan (Instant v zone basis) wallTime =
     (let parsed = the (parseInstant v);
          d = (epochSeconds parsed + offsetSeconds v) div DAY_SECONDS;
          pos = (if wallTime then d * DAY_SECONDS else epochSeconds parsed)
      in \<lparr>spanLo = pos, spanLoNanos = 0, spanHi = pos, spanEpoch = epochSeconds parsed,
          spanNanos = nanoseconds parsed, spanDay = d, spanEndDay = d + 1\<rparr>)"
| "timeSpan (LocalDate v zone basis) wallTime =
     (let d = daysFromCivil (the (parseLocalDate v))
      in \<lparr>spanLo = d * DAY_SECONDS, spanLoNanos = 0, spanHi = (d + 1) * DAY_SECONDS, spanEpoch = 0,
          spanNanos = 0, spanDay = d, spanEndDay = d + 1\<rparr>)"
| "timeSpan (Period p) wallTime =
     (let (start, endEx) = the (periodBounds p);
          d = daysFromCivil start; endDay = daysFromCivil endEx
      in \<lparr>spanLo = d * DAY_SECONDS, spanLoNanos = 0, spanHi = endDay * DAY_SECONDS, spanEpoch = 0,
          spanNanos = 0, spanDay = d, spanEndDay = endDay\<rparr>)"
| "timeSpan (UnknownTime reason) wallTime =
     \<lparr>spanLo = 0, spanLoNanos = 0, spanHi = 0, spanEpoch = 0, spanNanos = 0, spanDay = 0,
      spanEndDay = 0\<rparr>"

definition compareLaidOut :: "LaidOut \<Rightarrow> LaidOut \<Rightarrow> int" where
  "compareLaidOut a b =
     (let x = laidSpan a; y = laidSpan b
      in or_else (spanLo x - spanLo y)
        (or_else (spanLoNanos x - spanLoNanos y)
        (or_else (spanEpoch x - spanEpoch y)
        (or_else (spanNanos x - spanNanos y)
        (or_else (spanHi x - spanHi y)
          (compareText (entryRef (laidEntry a)) (entryRef (laidEntry b))))))))"

section \<open>Groups\<close>

fun is_instant :: "TemporalValue \<Rightarrow> bool" where
  "is_instant (Instant _ _ _) = True"
| "is_instant _ = False"

text \<open>
  The running extremes. A field that is still infinite is \<open>None\<close>: plus infinity in a suffix, minus
  infinity in a prefix.
\<close>

record TimeBounds =
  boundEpoch :: "int option"
  boundNanos :: "int option"
  boundInstantDay :: "int option"
  boundCivilDay :: "int option"

definition unbounded :: TimeBounds where
  "unbounded = \<lparr>boundEpoch = None, boundNanos = None, boundInstantDay = None, boundCivilDay = None\<rparr>"

definition beyond :: "(int \<Rightarrow> int \<Rightarrow> bool) \<Rightarrow> int \<Rightarrow> int option \<Rightarrow> bool" where
  "beyond rel x b = (case b of None \<Rightarrow> True | Some y \<Rightarrow> rel x y)"

definition extreme :: "(int \<Rightarrow> int \<Rightarrow> int) \<Rightarrow> int option \<Rightarrow> int \<Rightarrow> int option" where
  "extreme pick b x = (case b of None \<Rightarrow> Some x | Some y \<Rightarrow> Some (pick y x))"

definition earlier :: "LaidOut \<Rightarrow> TimeBounds \<Rightarrow> TimeBounds" where
  "earlier x b =
     (let s = laidSpan x
      in if is_instant (entryTime (laidEntry x)) then
           (let b' = (if beyond (<) (spanEpoch s) (boundEpoch b) \<or>
                         (boundEpoch b = Some (spanEpoch s) \<and> beyond (<) (spanNanos s) (boundNanos b))
                      then b\<lparr>boundEpoch := Some (spanEpoch s), boundNanos := Some (spanNanos s)\<rparr>
                      else b)
            in b'\<lparr>boundInstantDay := extreme min (boundInstantDay b') (spanDay s)\<rparr>)
         else b\<lparr>boundCivilDay := extreme min (boundCivilDay b) (spanDay s)\<rparr>)"

definition later :: "LaidOut \<Rightarrow> TimeBounds \<Rightarrow> TimeBounds" where
  "later x b =
     (let s = laidSpan x
      in if is_instant (entryTime (laidEntry x)) then
           (let b' = (if beyond (>) (spanEpoch s) (boundEpoch b) \<or>
                         (boundEpoch b = Some (spanEpoch s) \<and> beyond (>) (spanNanos s) (boundNanos b))
                      then b\<lparr>boundEpoch := Some (spanEpoch s), boundNanos := Some (spanNanos s)\<rparr>
                      else b)
            in b'\<lparr>boundInstantDay := extreme max (boundInstantDay b') (spanDay s)\<rparr>)
         else b\<lparr>boundCivilDay := extreme max (boundCivilDay b) (spanEndDay s)\<rparr>)"

text \<open>Comparisons of a prefix bound with a suffix bound.\<close>

definition bound_rel :: "(int \<Rightarrow> int \<Rightarrow> bool) \<Rightarrow> int option \<Rightarrow> int option \<Rightarrow> bool" where
  "bound_rel rel a b = (case a of None \<Rightarrow> True | Some x \<Rightarrow> (case b of None \<Rightarrow> True | Some y \<Rightarrow> rel x y))"

definition cut_allowed :: "TimeBounds \<Rightarrow> TimeBounds \<Rightarrow> bool" where
  "cut_allowed latest nxt \<longleftrightarrow>
     (bound_rel (<) (boundEpoch latest) (boundEpoch nxt) \<or>
      (boundEpoch latest \<noteq> None \<and> boundEpoch latest = boundEpoch nxt \<and>
       bound_rel (<) (boundNanos latest) (boundNanos nxt))) \<and>
     bound_rel (<) (boundInstantDay latest) (boundCivilDay nxt) \<and>
     bound_rel (\<le>) (boundCivilDay latest) (boundInstantDay nxt) \<and>
     bound_rel (\<le>) (boundCivilDay latest) (boundCivilDay nxt)"

text \<open>The array \<open>after\<close> without its first element: the bounds of what follows each position.\<close>

fun suffix_bounds :: "LaidOut list \<Rightarrow> TimeBounds list" where
  "suffix_bounds [] = [unbounded]"
| "suffix_bounds (x # xs) = (let rest = suffix_bounds xs in earlier x (hd rest) # rest)"

fun cut_groups :: "TimeBounds \<Rightarrow> LaidOut list \<Rightarrow> LaidOut list \<Rightarrow> TimeBounds list \<Rightarrow> LaidOut list list" where
  "cut_groups latest pending [] afters = []"
| "cut_groups latest pending (x # xs) afters =
     (let latest' = later x latest
      in if cut_allowed latest' (hd afters)
         then (pending @ [x]) # cut_groups latest' [] xs (tl afters)
         else cut_groups latest' (pending @ [x]) xs (tl afters))"

definition timeGroups :: "LaidOut list \<Rightarrow> LaidOut list list" where
  "timeGroups ordered = cut_groups unbounded [] ordered (tl (suffix_bounds ordered))"

definition civil_zone :: "TemporalValue \<Rightarrow> string list" where
  "civil_zone t =
     (case t of
        LocalDate _ (Some z) _ \<Rightarrow> if z = [] then [] else [z]
      | Period p \<Rightarrow> (case periodZone p of Some z \<Rightarrow> if z = [] then [] else [z] | None \<Rightarrow> [])
      | _ \<Rightarrow> [])"

definition zonesConflict :: "Entry list \<Rightarrow> bool" where
  "zonesConflict entries =
     (case js_set (concat (map (\<lambda>e. civil_zone (entryTime e)) entries)) of
        [] \<Rightarrow> False
      | [zone] \<Rightarrow>
          list_ex (\<lambda>e. case entryTime e of Instant _ z _ \<Rightarrow> z \<noteq> zone | _ \<Rightarrow> False) entries
      | _ \<Rightarrow> True)"

section \<open>The layout order\<close>

definition layout_key :: "LaidOut \<Rightarrow> int \<times> int \<times> int \<times> int \<times> int \<times> string" where
  "layout_key x =
     (spanLo (laidSpan x), spanLoNanos (laidSpan x), spanEpoch (laidSpan x), spanNanos (laidSpan x),
      spanHi (laidSpan x), entryRef (laidEntry x))"

lemma compareLaidOut_le: "compareLaidOut a b \<le> 0 \<longleftrightarrow> layout_key a \<le> layout_key b"
  by (auto simp: compareLaidOut_def or_else_def layout_key_def Let_def less_eq_prod_def)

interpretation layout: comparator compareLaidOut
proof
  show "0 < compareLaidOut x y \<Longrightarrow> compareLaidOut y x \<le> 0" for x y
    by (metis compareLaidOut_le linorder_le_cases not_le)
  show "compareLaidOut x y \<le> 0 \<Longrightarrow> compareLaidOut y z \<le> 0 \<Longrightarrow> compareLaidOut x z \<le> 0" for x y z
    unfolding compareLaidOut_le by (rule order.trans)
qed

section \<open>The quadratic reading of the groups\<close>

definition span_before :: "LaidOut \<Rightarrow> LaidOut \<Rightarrow> bool" where
  "span_before a b \<longleftrightarrow>
     (let x = laidSpan a; y = laidSpan b;
          i = is_instant (entryTime (laidEntry a)); j = is_instant (entryTime (laidEntry b))
      in if i \<and> j then (spanEpoch x, spanNanos x) < (spanEpoch y, spanNanos y)
         else if i then spanDay x < spanDay y
         else spanEndDay x \<le> spanDay y)"

definition all_before :: "LaidOut list \<Rightarrow> LaidOut list \<Rightarrow> bool" where
  "all_before xs ys \<longleftrightarrow> (\<forall>x\<in>set xs. \<forall>y\<in>set ys. span_before x y)"

fun reference_groups :: "LaidOut list \<Rightarrow> LaidOut list \<Rightarrow> LaidOut list \<Rightarrow> LaidOut list list" where
  "reference_groups seen pending [] = []"
| "reference_groups seen pending (x # xs) =
     (if all_before (seen @ [x]) xs
      then (pending @ [x]) # reference_groups (seen @ [x]) [] xs
      else reference_groups (seen @ [x]) (pending @ [x]) xs)"

text \<open>An extreme of a set of values: none of an empty set.\<close>

definition extreme_of :: "('a \<Rightarrow> 'a \<Rightarrow> bool) \<Rightarrow> 'a set \<Rightarrow> 'a option \<Rightarrow> bool" where
  "extreme_of rel S m \<longleftrightarrow> (case m of None \<Rightarrow> S = {} | Some v \<Rightarrow> v \<in> S \<and> (\<forall>s\<in>S. rel v s))"

lemma extreme_of_rel:
  assumes "extreme_of (\<ge>) S a" and "extreme_of (\<le>) T b"
  shows "(case a of None \<Rightarrow> True | Some x \<Rightarrow> (case b of None \<Rightarrow> True | Some y \<Rightarrow> x < y)) \<longleftrightarrow>
      (\<forall>s\<in>S. \<forall>t\<in>T. s < (t :: 'a :: linorder))"
    and "(case a of None \<Rightarrow> True | Some x \<Rightarrow> (case b of None \<Rightarrow> True | Some y \<Rightarrow> x \<le> y)) \<longleftrightarrow>
      (\<forall>s\<in>S. \<forall>t\<in>T. s \<le> t)"
  using assms by (auto simp: extreme_of_def split: option.splits intro: order.strict_trans1
      order.strict_trans2 order.trans) (meson order.strict_trans1 order.strict_trans2 order.trans)+

definition instants :: "LaidOut list \<Rightarrow> LaidOut set" where
  "instants xs = {x \<in> set xs. is_instant (entryTime (laidEntry x))}"

definition civils :: "LaidOut list \<Rightarrow> LaidOut set" where
  "civils xs = {x \<in> set xs. \<not> is_instant (entryTime (laidEntry x))}"

definition point_of :: "LaidOut \<Rightarrow> int \<times> int" where
  "point_of x = (spanEpoch (laidSpan x), spanNanos (laidSpan x))"

definition bound_point :: "TimeBounds \<Rightarrow> (int \<times> int) option" where
  "bound_point b = (case boundEpoch b of None \<Rightarrow> None | Some e \<Rightarrow> Some (e, the (boundNanos b)))"

definition bounds_wf :: "TimeBounds \<Rightarrow> bool" where
  "bounds_wf b \<longleftrightarrow> (boundEpoch b = None \<longleftrightarrow> boundNanos b = None)"

definition prefix_ok :: "TimeBounds \<Rightarrow> LaidOut list \<Rightarrow> bool" where
  "prefix_ok b xs \<longleftrightarrow> bounds_wf b \<and>
     extreme_of (\<ge>) (point_of ` instants xs) (bound_point b) \<and>
     extreme_of (\<ge>) ((\<lambda>x. spanDay (laidSpan x)) ` instants xs) (boundInstantDay b) \<and>
     extreme_of (\<ge>) ((\<lambda>x. spanEndDay (laidSpan x)) ` civils xs) (boundCivilDay b)"

definition suffix_ok :: "TimeBounds \<Rightarrow> LaidOut list \<Rightarrow> bool" where
  "suffix_ok b xs \<longleftrightarrow> bounds_wf b \<and>
     extreme_of (\<le>) (point_of ` instants xs) (bound_point b) \<and>
     extreme_of (\<le>) ((\<lambda>x. spanDay (laidSpan x)) ` instants xs) (boundInstantDay b) \<and>
     extreme_of (\<le>) ((\<lambda>x. spanDay (laidSpan x)) ` civils xs) (boundCivilDay b)"

lemma extreme_of_insert:
  "extreme_of (\<ge>) S m \<Longrightarrow> extreme_of (\<ge>) (insert v S)
     (case m of None \<Rightarrow> Some v | Some y \<Rightarrow> Some (if y < v then v else (y :: 'a :: linorder)))"
  "extreme_of (\<le>) S m \<Longrightarrow> extreme_of (\<le>) (insert v S)
     (case m of None \<Rightarrow> Some v | Some y \<Rightarrow> Some (if v < y then v else (y :: 'a :: linorder)))"
  by (auto simp: extreme_of_def not_less split: option.splits intro: order.trans less_imp_le)

lemma instants_civils_simps [simp]:
  "instants [] = {}" "civils [] = {}"
  "instants (x # xs) = (if is_instant (entryTime (laidEntry x)) then insert x (instants xs) else instants xs)"
  "civils (x # xs) = (if is_instant (entryTime (laidEntry x)) then civils xs else insert x (civils xs))"
  "instants (xs @ [x]) = (if is_instant (entryTime (laidEntry x)) then insert x (instants xs) else instants xs)"
  "civils (xs @ [x]) = (if is_instant (entryTime (laidEntry x)) then civils xs else insert x (civils xs))"
  by (auto simp: instants_def civils_def)

lemma unbounded_ok [simp]: "prefix_ok unbounded []" "suffix_ok unbounded []"
  by (simp_all add: prefix_ok_def suffix_ok_def unbounded_def extreme_of_def bounds_wf_def bound_point_def)

lemma extreme_max: "extreme max m x = (case m of None \<Rightarrow> Some x | Some y \<Rightarrow> Some (if y < x then x else y))"
  and extreme_min: "extreme min m x = (case m of None \<Rightarrow> Some x | Some y \<Rightarrow> Some (if x < y then x else y))"
  by (auto simp: extreme_def max_def min_def split: option.split)

lemma later_point:
  assumes "bounds_wf b" and "is_instant (entryTime (laidEntry x))"
  shows "bound_point (later x b) =
      (case bound_point b of None \<Rightarrow> Some (point_of x)
       | Some y \<Rightarrow> Some (if y < point_of x then point_of x else y)) \<and> bounds_wf (later x b)"
  using assms by (cases "boundEpoch b"; cases "boundNanos b")
    (auto simp: later_def Let_def bound_point_def point_of_def beyond_def bounds_wf_def)

lemma earlier_point:
  assumes "bounds_wf b" and "is_instant (entryTime (laidEntry x))"
  shows "bound_point (earlier x b) =
      (case bound_point b of None \<Rightarrow> Some (point_of x)
       | Some y \<Rightarrow> Some (if point_of x < y then point_of x else y)) \<and> bounds_wf (earlier x b)"
  using assms by (cases "boundEpoch b"; cases "boundNanos b")
    (auto simp: earlier_def Let_def bound_point_def point_of_def beyond_def bounds_wf_def)

lemma later_ok:
  assumes "prefix_ok b xs"
  shows "prefix_ok (later x b) (xs @ [x])"
proof (cases "is_instant (entryTime (laidEntry x))")
  case True
  have days: "boundInstantDay (later x b) = extreme max (boundInstantDay b) (spanDay (laidSpan x))"
    "boundCivilDay (later x b) = boundCivilDay b"
    using True by (simp_all add: later_def Let_def)
  show ?thesis
    using assms True later_point [of b x]
    by (auto simp: prefix_ok_def days extreme_max intro: extreme_of_insert(1))
next
  case False
  have "later x b = b\<lparr>boundCivilDay := extreme max (boundCivilDay b) (spanEndDay (laidSpan x))\<rparr>"
    using False by (simp add: later_def Let_def)
  then show ?thesis
    using assms False
    by (auto simp: prefix_ok_def extreme_max bound_point_def bounds_wf_def intro: extreme_of_insert(1))
qed

lemma earlier_ok:
  assumes "suffix_ok b xs"
  shows "suffix_ok (earlier x b) (x # xs)"
proof (cases "is_instant (entryTime (laidEntry x))")
  case True
  have days: "boundInstantDay (earlier x b) = extreme min (boundInstantDay b) (spanDay (laidSpan x))"
    "boundCivilDay (earlier x b) = boundCivilDay b"
    using True by (simp_all add: earlier_def Let_def)
  show ?thesis
    using assms True earlier_point [of b x]
    by (auto simp: suffix_ok_def days extreme_min intro: extreme_of_insert(2))
next
  case False
  have "earlier x b = b\<lparr>boundCivilDay := extreme min (boundCivilDay b) (spanDay (laidSpan x))\<rparr>"
    using False by (simp add: earlier_def Let_def)
  then show ?thesis
    using assms False
    by (auto simp: suffix_ok_def extreme_min bound_point_def bounds_wf_def intro: extreme_of_insert(2))
qed

lemma cut_allowed_iff:
  assumes "prefix_ok b xs" and "suffix_ok c ys"
  shows "cut_allowed b c \<longleftrightarrow> all_before xs ys"
proof -
  have point: "(bound_rel (<) (boundEpoch b) (boundEpoch c) \<or>
      (boundEpoch b \<noteq> None \<and> boundEpoch b = boundEpoch c \<and>
       bound_rel (<) (boundNanos b) (boundNanos c))) \<longleftrightarrow>
      (case bound_point b of None \<Rightarrow> True | Some p \<Rightarrow>
        (case bound_point c of None \<Rightarrow> True | Some q \<Rightarrow> p < q))"
    using assms by (auto simp: bound_rel_def bound_point_def prefix_ok_def suffix_ok_def bounds_wf_def
        split: option.splits)
  have "cut_allowed b c \<longleftrightarrow>
      (\<forall>s\<in>point_of ` instants xs. \<forall>t\<in>point_of ` instants ys. s < t) \<and>
      (\<forall>s\<in>(\<lambda>x. spanDay (laidSpan x)) ` instants xs. \<forall>t\<in>(\<lambda>x. spanDay (laidSpan x)) ` civils ys. s < t) \<and>
      (\<forall>s\<in>(\<lambda>x. spanEndDay (laidSpan x)) ` civils xs. \<forall>t\<in>(\<lambda>x. spanDay (laidSpan x)) ` instants ys. s \<le> t) \<and>
      (\<forall>s\<in>(\<lambda>x. spanEndDay (laidSpan x)) ` civils xs. \<forall>t\<in>(\<lambda>x. spanDay (laidSpan x)) ` civils ys. s \<le> t)"
    unfolding cut_allowed_def point
    unfolding bound_rel_def using assms
    by (intro arg_cong2 [where f = "(\<and>)"] extreme_of_rel) (simp_all add: prefix_ok_def suffix_ok_def)
  also have "\<dots> \<longleftrightarrow> all_before xs ys"
    by (auto simp: all_before_def span_before_def Let_def instants_def civils_def point_of_def) metis
  finally show ?thesis .
qed

lemma suffix_bounds_ok: "suffix_ok (hd (suffix_bounds xs)) xs"
  by (induction xs) (simp_all add: Let_def earlier_ok)

lemma tl_suffix_bounds: "tl (suffix_bounds (x # xs)) = suffix_bounds xs"
  by (simp add: Let_def)

lemma cut_groups_reference:
  "prefix_ok latest seen \<Longrightarrow>
   cut_groups latest pending xs (tl (suffix_bounds xs)) = reference_groups seen pending xs"
proof (induction xs arbitrary: latest seen pending)
  case (Cons x xs)
  have "cut_allowed (later x latest) (hd (suffix_bounds xs)) \<longleftrightarrow> all_before (seen @ [x]) xs"
    using later_ok [OF Cons.prems] suffix_bounds_ok by (rule cut_allowed_iff)
  with Cons.IH [OF later_ok [OF Cons.prems]] show ?case
    by (simp add: tl_suffix_bounds Let_def del: suffix_bounds.simps)
qed simp

lemma timeGroups_reference: "timeGroups ordered = reference_groups [] [] ordered"
  unfolding timeGroups_def by (rule cut_groups_reference) simp

section \<open>What the groups are\<close>

lemma all_before_Nil [simp]: "all_before xs []" "all_before [] ys"
  by (simp_all add: all_before_def)

lemma all_before_append [simp]:
  "all_before (us @ vs) ys \<longleftrightarrow> all_before us ys \<and> all_before vs ys"
  "all_before xs (us @ vs) \<longleftrightarrow> all_before xs us \<and> all_before xs vs"
  by (auto simp: all_before_def)

lemma reference_groups_concat:
  "xs \<noteq> [] \<or> pending = [] \<Longrightarrow> concat (reference_groups seen pending xs) = pending @ xs"
proof (induction seen pending xs rule: reference_groups.induct)
  case (2 seen pending x xs)
  then show ?case by (cases xs) auto
qed simp

lemma reference_groups_nonempty: "[] \<notin> set (reference_groups seen pending xs)"
  by (induction seen pending xs rule: reference_groups.induct) auto

lemma reference_groups_members: "g \<in> set (reference_groups seen pending xs) \<Longrightarrow> set g \<subseteq> set pending \<union> set xs"
  by (induction seen pending xs rule: reference_groups.induct) (fastforce split: if_splits)+

lemma reference_groups_sound:
  "set pending \<subseteq> set seen \<Longrightarrow> sorted_wrt all_before (reference_groups seen pending xs)"
proof (induction seen pending xs rule: reference_groups.induct)
  case (2 seen pending x xs)
  show ?case
  proof (cases "all_before (seen @ [x]) xs")
    case True
    have "all_before (pending @ [x]) g" if "g \<in> set (reference_groups (seen @ [x]) [] xs)" for g
      using that True "2.prems" reference_groups_members [OF that] by (fastforce simp: all_before_def)
    then show ?thesis using True "2.IH"(1) by simp
  next
    case False
    then show ?thesis using "2.IH"(2) "2.prems" by auto
  qed
qed simp

lemma snoc_split:
  assumes "xs @ [x] = u @ v" and "v \<noteq> []"
  obtains w where "v = w @ [x]" and "xs = u @ w"
  using assms by (cases v rule: rev_cases) auto

lemma reference_groups_finest:
  assumes "seen = before @ pending" and "all_before before (pending @ xs)"
    and "\<And>u v. pending = u @ v \<Longrightarrow> u \<noteq> [] \<Longrightarrow> \<not> all_before u (v @ xs)"
    and "g \<in> set (reference_groups seen pending xs)" and "g = u @ v" and "u \<noteq> []" and "v \<noteq> []"
  shows "\<not> all_before u v"
  using assms
proof (induction seen pending xs arbitrary: before rule: reference_groups.induct)
  case (2 seen pending x xs)
  show ?case
  proof (cases "all_before (seen @ [x]) xs")
    case True
    have "g = pending @ [x] \<or> g \<in> set (reference_groups (seen @ [x]) [] xs)"
      using "2.prems"(4) True by simp
    then show ?thesis
    proof
      assume "g = pending @ [x]"
      then have uv: "pending @ [x] = u @ v" using "2.prems"(5) by simp
      obtain w where w: "v = w @ [x]" "pending = u @ w" by (rule snoc_split [OF uv "2.prems"(7)])
      have "\<not> all_before u (w @ x # xs)" using "2.prems"(3,6) w(2) by blast
      moreover have "all_before u xs" using True "2.prems"(1) w(2) by simp
      ultimately show ?thesis using w(1) by (simp add: all_before_def) blast
    next
      assume "g \<in> set (reference_groups (seen @ [x]) [] xs)"
      moreover have "all_before (seen @ [x]) ([] @ xs)" using True by simp
      moreover have "\<not> all_before u' (v' @ xs)" if "[] = u' @ v'" "u' \<noteq> []" for u' v' using that by simp
      ultimately show ?thesis
        using "2.IH"(1) [OF True, of "seen @ [x]"] "2.prems"(5-7) unfolding append_Nil2 by blast
    qed
  next
    case False
    have cut: "\<not> all_before u' (v' @ xs)" if uv: "pending @ [x] = u' @ v'" "u' \<noteq> []" for u' v'
    proof (cases "v' = []")
      case True
      then show ?thesis using False "2.prems"(1,2) uv(1) by (auto simp: all_before_def)
    next
      case nonempty: False
      obtain w where "v' = w @ [x]" "pending = u' @ w" by (rule snoc_split [OF uv(1) nonempty])
      then show ?thesis using "2.prems"(3) [of u' w] uv(2) by simp
    qed
    have "all_before before ((pending @ [x]) @ xs)" using "2.prems"(2) by simp
    moreover have "seen @ [x] = before @ (pending @ [x])" using "2.prems"(1) by simp
    moreover have "g \<in> set (reference_groups (seen @ [x]) (pending @ [x]) xs)"
      using "2.prems"(4) False by (simp only: reference_groups.simps if_False)
    ultimately show ?thesis
      using "2.IH"(2) [OF False, of before] cut "2.prems"(5-7) by blast
  qed
qed simp

section \<open>The groups and the semantic comparison\<close>

lemma digit_field_length: "digit_field n s = Some (v, r) \<Longrightarrow> \<exists>ds. s = ds @ r \<and> length ds = n \<and> list_all is_digit ds \<and> v = int (digits_value ds)"
  by (intro exI [of _ "take n s"]) (auto simp: digit_field_def split: if_splits)

lemma fraction_field_suffix: "fraction_field s = Some (f, r) \<Longrightarrow> \<exists>h. s = h @ r"
proof -
  assume f: "fraction_field s = Some (f, r)"
  show ?thesis
  proof (cases s)
    case (Cons c t)
    then have "r = s \<or> r = dropWhile is_digit t"
      using f by (auto simp: fraction_field_def Let_def split: if_splits)
    moreover have "s = [] @ s" "s = (c # takeWhile is_digit t) @ dropWhile is_digit t"
      using Cons by simp_all
    ultimately show ?thesis by blast
  qed (use f in \<open>simp add: fraction_field_def\<close>)
qed

lemma offsetSeconds_field:
  assumes "offset_field r = Some (sign, h, m)"
  shows "offsetSeconds (pre @ r) = sign * (h * 3600 + m * 60)"
proof -
  obtain c t where r: "r = c # t" using assms by (cases r) (auto simp: offset_field_def)
  show ?thesis
  proof (cases "c = CHR ''Z''")
    case True
    then show ?thesis using assms r by (auto simp: offset_field_def offsetSeconds_def split: if_splits)
  next
    case False
    then obtain s1 s2 s3 where f: "digit_field 2 t = Some (h, s1)" "s1 = CHR '':'' # s2"
        "digit_field 2 s2 = Some (m, s3)" "s3 = []"
        and c: "c = CHR ''+'' \<or> c = CHR ''-''" and sign: "sign = (if c = CHR ''-'' then - 1 else 1)"
      using assms r by (auto simp: offset_field_def bind_eq_Some_conv literal_Some split: if_splits)
    obtain ds es where ds: "t = ds @ s1" "length ds = 2" "h = int (digits_value ds)"
      and es: "s2 = es @ s3" "length es = 2" "list_all is_digit es" "m = int (digits_value es)"
      using digit_field_length [OF f(1)] digit_field_length [OF f(3)] by blast
    obtain d0 d1 e0 e1 where dig: "ds = [d0, d1]" "es = [e0, e1]"
      using ds(2) es(2) by (auto simp: length_Suc_conv numeral_2_eq_2)
    have all: "r = [c, d0, d1, CHR '':'', e0, e1]" using r ds(1) es(1) f(2,4) dig by simp
    have "e1 \<noteq> CHR ''Z''" using es(3) dig by (auto simp: is_digit_def)
    then show ?thesis using c ds(3) es(4) dig sign by (auto simp: offsetSeconds_def all Let_def)
  qed
qed

text \<open>An instant's own calendar day, read from its epoch and its offset.\<close>

lemma instant_day:
  assumes "parseInstant s = Some p"
  shows "(epochSeconds p + offsetSeconds s) div DAY_SECONDS =
    daysFromCivil (the (parseLocalDate (instantLocalDate p)))"
proof -
  obtain y m d s1 s2 hour s3 s4 minute s5 s6 sec s7 f s8 sign oh om date where
    chain: "date_fields s = Some (y, m, d, s1)" "literal (CHR ''T'') s1 = Some s2"
      "digit_field 2 s2 = Some (hour, s3)" "literal (CHR '':'') s3 = Some s4"
      "digit_field 2 s4 = Some (minute, s5)" "literal (CHR '':'') s5 = Some s6"
      "digit_field 2 s6 = Some (sec, s7)" "fraction_field s7 = Some (f, s8)"
      "offset_field s8 = Some (sign, oh, om)" "civil y m d = Some date"
      and bounds: "hour \<le> 23" "minute \<le> 59" "sec \<le> 59"
      and p: "p = \<lparr>epochSeconds = daysFromCivil date * 86400 + hour * 3600 + minute * 60 + sec -
          sign * (oh * 3600 + om * 60), nanoseconds = int (digits_value (padEnd 9 (CHR ''0'') f)),
          instantLocalDate = formatLocalDate date\<rparr>"
    using assms unfolding parseInstant_def
    by (auto simp: bind_eq_Some_conv Let_def not_less simp del: civil_Some split: if_splits)
  obtain pre where "s = pre @ s8"
    using date_fields_Some [OF chain(1)] chain(2,4,6) digit_field_length [OF chain(3)]
      digit_field_length [OF chain(5)] digit_field_length [OF chain(7)] fraction_field_suffix [OF chain(8)]
    unfolding literal_Some by (metis append.assoc append_Cons)
  then have offset: "offsetSeconds s = sign * (oh * 3600 + om * 60)"
    using offsetSeconds_field [OF chain(9)] by simp
  have date: "validCivil date" "date = \<lparr>year = y, month = m, day = d\<rparr>" using chain(10) by auto
  have "parseLocalDate (instantLocalDate p) = Some date"
    using parse_format_date [of date] date_fields_Some [OF chain(1)] date by (simp add: p)
  moreover have "0 \<le> hour" "0 \<le> minute" "0 \<le> sec"
    using digit_field_Some [OF chain(3)] digit_field_Some [OF chain(5)] digit_field_Some [OF chain(7)]
    by simp_all
  ultimately show ?thesis
    using bounds by (simp add: p offset DAY_SECONDS_def)
qed

definition layOut :: "bool \<Rightarrow> Entry \<Rightarrow> LaidOut" where
  "layOut wallTime e = \<lparr>laidEntry = e, laidSpan = timeSpan (entryTime e) wallTime\<rparr>"

lemma layOut_simps [simp]:
  "laidEntry (layOut w e) = e" "laidSpan (layOut w e) = timeSpan (entryTime e) w"
  by (simp_all add: layOut_def)

fun known_time :: "TemporalValue \<Rightarrow> bool" where
  "known_time (UnknownTime _) = False"
| "known_time _ = True"

lemma interval_span:
  assumes "validTemporalValue t" and "known_time t" and "\<not> is_instant t"
  obtains i where "dayInterval t = Some i" and "intervalStart i = spanDay (timeSpan t w)"
    and "intervalEnd i = spanEndDay (timeSpan t w)" and "intervalStart i < intervalEnd i"
    and "intervalZone i = zoneOf t"
proof (cases t)
  case (LocalDate v z b)
  then obtain date where "parseLocalDate v = Some date"
    using assms by (auto simp: validLocalDateText_def)
  then show ?thesis using LocalDate that
      [of "\<lparr>intervalStart = daysFromCivil date, intervalEnd = daysFromCivil date + 1, intervalZone = z\<rparr>"]
    by (simp add: Let_def)
next
  case (Period p)
  then obtain a b where ab: "periodBounds p = Some (a, b)"
    using assms by (auto simp: validPeriodValue_def)
  then have "daysFromCivil a < daysFromCivil b"
    by (auto simp: periodBounds_def Let_def split: option.splits if_splits)
  then show ?thesis using Period ab that
      [of "\<lparr>intervalStart = daysFromCivil a, intervalEnd = daysFromCivil b, intervalZone = periodZone p\<rparr>"]
    by (simp add: Let_def)
qed (use assms in simp_all)

lemma instant_span:
  assumes "validTemporalValue t" and "is_instant t"
  obtains v z b q where "t = Instant v z b" and "parseInstant v = Some q"
    and "spanEpoch (timeSpan t w) = epochSeconds q" and "spanNanos (timeSpan t w) = nanoseconds q"
    and "spanDay (timeSpan t w) = daysFromCivil (the (parseLocalDate (instantLocalDate q)))"
proof -
  obtain v z b where t: "t = Instant v z b" using assms(2) by (cases t) auto
  then obtain q where q: "parseInstant v = Some q" using assms(1) by (auto simp: validInstantText_def)
  show thesis
    using that [of v z b q] t q instant_day [OF q] by (simp add: Let_def)
qed

lemma compareTemporal_kinds:
  "known_time s \<Longrightarrow> known_time t \<Longrightarrow> \<not> is_instant s \<Longrightarrow> \<not> is_instant t \<Longrightarrow>
   compareTemporal s t = compareIntervals s t"
  "known_time t \<Longrightarrow> \<not> is_instant t \<Longrightarrow>
   compareTemporal (Instant v z b) t = compareInstantOther False v z t"
  "known_time s \<Longrightarrow> \<not> is_instant s \<Longrightarrow>
   compareTemporal s (Instant v z b) = compareInstantOther True v z s"
  by (cases s; cases t; simp)+

lemma span_before_compareTemporal:
  assumes valid: "validTemporalValue (entryTime a)" "validTemporalValue (entryTime b)"
    and known: "known_time (entryTime a)" "known_time (entryTime b)"
    and zones: "is_instant (entryTime a) \<and> is_instant (entryTime b) \<or>
      zonesCompatible (zoneOf (entryTime a)) (zoneOf (entryTime b))"
  shows "span_before (layOut w a) (layOut w b) \<longleftrightarrow>
    compareTemporal (entryTime a) (entryTime b) = Ordered (- 1)"
proof -
  let ?s = "entryTime a" and ?t = "entryTime b"
  show ?thesis
  proof (cases "is_instant ?s"; cases "is_instant ?t")
    assume "is_instant ?s" and "is_instant ?t"
    then show ?thesis
      by (auto elim!: instant_span [OF valid(1), of w] instant_span [OF valid(2), of w]
          simp: span_before_def Let_def compareInstants_def simp del: timeSpan.simps split: if_splits)
  next
    assume s: "is_instant ?s" and t: "\<not> is_instant ?t"
    obtain v z bs q where i: "?s = Instant v z bs" "parseInstant v = Some q"
      "spanDay (timeSpan ?s w) = daysFromCivil (the (parseLocalDate (instantLocalDate q)))"
      by (rule instant_span [OF valid(1) s, of w]) (rule that)
    obtain j where j: "dayInterval ?t = Some j" "intervalStart j = spanDay (timeSpan ?t w)"
      by (rule interval_span [OF valid(2) known(2) t, of w]) (rule that)
    have "compareTemporal ?s ?t = compareInstantOther False v z ?t"
      unfolding i(1) by (rule compareTemporal_kinds(2) [OF known(2) t])
    then show ?thesis
      using i j s t zones
      by (auto simp: span_before_def Let_def compareInstantOther_def simp del: timeSpan.simps)
  next
    assume s: "\<not> is_instant ?s" and t: "is_instant ?t"
    obtain v z bs q where i: "?t = Instant v z bs" "parseInstant v = Some q"
      "spanDay (timeSpan ?t w) = daysFromCivil (the (parseLocalDate (instantLocalDate q)))"
      by (rule instant_span [OF valid(2) t, of w]) (rule that)
    obtain j where j: "dayInterval ?s = Some j" "intervalEnd j = spanEndDay (timeSpan ?s w)"
      "intervalStart j < intervalEnd j"
      by (rule interval_span [OF valid(1) known(1) s, of w]) (rule that)
    have "compareTemporal ?s ?t = compareInstantOther True v z ?s"
      unfolding i(1) by (rule compareTemporal_kinds(3) [OF known(1) s])
    then show ?thesis
      using i j s t zones
      by (auto simp: span_before_def Let_def compareInstantOther_def zonesCompatible_def
          simp del: timeSpan.simps)
  next
    assume s: "\<not> is_instant ?s" and t: "\<not> is_instant ?t"
    obtain i where i: "dayInterval ?s = Some i" "intervalStart i = spanDay (timeSpan ?s w)"
      "intervalEnd i = spanEndDay (timeSpan ?s w)" "intervalStart i < intervalEnd i" "intervalZone i = zoneOf ?s"
      by (rule interval_span [OF valid(1) known(1) s, of w]) (rule that)
    obtain j where j: "dayInterval ?t = Some j" "intervalStart j = spanDay (timeSpan ?t w)"
      "intervalEnd j = spanEndDay (timeSpan ?t w)" "intervalStart j < intervalEnd j" "intervalZone j = zoneOf ?t"
      by (rule interval_span [OF valid(2) known(2) t, of w]) (rule that)
    have "compareTemporal ?s ?t = compareIntervals ?s ?t"
      by (rule compareTemporal_kinds(1) [OF known s t])
    then show ?thesis
      using i j s t zones
      by (auto simp: span_before_def Let_def compareIntervals_def simp del: timeSpan.simps)
  qed
qed

lemma one_zone:
  assumes "\<not> zonesConflict es"
  shows "length (js_set (concat (map (\<lambda>e. civil_zone (entryTime e)) es))) \<le> 1"
proof (rule ccontr)
  assume "\<not> ?thesis"
  then obtain x y zs where "js_set (concat (map (\<lambda>e. civil_zone (entryTime e)) es)) = x # y # zs"
    by (metis One_nat_def Suc_le_mono le0 length_Cons list.exhaust list.size(3))
  then show False using assms by (simp add: zonesConflict_def)
qed

lemma no_conflict_compatible:
  assumes none: "\<not> zonesConflict es" and mem: "a \<in> set es" "b \<in> set es"
    and valid: "validTemporalValue (entryTime a)" "validTemporalValue (entryTime b)"
    and civil: "\<not> is_instant (entryTime a) \<or> \<not> is_instant (entryTime b)"
  shows "zonesCompatible (zoneOf (entryTime a)) (zoneOf (entryTime b))"
proof -
  let ?zones = "concat (map (\<lambda>e. civil_zone (entryTime e)) es)"
  have named: "z \<in> set ?zones" if "e \<in> set es" "zoneOf (entryTime e) = Some z" "z \<noteq> []"
    "\<not> is_instant (entryTime e)" for e z
    using that by (cases "entryTime e") (force simp: civil_zone_def)+
  have one: "x = y" if "x \<in> set ?zones" "y \<in> set ?zones" for x y
  proof -
    have "length (js_set ?zones) \<le> 1" by (rule one_zone [OF none])
    moreover have "x \<in> set (js_set ?zones)" "y \<in> set (js_set ?zones)"
      using that by (simp_all only: set_js_set)
    ultimately show ?thesis by (cases "js_set ?zones") auto
  qed
  have inst: "z' = z" if "e \<in> set es" "entryTime e = Instant v z' bs" "z \<in> set ?zones" for e v z' bs z
  proof -
    have "z \<in> set (js_set ?zones)" using that(3) by (simp only: set_js_set)
    moreover have "length (js_set ?zones) \<le> 1" by (rule one_zone [OF none])
    ultimately have "js_set ?zones = [z]" by (cases "js_set ?zones") auto
    then show ?thesis using none that(1,2) by (force simp: zonesConflict_def list_ex_iff)
  qed
  have full: "z \<noteq> []" if "zoneOf t = Some z" "validTemporalValue t" for t z
    using that by (cases t) (auto simp: validZone_def validPeriodValue_def split: option.splits)
  show ?thesis
  proof (cases "zoneOf (entryTime a) = None \<or> zoneOf (entryTime b) = None")
    case False
    then obtain x y where xy: "zoneOf (entryTime a) = Some x" "zoneOf (entryTime b) = Some y" by auto
    then have ne: "x \<noteq> []" "y \<noteq> []" using full valid by blast+
    have "x = y"
    proof (cases "is_instant (entryTime a)")
      case True
      then have "y \<in> set ?zones" using named [OF mem(2) xy(2) ne(2)] civil by blast
      then show ?thesis using inst [OF mem(1)] True xy(1) by (cases "entryTime a") auto
    next
      case False
      then have x: "x \<in> set ?zones" using named [OF mem(1) xy(1) ne(1)] by blast
      show ?thesis
      proof (cases "is_instant (entryTime b)")
        case True
        then show ?thesis using inst [OF mem(2) _ x] xy(2) by (cases "entryTime b") auto
      next
        case False
        then have "y \<in> set ?zones" using named [OF mem(2) xy(2) ne(2)] by blast
        with x show ?thesis by (rule one)
      qed
    qed
    then show ?thesis using xy by (simp add: zonesCompatible_def)
  qed (auto simp: zonesCompatible_def)
qed

end
