(* ===== verification/Lot_Engine.thy ===== *)
theory Lot_Engine
  imports Lot_Runs Lot_Order
begin

text \<open>
  The lot engine's entry points (\<open>packages/domain/src/lots.ts\<close>): one book (\<open>computeBook\<close>), the gates
  and the whole result (\<open>computeLots\<close>), with the cost-basis gate of \<open>packages/domain/src/calculation.ts\<close>.
  The source throws only on a transfer inside a computed book; that is the value \<open>None\<close>.
\<close>

section \<open>Groups of inputs that time does not order\<close>

definition commutes :: "Entry list \<Rightarrow> LotPolicy \<Rightarrow> bool" where
  "commutes grp p =
     (if lotMethod p \<noteq> Moving_average then False
      else if list_all (\<lambda>e. kind (entryInput e) = Acquisition) grp then True
      else rounding p = None \<and> list_all (\<lambda>e. kind (entryInput e) = Disposal) grp)"

definition groupFailure :: "BookState \<Rightarrow> Entry list \<Rightarrow> LotPolicy \<Rightarrow> LotReasonCode option" where
  "groupFailure st grp p =
     (let quantities = map (\<lambda>e. exactValue (quantity (entryInput e))) grp
      in if list_ex (\<lambda>q. q = None) quantities then Some R_value_not_exact
         else if list_all (\<lambda>e. kind (entryInput e) = Acquisition) grp then
           (let units = foldl (\<lambda>acc e. unionSorted acc (costUnitsOf (entryInput e) p))
                          (case lots st of [] \<Rightarrow> [] | pool # _ \<Rightarrow> costUnits pool) grp
            in if 1 < length units then Some R_unit_mismatch else None)
         else
           (let disposed = foldl (\<lambda>total q. addDecimals total (the q)) ZERO quantities
            in case lots st of
                 [] \<Rightarrow> Some R_negative_holding
               | pool # _ \<Rightarrow>
                   if compareDecimals (remaining pool) disposed < 0 then Some R_negative_holding
                   else if list_ex (\<lambda>q.
                       shareOf (remainingCost pool) (the q) (remaining pool) None = None \<or>
                       (case remainingFees pool of
                          None \<Rightarrow> False
                        | Some f \<Rightarrow> shareOf f (the q) (remaining pool) None = None)) quantities
                   then Some R_inexact_allocation
                   else None))"

definition failAll :: "BookState \<Rightarrow> Entry list \<Rightarrow> LotReasonCode \<Rightarrow> LotPolicy \<Rightarrow> BookState" where
  "failAll st entries reason p =
     foldl (\<lambda>s e. if kind (entryInput e) = Disposal
                  then pushDisposal s (indeterminateDisposal e p reason) else s)
       (markIndeterminate st (map entryRef entries) reason) entries"

definition applyGroup :: "BookState \<Rightarrow> Entry list \<Rightarrow> LotPolicy \<Rightarrow> BookState option" where
  "applyGroup st grp p =
     (if indeterminate st \<noteq> None \<or> length grp = 1 then applyEntries st grp p
      else if \<not> commutes grp p then Some (failAll st grp R_order_tie p)
      else case groupFailure st grp p of
        Some failure \<Rightarrow> Some (failAll st grp failure p)
      | None \<Rightarrow>
          (case applyEntries (trialState st) grp p of
             None \<Rightarrow> None
           | Some trial \<Rightarrow>
               (case indeterminate trial of
                  Some stop \<Rightarrow> Some (failAll st grp (stopReason stop) p)
                | None \<Rightarrow> Some (trial\<lparr>disposals := disposals st @ disposals trial\<rparr>))))"

fun applyGroups :: "BookState \<Rightarrow> Entry list list \<Rightarrow> LotPolicy \<Rightarrow> BookState option" where
  "applyGroups st [] p = Some st"
| "applyGroups st (g # gs) p =
     (case applyGroup st g p of None \<Rightarrow> None | Some st' \<Rightarrow> applyGroups st' gs p)"

section \<open>One book\<close>

record BookResult =
  resultDisposals :: "LotDisposal list"
  resultPools :: "LotPool list"
  resultLots :: "Lot list option"
  resultStop :: "StopPoint option"

definition stoppedBook :: "BookState \<Rightarrow> BookResult" where
  "stoppedBook st = \<lparr>resultDisposals = disposals st, resultPools = [], resultLots = None,
     resultStop = indeterminate st\<rparr>"

definition finishBook :: "BookState \<Rightarrow> LotPolicy \<Rightarrow> BookResult" where
  "finishBook st p =
     (let open_pools = (if lotMethod p = Moving_average then map poolOf (take 1 (lots st)) else [])
      in \<lparr>resultDisposals = disposals st,
          resultPools = closedPools st @ open_pools,
          resultLots = (if indeterminate st = None then Some (lots st) else None),
          resultStop = indeterminate st\<rparr>)"

definition is_wall_time :: "Entry \<Rightarrow> bool" where
  "is_wall_time e \<longleftrightarrow>
     (case entryTime e of LocalDate _ _ _ \<Rightarrow> True | Period _ \<Rightarrow> True | _ \<Rightarrow> False)"

definition computeBook :: "Entry list \<Rightarrow> LotPolicy \<Rightarrow> BookResult option" where
  "computeBook entries p =
     (let byRef = js_sort (\<lambda>a b. compareText (entryRef a) (entryRef b)) entries;
          unknown = filter (\<lambda>e. \<not> known_time (entryTime e)) byRef
      in if unknown \<noteq> [] then
           Some (stoppedBook (failAll
             (markIndeterminate emptyState (map entryRef unknown) R_unknown_time)
             byRef R_unknown_time p))
         else
           (let wallTime = list_ex is_wall_time entries;
                ordered = js_sort compareLaidOut (map (layOut wallTime) entries)
            in if zonesConflict (map laidEntry ordered) then
                 Some (stoppedBook (failAll emptyState (map laidEntry ordered) R_order_tie p))
               else
                 map_option (\<lambda>st. finishBook st p)
                   (applyGroups emptyState (map (map laidEntry) (timeGroups ordered)) p)))"

section \<open>The cost-basis gate\<close>

record RulePackage =
  rulePolicyId :: string
  ruleVerified :: bool

record CostBasisRequest =
  jurisdiction :: "string option"
  taxPeriod :: "string option"
  accountWrapper :: "string option"
  residencyOrEntity :: "string option"
  basisMethod :: "string option"
  feeTreatment :: "string option"
  carriedCost :: "string option"
  basisLotSelection :: "string option"
  rulePackage :: "RulePackage option"

record CostBasisOutcome =
  basisStatus :: string
  basisReason :: string
  missingInputs :: "string list"

definition costBasisInputs :: "CostBasisRequest \<Rightarrow> (string \<times> string option) list" where
  "costBasisInputs r =
     [(''jurisdiction'', jurisdiction r), (''taxPeriod'', taxPeriod r),
      (''accountWrapper'', accountWrapper r), (''residencyOrEntity'', residencyOrEntity r),
      (''method'', basisMethod r), (''feeTreatment'', feeTreatment r),
      (''carriedCost'', carriedCost r), (''lotSelection'', basisLotSelection r)]"

definition costBasis :: "CostBasisRequest \<Rightarrow> CostBasisOutcome" where
  "costBasis r =
     (let missing = map fst (filter (\<lambda>input. snd input = None) (costBasisInputs r))
      in if (case rulePackage r of None \<Rightarrow> True | Some rp \<Rightarrow> \<not> ruleVerified rp)
         then \<lparr>basisStatus = ''needs-policy'', basisReason = ''no_verified_rule_package'',
               missingInputs = missing\<rparr>
         else \<lparr>basisStatus = ''needs-policy'', basisReason = ''missing_inputs'',
               missingInputs = missing\<rparr>)"

section \<open>The whole run\<close>

datatype LotRefusalCode =
    Policy_missing | Policy_unsupported | Tax_rules_unverified | Invalid_input | Duplicate_ref
  | Same_event_revisions | Same_observation_parse_runs | Transfer_contract_pending
  | Unsupported_instrument

record BookHead =
  headHolderRef :: string
  headInstrumentRef :: string
  headWrapperKey :: string
  headInstrumentClass :: InstrumentClass

datatype LotBook =
    BookComputed BookHead "LotDisposal list" "LotPool list" "LotState list option" "StopPoint option"
  | BookRefused BookHead LotRefusalCode "string list"

record LotManifest =
  manifestContract :: string
  manifestEngineVersion :: string
  manifestPolicy :: LotPolicy
  manifestRefs :: "string list"
  manifestInputs :: "LotInput list"

datatype LotResult =
    LotsComputed string string string LotManifest ResultPartition "LotBook list"
  | LotsRefused string string LotRefusalCode "string list"

definition bookKeyOf :: "LotInput \<Rightarrow> string list" where
  "bookKeyOf i = [holderRef i, instrumentRef i, wrapperKey i]"

fun compareTuples :: "string list \<Rightarrow> string list \<Rightarrow> int" where
  "compareTuples (a # as) (b # bs) =
     (if a \<noteq> b then (if a < b then - 1 else 1) else compareTuples as bs)"
| "compareTuples as bs = int (length as) - int (length bs)"

definition refused :: "LotRefusalCode \<Rightarrow> string list \<Rightarrow> LotResult" where
  "refused reason refs = LotsRefused LOT_INPUT_CONTRACT LOT_ENGINE_VERSION reason (sorted_set refs)"

definition isSupportedClass :: "InstrumentClass \<Rightarrow> bool" where
  "isSupportedClass c \<longleftrightarrow> c \<in> {Listed_equity, Fund_unit, Crypto_asset}"

fun method_text :: "LotMethod \<Rightarrow> string" where
  "method_text Fifo = ''fifo''"
| "method_text Moving_average = ''moving-average''"
| "method_text Specific_identification = ''specific-identification''"

fun fee_text :: "LotAcquisitionFeeMode \<Rightarrow> string" where
  "fee_text Capitalize = ''capitalize''"
| "fee_text Exclude = ''exclude''"

definition taxGate :: "LotPolicy \<Rightarrow> CostBasisOutcome" where
  "taxGate p = costBasis \<lparr>
     jurisdiction = None, taxPeriod = None, accountWrapper = None, residencyOrEntity = None,
     basisMethod = Some (method_text (lotMethod p)),
     feeTreatment = Some (fee_text (acquisitionFee p)),
     carriedCost = None,
     basisLotSelection = (if lotMethod p = Specific_identification
                          then Some (method_text (lotMethod p)) else None),
     rulePackage = None\<rparr>"

definition entryOf :: "LotPolicy \<Rightarrow> LotInput \<Rightarrow> Entry" where
  "entryOf p i = \<lparr>entryInput = i, entryRef = lotInputRefText (inputRef i),
     entryTime = (if timeBasis p = Trade_date then trade (inputTime i) else settlement (inputTime i))\<rparr>"

text \<open>The inputs' loop: the refs of the invalid ones, and the entries of the others.\<close>

fun classify :: "LotPolicy \<Rightarrow> LotInput list \<Rightarrow> string list \<times> Entry list" where
  "classify p [] = ([], [])"
| "classify p (i # is) =
     (let (invalid, entries) = classify p is
      in if \<not> validLotInput i then
           ((if validLotInputRef (inputRef i) then lotInputRefText (inputRef i)
             else ''input:invalid'') # invalid, entries)
         else if \<not> inputRulesHold i p then (lotInputRefText (inputRef i) # invalid, entries)
         else (invalid, entryOf p i # entries))"

text \<open>Maps keep the insertion order of their keys.\<close>

fun multimap_add :: "'k \<Rightarrow> 'v \<Rightarrow> ('k \<times> 'v list) list \<Rightarrow> ('k \<times> 'v list) list" where
  "multimap_add k v [] = [(k, [v])]"
| "multimap_add k v ((k', vs) # m) =
     (if k = k' then (k', vs @ [v]) # m else (k', vs) # multimap_add k v m)"

definition multimap :: "('k \<times> 'v) list \<Rightarrow> ('k \<times> 'v list) list" where
  "multimap pairs = foldl (\<lambda>m (k, v). multimap_add k v m) [] pairs"

definition booksOf :: "Entry list \<Rightarrow> (string list \<times> Entry list) list" where
  "booksOf entries = multimap (map (\<lambda>e. (bookKeyOf (entryInput e), e)) entries)"

definition mixedClasses :: "(string list \<times> Entry list) list \<Rightarrow> string list" where
  "mixedClasses books = concat (map (\<lambda>(k, book).
     if 1 < length (js_set (map (\<lambda>e. instrumentClass (entryInput e)) book))
     then map entryRef book else []) books)"

fun repeatedRefs :: "string set \<Rightarrow> string list \<Rightarrow> string list" where
  "repeatedRefs seen [] = []"
| "repeatedRefs seen (r # rs) =
     (if r \<in> seen then [r] else []) @ repeatedRefs (insert r seen) rs"

fun crossHeld ::
  "(string \<times> string \<rightharpoonup> string list set \<times> bool) \<Rightarrow> (string list \<times> Entry) list \<Rightarrow> string list"
where
  "crossHeld holders [] = []"
| "crossHeld holders ((k, e) # rest) =
     (let slot = (instrumentRef (entryInput e), entryRef e);
          (books, transfersOnly) = (case holders slot of None \<Rightarrow> ({}, True) | Some seen \<Rightarrow> seen);
          books' = insert k books;
          only' = (transfersOnly \<and> kind (entryInput e) = Transfer)
      in (if 1 < card books' \<and> \<not> only' then [entryRef e] else []) @
         crossHeld (holders(slot \<mapsto> (books', only'))) rest)"

text \<open>Groups of refs under one key that hold more than one distinct ref.\<close>

definition conflicts :: "('k \<times> string) list \<Rightarrow> string list" where
  "conflicts pairs =
     concat (filter (\<lambda>refs. 1 < length refs) (map (\<lambda>(k, refs). js_set refs) (multimap pairs)))"

fun revision_slot :: "Entry \<Rightarrow> (string \<times> string) list" where
  "revision_slot e =
     (case inputRef (entryInput e) of
        EventRef eventId _ \<Rightarrow> [(eventId, entryRef e)] | ObservationRef _ _ _ _ \<Rightarrow> [])"

fun parse_slot :: "Entry \<Rightarrow> ((LotObservationFactKind \<times> int \<times> string option) \<times> string) list" where
  "parse_slot e =
     (case inputRef (entryInput e) of
        EventRef _ _ \<Rightarrow> []
      | ObservationRef factKind observationId _ path \<Rightarrow> [((factKind, observationId, path), entryRef e)])"

definition headOf :: "LotInput \<Rightarrow> BookHead" where
  "headOf i = \<lparr>headHolderRef = holderRef i, headInstrumentRef = instrumentRef i,
     headWrapperKey = wrapperKey i, headInstrumentClass = instrumentClass i\<rparr>"

definition bookResult :: "LotPolicy \<Rightarrow> Entry list \<Rightarrow> LotBook option" where
  "bookResult p book =
     (let i = entryInput (hd book);
          transfers = filter (\<lambda>e. kind (entryInput e) = Transfer) book
      in if \<not> isSupportedClass (instrumentClass i) then
           Some (BookRefused (headOf i) Unsupported_instrument (sort (map entryRef book)))
         else if transfers \<noteq> [] then
           Some (BookRefused (headOf i) Transfer_contract_pending (sort (map entryRef transfers)))
         else
           map_option (\<lambda>computed. BookComputed (headOf i)
               (resultDisposals computed) (resultPools computed)
               (map_option (\<lambda>ls. map (\<lambda>l. lotState l (instrumentRef i))
                  (filter (\<lambda>l. \<not> isZeroDecimal (remaining l)) ls)) (resultLots computed))
               (resultStop computed))
             (computeBook book p))"

fun known_amount :: "LotAmount \<Rightarrow> bool" where
  "known_amount (AmountKnown _) = True"
| "known_amount (AmountUnknown _) = False"

fun bookComplete :: "LotBook \<Rightarrow> bool" where
  "bookComplete (BookComputed _ ds _ ls stop) \<longleftrightarrow>
     stop = None \<and> list_all (\<lambda>d. outcome d = Allocated) ds \<and>
     list_all (\<lambda>l. known_amount (stateRemainingCost l) \<and>
       (case stateRemainingFees l of None \<Rightarrow> True | Some f \<Rightarrow> known_amount f))
       (case ls of None \<Rightarrow> [] | Some xs \<Rightarrow> xs)"
| "bookComplete (BookRefused _ _ _) \<longleftrightarrow> False"

fun isComputed :: "LotBook \<Rightarrow> bool" where
  "isComputed (BookComputed _ _ _ _ _) = True"
| "isComputed (BookRefused _ _ _) = False"

definition partitionOf :: "LotBook list \<Rightarrow> ResultPartition" where
  "partitionOf books =
     (if \<not> list_ex isComputed books then Not_computable
      else if list_all bookComplete books then Complete
      else Partial_verified_scope)"

definition computeAll :: "LotPolicy \<Rightarrow> Entry list \<Rightarrow> (string list \<times> Entry list) list \<Rightarrow> LotResult option" where
  "computeAll p entries books =
     (let ordered = js_sort (\<lambda>a b. compareTuples (bookKeyOf (entryInput (hd a)))
                        (bookKeyOf (entryInput (hd b)))) (map snd books)
      in map_option (\<lambda>results. LotsComputed LOT_INPUT_CONTRACT LOT_ENGINE_VERSION (lotPolicyRef p)
             \<lparr>manifestContract = LOT_INPUT_CONTRACT, manifestEngineVersion = LOT_ENGINE_VERSION,
              manifestPolicy = p,
              manifestRefs = sorted_set (map entryRef entries),
              manifestInputs = map snd (js_sort (\<lambda>a b. compareTuples (fst a) (fst b))
                (map (\<lambda>e. (bookKeyOf (entryInput e) @ [entryRef e], entryInput e)) entries))\<rparr>
             (partitionOf results) results)
           (collect (bookResult p) ordered))"

definition duplicateRefs :: "Entry list \<Rightarrow> string list" where
  "duplicateRefs entries =
     (let books = booksOf entries
      in concat (map (\<lambda>(k, book). repeatedRefs {} (map entryRef book)) books) @
         crossHeld Map.empty (concat (map (\<lambda>(k, book). map (Pair k) book) books)))"

text \<open>The inputs' gates in order, then the books.\<close>

definition computeChecked :: "LotPolicy \<Rightarrow> LotInput list \<Rightarrow> LotResult option" where
  "computeChecked p inputs =
     (let (invalid, entries) = classify p inputs;
          invalid' = invalid @ mixedClasses (booksOf entries);
          duplicates = duplicateRefs entries;
          revisions = conflicts (concat (map revision_slot entries));
          reparsed = conflicts (concat (map parse_slot entries))
      in if invalid' \<noteq> [] then Some (refused Invalid_input invalid')
         else if duplicates \<noteq> [] then Some (refused Duplicate_ref duplicates)
         else if revisions \<noteq> [] then Some (refused Same_event_revisions revisions)
         else if reparsed \<noteq> [] then Some (refused Same_observation_parse_runs reparsed)
         else computeAll p entries (booksOf entries))"

definition computeLots :: "LotInput list \<Rightarrow> LotPolicy option \<Rightarrow> LotResult option" where
  "computeLots inputs policy =
     (case policy of
        None \<Rightarrow> Some (refused Policy_missing [])
      | Some p \<Rightarrow>
          if \<not> validLotPolicy p then Some (refused Invalid_input [''policy''])
          else if (case rounding p of None \<Rightarrow> False
                   | Some r \<Rightarrow> rpWhere r \<noteq> At_leg \<or> rpResidual r \<noteq> Carry) then
            Some (refused Policy_unsupported [''policy:rounding''])
          else if purpose p = Tax then
            (let gate = taxGate p
             in Some (refused Tax_rules_unverified
                  ((''cost-basis:'' @ basisStatus gate @ '':'' @ basisReason gate) #
                   map (\<lambda>input. ''missing:'' @ input) (missingInputs gate))))
          else computeChecked p inputs)"

end
