(* ===== verification/Lot_Books.thy ===== *)
theory Lot_Books
  imports Lot_Engine
begin

text \<open>
  What a computed book is (\<open>computeBook\<close> of \<open>packages/domain/src/lots.ts\<close>): the groups keep the ledger,
  a book that does not stop is the run of its inputs in layout order, every disposal input has one
  record, the holding refines a plain number, and none of it depends on the order of the inputs.
\<close>

section \<open>Failing a group\<close>

lemma failAll_eq:
  "failAll st es r p = (markIndeterminate st (map entryRef es) r)\<lparr>disposals := disposals st @
     map (\<lambda>e. indeterminateDisposal e p r) (filter is_disposal es)\<rparr>"
proof -
  have "foldl (\<lambda>s e. if kind (entryInput e) = Disposal
          then pushDisposal s (indeterminateDisposal e p r) else s) st es =
      st\<lparr>disposals := disposals st @ map (\<lambda>e. indeterminateDisposal e p r) (filter is_disposal es)\<rparr>"
    for st :: BookState
    by (induction es arbitrary: st) (simp_all add: is_disposal_def pushDisposal_def)
  then show ?thesis by (simp add: failAll_def)
qed

lemma failAll_indeterminate [simp]: "indeterminate (failAll st es r p) \<noteq> None"
  by (simp add: failAll_eq markIndeterminate_def)

lemma failAll_ledger:
  assumes "ledger_ok p seen st"
  shows "ledger_ok p seen (failAll st es r p)"
proof -
  have "ledger_ok p seen (foldl (\<lambda>s e. if kind (entryInput e) = Disposal
      then pushDisposal s (indeterminateDisposal e p r) else s) st' es)" if "ledger_ok p seen st'" for st'
    using that by (induction es arbitrary: st') (simp_all add: ledger_ok_marks)
  then show ?thesis using assms by (simp add: failAll_def ledger_ok_marks)
qed

lemma failAll_records:
  "records (disposals (failAll st es r p)) = records (disposals st) @ map entryRef (filter is_disposal es)"
  by (simp add: failAll_eq records_def comp_def)

section \<open>Groups\<close>

lemma applyGroup_cases:
  assumes "applyGroup st g p = Some st'"
  obtains (run) "applyEntries st g p = Some st'"
  | (failed) r where "st' = failAll st g r p" and "indeterminate st = None"
proof -
  consider "indeterminate st \<noteq> None \<or> length g = 1"
    | "indeterminate st = None" "length g \<noteq> 1" "\<not> commutes g p"
    | f where "indeterminate st = None" "length g \<noteq> 1" "commutes g p" "groupFailure st g p = Some f"
    | "indeterminate st = None" "length g \<noteq> 1" "commutes g p" "groupFailure st g p = None"
    by fastforce
  then show thesis
  proof cases
    case 4
    then obtain trial where trial: "applyEntries (trialState st) g p = Some trial"
      using assms by (auto simp: applyGroup_def split: option.splits)
    show thesis
    proof (cases "indeterminate trial")
      case None
      then have "st' = trial\<lparr>disposals := disposals st @ disposals trial\<rparr>"
        using 4 assms trial by (simp add: applyGroup_def)
      then show thesis using run trial_is_run [OF trial] by simp
    next
      case (Some stop)
      show thesis
        by (rule failed [of "stopReason stop"]) (use Some 4 assms trial in \<open>simp_all add: applyGroup_def\<close>)
    qed
  qed (use assms run failed in \<open>auto simp: applyGroup_def\<close>)
qed

lemma ledger_ok_more: "ledger_ok p seen st \<Longrightarrow> ledger_ok p (seen \<union> others) st"
  by (auto simp: ledger_ok_def ids_within_def)

lemma applyGroup_ledger:
  assumes "ledger_ok p seen st" and "\<forall>e\<in>set g. entry_ok p e"
    and "distinct (map entryRef g)" and "seen \<inter> entryRef ` set g = {}"
    and "applyGroup st g p = Some st'"
  shows "ledger_ok p (seen \<union> entryRef ` set g) st'"
  using assms(5)
proof (cases rule: applyGroup_cases)
  case run
  then show ?thesis by (rule applyEntries_ledger [OF assms(1-4)])
next
  case (failed r)
  then show ?thesis using failAll_ledger [OF assms(1)] ledger_ok_more by simp
qed

lemma applyGroups_ledger:
  assumes "ledger_ok p seen st" and "\<forall>e\<in>set (concat gs). entry_ok p e"
    and "distinct (map entryRef (concat gs))" and "seen \<inter> entryRef ` set (concat gs) = {}"
    and "applyGroups st gs p = Some st'"
  shows "ledger_ok p (seen \<union> entryRef ` set (concat gs)) st'"
  using assms
proof (induction gs arbitrary: seen st)
  case (Cons g gs)
  then obtain st1 where st1: "applyGroup st g p = Some st1" and run: "applyGroups st1 gs p = Some st'"
    by (auto split: option.splits)
  have "ledger_ok p (seen \<union> entryRef ` set g) st1"
    using Cons.prems by (intro applyGroup_ledger [OF _ _ _ _ st1]) auto
  then have "ledger_ok p ((seen \<union> entryRef ` set g) \<union> entryRef ` set (concat gs)) st'"
  proof (rule Cons.IH [OF _ _ _ _ run])
    have "entryRef ` set g \<inter> entryRef ` set (concat gs) = {}"
      using Cons.prems(3) by (simp only: concat.simps map_append distinct_append set_map)
    moreover have "seen \<inter> entryRef ` set (concat gs) = {}" using Cons.prems(4) by auto
    ultimately show "(seen \<union> entryRef ` set g) \<inter> entryRef ` set (concat gs) = {}" by blast
  qed (use Cons.prems(2,3) in simp_all)
  then show ?case by (simp add: Un_assoc image_Un)
qed simp

lemma applyGroup_total:
  assumes "\<forall>e\<in>set g. kind (entryInput e) \<noteq> Transfer"
  shows "\<exists>st'. applyGroup st g p = Some st'"
  using applyEntries_total [OF assms, of st p] applyEntries_total [OF assms, of "trialState st" p]
  by (auto simp: applyGroup_def split: option.split)

lemma applyGroups_total:
  "\<forall>e\<in>set (concat gs). kind (entryInput e) \<noteq> Transfer \<Longrightarrow> \<exists>st'. applyGroups st gs p = Some st'"
proof (induction gs arbitrary: st)
  case (Cons g gs)
  then obtain st' where "applyGroup st g p = Some st'" using applyGroup_total [of g st p] by auto
  with Cons show ?case by simp
qed simp

lemma applyGroup_records:
  assumes "applyGroup st g p = Some st'"
  shows "records (disposals st') = records (disposals st) @ map entryRef (filter is_disposal g)"
  using assms by (cases rule: applyGroup_cases) (auto simp: applyEntries_records failAll_records)

lemma applyGroups_records:
  "applyGroups st gs p = Some st' \<Longrightarrow>
   records (disposals st') = records (disposals st) @ map entryRef (filter is_disposal (concat gs))"
  by (induction gs arbitrary: st) (auto split: option.splits dest: applyGroup_records)

text \<open>A stopped book stays stopped, so a book that is not stopped is one sequential run.\<close>

lemma applyGroup_stopped:
  "indeterminate st \<noteq> None \<Longrightarrow> applyGroup st g p = Some st' \<Longrightarrow> indeterminate st' = indeterminate st"
  by (auto simp: applyGroup_def applyEntries_stopped)

lemma applyGroups_stopped:
  "indeterminate st \<noteq> None \<Longrightarrow> applyGroups st gs p = Some st' \<Longrightarrow> indeterminate st' = indeterminate st"
proof (induction gs arbitrary: st)
  case (Cons g gs)
  then obtain st1 where st1: "applyGroup st g p = Some st1" and run: "applyGroups st1 gs p = Some st'"
    by (auto split: option.splits)
  have "indeterminate st1 = indeterminate st" by (rule applyGroup_stopped [OF Cons.prems(1) st1])
  then show ?case using Cons.IH [OF _ run] Cons.prems(1) by simp
qed simp

lemma applyGroups_run:
  assumes "applyGroups st gs p = Some st'" and "indeterminate st' = None"
  shows "applyEntries st (concat gs) p = Some st'"
  using assms
proof (induction gs arbitrary: st)
  case (Cons g gs)
  then obtain st1 where st1: "applyGroup st g p = Some st1" and run: "applyGroups st1 gs p = Some st'"
    by (auto split: option.splits)
  have "indeterminate st1 = None" using applyGroups_stopped [OF _ run] Cons.prems(2) by force
  have "applyEntries st g p = Some st1"
    using st1 by (cases rule: applyGroup_cases) (use \<open>indeterminate st1 = None\<close> in auto)
  then show ?case using Cons.IH [OF run Cons.prems(2)] by (simp add: applyEntries_append)
qed simp

section \<open>The holding as a number\<close>

text \<open>
  The abstract book: one number. An acquisition adds, a disposal subtracts, a split replaces it by
  the stated holding, a snapshot seeds it when nothing came before.
\<close>

fun abstract_step :: "bool \<Rightarrow> rat \<Rightarrow> Entry \<Rightarrow> rat" where
  "abstract_step hist h e =
     (let q = quantity_value (quantity (entryInput e))
      in case kind (entryInput e) of
           Acquisition \<Rightarrow> h + q
         | Disposal \<Rightarrow> h - q
         | Split \<Rightarrow> q
         | Snapshot \<Rightarrow> if hist then h else q
         | Transfer \<Rightarrow> h)"

fun abstract_run :: "bool \<Rightarrow> rat \<Rightarrow> Entry list \<Rightarrow> rat" where
  "abstract_run hist h [] = h"
| "abstract_run hist h (e # es) = abstract_run True (abstract_step hist h e) es"

lemma applyDisposal_cases:
  obtains (failed) r where "applyDisposal st e q p = failDisposal st e p r"
  | (planned) plan shares where "planDisposal st e q p = Inr plan"
      "collect (stepShares (lots st) p) plan = Some shares"
      "applyDisposal st e q p = applyPlan st e q p plan shares"
proof (cases "planDisposal st e q p")
  case (Inl r)
  then show ?thesis by (intro failed [of r]) (simp add: applyDisposal_def)
next
  case (Inr plan)
  then show ?thesis
    using failed [of R_inexact_allocation] planned [of plan]
    by (cases "collect (stepShares (lots st) p) plan") (simp_all add: applyDisposal_def)
qed

lemma applyEntry_refines:
  assumes ok: "book_ok p st" "seeded st" and run: "applyEntry st e p = Some st'"
    and go: "indeterminate st' = None"
  shows "dec_value (held st') = abstract_step (history st) (dec_value (held st)) e \<and> history st'"
proof -
  have start: "indeterminate st = None"
    using run go by (auto simp: applyEntry_def Let_def markIndeterminate_def pushDisposal_def split: if_splits)
  then obtain q where q: "exactValue (quantity (entryInput e)) = Some q"
    using run go by (auto simp: applyEntry_def Let_def markIndeterminate_def pushDisposal_def split: option.splits if_splits)
  have qv: "quantity_value (quantity (entryInput e)) = dec_value q" by (simp add: quantity_value_def q)
  have stop: "indeterminate (markIndeterminate st refs r) \<noteq> None" for refs r
    by (simp add: markIndeterminate_def)
  show ?thesis
  proof (cases "kind (entryInput e)")
    case Acquisition
    then have st': "st' = (applyAcquisition st e q p)\<lparr>history := True\<rparr>"
      using run start q by (simp add: applyEntry_def Let_def)
    show ?thesis
      using Acquisition qv go stop unfolding st'
      by (cases rule: applyAcquisition_cases [OF ok(1), of e q])
        (simp_all add: addLot_def value_simps)
  next
    case Disposal
    then have st': "st' = (applyDisposal st e q p)\<lparr>history := True\<rparr>"
      using run start q by (simp add: applyEntry_def Let_def)
    have "held (applyPlan st e q p plan shares) = subtractDecimals (held st) q" for plan shares
      by (simp add: applyPlan_def Let_def pushDisposal_def closePool_def split: list.split)
    moreover have "indeterminate (failDisposal st e p r) \<noteq> None" for r
      using stop by (simp add: failDisposal_def pushDisposal_def)
    moreover have "indeterminate (applyDisposal st e q p) = None" using go unfolding st' by simp
    ultimately show ?thesis
      using Disposal qv unfolding st'
      by (cases rule: applyDisposal_cases [of st e q p]) (metis, simp add: value_simps)
  next
    case Split
    then have st': "st' = (applySplit st e q)\<lparr>history := True\<rparr>"
      using run start q by (simp add: applyEntry_def Let_def)
    have "firstOpen st \<le> length (lots st)" using ok(1) by (simp add: book_defs)
    then show ?thesis
      using Split qv go stop unfolding st'
      by (cases rule: applySplit_cases [of st e q, case_names bounds marked scaled]) simp_all
  next
    case Snapshot
    then have st': "st' = (applySnapshot st e q p)\<lparr>history := True\<rparr>"
      using run start q by (simp add: applyEntry_def Let_def)
    have zero: "dec_value (held st) = 0" if "\<not> history st"
      using ok that by (simp add: book_defs seeded_def)
    show ?thesis
      using Snapshot qv go zero unfolding st'
      by (auto simp: applySnapshot_def addLot_def value_simps markIndeterminate_def split: if_splits)
  next
    case Transfer
    then show ?thesis using run start q by (simp add: applyEntry_def Let_def)
  qed
qed

lemma applyEntries_refines:
  assumes "ledger_ok p seen st" and "\<forall>e\<in>set es. entry_ok p e"
    and "distinct (map entryRef es)" and "seen \<inter> entryRef ` set es = {}"
    and "applyEntries st es p = Some st'" and "indeterminate st' = None"
  shows "dec_value (held st') = abstract_run (history st) (dec_value (held st)) es"
  using assms
proof (induction es arbitrary: seen st)
  case (Cons e es)
  then obtain st1 where st1: "applyEntry st e p = Some st1" and run: "applyEntries st1 es p = Some st'"
    by (auto split: option.splits)
  have go: "indeterminate st1 = None"
  proof (rule ccontr)
    assume "indeterminate st1 \<noteq> None"
    then obtain stop where "indeterminate st1 = Some stop" by auto
    from applyEntries_stopped [OF this, of es p] show False using run Cons.prems(6) \<open>indeterminate st1 \<noteq> None\<close> by auto
  qed
  have led: "ledger_ok p (insert (entryRef e) seen) st1"
    using Cons.prems by (intro applyEntry_ledger [OF _ _ _ st1]) auto
  have "dec_value (held st1) = abstract_step (history st) (dec_value (held st)) e \<and> history st1"
    using Cons.prems(1) by (intro applyEntry_refines [OF _ _ st1 go]) (simp_all add: ledger_ok_def)
  moreover have "dec_value (held st') = abstract_run (history st1) (dec_value (held st1)) es"
    using Cons.prems(2-4,6) run by (intro Cons.IH [OF led]) auto
  ultimately show ?case by simp
qed simp

section \<open>A computed book\<close>

definition laidOrder :: "Entry list \<Rightarrow> Entry list" where
  "laidOrder es = map laidEntry (js_sort compareLaidOut (map (layOut (list_ex is_wall_time es)) es))"

lemma mset_laidOrder [simp]: "mset (laidOrder es) = mset es"
proof -
  have "mset (laidOrder es) = image_mset laidEntry (mset (map (layOut (list_ex is_wall_time es)) es))"
    by (simp add: laidOrder_def)
  also have "\<dots> = mset (map (\<lambda>e. laidEntry (layOut (list_ex is_wall_time es) e)) es)"
    by (simp add: image_mset.compositionality comp_def)
  finally show ?thesis by simp
qed

lemma set_laidOrder [simp]: "set (laidOrder es) = set es"
  by (metis mset_laidOrder set_mset_mset)

lemma distinct_laidOrder: "distinct (map f es) \<Longrightarrow> distinct (map f (laidOrder es))"
  by (metis mset_laidOrder mset_eq_imp_distinct_iff mset_map)

lemma concat_timeGroups: "concat (timeGroups ordered) = ordered"
  unfolding timeGroups_reference by (subst reference_groups_concat) simp_all

lemma stoppedBook_finish: "lots st = [] \<Longrightarrow> closedPools st = [] \<Longrightarrow> indeterminate st \<noteq> None \<Longrightarrow>
    stoppedBook st = finishBook st p"
  by (simp add: stoppedBook_def finishBook_def)

text \<open>
  Whatever path a book takes, its result is read off one final state; when the book does not stop,
  that state is the sequential run of its inputs in layout order.
\<close>

lemma computeBook_state:
  assumes ok: "\<forall>e\<in>set es. entry_ok p e" and refs: "distinct (map entryRef es)"
    and book: "computeBook es p = Some r"
  obtains st where "r = finishBook st p" and "ledger_ok p (entryRef ` set es) st"
    and "mset (records (disposals st)) = mset (map entryRef (filter is_disposal es))"
    and "indeterminate st = None \<Longrightarrow> applyEntries emptyState (laidOrder es) p = Some st"
proof -
  let ?byRef = "js_sort (\<lambda>a b. compareText (entryRef a) (entryRef b)) es"
  let ?unknown = "filter (\<lambda>e. \<not> known_time (entryTime e)) ?byRef"
  let ?ordered = "js_sort compareLaidOut (map (layOut (list_ex is_wall_time es)) es)"
  have order: "map laidEntry ?ordered = laidOrder es" by (simp add: laidOrder_def)
  have led: "ledger_ok p (entryRef ` set es) emptyState"
    using ledger_ok_more [OF ledger_ok_empty, of p "entryRef ` set es"] by simp
  have none: "records (disposals emptyState) = []" by (simp add: records_def emptyState_def)
  have perm: "mset (map entryRef (filter is_disposal fs)) = mset (map entryRef (filter is_disposal es))"
    if "mset fs = mset es" for fs
    using that by (metis mset_filter mset_map)
  have stop: "stoppedBook (failAll (markIndeterminate emptyState rs q') fs q p) =
      finishBook (failAll (markIndeterminate emptyState rs q') fs q p) p"
    "stoppedBook (failAll emptyState fs q p) = finishBook (failAll emptyState fs q p) p" for rs q' fs q
    by (rule stoppedBook_finish; simp add: failAll_eq markIndeterminate_def emptyState_def)+
  consider (unknown) "?unknown \<noteq> []" | (conflict) "?unknown = []" "zonesConflict (laidOrder es)"
    | (groups) "?unknown = []" "\<not> zonesConflict (laidOrder es)"
    by blast
  then show thesis
  proof cases
    case unknown
    let ?st = "failAll (markIndeterminate emptyState (map entryRef ?unknown) R_unknown_time) ?byRef R_unknown_time p"
    show thesis
    proof (rule that [of ?st])
      show "r = finishBook ?st p" using book unknown stop(1) by (simp add: computeBook_def Let_def)
      show "ledger_ok p (entryRef ` set es) ?st"
        by (rule failAll_ledger) (rule ledger_ok_marks(1) [OF led])
      show "mset (records (disposals ?st)) = mset (map entryRef (filter is_disposal es))"
        unfolding failAll_records markIndeterminate_disposals none
        using perm [of ?byRef] by simp
    qed simp
  next
    case conflict
    let ?st = "failAll emptyState (laidOrder es) R_order_tie p"
    show thesis
    proof (rule that [of ?st])
      show "r = finishBook ?st p"
        using book conflict stop(2) by (simp add: computeBook_def Let_def order)
      show "ledger_ok p (entryRef ` set es) ?st" by (rule failAll_ledger [OF led])
      show "mset (records (disposals ?st)) = mset (map entryRef (filter is_disposal es))"
        unfolding failAll_records none using perm [of "laidOrder es"] by simp
    qed simp
  next
    case groups
    let ?gs = "map (map laidEntry) (timeGroups ?ordered)"
    have cat: "concat ?gs = laidOrder es"
      by (simp add: map_concat [symmetric] concat_timeGroups laidOrder_def)
    obtain st where st: "applyGroups emptyState ?gs p = Some st" "r = finishBook st p"
      using book groups by (auto simp: computeBook_def Let_def order)
    show thesis
    proof (rule that [of st])
      show "r = finishBook st p" by (rule st(2))
      have "ledger_ok p ({} \<union> entryRef ` set (concat ?gs)) st"
        by (rule applyGroups_ledger [OF ledger_ok_empty _ _ _ st(1)])
          (use ok refs in \<open>simp_all only: cat set_laidOrder distinct_laidOrder Int_empty_left\<close>)
      then show "ledger_ok p (entryRef ` set es) st" by (simp only: cat set_laidOrder Un_empty_left)
      show "mset (records (disposals st)) = mset (map entryRef (filter is_disposal es))"
        using applyGroups_records [OF st(1)] perm [of "laidOrder es"]
        by (simp add: cat none)
      show "applyEntries emptyState (laidOrder es) p = Some st" if "indeterminate st = None"
        using applyGroups_run [OF st(1) that] by (simp only: cat)
    qed
  qed
qed

lemma computeBook_total:
  assumes "\<forall>e\<in>set es. kind (entryInput e) \<noteq> Transfer"
  shows "\<exists>r. computeBook es p = Some r"
proof -
  let ?ordered = "js_sort compareLaidOut (map (layOut (list_ex is_wall_time es)) es)"
  have "set (concat (map (map laidEntry) (timeGroups ?ordered))) = set es"
    using set_laidOrder [of es]
    by (simp only: map_concat [symmetric] concat_timeGroups laidOrder_def)
  then have "\<forall>e\<in>set (concat (map (map laidEntry) (timeGroups ?ordered))). kind (entryInput e) \<noteq> Transfer"
    using assms by blast
  then obtain st where "applyGroups emptyState (map (map laidEntry) (timeGroups ?ordered)) p = Some st"
    using applyGroups_total by blast
  then show ?thesis by (simp add: computeBook_def Let_def)
qed

text \<open>The order in which the inputs arrive does not matter: both sorts are of distinct refs.\<close>

lemma layout_perm:
  assumes "mset es = mset fs" and "distinct (map entryRef es)"
  shows "js_sort compareLaidOut (map (layOut w) es) = js_sort compareLaidOut (map (layOut w) fs)"
proof (rule layout.js_sort_perm)
  show "mset (map (layOut w) es) = mset (map (layOut w) fs)" using assms(1) by (metis mset_map)
  fix a b
  assume mem: "a \<in> set (map (layOut w) es)" "b \<in> set (map (layOut w) es)"
    and le: "compareLaidOut a b \<le> 0" "compareLaidOut b a \<le> 0"
  have "layout_key a = layout_key b" by (rule order.antisym) (use le in \<open>simp_all only: compareLaidOut_le\<close>)
  then have "entryRef (laidEntry a) = entryRef (laidEntry b)" by (simp add: layout_key_def)
  moreover obtain x y where "x \<in> set es" "a = layOut w x" "y \<in> set es" "b = layOut w y" using mem by auto
  moreover have "inj_on entryRef (set es)" using assms(2) by (simp add: distinct_map)
  ultimately show "a = b" by (simp add: inj_on_eq_iff)
qed

lemma computeBook_perm:
  assumes perm: "mset es = mset fs" and refs: "distinct (map entryRef es)"
  shows "computeBook es p = computeBook fs p"
proof -
  have byRef: "js_sort (\<lambda>a b. compareText (entryRef a) (entryRef b)) es =
      js_sort (\<lambda>a b. compareText (entryRef a) (entryRef b)) fs"
    using perm refs by (intro text_order.js_sort_perm) (auto simp: distinct_map inj_on_def)
  have "set es = set fs" using perm by (metis set_mset_mset)
  then have wall: "list_ex is_wall_time es = list_ex is_wall_time fs" by (auto simp: list_ex_iff)
  show ?thesis
    unfolding computeBook_def byRef wall Let_def layout_perm [OF perm refs] ..
qed

end
