(* ===== verification/Lot_Pools.thy ===== *)
theory Lot_Pools
  imports Lot_Books
begin

text \<open>
  Moving-average pools (\<open>commutes\<close> and \<open>groupFailure\<close> of \<open>packages/domain/src/lots.ts\<close>): a group of
  same-time disposals that the group check accepts takes, from each disposal, exactly its
  proportional part of the pool as it stood, so no order of the group fails and every order gives
  the same pool and the same records.
\<close>

section \<open>Scales and the digit limit\<close>

definition whole_fits :: "nat \<Rightarrow> rat \<Rightarrow> bool" where
  "whole_fits s q \<longleftrightarrow> q * 10 ^ s < 10 ^ DECIMAL_DIGIT_LIMIT"

lemma ratio_fits_value: "ratio_fits a b \<longleftrightarrow> whole_fits (max (scale a) (scale b)) (dec_value b)"
proof -
  have "alignedB (alignScales a b) < 10 ^ DECIMAL_DIGIT_LIMIT \<longleftrightarrow>
      (of_int (alignedB (alignScales a b)) :: rat) < of_int (10 ^ DECIMAL_DIGIT_LIMIT)"
    by (simp only: of_int_less_iff)
  then show ?thesis
    by (simp only: ratio_fits_def whole_fits_def aligned_eq) (simp add: alignScales_def Let_def)
qed

lemma whole_fits_mono:
  assumes "whole_fits s q" and "r \<le> q" and "0 \<le> r" and "t \<le> s"
  shows "whole_fits t r"
proof -
  have "r * 10 ^ t \<le> q * 10 ^ s"
    using assms(2-4) by (intro mult_mono power_increasing) auto
  with assms(1) show ?thesis by (simp add: whole_fits_def)
qed

section \<open>Proportional amounts\<close>

lemma canonical_eqI: "canonical a \<Longrightarrow> canonical b \<Longrightarrow> dec_value a = dec_value b \<Longrightarrow> a = b"
  by (simp only: canonical_unique)

text \<open>\<open>portion a k b\<close>: the amount \<open>b\<close> is the part \<open>k\<close> of the amount \<open>a\<close>.\<close>

fun portion :: "Amount \<Rightarrow> rat \<Rightarrow> Amount \<Rightarrow> bool" where
  "portion (KnownAmount u v) k b \<longleftrightarrow>
     (\<exists>w. b = KnownAmount u w \<and> canonical w \<and> dec_value w = dec_value v * k)"
| "portion (UnknownAmount r) k b \<longleftrightarrow> b = UnknownAmount r"

lemma portion_unique: "portion a k b \<Longrightarrow> portion a k c \<Longrightarrow> b = c"
  by (cases a) (auto intro!: canonical_eqI)

lemma portion_one: "amount_canonical a \<Longrightarrow> portion a 1 a"
  by (cases a) auto

lemma portion_minus: "portion a j b \<Longrightarrow> portion a k c \<Longrightarrow> portion a (j - k) (combine b c (- 1))"
  by (cases a) (auto simp: value_simps algebra_simps)

definition part_exists :: "Amount \<Rightarrow> rat \<Rightarrow> bool" where
  "part_exists a k \<longleftrightarrow>
     (case a of KnownAmount _ v \<Rightarrow> \<exists>w. dec_value w = dec_value v * k | UnknownAmount _ \<Rightarrow> True)"

text \<open>
  Of an amount that is the part \<open>r / q\<close> of another, the share \<open>t / r\<close> is the part \<open>t / q\<close>: it exists
  when that part does.
\<close>

lemma shareOf_portion:
  assumes a: "portion a (dec_value left / q) b" and part: "part_exists a (dec_value t / q)"
    and t: "0 < dec_value t" "dec_value t \<le> dec_value left" and q: "0 < q"
    and fits: "amount_unit a \<noteq> None \<Longrightarrow> dec_value t < dec_value left \<Longrightarrow> ratio_fits t left"
  obtains s where "shareOf b t left None = Some s" and "portion a (dec_value t / q) (shareAmount s)"
    and "shareRounding s = None"
proof (cases a)
  case (UnknownAmount r)
  then show ?thesis using a that [of "\<lparr>shareAmount = UnknownAmount r, shareRounding = None\<rparr>"] by simp
next
  case (KnownAmount u v)
  then obtain w where w: "b = KnownAmount u w" "canonical w" "dec_value w = dec_value v * (dec_value left / q)"
    using a by auto
  show ?thesis
  proof (cases "dec_value t = dec_value left")
    case True
    then show ?thesis
      using that [of "\<lparr>shareAmount = b, shareRounding = None\<rparr>"] shareOf_whole [OF True, of b None] w KnownAmount
      by auto
  next
    case False
    then have less: "dec_value t < dec_value left" using t(2) by simp
    have value_eq: "dec_value w * (dec_value t / dec_value left) = dec_value v * (dec_value t / q)"
      using less t(1) q by (simp add: w(3))
    have "\<exists>d. dec_value d = dec_value w * (dec_value t / dec_value left)"
      unfolding value_eq using part KnownAmount by (simp add: part_exists_def)
    then obtain s where s: "shareOf (KnownAmount u w) t left None = Some s"
      using shareOf_exact_iff [OF t(1) less, of u w] fits [OF _ less] KnownAmount by fastforce
    from shareOf_Known [OF s t] obtain x where "shareAmount s = KnownAmount u x" "canonical x"
      "dec_value x = dec_value w * (dec_value t / dec_value left)"
      using w(2) by blast
    moreover have "shareRounding s = None"
      using s False by (auto simp: shareOf_def decimalEquals_value Let_def split: sum.splits)
    ultimately show ?thesis using that [of s] s w(1) KnownAmount value_eq by simp
  qed
qed

section \<open>One disposal of a pool\<close>

text \<open>
  The pool after disposals of \<open>x\<close> in total from a pool that stood at \<open>q\<close>: the same pool with the
  proportional remainder, or closed when nothing is left. Only \<open>disposals\<close> is left open.
\<close>

definition portion_opt :: "Amount option \<Rightarrow> rat \<Rightarrow> Amount option \<Rightarrow> bool" where
  "portion_opt a k b \<longleftrightarrow>
     (case (a, b) of (None, None) \<Rightarrow> True | (Some x, Some y) \<Rightarrow> portion x k y | _ \<Rightarrow> False)"

lemma portion_opt_unique: "portion_opt a k b \<Longrightarrow> portion_opt a k c \<Longrightarrow> b = c"
  by (auto simp: portion_opt_def intro: portion_unique split: option.splits)

definition reduced :: "Lot \<Rightarrow> rat \<Rightarrow> Lot \<Rightarrow> bool" where
  "reduced pool x l \<longleftrightarrow>
     (let k = (left_in pool - x) / left_in pool
      in l = pool\<lparr>remaining := remaining l, remainingCost := remainingCost l, remainingFees := remainingFees l\<rparr> \<and>
         canonical (remaining l) \<and> left_in l = left_in pool - x \<and>
         portion (remainingCost pool) k (remainingCost l) \<and>
         portion_opt (remainingFees pool) k (remainingFees l))"

definition drawn :: "BookState \<Rightarrow> Lot \<Rightarrow> rat \<Rightarrow> BookState \<Rightarrow> bool" where
  "drawn st pool x st' \<longleftrightarrow>
     canonical (held st') \<and> dec_value (held st') = left_in pool - x \<and>
     history st' \<and> indeterminate st' = None \<and> firstOpen st' = 0 \<and>
     (if x = left_in pool
      then lots st' = [] \<and> index st' = Map.empty \<and> closedPools st' = closedPools st @ [poolOf pool]
      else (\<exists>l. lots st' = [l] \<and> reduced pool x l) \<and> index st' = index st \<and> closedPools st' = closedPools st)"

lemma reduced_unique:
  assumes "reduced pool x l" and "reduced pool x m"
  shows "l = m"
proof -
  have "remaining l = remaining m"
    using assms by (intro canonical_eqI) (auto simp: reduced_def Let_def left_in_def)
  moreover have "remainingCost l = remainingCost m" "remainingFees l = remainingFees m"
    using assms portion_unique portion_opt_unique by (auto simp: reduced_def Let_def)
  ultimately show ?thesis using assms unfolding reduced_def Let_def by metis
qed

lemma drawn_unique:
  assumes "drawn st pool x a" and "drawn st pool x b"
  shows "b = a\<lparr>disposals := disposals b\<rparr>"
proof -
  have "held a = held b" using assms by (intro canonical_eqI) (auto simp: drawn_def)
  moreover have "lots a = lots b"
    using assms reduced_unique by (auto simp: drawn_def split: if_splits)
  moreover have "index a = index b" "closedPools a = closedPools b" "firstOpen a = firstOpen b"
    "history a = history b" "indeterminate a = indeterminate b"
    using assms by (auto simp: drawn_def split: if_splits)
  ultimately show ?thesis by simp
qed

text \<open>The record of one disposal of the group: fixed by the pool as it stood.\<close>

definition known_part :: "Lot \<Rightarrow> bool" where
  "known_part pool \<longleftrightarrow> amount_unit (remainingCost pool) \<noteq> None \<or>
     (\<exists>f. remainingFees pool = Some f \<and> amount_unit f \<noteq> None)"

definition drawn_shares :: "Lot \<Rightarrow> ExactDecimal \<Rightarrow> StepShares \<Rightarrow> bool" where
  "drawn_shares pool t s \<longleftrightarrow>
     portion (remainingCost pool) (dec_value t / left_in pool) (shareAmount (costShare s)) \<and>
     shareRounding (costShare s) = None \<and>
     (case (remainingFees pool, feesShare s) of
        (None, None) \<Rightarrow> True
      | (Some f, Some fs) \<Rightarrow> portion f (dec_value t / left_in pool) (shareAmount fs) \<and> shareRounding fs = None
      | _ \<Rightarrow> False)"

lemma Share_eqI: "shareAmount a = shareAmount b \<Longrightarrow> shareRounding a = shareRounding b \<Longrightarrow> a = (b :: Share)"
  by (cases a; cases b) simp

lemma drawn_shares_unique:
  assumes "drawn_shares pool t s" and "drawn_shares pool t s'"
  shows "s = s'"
proof -
  have "costShare s = costShare s'"
    using assms portion_unique by (intro Share_eqI) (auto simp: drawn_shares_def)
  moreover have "feesShare s = feesShare s'"
    using assms by (auto simp: drawn_shares_def intro!: Share_eqI intro: portion_unique split: option.splits)
  ultimately show ?thesis by simp
qed

definition drawnRecord :: "LotPolicy \<Rightarrow> Entry \<Rightarrow> Lot \<Rightarrow> ExactDecimal \<Rightarrow> StepShares \<Rightarrow> LotDisposal" where
  "drawnRecord p e pool t s =
     last (disposals (applyPlan (emptyState\<lparr>lots := [pool]\<rparr>) e t p [(0, t)] [s]))"

lemma applyPlan_drawn:
  assumes "lots st = [l]" and "lotId l = lotId pool" "acquisitionRefs l = acquisitionRefs pool"
    "fxBasis l = fxBasis pool"
  shows "disposals (applyPlan st e t p [(0, t)] [s]) = disposals st @ [drawnRecord p e pool t s]"
  using assms
  by (simp add: drawnRecord_def applyPlan_def Let_def pushDisposal_def closePool_def allocationOf_def
      emptyState_def)

lemma applyPlan_single:
  assumes "lots st = [l]" and "firstOpen st = 0" and "lotMethod p = Moving_average"
  obtains ds where "applyPlan st e t p [(0, t)] [s] =
    (if left_in l = dec_value t
     then st\<lparr>lots := [], index := Map.empty, firstOpen := 0, held := subtractDecimals (held st) t,
             closedPools := closedPools st @ [poolOf l],
             disposals := ds\<rparr>
     else st\<lparr>lots := [takeFrom l t s], held := subtractDecimals (held st) t,
             disposals := ds\<rparr>)"
proof -
  have zero: "isZeroDecimal (remaining (takeFrom l t s)) \<longleftrightarrow> left_in l = dec_value t"
    by (simp add: isZeroDecimal_value left_in_def value_simps)
  have adv: "\<not> isZeroDecimal (remaining (takeFrom l t s)) \<Longrightarrow> advanceOpen [takeFrom l t s] 0 = 0"
    by (simp add: advanceOpen.simps)
  have pool: "poolOf (takeFrom l t s) = poolOf l" by (simp add: poolOf_def)
  show thesis
    by (rule that [of "disposals (applyPlan st e t p [(0, t)] [s])"])
      (use assms zero adv pool in \<open>simp add: applyPlan_def Let_def pushDisposal_def closePool_def\<close>)
qed

text \<open>One draw from a pool: the shares it takes, and what it leaves of the pool.\<close>

lemma pool_shares:
  assumes ma: "lotMethod p = Moving_average" "rounding p = None" and l: "lots st = [l]"
    and pc: "portion (remainingCost pool) (dec_value (remaining l) / left_in pool) (remainingCost l)"
    and pf: "portion_opt (remainingFees pool) (dec_value (remaining l) / left_in pool) (remainingFees l)"
    and fits: "known_part pool \<Longrightarrow> dec_value q < dec_value (remaining l) \<Longrightarrow> ratio_fits q (remaining l)"
    and q: "0 < dec_value q" "dec_value q \<le> dec_value (remaining l)" and Q: "0 < left_in pool"
    and parts: "part_exists (remainingCost pool) (dec_value q / left_in pool)"
      "pred_option (\<lambda>f. part_exists f (dec_value q / left_in pool)) (remainingFees pool)"
  obtains s where "stepShares (lots st) p (0, q) = Some s" "drawn_shares pool q s"
proof -
  obtain c where c: "shareOf (remainingCost l) q (remaining l) None = Some c"
    "portion (remainingCost pool) (dec_value q / left_in pool) (shareAmount c)" "shareRounding c = None"
    by (rule shareOf_portion [OF pc parts(1) q Q]) (use fits in \<open>auto simp: known_part_def\<close>)
  show thesis
  proof (cases "remainingFees l")
    case None
    then have "remainingFees pool = None" using pf by (simp add: portion_opt_def split: option.splits)
    then show thesis using that [of "\<lparr>costShare = c, feesShare = None\<rparr>"] c None ma
      by (simp add: stepShares_def l Let_def drawn_shares_def)
  next
    case (Some f)
    then obtain f0 where f0: "remainingFees pool = Some f0"
      "portion f0 (dec_value (remaining l) / left_in pool) f"
      using pf by (auto simp: portion_opt_def split: option.splits)
    have pf0: "part_exists f0 (dec_value q / left_in pool)" using parts(2) f0(1) by simp
    obtain fs where fs: "shareOf f q (remaining l) None = Some fs"
      "portion f0 (dec_value q / left_in pool) (shareAmount fs)" "shareRounding fs = None"
      by (rule shareOf_portion [OF f0(2) pf0 q Q]) (use fits f0(1) in \<open>auto simp: known_part_def\<close>)
    show thesis using that [of "\<lparr>costShare = c, feesShare = Some fs\<rparr>"] c fs f0 Some ma
      by (simp add: stepShares_def l Let_def drawn_shares_def)
  qed
qed

lemma reduced_take:
  assumes red: "reduced pool x l" and s: "drawn_shares pool q s"
  shows "reduced pool (x + dec_value q) (takeFrom l q s)"
proof -
  have left: "left_in l = left_in pool - x" using red by (simp add: reduced_def Let_def)
  have minus: "(left_in pool - x) / left_in pool - dec_value q / left_in pool =
      (left_in pool - (x + dec_value q)) / left_in pool"
    by (simp add: diff_divide_distrib add_divide_distrib)
  have pc: "portion (remainingCost pool) ((left_in pool - x) / left_in pool) (remainingCost l)"
    and pf: "portion_opt (remainingFees pool) ((left_in pool - x) / left_in pool) (remainingFees l)"
    and sc: "portion (remainingCost pool) (dec_value q / left_in pool) (shareAmount (costShare s))"
    using red s by (simp_all add: reduced_def Let_def drawn_shares_def)
  have "portion (remainingCost pool) ((left_in pool - (x + dec_value q)) / left_in pool) (remainingCost (takeFrom l q s))"
    using portion_minus [OF pc sc] unfolding minus by simp
  moreover have "portion_opt (remainingFees pool) ((left_in pool - (x + dec_value q)) / left_in pool)
      (remainingFees (takeFrom l q s))"
    using pf s portion_minus unfolding minus [symmetric]
    by (auto simp: portion_opt_def drawn_shares_def takeFrom_def split: option.splits)
  moreover obtain r0 c0 f0 where "l = pool\<lparr>remaining := r0, remainingCost := c0, remainingFees := f0\<rparr>"
    using red unfolding reduced_def Let_def by blast
  then have "takeFrom l q s = pool\<lparr>remaining := remaining (takeFrom l q s),
      remainingCost := remainingCost (takeFrom l q s), remainingFees := remainingFees (takeFrom l q s)\<rparr>"
    by (simp add: takeFrom_def)
  ultimately show ?thesis using left by (simp add: reduced_def Let_def)
qed

lemma pool_step:
  assumes ma: "lotMethod p = Moving_average" "rounding p = None"
    and st: "drawn st0 pool x st" "x < left_in pool" "0 \<le> x"
    and scales: "\<forall>l\<in>set (lots st). scale (remaining l) \<le> n" "scale q \<le> n"
    and fits: "known_part pool \<Longrightarrow> whole_fits n (left_in pool)"
    and e: "kind (entryInput e) = Disposal" "exactValue (quantity (entryInput e)) = Some q"
    and q: "0 < dec_value q" "x + dec_value q \<le> left_in pool"
    and parts: "part_exists (remainingCost pool) (dec_value q / left_in pool)"
      "pred_option (\<lambda>f. part_exists f (dec_value q / left_in pool)) (remainingFees pool)"
  obtains st' s where "applyEntry st e p = Some st'" and "drawn st0 pool (x + dec_value q) st'"
    and "drawn_shares pool q s" and "disposals st' = disposals st @ [drawnRecord p e pool q s]"
    and "\<forall>l\<in>set (lots st'). scale (remaining l) \<le> n"
proof -
  obtain l where l: "lots st = [l]" "reduced pool x l" and open0: "firstOpen st = 0"
    and held: "canonical (held st)" "dec_value (held st) = left_in pool - x"
    and go: "indeterminate st = None" "index st = index st0" "closedPools st = closedPools st0"
    using st by (auto simp: drawn_def)
  have left: "left_in l = left_in pool - x" using l(2) by (simp add: reduced_def Let_def)
  obtain r0 c0 f0 where "l = pool\<lparr>remaining := r0, remainingCost := c0, remainingFees := f0\<rparr>"
    using l(2) unfolding reduced_def Let_def by blast
  then have same: "lotId l = lotId pool" "acquisitionRefs l = acquisitionRefs pool" "fxBasis l = fxBasis pool"
    by simp_all
  have Q: "0 < left_in pool" using st by linarith
  have ql: "dec_value q \<le> dec_value (remaining l)" using q(2) left by (simp add: left_in_def)
  have fits': "ratio_fits q (remaining l)" if "known_part pool" "dec_value q < dec_value (remaining l)"
    unfolding ratio_fits_value
    by (rule whole_fits_mono [OF fits [OF that(1)]])
      (use left st(3) scales l(1) that q(1) in \<open>simp_all add: left_in_def\<close>)
  have k: "(left_in pool - x) / left_in pool = dec_value (remaining l) / left_in pool"
    using left by (simp add: left_in_def)
  have pc: "portion (remainingCost pool) (dec_value (remaining l) / left_in pool) (remainingCost l)"
    and pf: "portion_opt (remainingFees pool) (dec_value (remaining l) / left_in pool) (remainingFees l)"
    using l(2) unfolding reduced_def Let_def k by simp_all
  obtain s where s: "stepShares (lots st) p (0, q) = Some s" "drawn_shares pool q s"
    by (rule pool_shares [OF ma l(1) pc pf fits' q(1) ql Q parts])
  have plan: "planDisposal st e q p = Inr [(0, q)]"
    using ma(1) l(1) open0 held ql q(1) left
    by (simp add: planDisposal_def compareDecimals_value isZeroDecimal_value left_in_def Let_def)
  have step: "applyEntry st e p = Some ((applyPlan st e q p [(0, q)] [s])\<lparr>history := True\<rparr>)"
    using go e plan s(1) by (simp add: applyEntry_def Let_def applyDisposal_def)
  obtain ds where single: "applyPlan st e q p [(0, q)] [s] =
    (if left_in l = dec_value q
     then st\<lparr>lots := [], index := Map.empty, firstOpen := 0, held := subtractDecimals (held st) q,
             closedPools := closedPools st @ [poolOf l], disposals := ds\<rparr>
     else st\<lparr>lots := [takeFrom l q s], held := subtractDecimals (held st) q, disposals := ds\<rparr>)"
    by (rule applyPlan_single [OF l(1) open0 ma(1), of e q s])
  have pool_same: "poolOf l = poolOf pool" using same by (simp add: poolOf_def)
  let ?st' = "(applyPlan st e q p [(0, q)] [s])\<lparr>history := True\<rparr>"
  show thesis
  proof (rule that [OF step])
    show "drawn st0 pool (x + dec_value q) ?st'"
      unfolding single using reduced_take [OF l(2) s(2)] left held go open0 pool_same
      by (auto simp: drawn_def value_simps)
    show "drawn_shares pool q s" by (rule s(2))
    show "disposals ?st' = disposals st @ [drawnRecord p e pool q s]"
      using applyPlan_drawn [OF l(1) same, of e q p s] by simp
    have "scale (remaining (takeFrom l q s)) \<le> n"
      using scale_subtract [of "remaining l" q] scales l(1) by simp
    then show "\<forall>l\<in>set (lots ?st'). scale (remaining l) \<le> n"
      unfolding single by simp
  qed
qed

section \<open>A whole group\<close>

definition disposed :: "Entry \<Rightarrow> ExactDecimal" where
  "disposed e = the (exactValue (quantity (entryInput e)))"

definition total_disposed :: "Entry list \<Rightarrow> rat" where
  "total_disposed g = sum_list (map (\<lambda>e. dec_value (disposed e)) g)"

definition record_of :: "LotPolicy \<Rightarrow> Lot \<Rightarrow> Entry \<Rightarrow> LotDisposal \<Rightarrow> bool" where
  "record_of p pool e d \<longleftrightarrow>
     (\<exists>s. drawn_shares pool (disposed e) s \<and> d = drawnRecord p e pool (disposed e) s)"

lemma record_of_unique: "record_of p pool e d \<Longrightarrow> record_of p pool e d' \<Longrightarrow> d = d'"
  using drawn_shares_unique by (auto simp: record_of_def)

text \<open>What the group check has established of each disposal of the group.\<close>

definition drawable :: "Lot \<Rightarrow> nat \<Rightarrow> Entry \<Rightarrow> bool" where
  "drawable pool n e \<longleftrightarrow>
     kind (entryInput e) = Disposal \<and>
     exactValue (quantity (entryInput e)) = Some (disposed e) \<and>
     0 < dec_value (disposed e) \<and> scale (disposed e) \<le> n \<and>
     part_exists (remainingCost pool) (dec_value (disposed e) / left_in pool) \<and>
     pred_option (\<lambda>f. part_exists f (dec_value (disposed e) / left_in pool)) (remainingFees pool)"

lemma pool_run:
  assumes ma: "lotMethod p = Moving_average" "rounding p = None"
    and "drawn st0 pool x st" and "0 \<le> x"
    and "\<forall>l\<in>set (lots st). scale (remaining l) \<le> n"
    and fits: "known_part pool \<Longrightarrow> whole_fits n (left_in pool)"
    and "\<forall>e\<in>set g. drawable pool n e" and "x + total_disposed g \<le> left_in pool"
  shows "\<exists>st' ds. applyEntries st g p = Some st' \<and> drawn st0 pool (x + total_disposed g) st' \<and>
    disposals st' = disposals st @ ds \<and> list_all2 (record_of p pool) g ds"
  using assms(3-5,7-8)
proof (induction g arbitrary: st x)
  case Nil
  then show ?case by (simp add: total_disposed_def)
next
  case (Cons e g)
  have e: "kind (entryInput e) = Disposal" "exactValue (quantity (entryInput e)) = Some (disposed e)"
    "0 < dec_value (disposed e)" "scale (disposed e) \<le> n"
    "part_exists (remainingCost pool) (dec_value (disposed e) / left_in pool)"
    "pred_option (\<lambda>f. part_exists f (dec_value (disposed e) / left_in pool)) (remainingFees pool)"
    using Cons.prems(4) by (simp_all add: drawable_def)
  have "0 \<le> total_disposed g"
    unfolding total_disposed_def using Cons.prems(4)
    by (intro sum_list_nonneg) (auto simp: drawable_def intro: less_imp_le)
  then have room: "x + dec_value (disposed e) \<le> left_in pool"
    using Cons.prems(5) by (simp add: total_disposed_def)
  then have less: "x < left_in pool" using e(3) by linarith
  obtain st1 s where st1: "applyEntry st e p = Some st1" "drawn st0 pool (x + dec_value (disposed e)) st1"
    "drawn_shares pool (disposed e) s" "disposals st1 = disposals st @ [drawnRecord p e pool (disposed e) s]"
    "\<forall>l\<in>set (lots st1). scale (remaining l) \<le> n"
    by (rule pool_step [OF ma Cons.prems(1) less Cons.prems(2,3) e(4) fits e(1-3) room e(5-6)])
      (assumption, rule that)
  have "0 \<le> x + dec_value (disposed e)" using Cons.prems(2) e(3) by simp
  moreover have "x + dec_value (disposed e) + total_disposed g \<le> left_in pool"
    using Cons.prems(5) by (simp add: total_disposed_def)
  ultimately obtain st' ds where "applyEntries st1 g p = Some st'"
    "drawn st0 pool (x + dec_value (disposed e) + total_disposed g) st'"
    "disposals st' = disposals st1 @ ds" "list_all2 (record_of p pool) g ds"
    using Cons.IH [OF st1(2) _ st1(5)] Cons.prems(4) by auto
  moreover have "record_of p pool e (drawnRecord p e pool (disposed e) s)"
    using st1(3) by (auto simp: record_of_def)
  ultimately show ?case using st1
    by (intro exI [of _ st'] exI [of _ "drawnRecord p e pool (disposed e) s # ds"])
      (simp add: total_disposed_def add.assoc)
qed

text \<open>What a disposal group that passes the check is.\<close>

text \<open>Of two or more disposals, each takes less than all of them together; and one scale bounds the group.\<close>

lemma part_of_total:
  assumes pos: "\<forall>f\<in>set g. 0 < dec_value (disposed f)" and e: "e \<in> set g" and two: "2 \<le> length g"
  shows "dec_value (disposed e) < total_disposed g"
proof -
  have "total_disposed g = dec_value (disposed e) + total_disposed (remove1 e g)"
    using e by (simp add: total_disposed_def sum_list_map_remove1)
  moreover have "0 < total_disposed (remove1 e g)"
  proof -
    have "length (remove1 e g) = length g - 1" using e by (simp add: length_remove1)
    then obtain f fs where f: "remove1 e g = f # fs" using two by (cases "remove1 e g") auto
    have sub: "set (f # fs) \<subseteq> set g" using set_remove1_subset [of e g] f by simp
    have "0 \<le> total_disposed fs"
      unfolding total_disposed_def using pos sub by (intro sum_list_nonneg) (auto intro: less_imp_le)
    moreover have "0 < dec_value (disposed f)" using pos sub by simp
    ultimately show ?thesis by (simp add: f total_disposed_def)
  qed
  ultimately show ?thesis by linarith
qed

lemma group_scale:
  assumes "g \<noteq> []" and "\<forall>e\<in>set g. whole_fits (max (scale (disposed e)) m) x"
  obtains n where "m \<le> n" "\<forall>e\<in>set g. scale (disposed e) \<le> n" "whole_fits n x"
proof -
  define n where "n = Max (insert m (scale ` disposed ` set g))"
  have n: "m \<le> n" "e \<in> set g \<Longrightarrow> scale (disposed e) \<le> n" for e by (simp_all add: n_def)
  have "n \<in> insert m (scale ` disposed ` set g)" unfolding n_def by (rule Max_in) auto
  then obtain e where "e \<in> set g" "max (scale (disposed e)) m = n"
  proof (elim insertE imageE)
    assume "n = m"
    with assms(1) n(2) [of "hd g"] that [of "hd g"] show thesis by simp
  qed (use n that in auto)
  with assms(2) n that [of n] show thesis by blast
qed

lemma groupFailure_disposals:
  assumes none: "groupFailure st g p = None" and g: "\<forall>e\<in>set g. kind (entryInput e) = Disposal"
    and two: "2 \<le> length g" and entries: "\<forall>e\<in>set g. entry_ok p e"
  obtains pool rest n where "lots st = pool # rest" and "\<forall>e\<in>set g. drawable pool n e"
    and "known_part pool \<Longrightarrow> whole_fits n (left_in pool)" and "total_disposed g \<le> left_in pool"
    and "scale (remaining pool) \<le> n"
proof -
  have g_some: "g \<noteq> []" using two by auto
  then have notacq: "\<not> list_all (\<lambda>e. kind (entryInput e) = Acquisition) g" using g by (cases g) auto
  have some: "\<not> list_ex (\<lambda>q. q = None) (map (\<lambda>e. exactValue (quantity (entryInput e))) g)"
    using none unfolding groupFailure_def Let_def by (rule contrapos_pn) simp
  then have exact: "exactValue (quantity (entryInput e)) = Some (disposed e)" if "e \<in> set g" for e
    using that by (cases "exactValue (quantity (entryInput e))") (force simp: list_ex_iff, simp add: disposed_def)
  have pos: "0 < dec_value (disposed e)" if "e \<in> set g" for e
    using entry_quantity(2) [of p e "disposed e"] entries exact [OF that] g that by auto
  obtain pool rest where pool: "lots st = pool # rest"
    using none notacq some by (cases "lots st") (auto simp: groupFailure_def Let_def)
  have fold: "dec_value (foldl (\<lambda>total q. addDecimals total (the q)) z
      (map (\<lambda>e. exactValue (quantity (entryInput e))) hs)) = dec_value z + total_disposed hs" for z hs
    by (induction hs arbitrary: z) (simp_all add: total_disposed_def disposed_def value_simps)
  have sum: "total_disposed g \<le> left_in pool"
    using none notacq some pool fold [of ZERO g]
    by (auto simp: groupFailure_def Let_def compareDecimals_value left_in_def split: if_splits)
  have "\<not> list_ex (\<lambda>q. shareOf (remainingCost pool) (the q) (remaining pool) None = None \<or>
      (case remainingFees pool of None \<Rightarrow> False | Some f \<Rightarrow> shareOf f (the q) (remaining pool) None = None))
      (map (\<lambda>e. exactValue (quantity (entryInput e))) g)"
    using none notacq some pool by (auto simp: groupFailure_def Let_def split: if_splits)
  then have shares: "shareOf (remainingCost pool) (disposed e) (remaining pool) None \<noteq> None \<and>
      (\<forall>f. remainingFees pool = Some f \<longrightarrow> shareOf f (disposed e) (remaining pool) None \<noteq> None)"
    if "e \<in> set g" for e
    using that by (auto simp: list_ex_iff disposed_def)
  have share_exact: "part_exists a (dec_value (disposed e) / left_in pool) \<and>
      (amount_unit a \<noteq> None \<longrightarrow> ratio_fits (disposed e) (remaining pool))"
    if e: "e \<in> set g" and sh: "shareOf a (disposed e) (remaining pool) None \<noteq> None" for a e
  proof (cases a)
    case (KnownAmount u v)
    have "dec_value (disposed e) < dec_value (remaining pool)"
      using part_of_total [of g e] pos e two sum by (simp add: left_in_def)
    from shareOf_exact_iff [OF pos [OF e] this, of u v] show ?thesis
      using sh unfolding KnownAmount part_exists_def left_in_def by simp
  qed (simp add: part_exists_def)
  have ratio: "ratio_fits (disposed e) (remaining pool)" if "known_part pool" "e \<in> set g" for e
    using that(1) share_exact [OF that(2)] shares [OF that(2)] by (auto simp: known_part_def)
  obtain n where n: "scale (remaining pool) \<le> n" "\<forall>e\<in>set g. scale (disposed e) \<le> n"
    "known_part pool \<Longrightarrow> whole_fits n (left_in pool)"
  proof (cases "known_part pool")
    case True
    then have "\<forall>e\<in>set g. whole_fits (max (scale (disposed e)) (scale (remaining pool))) (left_in pool)"
      using ratio by (simp add: ratio_fits_value left_in_def)
    from group_scale [OF g_some this] that show thesis by metis
  next
    case False
    with that [of "Max (insert (scale (remaining pool)) (scale ` disposed ` set g))"] show thesis by simp
  qed
  have "drawable pool n e" if e: "e \<in> set g" for e
    using e g exact pos n(2) share_exact [OF e] shares [OF e] by (auto simp: drawable_def pred_option_def)
  with that pool sum n(1,3) show thesis by blast
qed

section \<open>Amounts stay canonical\<close>

definition lot_amounts :: "Lot \<Rightarrow> bool" where
  "lot_amounts l \<longleftrightarrow>
     amount_canonical (remainingCost l) \<and> pred_option amount_canonical (remainingFees l)"

definition amounts_ok :: "BookState \<Rightarrow> bool" where
  "amounts_ok st \<longleftrightarrow> list_all lot_amounts (lots st)"

lemma multiplyByRatio_canonical: "multiplyByRatio v r rd = Inr d \<Longrightarrow> canonical d"
  by (auto simp: multiplyByRatio_def ratioToDecimal_def Let_def split: if_splits prod.splits option.splits)

lemma shareOf_canonical: "shareOf a t left rp = Some s \<Longrightarrow> amount_canonical a \<Longrightarrow> amount_canonical (shareAmount s)"
  by (cases a) (auto simp: shareOf_def Let_def split: if_splits option.splits sum.splits
      dest: multiplyByRatio_canonical)

lemma combine_canonical:
  "amount_canonical a \<Longrightarrow> amount_canonical b \<Longrightarrow> amount_canonical (combine a b i)"
  by (cases a; cases b)
    (auto simp: combine_def addQuantities_exact subtractQuantities_exact Let_def)

lemma sumAmounts_canonical:
  assumes "\<forall>a\<in>set as. amount_canonical a"
  shows "pred_option amount_canonical (sumAmounts as)"
proof -
  have "amount_canonical (foldl (\<lambda>total nxt. combine total nxt 1) z bs)"
    if "amount_canonical z" "\<forall>b\<in>set bs. amount_canonical b" for z bs
    using that by (induction bs arbitrary: z) (simp_all add: combine_canonical)
  with assms show ?thesis by (cases as) (auto simp: sumAmounts_def)
qed

lemma inCostUnit_canonical: "validQuantity q \<Longrightarrow> amount_canonical (fst (inCostUnit q rate p absent))"
  by (auto simp: inCostUnit_def dest: validQuantity_canonical split: option.splits)

lemma inputAmounts_canonical:
  assumes "validLotInput i"
  shows "amount_canonical (considerationAmount (inputAmounts i p))"
    and "pred_option amount_canonical (feesAmount (inputAmounts i p))"
proof -
  show "amount_canonical (considerationAmount (inputAmounts i p))"
    using assms by (cases "consideration i")
      (auto simp: inputAmounts_def Let_def validLotInput_def intro!: inCostUnit_canonical)
  have "\<forall>fee\<in>set (inputFees i). validQuantity fee"
    using assms by (simp add: validLotInput_def list_all_iff)
  then show "pred_option amount_canonical (feesAmount (inputAmounts i p))"
    unfolding inputAmounts_def Let_def InputAmounts.select_convs
    by (intro sumAmounts_canonical) (auto intro: inCostUnit_canonical)
qed

lemma acquisitionCost_canonical: "validLotInput i \<Longrightarrow> amount_canonical (acquisitionCost i p)"
  using inputAmounts_canonical [of i p]
  by (auto simp: acquisitionCost_def Let_def intro!: combine_canonical split: option.splits)

lemma takePlan_amounts:
  assumes "list_all lot_amounts ls"
    and "\<forall>step\<in>set steps. fst (fst step) < length ls \<longrightarrow>
      amount_canonical (shareAmount (costShare (snd step))) \<and>
      pred_option (\<lambda>f. amount_canonical (shareAmount f)) (feesShare (snd step))"
  shows "list_all lot_amounts (takePlan ls steps)"
  using assms
proof (induction ls steps rule: takePlan.induct)
  case (2 ls position t s steps)
  have "list_all lot_amounts (ls[position := takeFrom (ls ! position) t s])"
  proof (cases "position < length ls")
    case True
    then have "lot_amounts (ls ! position)" using "2.prems"(1) by (simp add: list_all_length)
    then have "lot_amounts (takeFrom (ls ! position) t s)"
      using "2.prems"(2) True
      by (auto simp: lot_amounts_def takeFrom_def intro!: combine_canonical split: option.splits)
    then show ?thesis
      using "2.prems"(1) set_update_subset_insert [of ls position "takeFrom (ls ! position) t s"]
      by (auto simp: list_all_iff)
  qed (use "2.prems"(1) in \<open>simp add: list_update_beyond\<close>)
  then show ?case using "2.prems"(2) by (simp add: "2.IH")
qed simp

lemma stepShares_canonical:
  assumes "stepShares ls p (k, t) = Some s" and "lot_amounts (ls ! k)"
  shows "amount_canonical (shareAmount (costShare s)) \<and>
    pred_option (\<lambda>f. amount_canonical (shareAmount f)) (feesShare s)"
  using stepShares_Some [OF assms(1)] assms(2)
  by (auto simp: lot_amounts_def dest: shareOf_canonical split: option.splits)

lemma applyDisposal_amounts:
  assumes ok: "amounts_ok st" and fits: "\<And>plan. planDisposal st e q p = Inr plan \<Longrightarrow> plan_fits 0 (lots st) plan"
  shows "amounts_ok (applyDisposal st e q p)"
proof (cases rule: applyDisposal_cases [of st e q p])
  case (failed r)
  then show ?thesis using ok by (simp add: failDisposal_def amounts_ok_def pushDisposal_def markIndeterminate_def)
next
  case (planned plan shares)
  have len: "length shares = length plan" using planned(2) unfolding collect_Some by (metis length_map)
  have "list_all lot_amounts (takePlan (lots st) (zip plan shares))"
  proof (rule takePlan_amounts)
    show "list_all lot_amounts (lots st)" using ok by (simp add: amounts_ok_def)
    show "\<forall>step\<in>set (zip plan shares). fst (fst step) < length (lots st) \<longrightarrow>
      amount_canonical (shareAmount (costShare (snd step))) \<and>
      pred_option (\<lambda>f. amount_canonical (shareAmount f)) (feesShare (snd step))"
    proof
      fix step assume "step \<in> set (zip plan shares)"
      then obtain i where i: "i < length plan" "step = (plan ! i, shares ! i)"
        using len by (auto simp: in_set_zip)
      have "stepShares (lots st) p (plan ! i) = Some (shares ! i)"
        using planned(2) i len unfolding collect_Some by (metis nth_map)
      moreover obtain k t where kt: "plan ! i = (k, t)" by fastforce
      moreover have "lot_amounts (lots st ! k)"
        using plan_fits_step [OF fits [OF planned(1)], of k t] kt i ok nth_mem [OF i(1)]
        by (simp add: amounts_ok_def list_all_length)
      ultimately show "fst (fst step) < length (lots st) \<longrightarrow>
          amount_canonical (shareAmount (costShare (snd step))) \<and>
          pred_option (\<lambda>f. amount_canonical (shareAmount f)) (feesShare (snd step))"
        using stepShares_canonical i(2) by auto
    qed
  qed
  then show ?thesis
    using applyPlan_lots [of st e q p plan shares] planned(3) by (auto simp: amounts_ok_def)
qed

lemma applyEntry_amounts:
  assumes amounts: "amounts_ok st" and ok: "book_ok p st" and entry: "entry_ok p e"
    and run: "applyEntry st e p = Some st'"
  shows "amounts_ok st'"
proof (cases "indeterminate st \<noteq> None \<or> exactValue (quantity (entryInput e)) = None")
  case True
  then show ?thesis using run amounts
    by (auto simp: applyEntry_def Let_def amounts_ok_def markIndeterminate_def pushDisposal_def split: if_splits)
next
  case False
  then obtain q where q: "exactValue (quantity (entryInput e)) = Some q" by auto
  note qs = entry_quantity [OF entry q]
  have valid: "validLotInput (entryInput e)" using entry by (simp add: entry_ok_def)
  have hist: "amounts_ok (s\<lparr>history := True\<rparr>) = amounts_ok s" for s :: BookState
    by (simp add: amounts_ok_def)
  have mark: "amounts_ok (markIndeterminate st refs r)" for refs r
    using amounts by (simp add: amounts_ok_def markIndeterminate_def)
  show ?thesis
  proof (cases "kind (entryInput e)")
    case Acquisition
    have "amounts_ok (applyAcquisition st e q p)"
      using amounts mark acquisitionCost_canonical [OF valid, of p] inputAmounts_canonical(2) [OF valid, of p]
      by (cases rule: applyAcquisition_cases [OF ok, of e q])
        (auto simp: amounts_ok_def addLot_def lot_amounts_def addFees_def intro!: combine_canonical
          split: option.splits)
    then show ?thesis using run False q Acquisition by (auto simp: applyEntry_def Let_def hist)
  next
    case Disposal
    then have "0 < dec_value q" using qs by simp
    then have "amounts_ok (applyDisposal st e q p)"
      using planDisposal_fits [OF ok entry Disposal] by (intro applyDisposal_amounts [OF amounts]) blast
    then show ?thesis using run False q Disposal by (auto simp: applyEntry_def Let_def hist)
  next
    case Split
    have "firstOpen st \<le> length (lots st)" using ok by (simp add: book_defs)
    moreover have "lot_amounts (splitLot ref r l d) = lot_amounts l" for ref r l d
      by (simp add: lot_amounts_def)
    ultimately have "amounts_ok (applySplit st e q)"
      using amounts mark
      by (cases rule: applySplit_cases [of st e q, case_names bounds marked scaled])
        (auto simp: amounts_ok_def splitLots_def list_all_iff dest: in_set_takeD in_set_dropD)
    then show ?thesis using run False q Split by (auto simp: applyEntry_def Let_def hist)
  next
    case Snapshot
    have "amounts_ok (applySnapshot st e q p)"
      using amounts mark by (cases rule: applySnapshot_cases [of st e q p])
        (auto simp: amounts_ok_def addLot_def lot_amounts_def)
    then show ?thesis using run False q Snapshot by (auto simp: applyEntry_def Let_def hist)
  next
    case Transfer
    then show ?thesis using run False q by (auto simp: applyEntry_def Let_def)
  qed
qed

section \<open>The group theorem\<close>

lemma drawn_start:
  assumes ok: "book_ok p st" "amounts_ok st" "seeded st" and ma: "lotMethod p = Moving_average"
    and go: "indeterminate st = None" and lots: "lots st = pool # rest"
  shows "drawn st pool 0 st" and "lots st = [pool]"
proof -
  show one: "lots st = [pool]" using ok(1) ma lots by (cases rest) (auto simp: book_defs)
  have pos: "0 < left_in pool" "canonical (remaining pool)"
    using ok(1) ma one by (auto simp: book_defs lot_ok_def)
  have "portion (remainingCost pool) 1 (remainingCost pool)"
    "portion_opt (remainingFees pool) 1 (remainingFees pool)"
    using ok(2) one portion_one by (auto simp: amounts_ok_def lot_amounts_def portion_opt_def split: option.split)
  then have "reduced pool 0 pool" using pos by (simp add: reduced_def Let_def)
  then show "drawn st pool 0 st"
    using ok(1,3) ma one go pos by (simp add: drawn_def book_defs seeded_def)
qed

text \<open>
  A disposal group that passes the check runs through in any order, to the same state and the same
  records.
\<close>

lemma disposal_group_runs:
  assumes ok: "book_ok p st" "amounts_ok st" "seeded st" and go: "indeterminate st = None"
    and ma: "lotMethod p = Moving_average" "rounding p = None"
    and g: "\<forall>e\<in>set g. kind (entryInput e) = Disposal" "2 \<le> length g" "\<forall>e\<in>set g. entry_ok p e"
    and none: "groupFailure st g p = None"
  obtains pool where "\<And>h. mset h = mset g \<Longrightarrow> \<exists>st' ds. applyEntries st h p = Some st' \<and>
    drawn st pool (total_disposed g) st' \<and> disposals st' = disposals st @ ds \<and> list_all2 (record_of p pool) h ds"
proof -
  obtain pool rest n where pool: "lots st = pool # rest" and draw: "\<forall>e\<in>set g. drawable pool n e"
    and fits: "known_part pool \<Longrightarrow> whole_fits n (left_in pool)" and total: "total_disposed g \<le> left_in pool"
    and n: "scale (remaining pool) \<le> n"
    by (rule groupFailure_disposals [OF none g]) (rule that)
  note start = drawn_start [OF ok ma(1) go pool]
  show thesis
  proof (rule that [of pool])
    fix h :: "Entry list" assume h: "mset h = mset g"
    then have sets: "set h = set g" by (metis set_mset_mset)
    have same: "total_disposed h = total_disposed g"
      using h unfolding total_disposed_def by (metis mset_map sum_mset_sum_list)
    have draw': "\<forall>e\<in>set h. drawable pool n e" using draw sets by simp
    have scales: "\<forall>l\<in>set (lots st). scale (remaining l) \<le> n" using start(2) n by simp
    have "0 + total_disposed h \<le> left_in pool" using total same by simp
    from pool_run [OF ma start(1) order.refl scales fits draw' this]
    show "\<exists>st' ds. applyEntries st h p = Some st' \<and> drawn st pool (total_disposed g) st' \<and>
        disposals st' = disposals st @ ds \<and> list_all2 (record_of p pool) h ds"
      by (simp add: same)
  qed
qed

lemma records_perm:
  assumes "list_all2 R xs ds" and "list_all2 R ys es" and "mset xs = mset ys"
    and unique: "\<And>x d e. R x d \<Longrightarrow> R x e \<Longrightarrow> d = e"
  shows "mset ds = mset es"
proof -
  define f where "f x = (SOME d. R x d)" for x
  have f: "R x d \<Longrightarrow> f x = d" for x d unfolding f_def using unique by (metis someI)
  have "ds = map f xs" using assms(1) by (induction rule: list_all2_induct) (auto simp: f)
  moreover have "es = map f ys" using assms(2) by (induction rule: list_all2_induct) (auto simp: f)
  ultimately show ?thesis using assms(3) by (metis mset_map)
qed

end
