(* ===== verification/Lot_Results.thy ===== *)
theory Lot_Results
  imports Lot_Books
begin

text \<open>
  The whole run of the lot engine (\<open>computeLots\<close> of \<open>packages/domain/src/lots.ts\<close>): what each gate
  looks for, that the run always returns, and that its result is a function of the set of inputs and
  not of the order in which they are listed.
\<close>

section \<open>Maps that keep the insertion order\<close>

lemma js_set_snoc: "js_set (xs @ [x]) = (if x \<in> set xs then js_set xs else js_set xs @ [x])"
  by (simp add: js_set_def)

lemma multimap_add_eq:
  assumes "distinct (map fst m)"
  shows "multimap_add k v m =
    (if k \<in> fst ` set m then map (\<lambda>(k', vs). if k' = k then (k', vs @ [v]) else (k', vs)) m
     else m @ [(k, [v])])"
  using assms
proof (induction m)
  case (Cons x m)
  obtain k' vs where x: "x = (k', vs)" by fastforce
  have "map (\<lambda>(k', vs). if k' = k then (k', vs @ [v]) else (k', vs)) m = m" if "k \<notin> fst ` set m"
    by (rule map_idI) (use that in force)
  with Cons x show ?case by auto
qed simp

lemma multimap_eq:
  "multimap pairs = map (\<lambda>k. (k, map snd (filter (\<lambda>x. fst x = k) pairs))) (js_set (map fst pairs))"
proof (induction pairs rule: rev_induct)
  case (snoc x pairs)
  obtain k v where x: "x = (k, v)" by fastforce
  let ?m = "map (\<lambda>k. (k, map snd (filter (\<lambda>x. fst x = k) pairs))) (js_set (map fst pairs))"
  have fst: "map fst ?m = js_set (map fst pairs)" by (simp add: comp_def)
  have dist: "distinct (map fst ?m)" unfolding fst by simp
  have keys: "fst ` set ?m = fst ` set pairs" using fst by (metis list.set_map set_js_set)
  have "multimap (pairs @ [x]) = multimap_add k v ?m" using snoc by (simp add: multimap_def x)
  also have "\<dots> = map (\<lambda>k. (k, map snd (filter (\<lambda>x. fst x = k) (pairs @ [x])))) (js_set (map fst (pairs @ [x])))"
  proof (cases "k \<in> fst ` set pairs")
    case True
    then show ?thesis
      unfolding multimap_add_eq [OF dist] keys by (auto simp: x js_set_snoc)
  next
    case False
    then have "filter (\<lambda>x. fst x = k) pairs = []" by (auto simp: filter_empty_conv)
    moreover have "k' \<noteq> k" if "k' \<in> set (js_set (map fst pairs))" for k' using that False by auto
    ultimately show ?thesis
      using False unfolding multimap_add_eq [OF dist] keys by (auto simp: x js_set_snoc)
  qed
  finally show ?case .
qed (simp add: multimap_def js_set_def)

section \<open>Books\<close>

definition keyOf :: "Entry \<Rightarrow> string list" where
  "keyOf e = bookKeyOf (entryInput e)"

definition bookAt :: "Entry list \<Rightarrow> string list \<Rightarrow> Entry list" where
  "bookAt entries k = filter (\<lambda>e. keyOf e = k) entries"

definition bookKeys :: "Entry list \<Rightarrow> string list list" where
  "bookKeys entries = js_set (map keyOf entries)"

lemma booksOf_eq: "booksOf entries = map (\<lambda>k. (k, bookAt entries k)) (bookKeys entries)"
proof -
  have "map snd (filter (\<lambda>x. fst x = k) (map (\<lambda>e. (bookKeyOf (entryInput e), e)) entries)) = bookAt entries k" for k
    by (simp add: filter_map comp_def bookAt_def keyOf_def)
  moreover have "map fst (map (\<lambda>e. (bookKeyOf (entryInput e), e)) entries) = map keyOf entries"
    by (simp add: keyOf_def)
  ultimately show ?thesis by (simp only: booksOf_def multimap_eq bookKeys_def)
qed

lemma set_bookKeys [simp]: "set (bookKeys entries) = keyOf ` set entries"
  by (simp add: bookKeys_def)

lemma distinct_bookKeys [simp]: "distinct (bookKeys entries)"
  by (simp add: bookKeys_def)

lemma set_bookAt [simp]: "set (bookAt entries k) = {e \<in> set entries. keyOf e = k}"
  by (simp add: bookAt_def)

lemma bookAt_nonempty: "k \<in> keyOf ` set entries \<Longrightarrow> bookAt entries k \<noteq> []"
  by (auto simp: bookAt_def filter_empty_conv)

lemma hd_bookAt: "k \<in> keyOf ` set entries \<Longrightarrow> hd (bookAt entries k) \<in> set entries \<and> keyOf (hd (bookAt entries k)) = k"
  using bookAt_nonempty [of k entries] hd_in_set [of "bookAt entries k"] by auto

section \<open>What the gates look for\<close>

lemma classify_eq:
  "classify p is =
     (map (\<lambda>i. if validLotInput i \<or> validLotInputRef (inputRef i) then lotInputRefText (inputRef i)
               else ''input:invalid'')
        (filter (\<lambda>i. \<not> (validLotInput i \<and> inputRulesHold i p)) is),
      map (entryOf p) (filter (\<lambda>i. validLotInput i \<and> inputRulesHold i p) is))"
  by (induction "is") (auto simp: Let_def split: prod.split)

lemma set_mixedClasses:
  "set (mixedClasses (booksOf entries)) =
     {entryRef e | e. e \<in> set entries \<and> (\<exists>f\<in>set entries. keyOf f = keyOf e \<and>
        instrumentClass (entryInput f) \<noteq> instrumentClass (entryInput e))}"
proof -
  have several: "1 < length (js_set (map (\<lambda>e. instrumentClass (entryInput e)) b)) \<longleftrightarrow>
      (\<exists>e\<in>set b. \<exists>f\<in>set b. instrumentClass (entryInput f) \<noteq> instrumentClass (entryInput e))" for b
    unfolding several_js_set by auto
  show ?thesis
    unfolding mixedClasses_def booksOf_eq several
    by (auto split: if_splits) (metis+)?
qed

lemma set_repeatedRefs:
  "set (repeatedRefs seen rs) = {r \<in> set rs. r \<in> seen \<or> 1 < count (mset rs) r}"
proof (induction seen rs rule: repeatedRefs.induct)
  case (2 seen r rs)
  have "r \<in> set rs \<longleftrightarrow> 0 < count (mset rs) r" by simp
  with 2 show ?case by (auto simp: count_eq_zero_iff simp del: count_mset)
qed simp

lemma repeatedRefs_Nil: "repeatedRefs {} rs = [] \<longleftrightarrow> distinct rs"
proof -
  have "repeatedRefs {} rs = [] \<longleftrightarrow> set (repeatedRefs {} rs) = {}" by simp
  also have "\<dots> \<longleftrightarrow> (\<forall>r\<in>set rs. count (mset rs) r = 1)"
    unfolding set_repeatedRefs by (auto simp: not_less Suc_le_eq le_Suc_eq simp del: count_mset)
  also have "\<dots> \<longleftrightarrow> distinct rs" by (auto simp: distinct_count_atmost_1 count_mset_0_iff simp del: count_mset)
  finally show ?thesis .
qed

definition slotOf :: "Entry \<Rightarrow> string \<times> string" where
  "slotOf e = (instrumentRef (entryInput e), entryRef e)"

text \<open>A slot's books and whether it holds transfers only, over a list of book entries.\<close>

definition slotBooks :: "(string list \<times> Entry) list \<Rightarrow> string \<times> string \<Rightarrow> string list set" where
  "slotBooks ps slot = {k. \<exists>e. (k, e) \<in> set ps \<and> slotOf e = slot}"

definition slotTransfers :: "(string list \<times> Entry) list \<Rightarrow> string \<times> string \<Rightarrow> bool" where
  "slotTransfers ps slot \<longleftrightarrow> (\<forall>(k, e)\<in>set ps. slotOf e = slot \<longrightarrow> kind (entryInput e) = Transfer)"

definition slotSeen :: "(string \<times> string \<rightharpoonup> string list set \<times> bool) \<Rightarrow> string \<times> string \<Rightarrow> string list set \<times> bool" where
  "slotSeen holders slot = (case holders slot of None \<Rightarrow> ({}, True) | Some seen \<Rightarrow> seen)"

lemma slotSeen_update: "slotSeen (holders(slot \<mapsto> x)) s = (if s = slot then x else slotSeen holders s)"
  by (simp add: slotSeen_def)

lemma finite_slotBooks [simp]: "finite (slotBooks ps slot)"
proof -
  have "slotBooks ps slot \<subseteq> fst ` set ps" by (force simp: slotBooks_def)
  then show ?thesis by (rule finite_subset) simp
qed

lemma slot_Cons:
  "slotBooks ((k, e) # ps) slot = (if slotOf e = slot then insert k (slotBooks ps slot) else slotBooks ps slot)"
  "slotTransfers ((k, e) # ps) slot \<longleftrightarrow>
     (slotOf e = slot \<longrightarrow> kind (entryInput e) = Transfer) \<and> slotTransfers ps slot"
  by (auto simp: slotBooks_def slotTransfers_def)

lemma crossHeld_Cons:
  "crossHeld holders ((k, e) # rest) =
     (let (books, only) = slotSeen holders (slotOf e);
          books' = insert k books; only' = (only \<and> kind (entryInput e) = Transfer)
      in (if 1 < card books' \<and> \<not> only' then [entryRef e] else []) @
         crossHeld (holders(slotOf e \<mapsto> (books', only'))) rest)"
  by (simp add: slotSeen_def slotOf_def Let_def)

lemma set_crossHeld:
  assumes "\<And>slot. finite (fst (slotSeen holders slot))"
  shows "set (crossHeld holders ps) = {r. \<exists>i. slotBooks ps (i, r) \<noteq> {} \<and>
    1 < card (fst (slotSeen holders (i, r)) \<union> slotBooks ps (i, r)) \<and>
    \<not> (snd (slotSeen holders (i, r)) \<and> slotTransfers ps (i, r))}"
  using assms
proof (induction ps arbitrary: holders)
  case Nil
  then show ?case by (simp add: slotBooks_def)
next
  case (Cons p ps)
  obtain k e where p: "p = (k, e)" by fastforce
  obtain i0 r0 where slot: "slotOf e = (i0, r0)" by fastforce
  then have r0: "entryRef e = r0" by (simp add: slotOf_def)
  obtain bs only where seen: "slotSeen holders (i0, r0) = (bs, only)" by fastforce
  let ?only = "only \<and> kind (entryInput e) = Transfer"
  let ?holders = "holders((i0, r0) \<mapsto> (insert k bs, ?only))"
  have fin: "finite bs" using Cons.prems [of "(i0, r0)"] seen by simp
  have IH: "set (crossHeld ?holders ps) = {r. \<exists>i. slotBooks ps (i, r) \<noteq> {} \<and>
      1 < card (fst (slotSeen ?holders (i, r)) \<union> slotBooks ps (i, r)) \<and>
      \<not> (snd (slotSeen ?holders (i, r)) \<and> slotTransfers ps (i, r))}"
  proof (rule Cons.IH)
    show "finite (fst (slotSeen ?holders slot))" for slot
      unfolding slotSeen_update using Cons.prems fin by simp
  qed
  have head: "crossHeld holders (p # ps) =
      (if 1 < card (insert k bs) \<and> \<not> ?only then [r0] else []) @ crossHeld ?holders ps"
    unfolding p crossHeld_Cons slot seen by (simp add: r0 Let_def)
  show ?case
  proof (rule set_eqI)
    fix r
    have grow: "1 < card (insert k bs \<union> slotBooks ps (i0, r0))" if "1 < card (insert k bs)"
    proof -
      have "card (insert k bs) \<le> card (insert k bs \<union> slotBooks ps (i0, r0))"
        by (rule card_mono) (use fin in auto)
      with that show ?thesis by linarith
    qed
    have union: "insert k (slotBooks ps (i0, r0)) \<union> bs = insert k bs \<union> slotBooks ps (i0, r0)" by blast
    have at: "(slotBooks (p # ps) (i, r) \<noteq> {} \<and>
        1 < card (fst (slotSeen holders (i, r)) \<union> slotBooks (p # ps) (i, r)) \<and>
        \<not> (snd (slotSeen holders (i, r)) \<and> slotTransfers (p # ps) (i, r))) \<longleftrightarrow>
      ((i, r) = (i0, r0) \<and> 1 < card (insert k bs) \<and> \<not> ?only) \<or>
      (slotBooks ps (i, r) \<noteq> {} \<and> 1 < card (fst (slotSeen ?holders (i, r)) \<union> slotBooks ps (i, r)) \<and>
        \<not> (snd (slotSeen ?holders (i, r)) \<and> slotTransfers ps (i, r)))" for i
    proof (cases "(i, r) = (i0, r0)")
      case True
      show ?thesis
      proof (cases "slotBooks ps (i0, r0) = {}")
        case empty: True
        then have "slotTransfers ps (i0, r0)" by (auto simp: slotBooks_def slotTransfers_def)
        then show ?thesis using True empty union
          unfolding p slot_Cons slot slotSeen_update by (simp add: seen)
      next
        case False
        then show ?thesis using True grow union
          unfolding p slot_Cons slot slotSeen_update by (simp add: seen Un_commute) blast
      qed
    next
      case False
      then show ?thesis unfolding p slot_Cons slot slotSeen_update by auto
    qed
    show "r \<in> set (crossHeld holders (p # ps)) \<longleftrightarrow> r \<in> {r. \<exists>i. slotBooks (p # ps) (i, r) \<noteq> {} \<and>
        1 < card (fst (slotSeen holders (i, r)) \<union> slotBooks (p # ps) (i, r)) \<and>
        \<not> (snd (slotSeen holders (i, r)) \<and> slotTransfers (p # ps) (i, r))}"
      unfolding head mem_Collect_eq at set_append IH by auto
  qed
qed

lemma set_conflicts:
  "set (conflicts pairs) = {r. \<exists>k r'. (k, r) \<in> set pairs \<and> (k, r') \<in> set pairs \<and> r \<noteq> r'}"
proof -
  define B where "B k = map snd (filter (\<lambda>x. fst x = k) pairs)" for k
  have B: "x \<in> set (B k) \<longleftrightarrow> (k, x) \<in> set pairs" for k x by (force simp: B_def)
  have "conflicts pairs = concat (filter (\<lambda>refs. 1 < length refs)
      (map (\<lambda>k. js_set (B k)) (js_set (map fst pairs))))"
    by (simp add: conflicts_def multimap_eq B_def comp_def)
  then have "r \<in> set (conflicts pairs) \<longleftrightarrow>
      (\<exists>k\<in>fst ` set pairs. 1 < length (js_set (B k)) \<and> r \<in> set (B k))" for r
    by auto
  then have mem: "r \<in> set (conflicts pairs) \<longleftrightarrow> (\<exists>k\<in>fst ` set pairs.
      (\<exists>x\<in>set (B k). \<exists>y\<in>set (B k). x \<noteq> y) \<and> r \<in> set (B k))" for r
    unfolding several_js_set .
  show ?thesis
  proof (intro set_eqI iffI)
    fix r
    assume "r \<in> set (conflicts pairs)"
    then obtain k x y where "(k, x) \<in> set pairs" "(k, y) \<in> set pairs" "x \<noteq> y" "(k, r) \<in> set pairs"
      unfolding mem B [symmetric] by blast
    then show "r \<in> {r. \<exists>k r'. (k, r) \<in> set pairs \<and> (k, r') \<in> set pairs \<and> r \<noteq> r'}" by blast
  next
    fix r
    assume "r \<in> {r. \<exists>k r'. (k, r) \<in> set pairs \<and> (k, r') \<in> set pairs \<and> r \<noteq> r'}"
    then obtain k r' where r: "r \<in> set (B k)" "r' \<in> set (B k)" "r \<noteq> r'" and "(k, r) \<in> set pairs"
      unfolding B by blast
    then have "k \<in> fst ` set pairs" by force
    with r show "r \<in> set (conflicts pairs)" unfolding mem by blast
  qed
qed

section \<open>Every run returns\<close>

lemma bookResult_total: "\<exists>b. bookResult p book = Some b"
proof -
  have "\<exists>r. computeBook book p = Some r" if "filter (\<lambda>e. kind (entryInput e) = Transfer) book = []"
    using that by (intro computeBook_total) (auto simp: filter_empty_conv)
  then show ?thesis by (auto simp: bookResult_def Let_def)
qed

lemma collect_total: "(\<And>x. x \<in> set xs \<Longrightarrow> \<exists>y. f x = Some y) \<Longrightarrow> \<exists>ys. collect f xs = Some ys"
  by (induction xs) fastforce+

lemma computeAll_total: "\<exists>r. computeAll p entries books = Some r"
  using collect_total [of _ "bookResult p"] bookResult_total by (fastforce simp: computeAll_def Let_def)

lemma computeLots_returns: "\<exists>r. computeLots inputs policy = Some r"
  using computeAll_total
  by (auto simp: computeLots_def computeChecked_def Let_def split: option.split prod.split)

section \<open>The order of the inputs does not matter\<close>

lemma compareTuples_le: "compareTuples as bs \<le> 0 \<longleftrightarrow> as \<le> bs"
  by (induction as bs rule: compareTuples.induct) auto

interpretation tuples: comparator "\<lambda>x y. compareTuples (f x) (f y)" for f :: "'a \<Rightarrow> string list"
proof
  show "0 < compareTuples (f x) (f y) \<Longrightarrow> compareTuples (f y) (f x) \<le> 0" for x y
    by (metis compareTuples_le linorder_le_cases not_le)
  show "compareTuples (f x) (f y) \<le> 0 \<Longrightarrow> compareTuples (f y) (f z) \<le> 0 \<Longrightarrow>
      compareTuples (f x) (f z) \<le> 0" for x y z
    unfolding compareTuples_le by (rule order.trans)
qed

lemma tuples_perm:
  assumes "mset xs = mset ys" and "inj_on f (set xs)"
  shows "js_sort (\<lambda>x y. compareTuples (f x) (f y)) xs = js_sort (\<lambda>x y. compareTuples (f x) (f y)) ys"
  by (rule tuples.js_sort_perm [OF assms(1)])
    (use assms(2) in \<open>auto simp: compareTuples_le inj_on_def\<close>)

lemma refused_cong: "set xs = set ys \<Longrightarrow> refused r xs = refused r ys"
  by (simp add: refused_def sorted_set_cong [of xs ys])

lemma sort_mset: "mset xs = mset ys \<Longrightarrow> sort xs = sort ys"
  by (metis properties_for_sort sorted_sort mset_sort)

lemma bookResult_perm:
  assumes perm: "mset es = mset fs" and refs: "distinct (map entryRef es)" and ne: "es \<noteq> []"
    and same: "\<And>e f. e \<in> set es \<Longrightarrow> f \<in> set es \<Longrightarrow>
      keyOf e = keyOf f \<and> instrumentClass (entryInput e) = instrumentClass (entryInput f)"
  shows "bookResult p es = bookResult p fs"
proof -
  have sets: "set es = set fs" using perm by (metis set_mset_mset)
  have ne': "fs \<noteq> []" using ne sets by auto
  have "hd es \<in> set es" "hd fs \<in> set es" using hd_in_set [OF ne] hd_in_set [OF ne'] sets by simp_all
  then have "keyOf (hd es) = keyOf (hd fs)"
    and cls: "instrumentClass (entryInput (hd es)) = instrumentClass (entryInput (hd fs))"
    using same by blast+
  then have head: "headOf (entryInput (hd es)) = headOf (entryInput (hd fs))"
    and inst: "instrumentRef (entryInput (hd es)) = instrumentRef (entryInput (hd fs))"
    by (simp_all add: headOf_def keyOf_def bookKeyOf_def)
  have refs': "sort (map entryRef es) = sort (map entryRef fs)"
    using perm by (intro sort_mset) (metis mset_map)
  let ?t = "\<lambda>e. kind (entryInput e) = Transfer"
  have filt: "mset (filter ?t es) = mset (filter ?t fs)" using perm by (simp add: mset_filter)
  then have transfers: "sort (map entryRef (filter ?t es)) = sort (map entryRef (filter ?t fs))"
    by (intro sort_mset) (simp only: mset_map)
  have empty: "filter ?t es = [] \<longleftrightarrow> filter ?t fs = []"
    unfolding mset_zero_iff [symmetric] filt ..
  show ?thesis
    unfolding bookResult_def Let_def cls head inst refs' transfers empty computeBook_perm [OF perm refs] ..
qed

lemma sort_insert_map: "sort_insert cmp (f x) (map f xs) = map f (sort_insert (\<lambda>a b. cmp (f a) (f b)) x xs)"
  by (induction xs) auto

lemma js_sort_map: "js_sort cmp (map f xs) = map f (js_sort (\<lambda>a b. cmp (f a) (f b)) xs)"
  by (induction xs) (simp_all add: sort_insert_map)

lemma collect_map_cong:
  "(\<And>x. x \<in> set xs \<Longrightarrow> f (g x) = f (h x)) \<Longrightarrow> collect f (map g xs) = collect f (map h xs)"
  by (induction xs) (simp_all split: option.split)

lemma ordered_books:
  "js_sort (\<lambda>a b. compareTuples (bookKeyOf (entryInput (hd a))) (bookKeyOf (entryInput (hd b))))
     (map snd (booksOf es)) = map (bookAt es) (js_sort compareTuples (bookKeys es))"
proof -
  have key: "bookKeyOf (entryInput (hd (bookAt es k))) = k" if "k \<in> set (bookKeys es)" for k
    using hd_bookAt [of k es] that by (simp add: keyOf_def)
  have "map snd (booksOf es) = map (bookAt es) (bookKeys es)" by (simp add: booksOf_eq comp_def)
  then show ?thesis
    by (simp only: js_sort_map) (rule arg_cong [of _ _ "map (bookAt es)"], rule js_sort_cong, simp only: key)
qed

lemma unique_entry:
  assumes "\<And>k. k \<in> keyOf ` set es \<Longrightarrow> distinct (map entryRef (bookAt es k))"
    and "e \<in> set es" and "f \<in> set es" and "keyOf e = keyOf f" and "entryRef e = entryRef f"
  shows "e = f"
proof -
  have "inj_on entryRef (set (bookAt es (keyOf e)))"
    using assms(1) [of "keyOf e"] assms(2) by (simp add: distinct_map)
  then show ?thesis using assms(2-5) by (simp add: inj_on_def)
qed

lemma computeAll_perm:
  assumes perm: "mset es = mset fs"
    and refs: "\<And>k. k \<in> keyOf ` set es \<Longrightarrow> distinct (map entryRef (bookAt es k))"
    and classes: "\<And>e f. e \<in> set es \<Longrightarrow> f \<in> set es \<Longrightarrow> keyOf e = keyOf f \<Longrightarrow>
      instrumentClass (entryInput e) = instrumentClass (entryInput f)"
  shows "computeAll p es (booksOf es) = computeAll p fs (booksOf fs)"
proof -
  have sets: "set es = set fs" using perm by (metis set_mset_mset)
  have "mset (bookKeys es) = mset (bookKeys fs)"
    using sets by (intro set_eq_iff_mset_eq_distinct [THEN iffD1]) simp_all
  then have keys: "js_sort compareTuples (bookKeys es) = js_sort compareTuples (bookKeys fs)"
    by (rule tuples_perm [of _ _ "\<lambda>x. x"]) simp
  have "bookResult p (bookAt es k) = bookResult p (bookAt fs k)" if k: "k \<in> set (bookKeys fs)" for k
  proof (rule bookResult_perm)
    show "mset (bookAt es k) = mset (bookAt fs k)" using perm by (simp add: bookAt_def mset_filter)
    show "distinct (map entryRef (bookAt es k))" "bookAt es k \<noteq> []"
      using refs [of k] bookAt_nonempty [of k es] k sets by simp_all
    show "keyOf e = keyOf f \<and> instrumentClass (entryInput e) = instrumentClass (entryInput f)"
      if "e \<in> set (bookAt es k)" "f \<in> set (bookAt es k)" for e f
      using that classes by simp
  qed
  then have results: "collect (bookResult p) (map (bookAt es) (js_sort compareTuples (bookKeys fs))) =
      collect (bookResult p) (map (bookAt fs) (js_sort compareTuples (bookKeys fs)))"
    by (intro collect_map_cong) simp
  have refs': "sorted_set (map entryRef es) = sorted_set (map entryRef fs)"
    using sets by (intro sorted_set_cong) simp
  let ?pairs = "map (\<lambda>e. (bookKeyOf (entryInput e) @ [entryRef e], entryInput e))"
  have "inj_on fst (set (?pairs es))"
  proof (rule inj_onI)
    fix x y
    assume "x \<in> set (?pairs es)" "y \<in> set (?pairs es)" "fst x = fst y"
    then obtain e f where "e \<in> set es" "f \<in> set es" "keyOf e = keyOf f" "entryRef e = entryRef f"
      "x = (bookKeyOf (entryInput e) @ [entryRef e], entryInput e)"
      "y = (bookKeyOf (entryInput f) @ [entryRef f], entryInput f)"
      by (auto simp: keyOf_def)
    then show "x = y" using unique_entry [OF refs] by blast
  qed
  moreover have "mset (?pairs es) = mset (?pairs fs)" using perm by (simp only: mset_map)
  ultimately have inputs: "js_sort (\<lambda>a b. compareTuples (fst a) (fst b)) (?pairs es) =
      js_sort (\<lambda>a b. compareTuples (fst a) (fst b)) (?pairs fs)"
    by (intro tuples_perm)
  show ?thesis
    unfolding computeAll_def Let_def ordered_books keys results refs' inputs ..
qed

definition bookPairs :: "Entry list \<Rightarrow> (string list \<times> Entry) list" where
  "bookPairs es = concat (map (\<lambda>(k, book). map (Pair k) book) (booksOf es))"

lemma set_bookPairs: "set (bookPairs es) = (\<lambda>e. (keyOf e, e)) ` set es"
  by (auto simp: bookPairs_def booksOf_eq image_iff)

lemma duplicateRefs_eq: "duplicateRefs es =
     concat (map (\<lambda>(k, book). repeatedRefs {} (map entryRef book)) (booksOf es)) @
     crossHeld Map.empty (bookPairs es)"
  by (simp add: duplicateRefs_def bookPairs_def Let_def)

lemma duplicateRefs_books:
  "duplicateRefs es = [] \<Longrightarrow> k \<in> keyOf ` set es \<Longrightarrow> distinct (map entryRef (bookAt es k))"
  by (auto simp: duplicateRefs_eq booksOf_eq repeatedRefs_Nil)

lemma slotSeen_empty [simp]: "slotSeen Map.empty slot = ({}, True)"
  by (simp add: slotSeen_def)

lemma duplicateRefs_perm:
  assumes "mset es = mset fs"
  shows "set (duplicateRefs es) = set (duplicateRefs fs)"
proof -
  have sets: "set es = set fs" using assms by (metis set_mset_mset)
  have "mset (map entryRef (bookAt es k)) = mset (map entryRef (bookAt fs k))" for k
    using assms by (simp add: bookAt_def mset_map mset_filter)
  then have "set (repeatedRefs {} (map entryRef (bookAt es k))) =
      set (repeatedRefs {} (map entryRef (bookAt fs k)))" for k
    unfolding set_repeatedRefs by (metis set_mset_mset)
  then have repeated: "set (concat (map (\<lambda>(k, book). repeatedRefs {} (map entryRef book)) (booksOf es))) =
      set (concat (map (\<lambda>(k, book). repeatedRefs {} (map entryRef book)) (booksOf fs)))"
    using sets by (simp add: booksOf_eq)
  have "set (bookPairs es) = set (bookPairs fs)" using sets by (simp add: set_bookPairs)
  then have "slotBooks (bookPairs es) = slotBooks (bookPairs fs)"
    "slotTransfers (bookPairs es) = slotTransfers (bookPairs fs)"
    by (simp_all add: slotBooks_def slotTransfers_def fun_eq_iff)
  then have "set (crossHeld Map.empty (bookPairs es)) = set (crossHeld Map.empty (bookPairs fs))"
    by (subst (1 2) set_crossHeld) simp_all
  with repeated show ?thesis by (simp add: duplicateRefs_eq)
qed

lemma mixedClasses_Nil:
  assumes "mixedClasses (booksOf es) = []" and "e \<in> set es" and "f \<in> set es" and "keyOf e = keyOf f"
  shows "instrumentClass (entryInput e) = instrumentClass (entryInput f)"
proof (rule ccontr)
  assume "instrumentClass (entryInput e) \<noteq> instrumentClass (entryInput f)"
  then have "entryRef e \<in> set (mixedClasses (booksOf es))"
    unfolding set_mixedClasses using assms(2-4) by force
  then show False using assms(1) by simp
qed

lemma Nil_cong: "set xs = set ys \<Longrightarrow> xs = [] \<longleftrightarrow> ys = []"
  by auto

lemma computeChecked_perm:
  assumes perm: "mset inputs = mset inputs'"
  shows "computeChecked p inputs = computeChecked p inputs'"
proof -
  define es where "es = snd (classify p inputs)"
  define fs where "fs = snd (classify p inputs')"
  have entries: "mset es = mset fs"
    using perm by (simp add: es_def fs_def classify_eq mset_map mset_filter)
  then have sets: "set es = set fs" by (metis set_mset_mset)
  define bad where "bad = fst (classify p inputs) @ mixedClasses (booksOf es)"
  define bad' where "bad' = fst (classify p inputs') @ mixedClasses (booksOf fs)"
  have "set inputs = set inputs'" using perm by (metis set_mset_mset)
  then have bad: "set bad = set bad'"
    unfolding bad_def bad'_def set_append set_mixedClasses sets by (simp add: classify_eq)
  have dups: "set (duplicateRefs es) = set (duplicateRefs fs)" by (rule duplicateRefs_perm [OF entries])
  have revs: "set (conflicts (concat (map revision_slot es))) = set (conflicts (concat (map revision_slot fs)))"
    and runs: "set (conflicts (concat (map parse_slot es))) = set (conflicts (concat (map parse_slot fs)))"
    unfolding set_conflicts set_concat set_map sets by (rule refl)+
  note nil = Nil_cong [OF bad] Nil_cong [OF dups] Nil_cong [OF revs] Nil_cong [OF runs]
  note refs = refused_cong [OF bad] refused_cong [OF dups] refused_cong [OF revs] refused_cong [OF runs]
  have unfold: "computeChecked p xs =
      (let es = snd (classify p xs); bad = fst (classify p xs) @ mixedClasses (booksOf es)
       in if bad \<noteq> [] then Some (refused Invalid_input bad)
          else if duplicateRefs es \<noteq> [] then Some (refused Duplicate_ref (duplicateRefs es))
          else if conflicts (concat (map revision_slot es)) \<noteq> [] then
            Some (refused Same_event_revisions (conflicts (concat (map revision_slot es))))
          else if conflicts (concat (map parse_slot es)) \<noteq> [] then
            Some (refused Same_observation_parse_runs (conflicts (concat (map parse_slot es))))
          else computeAll p es (booksOf es))" for xs
    by (simp add: computeChecked_def Let_def split_beta)
  have all: "computeAll p es (booksOf es) = computeAll p fs (booksOf fs)"
    if "bad = []" "duplicateRefs es = []"
  proof (rule computeAll_perm [OF entries])
    have "mixedClasses (booksOf es) = []" using that(1) by (simp add: bad_def)
    then show "instrumentClass (entryInput e) = instrumentClass (entryInput f)"
      if "e \<in> set es" "f \<in> set es" "keyOf e = keyOf f" for e f
      using that by (rule mixedClasses_Nil)
  qed (rule duplicateRefs_books [OF that(2)])
  have "computeChecked p inputs =
      (if bad \<noteq> [] then Some (refused Invalid_input bad)
       else if duplicateRefs es \<noteq> [] then Some (refused Duplicate_ref (duplicateRefs es))
       else if conflicts (concat (map revision_slot es)) \<noteq> [] then
         Some (refused Same_event_revisions (conflicts (concat (map revision_slot es))))
       else if conflicts (concat (map parse_slot es)) \<noteq> [] then
         Some (refused Same_observation_parse_runs (conflicts (concat (map parse_slot es))))
       else computeAll p es (booksOf es))"
    unfolding unfold Let_def es_def bad_def ..
  also have "\<dots> = (if bad' \<noteq> [] then Some (refused Invalid_input bad')
       else if duplicateRefs fs \<noteq> [] then Some (refused Duplicate_ref (duplicateRefs fs))
       else if conflicts (concat (map revision_slot fs)) \<noteq> [] then
         Some (refused Same_event_revisions (conflicts (concat (map revision_slot fs))))
       else if conflicts (concat (map parse_slot fs)) \<noteq> [] then
         Some (refused Same_observation_parse_runs (conflicts (concat (map parse_slot fs))))
       else computeAll p fs (booksOf fs))"
  proof (cases "bad = [] \<and> duplicateRefs es = []")
    case True
    then have "computeAll p es (booksOf es) = computeAll p fs (booksOf fs)" using all by blast
    then show ?thesis unfolding nil refs by (rule arg_cong)
  next
    case False
    then show ?thesis unfolding nil refs by (cases "bad' = []") (simp_all only: if_True if_False simp_thms)
  qed
  also have "\<dots> = computeChecked p inputs'"
    unfolding unfold Let_def fs_def bad'_def ..
  finally show ?thesis .
qed

end
