(* ===== verification/Lot_Contract.thy ===== *)
theory Lot_Contract
  imports Lot_Pools Lot_Results
begin

text \<open>
  What a caller of the lot engine (\<open>computeLots\<close> of \<open>packages/domain/src/lots.ts\<close>) may rely on: the
  properties of a computed result, of one book and of its order, read off the invariants of the
  theories below, each with a concrete run that shows it applies.
\<close>

section \<open>What a computed result has passed\<close>

lemma duplicateRefs_distinct:
  assumes "duplicateRefs es = []"
  shows "distinct (map entryRef (bookAt es k))"
proof (cases "k \<in> keyOf ` set es")
  case True
  have "concat (map (\<lambda>(k, book). repeatedRefs {} (map entryRef book)) (booksOf es)) = []"
    using assms by (simp add: duplicateRefs_def Let_def)
  then have "repeatedRefs {} (map entryRef (bookAt es k)) = []"
    using True unfolding booksOf_eq by auto
  then show ?thesis by (simp only: repeatedRefs_Nil)
next
  case False
  then have "bookAt es k = []" by (auto simp: bookAt_def filter_empty_conv)
  then show ?thesis by simp
qed

lemma cross_book_refs:
  assumes "duplicateRefs es = []" and "a \<in> set es" and "b \<in> set es"
    and "instrumentRef (entryInput a) = instrumentRef (entryInput b)" and "entryRef a = entryRef b"
    and "keyOf a \<noteq> keyOf b"
  shows "kind (entryInput a) = Transfer"
proof -
  let ?slot = "slotOf a"
  have none: "crossHeld Map.empty (bookPairs es) = []" using assms(1) by (simp add: duplicateRefs_eq)
  have pairs: "(keyOf a, a) \<in> set (bookPairs es)" "(keyOf b, b) \<in> set (bookPairs es)"
    using assms(2,3) by (simp_all add: set_bookPairs)
  have slot: "slotOf b = ?slot" using assms(4,5) by (simp add: slotOf_def)
  have "{keyOf a, keyOf b} \<subseteq> slotBooks (bookPairs es) ?slot"
    using pairs slot by (auto simp: slotBooks_def)
  then have "card {keyOf a, keyOf b} \<le> card (slotBooks (bookPairs es) ?slot)" by (rule card_mono [rotated]) simp
  then have "1 < card (slotBooks (bookPairs es) ?slot)" using assms(6) by simp
  moreover from this have "slotBooks (bookPairs es) ?slot \<noteq> {}" by auto
  ultimately have "slotTransfers (bookPairs es) ?slot"
    using set_crossHeld [of Map.empty "bookPairs es"] none by (auto simp: slotOf_def)
  then show ?thesis using pairs(1) by (auto simp: slotTransfers_def)
qed

lemma collect_set: "collect f xs = Some ys \<Longrightarrow> y \<in> set ys \<Longrightarrow> \<exists>x\<in>set xs. f x = Some y"
  by (induction xs arbitrary: ys) (auto split: option.splits)

lemma collect_length: "collect f xs = Some ys \<Longrightarrow> length ys = length xs"
  by (induction xs arbitrary: ys) (auto split: option.splits)

lemma computeLots_computed:
  assumes "computeLots inputs policy = Some (LotsComputed c v ref m part books)"
  obtains p es where "policy = Some p" and "validLotPolicy p" and "purpose p \<noteq> Tax"
    and "case rounding p of None \<Rightarrow> True | Some r \<Rightarrow> rpWhere r = At_leg \<and> rpResidual r = Carry"
    and "\<forall>i\<in>set inputs. validLotInput i \<and> inputRulesHold i p"
    and "es = map (entryOf p) inputs"
    and "mixedClasses (booksOf es) = []" and "duplicateRefs es = []"
    and "conflicts (concat (map revision_slot es)) = []" and "conflicts (concat (map parse_slot es)) = []"
    and "part = partitionOf books" and "manifestRefs m = sorted_set (map entryRef es)"
    and "\<forall>b\<in>set books. \<exists>k\<in>keyOf ` set es. bookResult p (bookAt es k) = Some b"
    and "length books = length (bookKeys es)"
proof -
  obtain p where p: "policy = Some p" "validLotPolicy p" "purpose p \<noteq> Tax"
      "case rounding p of None \<Rightarrow> True | Some r \<Rightarrow> rpWhere r = At_leg \<and> rpResidual r = Carry"
    and run: "computeChecked p inputs = Some (LotsComputed c v ref m part books)"
    using assms by (auto simp: computeLots_def refused_def Let_def split: option.splits if_splits)
  obtain invalid es where cls: "classify p inputs = (invalid, es)" by fastforce
  have bad: "invalid @ mixedClasses (booksOf es) = []" "duplicateRefs es = []"
    "conflicts (concat (map revision_slot es)) = []" "conflicts (concat (map parse_slot es)) = []"
    and all: "computeAll p es (booksOf es) = Some (LotsComputed c v ref m part books)"
    using run by (auto simp: computeChecked_def cls refused_def Let_def split: if_splits)
  have "filter (\<lambda>i. \<not> (validLotInput i \<and> inputRulesHold i p)) inputs = []"
    using bad(1) cls by (simp add: classify_eq)
  then have valid: "\<forall>i\<in>set inputs. validLotInput i \<and> inputRulesHold i p"
    by (simp only: filter_empty_conv not_not)
  then have es: "es = map (entryOf p) inputs" using cls by (auto simp: classify_eq)
  let ?ordered = "js_sort (\<lambda>a b. compareTuples (bookKeyOf (entryInput (hd a)))
                        (bookKeyOf (entryInput (hd b)))) (map snd (booksOf es))"
  have res: "collect (bookResult p) ?ordered = Some books" "part = partitionOf books"
    "manifestRefs m = sorted_set (map entryRef es)"
    using all by (auto simp: computeAll_def Let_def)
  have ord: "set ?ordered = bookAt es ` keyOf ` set es"
    by (auto simp: booksOf_eq)
  have len: "length books = length (bookKeys es)"
    using collect_length [OF res(1)] by (simp add: booksOf_eq)
  have each: "\<forall>b\<in>set books. \<exists>k\<in>keyOf ` set es. bookResult p (bookAt es k) = Some b"
  proof
    fix b
    assume "b \<in> set books"
    then obtain x where "x \<in> set ?ordered" "bookResult p x = Some b" using collect_set [OF res(1)] by blast
    then show "\<exists>k\<in>keyOf ` set es. bookResult p (bookAt es k) = Some b" unfolding ord by blast
  qed
  have mixed: "mixedClasses (booksOf es) = []" using bad(1) by simp
  show thesis by (rule that [OF p valid es mixed bad(2-4) res(2,3) each len])
qed

text \<open>The entries of the book a head names, and the result they were computed to.\<close>

definition headKey :: "BookHead \<Rightarrow> string list" where
  "headKey h = [headHolderRef h, headInstrumentRef h, headWrapperKey h]"

definition inputsOf :: "BookHead \<Rightarrow> LotInput list \<Rightarrow> LotInput list" where
  "inputsOf h inputs = filter (\<lambda>i. bookKeyOf i = headKey h) inputs"

lemma computed_book:
  assumes run: "computeLots inputs (Some p) = Some (LotsComputed c v ref m part books)"
    and book: "BookComputed h ds pools ls stop \<in> set books"
  obtains r where "\<forall>e\<in>set (map (entryOf p) (inputsOf h inputs)). entry_ok p e"
    and "distinct (map entryRef (map (entryOf p) (inputsOf h inputs)))"
    and "computeBook (map (entryOf p) (inputsOf h inputs)) p = Some r"
    and "ds = resultDisposals r" and "pools = resultPools r" and "stop = resultStop r"
    and "ls = map_option (\<lambda>xs. map (\<lambda>l. lotState l (headInstrumentRef h))
           (filter (\<lambda>l. \<not> isZeroDecimal (remaining l)) xs)) (resultLots r)"
proof -
  let ?es = "map (entryOf p) inputs"
  have valid: "\<forall>i\<in>set inputs. validLotInput i \<and> inputRulesHold i p"
    and dups: "duplicateRefs ?es = []"
    and each: "\<forall>b\<in>set books. \<exists>k\<in>keyOf ` set ?es. bookResult p (bookAt ?es k) = Some b"
    by (rule computeLots_computed [OF run]; simp)+
  obtain k where k: "k \<in> keyOf ` set ?es" "bookResult p (bookAt ?es k) = Some (BookComputed h ds pools ls stop)"
    using each book by blast
  let ?i = "entryInput (hd (bookAt ?es k))"
  obtain r where r: "computeBook (bookAt ?es k) p = Some r" and h: "h = headOf ?i"
    and out: "ds = resultDisposals r" "pools = resultPools r" "stop = resultStop r"
      "ls = map_option (\<lambda>xs. map (\<lambda>l. lotState l (instrumentRef ?i))
           (filter (\<lambda>l. \<not> isZeroDecimal (remaining l)) xs)) (resultLots r)"
    using k(2) by (auto simp: bookResult_def Let_def split: if_splits)
  have "keyOf (hd (bookAt ?es k)) = k" using hd_bookAt [OF k(1)] by blast
  then have key: "k = headKey h" by (simp add: h headKey_def headOf_def keyOf_def bookKeyOf_def)
  have at: "bookAt ?es k = map (entryOf p) (inputsOf h inputs)"
    by (simp add: bookAt_def inputsOf_def filter_map comp_def keyOf_def entryOf_def key)
  have unit: "headInstrumentRef h = instrumentRef ?i" by (simp add: h headOf_def)
  have ok: "\<forall>e\<in>set (map (entryOf p) (inputsOf h inputs)). entry_ok p e"
    using valid by (auto simp: inputsOf_def entry_ok_def entryOf_def)
  have refs: "distinct (map entryRef (map (entryOf p) (inputsOf h inputs)))"
    using duplicateRefs_distinct [OF dups, of k] by (simp only: at)
  show thesis by (rule that [OF ok refs r [unfolded at] out(1-3) out(4) [folded unit]])
qed

section \<open>A concrete run\<close>

text \<open>Three units bought for 30 and one of them sold for 20, in the first-in first-out method.\<close>

definition ex_policy :: "LotMethod \<Rightarrow> LotPolicy" where
  "ex_policy meth = \<lparr>policyId = ''lots'', version = 1, purpose = Investment_analysis, lotMethod = meth,
     lotScope = Holder_instrument_wrapper, timeBasis = Trade_date, ordering = Temporal_then_indeterminate,
     acquisitionFee = Capitalize, disposalFee = Reduce_proceeds, fxMode = Lot_currency,
     fxPolicyRef = ''fx'', costUnitRef = None, rounding = None\<rparr>"

definition jpy :: "int \<Rightarrow> Quantity" where
  "jpy n = exactQuantity ''JPY'' (integerDecimal n)"

definition shares :: "int \<Rightarrow> Quantity" where
  "shares n = exactQuantity ''X'' (integerDecimal n)"

definition on_day :: "string \<Rightarrow> TemporalValue" where
  "on_day d = LocalDate d None Provider"

definition ex_input :: "string \<Rightarrow> LotInputKind \<Rightarrow> string \<Rightarrow> int \<Rightarrow> int \<Rightarrow> LotInput" where
  "ex_input ref k date q c = \<lparr>contract = LOT_INPUT_CONTRACT, inputRef = EventRef ref 1, kind = k,
     holderRef = ''account:a'', instrumentRef = ''X'', wrapperKey = ''w'', instrumentClass = Listed_equity,
     inputTime = \<lparr>trade = on_day date, settlement = UnknownTime ''not_observed''\<rparr>,
     quantity = shares q, consideration = Some (jpy c), inputFees = [], fx = None,
     split = None, lotSelections = None\<rparr>"

definition ex_buy :: LotInput where
  "ex_buy = ex_input ''b'' Acquisition ''2024-01-05'' 3 30"

definition ex_sell :: LotInput where
  "ex_sell = ex_input ''s'' Disposal ''2024-02-05'' 1 20"

definition ex_head :: BookHead where
  "ex_head = \<lparr>headHolderRef = ''account:a'', headInstrumentRef = ''X'', headWrapperKey = ''w'',
     headInstrumentClass = Listed_equity\<rparr>"

definition ex_disposal :: LotDisposal where
  "ex_disposal = \<lparr>disposalRef = ''event:s@1'', disposalTime = on_day ''2024-02-05'',
     disposalQuantity = shares 1,
     allocations = [\<lparr>allocLotId = ''event:b@1'', allocAcquisitionRefs = Some [''event:b@1''],
       poolMembers = None, allocQuantity = shares 1, allocCost = AmountKnown (jpy 10),
       allocFees = None, allocFxBasis = [], costRounding = None, feesRounding = None\<rparr>],
     allocatedCost = Some (jpy 10), proceeds = AmountKnown (jpy 20), disposalFees = None,
     disposalFxBasis = None, outcome = Allocated, reasonCodes = []\<rparr>"

definition ex_lot :: LotState where
  "ex_lot = \<lparr>stateLotId = ''event:b@1'', stateAcquisitionRefs = [''event:b@1''],
     stateAcquiredAt = Some (on_day ''2024-01-05''), stateQuantity = shares 3,
     stateRemainingQuantity = shares 2, stateCost = AmountKnown (jpy 30),
     stateRemainingCost = AmountKnown (jpy 20), stateFees = None, stateRemainingFees = None,
     stateFxBasis = [], stateLineage = \<lparr>originRef = ''event:b@1'',
       originAcquiredAt = Some (on_day ''2024-01-05''), originCostUnit = Some ''JPY'',
       fragmentOf = None, splits = []\<rparr>\<rparr>"

definition ex_manifest :: LotManifest where
  "ex_manifest = \<lparr>manifestContract = LOT_INPUT_CONTRACT, manifestEngineVersion = LOT_ENGINE_VERSION,
     manifestPolicy = ex_policy Fifo, manifestRefs = [''event:b@1'', ''event:s@1''],
     manifestInputs = [ex_buy, ex_sell]\<rparr>"

definition ex_book :: LotBook where
  "ex_book = BookComputed ex_head [ex_disposal] [] (Some [ex_lot]) None"

lemma ex_run:
  "computeLots [ex_sell, ex_buy] (Some (ex_policy Fifo)) =
     Some (LotsComputed LOT_INPUT_CONTRACT LOT_ENGINE_VERSION ''lots@1'' ex_manifest Complete [ex_book])"
  by code_simp

section \<open>Properties of the result\<close>

text \<open>
  The run always returns. The only throw of the engine is a transfer reaching the
  per-input step, and no input list and no policy get one there: every call of \<open>computeLots\<close>
  returns a result, computed or refused.
\<close>

theorem lots_never_throw: "\<exists>r. computeLots inputs policy = Some r"
  by (rule computeLots_returns)

text \<open>
  Property C10: the result is a function of the inputs, not of the order they are listed in. Two
  lists with the same inputs, however ordered, give the same result, refusals and their refs
  included.
\<close>

theorem lots_order_independent:
  assumes "mset inputs = mset inputs'"
  shows "computeLots inputs policy = computeLots inputs' policy"
  unfolding computeLots_def computeChecked_perm [OF assms] ..

lemma lots_order_independent_witness:
  "computeLots [ex_sell, ex_buy] (Some (ex_policy Fifo)) = computeLots [ex_buy, ex_sell] (Some (ex_policy Fifo))"
  by (rule lots_order_independent) simp

text \<open>
  Property C11: every disposal is accounted for. In a computed book there is one record for each
  disposal input of the book and no other; an indeterminate record allocates nothing and gives a
  reason, every other record allocates positive quantities that add up to the disposal's whole
  quantity; a record is allocated without reasons only when its costs, fees and proceeds are all
  known; and an allocated cost is the sum of the costs of its allocations. Lots are listed exactly
  when the book did not stop.
\<close>

theorem disposals_accounted:
  assumes "computeLots inputs (Some p) = Some (LotsComputed c v ref m part books)"
    and "BookComputed h ds pools ls stop \<in> set books"
  shows "list_all disposal_ok ds \<and>
    mset (map disposalRef ds) =
      mset (map (\<lambda>i. lotInputRefText (inputRef i)) (filter (\<lambda>i. kind i = Disposal) (inputsOf h inputs))) \<and>
    (ls = None \<longleftrightarrow> stop \<noteq> None)"
proof (rule computed_book [OF assms])
  fix r
  let ?es = "map (entryOf p) (inputsOf h inputs)"
  assume ok: "\<forall>e\<in>set ?es. entry_ok p e" and refs: "distinct (map entryRef ?es)"
    and book: "computeBook ?es p = Some r"
    and out: "ds = resultDisposals r" "stop = resultStop r"
      "ls = map_option (\<lambda>xs. map (\<lambda>l. lotState l (headInstrumentRef h))
           (filter (\<lambda>l. \<not> isZeroDecimal (remaining l)) xs)) (resultLots r)"
  from computeBook_state [OF ok refs book] obtain st where st: "r = finishBook st p"
    "ledger_ok p (entryRef ` set ?es) st"
    "mset (records (disposals st)) = mset (map entryRef (filter is_disposal ?es))" by metis
  have "map entryRef (filter is_disposal ?es) =
      map (\<lambda>i. lotInputRefText (inputRef i)) (filter (\<lambda>i. kind i = Disposal) (inputsOf h inputs))"
    by (simp add: filter_map comp_def is_disposal_def entryOf_def)
  with st show ?thesis by (simp add: out finishBook_def ledger_ok_def records_def)
qed

lemma disposals_accounted_witness:
  "list_all disposal_ok [ex_disposal] \<and> map disposalRef [ex_disposal] = [''event:s@1'']"
  using disposals_accounted [OF ex_run, of ex_head "[ex_disposal]" "[]" "Some [ex_lot]" None]
  by (simp add: ex_book_def ex_disposal_def)

text \<open>
  What a lot of the result shows of its cost: what it cost, what is left of it, and the costs
  allocated to disposals. An unknown cost keeps its reason.
\<close>

fun amounts_balance :: "LotAmount \<Rightarrow> LotAmount \<Rightarrow> LotAmount list \<Rightarrow> bool" where
  "amounts_balance (AmountKnown c) (AmountKnown r) parts \<longleftrightarrow>
     unitRef c = unitRef r \<and> (\<forall>a\<in>set parts. \<exists>q. a = AmountKnown q \<and> unitRef q = unitRef c) \<and>
     quantity_value c = quantity_value r + sum_list (map lot_amount_value parts) \<and>
     0 \<le> quantity_value r"
| "amounts_balance (AmountUnknown a) (AmountUnknown b) parts \<longleftrightarrow> a = b"
| "amounts_balance _ _ parts \<longleftrightarrow> False"

lemma balanced_amounts:
  "balanced c r parts \<Longrightarrow> 0 \<le> amount_value r \<Longrightarrow> amounts_balance (lotAmount c) (lotAmount r) parts"
  by (cases "(c, r, parts)" rule: balanced.cases) (auto simp: list_all_iff)

text \<open>
  Property C1: cost is conserved exactly. For every lot a computed book lists, the cost that
  entered it is what remains of it plus the costs its disposals were allocated, in one unit and
  without rounding loss, whatever mix of acquisitions, splits, snapshots and disposals made it, and
  what remains is never negative; a lot whose cost is unknown keeps the reason it is unknown.
\<close>

theorem cost_conserved:
  assumes "computeLots inputs (Some p) = Some (LotsComputed c v ref m part books)"
    and "BookComputed h ds pools (Some ls) stop \<in> set books" and "l \<in> set ls"
  shows "amounts_balance (stateCost l) (stateRemainingCost l) (map allocCost (allocs_of ds (stateLotId l)))"
proof (rule computed_book [OF assms(1,2)])
  fix r
  let ?es = "map (entryOf p) (inputsOf h inputs)"
  assume ok: "\<forall>e\<in>set ?es. entry_ok p e" and refs: "distinct (map entryRef ?es)"
    and book: "computeBook ?es p = Some r" and ds: "ds = resultDisposals r"
    and ls: "Some ls = map_option (\<lambda>xs. map (\<lambda>l. lotState l (headInstrumentRef h))
           (filter (\<lambda>l. \<not> isZeroDecimal (remaining l)) xs)) (resultLots r)"
  from computeBook_state [OF ok refs book] obtain st where st: "r = finishBook st p"
    "ledger_ok p (entryRef ` set ?es) st" by metis
  obtain lot where lot: "lot \<in> set (lots st)" "l = lotState lot (headInstrumentRef h)"
    using ls assms(3) by (auto simp: st(1) finishBook_def split: if_splits)
  then have "lot_balanced (allocs_of (disposals st) (lotId lot)) lot"
    using st(2) by (auto simp: ledger_ok_def list_all_iff)
  then show ?thesis
    by (auto simp: lot(2) ds st(1) finishBook_def lotState_def lot_balanced_def intro!: balanced_amounts)
qed

lemma cost_conserved_witness:
  "amounts_balance (AmountKnown (jpy 30)) (AmountKnown (jpy 20))
     (map allocCost (allocs_of [ex_disposal] ''event:b@1''))"
  using cost_conserved [OF ex_run, of ex_head "[ex_disposal]" "[]" "[ex_lot]" None ex_lot]
  by (simp add: ex_book_def ex_lot_def del: amounts_balance.simps)

text \<open>
  Property C5: a computed book holds what the abstract account says. When the book did not stop,
  the quantities left in its lots add up to the running holding of its inputs in time order, where an
  acquisition adds its quantity, a disposal takes it away, a split replaces the holding by the stated
  quantity and only a snapshot at the start of the history sets it.
\<close>

theorem holding_refines_account:
  assumes "computeLots inputs (Some p) = Some (LotsComputed c v ref m part books)"
    and "BookComputed h ds pools (Some ls) stop \<in> set books"
  shows "sum_list (map (\<lambda>l. quantity_value (stateRemainingQuantity l)) ls) =
    abstract_run False 0 (laidOrder (map (entryOf p) (inputsOf h inputs)))"
proof (rule computed_book [OF assms])
  fix r
  let ?es = "map (entryOf p) (inputsOf h inputs)"
  assume ok: "\<forall>e\<in>set ?es. entry_ok p e" and refs: "distinct (map entryRef ?es)"
    and book: "computeBook ?es p = Some r"
    and ls: "Some ls = map_option (\<lambda>xs. map (\<lambda>l. lotState l (headInstrumentRef h))
           (filter (\<lambda>l. \<not> isZeroDecimal (remaining l)) xs)) (resultLots r)"
  obtain st where st: "r = finishBook st p" "ledger_ok p (entryRef ` set ?es) st"
    "indeterminate st = None \<Longrightarrow> applyEntries emptyState (laidOrder ?es) p = Some st"
    by (rule computeBook_state [OF ok refs book]) (rule that; simp)
  have go: "indeterminate st = None" using ls by (auto simp: st(1) finishBook_def split: if_splits)
  have "dec_value (held st) = abstract_run (history emptyState) (dec_value (held emptyState)) (laidOrder ?es)"
  proof (rule applyEntries_refines [OF ledger_ok_empty _ _ _ st(3) [OF go] go])
    show "\<forall>e\<in>set (laidOrder ?es). entry_ok p e" unfolding set_laidOrder by (rule ok)
    show "distinct (map entryRef (laidOrder ?es))" by (rule distinct_laidOrder [OF refs])
  qed simp
  moreover have "dec_value (held st) = total_left (lots st)"
    using st(2) by (simp add: ledger_ok_def book_defs)
  moreover have "sum_list (map (\<lambda>l. quantity_value (stateRemainingQuantity l)) ls) = total_left (lots st)"
  proof -
    have sum: "sum_list (map left_in (filter (\<lambda>l. \<not> isZeroDecimal (remaining l)) xs)) = total_left xs" for xs
      by (induction xs) (auto simp: left_in_def isZeroDecimal_value)
    have "ls = map (\<lambda>l. lotState l (headInstrumentRef h)) (filter (\<lambda>l. \<not> isZeroDecimal (remaining l)) (lots st))"
      using ls go by (simp add: st(1) finishBook_def)
    then show ?thesis
      using sum [of "lots st"] by (simp add: comp_def lotState_def left_in_def [abs_def])
  qed
  ultimately show ?thesis by (simp add: emptyState_def)
qed

lemma holding_refines_account_witness:
  "quantity_value (shares 2) = abstract_run False 0 (laidOrder (map (entryOf (ex_policy Fifo)) [ex_sell, ex_buy]))"
proof -
  have "inputsOf ex_head [ex_sell, ex_buy] = [ex_sell, ex_buy]" by code_simp
  then show ?thesis
    using holding_refines_account [OF ex_run, of ex_head "[ex_disposal]" "[]" "[ex_lot]" None]
    by (simp add: ex_book_def ex_lot_def)
qed

lemma conflict_free_slots:
  assumes "conflicts pairs = []" and "(k, r) \<in> set pairs" and "(k, r') \<in> set pairs"
  shows "r = r'"
  using assms set_conflicts [of pairs] by fastforce

lemma event_refs_agree:
  assumes "conflicts (concat (map revision_slot (map (entryOf q) inputs))) = []"
    and "i \<in> set inputs" and "j \<in> set inputs" and "inputRef i = EventRef e a" and "inputRef j = EventRef e b"
  shows "lotInputRefText (inputRef i) = lotInputRefText (inputRef j)"
proof -
  have "(e, entryRef (entryOf q i)) \<in> set (concat (map revision_slot (map (entryOf q) inputs)))"
    "(e, entryRef (entryOf q j)) \<in> set (concat (map revision_slot (map (entryOf q) inputs)))"
    using assms(2-) by (force simp: entryOf_def)+
  from conflict_free_slots [OF assms(1) this] show ?thesis by (simp add: entryOf_def)
qed

lemma observation_refs_agree:
  assumes "conflicts (concat (map parse_slot (map (entryOf q) inputs))) = []"
    and "i \<in> set inputs" and "j \<in> set inputs"
    and "inputRef i = ObservationRef f n a path" and "inputRef j = ObservationRef f n b path"
  shows "lotInputRefText (inputRef i) = lotInputRefText (inputRef j)"
proof -
  have "((f, n, path), entryRef (entryOf q i)) \<in> set (concat (map parse_slot (map (entryOf q) inputs)))"
    "((f, n, path), entryRef (entryOf q j)) \<in> set (concat (map parse_slot (map (entryOf q) inputs)))"
    using assms(2-) by (force simp: entryOf_def)+
  from conflict_free_slots [OF assms(1) this] show ?thesis by (simp add: entryOf_def)
qed

text \<open>
  Property C40: what a computed result has ruled out. The policy is valid, rounds, if it rounds at all,
  at the leg with the residual carried, and is not for tax. Every input is valid and satisfies the rules of
  its kind; inputs of one book agree on the instrument's class; no reference occurs twice in a book, and one
  that occurs in two books of an instrument belongs to transfers only; no two revisions of one event and no
  two parse runs of one observation are mixed; the manifest lists exactly the references of the inputs; and
  there is one book for each holder, instrument and wrapper. Only such inputs are computed; that inputs like
  these always are is not stated here.
\<close>

theorem computed_inputs_gated:
  assumes "computeLots inputs (Some p) = Some (LotsComputed c v ref m part books)"
  shows "validLotPolicy p \<and> purpose p \<noteq> Tax \<and>
    (case rounding p of None \<Rightarrow> True | Some r \<Rightarrow> rpWhere r = At_leg \<and> rpResidual r = Carry) \<and>
    (\<forall>i\<in>set inputs. validLotInput i \<and> inputRulesHold i p) \<and>
    (\<forall>i\<in>set inputs. \<forall>j\<in>set inputs. bookKeyOf i = bookKeyOf j \<longrightarrow> instrumentClass i = instrumentClass j) \<and>
    (\<forall>k. distinct (map (\<lambda>i. lotInputRefText (inputRef i)) (filter (\<lambda>i. bookKeyOf i = k) inputs))) \<and>
    (\<forall>i\<in>set inputs. \<forall>j\<in>set inputs. instrumentRef i = instrumentRef j \<and>
       lotInputRefText (inputRef i) = lotInputRefText (inputRef j) \<and> bookKeyOf i \<noteq> bookKeyOf j \<longrightarrow>
       kind i = Transfer \<and> kind j = Transfer) \<and>
    (\<forall>i\<in>set inputs. \<forall>j\<in>set inputs. \<forall>e a b. inputRef i = EventRef e a \<and> inputRef j = EventRef e b \<longrightarrow>
       lotInputRefText (inputRef i) = lotInputRefText (inputRef j)) \<and>
    (\<forall>i\<in>set inputs. \<forall>j\<in>set inputs. \<forall>f n a b path. inputRef i = ObservationRef f n a path \<and>
       inputRef j = ObservationRef f n b path \<longrightarrow> lotInputRefText (inputRef i) = lotInputRefText (inputRef j)) \<and>
    manifestRefs m = sorted_set (map (\<lambda>i. lotInputRefText (inputRef i)) inputs) \<and>
    length books = card (bookKeyOf ` set inputs)"
proof (rule computeLots_computed [OF assms], intro conjI)
  fix q es
  assume q: "Some p = Some q" and pol: "validLotPolicy q" "purpose q \<noteq> Tax"
      "case rounding q of None \<Rightarrow> True | Some r \<Rightarrow> rpWhere r = At_leg \<and> rpResidual r = Carry"
    and valid: "\<forall>i\<in>set inputs. validLotInput i \<and> inputRulesHold i q"
    and es: "es = map (entryOf q) inputs"
    and mixed: "mixedClasses (booksOf es) = []" and dups: "duplicateRefs es = []"
    and revs: "conflicts (concat (map revision_slot es)) = []"
    and runs: "conflicts (concat (map parse_slot es)) = []"
    and man: "manifestRefs m = sorted_set (map entryRef es)"
    and len: "length books = length (bookKeys es)"
  have entry: "entryOf q i \<in> set es" if "i \<in> set inputs" for i using that es by simp
  show "validLotPolicy p" "purpose p \<noteq> Tax"
    "case rounding p of None \<Rightarrow> True | Some r \<Rightarrow> rpWhere r = At_leg \<and> rpResidual r = Carry"
    using pol q by simp_all
  show "\<forall>i\<in>set inputs. validLotInput i \<and> inputRulesHold i p" using valid q by simp
  show "\<forall>i\<in>set inputs. \<forall>j\<in>set inputs. bookKeyOf i = bookKeyOf j \<longrightarrow> instrumentClass i = instrumentClass j"
  proof (intro ballI impI)
    fix i j
    assume "i \<in> set inputs" "j \<in> set inputs" "bookKeyOf i = bookKeyOf j"
    then show "instrumentClass i = instrumentClass j"
      using mixedClasses_Nil [OF mixed entry entry, of i j] by (simp add: keyOf_def entryOf_def)
  qed
  show "\<forall>k. distinct (map (\<lambda>i. lotInputRefText (inputRef i)) (filter (\<lambda>i. bookKeyOf i = k) inputs))"
  proof
    fix k
    show "distinct (map (\<lambda>i. lotInputRefText (inputRef i)) (filter (\<lambda>i. bookKeyOf i = k) inputs))"
      using duplicateRefs_distinct [OF dups, of k]
      by (simp add: es bookAt_def keyOf_def filter_map comp_def entryOf_def)
  qed
  have cross: "kind i = Transfer" if "i \<in> set inputs" "j \<in> set inputs" "instrumentRef i = instrumentRef j"
    "lotInputRefText (inputRef i) = lotInputRefText (inputRef j)" "bookKeyOf i \<noteq> bookKeyOf j" for i j
    using cross_book_refs [OF dups entry [OF that(1)] entry [OF that(2)]] that(3-)
    by (simp add: keyOf_def entryOf_def)
  show "\<forall>i\<in>set inputs. \<forall>j\<in>set inputs. instrumentRef i = instrumentRef j \<and>
       lotInputRefText (inputRef i) = lotInputRefText (inputRef j) \<and> bookKeyOf i \<noteq> bookKeyOf j \<longrightarrow>
       kind i = Transfer \<and> kind j = Transfer"
    using cross by metis
  show "\<forall>i\<in>set inputs. \<forall>j\<in>set inputs. \<forall>e a b. inputRef i = EventRef e a \<and> inputRef j = EventRef e b \<longrightarrow>
       lotInputRefText (inputRef i) = lotInputRefText (inputRef j)"
    using event_refs_agree [OF revs [unfolded es]] by blast
  show "\<forall>i\<in>set inputs. \<forall>j\<in>set inputs. \<forall>f n a b path. inputRef i = ObservationRef f n a path \<and>
       inputRef j = ObservationRef f n b path \<longrightarrow> lotInputRefText (inputRef i) = lotInputRefText (inputRef j)"
    using observation_refs_agree [OF runs [unfolded es]] by blast
  show "manifestRefs m = sorted_set (map (\<lambda>i. lotInputRefText (inputRef i)) inputs)"
    using man by (simp add: es comp_def entryOf_def)
  have "length (bookKeys es) = card (set (bookKeys es))" by (rule distinct_card [symmetric]) simp
  also have "set (bookKeys es) = bookKeyOf ` set inputs"
    by (simp add: es image_image keyOf_def entryOf_def)
  finally show "length books = card (bookKeyOf ` set inputs)" using len by simp
qed

lemma computed_inputs_gated_witness:
  "manifestRefs ex_manifest =
     sorted_set (map (\<lambda>i. lotInputRefText (inputRef i)) [ex_sell, ex_buy]) \<and>
   length [ex_book] = card (bookKeyOf ` set [ex_sell, ex_buy])"
  using computed_inputs_gated [OF ex_run] by simp

text \<open>
  A result is called complete only when nothing is missing. Then every book was
  computed to its end, every disposal was allocated with known costs, fees and proceeds, and every lot
  left has known costs.
\<close>

theorem complete_means_known:
  assumes "computeLots inputs (Some p) = Some (LotsComputed c v ref m Complete books)" and "b \<in> set books"
  shows "\<exists>h ds pools ls. b = BookComputed h ds pools (Some ls) None \<and>
    (\<forall>d\<in>set ds. outcome d = Allocated \<and> reasonCodes d = [] \<and> allocatedCost d \<noteq> None \<and> is_known (proceeds d) \<and>
       (\<forall>a\<in>set (allocations d). is_known (allocCost a))) \<and>
    (\<forall>l\<in>set ls. is_known (stateRemainingCost l))"
proof -
  have known: "known_amount a \<longleftrightarrow> is_known a" for a by (cases a) (simp_all add: is_known_def)
  have part: "Complete = partitionOf books" by (rule computeLots_computed [OF assms(1)])
  then have all: "bookComplete b" using assms(2)
    by (auto simp: partitionOf_def list_all_iff split: if_splits)
  then obtain h ds pools ls where b: "b = BookComputed h ds pools ls None"
    and full: "list_all (\<lambda>d. outcome d = Allocated) ds"
      "list_all (\<lambda>l. known_amount (stateRemainingCost l)) (case ls of None \<Rightarrow> [] | Some xs \<Rightarrow> xs)"
    by (cases b) (auto simp: list_all_iff)
  have mem: "BookComputed h ds pools ls None \<in> set books" using assms(2) b by simp
  show ?thesis
  proof (rule computed_book [OF assms(1) mem])
    fix r
    let ?es = "map (entryOf p) (inputsOf h inputs)"
    assume ok: "\<forall>e\<in>set ?es. entry_ok p e" and refs: "distinct (map entryRef ?es)"
      and book: "computeBook ?es p = Some r" and out: "ds = resultDisposals r" "None = resultStop r"
      and ls: "ls = map_option (\<lambda>xs. map (\<lambda>l. lotState l (headInstrumentRef h))
           (filter (\<lambda>l. \<not> isZeroDecimal (remaining l)) xs)) (resultLots r)"
    from computeBook_state [OF ok refs book] obtain st where st: "r = finishBook st p"
      "ledger_ok p (entryRef ` set ?es) st" by metis
    have "list_all disposal_ok ds" using st(2) by (simp add: out(1) st(1) finishBook_def ledger_ok_def)
    moreover obtain xs where xs: "ls = Some xs" using ls out(2) by (auto simp: st(1) finishBook_def)
    ultimately show ?thesis
      using full by (intro exI [of _ h] exI [of _ ds] exI [of _ pools] exI [of _ xs])
        (auto simp: b list_all_iff disposal_ok_def known dest: bspec)
  qed
qed

lemma complete_means_known_witness: "is_known (stateRemainingCost ex_lot)"
  using complete_means_known [OF ex_run, of ex_book] by (simp add: ex_book_def)

text \<open>
  No tax result. A policy for tax is refused whatever its inputs: the cost-basis gate
  has no verified rule package, and the refusal lists the gate's reason and the missing inputs.
\<close>

theorem tax_refused:
  assumes "purpose p = Tax" and "validLotPolicy p" and "rounding p = None"
  shows "\<exists>refs. computeLots inputs (Some p) =
      Some (LotsRefused LOT_INPUT_CONTRACT LOT_ENGINE_VERSION Tax_rules_unverified refs) \<and>
    set refs = {''cost-basis:needs-policy:no_verified_rule_package'', ''missing:jurisdiction'',
      ''missing:taxPeriod'', ''missing:accountWrapper'', ''missing:residencyOrEntity'',
      ''missing:carriedCost''} \<union> (if lotMethod p = Specific_identification then {} else {''missing:lotSelection''})"
  using assms
  by (auto simp: computeLots_def refused_def taxGate_def costBasis_def costBasisInputs_def Let_def)

lemma tax_refused_witness:
  "\<exists>refs. computeLots [ex_buy] (Some (ex_policy Fifo\<lparr>purpose := Tax\<rparr>)) =
      Some (LotsRefused LOT_INPUT_CONTRACT LOT_ENGINE_VERSION Tax_rules_unverified refs) \<and>
    ''missing:lotSelection'' \<in> set refs"
proof -
  have "purpose (ex_policy Fifo\<lparr>purpose := Tax\<rparr>) = Tax" "rounding (ex_policy Fifo\<lparr>purpose := Tax\<rparr>) = None"
    "lotMethod (ex_policy Fifo\<lparr>purpose := Tax\<rparr>) \<noteq> Specific_identification"
    by (simp_all add: ex_policy_def)
  moreover have "validLotPolicy (ex_policy Fifo\<lparr>purpose := Tax\<rparr>)" by code_simp
  ultimately show ?thesis using tax_refused [of "ex_policy Fifo\<lparr>purpose := Tax\<rparr>" "[ex_buy]"] by auto
qed

end
