(* ===== verification/Lot_Book_Contract.thy ===== *)
theory Lot_Book_Contract
  imports Lot_Contract
begin

text \<open>
  What one book of the lot engine (\<open>packages/domain/src/lots.ts\<close>) guarantees step by step: the ledger
  invariant, the time order of its groups, the method's choice of lots, splits, groups that are
  all or nothing, and the moving-average group whose internal order does not matter.
\<close>

definition ex_entry :: "LotInput \<Rightarrow> Entry" where
  "ex_entry i = entryOf (ex_policy Fifo) i"

lemma ex_valid: "\<forall>i\<in>set [ex_sell, ex_buy]. validLotInput i \<and> inputRulesHold i (ex_policy Fifo)"
  by (rule computeLots_computed [OF ex_run]) auto

lemma ex_entries_ok: "entry_ok (ex_policy Fifo) (ex_entry ex_buy)" "entry_ok (ex_policy Fifo) (ex_entry ex_sell)"
  using ex_valid by (simp_all add: entry_ok_def ex_entry_def entryOf_def)

definition ex_bought :: BookState where
  "ex_bought = addLot (emptyState\<lparr>history := True\<rparr>) (openLot (ex_entry ex_buy) (integerDecimal 3) (ex_policy Fifo))"

lemma ex_bought: "applyEntry emptyState (ex_entry ex_buy) (ex_policy Fifo) = Some ex_bought"
proof -
  have "kind (entryInput (ex_entry ex_buy)) = Acquisition"
    "exactValue (quantity (entryInput (ex_entry ex_buy))) = Some (integerDecimal 3)"
    "lotMethod (ex_policy Fifo) = Fifo"
    by (simp_all add: ex_entry_def entryOf_def ex_buy_def ex_input_def shares_def ex_policy_def)
  then show ?thesis
    by (simp add: applyEntry_def emptyState_def applyAcquisition_def ex_bought_def addLot_def)
qed

lemma ex_bought_ledger: "ledger_ok (ex_policy Fifo) {entryRef (ex_entry ex_buy)} ex_bought"
  using applyEntry_ledger [OF ledger_ok_empty ex_entries_ok(1) _ ex_bought] by simp

section \<open>The invariant\<close>

text \<open>
  Every step keeps the ledger. Applying any valid input to a book whose invariant
  holds (the holding is the sum of the lots, nothing is negative, the index finds every lot, a
  moving-average book has one pool, every record accounts for its quantity, and every lot's cost and
  fees balance with what was allocated) gives a book whose invariant holds, with no lot known under a
  reference that was not applied.
\<close>

theorem step_keeps_ledger:
  assumes "ledger_ok p seen st" and "entry_ok p e" and "entryRef e \<notin> seen"
    and "applyEntry st e p = Some st'"
  shows "ledger_ok p (insert (entryRef e) seen) st'"
  using assms by (rule applyEntry_ledger)

lemma step_keeps_ledger_witness:
  "\<exists>st'. applyEntry ex_bought (ex_entry ex_sell) (ex_policy Fifo) = Some st' \<and>
     ledger_ok (ex_policy Fifo) {''event:b@1'', ''event:s@1''} st'"
proof -
  have refs: "entryRef (ex_entry ex_sell) = ''event:s@1''" "entryRef (ex_entry ex_buy) = ''event:b@1''"
    "kind (entryInput (ex_entry ex_sell)) \<noteq> Transfer"
    by code_simp+
  then obtain st' where run: "applyEntry ex_bought (ex_entry ex_sell) (ex_policy Fifo) = Some st'"
    using applyEntry_total by blast
  have "ledger_ok (ex_policy Fifo) (insert (entryRef (ex_entry ex_sell)) {entryRef (ex_entry ex_buy)}) st'"
    by (rule step_keeps_ledger [OF ex_bought_ledger ex_entries_ok(2) _ run]) (simp add: refs)
  with run show ?thesis by (simp add: refs insert_commute)
qed

text \<open>
  Indeterminacy is final. Once a book has stopped, applying any further inputs changes
  neither its lots, its holding nor the reason it stopped: it only records each remaining disposal as
  indeterminate, in order.
\<close>

theorem stopped_book_stays:
  assumes "indeterminate st = Some stop"
  shows "applyEntries st es p = Some (st\<lparr>disposals := disposals st @
    map (\<lambda>e. indeterminateDisposal e p R_upstream_indeterminate)
      (filter (\<lambda>e. kind (entryInput e) = Disposal) es)\<rparr>)"
  using applyEntries_stopped [OF assms] by (simp add: is_disposal_def [abs_def])

lemma stopped_book_stays_witness:
  "applyEntries (markIndeterminate emptyState [''r''] R_order_tie) [ex_entry ex_buy] (ex_policy Fifo) =
     Some (markIndeterminate emptyState [''r''] R_order_tie)"
proof -
  have stop: "indeterminate (markIndeterminate emptyState [''r''] R_order_tie) =
      Some \<lparr>stopRefs = [''r''], stopReason = R_order_tie\<rparr>"
    by (simp add: markIndeterminate_def emptyState_def)
  have "kind (entryInput (ex_entry ex_buy)) = Acquisition" by code_simp
  with stopped_book_stays [OF stop, of "[ex_entry ex_buy]" "ex_policy Fifo"] show ?thesis by simp
qed

section \<open>The order of a book\<close>

text \<open>
  The one-pass grouping is the quantified one. The loop that carries running extremes
  over prefix and suffix cuts the ordered inputs exactly where everything before the cut lies
  strictly before everything after it.
\<close>

theorem groups_match_reference: "timeGroups ordered = reference_groups [] [] ordered"
  by (rule timeGroups_reference)

lemma nth_groups:
  assumes "sorted_wrt all_before gs" and "i < j" and "j < length gs" and "a \<in> set (gs ! i)" and "b \<in> set (gs ! j)"
  shows "span_before a b"
  using sorted_wrt_nth_less [OF assms(1-3)] assms(4,5) by (simp add: all_before_def)

lemma laid_order:
  assumes "\<forall>e\<in>set es. validTemporalValue (entryTime e) \<and> known_time (entryTime e)" and "\<not> zonesConflict es"
    and "x \<in> set (js_sort compareLaidOut (map (layOut w) es))" and "y \<in> set (js_sort compareLaidOut (map (layOut w) es))"
  shows "compareTemporal (entryTime (laidEntry x)) (entryTime (laidEntry y)) = Ordered (- 1) \<longleftrightarrow> span_before x y"
proof -
  have "span_before (layOut w a) (layOut w b) \<longleftrightarrow> compareTemporal (entryTime a) (entryTime b) = Ordered (- 1)"
    if "a \<in> set es" "b \<in> set es" for a b
    using that assms(1) no_conflict_compatible [OF assms(2) that] by (intro span_before_compareTemporal) blast+
  with assms(3,4) show ?thesis by (auto simp: layOut_def)
qed

lemma group_member: "g \<in> set (timeGroups xs) \<Longrightarrow> x \<in> set g \<Longrightarrow> x \<in> set xs"
  using concat_timeGroups [of xs] by (metis UN_I set_concat)

text \<open>
  Where the layout follows time. In a book with dates an instant is laid at its own calendar day, so an
  earlier instant must not fall on a later day, as two instants of different offsets may.
\<close>

definition own_day :: "Entry \<Rightarrow> int" where
  "own_day e = spanDay (timeSpan (entryTime e) True)"

definition days_follow :: "Entry list \<Rightarrow> bool" where
  "days_follow es \<longleftrightarrow> \<not> list_ex is_wall_time es \<or>
     (\<forall>a\<in>set es. \<forall>b\<in>set es. is_instant (entryTime a) \<and> is_instant (entryTime b) \<and>
        compareTemporal (entryTime a) (entryTime b) = Ordered (- 1) \<longrightarrow> own_day a \<le> own_day b)"

lemma wall_lo:
  "known_time t \<Longrightarrow> w \<or> \<not> is_instant t \<Longrightarrow> spanLo (timeSpan t w) = spanDay (timeSpan t w) * DAY_SECONDS \<and> spanLoNanos (timeSpan t w) = 0"
  "is_instant t \<Longrightarrow> spanLo (timeSpan t False) = spanEpoch (timeSpan t False) \<and> spanLoNanos (timeSpan t w) = 0"
  "is_instant t \<Longrightarrow> spanDay (timeSpan t w) = spanDay (timeSpan t True)"
  by (cases t; auto simp: Let_def split: prod.splits)+

lemma laid_before:
  assumes valid: "\<forall>e\<in>set es. validTemporalValue (entryTime e) \<and> known_time (entryTime e)" and zones: "\<not> zonesConflict es"
    and days: "days_follow es" and ab: "a \<in> set es" "b \<in> set es"
    and before: "span_before (layOut (list_ex is_wall_time es) a) (layOut (list_ex is_wall_time es) b)"
  shows "layout_key (layOut (list_ex is_wall_time es) a) < layout_key (layOut (list_ex is_wall_time es) b)"
proof -
  let ?w = "list_ex is_wall_time es" and ?s = "entryTime a" and ?t = "entryTime b"
  note known = valid [rule_format, OF ab(1)] valid [rule_format, OF ab(2)]
  have D: "0 < DAY_SECONDS" by (simp add: DAY_SECONDS_def)
  show ?thesis
  proof (cases "is_instant ?s \<and> is_instant ?t")
    case both: True
    then have point: "(spanEpoch (timeSpan ?s ?w), spanNanos (timeSpan ?s ?w)) < (spanEpoch (timeSpan ?t ?w), spanNanos (timeSpan ?t ?w))"
      using before by (simp add: span_before_def Let_def del: timeSpan.simps)
    show ?thesis
    proof (cases ?w)
      case True
      have "compareTemporal ?s ?t = Ordered (- 1)"
        using before span_before_compareTemporal [of a b ?w] known both by simp
      with True days ab both have "spanDay (timeSpan ?s ?w) \<le> spanDay (timeSpan ?t ?w)"
        by (simp add: days_follow_def own_day_def del: timeSpan.simps)
      with D have "spanLo (timeSpan ?s ?w) \<le> spanLo (timeSpan ?t ?w)"
        using True known by (simp add: wall_lo(1) del: timeSpan.simps)
      with point show ?thesis
        using both by (auto simp: layout_key_def less_prod_def less_eq_prod_def wall_lo(2) simp del: timeSpan.simps)
    next
      case False
      with point show ?thesis
        using both by (auto simp: layout_key_def less_prod_def less_eq_prod_def wall_lo(2) simp del: timeSpan.simps)
    qed
  next
    case False
    then obtain e where "e \<in> set es" "\<not> is_instant (entryTime e)" "known_time (entryTime e)" using ab known by blast
    then have w: ?w by (auto simp: list_ex_iff is_wall_time_def intro!: bexI [of _ e] split: TemporalValue.splits)
    have "spanDay (timeSpan ?s ?w) < spanDay (timeSpan ?t ?w)"
    proof (cases "is_instant ?s")
      case True
      with False before show ?thesis by (simp add: span_before_def Let_def del: timeSpan.simps)
    next
      case civil: False
      obtain i where "dayInterval ?s = Some i" "intervalStart i = spanDay (timeSpan ?s ?w)" "intervalEnd i = spanEndDay (timeSpan ?s ?w)"
        "intervalStart i < intervalEnd i"
        by (rule interval_span [OF conjunct1 [OF known(1)] conjunct2 [OF known(1)] civil, of ?w]) (rule that)
      with civil before show ?thesis by (simp add: span_before_def Let_def del: timeSpan.simps)
    qed
    with D have "spanLo (timeSpan ?s ?w) < spanLo (timeSpan ?t ?w)"
      using w known by (simp add: wall_lo(1) del: timeSpan.simps)
    then show ?thesis by (simp add: layout_key_def del: timeSpan.simps)
  qed
qed

text \<open>A sorted list whose elements of one kind all come before those of the other is cut where the kind changes.\<close>

lemma sorted_cut:
  assumes "sorted_wrt (\<lambda>a b. f a \<le> (f b :: 'k :: linorder)) xs"
    and "\<And>a b. a \<in> set xs \<Longrightarrow> b \<in> set xs \<Longrightarrow> P a \<Longrightarrow> \<not> P b \<Longrightarrow> f a < f b"
  shows "\<forall>b\<in>set (dropWhile P xs). \<not> P b"
  using assms
proof (induction xs)
  case (Cons x xs)
  show ?case
  proof (cases "P x")
    case False
    have "\<not> P b" if "b \<in> set xs" for b
      using Cons.prems(1) Cons.prems(2) [of b x] False that by (auto simp: not_less)
    with False show ?thesis by simp
  qed (use Cons in auto)
qed simp

lemma timeGroups_finest:
  assumes "g \<in> set (timeGroups laid)" and "g = x @ y" and "x \<noteq> []" and "y \<noteq> []"
  shows "\<not> all_before x y"
proof -
  have "g \<in> set (reference_groups [] [] laid)" using assms(1) by (simp add: timeGroups_reference)
  then show ?thesis
    by (rule reference_groups_finest [of "[]" "[]" "[]", rotated 3]) (use assms in simp_all)
qed

lemma nothing_between:
  assumes valid: "\<forall>e\<in>set es. validTemporalValue (entryTime e) \<and> known_time (entryTime e)" and zones: "\<not> zonesConflict es"
    and laid: "laid = js_sort compareLaidOut (map (layOut w) es)" and g: "g \<in> set (timeGroups laid)" "map laidEntry g = u @ v"
    and uv: "u \<noteq> []" "v \<noteq> []"
  shows "\<exists>a\<in>set u. \<exists>b\<in>set v. compareTemporal (entryTime a) (entryTime b) \<noteq> Ordered (- 1)"
proof -
  obtain x y where xy: "g = x @ y" "u = map laidEntry x" "v = map laidEntry y"
    using g(2) by (auto simp: map_eq_append_conv)
  have "\<not> all_before x y" by (rule timeGroups_finest [OF g(1) xy(1)]) (use xy uv in simp_all)
  then obtain a b where ab: "a \<in> set x" "b \<in> set y" "\<not> span_before a b" by (auto simp: all_before_def)
  have "a \<in> set laid" "b \<in> set laid" using group_member [OF g(1)] ab(1,2) xy(1) by simp_all
  then have "compareTemporal (entryTime (laidEntry a)) (entryTime (laidEntry b)) \<noteq> Ordered (- 1)"
    using laid_order [OF valid zones, of a w b] ab(3) unfolding laid by blast
  then show ?thesis unfolding xy(2,3) set_map using ab(1,2) by blast
qed

lemma nothing_after_split:
  assumes valid: "\<forall>e\<in>set es. validTemporalValue (entryTime e) \<and> known_time (entryTime e)" and zones: "\<not> zonesConflict es"
    and days: "days_follow es"
    and laid: "laid = js_sort compareLaidOut (map (layOut (list_ex is_wall_time es)) es)" and g: "g \<in> set (timeGroups laid)"
    and uv: "U \<noteq> {}" "V \<noteq> {}" "U \<union> V = laidEntry ` set g"
  shows "\<exists>a\<in>U. \<exists>b\<in>V. compareTemporal (entryTime a) (entryTime b) \<noteq> Ordered (- 1)"
proof (rule ccontr)
  assume none: "\<not> ?thesis"
  note order = laid_order [OF valid zones, of _ "list_ex is_wall_time es", folded laid]
  have mem: "x \<in> set laid" if "x \<in> set g" for x using group_member [OF g that] .
  have before: "span_before x y" if "x \<in> set g" "y \<in> set g" "laidEntry x \<in> U" "laidEntry y \<in> V" for x y
    using order [OF mem mem] that none by blast
  have key: "layout_key x < layout_key y" if "x \<in> set g" "y \<in> set g" "laidEntry x \<in> U" "laidEntry y \<in> V" for x y
  proof -
    have "\<exists>a\<in>set es. x = layOut (list_ex is_wall_time es) a" "\<exists>b\<in>set es. y = layOut (list_ex is_wall_time es) b"
      using mem [OF that(1)] mem [OF that(2)] by (auto simp: laid)
    then obtain a b where "a \<in> set es" "b \<in> set es" "x = layOut (list_ex is_wall_time es) a"
      "y = layOut (list_ex is_wall_time es) b" by blast
    with laid_before [OF valid zones days] before [OF that] show ?thesis by blast
  qed
  let ?P = "\<lambda>x. laidEntry x \<in> U"
  have "sorted_wrt (\<lambda>a b. layout_key a \<le> layout_key b) (concat (timeGroups laid))"
    unfolding concat_timeGroups unfolding laid using layout.sorted_js_sort [unfolded compareLaidOut_le] .
  then have sorted: "sorted_wrt (\<lambda>a b. layout_key a \<le> layout_key b) g"
    using g by (auto dest!: split_list simp: sorted_wrt_append)
  have V: "laidEntry y \<in> V" if "y \<in> set g" "\<not> ?P y" for y using that uv(3) by blast
  have rest: "\<forall>y\<in>set (dropWhile ?P g). \<not> ?P y" by (rule sorted_cut [OF sorted]) (use key V in blast)
  obtain x where x: "x \<in> set g" "?P x" using uv(1,3) by (metis UnI1 ex_in_conv imageE)
  obtain y where y: "y \<in> set g" "laidEntry y \<in> V" using uv(2,3) by (metis UnI2 ex_in_conv imageE)
  have "\<not> ?P y" using key [OF y(1) y(1) _ y(2)] by auto
  then have "dropWhile ?P g \<noteq> []" using y(1) by (auto simp: dropWhile_eq_Nil_conv)
  moreover have "takeWhile ?P g \<noteq> []"
  proof
    assume "takeWhile ?P g = []"
    then have "dropWhile ?P g = g" by (metis append_Nil takeWhile_dropWhile_id)
    with rest x show False by metis
  qed
  ultimately have "\<not> all_before (takeWhile ?P g) (dropWhile ?P g)"
    by (intro timeGroups_finest [OF g takeWhile_dropWhile_id [symmetric]])
  then obtain a b where ab: "a \<in> set (takeWhile ?P g)" "b \<in> set (dropWhile ?P g)" "\<not> span_before a b"
    by (auto simp: all_before_def)
  have "a \<in> set g" "?P a" "b \<in> set g" using ab(1,2) by (auto dest: set_takeWhileD set_dropWhileD)
  moreover have "laidEntry b \<in> V" using rest ab(2) V \<open>b \<in> set g\<close> by blast
  ultimately show False using before ab(3) by blast
qed

text \<open>
  Property C38: the groups are what time orders. For inputs with known valid times and no conflict of zones,
  laid out as a book lays them out, every input of an earlier group is strictly before every input of a later
  one by the semantic comparison, and no place of the layout inside a group could be cut. Where the own
  calendar days of the instants follow their times, or the book has no dates, a group cannot be divided in two
  with that property at all, in whatever way: inside it, order is not known.
\<close>

theorem groups_are_time_order:
  assumes valid: "\<forall>e\<in>set es. validTemporalValue (entryTime e) \<and> known_time (entryTime e)"
    and zones: "\<not> zonesConflict es"
    and gs: "gs = map (map laidEntry) (timeGroups (js_sort compareLaidOut (map (layOut (list_ex is_wall_time es)) es)))"
  shows "mset (concat gs) = mset es \<and>
    (\<forall>i j a b. i < j \<and> j < length gs \<and> a \<in> set (gs ! i) \<and> b \<in> set (gs ! j) \<longrightarrow>
       compareTemporal (entryTime a) (entryTime b) = Ordered (- 1)) \<and>
    (\<forall>u v. u @ v \<in> set gs \<and> u \<noteq> [] \<and> v \<noteq> [] \<longrightarrow>
       (\<exists>a\<in>set u. \<exists>b\<in>set v. compareTemporal (entryTime a) (entryTime b) \<noteq> Ordered (- 1))) \<and>
    (if days_follow es
     then \<forall>g\<in>set gs. \<forall>U V. U \<noteq> {} \<and> V \<noteq> {} \<and> U \<union> V = set g \<longrightarrow>
       (\<exists>a\<in>U. \<exists>b\<in>V. compareTemporal (entryTime a) (entryTime b) \<noteq> Ordered (- 1))
     else True)"
proof (intro conjI)
  let ?laid = "js_sort compareLaidOut (map (layOut (list_ex is_wall_time es)) es)"
  note order = laid_order [OF valid zones, of _ "list_ex is_wall_time es"]
  have sorted: "sorted_wrt all_before (timeGroups ?laid)"
    unfolding timeGroups_reference by (rule reference_groups_sound) simp
  have "concat gs = map laidEntry ?laid" by (simp only: gs map_concat [symmetric] concat_timeGroups)
  then have "mset (concat gs) = image_mset laidEntry (mset (map (layOut (list_ex is_wall_time es)) es))" by simp
  then show "mset (concat gs) = mset es" by (simp add: image_mset.compositionality comp_def layOut_def)
  show "\<forall>i j a b. i < j \<and> j < length gs \<and> a \<in> set (gs ! i) \<and> b \<in> set (gs ! j) \<longrightarrow>
       compareTemporal (entryTime a) (entryTime b) = Ordered (- 1)"
  proof (intro allI impI, elim conjE)
    fix i j a b assume ij: "i < j" "j < length gs" and ab: "a \<in> set (gs ! i)" "b \<in> set (gs ! j)"
    have len: "i < length (timeGroups ?laid)" "j < length (timeGroups ?laid)" using ij by (simp_all add: gs)
    then obtain x y where x: "x \<in> set (timeGroups ?laid ! i)" "a = laidEntry x"
      and y: "y \<in> set (timeGroups ?laid ! j)" "b = laidEntry y"
      using ab by (auto simp: gs)
    have "span_before x y" using nth_groups [OF sorted ij(1) len(2) x(1) y(1)] .
    moreover have "x \<in> set ?laid" "y \<in> set ?laid" using group_member x(1) y(1) len nth_mem by blast+
    ultimately show "compareTemporal (entryTime a) (entryTime b) = Ordered (- 1)" using order by (simp add: x(2) y(2))
  qed
  show "\<forall>u v. u @ v \<in> set gs \<and> u \<noteq> [] \<and> v \<noteq> [] \<longrightarrow>
       (\<exists>a\<in>set u. \<exists>b\<in>set v. compareTemporal (entryTime a) (entryTime b) \<noteq> Ordered (- 1))"
    using nothing_between [OF valid zones refl] by (auto simp: gs)
  show "if days_follow es
     then \<forall>g\<in>set gs. \<forall>U V. U \<noteq> {} \<and> V \<noteq> {} \<and> U \<union> V = set g \<longrightarrow>
       (\<exists>a\<in>U. \<exists>b\<in>V. compareTemporal (entryTime a) (entryTime b) \<noteq> Ordered (- 1))
     else True"
    using nothing_after_split [OF valid zones _ refl] by (auto simp: gs)
qed

lemma groups_are_time_order_witness:
  "mset (concat (map (map laidEntry) (timeGroups (js_sort compareLaidOut (map (layOut (list_ex is_wall_time
       [ex_entry ex_sell, ex_entry ex_buy])) [ex_entry ex_sell, ex_entry ex_buy]))))) = mset [ex_entry ex_sell, ex_entry ex_buy]"
proof -
  have "\<forall>e\<in>set [ex_entry ex_sell, ex_entry ex_buy]. validTemporalValue (entryTime e) \<and> known_time (entryTime e)"
    by code_simp
  moreover have "\<not> zonesConflict [ex_entry ex_sell, ex_entry ex_buy]" by code_simp
  ultimately show ?thesis using groups_are_time_order [OF _ _ refl] by blast
qed

section \<open>Disposals and splits\<close>

text \<open>
  First in, first out. When a disposal is planned by lot order, the plan takes exactly the
  disposal's quantity, only from lots that have it, and every open lot before one it draws on is taken
  whole.
\<close>

theorem fifo_takes_oldest:
  assumes "book_ok p st" and "entry_ok p e" and "kind (entryInput e) = Disposal" and "0 < dec_value q"
    and "lotMethod p = Fifo" and "planDisposal st e q p = Inr plan"
  shows "sum_list (map (\<lambda>step. dec_value (snd step)) plan) = dec_value q \<and>
    (\<forall>(k, t)\<in>set plan. k < length (lots st) \<and> 0 < dec_value t \<and> dec_value t \<le> left_in (lots st ! k)) \<and>
    (\<forall>(k, t)\<in>set plan. \<forall>i<k. planned_at plan i = left_in (lots st ! i))"
proof -
  have fits: "plan_fits 0 (lots st) plan" "planned plan = dec_value q"
    using planDisposal_fits [OF assms(1-4,6)] by blast+
  have plan: "plan = planOpen (firstOpen st) (drop (firstOpen st) (lots st)) q"
    using assms(5,6) by (auto simp: planDisposal_def split: if_splits)
  have empty: "\<And>i. i < firstOpen st \<Longrightarrow> left_in (lots st ! i) = 0" "firstOpen st \<le> length (lots st)"
    using assms(1) by (simp_all add: book_defs)
  have "planned_at plan i = left_in (lots st ! i)" if step: "(k, t) \<in> set plan" and i: "i < k" for k t i
  proof (cases "i < firstOpen st")
    case True
    then show ?thesis using empty(1) by (simp add: plan planned_at_before)
  next
    case False
    have "k < length (lots st)" using fits(1) step by (auto simp: plan_fits_def)
    then show ?thesis
      using planOpen_prefix [of q k t "firstOpen st" "drop (firstOpen st) (lots st)" "i - firstOpen st"]
        step i False assms(4) by (simp add: plan)
  qed
  then show ?thesis using fits by (fastforce simp: planned_def plan_fits_def)
qed

lemma fifo_takes_oldest_witness:
  "sum_list (map (\<lambda>step. dec_value (snd step)) [(0 :: nat, integerDecimal 1)]) = dec_value (integerDecimal 1)"
proof -
  have ok: "book_ok (ex_policy Fifo) ex_bought" using ex_bought_ledger by (simp add: ledger_ok_def)
  have kind: "kind (entryInput (ex_entry ex_sell)) = Disposal" by code_simp
  have pos: "0 < dec_value (integerDecimal 1)" by (simp add: value_simps)
  have fifo: "lotMethod (ex_policy Fifo) = Fifo" by (simp add: ex_policy_def)
  have plan: "planDisposal ex_bought (ex_entry ex_sell) (integerDecimal 1) (ex_policy Fifo) =
      Inr [(0, integerDecimal 1)]" by code_simp
  show ?thesis by (rule fifo_takes_oldest [OF ok ex_entries_ok(2) kind pos fifo plan, THEN conjunct1])
qed

text \<open>
  A split scales. A split that is not refused leaves the holding at the stated quantity
  and multiplies what every lot has left by the split's ratio, exactly; it changes no lot's identity,
  cost or fees.
\<close>

theorem split_scales_lots:
  assumes "book_ok p st" and "indeterminate (applySplit st e stated) = None"
  shows "dec_value (held (applySplit st e stated)) = dec_value stated \<and>
    map left_in (lots (applySplit st e stated)) =
      map (\<lambda>l. left_in l * ratio_value (the (split (entryInput e)))) (lots st) \<and>
    map (\<lambda>l. (lotId l, cost l, remainingCost l, fees l, remainingFees l)) (lots (applySplit st e stated)) =
      map (\<lambda>l. (lotId l, cost l, remainingCost l, fees l, remainingFees l)) (lots st)"
proof -
  let ?r = "the (split (entryInput e))" and ?n = "firstOpen st"
  have n: "?n \<le> length (lots st)" and empty: "\<And>i. i < ?n \<Longrightarrow> left_in (lots st ! i) = 0"
    using assms(1) by (simp_all add: book_defs)
  have go: "indeterminate (markIndeterminate st refs r) \<noteq> None" for refs r
    by (simp add: markIndeterminate_def)
  show ?thesis
  proof (cases rule: applySplit_cases [OF n, of e stated, case_names marked scaled])
    case (scaled steps h)
    have kept: "map (\<lambda>l. (lotId l, cost l, remainingCost l, fees l, remainingFees l)) (splitLots (entryRef e) ?r ls) =
        map (\<lambda>l. (lotId l, cost l, remainingCost l, fees l, remainingFees l)) ls" for ls
      by (simp add: splitLots_def comp_def if_distrib cong: if_cong)
    have front: "map left_in (take ?n (lots st)) = map (\<lambda>l. left_in l * ratio_value ?r) (take ?n (lots st))"
      using empty by (intro nth_equalityI) simp_all
    have opened: "map left_in (splitLots (entryRef e) ?r (drop ?n (lots st))) =
        map (\<lambda>l. left_in l * ratio_value ?r) (drop ?n (lots st))"
      using splitLots_scaled [OF scaled(2)] by (intro nth_equalityI) simp_all
    have lots: "lots (applySplit st e stated) =
        take ?n (lots st) @ splitLots (entryRef e) ?r (drop ?n (lots st))"
      by (simp add: scaled(1))
    show ?thesis
      unfolding lots map_append front opened kept
      by (simp only: map_append [symmetric] append_take_drop_id) (simp add: scaled(1,4))
  qed (use assms(2) go in simp)
qed

definition ex_split :: LotInput where
  "ex_split = (ex_input ''d'' Split ''2024-01-20'' 6 0)\<lparr>consideration := None,
     split := Some \<lparr>numerator = 2, denominator = 1\<rparr>\<rparr>"

lemma split_scales_lots_witness:
  "dec_value (held (applySplit ex_bought (ex_entry ex_split) (integerDecimal 6))) = 6"
proof -
  have "book_ok (ex_policy Fifo) ex_bought" using ex_bought_ledger by (simp add: ledger_ok_def)
  moreover have "indeterminate (applySplit ex_bought (ex_entry ex_split) (integerDecimal 6)) = None" by code_simp
  ultimately show ?thesis using split_scales_lots by (metis dec_value_integerDecimal of_int_numeral)
qed

section \<open>Groups\<close>

text \<open>
  A group is applied whole or not at all. When inputs that time does not order are
  applied as a group to a running book, either the group is exactly the sequential run of its inputs,
  or the book stops with its lots, holding and pools untouched and one indeterminate record for each
  disposal of the group.
\<close>

theorem group_all_or_nothing:
  assumes "applyGroup st g p = Some st'" and "indeterminate st = None"
  shows "applyEntries st g p = Some st' \<or>
    (\<exists>r. indeterminate st' = Some \<lparr>stopRefs = sort (map entryRef g), stopReason = r\<rparr> \<and>
      lots st' = lots st \<and> held st' = held st \<and> closedPools st' = closedPools st \<and>
      disposals st' = disposals st @ map (\<lambda>e. indeterminateDisposal e p r)
        (filter (\<lambda>e. kind (entryInput e) = Disposal) g))"
proof (cases rule: applyGroup_cases [OF assms(1), case_names run failed])
  case (failed r)
  then show ?thesis
    by (intro disjI2 exI [of _ r]) (simp add: failAll_eq markIndeterminate_def is_disposal_def [abs_def])
qed simp

lemma group_all_or_nothing_witness:
  "\<exists>st'. applyGroup emptyState [ex_entry ex_buy, ex_entry ex_sell] (ex_policy Fifo) = Some st' \<and>
     lots st' = lots emptyState"
proof -
  let ?g = "[ex_entry ex_buy, ex_entry ex_sell]"
  have "\<not> commutes ?g (ex_policy Fifo)" by (simp add: commutes_def ex_policy_def)
  then have run: "applyGroup emptyState ?g (ex_policy Fifo) = Some (failAll emptyState ?g R_order_tie (ex_policy Fifo))"
    by (simp add: applyGroup_def emptyState_def)
  have go: "indeterminate emptyState = None" by (simp add: emptyState_def)
  have "map_option (\<lambda>s. length (lots s)) (applyEntries emptyState ?g (ex_policy Fifo)) = Some 1" by code_simp
  then have diff: "applyEntries emptyState ?g (ex_policy Fifo) \<noteq>
      Some (failAll emptyState ?g R_order_tie (ex_policy Fifo))"
    by (auto simp: failAll_eq markIndeterminate_def emptyState_def simp del: applyEntries.simps)
  show ?thesis
    by (rule exI, rule conjI, rule run)
      (use group_all_or_nothing [OF run go] diff in \<open>auto simp del: applyEntries.simps\<close>)
qed

text \<open>
  The order inside an accepted group of moving-average disposals does not matter. When
  the group check of a book accepts two or more disposals without a rounding policy, applying them in
  any order runs to the end without stopping and gives the same book (lots, holding, pools, index) and
  the same records up to their order.
\<close>

theorem pooled_disposals_commute:
  assumes ok: "book_ok p st" "amounts_ok st" "seeded st" and go: "indeterminate st = None"
    and "lotMethod p = Moving_average" and "rounding p = None"
    and "\<forall>e\<in>set g. kind (entryInput e) = Disposal" and "2 \<le> length g" and "\<forall>e\<in>set g. entry_ok p e"
    and "groupFailure st g p = None" and perm: "mset h = mset g"
  shows "\<exists>a b. applyEntries st g p = Some a \<and> applyEntries st h p = Some b \<and>
    b = a\<lparr>disposals := disposals b\<rparr> \<and> mset (disposals b) = mset (disposals a) \<and> indeterminate a = None"
proof -
  obtain pool where runs: "\<And>h. mset h = mset g \<Longrightarrow> \<exists>st' ds. applyEntries st h p = Some st' \<and>
      drawn st pool (total_disposed g) st' \<and> disposals st' = disposals st @ ds \<and> list_all2 (record_of p pool) h ds"
    using disposal_group_runs [OF assms(1-10)] by metis
  obtain a as where a: "applyEntries st g p = Some a" "drawn st pool (total_disposed g) a"
    "disposals a = disposals st @ as" "list_all2 (record_of p pool) g as"
    using runs [OF refl] by blast
  obtain b bs where b: "applyEntries st h p = Some b" "drawn st pool (total_disposed g) b"
    "disposals b = disposals st @ bs" "list_all2 (record_of p pool) h bs"
    using runs [OF perm] by blast
  have "mset bs = mset as"
    using b(4) a(4) perm by (rule records_perm) (rule record_of_unique)
  moreover have "b = a\<lparr>disposals := disposals b\<rparr>" using a(2) b(2) by (rule drawn_unique)
  moreover have "indeterminate a = None" using a(2) by (simp add: drawn_def)
  ultimately show ?thesis using a(1,3) b(1,3) by auto
qed

definition ex_pooled :: "LotInput \<Rightarrow> Entry" where
  "ex_pooled i = entryOf (ex_policy Moving_average) i"

definition ex_sell2 :: LotInput where
  "ex_sell2 = ex_input ''t'' Disposal ''2024-02-05'' 2 50"

lemma ex_pooled_ok: "i \<in> {ex_buy, ex_sell, ex_sell2} \<Longrightarrow> entry_ok (ex_policy Moving_average) (ex_pooled i)"
proof -
  have "\<forall>e\<in>set (map ex_pooled [ex_buy, ex_sell, ex_sell2]). entry_ok (ex_policy Moving_average) e"
    unfolding entry_ok_def by code_simp
  then show "i \<in> {ex_buy, ex_sell, ex_sell2} \<Longrightarrow> entry_ok (ex_policy Moving_average) (ex_pooled i)" by auto
qed

definition ex_pool :: BookState where
  "ex_pool = addLot (emptyState\<lparr>history := True\<rparr>)
     (openLot (ex_pooled ex_buy) (integerDecimal 3) (ex_policy Moving_average))"

lemma ex_pool_run: "applyEntry emptyState (ex_pooled ex_buy) (ex_policy Moving_average) = Some ex_pool"
proof -
  have "kind (entryInput (ex_pooled ex_buy)) = Acquisition"
    "exactValue (quantity (entryInput (ex_pooled ex_buy))) = Some (integerDecimal 3)"
    by (simp_all add: ex_pooled_def entryOf_def ex_buy_def ex_input_def shares_def)
  moreover have "length (unionSorted [] (costUnitsOf (entryInput (ex_pooled ex_buy)) (ex_policy Moving_average))) = 1"
    by code_simp
  ultimately show ?thesis
    by (simp add: applyEntry_def emptyState_def applyAcquisition_def ex_pool_def addLot_def)
qed

lemma pooled_disposals_commute_witness:
  "\<exists>a b. applyEntries ex_pool [ex_pooled ex_sell, ex_pooled ex_sell2] (ex_policy Moving_average) = Some a \<and>
     applyEntries ex_pool [ex_pooled ex_sell2, ex_pooled ex_sell] (ex_policy Moving_average) = Some b \<and>
     b = a\<lparr>disposals := disposals b\<rparr> \<and> mset (disposals b) = mset (disposals a) \<and> indeterminate a = None"
proof (rule pooled_disposals_commute)
  let ?p = "ex_policy Moving_average"
  have led: "ledger_ok ?p (insert (entryRef (ex_pooled ex_buy)) {}) ex_pool"
    by (rule applyEntry_ledger [OF ledger_ok_empty _ _ ex_pool_run]) (simp_all add: ex_pooled_ok)
  then show "book_ok ?p ex_pool" "seeded ex_pool" by (simp_all add: ledger_ok_def)
  show "amounts_ok ex_pool"
    by (rule applyEntry_amounts [OF _ _ _ ex_pool_run])
      (simp_all add: ex_pooled_ok amounts_ok_def emptyState_def [THEN arg_cong [of _ _ lots]])
  show "groupFailure ex_pool [ex_pooled ex_sell, ex_pooled ex_sell2] ?p = None" by code_simp
  show "\<forall>e\<in>set [ex_pooled ex_sell, ex_pooled ex_sell2]. entry_ok ?p e" by (simp add: ex_pooled_ok)
  show "\<forall>e\<in>set [ex_pooled ex_sell, ex_pooled ex_sell2]. kind (entryInput e) = Disposal" by code_simp
  show "indeterminate ex_pool = None" by (simp add: ex_pool_def addLot_def emptyState_def)
  show "lotMethod ?p = Moving_average" "rounding ?p = None" by (simp_all add: ex_policy_def)
qed simp_all

end
