(* ===== verification/Calculation.thy ===== *)
theory Calculation
  imports Lot_Inputs
begin

text \<open>
  Valuation, rounding and profit-and-loss attribution, \<open>packages/domain/src/calculation.ts\<close>, with the
  price arithmetic of \<open>packages/domain/src/metrics.ts\<close> it rests on: one holding at one price, a rounding
  policy over parts and their total, the two attributions of a change in value, the partition of a list
  of valued cells and net worth. Loops over BigInt are recursions; the one place where the source
  would throw, a negative power of ten, is the value \<open>None\<close>.
\<close>

section \<open>Prices\<close>

datatype PriceKind = Execution | Bid | Ask | Reference | Nav | Provider_value

record PriceObservation =
  priceId :: string
  baseInstrumentRef :: string
  baseQuantity :: ExactDecimal
  quoteUnitRef :: string
  quoteAmount :: ExactDecimal
  priceKind :: PriceKind
  effectiveTime :: TemporalValue
  sourceClaimRef :: string
  marketRef :: "string option"
  adjustmentPolicyRef :: "string option"

definition validPriceObservation :: "PriceObservation \<Rightarrow> bool" where
  "validPriceObservation p \<longleftrightarrow>
     isText 256 (priceId p) \<and> isText 256 (baseInstrumentRef p) \<and>
     validExactDecimal (baseQuantity p) \<and> \<not> coefficient (baseQuantity p) < 0 \<and>
     coefficient (baseQuantity p) \<noteq> 0 \<and>
     isText 128 (quoteUnitRef p) \<and> validExactDecimal (quoteAmount p) \<and>
     validTemporalValue (effectiveTime p) \<and> isText 512 (sourceClaimRef p) \<and>
     (case marketRef p of None \<Rightarrow> True | Some t \<Rightarrow> isText 256 t) \<and>
     (case adjustmentPolicyRef p of None \<Rightarrow> True | Some t \<Rightarrow> isText 256 t)"

definition priceRatio :: "PriceObservation \<Rightarrow> ExactRatio" where
  "priceRatio p = \<lparr>numerator = coefficient (quoteAmount p) * 10 ^ scale (baseQuantity p),
     denominator = coefficient (baseQuantity p) * 10 ^ scale (quoteAmount p)\<rparr>"

definition valueAtPrice ::
  "Quantity \<Rightarrow> PriceObservation \<Rightarrow> Rounding option \<Rightarrow> ValueError + Quantity"
where
  "valueAtPrice q p rd =
     (if unitRef q \<noteq> baseInstrumentRef p then
        Inl (value_error Unit_mismatch ''price base instrument differs from the quantity unit''
          [unitRef q, baseInstrumentRef p])
      else case quantityValue q of
        AbsentValue status reason \<Rightarrow>
          Inl (value_error Value_not_exact ''only exact quantities are valued''
            [absent_status_text status @ '':'' @ reason])
      | ExactValue v _ \<Rightarrow>
          (case multiplyByRatio v (priceRatio p) rd of
             Inl e \<Rightarrow> Inl e
           | Inr scaled \<Rightarrow> Inr (exactQuantity (quoteUnitRef p) scaled)))"

section \<open>One holding\<close>

datatype UnvaluedReason =
    Missing_quantity | Unresolved_identity | Overlap | Stale_price | Missing_price
  | Unsupported_instrument_class | Incomplete_liabilities

fun unvalued_text :: "UnvaluedReason \<Rightarrow> string" where
  "unvalued_text Missing_quantity = ''missing-quantity''"
| "unvalued_text Unresolved_identity = ''unresolved-identity''"
| "unvalued_text Overlap = ''overlap''"
| "unvalued_text Stale_price = ''stale-price''"
| "unvalued_text Missing_price = ''missing-price''"
| "unvalued_text Unsupported_instrument_class = ''unsupported-instrument''"
| "unvalued_text Incomplete_liabilities = ''incomplete-liabilities''"

lemma unvalued_text_inject [simp]: "unvalued_text a = unvalued_text b \<longleftrightarrow> a = b"
  by (cases a; cases b) simp_all

text \<open>\<open>[...reasons].sort()\<close> orders the reasons by their text.\<close>

instantiation UnvaluedReason :: linorder
begin

definition less_eq_UnvaluedReason :: "UnvaluedReason \<Rightarrow> UnvaluedReason \<Rightarrow> bool" where
  "a \<le> b \<longleftrightarrow> unvalued_text a \<le> unvalued_text b"

definition less_UnvaluedReason :: "UnvaluedReason \<Rightarrow> UnvaluedReason \<Rightarrow> bool" where
  "a < b \<longleftrightarrow> unvalued_text a < unvalued_text b"

instance
  by standard (auto simp: less_eq_UnvaluedReason_def less_UnvaluedReason_def less_le)

end

datatype ValuationStep =
    Permitted_perimeter | Claim_adoption | Identity_ownership_scope | Quantity_by_unit
  | Instrument_valuation_method | Fx_conversion | Rounding_and_aggregation | Coverage_and_explanation

datatype ValuationMethod = Quantity_times_price | Provider_reported_only | Unsupported_method

record InstrumentValuationPolicy =
  valuationPolicyId :: string
  methods :: "InstrumentClass \<rightharpoonup> ValuationMethod"

definition DEFAULT_INSTRUMENT_VALUATION_POLICY :: InstrumentValuationPolicy where
  "DEFAULT_INSTRUMENT_VALUATION_POLICY = \<lparr>valuationPolicyId = ''instrument-valuation-v1'',
     methods = (\<lambda>c. Some (case c of
         Cash \<Rightarrow> Quantity_times_price | Deposit \<Rightarrow> Quantity_times_price
       | Listed_equity \<Rightarrow> Quantity_times_price | Fund_unit \<Rightarrow> Quantity_times_price
       | Crypto_asset \<Rightarrow> Quantity_times_price | Derivative \<Rightarrow> Unsupported_method
       | Margin_position \<Rightarrow> Unsupported_method | Nominal_contract \<Rightarrow> Unsupported_method
       | Unknown_class \<Rightarrow> Unsupported_method))\<rparr>"

definition valuationMethodFor :: "InstrumentClass \<Rightarrow> InstrumentValuationPolicy \<Rightarrow> ValuationMethod" where
  "valuationMethodFor c p = (case methods p c of Some way \<Rightarrow> way | None \<Rightarrow> Unsupported_method)"

fun class_text :: "InstrumentClass \<Rightarrow> string" where
  "class_text Cash = ''cash''"
| "class_text Deposit = ''deposit''"
| "class_text Listed_equity = ''listed-equity''"
| "class_text Fund_unit = ''fund-unit''"
| "class_text Crypto_asset = ''crypto-asset''"
| "class_text Derivative = ''derivative''"
| "class_text Margin_position = ''margin-position''"
| "class_text Nominal_contract = ''nominal-contract''"
| "class_text Unknown_class = ''unknown''"

fun valuation_method_text :: "ValuationMethod \<Rightarrow> string" where
  "valuation_method_text Quantity_times_price = ''quantity-times-price''"
| "valuation_method_text Provider_reported_only = ''provider-reported-only''"
| "valuation_method_text Unsupported_method = ''unsupported''"

datatype HoldingValuation =
    Valued ValuationStep Quantity Quantity string "RoundingInputs option"
  | Unvalued ValuationStep UnvaluedReason "string list"

record HoldingValuationOptions =
  optClass :: "InstrumentClass option"
  optPolicy :: "InstrumentValuationPolicy option"
  optRounding :: "RoundingPolicy option"
  scopeOverlap :: "bool option"
  identityUnresolved :: "bool option"
  freshnessFloor :: "TemporalValue option"

definition roundingOf :: "RoundingPolicy \<Rightarrow> Rounding" where
  "roundingOf p = \<lparr>roundScale = rpPrecision p, roundMode = rpMode p\<rparr>"

definition or_default :: "'a option \<Rightarrow> 'a \<Rightarrow> 'a" where
  "or_default a d = (case a of Some x \<Rightarrow> x | None \<Rightarrow> d)"

definition stalePrice :: "PriceObservation \<Rightarrow> TemporalValue option \<Rightarrow> bool" where
  "stalePrice p limit =
     (case limit of
        None \<Rightarrow> False
      | Some f \<Rightarrow>
          (case compareTemporal (effectiveTime p) f of
             Ordered n \<Rightarrow> n < 0
           | _ \<Rightarrow> True))"

definition exact_or_zero :: "Quantity \<Rightarrow> ExactDecimal" where
  "exact_or_zero q = (case quantityValue q of ExactValue v _ \<Rightarrow> v | AbsentValue _ _ \<Rightarrow> integerDecimal 0)"

definition valueHolding ::
  "Quantity \<Rightarrow> PriceObservation option \<Rightarrow> HoldingValuationOptions \<Rightarrow> HoldingValuation"
where
  "valueHolding q price opts =
     (if identityUnresolved opts = Some True then
        Unvalued Identity_ownership_scope Unresolved_identity [unitRef q]
      else if scopeOverlap opts = Some True then
        Unvalued Identity_ownership_scope Overlap [unitRef q]
      else case quantityValue q of
        AbsentValue status reason \<Rightarrow>
          Unvalued Quantity_by_unit Missing_quantity [absent_status_text status @ '':'' @ reason]
      | ExactValue v _ \<Rightarrow>
          (let cls = or_default (optClass opts) Unknown_class;
               way = valuationMethodFor cls (or_default (optPolicy opts) DEFAULT_INSTRUMENT_VALUATION_POLICY)
           in if way \<noteq> Quantity_times_price then
                Unvalued Instrument_valuation_method Unsupported_instrument_class
                  [class_text cls, valuation_method_text way]
              else case price of
                None \<Rightarrow> Unvalued Fx_conversion Missing_price [unitRef q]
              | Some p \<Rightarrow>
                  if baseInstrumentRef p \<noteq> unitRef q then
                    Unvalued Identity_ownership_scope Unresolved_identity [unitRef q, baseInstrumentRef p]
                  else if stalePrice p (freshnessFloor opts) then
                    Unvalued Fx_conversion Stale_price [priceId p]
                  else (case valueAtPrice q p None of
                    Inl e \<Rightarrow> Unvalued Fx_conversion Missing_price (errorRefs e)
                  | Inr exact \<Rightarrow>
                      (case optRounding opts of
                         None \<Rightarrow> Valued Fx_conversion exact exact (priceId p) None
                       | Some policy \<Rightarrow>
                           (case valueAtPrice q p (Some (roundingOf policy)) of
                              Inl e \<Rightarrow> Unvalued Rounding_and_aggregation Missing_price (errorRefs e)
                            | Inr rounded \<Rightarrow>
                                Valued Rounding_and_aggregation rounded exact (priceId p)
                                  (Some \<lparr>riPolicyId = rpPolicyId policy, riWhere = rpWhere policy,
                                    riMode = rpMode policy, riPrecision = rpPrecision policy,
                                    riResidual = rpResidual policy,
                                    riOperands = [v, quoteAmount p, baseQuantity p],
                                    riPreRounding = Some (exact_or_zero exact)\<rparr>))))))"

section \<open>A rounding policy over parts\<close>

record RoundedAggregate =
  aggTotal :: Quantity
  aggPreRounding :: Quantity
  aggParts :: "ExactDecimal list"
  aggResidual :: ExactDecimal
  aggInputs :: RoundingInputs

definition UNIT_RATIO :: ExactRatio where
  "UNIT_RATIO = \<lparr>numerator = 1, denominator = 1\<rparr>"

definition roundDecimal :: "ExactDecimal \<Rightarrow> Rounding \<Rightarrow> ExactDecimal" where
  "roundDecimal v rd = (case multiplyByRatio v UNIT_RATIO (Some rd) of Inr d \<Rightarrow> d | Inl _ \<Rightarrow> v)"

definition units :: "ExactDecimal \<Rightarrow> nat \<Rightarrow> int option" where
  "units v precision =
     (if scale v \<le> precision then Some (coefficient v * 10 ^ (precision - scale v)) else None)"

definition unitsAll :: "ExactDecimal list \<Rightarrow> nat \<Rightarrow> int list option" where
  "unitsAll vs precision = those (map (\<lambda>v. units v precision) vs)"

definition compareRemainders :: "int \<Rightarrow> nat \<times> ExactDecimal \<Rightarrow> nat \<times> ExactDecimal \<Rightarrow> int" where
  "compareRemainders step a b =
     (let order = compareDecimals (snd a) (snd b)
      in if order = 0 then int (fst a) - int (fst b) else if 0 < step then - order else order)"

fun giveUnits :: "(nat \<times> ExactDecimal) list \<Rightarrow> int \<Rightarrow> nat \<Rightarrow> nat \<Rightarrow> int list \<Rightarrow> int list" where
  "giveUnits ranked step taken 0 allocated = allocated"
| "giveUnits ranked step taken (Suc n) allocated =
     (let slot = fst (ranked ! (taken mod length ranked))
      in giveUnits ranked step (Suc taken) n (allocated[slot := allocated ! slot + step]))"

definition largestRemainder :: "ExactDecimal list \<Rightarrow> ExactDecimal list \<Rightarrow> int \<Rightarrow> int list \<Rightarrow> int list" where
  "largestRemainder parts rounded drift allocated =
     (let step = (if 0 < drift then 1 else - 1);
          ranked = js_sort (compareRemainders step)
            (zip [0..<length parts] (map (\<lambda>(part, r). subtractDecimals part r) (zip parts rounded)))
      in giveUnits ranked step 0 (nat \<bar>drift\<bar>) allocated)"

definition absorbDrift ::
  "RoundingPolicy \<Rightarrow> ExactDecimal list \<Rightarrow> ExactDecimal list \<Rightarrow> int \<Rightarrow> int list \<Rightarrow> int list"
where
  "absorbDrift policy parts rounded drift allocated =
     (if drift \<noteq> 0 \<and> rpResidual policy = Carry \<and> allocated \<noteq> [] then
        allocated[length allocated - 1 := allocated ! (length allocated - 1) + drift]
      else if drift \<noteq> 0 \<and> rpResidual policy = Largest_remainder \<and> allocated \<noteq> [] then
        largestRemainder parts rounded drift allocated
      else allocated)"

definition policyInputs :: "RoundingPolicy \<Rightarrow> ExactDecimal list \<Rightarrow> RoundingInputs" where
  "policyInputs policy parts = \<lparr>riPolicyId = rpPolicyId policy, riWhere = rpWhere policy,
     riMode = rpMode policy, riPrecision = rpPrecision policy, riResidual = rpResidual policy,
     riOperands = parts, riPreRounding = Some (sumDecimals parts)\<rparr>"

definition aggregateOf ::
  "string \<Rightarrow> ExactDecimal list \<Rightarrow> RoundingPolicy \<Rightarrow> ExactDecimal \<Rightarrow> ExactDecimal list \<Rightarrow> RoundedAggregate"
where
  "aggregateOf u parts policy whole reported = \<lparr>
     aggTotal = exactQuantity u whole, aggPreRounding = exactQuantity u (sumDecimals parts),
     aggParts = reported, aggResidual = subtractDecimals whole (sumDecimals parts),
     aggInputs = policyInputs policy parts\<rparr>"

fun rounding_point_text :: "RoundingPoint \<Rightarrow> string" where
  "rounding_point_text At_leg = ''leg''"
| "rounding_point_text At_execution = ''execution''"
| "rounding_point_text At_statement = ''statement''"
| "rounding_point_text At_aggregate = ''aggregate''"

definition applyRoundingPolicy ::
  "string \<Rightarrow> ExactDecimal list \<Rightarrow> RoundingPolicy \<Rightarrow> (ValueError + RoundedAggregate) option"
where
  "applyRoundingPolicy u parts policy =
     (let precision = rpPrecision policy;
          roundOne = (\<lambda>v. roundDecimal v (roundingOf policy));
          exactTotal = sumDecimals parts
      in if rpWhere policy = At_aggregate then
           Some (Inr (aggregateOf u parts policy (roundOne exactTotal) parts))
         else
           (let rounded = map roundOne parts
            in case (units (roundOne exactTotal) precision, unitsAll rounded precision) of
                 (Some target, Some allocated) \<Rightarrow>
                   (let drift = target - sum_list allocated
                    in if drift \<noteq> 0 \<and> rpResidual policy = Refuse then
                         Some (Inl (value_error Inexact_result
                           ''rounded parts do not sum to the rounded total and this policy refuses to adjust''
                           [rpPolicyId policy, rounding_point_text (rpWhere policy)]))
                       else
                         (let reported = map (\<lambda>count. normalizeDecimal count (int precision))
                                (absorbDrift policy parts rounded drift allocated)
                          in Some (Inr (aggregateOf u parts policy (sumDecimals reported) reported))))
               | _ \<Rightarrow> None))"

section \<open>Profit and loss\<close>

datatype PnlDecompositionPolicy = Policy_a | Policy_b

record PnlInputs =
  pnlQuantity :: ExactDecimal
  openingPrice :: ExactDecimal
  closingPrice :: ExactDecimal
  openingRate :: ExactDecimal
  closingRate :: ExactDecimal
  baseUnitRef :: string

record PnlDecomposition =
  pnlPolicyId :: PnlDecompositionPolicy
  pnlTotal :: Quantity
  pnlMarket :: Quantity
  pnlFx :: Quantity
  pnlFactual :: bool

definition pnlDecomposition :: "PnlInputs \<Rightarrow> PnlDecompositionPolicy \<Rightarrow> PnlDecomposition" where
  "pnlDecomposition i p =
     (let total = multiplyDecimals (pnlQuantity i)
            (subtractDecimals (multiplyDecimals (closingPrice i) (closingRate i))
              (multiplyDecimals (openingPrice i) (openingRate i)));
          priceChange = subtractDecimals (closingPrice i) (openingPrice i);
          rateChange = subtractDecimals (closingRate i) (openingRate i);
          market = multiplyDecimals (multiplyDecimals (pnlQuantity i) priceChange)
            (if p = Policy_a then openingRate i else closingRate i);
          fxPart = multiplyDecimals (multiplyDecimals (pnlQuantity i)
            (if p = Policy_a then closingPrice i else openingPrice i)) rateChange
      in \<lparr>pnlPolicyId = p, pnlTotal = exactQuantity (baseUnitRef i) total,
          pnlMarket = exactQuantity (baseUnitRef i) market, pnlFx = exactQuantity (baseUnitRef i) fxPart,
          pnlFactual = False\<rparr>)"

record PnlDecompositions =
  policyA :: PnlDecomposition
  policyB :: PnlDecomposition
  totalsAgree :: bool

definition componentSum :: "PnlDecomposition \<Rightarrow> ExactDecimal" where
  "componentSum d = addDecimals (exact_or_zero (pnlMarket d)) (exact_or_zero (pnlFx d))"

definition pnlDecompositions :: "PnlInputs \<Rightarrow> PnlDecompositions" where
  "pnlDecompositions i =
     (let a = pnlDecomposition i Policy_a; b = pnlDecomposition i Policy_b;
          totals = [exact_or_zero (pnlTotal a), componentSum a, componentSum b];
          first = hd totals
      in \<lparr>policyA = a, policyB = b,
          totalsAgree = list_all (\<lambda>v. coefficient v = coefficient first \<and> scale v = scale first) totals\<rparr>)"

section \<open>Cells and net worth\<close>

record ValuationCell =
  subjectRef :: string
  scopeRef :: string
  metric :: string
  cellUnitRef :: string
  cellOutcome :: HoldingValuation

record ValuationSummary =
  summaryPartition :: ResultPartition
  subtotal :: "Quantity option"
  valuedCells :: "ValuationCell list"
  unvaluedCells :: "ValuationCell list"
  summaryReasons :: "UnvaluedReason list"

record SummaryState =
  accValued :: "ValuationCell list"
  accUnvalued :: "ValuationCell list"
  accReasons :: "UnvaluedReason list"
  accAmounts :: "ExactDecimal list"

definition summaryStep :: "string \<Rightarrow> SummaryState \<Rightarrow> ValuationCell \<Rightarrow> SummaryState" where
  "summaryStep u st cell =
     (case cellOutcome cell of
        Unvalued step reason refs \<Rightarrow>
          st\<lparr>accUnvalued := accUnvalued st @ [cell], accReasons := accReasons st @ [reason]\<rparr>
      | Valued step v pre priceRef inputs \<Rightarrow>
          if unitRef v \<noteq> u then
            st\<lparr>accValued := accValued st @ [cell], accReasons := accReasons st @ [Unresolved_identity]\<rparr>
          else (case quantityValue v of
            AbsentValue status reason \<Rightarrow>
              st\<lparr>accValued := accValued st @ [cell], accReasons := accReasons st @ [Unresolved_identity]\<rparr>
          | ExactValue d _ \<Rightarrow>
              st\<lparr>accValued := accValued st @ [cell], accAmounts := accAmounts st @ [d]\<rparr>))"

definition summarizeValuation :: "string \<Rightarrow> ValuationCell list \<Rightarrow> ValuationSummary" where
  "summarizeValuation u cells =
     (let st = foldl (summaryStep u)
            \<lparr>accValued = [], accUnvalued = [], accReasons = [], accAmounts = []\<rparr> cells;
          part = (if accAmounts st = [] then Not_computable
                  else if accUnvalued st = [] \<and> length (accAmounts st) = length (accValued st) then Complete
                  else Partial_verified_scope)
      in \<lparr>summaryPartition = part,
          subtotal = (if part = Not_computable then None
                      else Some (exactQuantity u (sumDecimals (accAmounts st)))),
          valuedCells = accValued st, unvaluedCells = accUnvalued st,
          summaryReasons = sorted_set (accReasons st)\<rparr>)"

datatype LiabilitiesCoverage = Liabilities_complete | Liabilities_partial | Liabilities_unknown

record NetWorthInput =
  nwUnitRef :: string
  nwAssets :: ExactDecimal
  nwLiabilities :: ExactDecimal
  liabilitiesCoverage :: LiabilitiesCoverage
  assetsPartition :: ResultPartition

datatype NetWorthOutcome =
    NetWorth Quantity Quantity Quantity ResultPartition
  | KnownAssetsSubtotal Quantity UnvaluedReason ResultPartition

definition netWorth :: "NetWorthInput \<Rightarrow> NetWorthOutcome" where
  "netWorth i =
     (if liabilitiesCoverage i \<noteq> Liabilities_complete then
        KnownAssetsSubtotal (exactQuantity (nwUnitRef i) (nwAssets i)) Incomplete_liabilities
          (if assetsPartition i = Not_computable then Not_computable else Partial_verified_scope)
      else NetWorth (exactQuantity (nwUnitRef i) (subtractDecimals (nwAssets i) (nwLiabilities i)))
        (exactQuantity (nwUnitRef i) (nwAssets i)) (exactQuantity (nwUnitRef i) (nwLiabilities i))
        (assetsPartition i))"

section \<open>What the pieces compute\<close>

lemma validExactRatio_unit [simp]: "validExactRatio UNIT_RATIO"
  by code_simp

lemma ratio_value_unit [simp]: "ratio_value UNIT_RATIO = 1"
  by (simp add: ratio_value_def UNIT_RATIO_def)

lemma roundDecimal_spec:
  obtains z where "roundDecimal v rd = normalizeDecimal z (int (roundScale rd))"
    and "rounds_to (roundMode rd) (dec_value v * 10 ^ roundScale rd) z"
  using multiplyByRatio_rounding [OF validExactRatio_unit, of v rd]
  by (auto simp: roundDecimal_def)

lemma same_value_scaled:
  assumes "(of_int c :: rat) / 10 ^ t = of_int z / 10 ^ (t + k)"
  shows "c * 10 ^ k = z"
proof -
  have "(of_int (c * 10 ^ k) :: rat) = of_int z" using assms by (simp add: power_add field_simps)
  then show ?thesis by (simp only: of_int_eq_iff)
qed

lemma units_normalizeDecimal [simp]: "units (normalizeDecimal z (int s)) s = Some z"
proof -
  define d where "d = normalizeDecimal z (int s)"
  have le: "scale d \<le> s" unfolding d_def by (rule scale_normalize)
  have "of_int (coefficient d) / 10 ^ scale d = (of_int z :: rat) / 10 ^ (scale d + (s - scale d))"
    using dec_value_normalizeDecimal [of z s, folded d_def] le by (simp add: dec_value_def)
  from same_value_scaled [OF this] show ?thesis using le by (simp add: units_def d_def)
qed

lemma rounds_to_close: "rounds_to mode y z \<Longrightarrow> \<bar>y - of_int z\<bar> < 1"
  by (cases mode) (auto simp: abs_if split: if_splits)

text \<open>A part, the count of units it is rounded to, and the remainder in units.\<close>

definition rounded_count :: "RoundingPolicy \<Rightarrow> ExactDecimal \<Rightarrow> int" where
  "rounded_count policy v = the (units (roundDecimal v (roundingOf policy)) (rpPrecision policy))"

lemma rounded_count:
  "units (roundDecimal v (roundingOf policy)) (rpPrecision policy) = Some (rounded_count policy v)"
  "roundDecimal v (roundingOf policy) = normalizeDecimal (rounded_count policy v) (int (rpPrecision policy))"
  "rounds_to (rpMode policy) (dec_value v * 10 ^ rpPrecision policy) (rounded_count policy v)"
proof -
  obtain z where z: "roundDecimal v (roundingOf policy) = normalizeDecimal z (int (rpPrecision policy))"
    "rounds_to (rpMode policy) (dec_value v * 10 ^ rpPrecision policy) z"
    by (rule roundDecimal_spec [of v "roundingOf policy"]) (simp add: roundingOf_def)
  then have "rounded_count policy v = z" by (simp add: rounded_count_def)
  with z show "units (roundDecimal v (roundingOf policy)) (rpPrecision policy) = Some (rounded_count policy v)"
    "roundDecimal v (roundingOf policy) = normalizeDecimal (rounded_count policy v) (int (rpPrecision policy))"
    "rounds_to (rpMode policy) (dec_value v * 10 ^ rpPrecision policy) (rounded_count policy v)"
    by simp_all
qed

lemma unitsAll_rounded:
  "unitsAll (map (\<lambda>v. roundDecimal v (roundingOf policy)) parts) (rpPrecision policy) =
     Some (map (rounded_count policy) parts)"
  by (induction parts) (simp_all add: unitsAll_def rounded_count(1))

definition drift_of :: "RoundingPolicy \<Rightarrow> ExactDecimal list \<Rightarrow> int" where
  "drift_of policy parts =
     rounded_count policy (sumDecimals parts) - sum_list (map (rounded_count policy) parts)"

lemma applyRoundingPolicy_legs:
  assumes "rpWhere policy \<noteq> At_aggregate"
  shows "applyRoundingPolicy u parts policy = Some (
    if drift_of policy parts \<noteq> 0 \<and> rpResidual policy = Refuse then
      Inl (value_error Inexact_result
        ''rounded parts do not sum to the rounded total and this policy refuses to adjust''
        [rpPolicyId policy, rounding_point_text (rpWhere policy)])
    else
      let reported = map (\<lambda>count. normalizeDecimal count (int (rpPrecision policy)))
        (absorbDrift policy parts (map (\<lambda>v. roundDecimal v (roundingOf policy)) parts)
          (drift_of policy parts) (map (rounded_count policy) parts))
      in Inr (aggregateOf u parts policy (sumDecimals reported) reported))"
  using assms by (simp add: applyRoundingPolicy_def Let_def rounded_count(1) unitsAll_rounded drift_of_def)

section \<open>Giving out the drift\<close>

lemma length_giveUnits [simp]: "length (giveUnits ranked step taken n allocated) = length allocated"
  by (induction n arbitrary: taken allocated) (simp_all add: Let_def)

lemma sum_list_update_add:
  "i < length (xs :: int list) \<Longrightarrow> sum_list (xs[i := xs ! i + d]) = sum_list xs + d"
  by (induction xs arbitrary: i) (auto split: nat.split)

lemma sum_giveUnits:
  assumes "ranked \<noteq> []" and "\<forall>slot\<in>set ranked. fst slot < length allocated"
  shows "sum_list (giveUnits ranked step taken n allocated) = sum_list allocated + int n * step"
  using assms(2)
proof (induction n arbitrary: taken allocated)
  case (Suc n)
  have "ranked ! (taken mod length ranked) \<in> set ranked" using assms(1) by (intro nth_mem) simp
  then have "fst (ranked ! (taken mod length ranked)) < length allocated" using Suc.prems by blast
  from sum_list_update_add [OF this, of step] Suc show ?case
    by (simp add: Let_def) (simp add: algebra_simps)
qed simp

text \<open>As long as no slot is used twice, each of the first slots gets one unit.\<close>

lemma nth_giveUnits:
  assumes "distinct (map fst ranked)" and "\<forall>slot\<in>set ranked. fst slot < length allocated"
    and "taken + n \<le> length ranked" and "i < length allocated"
  shows "giveUnits ranked step taken n allocated ! i =
    allocated ! i + (if i \<in> set (map fst (take n (drop taken ranked))) then step else 0)"
  using assms(2-4)
proof (induction n arbitrary: taken allocated)
  case (Suc n)
  let ?slot = "fst (ranked ! taken)"
  have taken: "taken < length ranked" "taken mod length ranked = taken" using Suc.prems(2) by simp_all
  then have "ranked ! taken \<in> set ranked" by simp
  then have slot: "?slot < length allocated" using Suc.prems(1) by blast
  have later: "drop taken ranked = ranked ! taken # drop (Suc taken) ranked"
    using taken(1) by (rule Cons_nth_drop_Suc [symmetric])
  have "distinct (map fst (drop taken ranked))" using assms(1) by (metis distinct_drop drop_map)
  then have "?slot \<notin> set (map fst (drop (Suc taken) ranked))" unfolding later by simp
  then have fresh: "?slot \<notin> set (map fst (take n (drop (Suc taken) ranked)))"
    by (auto dest: in_set_takeD)
  have "giveUnits ranked step (Suc taken) n (allocated[?slot := allocated ! ?slot + step]) ! i =
      allocated[?slot := allocated ! ?slot + step] ! i +
      (if i \<in> set (map fst (take n (drop (Suc taken) ranked))) then step else 0)"
    using Suc.prems by (intro Suc.IH) simp_all
  then show ?case
    using fresh slot Suc.prems(3) unfolding giveUnits.simps Let_def taken(2) later
    by (auto simp: nth_list_update)
qed simp

lemma compareRemainders_le:
  "compareRemainders step a b \<le> 0 \<longleftrightarrow>
     (if 0 < step then dec_value (snd b) < dec_value (snd a) else dec_value (snd a) < dec_value (snd b)) \<or>
     dec_value (snd a) = dec_value (snd b) \<and> fst a \<le> fst b"
  by (auto simp: compareRemainders_def compareDecimals_value Let_def)

interpretation remainders: comparator "compareRemainders step" for step
proof
  fix a b c :: "nat \<times> ExactDecimal"
  show "0 < compareRemainders step a b \<Longrightarrow> compareRemainders step b a \<le> 0"
    unfolding compareRemainders_le not_le [symmetric] by (auto split: if_splits)
  show "compareRemainders step a b \<le> 0 \<Longrightarrow> compareRemainders step b c \<le> 0 \<Longrightarrow> compareRemainders step a c \<le> 0"
    unfolding compareRemainders_le by (auto split: if_splits)
qed

text \<open>
  Numbers below one whose sum is within one of \<open>k\<close>: at least \<open>k\<close> of them are positive.
\<close>

lemma enough_positive:
  fixes r :: "nat \<Rightarrow> rat"
  assumes "\<forall>i<n. r i < 1" and "of_nat k < (\<Sum>i<n. r i) + 1" and "0 < k"
  shows "k \<le> card {i. i < n \<and> 0 < r i}"
proof -
  let ?G = "{i. i < n \<and> 0 < r i}"
  have "(\<Sum>i<n. r i) \<le> (\<Sum>i<n. if 0 < r i then r i else 0)" by (rule sum_mono) simp
  also have "\<dots> = (\<Sum>i\<in>?G. r i)" by (simp add: sum.If_cases Int_def)
  finally have le: "(\<Sum>i<n. r i) \<le> (\<Sum>i\<in>?G. r i)" .
  show ?thesis
  proof (cases "?G = {}")
    case True
    with le assms(2) have "(of_nat k :: rat) < of_nat 1" by simp
    then have "k < 1" by (simp only: of_nat_less_iff)
    with assms(3) show ?thesis by simp
  next
    case False
    have "(\<Sum>i\<in>?G. r i) < (\<Sum>i\<in>?G. 1)"
      by (rule sum_strict_mono) (use False assms(1) in auto)
    with le assms(2) have "(of_nat k :: rat) < of_nat (card ?G + 1)" by simp
    then have "k < card ?G + 1" by (simp only: of_nat_less_iff)
    then show ?thesis by simp
  qed
qed

text \<open>The slots ranked first are the ones that lost in the direction of the drift.\<close>

lemma top_positive:
  fixes g :: "nat \<Rightarrow> rat"
  assumes sorted: "sorted_wrt (\<lambda>a b. g (fst b) \<le> g (fst a)) ranked"
    and slots: "fst ` set ranked = {..<n}" "distinct (map fst ranked)"
    and k: "k \<le> card {i. i < n \<and> 0 < g i}" and i: "i \<in> set (map fst (take k ranked))"
  shows "0 < g i"
proof (rule ccontr)
  assume "\<not> 0 < g i"
  obtain j where j: "j < k" "j < length ranked" "i = fst (ranked ! j)"
    using i by (auto simp: in_set_conv_nth)
  have "{i. i < n \<and> 0 < g i} \<subseteq> fst ` set (take j ranked)"
  proof
    fix x
    assume x: "x \<in> {i. i < n \<and> 0 < g i}"
    then have "x \<in> set (map fst ranked)" using slots(1) by simp
    then obtain m where m: "m < length ranked" "x = fst (ranked ! m)" by (auto simp: in_set_conv_nth)
    have "\<not> j < m"
      using sorted_wrt_nth_less [OF sorted, of j m] m j(3) x \<open>\<not> 0 < g i\<close> by auto
    moreover have "m \<noteq> j" using x m(2) j(3) \<open>\<not> 0 < g i\<close> by auto
    ultimately have "m < j" by simp
    then show "x \<in> fst ` set (take j ranked)"
      using m by (auto simp: in_set_conv_nth intro!: image_eqI [of _ _ "ranked ! m"] exI [of _ m])
  qed
  then have "card {i. i < n \<and> 0 < g i} \<le> card (fst ` set (take j ranked))" by (intro card_mono) simp_all
  also have "\<dots> \<le> card (set (take j ranked))" by (rule card_image_le) simp
  also have "\<dots> \<le> length (take j ranked)" by (rule card_length)
  finally show False using k j(1,2) by simp
qed

lemma ranked_remainders:
  fixes parts rounded :: "ExactDecimal list" and step :: int
  defines "ranked \<equiv> js_sort (compareRemainders step)
    (zip [0..<length parts] (map (\<lambda>(part, r). subtractDecimals part r) (zip parts rounded)))"
  assumes len: "length rounded = length parts" and unit: "step = 1 \<or> step = - 1"
  shows "set (map fst ranked) = {..<length parts}" and "distinct (map fst ranked)"
    and "length ranked = length parts"
    and "sorted_wrt (\<lambda>a b. of_int step * (dec_value (parts ! fst b) - dec_value (rounded ! fst b)) \<le>
      of_int step * (dec_value (parts ! fst a) - dec_value (rounded ! fst a))) ranked"
proof -
  let ?zip = "zip [0..<length parts] (map (\<lambda>(part, r). subtractDecimals part r) (zip parts rounded))"
  have fst: "map fst ?zip = [0..<length parts]" using len by simp
  have "set (map fst ranked) = set (map fst ?zip)" by (simp add: ranked_def)
  then show "set (map fst ranked) = {..<length parts}" unfolding fst by (simp add: atLeast0LessThan)
  have "distinct (map fst ?zip)" unfolding fst by simp
  then show "distinct (map fst ranked)" by (simp add: ranked_def)
  show "length ranked = length parts" using len by (simp add: ranked_def)
  have rem: "dec_value (snd x) = dec_value (parts ! fst x) - dec_value (rounded ! fst x)" if "x \<in> set ranked" for x
    using that len by (auto simp: ranked_def set_zip value_simps)
  have "sorted_wrt (\<lambda>a b. compareRemainders step a b \<le> 0) ranked"
    unfolding ranked_def by (rule remainders.sorted_js_sort)
  then show "sorted_wrt (\<lambda>a b. of_int step * (dec_value (parts ! fst b) - dec_value (rounded ! fst b)) \<le>
      of_int step * (dec_value (parts ! fst a) - dec_value (rounded ! fst a))) ranked"
    by (rule sorted_wrt_mono_rel [rotated])
      (use unit rem in \<open>auto simp: compareRemainders_le\<close>)
qed

text \<open>
  The largest-remainder rule. The counts it reports add up to the rounded total, and each is within
  one unit of its exact part.
\<close>

lemma largestRemainder_spec:
  fixes policy :: RoundingPolicy and parts :: "ExactDecimal list"
  defines "given \<equiv> largestRemainder parts (map (\<lambda>v. roundDecimal v (roundingOf policy)) parts)
    (drift_of policy parts) (map (rounded_count policy) parts)"
  assumes drift: "drift_of policy parts \<noteq> 0" and parts: "parts \<noteq> []"
  shows "length given = length parts" and "sum_list given = rounded_count policy (sumDecimals parts)"
    and "i < length parts \<Longrightarrow> \<bar>dec_value (parts ! i) * 10 ^ rpPrecision policy - of_int (given ! i)\<bar> < 1"
proof -
  let ?p = "rpPrecision policy" and ?d = "drift_of policy parts"
  let ?rounded = "map (\<lambda>v. roundDecimal v (roundingOf policy)) parts"
  let ?counts = "map (rounded_count policy) parts"
  define step :: int where "step = (if 0 < ?d then 1 else - 1)"
  define ranked where "ranked = js_sort (compareRemainders step)
    (zip [0..<length parts] (map (\<lambda>(part, r). subtractDecimals part r) (zip parts ?rounded)))"
  have unit: "step = 1 \<or> step = - 1" by (simp add: step_def)
  have size: "of_int ?d = of_int step * (of_nat (nat \<bar>?d\<bar>) :: rat)" "?d = int (nat \<bar>?d\<bar>) * step"
    using drift by (auto simp: step_def)
  note ranks = ranked_remainders [of ?rounded parts step, folded ranked_def, OF _ unit, simplified]
  have given: "given = giveUnits ranked step 0 (nat \<bar>?d\<bar>) ?counts"
    by (simp add: given_def largestRemainder_def step_def ranked_def Let_def)
  have nonempty: "ranked \<noteq> []" using ranks(3) parts by auto
  have slots: "\<forall>slot\<in>set ranked. fst slot < length ?counts" using ranks(1) by auto
  show "length given = length parts" by (simp add: given)
  show "sum_list given = rounded_count policy (sumDecimals parts)"
    unfolding given sum_giveUnits [OF nonempty slots] using size(2) by (simp add: drift_of_def)
  define r where "r i = dec_value (parts ! i) * 10 ^ ?p - of_int (rounded_count policy (parts ! i))" for i
  define g where "g i = of_int step * r i" for i
  have close: "\<bar>r i\<bar> < 1" for i unfolding r_def by (rule rounds_to_close [OF rounded_count(3)])
  then have below: "\<forall>i<length parts. g i < 1" using unit by (auto simp: g_def abs_less_iff)
  have sums: "(\<Sum>i<length parts. r i) =
      dec_value (sumDecimals parts) * 10 ^ ?p - of_int (sum_list ?counts)"
    by (simp add: r_def sum_subtractf dec_value_sumDecimals sum_list_sum_nth atLeast0LessThan sum_distrib_right)
  have "\<bar>(\<Sum>i<length parts. r i) - of_int ?d\<bar> < 1"
    using rounds_to_close [OF rounded_count(3) [where v = "sumDecimals parts" and policy = policy]]
    unfolding sums by (simp add: drift_of_def)
  then have "of_nat (nat \<bar>?d\<bar>) < (\<Sum>i<length parts. g i) + 1"
    using unit unfolding g_def sum_distrib_left [symmetric] size(1) by (auto simp: abs_less_iff)
  then have enough: "nat \<bar>?d\<bar> \<le> card {i. i < length parts \<and> 0 < g i}"
    by (rule enough_positive [OF below]) (use drift in simp)
  have "card {i. i < length parts \<and> 0 < g i} \<le> card {..<length parts}" by (rule card_mono) auto
  with enough have fits: "0 + nat \<bar>?d\<bar> \<le> length ranked" using ranks(3) by simp
  have gap: "(dec_value (parts ! fst x) - dec_value (?rounded ! fst x)) * 10 ^ ?p = r (fst x)"
    if "x \<in> set ranked" for x
  proof -
    have "fst x < length parts" using that ranks(1) by auto
    then show ?thesis by (simp add: r_def rounded_count(2) value_simps left_diff_distrib)
  qed
  have sorted: "sorted_wrt (\<lambda>a b. g (fst b) \<le> g (fst a)) ranked"
  proof (rule sorted_wrt_mono_rel [OF _ ranks(4)])
    fix a b
    assume mem: "a \<in> set ranked" "b \<in> set ranked"
      and le: "of_int step * (dec_value (parts ! fst b) - dec_value (?rounded ! fst b)) \<le>
        of_int step * (dec_value (parts ! fst a) - dec_value (?rounded ! fst a))"
    from mult_right_mono [OF le, of "10 ^ ?p"] show "g (fst b) \<le> g (fst a)"
      by (simp only: g_def gap [OF mem(1), symmetric] gap [OF mem(2), symmetric] mult.assoc) simp
  qed
  show "\<bar>dec_value (parts ! i) * 10 ^ ?p - of_int (given ! i)\<bar> < 1" if i: "i < length parts"
  proof (cases "i \<in> set (map fst (take (nat \<bar>?d\<bar>) ranked))")
    case True
    have "0 < g i" by (rule top_positive [OF sorted ranks(1,2) enough True])
    moreover have "given ! i = rounded_count policy (parts ! i) + step"
      using nth_giveUnits [OF ranks(2) slots fits, of i step] i True by (simp add: given)
    ultimately show ?thesis using close [of i] unit by (auto simp: g_def r_def abs_less_iff)
  next
    case False
    then have "given ! i = rounded_count policy (parts ! i)"
      using nth_giveUnits [OF ranks(2) slots fits, of i step] i by (simp add: given)
    then show ?thesis using close [of i] by (simp add: r_def)
  qed
qed

section \<open>Properties\<close>

lemma reported_spec:
  assumes "rpWhere policy \<noteq> At_aggregate" and "rpResidual policy \<in> {Carry, Largest_remainder}" and "parts \<noteq> []"
  defines "given \<equiv> absorbDrift policy parts (map (\<lambda>v. roundDecimal v (roundingOf policy)) parts)
    (drift_of policy parts) (map (rounded_count policy) parts)"
  defines "reported \<equiv> map (\<lambda>count. normalizeDecimal count (int (rpPrecision policy))) given"
  shows "applyRoundingPolicy u parts policy =
      Some (Inr (aggregateOf u parts policy (sumDecimals reported) reported))"
    and "length reported = length parts"
    and "sumDecimals reported = roundDecimal (sumDecimals parts) (roundingOf policy)"
    and "rpResidual policy = Largest_remainder \<Longrightarrow> i < length parts \<Longrightarrow>
      \<bar>dec_value (reported ! i) - dec_value (parts ! i)\<bar> < 1 / 10 ^ rpPrecision policy"
proof -
  let ?d = "drift_of policy parts" and ?counts = "map (rounded_count policy) parts"
  show "applyRoundingPolicy u parts policy =
      Some (Inr (aggregateOf u parts policy (sumDecimals reported) reported))"
    unfolding applyRoundingPolicy_legs [OF assms(1)] using assms(2)
    by (auto simp: reported_def given_def Let_def)
  have given: "length given = length parts \<and> sum_list given = rounded_count policy (sumDecimals parts)"
  proof (cases "?d \<noteq> 0 \<and> rpResidual policy = Largest_remainder")
    case True
    then show ?thesis
      using largestRemainder_spec(1,2) [of policy parts] assms(3) by (simp add: given_def absorbDrift_def)
  next
    case False
    then show ?thesis
      using assms(2,3) sum_list_update_add [of "length parts - 1" ?counts ?d]
      by (auto simp: given_def absorbDrift_def drift_of_def)
  qed
  then show "length reported = length parts" by (simp add: reported_def)
  have "sum_list (map dec_value reported) = of_int (sum_list given) / 10 ^ rpPrecision policy"
    unfolding reported_def by (induction given) (simp_all add: value_simps add_divide_distrib)
  then have "dec_value (sumDecimals reported) = dec_value (roundDecimal (sumDecimals parts) (roundingOf policy))"
    using given by (simp add: value_simps rounded_count(2))
  moreover have "canonical (roundDecimal (sumDecimals parts) (roundingOf policy))"
    by (simp add: rounded_count(2))
  ultimately show "sumDecimals reported = roundDecimal (sumDecimals parts) (roundingOf policy)"
    using canonical_unique canonical_sumDecimals by blast
  show "\<bar>dec_value (reported ! i) - dec_value (parts ! i)\<bar> < 1 / 10 ^ rpPrecision policy"
    if lr: "rpResidual policy = Largest_remainder" and i: "i < length parts"
  proof -
    let ?u = "10 ^ rpPrecision policy :: rat"
    have "\<bar>dec_value (parts ! i) * ?u - of_int (given ! i)\<bar> < 1"
    proof (cases "?d = 0")
      case True
      then have "given ! i = rounded_count policy (parts ! i)"
        using i by (simp add: given_def absorbDrift_def)
      then show ?thesis using rounds_to_close [OF rounded_count(3)] by simp
    next
      case False
      then show ?thesis
        using largestRemainder_spec(3) [OF False assms(3) i] lr assms(3) by (simp add: given_def absorbDrift_def)
    qed
    moreover have "dec_value (reported ! i) = of_int (given ! i) / ?u"
      using i given by (simp add: reported_def value_simps)
    ultimately show ?thesis by (simp add: abs_less_iff field_simps)
  qed
qed

text \<open>
  The reported parts are the reported total. When rounding is applied to parts and the
  difference is carried or given to the largest remainders, the policy always answers, reports as many
  parts as it was given, and the parts add up exactly to the exact sum rounded once; the residual is
  that total less the exact sum.
\<close>

theorem rounded_parts_sum:
  assumes "rpWhere policy \<noteq> At_aggregate" and "rpResidual policy \<in> {Carry, Largest_remainder}" and "parts \<noteq> []"
  shows "\<exists>agg. applyRoundingPolicy u parts policy = Some (Inr agg) \<and>
    length (aggParts agg) = length parts \<and>
    sumDecimals (aggParts agg) = roundDecimal (sumDecimals parts) (roundingOf policy) \<and>
    aggTotal agg = exactQuantity u (sumDecimals (aggParts agg)) \<and>
    aggPreRounding agg = exactQuantity u (sumDecimals parts) \<and>
    dec_value (aggResidual agg) = dec_value (sumDecimals (aggParts agg)) - sum_list (map dec_value parts)"
proof -
  obtain reported where
    run: "applyRoundingPolicy u parts policy = Some (Inr (aggregateOf u parts policy (sumDecimals reported) reported))"
    and spec: "length reported = length parts"
      "sumDecimals reported = roundDecimal (sumDecimals parts) (roundingOf policy)"
    using reported_spec(1-3) [OF assms] by blast
  show ?thesis
    by (rule exI, intro conjI, rule run)
      (simp_all add: aggregateOf_def spec dec_value_subtractDecimals dec_value_sumDecimals [of parts])
qed

definition thirds :: "ExactDecimal list" where
  "thirds = [\<lparr>coefficient = 33, scale = 1\<rparr>, \<lparr>coefficient = 33, scale = 1\<rparr>, \<lparr>coefficient = 34, scale = 1\<rparr>]"

definition to_units :: RoundingPolicy where
  "to_units = \<lparr>rpPolicyId = ''yen'', rpWhere = At_leg, rpMode = Down, rpPrecision = 0,
     rpResidual = Largest_remainder\<rparr>"

lemma rounded_parts_sum_witness:
  "\<exists>agg. applyRoundingPolicy ''JPY'' thirds to_units = Some (Inr agg) \<and>
    sumDecimals (aggParts agg) = roundDecimal (sumDecimals thirds) (roundingOf to_units)"
  using rounded_parts_sum [of to_units thirds "''JPY''"] by (auto simp: to_units_def thirds_def)

text \<open>
  The largest-remainder rule stays within one unit. However large the difference between
  the rounded parts and the rounded total, every part the rule reports differs from its exact value by
  less than one unit of the policy's precision.
\<close>

theorem largest_remainder_within_unit:
  assumes "rpWhere policy \<noteq> At_aggregate" and "rpResidual policy = Largest_remainder"
    and "applyRoundingPolicy u parts policy = Some (Inr agg)" and "i < length parts"
  shows "\<bar>dec_value (aggParts agg ! i) - dec_value (parts ! i)\<bar> < 1 / 10 ^ rpPrecision policy"
proof -
  have "rpResidual policy \<in> {Carry, Largest_remainder}" "parts \<noteq> []" using assms(2,4) by auto
  from reported_spec [OF assms(1) this] show ?thesis using assms by (auto simp: aggregateOf_def)
qed

lemma largest_remainder_within_unit_witness:
  "\<exists>agg. applyRoundingPolicy ''JPY'' thirds to_units = Some (Inr agg) \<and>
    \<bar>dec_value (aggParts agg ! 2) - dec_value (thirds ! 2)\<bar> < 1"
proof -
  have shape: "rpWhere to_units \<noteq> At_aggregate" "rpResidual to_units = Largest_remainder" "2 < length thirds"
    "rpPrecision to_units = 0"
    by (simp_all add: to_units_def thirds_def)
  have "rpResidual to_units \<in> {Carry, Largest_remainder}" "thirds \<noteq> []" using shape by auto
  then obtain agg where agg: "applyRoundingPolicy ''JPY'' thirds to_units = Some (Inr agg)"
    using reported_spec(1) [OF shape(1)] by blast
  from largest_remainder_within_unit [OF shape(1,2) agg shape(3)] agg show ?thesis by (simp add: shape(4))
qed

text \<open>
  Applying a rounding policy never throws, and it is refused in exactly one case: a policy
  that rounds parts, refuses to adjust, and whose rounded parts do not add up to the rounded total.
\<close>

theorem rounding_refused_exactly:
  "(\<exists>r. applyRoundingPolicy u parts policy = Some r) \<and>
   ((\<exists>e. applyRoundingPolicy u parts policy = Some (Inl e)) \<longleftrightarrow>
     rpWhere policy \<noteq> At_aggregate \<and> rpResidual policy = Refuse \<and>
     sum_list (map (\<lambda>v. dec_value (roundDecimal v (roundingOf policy))) parts) \<noteq>
       dec_value (roundDecimal (sumDecimals parts) (roundingOf policy)))"
proof -
  have "sum_list (map (\<lambda>v. dec_value (roundDecimal v (roundingOf policy))) parts) =
      of_int (sum_list (map (rounded_count policy) parts)) / 10 ^ rpPrecision policy"
    by (induction parts) (simp_all add: rounded_count(2) value_simps add_divide_distrib)
  then have "drift_of policy parts = 0 \<longleftrightarrow>
      sum_list (map (\<lambda>v. dec_value (roundDecimal v (roundingOf policy))) parts) =
        dec_value (roundDecimal (sumDecimals parts) (roundingOf policy))"
    by (auto simp: drift_of_def rounded_count(2) value_simps)
  note drift = this
  show ?thesis
  proof (cases "rpWhere policy = At_aggregate")
    case True
    then show ?thesis by (simp add: applyRoundingPolicy_def Let_def)
  next
    case False
    show ?thesis
      using False unfolding applyRoundingPolicy_legs [OF False] drift by (simp add: Let_def)
  qed
qed

text \<open>
  The two attributions of a change in value are choices about one number. Under either
  policy the market and currency parts add up exactly to the change in value, the parts are the ones
  the policy states, and the three totals the code compares are always the same decimal.
\<close>

theorem attributions_agree:
  "totalsAgree (pnlDecompositions i) \<and>
   (\<forall>p. dec_value (exact_or_zero (pnlTotal (pnlDecomposition i p))) =
      dec_value (pnlQuantity i) * (dec_value (closingPrice i) * dec_value (closingRate i) -
        dec_value (openingPrice i) * dec_value (openingRate i)) \<and>
    componentSum (pnlDecomposition i p) = exact_or_zero (pnlTotal (pnlDecomposition i p)))"
proof -
  have exact [simp]: "exact_or_zero (exactQuantity u v) = v" for u v
    by (simp add: exact_or_zero_def exactQuantity_def)
  have total: "dec_value (exact_or_zero (pnlTotal (pnlDecomposition i p))) =
      dec_value (pnlQuantity i) * (dec_value (closingPrice i) * dec_value (closingRate i) -
        dec_value (openingPrice i) * dec_value (openingRate i))" for p
    by (simp add: pnlDecomposition_def Let_def value_simps)
  have same: "componentSum (pnlDecomposition i p) = exact_or_zero (pnlTotal (pnlDecomposition i p))" for p
  proof -
    have "dec_value (componentSum (pnlDecomposition i p)) =
        dec_value (exact_or_zero (pnlTotal (pnlDecomposition i p)))"
      by (cases p) (simp_all add: componentSum_def pnlDecomposition_def Let_def value_simps algebra_simps)
    moreover have "canonical (componentSum (pnlDecomposition i p))"
      "canonical (exact_or_zero (pnlTotal (pnlDecomposition i p)))"
      by (simp_all add: componentSum_def pnlDecomposition_def Let_def)
    ultimately show ?thesis using canonical_unique by blast
  qed
  have "exact_or_zero (pnlTotal (pnlDecomposition i Policy_b)) = exact_or_zero (pnlTotal (pnlDecomposition i Policy_a))"
    by (simp add: pnlDecomposition_def Let_def)
  then have "totalsAgree (pnlDecompositions i)" by (simp add: pnlDecompositions_def Let_def same)
  then show ?thesis using total same by blast
qed

lemma priceRatio_value:
  assumes "0 < denominator (priceRatio p)"
  shows "dec_value (baseQuantity p) \<noteq> 0"
    and "ratio_value (priceRatio p) = dec_value (quoteAmount p) / dec_value (baseQuantity p)"
proof -
  have "coefficient (baseQuantity p) \<noteq> 0" using assms by (auto simp: priceRatio_def)
  then show "dec_value (baseQuantity p) \<noteq> 0"
    and "ratio_value (priceRatio p) = dec_value (quoteAmount p) / dec_value (baseQuantity p)"
    by (simp_all add: dec_value_def ratio_value_def priceRatio_def field_simps)
qed

lemma valueAtPrice_Inr:
  assumes "valueAtPrice q p rd = Inr v"
  obtains x nv d where "quantityValue q = ExactValue x nv" and "unitRef q = baseInstrumentRef p"
    and "v = exactQuantity (quoteUnitRef p) d" and "multiplyByRatio x (priceRatio p) rd = Inr d"
    and "validExactRatio (priceRatio p)"
proof -
  obtain x nv where x: "quantityValue q = ExactValue x nv" and unit: "unitRef q = baseInstrumentRef p"
    using assms by (auto simp: valueAtPrice_def split: if_splits ValueState.splits)
  then obtain d where d: "multiplyByRatio x (priceRatio p) rd = Inr d" "v = exactQuantity (quoteUnitRef p) d"
    using assms by (auto simp: valueAtPrice_def split: sum.splits)
  have "validExactRatio (priceRatio p)" using d(1) by (auto simp: multiplyByRatio_def split: if_splits)
  with x unit d show thesis using that by blast
qed

lemma valueHolding_Valued:
  assumes "valueHolding q price opts = Valued step v pre ref inputs"
  obtains p where "price = Some p" and "identityUnresolved opts \<noteq> Some True"
    and "scopeOverlap opts \<noteq> Some True" and "\<not> stalePrice p (freshnessFloor opts)"
    and "valuationMethodFor (or_default (optClass opts) Unknown_class)
      (or_default (optPolicy opts) DEFAULT_INSTRUMENT_VALUATION_POLICY) = Quantity_times_price"
    and "valueAtPrice q p None = Inr pre"
    and "case optRounding opts of None \<Rightarrow> v = pre
      | Some policy \<Rightarrow> valueAtPrice q p (Some (roundingOf policy)) = Inr v"
  using assms
  by (auto simp: valueHolding_def Let_def split: if_splits ValueState.splits option.splits sum.splits)

text \<open>
  A holding is valued only at its own price, exactly. Whenever a holding gets a value, its
  identity and scope are settled, its class is valued by price, a price quoted for the same instrument
  is at hand and not older than the freshness floor; the exact value times the price's base quantity is
  the quantity times the quoted amount, and the value reported is that amount, rounded in the policy's
  mode when there is one.
\<close>

theorem holding_valued_exactly:
  assumes "valueHolding q price opts = Valued step v pre ref inputs"
  shows "\<exists>p x nv d w. price = Some p \<and> quantityValue q = ExactValue x nv \<and> unitRef q = baseInstrumentRef p \<and>
    identityUnresolved opts \<noteq> Some True \<and> scopeOverlap opts \<noteq> Some True \<and>
    \<not> stalePrice p (freshnessFloor opts) \<and>
    valuationMethodFor (or_default (optClass opts) Unknown_class)
      (or_default (optPolicy opts) DEFAULT_INSTRUMENT_VALUATION_POLICY) = Quantity_times_price \<and>
    pre = exactQuantity (quoteUnitRef p) d \<and>
    dec_value d * dec_value (baseQuantity p) = dec_value x * dec_value (quoteAmount p) \<and>
    v = exactQuantity (quoteUnitRef p) w \<and>
    (case optRounding opts of
       None \<Rightarrow> w = d
     | Some policy \<Rightarrow> \<exists>z. w = normalizeDecimal z (int (rpPrecision policy)) \<and>
         rounds_to (rpMode policy) (dec_value d * 10 ^ rpPrecision policy) z)"
proof (rule valueHolding_Valued [OF assms])
  fix p
  assume price: "price = Some p" and id: "identityUnresolved opts \<noteq> Some True"
    and scope: "scopeOverlap opts \<noteq> Some True" and time: "\<not> stalePrice p (freshnessFloor opts)"
    and way: "valuationMethodFor (or_default (optClass opts) Unknown_class)
      (or_default (optPolicy opts) DEFAULT_INSTRUMENT_VALUATION_POLICY) = Quantity_times_price"
    and exact: "valueAtPrice q p None = Inr pre"
    and rounded: "case optRounding opts of None \<Rightarrow> v = pre
      | Some policy \<Rightarrow> valueAtPrice q p (Some (roundingOf policy)) = Inr v"
  obtain x nv d where x: "quantityValue q = ExactValue x nv" and unit: "unitRef q = baseInstrumentRef p"
    and pre: "pre = exactQuantity (quoteUnitRef p) d" "multiplyByRatio x (priceRatio p) None = Inr d"
    and valid: "validExactRatio (priceRatio p)"
    by (rule valueAtPrice_Inr [OF exact])
  have pos: "0 < denominator (priceRatio p)" using valid by (simp add: validExactRatio_def)
  have d: "dec_value d = dec_value x * ratio_value (priceRatio p)" by (rule multiplyByRatio_ok(2) [OF pre(2)])
  then have worth: "dec_value d * dec_value (baseQuantity p) = dec_value x * dec_value (quoteAmount p)"
    using priceRatio_value [OF pos] by simp
  obtain w where w: "v = exactQuantity (quoteUnitRef p) w" and round: "case optRounding opts of
       None \<Rightarrow> w = d
     | Some policy \<Rightarrow> \<exists>z. w = normalizeDecimal z (int (rpPrecision policy)) \<and>
         rounds_to (rpMode policy) (dec_value d * 10 ^ rpPrecision policy) z"
  proof (cases "optRounding opts")
    case None
    then show thesis using that [of d] rounded pre(1) by simp
  next
    case (Some policy)
    then have "valueAtPrice q p (Some (roundingOf policy)) = Inr v" using rounded by simp
    then obtain w where w: "v = exactQuantity (quoteUnitRef p) w"
      "multiplyByRatio x (priceRatio p) (Some (roundingOf policy)) = Inr w"
      by (rule valueAtPrice_Inr) (use x in auto)
    from multiplyByRatio_rounding [OF valid, of x "roundingOf policy"] w(2) d
    have "\<exists>z. w = normalizeDecimal z (int (rpPrecision policy)) \<and>
        rounds_to (rpMode policy) (dec_value d * 10 ^ rpPrecision policy) z"
      by (auto simp: roundingOf_def)
    with w(1) Some show thesis using that [of w] by simp
  qed
  show ?thesis
    using price x unit id scope time way pre(1) worth w round by blast
qed

definition fund_price :: PriceObservation where
  "fund_price = \<lparr>priceId = ''price:1'', baseInstrumentRef = ''fund:f'', baseQuantity = integerDecimal 10,
     quoteUnitRef = ''JPY'', quoteAmount = integerDecimal 8, priceKind = Nav,
     effectiveTime = LocalDate ''2024-01-05'' None Provider, sourceClaimRef = ''claim:1'',
     marketRef = None, adjustmentPolicyRef = None\<rparr>"

definition fund_options :: HoldingValuationOptions where
  "fund_options = \<lparr>optClass = Some Fund_unit, optPolicy = None, optRounding = None, scopeOverlap = None,
     identityUnresolved = None, freshnessFloor = None\<rparr>"

text \<open>Twenty-five units of a fund quoted at 8 per 10 units are worth 20.\<close>

lemma holding_valued_exactly_witness:
  "valueHolding (exactQuantity ''fund:f'' (integerDecimal 25)) (Some fund_price) fund_options =
     Valued Fx_conversion (exactQuantity ''JPY'' (integerDecimal 20))
       (exactQuantity ''JPY'' (integerDecimal 20)) ''price:1'' None \<and>
   \<not> stalePrice fund_price (freshnessFloor fund_options)"
proof -
  have run: "valueHolding (exactQuantity ''fund:f'' (integerDecimal 25)) (Some fund_price) fund_options =
     Valued Fx_conversion (exactQuantity ''JPY'' (integerDecimal 20))
       (exactQuantity ''JPY'' (integerDecimal 20)) ''price:1'' None"
    by code_simp
  then show ?thesis using holding_valued_exactly [OF run] by auto
qed

section \<open>The summary of cells\<close>

definition cell_amount :: "string \<Rightarrow> ValuationCell \<Rightarrow> ExactDecimal list" where
  "cell_amount u cell =
     (case cellOutcome cell of
        Unvalued _ _ _ \<Rightarrow> []
      | Valued _ v _ _ _ \<Rightarrow> if unitRef v = u then exact_part v else [])"

definition is_valued :: "ValuationCell \<Rightarrow> bool" where
  "is_valued cell \<longleftrightarrow> (case cellOutcome cell of Valued _ _ _ _ _ \<Rightarrow> True | Unvalued _ _ _ \<Rightarrow> False)"

lemma summaryStep_parts:
  "accValued (summaryStep u st c) = accValued st @ filter is_valued [c]"
  "accUnvalued (summaryStep u st c) = accUnvalued st @ filter (\<lambda>c. \<not> is_valued c) [c]"
  "accAmounts (summaryStep u st c) = accAmounts st @ cell_amount u c"
  by (simp_all add: summaryStep_def is_valued_def cell_amount_def split: HoldingValuation.split ValueState.split)

lemma summaryStep_fold:
  "accValued (foldl (summaryStep u) st cells) = accValued st @ filter is_valued cells"
  "accUnvalued (foldl (summaryStep u) st cells) = accUnvalued st @ filter (\<lambda>c. \<not> is_valued c) cells"
  "accAmounts (foldl (summaryStep u) st cells) = accAmounts st @ concat (map (cell_amount u) cells)"
  by (induction cells arbitrary: st) (simp_all add: summaryStep_parts)

lemma cell_amount_valued: "length (cell_amount u c) = (if cell_amount u c = [] then 0 else 1)"
  "cell_amount u c \<noteq> [] \<Longrightarrow> is_valued c"
  by (auto simp: is_valued_def cell_amount_def split: HoldingValuation.splits ValueState.splits if_splits)

lemma amounts_complete:
  "length (concat (map (cell_amount u) cells)) = length cells \<longleftrightarrow> (\<forall>c\<in>set cells. cell_amount u c \<noteq> [])"
  "length (concat (map (cell_amount u) cells)) \<le> length cells"
proof (induction cells)
  case (Cons c cells)
  have "length (cell_amount u c) = (if cell_amount u c = [] then 0 else 1)" by (rule cell_amount_valued(1))
  with Cons show
    "length (concat (map (cell_amount u) (c # cells))) = length (c # cells) \<longleftrightarrow>
      (\<forall>c\<in>set (c # cells). cell_amount u c \<noteq> [])"
    "length (concat (map (cell_amount u) (c # cells))) \<le> length (c # cells)"
    by (auto simp del: length_concat split: if_splits)
qed simp_all

text \<open>
  A summary never overstates. The cells are split, in order, into the valued and the
  unvalued; the summary is complete exactly when there is a cell and every cell is valued exactly in
  the asked unit; it is not computable exactly when no cell is; and whenever there is a subtotal it is
  the exact sum of the cells valued in that unit.
\<close>

theorem summary_partition_exact:
  "valuedCells (summarizeValuation u cells) = filter is_valued cells \<and>
   unvaluedCells (summarizeValuation u cells) = filter (\<lambda>c. \<not> is_valued c) cells \<and>
   (summaryPartition (summarizeValuation u cells) = Complete \<longleftrightarrow>
      cells \<noteq> [] \<and> list_all (\<lambda>c. cell_amount u c \<noteq> []) cells) \<and>
   (summaryPartition (summarizeValuation u cells) = Not_computable \<longleftrightarrow>
      list_all (\<lambda>c. cell_amount u c = []) cells) \<and>
   subtotal (summarizeValuation u cells) =
     (if list_all (\<lambda>c. cell_amount u c = []) cells then None
      else Some (exactQuantity u (sumDecimals (concat (map (cell_amount u) cells)))))"
proof -
  let ?st = "foldl (summaryStep u) \<lparr>accValued = [], accUnvalued = [], accReasons = [], accAmounts = []\<rparr> cells"
  let ?amounts = "concat (map (cell_amount u) cells)"
  have acc: "accValued ?st = filter is_valued cells" "accUnvalued ?st = filter (\<lambda>c. \<not> is_valued c) cells"
    "accAmounts ?st = ?amounts"
    by (simp_all add: summaryStep_fold)
  have none: "?amounts = [] \<longleftrightarrow> list_all (\<lambda>c. cell_amount u c = []) cells"
    by (simp add: list_all_iff)
  have full: "filter (\<lambda>c. \<not> is_valued c) cells = [] \<and> length ?amounts = length (filter is_valued cells) \<longleftrightarrow>
      list_all (\<lambda>c. cell_amount u c \<noteq> []) cells"
  proof
    assume split: "filter (\<lambda>c. \<not> is_valued c) cells = [] \<and> length ?amounts = length (filter is_valued cells)"
    then have "filter is_valued cells = cells" by (simp add: filter_empty_conv filter_id_conv)
    with split amounts_complete(1) [of u cells] show "list_all (\<lambda>c. cell_amount u c \<noteq> []) cells"
      by (simp only: list_all_iff) simp
  next
    assume all: "list_all (\<lambda>c. cell_amount u c \<noteq> []) cells"
    then have valued: "\<forall>c\<in>set cells. is_valued c" using cell_amount_valued(2) by (simp only: list_all_iff) blast
    then have "filter is_valued cells = cells" by (simp add: filter_id_conv)
    moreover have "length ?amounts = length cells"
      using amounts_complete(1) [of u cells] all by (simp only: list_all_iff)
    ultimately show "filter (\<lambda>c. \<not> is_valued c) cells = [] \<and> length ?amounts = length (filter is_valued cells)"
      using valued by (simp only: filter_empty_conv) simp
  qed
  have some: "?amounts \<noteq> [] \<and> list_all (\<lambda>c. cell_amount u c \<noteq> []) cells \<longleftrightarrow>
      cells \<noteq> [] \<and> list_all (\<lambda>c. cell_amount u c \<noteq> []) cells"
    unfolding none by (cases cells) (auto)
  show ?thesis
    unfolding summarizeValuation_def Let_def acc full
    using none some by (auto simp del: concat_eq_Nil_conv)
qed

end
