(* ===== verification/Decisions.thy ===== *)
theory Decisions
  imports Lot_Inputs
begin

text \<open>
  Decision records and conservation checks, \<open>packages/domain/src/decisions.ts\<close>: typed relations,
  actors, decision revisions, operation receipts, allocations, and the checks that legs of a transfer
  balance and that allocations stay within a limit. The validators' checks of shape (record, exact keys,
  closed enumerations) are the types below; what they check of the values is written out.
\<close>

section \<open>Guards\<close>

definition isTextOrNull :: "nat \<Rightarrow> string option \<Rightarrow> bool" where
  "isTextOrNull mx s = (case s of None \<Rightarrow> True | Some t \<Rightarrow> isText mx t)"

definition isRefList :: "nat \<Rightarrow> string list \<Rightarrow> bool" where
  "isRefList mx refs \<longleftrightarrow> length refs \<le> mx \<and> list_all (isText 512) refs \<and> length (js_set refs) = length refs"

section \<open>Records\<close>

datatype RelationKind =
    Same_account | Connection_contains | Account_has_pocket | Statement_covers | Funded_by
  | Liable_party | Beneficial_owner | Same_underlying | Listed_as | Replaces_identifier
  | Provider_same | Supersedes | Supports | Contradicts | Pending_to_posted

datatype RelationStatus = Rel_proposed | Rel_adopted | Rel_accepted | Rel_rejected | Rel_superseded | Rel_released

datatype StoredRelationStatus = Stored_proposed | Stored_accepted | Stored_rejected | Stored_released

fun RELATION_STATUS_STORAGE :: "RelationStatus \<Rightarrow> StoredRelationStatus" where
  "RELATION_STATUS_STORAGE Rel_proposed = Stored_proposed"
| "RELATION_STATUS_STORAGE Rel_adopted = Stored_accepted"
| "RELATION_STATUS_STORAGE Rel_accepted = Stored_accepted"
| "RELATION_STATUS_STORAGE Rel_rejected = Stored_rejected"
| "RELATION_STATUS_STORAGE Rel_superseded = Stored_released"
| "RELATION_STATUS_STORAGE Rel_released = Stored_released"

record TypedRelation =
  relationId :: string
  relationKind :: RelationKind
  relationLeft :: string
  relationRight :: string
  validity :: "TemporalValue option"
  relationEvidenceRefs :: "string list"
  relationStatus :: RelationStatus
  decisionRevisionRef :: string

datatype ActorKind = Human | Agent | System | Actor_legacy_unknown

datatype ActorVerification = Server | Legacy

record Actor =
  actorKind :: ActorKind
  actorId :: "string option"
  verification :: ActorVerification

datatype DecisionKind = Proposal | Acceptance | Rejection | Supersession | Release_override

datatype DecisionMethod =
    By_provider | By_exact | By_rule | By_heuristic | By_ai | By_manual | By_legacy_unknown

record DecisionRevision =
  revisionId :: string
  decisionId :: string
  decisionKind :: DecisionKind
  decisionActor :: Actor
  decisionMethod :: DecisionMethod
  recordedAt :: string
  decisionReason :: string
  targetRefs :: "string list"
  evidenceRefs :: "string list"
  supersedesRevisionRef :: "string option"
  planDigest :: "string option"

datatype OperationStatus = Op_accepted | Op_published | Op_rejected | Op_failed

record OperationReceipt =
  operationId :: string
  idempotencyKey :: string
  principalRef :: string
  payloadDigest :: string
  operationStatus :: OperationStatus
  operationRecordedAt :: string
  resultRef :: "string option"
  expectedRevisions :: "(string \<times> int) list"

datatype AllocationRole =
    Principal | Fee | Refund | Settlement | Fill | Transfer_role | Unresolved_difference

record Allocation =
  allocationId :: string
  sourceRef :: string
  targetRef :: string
  role :: AllocationRole
  allocationQuantity :: Quantity

definition validActor :: "Actor \<Rightarrow> bool" where
  "validActor a \<longleftrightarrow>
     isTextOrNull 256 (actorId a) \<and>
     (if actorKind a = Actor_legacy_unknown then actorId a = None \<and> verification a = Legacy
      else actorId a \<noteq> None \<and> verification a = Server)"

definition validDecisionRevision :: "DecisionRevision \<Rightarrow> bool" where
  "validDecisionRevision d \<longleftrightarrow>
     isText 256 (revisionId d) \<and> isText 256 (decisionId d) \<and> validActor (decisionActor d) \<and>
     validInstantText (recordedAt d) \<and> isText 2000 (decisionReason d) \<and>
     isRefList 1000 (targetRefs d) \<and> targetRefs d \<noteq> [] \<and> isRefList 10000 (evidenceRefs d) \<and>
     isTextOrNull 256 (supersedesRevisionRef d) \<and> isTextOrNull 128 (planDigest d) \<and>
     (if decisionKind d = Supersession \<or> decisionKind d = Release_override then
        supersedesRevisionRef d \<noteq> None
      else if decisionKind d = Acceptance then planDigest d \<noteq> None
      else True)"

definition validTypedRelation :: "TypedRelation \<Rightarrow> bool" where
  "validTypedRelation r \<longleftrightarrow>
     isText 256 (relationId r) \<and> isText 512 (relationLeft r) \<and> isText 512 (relationRight r) \<and>
     relationLeft r \<noteq> relationRight r \<and>
     (case validity r of None \<Rightarrow> True | Some t \<Rightarrow> validTemporalValue t) \<and>
     isRefList 10000 (relationEvidenceRefs r) \<and> isText 256 (decisionRevisionRef r)"

definition validOperationReceipt :: "OperationReceipt \<Rightarrow> bool" where
  "validOperationReceipt o' \<longleftrightarrow>
     isText 256 (operationId o') \<and> isText 256 (idempotencyKey o') \<and> isText 256 (principalRef o') \<and>
     isText 128 (payloadDigest o') \<and> validInstantText (operationRecordedAt o') \<and>
     isTextOrNull 512 (resultRef o') \<and>
     list_all (\<lambda>(key, revision). isText 512 key \<and> isSafeIntFrom 0 revision) (expectedRevisions o')"

definition validAllocation :: "Allocation \<Rightarrow> bool" where
  "validAllocation a \<longleftrightarrow>
     isText 256 (allocationId a) \<and> isText 512 (sourceRef a) \<and> isText 512 (targetRef a) \<and>
     validQuantity (allocationQuantity a)"

section \<open>Conservation\<close>

datatype ConservationErrorCode = Conservation_violated | Allocation_exceeds_limit | Negative_allocation

datatype ConservationError =
    LegsError ValueError
  | ConservationError ConservationErrorCode string "string list" "Quantity option"

definition exactAll :: "string \<Rightarrow> Quantity list \<Rightarrow> ValueError + ExactDecimal list" where
  "exactAll u quantities =
     (let foreign = map unitRef (filter (\<lambda>q. unitRef q \<noteq> u) quantities)
      in if foreign \<noteq> [] then
           Inl (value_error Unit_mismatch
             ''conservation is checked per unit; cross-unit legs need an FX or fee model'' (u # foreign))
         else
           let absent = concat (map absent_part quantities)
           in if absent \<noteq> [] then
                Inl (value_error Value_not_exact ''non-exact legs cannot be balanced'' absent)
              else Inr (concat (map exact_part quantities)))"

record TransferLegs =
  sourceDecrease :: Quantity
  destinationIncrease :: Quantity
  explicitFees :: "Quantity list"
  unresolvedDifference :: "Quantity option"

text \<open>
  The legs in the order the source lists them. The declared difference, when there is one, is the last
  of them and is taken off again (\<open>rest.pop()\<close>).
\<close>

definition transferLegs :: "TransferLegs \<Rightarrow> Quantity list" where
  "transferLegs t = sourceDecrease t # destinationIncrease t # explicitFees t @
     (case unresolvedDifference t of None \<Rightarrow> [] | Some d \<Rightarrow> [d])"

definition checkTransferConservation :: "TransferLegs \<Rightarrow> ConservationError + Quantity" where
  "checkTransferConservation t =
     (let u = unitRef (sourceDecrease t)
      in case exactAll u (transferLegs t) of
           Inl e \<Rightarrow> Inl (LegsError e)
         | Inr values \<Rightarrow>
             (let source = values ! 0; destination = values ! 1; rest = drop 2 values;
                  (declared, fees) = (if unresolvedDifference t = None then (None, rest)
                                      else (Some (last rest), butlast rest));
                  gap = subtractDecimals (subtractDecimals source destination) (sumDecimals fees);
                  expected = (case declared of None \<Rightarrow> \<lparr>coefficient = 0, scale = 0\<rparr> | Some d \<Rightarrow> d)
              in if compareDecimals gap expected \<noteq> 0 then
                   Inl (ConservationError Conservation_violated
                     ''legs do not balance; declare the unresolved difference explicitly'' [u]
                     (Some (exactQuantity u gap)))
                 else Inr (exactQuantity u gap)))"

record AllocatedWithin =
  allocatedTotal :: Quantity
  remainingTotal :: Quantity

definition checkAllocationsWithinLimit ::
  "Quantity \<Rightarrow> Allocation list \<Rightarrow> string \<Rightarrow> ConservationError + AllocatedWithin"
where
  "checkAllocationsWithinLimit limit allocs what =
     (case exactAll (unitRef limit) (limit # map allocationQuantity allocs) of
        Inl e \<Rightarrow> Inl (LegsError e)
      | Inr legs \<Rightarrow>
          (let cap = hd legs; amounts = tl legs;
               negative = map fst (filter (\<lambda>(a, v). coefficient v < 0) (zip allocs amounts))
           in if negative \<noteq> [] then
                Inl (ConservationError Negative_allocation
                  ''allocations are non-negative; reversals are separate allocations''
                  (map allocationId negative) None)
              else
                (let given = sumDecimals amounts; left = subtractDecimals cap given
                 in if coefficient left < 0 then
                      Inl (ConservationError Allocation_exceeds_limit (''allocations exceed the '' @ what)
                        (map allocationId allocs) (Some (exactQuantity (unitRef limit) left)))
                    else Inr \<lparr>allocatedTotal = exactQuantity (unitRef limit) given,
                           remainingTotal = exactQuantity (unitRef limit) left\<rparr>)))"

definition checkObligationAllocations :: "Quantity \<Rightarrow> Allocation list \<Rightarrow> ConservationError + AllocatedWithin" where
  "checkObligationAllocations outstanding allocs =
     checkAllocationsWithinLimit outstanding allocs ''eligible outstanding amount''"

definition checkFillAllocations :: "Quantity \<Rightarrow> Allocation list \<Rightarrow> ConservationError + AllocatedWithin" where
  "checkFillAllocations executed fills = checkAllocationsWithinLimit executed fills ''executed quantity''"

definition checkSourceAllocations :: "Quantity \<Rightarrow> Allocation list \<Rightarrow> ConservationError + AllocatedWithin" where
  "checkSourceAllocations amount allocs = checkAllocationsWithinLimit amount allocs ''source amount''"

section \<open>What the checks decide\<close>

lemma exactAll_Inr:
  "exactAll u qs = Inr vs \<longleftrightarrow> list_all (exact_in u) qs \<and> vs = concat (map exact_part qs)"
  by (auto simp: exactAll_def Let_def filter_empty_conv absent_parts_Nil list_all_iff exact_in_def
      simp del: absent_part.simps concat_eq_Nil_conv)

lemma exact_parts:
  assumes "list_all (exact_in u) qs"
  shows "map dec_value (concat (map exact_part qs)) = map amount_value qs"
    and "length (concat (map exact_part qs)) = length qs"
  using assms
  by (induction qs) (auto simp: exact_in_def is_exact_def amount_value_def split: ValueState.splits)

lemma coefficient_negative: "coefficient d < 0 \<longleftrightarrow> dec_value d < 0"
  by (simp add: dec_value_def divide_less_0_iff)

lemma transferLegs_values:
  assumes "list_all (exact_in u) (transferLegs t)" and "vs = concat (map exact_part (transferLegs t))"
  obtains "dec_value (vs ! 0) = amount_value (sourceDecrease t)" and "dec_value (vs ! 1) = amount_value (destinationIncrease t)"
    and "map dec_value (drop 2 vs) = map amount_value (explicitFees t) @
      (case unresolvedDifference t of None \<Rightarrow> [] | Some d \<Rightarrow> [amount_value d])"
proof -
  have all: "map dec_value vs = map amount_value (transferLegs t)" "length vs = length (transferLegs t)"
    using exact_parts [OF assms(1)] assms(2) by simp_all
  then obtain a b rest where vs: "vs = a # b # rest"
    by (cases vs; cases "tl vs") (auto simp: transferLegs_def)
  show thesis
    by (rule that) (use all(1) in \<open>auto simp: vs transferLegs_def split: option.splits\<close>)
qed

lemma map_butlast_last:
  "map f xs = ys @ [y] \<Longrightarrow> map f (butlast xs) = ys \<and> f (last xs) = y"
  by (cases xs rule: rev_cases) auto

text \<open>
  A transfer is accepted exactly when it balances. All legs must be exact amounts of one
  unit, and what left the source less what arrived and the explicit fees must be the declared
  difference, or nothing when none is declared. Nothing is absorbed into a fee.
\<close>

theorem transfer_balances_exactly:
  "(\<exists>q. checkTransferConservation t = Inr q) \<longleftrightarrow>
     list_all (exact_in (unitRef (sourceDecrease t))) (transferLegs t) \<and>
     amount_value (sourceDecrease t) = amount_value (destinationIncrease t) + sum_list (map amount_value (explicitFees t)) +
       (case unresolvedDifference t of None \<Rightarrow> 0 | Some d \<Rightarrow> amount_value d)"
proof (cases "list_all (exact_in (unitRef (sourceDecrease t))) (transferLegs t)")
  case False
  then have "\<nexists>vs. exactAll (unitRef (sourceDecrease t)) (transferLegs t) = Inr vs" by (simp add: exactAll_Inr)
  then obtain e where "exactAll (unitRef (sourceDecrease t)) (transferLegs t) = Inl e"
    by (cases "exactAll (unitRef (sourceDecrease t)) (transferLegs t)") auto
  with False show ?thesis by (simp add: checkTransferConservation_def)
next
  case True
  define vs where "vs = concat (map exact_part (transferLegs t))"
  have run: "exactAll (unitRef (sourceDecrease t)) (transferLegs t) = Inr vs"
    using True by (simp add: exactAll_Inr vs_def)
  obtain legs: "dec_value (vs ! 0) = amount_value (sourceDecrease t)"
      "dec_value (vs ! 1) = amount_value (destinationIncrease t)"
    and rest: "map dec_value (drop 2 vs) = map amount_value (explicitFees t) @
      (case unresolvedDifference t of None \<Rightarrow> [] | Some d \<Rightarrow> [amount_value d])"
    by (rule transferLegs_values [OF True vs_def]) (rule that)
  have zero: "dec_value \<lparr>coefficient = 0, scale = 0\<rparr> = 0" by (simp add: dec_value_def)
  show ?thesis
  proof (cases "unresolvedDifference t")
    case None
    then show ?thesis
      using True run legs rest zero
      by (auto simp: checkTransferConservation_def Let_def compareDecimals_value dec_value_subtractDecimals
          dec_value_sumDecimals)
  next
    case (Some d)
    then have "map dec_value (butlast (drop 2 vs)) = map amount_value (explicitFees t)"
      "dec_value (last (drop 2 vs)) = amount_value d"
      using rest map_butlast_last by fastforce+
    then show ?thesis
      using True run legs Some
      by (auto simp: checkTransferConservation_def Let_def compareDecimals_value dec_value_subtractDecimals
          dec_value_sumDecimals)
  qed
qed

lemma negatives:
  "length amounts = length allocs \<Longrightarrow>
   filter (\<lambda>(a, v). coefficient v < 0) (zip allocs amounts) = [] \<longleftrightarrow>
     (\<forall>v\<in>set amounts. 0 \<le> dec_value v)"
proof (induction allocs amounts rule: list_induct2')
  case (4 a allocs v amounts)
  then show ?case using coefficient_negative [of v] by (auto simp: not_less)
qed simp_all

text \<open>
  Allocations never exceed what they are taken from. The check accepts exactly when the
  limit and every allocation are exact amounts of the limit's unit, no allocation is negative and
  together they are at most the limit; it then reports their exact sum and exactly what is left.
\<close>

theorem allocations_within_limit:
  "(\<exists>r. checkAllocationsWithinLimit limit allocs what = Inr r \<and>
      allocatedTotal r = exactQuantity (unitRef limit) (sumDecimals (concat (map exact_part (map allocationQuantity allocs)))) \<and>
      amount_value (allocatedTotal r) + amount_value (remainingTotal r) = amount_value limit) \<longleftrightarrow>
   list_all (exact_in (unitRef limit)) (limit # map allocationQuantity allocs) \<and>
   list_all (\<lambda>a. 0 \<le> amount_value (allocationQuantity a)) allocs \<and>
   sum_list (map (\<lambda>a. amount_value (allocationQuantity a)) allocs) \<le> amount_value limit"
proof (cases "list_all (exact_in (unitRef limit)) (limit # map allocationQuantity allocs)")
  case False
  then have "\<nexists>vs. exactAll (unitRef limit) (limit # map allocationQuantity allocs) = Inr vs"
    by (simp only: exactAll_Inr) simp
  then obtain e where "exactAll (unitRef limit) (limit # map allocationQuantity allocs) = Inl e"
    by (cases "exactAll (unitRef limit) (limit # map allocationQuantity allocs)") auto
  then have "checkAllocationsWithinLimit limit allocs what = Inl (LegsError e)"
    by (simp add: checkAllocationsWithinLimit_def)
  with False show ?thesis by (simp only: sum.simps) blast
next
  case True
  then obtain cap nv where cap: "quantityValue limit = ExactValue cap nv"
    by (auto simp: exact_in_def is_exact_def split: ValueState.splits)
  define amounts where "amounts = concat (map exact_part (map allocationQuantity allocs))"
  have rest: "list_all (exact_in (unitRef limit)) (map allocationQuantity allocs)" using True by simp
  have vals: "map dec_value amounts = map (\<lambda>a. amount_value (allocationQuantity a)) allocs" "length amounts = length allocs"
    using exact_parts [OF rest] by (simp_all add: amounts_def comp_def)
  have run: "exactAll (unitRef limit) (limit # map allocationQuantity allocs) = Inr (cap # amounts)"
    unfolding exactAll_Inr using True by (simp add: amounts_def cap)
  have limit: "amount_value limit = dec_value cap" by (simp add: amount_value_def cap)
  have "(\<forall>v\<in>set amounts. 0 \<le> dec_value v) \<longleftrightarrow> list_all (\<lambda>x. 0 \<le> x) (map dec_value amounts)"
    by (simp add: list_all_iff)
  then have neg: "filter (\<lambda>(a, v). coefficient v < 0) (zip allocs amounts) = [] \<longleftrightarrow>
      list_all (\<lambda>a. 0 \<le> amount_value (allocationQuantity a)) allocs"
    unfolding negatives [OF vals(2)] vals(1) by (simp add: list_all_iff)
  have left: "coefficient (subtractDecimals cap (sumDecimals amounts)) < 0 \<longleftrightarrow>
      \<not> sum_list (map (\<lambda>a. amount_value (allocationQuantity a)) allocs) \<le> amount_value limit"
    by (simp add: coefficient_negative dec_value_subtractDecimals dec_value_sumDecimals vals(1) limit not_le)
  have exact: "amount_value (exactQuantity u v) = dec_value v" for u v by (simp add: amount_value_def exactQuantity_def)
  show ?thesis
    unfolding checkAllocationsWithinLimit_def run amounts_def [symmetric] using True
    by (simp add: Let_def neg left exact dec_value_subtractDecimals limit [symmetric] del: map_map)
qed

end
