(* ===== verification/Card_Settlement.thy ===== *)
theory Card_Settlement
  imports Civil_Time
begin

text \<open>
  Card statements and bank debits, \<open>packages/domain/src/card-settlement.ts\<close>, with the source fact
  references of \<open>packages/domain/src/events.ts\<close>: when one observed bank debit is a candidate to settle
  one statement, when a candidate is eligible, and what a settlement changes.
\<close>

section \<open>Facts\<close>

datatype SourceFactKind = TransactionKind | BalanceKind | PositionKind | ValuationKind | TypedClaimKind

record SourceFactRef =
  factKind :: SourceFactKind
  factId :: string
  factRevision :: string

definition validSourceFactRef :: "SourceFactRef \<Rightarrow> bool" where
  "validSourceFactRef r \<longleftrightarrow> isText 512 (factId r) \<and> isText 256 (factRevision r)"

record CardStatementFact =
  statementRef :: SourceFactRef
  statementSourceId :: string
  statementSourceAccount :: string
  statementAccountId :: "string option"
  statementOwnerRef :: "string option"
  statementAmount :: Quantity
  paymentDate :: TemporalValue
  statementPeriod :: "string option"

record CardBankDebitFact =
  debitRef :: SourceFactRef
  debitSourceId :: string
  debitSourceAccount :: string
  debitAccountId :: "string option"
  debitOwnerRef :: "string option"
  debitAmount :: Quantity
  occurred :: TemporalValue

datatype CardSettlementStatus = Settlement_proposed | Settlement_accepted | Settlement_rejected | Settlement_withdrawn

datatype Ownership = Established_same | Unknown_owner | Different_owner

record CardSettlementFacts =
  factsStatement :: CardStatementFact
  factsBankDebit :: CardBankDebitFact
  rationaleCodes :: "string list"
  rejectionConditions :: "string list"
  ownership :: Ownership
  ownershipEvidenceRefs :: "string list"

datatype AllocationState = State_proposed | State_accepted | State_not_applied

record CardSettlementImpact =
  bankDebitAlreadyObserved :: Quantity
  addedCashMovement :: Quantity
  addedPurchaseExpense :: Quantity
  liabilityAllocation :: Quantity
  allocationState :: AllocationState

definition CARD_SETTLEMENT_DAY_WINDOW :: int where
  "CARD_SETTLEMENT_DAY_WINDOW = 3"

section \<open>Candidates\<close>

definition positiveQuantity :: "Quantity \<Rightarrow> bool" where
  "positiveQuantity q \<longleftrightarrow> (case quantityValue q of ExactValue v _ \<Rightarrow> 0 < coefficient v | AbsentValue _ _ \<Rightarrow> False)"

definition dateGap :: "TemporalValue \<Rightarrow> TemporalValue \<Rightarrow> int option" where
  "dateGap a b =
     (if \<not> validTemporalValue a \<or> \<not> validTemporalValue b then None
      else case (a, b) of
        (LocalDate x _ _, LocalDate y _ _) \<Rightarrow>
          (case (parseLocalDate x, parseLocalDate y) of
             (Some first, Some second) \<Rightarrow> Some \<bar>daysBetween first second\<bar>
           | _ \<Rightarrow> None)
      | _ \<Rightarrow> None)"

definition ownershipBetween :: "string option \<Rightarrow> string option \<Rightarrow> Ownership" where
  "ownershipBetween a b =
     (if a = None \<or> b = None then Unknown_owner else if a = b then Established_same else Different_owner)"

definition ownershipConditions :: "Ownership \<Rightarrow> string list" where
  "ownershipConditions own =
     [''statement_changed'', ''bank_debit_changed'', ''allocation_already_used''] @
     (if own = Established_same then []
      else [if own = Different_owner then ''owner_differs'' else ''owner_not_established''])"

definition cardSettlementCandidate ::
  "CardStatementFact \<Rightarrow> CardBankDebitFact \<Rightarrow> string list \<Rightarrow> CardSettlementFacts option"
where
  "cardSettlementCandidate statement debit refs =
     (if \<not> validQuantity (statementAmount statement) \<or> \<not> validQuantity (debitAmount debit) \<or>
         \<not> positiveQuantity (statementAmount statement) \<or> \<not> positiveQuantity (debitAmount debit) then None
      else case compareQuantities (statementAmount statement) (debitAmount debit) of
        Inl _ \<Rightarrow> None
      | Inr order \<Rightarrow>
          if order \<noteq> 0 then None
          else case dateGap (paymentDate statement) (occurred debit) of
            None \<Rightarrow> None
          | Some gap \<Rightarrow>
              if CARD_SETTLEMENT_DAY_WINDOW < gap then None
              else
                (let own = ownershipBetween (statementOwnerRef statement) (debitOwnerRef debit)
                 in Some \<lparr>factsStatement = statement, factsBankDebit = debit,
                      rationaleCodes = [''authoritative_statement_total'', ''observed_bank_debit'',
                        ''amount_equal'', ''date_within_window''],
                      rejectionConditions = ownershipConditions own, ownership = own,
                      ownershipEvidenceRefs = refs\<rparr>))"

definition cardSettlementEligible :: "CardSettlementFacts \<Rightarrow> bool" where
  "cardSettlementEligible f \<longleftrightarrow>
     ownership f = Established_same \<and>
     statementAccountId (factsStatement f) \<noteq> None \<and> debitAccountId (factsBankDebit f) \<noteq> None \<and>
     statementOwnerRef (factsStatement f) \<noteq> None \<and>
     statementOwnerRef (factsStatement f) = debitOwnerRef (factsBankDebit f) \<and>
     0 < length (ownershipEvidenceRefs f) \<and>
     cardSettlementCandidate (factsStatement f) (factsBankDebit f) [] \<noteq> None"

definition cardSettlementImpact :: "CardSettlementFacts \<Rightarrow> CardSettlementStatus \<Rightarrow> CardSettlementImpact" where
  "cardSettlementImpact f status =
     (let zero = exactQuantity (unitRef (statementAmount (factsStatement f))) (integerDecimal 0)
      in \<lparr>bankDebitAlreadyObserved = debitAmount (factsBankDebit f), addedCashMovement = zero,
          addedPurchaseExpense = zero,
          liabilityAllocation = (if status = Settlement_accepted \<or> status = Settlement_proposed
            then statementAmount (factsStatement f) else zero),
          allocationState = (if status = Settlement_accepted then State_accepted
            else if status = Settlement_proposed then State_proposed else State_not_applied)\<rparr>)"

definition validCardSettlementFacts :: "CardSettlementFacts \<Rightarrow> bool" where
  "validCardSettlementFacts f \<longleftrightarrow>
     (let statement = factsStatement f; debit = factsBankDebit f
      in validSourceFactRef (statementRef statement) \<and> validSourceFactRef (debitRef debit) \<and>
         validQuantity (statementAmount statement) \<and> validQuantity (debitAmount debit) \<and>
         validTemporalValue (paymentDate statement) \<and> validTemporalValue (occurred debit) \<and>
         factKind (statementRef statement) = BalanceKind \<and> factKind (debitRef debit) = TransactionKind \<and>
         statementSourceId statement \<in> {''vpass'', ''myjcb''} \<and>
         cardSettlementCandidate statement debit [] \<noteq> None)"

section \<open>What a candidate is\<close>

lemma positiveQuantity_exact:
  "positiveQuantity q \<longleftrightarrow> (\<exists>v nv. quantityValue q = ExactValue v nv \<and> 0 < dec_value v)"
  by (auto simp: positiveQuantity_def dec_value_def zero_less_divide_iff split: ValueState.splits)

text \<open>
  A bank debit is proposed for a statement exactly when it pays it. Both amounts must be
  valid, exact, positive, in one unit and equal as numbers, and the two civil dates at most three days
  apart; what is missing is never filled in, and the proposal says the owner is established only when
  both sides name the same one.
\<close>

theorem settlement_candidate_exactly:
  "(\<exists>f. cardSettlementCandidate statement debit refs = Some f \<and>
      (ownership f = Established_same \<longleftrightarrow>
        statementOwnerRef statement \<noteq> None \<and> statementOwnerRef statement = debitOwnerRef debit)) \<longleftrightarrow>
   validQuantity (statementAmount statement) \<and> validQuantity (debitAmount debit) \<and>
   unitRef (statementAmount statement) = unitRef (debitAmount debit) \<and>
   (\<exists>x y nx ny. quantityValue (statementAmount statement) = ExactValue x nx \<and>
      quantityValue (debitAmount debit) = ExactValue y ny \<and> dec_value x = dec_value y \<and> 0 < dec_value x) \<and>
   (\<exists>gap. dateGap (paymentDate statement) (occurred debit) = Some gap \<and> gap \<le> 3)"
proof -
  have own: "ownershipBetween a b = Established_same \<longleftrightarrow> a \<noteq> None \<and> a = b" for a b :: "string option"
    by (auto simp: ownershipBetween_def)
  show ?thesis
  proof (cases "\<exists>x y nx ny. quantityValue (statementAmount statement) = ExactValue x nx \<and>
      quantityValue (debitAmount debit) = ExactValue y ny \<and> 0 < dec_value x \<and> 0 < dec_value y")
    case True
    then obtain x y nx ny where q: "quantityValue (statementAmount statement) = ExactValue x nx"
      "quantityValue (debitAmount debit) = ExactValue y ny" "0 < dec_value x" "0 < dec_value y" by blast
    then have "positiveQuantity (statementAmount statement)" "positiveQuantity (debitAmount debit)"
      by (simp_all add: positiveQuantity_exact)
    then show ?thesis
      using q by (auto simp: cardSettlementCandidate_def compareQuantities_exact [OF q(1,2)] own
          compareDecimals_value CARD_SETTLEMENT_DAY_WINDOW_def Let_def split: option.splits if_splits)
  next
    case False
    then have "\<not> positiveQuantity (statementAmount statement) \<or> \<not> positiveQuantity (debitAmount debit)"
      by (auto simp: positiveQuantity_exact)
    then have "cardSettlementCandidate statement debit refs = None"
      by (auto simp: cardSettlementCandidate_def)
    moreover have "\<not> (\<exists>x y nx ny. quantityValue (statementAmount statement) = ExactValue x nx \<and>
        quantityValue (debitAmount debit) = ExactValue y ny \<and> dec_value x = dec_value y \<and> 0 < dec_value x)"
      using False by metis
    ultimately show ?thesis by simp
  qed
qed

end
