(* ===== verification/Card_Allocation.thy ===== *)
theory Card_Allocation
  imports Card_Settlement "HOL-Library.Product_Lexorder"
begin

text \<open>
  The statement allocation planner, \<open>packages/domain/src/card-settlement-allocation.ts\<close>: from the
  statements and bank debits of one run, which one, two or three debits together pay each statement
  exactly, and which of these allocations may be proposed. Sets and counters of the source are lists
  and counts here; an amount that cannot be compared is the \<open>Inl\<close> branch of the quantity arithmetic.
\<close>

section \<open>Policy and inputs\<close>

definition CARD_STATEMENT_ALLOCATION_RELEASE :: string where
  "CARD_STATEMENT_ALLOCATION_RELEASE = ''card-statement-allocation-v1''"

definition CARD_STATEMENT_ALLOCATION_STATEMENTS_MAX :: nat where
  "CARD_STATEMENT_ALLOCATION_STATEMENTS_MAX = 16"

definition CARD_STATEMENT_ALLOCATION_DEBITS_MAX :: nat where
  "CARD_STATEMENT_ALLOCATION_DEBITS_MAX = 32"

definition CARD_STATEMENT_ALLOCATION_SIZE_MAX :: int where
  "CARD_STATEMENT_ALLOCATION_SIZE_MAX = 3"

definition CARD_STATEMENT_ALLOCATION_WINDOW_DAYS_MAX :: int where
  "CARD_STATEMENT_ALLOCATION_WINDOW_DAYS_MAX = 31"

record AllocationPolicy =
  policyVersion :: string
  minDaysFromDue :: int
  maxDaysFromDue :: int
  maxDebitsPerAllocation :: int

definition is_lower_alnum :: "char \<Rightarrow> bool" where
  "is_lower_alnum c \<longleftrightarrow> is_digit c \<or> (97 \<le> (of_char c :: nat) \<and> (of_char c :: nat) \<le> 122)"

definition validPolicyVersion :: "string \<Rightarrow> bool" where
  "validPolicyVersion s \<longleftrightarrow>
     (case s of
        [] \<Rightarrow> False
      | c # r \<Rightarrow> is_lower_alnum c \<and> length r \<le> 63 \<and>
          list_all (\<lambda>x. is_lower_alnum x \<or> x = CHR ''.'' \<or> x = CHR ''-'') r)"

definition validAllocationPolicy :: "AllocationPolicy \<Rightarrow> bool" where
  "validAllocationPolicy p \<longleftrightarrow>
     validPolicyVersion (policyVersion p) \<and>
     1 \<le> maxDebitsPerAllocation p \<and> maxDebitsPerAllocation p \<le> CARD_STATEMENT_ALLOCATION_SIZE_MAX \<and>
     - CARD_STATEMENT_ALLOCATION_WINDOW_DAYS_MAX \<le> minDaysFromDue p \<and>
     minDaysFromDue p \<le> CARD_STATEMENT_ALLOCATION_WINDOW_DAYS_MAX \<and>
     - CARD_STATEMENT_ALLOCATION_WINDOW_DAYS_MAX \<le> maxDaysFromDue p \<and>
     maxDaysFromDue p \<le> CARD_STATEMENT_ALLOCATION_WINDOW_DAYS_MAX \<and>
     minDaysFromDue p \<le> maxDaysFromDue p"

record AllocationStatementInput =
  inputStatement :: CardStatementFact
  statementKey :: string

record AllocationDebitInput =
  inputDebit :: CardBankDebitFact
  bankKey :: string
  aliasClass :: "string option"

record AllocationHeld =
  heldBankKeys :: "string list"
  heldAliasClasses :: "string list"
  heldStatementKeys :: "string list"

record AllocationInput =
  inputStatements :: "AllocationStatementInput list"
  inputDebits :: "AllocationDebitInput list"
  inputPolicy :: "AllocationPolicy option"
  inputHeld :: AllocationHeld

section \<open>Codes and results\<close>

datatype AllocationRunRefusal = Run_policy_missing | Run_policy_unsupported | Run_input_bound_exceeded

datatype AllocationStatementRefusal =
    Statement_invalid | Statement_repeated | Statement_not_exact | Statement_not_positive
  | Payment_date_missing | Statement_already_allocated

fun refusal_text :: "AllocationStatementRefusal \<Rightarrow> string" where
  "refusal_text Statement_invalid = ''statement_invalid''"
| "refusal_text Statement_repeated = ''statement_repeated''"
| "refusal_text Statement_not_exact = ''amount_not_exact''"
| "refusal_text Statement_not_positive = ''amount_not_positive''"
| "refusal_text Payment_date_missing = ''payment_date_missing''"
| "refusal_text Statement_already_allocated = ''statement_already_allocated''"

datatype AllocationDebitExclusion =
    Debit_invalid | Debit_repeated | Identity_not_admitted | Debit_not_exact | Debit_not_positive
  | Debit_date_missing | Duplicate_unresolved | Economic_claim_held | Alias_conflict

fun exclusion_text :: "AllocationDebitExclusion \<Rightarrow> string" where
  "exclusion_text Debit_invalid = ''debit_invalid''"
| "exclusion_text Debit_repeated = ''debit_repeated''"
| "exclusion_text Identity_not_admitted = ''identity_not_admitted''"
| "exclusion_text Debit_not_exact = ''amount_not_exact''"
| "exclusion_text Debit_not_positive = ''amount_not_positive''"
| "exclusion_text Debit_date_missing = ''debit_date_missing''"
| "exclusion_text Duplicate_unresolved = ''duplicate_unresolved''"
| "exclusion_text Economic_claim_held = ''economic_claim_held''"
| "exclusion_text Alias_conflict = ''alias_conflict''"

datatype AllocationPairExclusion = Currency_differs | Date_outside_window

datatype AllocationOutcomeCode =
    Candidate_not_unique | Debit_in_other_statement_allocation | Excluded_debit_competes
  | No_debit_in_window | No_exact_allocation | In_window_debits_below_total | Debit_above_total

record AllocationMember =
  memberRef :: SourceFactRef
  memberBankKey :: string
  memberAliasClass :: string
  memberSourceId :: string
  memberSourceAccount :: string
  memberAccountId :: "string option"
  allocatedAmount :: Quantity

datatype AllocationKind = Single_debit | Multiple_debits

record StatementAllocation =
  allocationKind :: AllocationKind
  members :: "AllocationMember list"
  statementTotal :: Quantity
  allocationRationale :: "string list"
  allocationConditions :: "string list"
  allocationOwnership :: Ownership

datatype StatementOutcome =
    Refused AllocationStatementRefusal
  | Proposed StatementAllocation
  | Needs_review "StatementAllocation list" "AllocationOutcomeCode list"
  | Unsupported "AllocationOutcomeCode list"

record StatementResult =
  resultStatementRef :: "SourceFactRef option"
  resultStatementKey :: "string option"
  resultOutcome :: StatementOutcome
  pairExclusions :: "(SourceFactRef \<times> AllocationPairExclusion) list"

record AllocationManifest =
  manifestRelease :: string
  manifestPolicyVersion :: string
  arithmeticVersion :: string

datatype AllocationRun =
    RunRefused AllocationRunRefusal
  | RunPlanned AllocationManifest "StatementResult list"
      "(SourceFactRef option \<times> AllocationDebitExclusion) list"

section \<open>Shapes, values and dates\<close>

datatype AmountCheck = Exact_positive | Not_exact | Not_positive

definition exactPositive :: "Quantity \<Rightarrow> AmountCheck" where
  "exactPositive q =
     (case quantityValue q of
        AbsentValue _ _ \<Rightarrow> Not_exact
      | ExactValue v _ \<Rightarrow> if 0 < coefficient v then Exact_positive else Not_positive)"

definition localDate :: "TemporalValue \<Rightarrow> string option" where
  "localDate t =
     (if \<not> validTemporalValue t then None
      else case t of
        LocalDate d _ _ \<Rightarrow> if parseLocalDate d = None then None else Some d
      | _ \<Rightarrow> None)"

definition validStatementShape :: "AllocationStatementInput \<Rightarrow> bool" where
  "validStatementShape i \<longleftrightarrow>
     isText 4096 (statementKey i) \<and>
     (let s = inputStatement i
      in validSourceFactRef (statementRef s) \<and> factKind (statementRef s) = BalanceKind \<and>
         statementSourceId s \<in> {''vpass'', ''myjcb''} \<and> validQuantity (statementAmount s))"

definition validDebitShape :: "AllocationDebitInput \<Rightarrow> bool" where
  "validDebitShape i \<longleftrightarrow>
     isText 4096 (bankKey i) \<and> (case aliasClass i of None \<Rightarrow> True | Some a \<Rightarrow> isText 4096 a) \<and>
     (let d = inputDebit i
      in validSourceFactRef (debitRef d) \<and> factKind (debitRef d) = TransactionKind \<and>
         isText 256 (debitSourceId d) \<and> validQuantity (debitAmount d))"

record AdmittedDebit =
  admInput :: AllocationDebitInput
  admAlias :: string
  admDate :: string

record CompetingDebit =
  compInput :: AllocationDebitInput
  compDate :: "string option"

definition debitId :: "AllocationDebitInput \<Rightarrow> string" where
  "debitId i = factId (debitRef (inputDebit i))"

definition amountOfDebit :: "AllocationDebitInput \<Rightarrow> Quantity" where
  "amountOfDebit i = debitAmount (inputDebit i)"

section \<open>One allocation\<close>

definition ownershipOf :: "CardStatementFact \<Rightarrow> AdmittedDebit list \<Rightarrow> Ownership" where
  "ownershipOf s ms =
     (let owners = statementOwnerRef s # map (\<lambda>m. debitOwnerRef (inputDebit (admInput m))) ms;
          known = List.map_filter id owners
      in if 1 < length (js_set known) then Different_owner
         else if length known = length owners then Established_same else Unknown_owner)"

definition memberOf :: "AdmittedDebit \<Rightarrow> AllocationMember" where
  "memberOf m =
     (let d = inputDebit (admInput m)
      in \<lparr>memberRef = debitRef d, memberBankKey = bankKey (admInput m), memberAliasClass = admAlias m,
          memberSourceId = debitSourceId d, memberSourceAccount = debitSourceAccount d,
          memberAccountId = debitAccountId d, allocatedAmount = debitAmount d\<rparr>)"

definition statementAllocationOf :: "CardStatementFact \<Rightarrow> AdmittedDebit list \<Rightarrow> StatementAllocation" where
  "statementAllocationOf s ms =
     (let own = ownershipOf s ms
      in \<lparr>allocationKind = (if length ms = 1 then Single_debit else Multiple_debits),
          members = map memberOf ms, statementTotal = statementAmount s,
          allocationRationale = [''authoritative_statement_total'', ''observed_bank_debit'',
            ''identity_admitted'', ''same_unit'', ''dates_within_policy_window'',
            if length ms = 1 then ''amount_equal'' else ''amounts_sum_to_total''],
          allocationConditions = ownershipConditions own, allocationOwnership = own\<rparr>)"

section \<open>The search\<close>

text \<open>
  The loop of \<open>walk\<close> over the debits from one index on. An amount that cannot be added or compared is
  skipped; an amount above the total ends the loop.
\<close>

fun exactWalk ::
  "('d \<Rightarrow> Quantity) \<Rightarrow> Quantity \<Rightarrow> int \<Rightarrow> 'd list \<Rightarrow> Quantity option \<Rightarrow> 'd list \<Rightarrow> 'd list list"
where
  "exactWalk amt target limit chosen acc [] = []"
| "exactWalk amt target limit chosen acc (d # ds) =
     (case (case acc of None \<Rightarrow> Inr (amt d) | Some s \<Rightarrow> addQuantities s (amt d)) of
        Inl _ \<Rightarrow> exactWalk amt target limit chosen acc ds
      | Inr run \<Rightarrow>
          (case compareQuantities run target of
             Inl _ \<Rightarrow> exactWalk amt target limit chosen acc ds
           | Inr order \<Rightarrow>
               if 0 < order then []
               else
                 (let ms = chosen @ [d]
                  in (if order = 0 then [ms]
                      else if int (length ms) < limit then exactWalk amt target limit ms (Some run) ds
                      else []) @
                     exactWalk amt target limit chosen acc ds)))"

definition exactCombinations :: "('d \<Rightarrow> Quantity) \<Rightarrow> Quantity \<Rightarrow> 'd list \<Rightarrow> int \<Rightarrow> 'd list list" where
  "exactCombinations amt target debits limit = exactWalk amt target limit [] None debits"

definition byAmountThenRef :: "AllocationDebitInput \<Rightarrow> AllocationDebitInput \<Rightarrow> int" where
  "byAmountThenRef a b =
     (case compareQuantities (amountOfDebit a) (amountOfDebit b) of
        Inr order \<Rightarrow> if order \<noteq> 0 then order else compareText (debitId a) (debitId b)
      | Inl _ \<Rightarrow> compareText (debitId a) (debitId b))"

fun join_lines :: "string list \<Rightarrow> string" where
  "join_lines [] = ''''"
| "join_lines [x] = x"
| "join_lines (x # y # ys) = x @ CHR 0x0A # join_lines (y # ys)"

definition allocationOrder :: "StatementAllocation \<Rightarrow> StatementAllocation \<Rightarrow> int" where
  "allocationOrder a b =
     (if length (members a) \<noteq> length (members b) then int (length (members a)) - int (length (members b))
      else compareText (join_lines (map (\<lambda>m. factId (memberRef m)) (members a)))
        (join_lines (map (\<lambda>m. factId (memberRef m)) (members b))))"

section \<open>Debits\<close>

definition countIn :: "'a list \<Rightarrow> 'a \<Rightarrow> nat" where
  "countIn xs x = length (filter (\<lambda>y. y = x) xs)"

record DebitScan =
  scanExclusions :: "(SourceFactRef option \<times> AllocationDebitExclusion) list"
  scanValued :: "AdmittedDebit list"
  scanCompeting :: "CompetingDebit list"

definition scanDebit :: "string list \<Rightarrow> DebitScan \<Rightarrow> AllocationDebitInput \<Rightarrow> DebitScan" where
  "scanDebit ids st item =
     (if \<not> validDebitShape item then st\<lparr>scanExclusions := scanExclusions st @ [(None, Debit_invalid)]\<rparr>
      else
        (let ref = debitRef (inputDebit item);
             exclude = (\<lambda>code. st\<lparr>scanExclusions := scanExclusions st @ [(Some ref, code)]\<rparr>)
         in if 1 < countIn ids (factId ref) then exclude Debit_repeated
            else case aliasClass item of
              None \<Rightarrow> exclude Identity_not_admitted
            | Some a \<Rightarrow>
                (case exactPositive (amountOfDebit item) of
                   Not_exact \<Rightarrow> exclude Debit_not_exact
                 | Not_positive \<Rightarrow> exclude Debit_not_positive
                 | Exact_positive \<Rightarrow>
                     (case localDate (occurred (inputDebit item)) of
                        None \<Rightarrow> (exclude Debit_date_missing)
                          \<lparr>scanCompeting := scanCompeting st @ [\<lparr>compInput = item, compDate = None\<rparr>]\<rparr>
                      | Some date \<Rightarrow>
                          st\<lparr>scanValued := scanValued st @
                            [\<lparr>admInput = item, admAlias = a, admDate = date\<rparr>]\<rparr>))))"

definition scanDebits :: "AllocationDebitInput list \<Rightarrow> DebitScan" where
  "scanDebits debits =
     (let ids = map debitId (filter validDebitShape debits)
      in foldl (scanDebit ids) \<lparr>scanExclusions = [], scanValued = [], scanCompeting = []\<rparr> debits)"

record DebitAdmission =
  admExclusions :: "(SourceFactRef option \<times> AllocationDebitExclusion) list"
  admAdmitted :: "AdmittedDebit list"
  admCompeting :: "CompetingDebit list"

definition admitDebit ::
  "string list \<Rightarrow> string list \<Rightarrow> AllocationHeld \<Rightarrow> DebitAdmission \<Rightarrow> AdmittedDebit \<Rightarrow> DebitAdmission"
where
  "admitDebit keys aliases h st d =
     (let ref = debitRef (inputDebit (admInput d));
          exclude = (\<lambda>code. st\<lparr>admExclusions := admExclusions st @ [(Some ref, code)]\<rparr>)
      in if 1 < countIn keys (bankKey (admInput d)) \<or> 1 < countIn aliases (admAlias d) then
           (exclude Duplicate_unresolved)\<lparr>admCompeting := admCompeting st @
             [\<lparr>compInput = admInput d, compDate = Some (admDate d)\<rparr>]\<rparr>
         else if bankKey (admInput d) \<in> set (heldBankKeys h) then exclude Economic_claim_held
         else if admAlias d \<in> set (heldAliasClasses h) then exclude Alias_conflict
         else st\<lparr>admAdmitted := admAdmitted st @ [d]\<rparr>)"

definition exclusionOrder ::
  "SourceFactRef option \<times> AllocationDebitExclusion \<Rightarrow> SourceFactRef option \<times> AllocationDebitExclusion \<Rightarrow> int"
where
  "exclusionOrder a b =
     or_else (compareText (case fst a of None \<Rightarrow> '''' | Some r \<Rightarrow> factId r) (case fst b of None \<Rightarrow> '''' | Some r \<Rightarrow> factId r))
       (compareText (exclusion_text (snd a)) (exclusion_text (snd b)))"

definition admitDebits :: "AllocationDebitInput list \<Rightarrow> AllocationHeld \<Rightarrow> DebitAdmission" where
  "admitDebits debits h =
     (let scan = scanDebits debits;
          keys = map (\<lambda>d. bankKey (admInput d)) (scanValued scan);
          aliases = map admAlias (scanValued scan);
          st = foldl (admitDebit keys aliases h)
            \<lparr>admExclusions = scanExclusions scan, admAdmitted = [], admCompeting = scanCompeting scan\<rparr>
            (scanValued scan)
      in st\<lparr>admAdmitted := js_sort (\<lambda>a b. compareText (debitId (admInput a)) (debitId (admInput b))) (admAdmitted st),
            admExclusions := js_sort exclusionOrder (admExclusions st)\<rparr>)"

section \<open>Statements\<close>

record Planned =
  planRef :: "SourceFactRef option"
  planKey :: "string option"
  planRefusal :: "AllocationStatementRefusal option"
  planPairs :: "(SourceFactRef \<times> AllocationPairExclusion) list"
  planStatement :: "CardStatementFact option"
  planCandidates :: "AdmittedDebit list list"
  planInWindow :: "AdmittedDebit list"
  planCompetes :: bool

definition refusePlan :: "SourceFactRef option \<Rightarrow> string option \<Rightarrow> AllocationStatementRefusal \<Rightarrow> Planned" where
  "refusePlan ref key code = \<lparr>planRef = ref, planKey = key, planRefusal = Some code, planPairs = [],
     planStatement = None, planCandidates = [], planInWindow = [], planCompetes = False\<rparr>"

definition withinWindow :: "AllocationPolicy \<Rightarrow> CivilDate \<Rightarrow> string \<Rightarrow> bool" where
  "withinWindow p due date =
     (let gap = daysBetween due (the (parseLocalDate date))
      in minDaysFromDue p \<le> gap \<and> gap \<le> maxDaysFromDue p)"

definition considers :: "AllocationPolicy \<Rightarrow> CardStatementFact \<Rightarrow> CivilDate \<Rightarrow> AdmittedDebit \<Rightarrow> AllocationPairExclusion option" where
  "considers p s due d =
     (if unitRef (amountOfDebit (admInput d)) \<noteq> unitRef (statementAmount s) then Some Currency_differs
      else if \<not> withinWindow p due (admDate d) then Some Date_outside_window
      else None)"

definition isRival :: "AllocationPolicy \<Rightarrow> CardStatementFact \<Rightarrow> CivilDate \<Rightarrow> CompetingDebit \<Rightarrow> bool" where
  "isRival p s due d \<longleftrightarrow>
     unitRef (amountOfDebit (compInput d)) = unitRef (statementAmount s) \<and>
     (case compDate d of None \<Rightarrow> True | Some date \<Rightarrow> withinWindow p due date)"

definition searchPlan ::
  "AllocationPolicy \<Rightarrow> AdmittedDebit list \<Rightarrow> CompetingDebit list \<Rightarrow> AllocationStatementInput \<Rightarrow> CivilDate \<Rightarrow> Planned"
where
  "searchPlan p admitted competing item due =
     (let s = inputStatement item;
          pairs = concat (map (\<lambda>d. case considers p s due d of
              None \<Rightarrow> [] | Some code \<Rightarrow> [(debitRef (inputDebit (admInput d)), code)]) admitted);
          inWindow = filter (\<lambda>d. considers p s due d = None) admitted;
          limit = maxDebitsPerAllocation p;
          candidates = exactCombinations (\<lambda>d. amountOfDebit (admInput d)) (statementAmount s)
            (js_sort (\<lambda>a b. byAmountThenRef (admInput a) (admInput b)) inWindow) limit;
          rivals = map compInput (filter (isRival p s due) competing);
          rivalIds = map debitId rivals;
          competes = (candidates \<noteq> [] \<and> rivals \<noteq> [] \<and>
            list_ex (list_ex (\<lambda>m. debitId m \<in> set rivalIds))
              (exactCombinations amountOfDebit (statementAmount s)
                (js_sort byAmountThenRef (map admInput inWindow @ rivals)) limit))
      in \<lparr>planRef = Some (statementRef s), planKey = Some (statementKey item), planRefusal = None,
          planPairs = js_sort (\<lambda>a b. compareText (factId (fst a)) (factId (fst b))) pairs,
          planStatement = Some s, planCandidates = candidates, planInWindow = inWindow,
          planCompetes = competes\<rparr>)"

definition planOne ::
  "AllocationPolicy \<Rightarrow> AllocationHeld \<Rightarrow> AdmittedDebit list \<Rightarrow> CompetingDebit list \<Rightarrow> string list \<Rightarrow> string list \<Rightarrow>
   AllocationStatementInput \<Rightarrow> Planned"
where
  "planOne p h admitted competing ids keys item =
     (if \<not> validStatementShape item then refusePlan None None Statement_invalid
      else
        (let s = inputStatement item;
             refuse = refusePlan (Some (statementRef s)) (Some (statementKey item))
         in if 1 < countIn ids (factId (statementRef s)) \<or> 1 < countIn keys (statementKey item) then
              refuse Statement_repeated
            else case exactPositive (statementAmount s) of
              Not_exact \<Rightarrow> refuse Statement_not_exact
            | Not_positive \<Rightarrow> refuse Statement_not_positive
            | Exact_positive \<Rightarrow>
                (case localDate (paymentDate s) of
                   None \<Rightarrow> refuse Payment_date_missing
                 | Some due \<Rightarrow>
                     if statementKey item \<in> set (heldStatementKeys h) then refuse Statement_already_allocated
                     else searchPlan p admitted competing item (the (parseLocalDate due)))))"

section \<open>Outcomes\<close>

definition uses :: "Planned \<Rightarrow> string \<Rightarrow> bool" where
  "uses plan ident \<longleftrightarrow> list_ex (list_ex (\<lambda>m. debitId (admInput m) = ident)) (planCandidates plan)"

text \<open>How many statements have a debit in a candidate: the size of the source's set of indices.\<close>

definition statementsByDebit :: "Planned list \<Rightarrow> string \<Rightarrow> nat" where
  "statementsByDebit plans ident = length (filter (\<lambda>plan. uses plan ident) plans)"

definition unsupportedCodes :: "CardStatementFact \<Rightarrow> AdmittedDebit list \<Rightarrow> AllocationOutcomeCode list" where
  "unsupportedCodes s inWindow =
     (if inWindow = [] then [No_debit_in_window]
      else
        [No_exact_allocation] @
        (case sumQuantities (unitRef (statementAmount s)) (map (\<lambda>d. amountOfDebit (admInput d)) inWindow) of
           Inl _ \<Rightarrow> []
         | Inr q \<Rightarrow>
             (case compareQuantities q (statementAmount s) of
                Inl _ \<Rightarrow> []
              | Inr order \<Rightarrow> if order < 0 then [In_window_debits_below_total] else [])) @
        (if list_ex (\<lambda>d. case compareQuantities (amountOfDebit (admInput d)) (statementAmount s) of
              Inl _ \<Rightarrow> False | Inr order \<Rightarrow> 0 < order) inWindow
         then [Debit_above_total] else []))"

definition byRef :: "AdmittedDebit \<Rightarrow> AdmittedDebit \<Rightarrow> int" where
  "byRef a b = compareText (debitId (admInput a)) (debitId (admInput b))"

definition outcomeOf :: "Planned list \<Rightarrow> Planned \<Rightarrow> StatementOutcome" where
  "outcomeOf plans plan =
     (case planStatement plan of
        None \<Rightarrow> Refused (the (planRefusal plan))
      | Some s \<Rightarrow>
          if planCandidates plan = [] then Unsupported (unsupportedCodes s (planInWindow plan))
          else
            (let allocs = js_sort allocationOrder
                   (map (\<lambda>ms. statementAllocationOf s (js_sort byRef ms)) (planCandidates plan));
                 elsewhere = list_ex (list_ex (\<lambda>m. 1 < statementsByDebit plans (debitId (admInput m))))
                   (planCandidates plan)
             in if length allocs = 1 \<and> \<not> elsewhere \<and> \<not> planCompetes plan then Proposed (hd allocs)
                else Needs_review allocs
                  ([Candidate_not_unique] @
                   (if elsewhere then [Debit_in_other_statement_allocation] else []) @
                   (if planCompetes plan then [Excluded_debit_competes] else []))))"

definition resultOf :: "Planned list \<Rightarrow> Planned \<Rightarrow> StatementResult" where
  "resultOf plans plan = \<lparr>resultStatementRef = planRef plan, resultStatementKey = planKey plan,
     resultOutcome = outcomeOf plans plan, pairExclusions = planPairs plan\<rparr>"

definition refusedCode :: "StatementOutcome \<Rightarrow> string" where
  "refusedCode r = (case r of Refused code \<Rightarrow> refusal_text code | _ \<Rightarrow> '''')"

definition resultOrder :: "StatementResult \<Rightarrow> StatementResult \<Rightarrow> int" where
  "resultOrder a b =
     or_else (compareText (case resultStatementRef a of None \<Rightarrow> '''' | Some r \<Rightarrow> factId r)
         (case resultStatementRef b of None \<Rightarrow> '''' | Some r \<Rightarrow> factId r))
       (or_else (compareText (case resultStatementKey a of None \<Rightarrow> '''' | Some k \<Rightarrow> k)
           (case resultStatementKey b of None \<Rightarrow> '''' | Some k \<Rightarrow> k))
         (compareText (refusedCode (resultOutcome a)) (refusedCode (resultOutcome b))))"

definition planAll :: "AllocationPolicy \<Rightarrow> AllocationInput \<Rightarrow> Planned list" where
  "planAll p i =
     (let adm = admitDebits (inputDebits i) (inputHeld i);
          valid = filter validStatementShape (inputStatements i);
          ids = map (\<lambda>x. factId (statementRef (inputStatement x))) valid;
          keys = map statementKey valid
      in map (planOne p (inputHeld i) (admAdmitted adm) (admCompeting adm) ids keys) (inputStatements i))"

definition planCardStatementAllocations :: "AllocationInput \<Rightarrow> AllocationRun" where
  "planCardStatementAllocations i =
     (case inputPolicy i of
        None \<Rightarrow> RunRefused Run_policy_missing
      | Some p \<Rightarrow>
          if \<not> validAllocationPolicy p then RunRefused Run_policy_unsupported
          else if CARD_STATEMENT_ALLOCATION_STATEMENTS_MAX < length (inputStatements i) \<or>
                  CARD_STATEMENT_ALLOCATION_DEBITS_MAX < length (inputDebits i) then
            RunRefused Run_input_bound_exceeded
          else
            (let plans = planAll p i
             in RunPlanned \<lparr>manifestRelease = CARD_STATEMENT_ALLOCATION_RELEASE,
                  manifestPolicyVersion = policyVersion p, arithmeticVersion = ARITHMETIC_POLICY_VERSION\<rparr>
                (js_sort resultOrder (map (resultOf plans) plans))
                (admExclusions (admitDebits (inputDebits i) (inputHeld i)))))"

section \<open>The search finds every combination and nothing else\<close>

text \<open>
  The reference: a sub-list of the debits, in order, is an allocation when it is not empty, no longer
  than the limit and adds up to the amount. The search visits fewer of them, and must find the same.
\<close>

definition payable_in :: "string \<Rightarrow> Quantity \<Rightarrow> bool" where
  "payable_in u q \<longleftrightarrow> exact_in u q \<and> 0 < amount_value q"

definition value_of :: "('d \<Rightarrow> Quantity) \<Rightarrow> 'd list \<Rightarrow> rat" where
  "value_of amt ms = sum_list (map (\<lambda>d. amount_value (amt d)) ms)"

lemma value_of_simps [simp]:
  "value_of amt [] = 0" "value_of amt (d # ms) = amount_value (amt d) + value_of amt ms"
  "value_of amt (ms @ ns) = value_of amt ms + value_of amt ns"
  by (simp_all add: value_of_def)

definition allocates :: "('d \<Rightarrow> Quantity) \<Rightarrow> Quantity \<Rightarrow> int \<Rightarrow> 'd list \<Rightarrow> bool" where
  "allocates amt target limit ms \<longleftrightarrow>
     ms \<noteq> [] \<and> int (length ms) \<le> limit \<and> value_of amt ms = amount_value target"

lemma subseqs_Cons: "subseqs (x # xs) = map ((#) x) (subseqs xs) @ subseqs xs"
  by (simp add: Let_def)

lemma in_subseqs_set: "ms \<in> set (subseqs ds) \<Longrightarrow> set ms \<subseteq> set ds"
  by (metis PowI imageI subseqs_powset PowD)

lemma value_of_nonneg:
  assumes "\<And>d. d \<in> set ms \<Longrightarrow> 0 < amount_value (amt d)"
  shows "0 \<le> value_of amt ms" and "ms \<noteq> [] \<Longrightarrow> 0 < value_of amt ms"
  using assms by (induction ms) (auto simp: add_nonneg_nonneg add_pos_nonneg less_imp_le)

lemma value_of_at_least:
  assumes "\<And>d. d \<in> set ms \<Longrightarrow> 0 < amount_value (amt d) \<and> v \<le> amount_value (amt d)" and "ms \<noteq> []"
  shows "v \<le> value_of amt ms"
proof (cases ms)
  case (Cons d rest)
  have "0 \<le> value_of amt rest" using assms(1) Cons by (intro value_of_nonneg) simp
  moreover have "v \<le> amount_value (amt d)" using assms(1) Cons by simp
  ultimately show ?thesis using Cons by simp
qed (use assms(2) in simp)

lemma filter_subseqs_Nil: "filter (\<lambda>ms. ms = []) (subseqs ds) = [[]]"
  by (induction ds) (simp_all add: subseqs_Cons filter_map comp_def del: subseqs.simps(2))

text \<open>The search adds one debit to what is chosen: the total runs on, and the debit ends, completes or leaves open the sum.\<close>

lemma running_total:
  assumes "exact_in u (amt d)"
    and "case acc of None \<Rightarrow> chosen = [] | Some q \<Rightarrow> exact_in u q \<and> amount_value q = value_of amt chosen"
  obtains run where "(case acc of None \<Rightarrow> Inr (amt d) | Some s \<Rightarrow> addQuantities s (amt d)) = Inr run"
    "exact_in u run" "amount_value run = value_of amt (chosen @ [d])"
proof (cases acc)
  case None
  with assms that [of "amt d"] show thesis by simp
next
  case (Some q)
  with assms(2) have q: "exact_in u q" "amount_value q = value_of amt chosen" by simp_all
  obtain r where "addQuantities q (amt d) = Inr r" "exact_in u r"
    "amount_value r = amount_value q + amount_value (amt d)" by (rule addQuantities_in [OF q(1) assms(1)])
  with Some q(2) that [of r] show thesis by simp
qed

lemma nothing_over:
  assumes "\<forall>x\<in>set (d # ds). payable_in u (amt x)"
    and "sorted_wrt (\<lambda>a b. amount_value (amt a) \<le> amount_value (amt b)) (d # ds)"
    and over: "amount_value target < value_of amt (chosen @ [d])"
  shows "filter (\<lambda>ms. ms \<noteq> [] \<and> allocates amt target limit (chosen @ ms)) (subseqs (d # ds)) = []"
proof -
  have "\<not> (ms \<noteq> [] \<and> allocates amt target limit (chosen @ ms))" if ms: "ms \<in> set (subseqs (d # ds))" for ms
  proof (cases "ms = []")
    case False
    have "amount_value (amt d) \<le> value_of amt ms"
    proof (rule value_of_at_least [OF _ False])
      fix x assume "x \<in> set ms"
      then have "x \<in> set (d # ds)" using in_subseqs_set [OF ms] by blast
      then show "0 < amount_value (amt x) \<and> amount_value (amt d) \<le> amount_value (amt x)"
        using assms(1,2) by (auto simp: payable_in_def)
    qed
    then show ?thesis using over by (simp add: allocates_def)
  qed simp
  then show ?thesis by (simp add: filter_empty_conv del: subseqs.simps)
qed

lemma only_exact:
  assumes "\<forall>x\<in>set ds. payable_in u (amt x)" and exact: "value_of amt (chosen @ [d]) = amount_value target"
    and "int (length chosen) < limit"
  shows "filter (\<lambda>ms. allocates amt target limit (chosen @ d # ms)) (subseqs ds) = [[]]"
proof -
  have "allocates amt target limit (chosen @ d # ms) \<longleftrightarrow> ms = []" if "ms \<in> set (subseqs ds)" for ms
  proof (cases "ms = []")
    case True
    then show ?thesis using exact assms(3) by (simp add: allocates_def)
  next
    case False
    have "0 < amount_value (amt x)" if "x \<in> set ms" for x
      using that \<open>ms \<in> set (subseqs ds)\<close> assms(1) in_subseqs_set by (fastforce simp: payable_in_def)
    with False have "0 < value_of amt ms" by (intro value_of_nonneg)
    then show ?thesis using exact False by (simp add: allocates_def)
  qed
  then show ?thesis by (simp only: filter_subseqs_Nil cong: filter_cong)
qed

lemma exactWalk_spec:
  assumes "exact_in u target"
    and "\<forall>d\<in>set ds. payable_in u (amt d)"
    and "sorted_wrt (\<lambda>a b. amount_value (amt a) \<le> amount_value (amt b)) ds"
    and "case acc of None \<Rightarrow> chosen = [] | Some q \<Rightarrow> exact_in u q \<and> amount_value q = value_of amt chosen"
    and "int (length chosen) < limit"
  shows "exactWalk amt target limit chosen acc ds =
    map ((@) chosen) (filter (\<lambda>ms. ms \<noteq> [] \<and> allocates amt target limit (chosen @ ms)) (subseqs ds))"
  using assms
proof (induction ds arbitrary: chosen acc)
  case (Cons d ds)
  let ?ok = "\<lambda>c ms. ms \<noteq> [] \<and> allocates amt target limit (c @ ms)"
  let ?with = "\<lambda>ms. allocates amt target limit (chosen @ d # ms)"
  let ?v = "value_of amt (chosen @ [d])" and ?t = "amount_value target"
  have d: "exact_in u (amt d)" "0 < amount_value (amt d)" using Cons.prems(2) by (simp_all add: payable_in_def)
  obtain run where run: "(case acc of None \<Rightarrow> Inr (amt d) | Some s \<Rightarrow> addQuantities s (amt d)) = Inr run"
    "exact_in u run" "amount_value run = ?v" by (rule running_total [OF d(1) Cons.prems(4)])
  have cmp: "compareQuantities run target = Inr (if ?v < ?t then - 1 else if ?t < ?v then 1 else 0)"
    using compareQuantities_in [OF run(2) Cons.prems(1)] run(3) by simp
  have rest: "exactWalk amt target limit chosen acc ds = map ((@) chosen) (filter (?ok chosen) (subseqs ds))"
    using Cons.prems by (intro Cons.IH) auto
  have split: "map ((@) chosen) (filter (?ok chosen) (subseqs (d # ds))) =
    map (\<lambda>ms. chosen @ d # ms) (filter ?with (subseqs ds)) @ map ((@) chosen) (filter (?ok chosen) (subseqs ds))"
    by (simp add: subseqs_Cons filter_map comp_def del: subseqs.simps(2))
  consider (over) "?t < ?v" | (exact) "?v = ?t" | (under) "?v < ?t" "int (length (chosen @ [d])) < limit"
    | (full) "?v < ?t" "\<not> int (length (chosen @ [d])) < limit" by linarith
  then show ?case
  proof cases
    case over
    with nothing_over [OF Cons.prems(2,3)] run(1) cmp show ?thesis by (simp del: subseqs.simps)
  next
    case exact
    then have "filter ?with (subseqs ds) = [[]]" using Cons.prems(2,5) by (intro only_exact) auto
    then show ?thesis using exact run(1) cmp rest split by (simp del: subseqs.simps)
  next
    case under
    have "exactWalk amt target limit (chosen @ [d]) (Some run) ds =
        map ((@) (chosen @ [d])) (filter (?ok (chosen @ [d])) (subseqs ds))"
      using Cons.prems under(2) run by (intro Cons.IH) auto
    moreover have "filter (?ok (chosen @ [d])) (subseqs ds) = filter ?with (subseqs ds)"
      using under by (intro filter_cong) (auto simp: allocates_def)
    ultimately show ?thesis using under run(1) cmp rest split by (simp del: subseqs.simps)
  next
    case full
    have "\<not> ?with ms" for ms using full by (cases ms) (auto simp: allocates_def)
    then have "filter ?with (subseqs ds) = []" by simp
    then show ?thesis using full run(1) cmp rest split by (simp del: subseqs.simps)
  qed
qed simp

lemma exactCombinations_spec:
  assumes "exact_in u target"
    and "\<forall>d\<in>set ds. payable_in u (amt d)"
    and "sorted_wrt (\<lambda>a b. amount_value (amt a) \<le> amount_value (amt b)) ds"
    and "0 < limit"
  shows "exactCombinations amt target ds limit = filter (allocates amt target limit) (subseqs ds)"
proof -
  have "(@) [] = (\<lambda>ms :: 'a list. ms)" by (rule ext) simp
  then have "exactCombinations amt target ds limit =
      filter (\<lambda>ms. ms \<noteq> [] \<and> allocates amt target limit ms) (subseqs ds)"
    unfolding exactCombinations_def using exactWalk_spec [OF assms(1-3), where acc = None and chosen = "[]" and limit = limit] assms(4) by simp
  also have "\<dots> = filter (allocates amt target limit) (subseqs ds)"
    by (intro filter_cong) (auto simp: allocates_def)
  finally show ?thesis .
qed

section \<open>What is admitted\<close>

lemma exactPositive_spec:
  "exactPositive q = Exact_positive \<longleftrightarrow> is_exact q \<and> 0 < amount_value q"
  by (auto simp: exactPositive_def is_exact_def amount_value_def dec_value_def zero_less_divide_iff
      split: ValueState.splits)

definition valued_from :: "string list \<Rightarrow> AllocationDebitInput \<Rightarrow> AdmittedDebit option" where
  "valued_from ids item =
     (if validDebitShape item \<and> countIn ids (debitId item) \<le> 1 \<and> exactPositive (amountOfDebit item) = Exact_positive
      then (case (aliasClass item, localDate (occurred (inputDebit item))) of
          (Some a, Some date) \<Rightarrow> Some \<lparr>admInput = item, admAlias = a, admDate = date\<rparr>
        | _ \<Rightarrow> None)
      else None)"

lemma scanValued_step:
  "scanValued (scanDebit ids st item) = scanValued st @ List.map_filter (valued_from ids) [item]"
  by (auto simp: scanDebit_def valued_from_def Let_def debitId_def List.map_filter_def not_less
      split: option.splits AmountCheck.splits)

lemma scanValued_fold:
  "scanValued (foldl (scanDebit ids) st items) = scanValued st @ List.map_filter (valued_from ids) items"
  by (induction items arbitrary: st) (simp_all add: scanValued_step List.map_filter_def)

lemma valued_debits:
  assumes "d \<in> set (scanValued (scanDebits debits))"
  shows "admInput d \<in> set debits" "validDebitShape (admInput d)"
    "countIn (map debitId (filter validDebitShape debits)) (debitId (admInput d)) \<le> 1"
    "is_exact (amountOfDebit (admInput d))" "0 < amount_value (amountOfDebit (admInput d))"
    "aliasClass (admInput d) = Some (admAlias d)"
    "localDate (occurred (inputDebit (admInput d))) = Some (admDate d)"
  using assms
  by (auto simp: scanDebits_def Let_def scanValued_fold List.map_filter_def valued_from_def exactPositive_spec
      split: if_splits option.splits)

definition admissible :: "string list \<Rightarrow> string list \<Rightarrow> AllocationHeld \<Rightarrow> AdmittedDebit \<Rightarrow> bool" where
  "admissible keys aliases h d \<longleftrightarrow>
     countIn keys (bankKey (admInput d)) \<le> 1 \<and> countIn aliases (admAlias d) \<le> 1 \<and>
     bankKey (admInput d) \<notin> set (heldBankKeys h) \<and> admAlias d \<notin> set (heldAliasClasses h)"

lemma admitted_fold:
  "admAdmitted (foldl (admitDebit keys aliases h) st ds) =
     admAdmitted st @ filter (admissible keys aliases h) ds"
  by (induction ds arbitrary: st) (auto simp: admitDebit_def admissible_def Let_def)

lemma admitted_eq:
  "admAdmitted (admitDebits debits h) =
     js_sort byRef
       (filter (admissible (map (\<lambda>d. bankKey (admInput d)) (scanValued (scanDebits debits)))
           (map admAlias (scanValued (scanDebits debits))) h)
         (scanValued (scanDebits debits)))"
  by (simp add: admitDebits_def Let_def admitted_fold byRef_def [abs_def])

lemma countIn_filter: "countIn (map f (filter P xs)) v \<le> countIn (map f xs) v"
  by (induction xs) (simp_all add: countIn_def)

lemma counted_once_distinct: "(\<And>v. v \<in> set ys \<Longrightarrow> countIn ys v \<le> 1) \<Longrightarrow> distinct ys"
proof (induction ys)
  case (Cons y ys)
  have "countIn ys v \<le> countIn (y # ys) v" for v by (simp add: countIn_def)
  then have "distinct ys" using Cons.IH Cons.prems by (meson le_trans list.set_intros(2))
  moreover have "countIn ys y = 0" using Cons.prems [of y] by (simp add: countIn_def)
  then have "y \<notin> set ys" by (auto simp: countIn_def filter_empty_conv)
  ultimately show ?case by simp
qed simp

lemma counted_filter_distinct:
  assumes "\<And>x. x \<in> set xs \<Longrightarrow> P x \<Longrightarrow> countIn (map f xs) (f x) \<le> 1"
  shows "distinct (map f (filter P xs))"
proof (rule counted_once_distinct)
  fix v assume "v \<in> set (map f (filter P xs))"
  then obtain x where "x \<in> set xs" "P x" "v = f x" by auto
  with assms have "countIn (map f xs) v \<le> 1" by simp
  with countIn_filter [of f P xs v] show "countIn (map f (filter P xs)) v \<le> 1" by linarith
qed

lemma valued_from_SomeD:
  "valued_from ids item = Some d \<Longrightarrow> admInput d = item \<and> validDebitShape item \<and> countIn ids (debitId item) \<le> 1"
  by (auto simp: valued_from_def split: if_splits option.splits)

lemma map_filter_inputs:
  "map admInput (List.map_filter (valued_from ids) items) = filter (\<lambda>i. valued_from ids i \<noteq> None) items"
  by (induction items) (auto simp: List.map_filter_def dest: valued_from_SomeD)

lemma distinct_valued_ids: "distinct (map (\<lambda>d. debitId (admInput d)) (scanValued (scanDebits debits)))"
proof -
  let ?valid = "filter validDebitShape debits"
  let ?ids = "map debitId ?valid"
  have "map admInput (scanValued (scanDebits debits)) = filter (\<lambda>i. valued_from ?ids i \<noteq> None) ?valid"
    by (auto simp: scanDebits_def Let_def scanValued_fold map_filter_inputs dest: valued_from_SomeD intro!: filter_cong)
  then have "map (\<lambda>d. debitId (admInput d)) (scanValued (scanDebits debits)) =
      map debitId (filter (\<lambda>i. valued_from ?ids i \<noteq> None) ?valid)"
    by (metis (no_types) map_map comp_def map_cong)
  also have "distinct \<dots>"
    by (rule counted_filter_distinct) (use valued_from_SomeD in blast)
  finally show ?thesis .
qed

text \<open>Among the admitted debits a reference, a bank key and an alias class each name one debit.\<close>

lemma admitted_distinct:
  assumes "adm = admAdmitted (admitDebits debits h)"
  shows "distinct (map (\<lambda>d. debitId (admInput d)) adm)" "distinct (map (\<lambda>d. bankKey (admInput d)) adm)"
    "distinct (map admAlias adm)"
  unfolding assms admitted_eq distinct_js_sort
    by (rule distinct_map_filter [OF distinct_valued_ids])
      (rule counted_filter_distinct; simp add: admissible_def)+

lemma admitted_debits:
  assumes "d \<in> set (admAdmitted (admitDebits debits h))"
  shows "admInput d \<in> set debits" "validDebitShape (admInput d)"
    "is_exact (amountOfDebit (admInput d))" "0 < amount_value (amountOfDebit (admInput d))"
    "aliasClass (admInput d) = Some (admAlias d)"
    "localDate (occurred (inputDebit (admInput d))) = Some (admDate d)"
    "bankKey (admInput d) \<notin> set (heldBankKeys h)" "admAlias d \<notin> set (heldAliasClasses h)"
  using assms valued_debits [of d debits] by (auto simp: admitted_eq admissible_def)

section \<open>The plan of one statement\<close>

lemma planned_search:
  assumes "plan \<in> set (planAll p i)" and "planStatement plan = Some s"
  obtains item due where "item \<in> set (inputStatements i)" "inputStatement item = s" "validStatementShape item"
    "is_exact (statementAmount s)" "0 < amount_value (statementAmount s)"
    "localDate (paymentDate s) = Some due" "statementKey item \<notin> set (heldStatementKeys (inputHeld i))"
    "plan = searchPlan p (admAdmitted (admitDebits (inputDebits i) (inputHeld i)))
       (admCompeting (admitDebits (inputDebits i) (inputHeld i))) item (the (parseLocalDate due))"
proof -
  from assms(1) obtain item ids keys where item: "item \<in> set (inputStatements i)"
    "plan = planOne p (inputHeld i) (admAdmitted (admitDebits (inputDebits i) (inputHeld i)))
       (admCompeting (admitDebits (inputDebits i) (inputHeld i))) ids keys item"
    by (auto simp: planAll_def Let_def)
  have refused: "planStatement (refusePlan r k c) = None" for r k c by (simp add: refusePlan_def)
  have searched: "planStatement (searchPlan p a c item due) = Some (inputStatement item)" for a c due
    by (simp add: searchPlan_def Let_def)
  show thesis
    using item assms(2) that
    by (auto simp: planOne_def Let_def refused searched exactPositive_spec
        split: if_splits AmountCheck.splits option.splits)
qed

lemma exact_in_value: "is_exact q \<Longrightarrow> unitRef q = u \<Longrightarrow> exact_in u q"
  by (simp add: exact_in_def)

text \<open>In one unit the order of the debits is that of their amounts, then of their references.\<close>

definition amount_then_ref :: "('d \<Rightarrow> AllocationDebitInput) \<Rightarrow> 'd \<Rightarrow> 'd \<Rightarrow> int" where
  "amount_then_ref f a b =
     compareText (amount_value (amountOfDebit (f a)), debitId (f a)) (amount_value (amountOfDebit (f b)), debitId (f b))"

lemma amount_then_ref_le:
  "amount_then_ref f a b \<le> 0 \<Longrightarrow> amount_value (amountOfDebit (f a)) \<le> amount_value (amountOfDebit (f b))"
  by (auto simp: amount_then_ref_def less_eq_prod_def)

interpretation by_amount: comparator "amount_then_ref f" for f :: "'d \<Rightarrow> AllocationDebitInput"
  unfolding amount_then_ref_def [abs_def] by (rule text_order.comparator_axioms)

lemma byAmountThenRef_in_unit:
  assumes "exact_in u (amountOfDebit (f a))" and "exact_in u (amountOfDebit (f b))"
  shows "byAmountThenRef (f a) (f b) = amount_then_ref f a b"
  by (auto simp: byAmountThenRef_def amount_then_ref_def compareQuantities_in [OF assms] compareText_def
      less_prod_def)

lemma search_in_unit:
  assumes "exact_in u target" and "\<forall>d\<in>set ds. payable_in u (amountOfDebit (f d))" and "0 < limit"
  shows "exactCombinations (\<lambda>d. amountOfDebit (f d)) target (js_sort (\<lambda>a b. byAmountThenRef (f a) (f b)) ds) limit =
    filter (allocates (\<lambda>d. amountOfDebit (f d)) target limit) (subseqs (js_sort (amount_then_ref f) ds))"
proof -
  have "js_sort (\<lambda>a b. byAmountThenRef (f a) (f b)) ds = js_sort (amount_then_ref f) ds"
    using assms(2) by (intro js_sort_cong byAmountThenRef_in_unit [where u = u]) (auto simp: payable_in_def)
  moreover have "sorted_wrt (\<lambda>a b. amount_value (amountOfDebit (f a)) \<le> amount_value (amountOfDebit (f b)))
      (js_sort (amount_then_ref f) ds)"
    by (rule sorted_wrt_mono_rel [OF _ by_amount.sorted_js_sort]) (rule amount_then_ref_le)
  ultimately show ?thesis using assms by (simp add: exactCombinations_spec [where u = u])
qed

abbreviation admAmount :: "AdmittedDebit \<Rightarrow> Quantity" where
  "admAmount d \<equiv> amountOfDebit (admInput d)"

lemma planned_candidates:
  assumes "validAllocationPolicy p" and "plan \<in> set (planAll p i)" and "planStatement plan = Some s"
  shows "planCandidates plan =
      filter (allocates admAmount (statementAmount s) (maxDebitsPerAllocation p))
        (subseqs (js_sort (amount_then_ref admInput) (planInWindow plan)))"
    and "\<And>d. d \<in> set (planInWindow plan) \<Longrightarrow>
      d \<in> set (admAdmitted (admitDebits (inputDebits i) (inputHeld i))) \<and>
      payable_in (unitRef (statementAmount s)) (admAmount d) \<and>
      (\<exists>due. localDate (paymentDate s) = Some due \<and> withinWindow p (the (parseLocalDate due)) (admDate d))"
proof -
  let ?adm = "admAdmitted (admitDebits (inputDebits i) (inputHeld i))"
  let ?u = "unitRef (statementAmount s)"
  from assms(2,3) obtain item due where item: "inputStatement item = s" "is_exact (statementAmount s)"
    "localDate (paymentDate s) = Some due"
    and plan: "plan = searchPlan p ?adm (admCompeting (admitDebits (inputDebits i) (inputHeld i))) item
      (the (parseLocalDate due))"
    by (rule planned_search)
  have window: "planInWindow plan = filter (\<lambda>d. considers p s (the (parseLocalDate due)) d = None) ?adm"
    by (simp add: plan searchPlan_def Let_def item)
  show inw: "d \<in> set ?adm \<and> payable_in ?u (admAmount d) \<and>
      (\<exists>due. localDate (paymentDate s) = Some due \<and> withinWindow p (the (parseLocalDate due)) (admDate d))"
    if "d \<in> set (planInWindow plan)" for d
    using that admitted_debits(3,4) [of d "inputDebits i" "inputHeld i"] item(3) unfolding window
    by (auto simp: considers_def payable_in_def exact_in_def split: if_splits)
  have "planCandidates plan = exactCombinations admAmount (statementAmount s)
      (js_sort (\<lambda>a b. byAmountThenRef (admInput a) (admInput b)) (planInWindow plan)) (maxDebitsPerAllocation p)"
    unfolding plan by (simp add: searchPlan_def Let_def item(1))
  also have "\<dots> = filter (allocates admAmount (statementAmount s) (maxDebitsPerAllocation p))
        (subseqs (js_sort (amount_then_ref admInput) (planInWindow plan)))"
  proof (rule search_in_unit [where u = ?u])
    show "exact_in ?u (statementAmount s)" using item(2) by (simp add: exact_in_def)
    show "\<forall>d\<in>set (planInWindow plan). payable_in ?u (admAmount d)" using inw by blast
    show "0 < maxDebitsPerAllocation p" using assms(1) by (simp add: validAllocationPolicy_def)
  qed
  finally show "planCandidates plan =
      filter (allocates admAmount (statementAmount s) (maxDebitsPerAllocation p))
        (subseqs (js_sort (amount_then_ref admInput) (planInWindow plan)))" .
qed

section \<open>Proposals\<close>

lemma outcome_proposed:
  "outcomeOf plans plan = Proposed a \<longleftrightarrow>
     (\<exists>s ms. planStatement plan = Some s \<and> planCandidates plan = [ms] \<and>
        a = statementAllocationOf s (js_sort byRef ms) \<and>
        \<not> planCompetes plan \<and> (\<forall>d\<in>set ms. statementsByDebit plans (debitId (admInput d)) \<le> 1))"
proof (cases "length (planCandidates plan) = 1")
  case True
  then obtain ms where "planCandidates plan = [ms]" by (auto simp: length_Suc_conv)
  then show ?thesis by (auto simp: outcomeOf_def Let_def list_ex_iff not_less split: option.splits)
next
  case False
  then have "outcomeOf plans plan \<noteq> Proposed a" for a by (simp add: outcomeOf_def Let_def split: option.split)
  with False show ?thesis by auto
qed

lemma run_results:
  assumes "planCardStatementAllocations i = RunPlanned m results excl"
  obtains p where "inputPolicy i = Some p" "validAllocationPolicy p"
    "results = js_sort resultOrder (map (resultOf (planAll p i)) (planAll p i))"
  using assms by (auto simp: planCardStatementAllocations_def Let_def split: option.splits if_splits)

lemma allocation_members:
  "members (statementAllocationOf s ms) = map memberOf ms"
  "statementTotal (statementAllocationOf s ms) = statementAmount s"
  by (simp_all add: statementAllocationOf_def Let_def)

lemma memberOf_simps:
  "memberRef (memberOf d) = debitRef (inputDebit (admInput d))" "memberBankKey (memberOf d) = bankKey (admInput d)"
  "memberAliasClass (memberOf d) = admAlias d" "allocatedAmount (memberOf d) = admAmount d"
  by (simp_all add: memberOf_def Let_def amountOfDebit_def)

lemma value_of_members: "value_of allocatedAmount (map memberOf ms) = value_of admAmount ms"
  by (simp add: value_of_def comp_def memberOf_simps)

lemma value_of_js_sort [simp]: "value_of amt (js_sort cmp ms) = value_of amt ms"
proof -
  have "mset (map (\<lambda>d. amount_value (amt d)) (js_sort cmp ms)) = mset (map (\<lambda>d. amount_value (amt d)) ms)" by simp
  then show ?thesis unfolding value_of_def by (metis sum_mset_sum_list)
qed

text \<open>A debit as the policy admits it for a statement: what every member of an allocation must be.\<close>

definition admitted_for :: "AllocationInput \<Rightarrow> AllocationPolicy \<Rightarrow> CardStatementFact \<Rightarrow> AllocationMember \<Rightarrow> bool" where
  "admitted_for i p s m \<longleftrightarrow>
     (\<exists>d\<in>set (inputDebits i).
        memberRef m = debitRef (inputDebit d) \<and> allocatedAmount m = amountOfDebit d \<and>
        payable_in (unitRef (statementAmount s)) (amountOfDebit d) \<and>
        memberBankKey m = bankKey d \<and> bankKey d \<notin> set (heldBankKeys (inputHeld i)) \<and>
        aliasClass d = Some (memberAliasClass m) \<and> memberAliasClass m \<notin> set (heldAliasClasses (inputHeld i)) \<and>
        (\<exists>due date. localDate (paymentDate s) = Some due \<and> localDate (occurred (inputDebit d)) = Some date \<and>
           withinWindow p (the (parseLocalDate due)) date))"

lemma proposed_plan:
  assumes "validAllocationPolicy p" and "plan \<in> set (planAll p i)" and "outcomeOf plans plan = Proposed a"
  obtains s ms where "planStatement plan = Some s" "planCandidates plan = [ms]"
    "a = statementAllocationOf s (js_sort byRef ms)"
    "allocates admAmount (statementAmount s) (maxDebitsPerAllocation p) ms"
    "ms \<in> set (subseqs (js_sort (amount_then_ref admInput) (planInWindow plan)))"
    "set ms \<subseteq> set (planInWindow plan)"
    "\<forall>d\<in>set ms. statementsByDebit plans (debitId (admInput d)) \<le> 1"
proof -
  from assms(3) obtain s ms where s: "planStatement plan = Some s" "planCandidates plan = [ms]"
    "a = statementAllocationOf s (js_sort byRef ms)"
    "\<forall>d\<in>set ms. statementsByDebit plans (debitId (admInput d)) \<le> 1"
    unfolding outcome_proposed by blast
  have "ms \<in> set (filter (allocates admAmount (statementAmount s) (maxDebitsPerAllocation p))
      (subseqs (js_sort (amount_then_ref admInput) (planInWindow plan))))"
    using planned_candidates(1) [OF assms(1,2) s(1)] s(2) by (metis list.set_intros(1))
  then have "allocates admAmount (statementAmount s) (maxDebitsPerAllocation p) ms"
    "ms \<in> set (subseqs (js_sort (amount_then_ref admInput) (planInWindow plan)))" by simp_all
  with s in_subseqs_set [OF this(2)] that show thesis by simp
qed

definition proposed_members :: "AllocationRun \<Rightarrow> AllocationMember list" where
  "proposed_members run =
     (case run of
        RunRefused _ \<Rightarrow> []
      | RunPlanned _ results _ \<Rightarrow>
          concat (map (\<lambda>r. case resultOutcome r of Proposed a \<Rightarrow> members a | _ \<Rightarrow> []) results))"

lemma distinct_concat_map:
  assumes "\<And>x. x \<in> set xs \<Longrightarrow> distinct (g x)"
    and "\<And>v. length (filter (\<lambda>x. v \<in> set (g x)) xs) \<le> 1"
  shows "distinct (concat (map g xs))"
  using assms
proof (induction xs)
  case (Cons x xs)
  have "length (filter (\<lambda>x. v \<in> set (g x)) xs) \<le> 1" for v
    using Cons.prems(2) [of v] by (auto split: if_splits)
  then have "distinct (concat (map g xs))" using Cons.IH Cons.prems(1) by simp
  moreover have "set (g x) \<inter> set (concat (map g xs)) = {}"
  proof -
    have "y \<notin> set xs" if "v \<in> set (g x)" "v \<in> set (g y)" for v y
      using that Cons.prems(2) [of v] by (auto simp: filter_empty_conv)
    then show ?thesis by auto
  qed
  ultimately show ?case using Cons.prems(1) [of x] by simp
qed simp

definition plan_members :: "Planned list \<Rightarrow> Planned \<Rightarrow> AllocationMember list" where
  "plan_members plans plan = (case outcomeOf plans plan of Proposed a \<Rightarrow> members a | _ \<Rightarrow> [])"

lemma plan_members_cases:
  assumes "validAllocationPolicy p" and "plan \<in> set (planAll p i)" and "plan_members plans plan \<noteq> []"
  obtains ms where "planCandidates plan = [ms]" "plan_members plans plan = map memberOf (js_sort byRef ms)"
    "distinct ms" "set ms \<subseteq> set (admAdmitted (admitDebits (inputDebits i) (inputHeld i)))"
    "\<forall>d\<in>set ms. statementsByDebit plans (debitId (admInput d)) \<le> 1"
proof -
  from assms(3) obtain a where a: "outcomeOf plans plan = Proposed a"
    by (auto simp: plan_members_def split: StatementOutcome.splits)
  from proposed_plan [OF assms(1,2) a] obtain s ms where s: "planStatement plan = Some s"
    "planCandidates plan = [ms]" "a = statementAllocationOf s (js_sort byRef ms)"
    "ms \<in> set (subseqs (js_sort (amount_then_ref admInput) (planInWindow plan)))"
    "set ms \<subseteq> set (planInWindow plan)"
    "\<forall>d\<in>set ms. statementsByDebit plans (debitId (admInput d)) \<le> 1" .
  have in_adm: "set (planInWindow plan) \<subseteq> set (admAdmitted (admitDebits (inputDebits i) (inputHeld i)))"
    using planned_candidates(2) [OF assms(1,2) s(1)] by blast
  from assms(2) s(1) obtain item due where "plan = searchPlan p
      (admAdmitted (admitDebits (inputDebits i) (inputHeld i)))
      (admCompeting (admitDebits (inputDebits i) (inputHeld i))) item (the (parseLocalDate due))"
    by (rule planned_search)
  then have "distinct (planInWindow plan)"
    using admitted_distinct(1) [OF refl, of "inputDebits i" "inputHeld i"]
    by (simp add: searchPlan_def Let_def distinct_map)
  then have "distinct (js_sort (amount_then_ref admInput) (planInWindow plan))"
    using distinct_js_sort [of id] by (metis list.map_id)
  then have "distinct ms" using s(4) by (rule subseqs_distinctD [rotated])
  with that s in_adm show thesis
    by (simp add: plan_members_def a allocation_members)
qed

lemma plan_members_distinct:
  assumes p: "validAllocationPolicy p"
    and f: "distinct (map (\<lambda>d. f (memberOf d)) (admAdmitted (admitDebits (inputDebits i) (inputHeld i))))"
  shows "distinct (concat (map (\<lambda>plan. map f (plan_members (planAll p i) plan)) (planAll p i)))"
proof (rule distinct_concat_map)
  let ?plans = "planAll p i" and ?adm = "set (admAdmitted (admitDebits (inputDebits i) (inputHeld i)))"
  have inj: "inj_on (\<lambda>d. f (memberOf d)) ?adm" using f by (simp add: distinct_map)
  fix plan assume plan: "plan \<in> set ?plans"
  show "distinct (map f (plan_members ?plans plan))"
  proof (cases "plan_members ?plans plan = []")
    case False
    obtain ms where "plan_members ?plans plan = map memberOf (js_sort byRef ms)" "distinct ms" "set ms \<subseteq> ?adm"
      by (rule plan_members_cases [OF p plan False])
    moreover from this have "distinct (map (\<lambda>d. f (memberOf d)) ms)"
      using inj_on_subset [OF inj] by (simp add: distinct_map)
    ultimately show ?thesis by (simp add: comp_def)
  qed simp
next
  let ?plans = "planAll p i" and ?adm = "set (admAdmitted (admitDebits (inputDebits i) (inputHeld i)))"
  have inj: "inj_on (\<lambda>d. f (memberOf d)) ?adm" using f by (simp add: distinct_map)
  have used: "\<exists>d\<in>?adm. f (memberOf d) = v \<and> uses plan (debitId (admInput d)) \<and>
      statementsByDebit ?plans (debitId (admInput d)) \<le> 1"
    if plan: "plan \<in> set ?plans" and v: "v \<in> set (map f (plan_members ?plans plan))" for plan v
  proof -
    from v have "plan_members ?plans plan \<noteq> []" by auto
    from plan_members_cases [OF p plan this] obtain ms where ms: "planCandidates plan = [ms]"
      "plan_members ?plans plan = map memberOf (js_sort byRef ms)" "set ms \<subseteq> ?adm"
      "\<forall>d\<in>set ms. statementsByDebit ?plans (debitId (admInput d)) \<le> 1" .
    from v ms(2) obtain d where "d \<in> set ms" "f (memberOf d) = v" by auto
    with ms show ?thesis by (auto simp: uses_def list_ex_iff)
  qed
  fix v
  let ?in = "\<lambda>plan. v \<in> set (map f (plan_members ?plans plan))"
  show "length (filter ?in ?plans) \<le> 1"
  proof (cases "\<exists>plan\<in>set ?plans. ?in plan")
    case True
    then obtain d where d: "d \<in> ?adm" "f (memberOf d) = v" "statementsByDebit ?plans (debitId (admInput d)) \<le> 1"
      using used by meson
    have sub: "uses plan (debitId (admInput d))" if "plan \<in> set ?plans" "?in plan" for plan
      using used [OF that] d(1,2) inj by (auto dest: inj_onD)
    have "filter ?in ?plans = filter ?in (filter (\<lambda>plan. uses plan (debitId (admInput d))) ?plans)"
      using sub by (auto intro!: filter_cong)
    then have "length (filter ?in ?plans) \<le> statementsByDebit ?plans (debitId (admInput d))"
      unfolding statementsByDebit_def by (metis length_filter_le)
    with d(3) show ?thesis by linarith
  next
    case False
    then have "filter ?in ?plans = []" by (simp add: filter_empty_conv)
    then show ?thesis by simp
  qed
qed

lemma proposed_members_distinct:
  assumes "distinct (map (\<lambda>d. f (memberOf d)) (admAdmitted (admitDebits (inputDebits i) (inputHeld i))))"
  shows "distinct (map f (proposed_members (planCardStatementAllocations i)))"
proof (cases "planCardStatementAllocations i")
  case (RunPlanned m results excl)
  then obtain p where p: "validAllocationPolicy p"
    "results = js_sort resultOrder (map (resultOf (planAll p i)) (planAll p i))" by (rule run_results)
  let ?h = "\<lambda>r. map f (case resultOutcome r of Proposed a \<Rightarrow> members a | _ \<Rightarrow> [])"
  have "map f (proposed_members (planCardStatementAllocations i)) = concat (map ?h results)"
    by (simp add: proposed_members_def RunPlanned map_concat comp_def)
  moreover have "mset (concat (map ?h results)) = mset (concat (map ?h (map (resultOf (planAll p i)) (planAll p i))))"
    unfolding p(2) mset_concat_map by simp
  moreover have "map ?h (map (resultOf (planAll p i)) (planAll p i)) =
      map (\<lambda>plan. map f (plan_members (planAll p i) plan)) (planAll p i)"
    by (simp add: resultOf_def plan_members_def)
  ultimately show ?thesis
    using plan_members_distinct [OF p(1) assms] by (metis mset_eq_imp_distinct_iff)
qed (simp add: proposed_members_def)

end
