(* ===== verification/Card_Allocation_Contract.thy ===== *)
theory Card_Allocation_Contract
  imports Card_Allocation
begin

text \<open>
  What the statement allocation planner promises: proposals are exact, unique and never share a debit,
  the pruned search equals the reference, and what its output depends on.
\<close>

text \<open>
  Property C37: no debit is proposed twice. Over all the statements of a run, and inside one allocation,
  the proposed members have pairwise different references, bank keys and alias classes, so adopting
  every proposal of a run uses each bank movement once.
\<close>

theorem no_debit_proposed_twice:
  "distinct (map (\<lambda>m. factId (memberRef m)) (proposed_members (planCardStatementAllocations i))) \<and>
   distinct (map memberBankKey (proposed_members (planCardStatementAllocations i))) \<and>
   distinct (map memberAliasClass (proposed_members (planCardStatementAllocations i)))"
  by (intro conjI proposed_members_distinct)
    (use admitted_distinct [OF refl, of "inputDebits i" "inputHeld i"] in
      \<open>simp_all only: memberOf_simps debitId_def [symmetric]\<close>)

section \<open>A concrete run\<close>

definition ex_statement :: "string \<Rightarrow> string \<Rightarrow> string \<Rightarrow> int \<Rightarrow> AllocationStatementInput" where
  "ex_statement ref revision key amount =
     \<lparr>inputStatement = \<lparr>statementRef = \<lparr>factKind = BalanceKind, factId = ref, factRevision = revision\<rparr>,
        statementSourceId = ''vpass'', statementSourceAccount = ''card'', statementAccountId = None,
        statementOwnerRef = None, statementAmount = exactQuantity ''JPY'' (integerDecimal amount),
        paymentDate = LocalDate ''2024-01-05'' None Provider, statementPeriod = None\<rparr>,
      statementKey = key\<rparr>"

definition ex_debit :: "string \<Rightarrow> string \<Rightarrow> int \<Rightarrow> AllocationDebitInput" where
  "ex_debit ref key amount =
     \<lparr>inputDebit = \<lparr>debitRef = \<lparr>factKind = TransactionKind, factId = ref, factRevision = ''1''\<rparr>,
        debitSourceId = ''bank'', debitSourceAccount = ''account'', debitAccountId = None,
        debitOwnerRef = None, debitAmount = exactQuantity ''JPY'' (integerDecimal amount),
        occurred = LocalDate ''2024-01-06'' None Provider\<rparr>,
      bankKey = key, aliasClass = Some key\<rparr>"

definition ex_policy_v1 :: AllocationPolicy where
  "ex_policy_v1 = \<lparr>policyVersion = ''v1'', minDaysFromDue = 0, maxDaysFromDue = 3, maxDebitsPerAllocation = 2\<rparr>"

definition ex_allocation :: "AllocationStatementInput list \<Rightarrow> AllocationInput" where
  "ex_allocation statements =
     \<lparr>inputStatements = statements,
      inputDebits = [ex_debit ''b'' ''k2'' 3, ex_debit ''a'' ''k1'' 2],
      inputPolicy = Some ex_policy_v1,
      inputHeld = \<lparr>heldBankKeys = [], heldAliasClasses = [], heldStatementKeys = []\<rparr>\<rparr>"

definition ex_admitted :: "string \<Rightarrow> string \<Rightarrow> int \<Rightarrow> AdmittedDebit" where
  "ex_admitted ref key amount = \<lparr>admInput = ex_debit ref key amount, admAlias = key, admDate = ''2024-01-06''\<rparr>"

definition ex_plan :: Planned where
  "ex_plan = \<lparr>planRef = Some \<lparr>factKind = BalanceKind, factId = ''s'', factRevision = ''1''\<rparr>, planKey = Some ''m1'',
     planRefusal = None, planPairs = [], planStatement = Some (inputStatement (ex_statement ''s'' ''1'' ''m1'' 5)),
     planCandidates = [[ex_admitted ''a'' ''k1'' 2, ex_admitted ''b'' ''k2'' 3]],
     planInWindow = [ex_admitted ''a'' ''k1'' 2, ex_admitted ''b'' ''k2'' 3], planCompetes = False\<rparr>"

definition ex_paid :: StatementAllocation where
  "ex_paid = statementAllocationOf (inputStatement (ex_statement ''s'' ''1'' ''m1'' 5))
     [ex_admitted ''a'' ''k1'' 2, ex_admitted ''b'' ''k2'' 3]"

definition ex_manifest_v1 :: AllocationManifest where
  "ex_manifest_v1 = \<lparr>manifestRelease = CARD_STATEMENT_ALLOCATION_RELEASE, manifestPolicyVersion = ''v1'',
     arithmeticVersion = ARITHMETIC_POLICY_VERSION\<rparr>"

definition ex_result :: StatementResult where
  "ex_result = \<lparr>resultStatementRef = Some \<lparr>factKind = BalanceKind, factId = ''s'', factRevision = ''1''\<rparr>,
     resultStatementKey = Some ''m1'', resultOutcome = Proposed ex_paid, pairExclusions = []\<rparr>"

lemma ex_plans: "planAll ex_policy_v1 (ex_allocation [ex_statement ''s'' ''1'' ''m1'' 5]) = [ex_plan]"
  by code_simp

lemma ex_outcome: "outcomeOf [ex_plan] ex_plan = Proposed ex_paid"
  by code_simp

lemma ex_policy_valid: "validAllocationPolicy ex_policy_v1"
  by code_simp

lemma ex_exclusions:
  "admExclusions (admitDebits (inputDebits (ex_allocation statements)) (inputHeld (ex_allocation statements))) = []"
proof -
  have "admExclusions (admitDebits (inputDebits (ex_allocation [])) (inputHeld (ex_allocation []))) = []" by code_simp
  then show ?thesis by (simp add: ex_allocation_def)
qed

lemma ex_allocation_run:
  "planCardStatementAllocations (ex_allocation [ex_statement ''s'' ''1'' ''m1'' 5]) =
     RunPlanned ex_manifest_v1 [ex_result] []"
proof -
  let ?i = "ex_allocation [ex_statement ''s'' ''1'' ''m1'' 5]"
  have "inputPolicy ?i = Some ex_policy_v1" "length (inputStatements ?i) = 1" "length (inputDebits ?i) = 2"
    by (simp_all add: ex_allocation_def)
  moreover have "resultOf [ex_plan] ex_plan = ex_result"
    by (simp add: resultOf_def ex_outcome ex_result_def) (simp add: ex_plan_def)
  ultimately show ?thesis
    by (simp add: planCardStatementAllocations_def ex_policy_valid ex_plans ex_exclusions ex_manifest_v1_def
        CARD_STATEMENT_ALLOCATION_STATEMENTS_MAX_def CARD_STATEMENT_ALLOCATION_DEBITS_MAX_def)
      (simp add: ex_policy_v1_def)
qed

section \<open>The search\<close>

text \<open>
  Property C13: the pruned search is complete and sound. For every planned statement its candidates are
  exactly the sub-lists of the in-window debits, ordered by amount and reference, that have one to the
  policy's maximum of members and add up to the statement's amount; and the statement is proposed
  exactly when there is one of them, no excluded debit competes, and no member is in a candidate of
  another statement.
\<close>

theorem search_equals_reference:
  assumes "validAllocationPolicy p" and "plan \<in> set (planAll p i)" and "planStatement plan = Some s"
  shows "planCandidates plan =
      filter (allocates admAmount (statementAmount s) (maxDebitsPerAllocation p))
        (subseqs (js_sort (amount_then_ref admInput) (planInWindow plan))) \<and>
    ((\<exists>a. outcomeOf (planAll p i) plan = Proposed a) \<longleftrightarrow>
      (\<exists>ms. planCandidates plan = [ms] \<and> \<not> planCompetes plan \<and>
        list_all (\<lambda>d. statementsByDebit (planAll p i) (debitId (admInput d)) \<le> 1) ms))"
  using planned_candidates(1) [OF assms] assms(3) by (auto simp: outcome_proposed list_all_iff)

lemma search_equals_reference_witness:
  "planCandidates ex_plan =
      filter (allocates admAmount (exactQuantity ''JPY'' (integerDecimal 5)) 2)
        (subseqs (js_sort (amount_then_ref admInput) [ex_admitted ''a'' ''k1'' 2, ex_admitted ''b'' ''k2'' 3]))"
proof -
  let ?s = "ex_statement ''s'' ''1'' ''m1'' 5"
  have plan: "ex_plan \<in> set (planAll ex_policy_v1 (ex_allocation [?s]))"
    "planStatement ex_plan = Some (inputStatement ?s)"
    by (simp only: ex_plans list.set insert_iff simp_thms, simp add: ex_plan_def)
  have parts: "statementAmount (inputStatement ?s) = exactQuantity ''JPY'' (integerDecimal 5)"
    "maxDebitsPerAllocation ex_policy_v1 = 2"
    "planInWindow ex_plan = [ex_admitted ''a'' ''k1'' 2, ex_admitted ''b'' ''k2'' 3]"
    by (simp_all only: ex_statement_def ex_policy_v1_def ex_plan_def AllocationStatementInput.simps
        CardStatementFact.simps AllocationPolicy.simps Planned.simps)
  show ?thesis
    using search_equals_reference [OF ex_policy_valid plan, THEN conjunct1] unfolding parts .
qed

section \<open>A proposal\<close>

text \<open>
  Property C12: a proposal pays its statement exactly, with admitted debits only. It belongs to one of the
  statements given, whose key is not already allocated; its members are one to the policy's maximum of
  the debits given, each positive, in the statement's unit, with an admitted identity that is not held,
  dated inside the policy's window, and their amounts add up to the statement's.
\<close>

theorem proposal_pays_statement:
  assumes "planCardStatementAllocations i = RunPlanned m results excl"
    and "r \<in> set results" and "resultOutcome r = Proposed a"
  shows "\<exists>p item. inputPolicy i = Some p \<and> item \<in> set (inputStatements i) \<and>
    statementKey item \<notin> set (heldStatementKeys (inputHeld i)) \<and>
    resultStatementKey r = Some (statementKey item) \<and>
    statementTotal a = statementAmount (inputStatement item) \<and>
    members a \<noteq> [] \<and> int (length (members a)) \<le> maxDebitsPerAllocation p \<and>
    value_of allocatedAmount (members a) = amount_value (statementTotal a) \<and>
    list_all (admitted_for i p (inputStatement item)) (members a)"
proof -
  from run_results [OF assms(1)] obtain p where p: "inputPolicy i = Some p" "validAllocationPolicy p"
    "results = js_sort resultOrder (map (resultOf (planAll p i)) (planAll p i))" .
  from assms(2) p(3) obtain plan where plan: "plan \<in> set (planAll p i)" "r = resultOf (planAll p i) plan"
    by auto
  with assms(3) have "outcomeOf (planAll p i) plan = Proposed a" by (simp add: resultOf_def)
  from proposed_plan [OF p(2) plan(1) this] obtain s ms where s: "planStatement plan = Some s"
    "a = statementAllocationOf s (js_sort byRef ms)"
    "allocates admAmount (statementAmount s) (maxDebitsPerAllocation p) ms" "set ms \<subseteq> set (planInWindow plan)" .
  from planned_search [OF plan(1) s(1)] obtain item due where item: "item \<in> set (inputStatements i)"
    "inputStatement item = s" "statementKey item \<notin> set (heldStatementKeys (inputHeld i))"
    "plan = searchPlan p (admAdmitted (admitDebits (inputDebits i) (inputHeld i)))
       (admCompeting (admitDebits (inputDebits i) (inputHeld i))) item (the (parseLocalDate due))" .
  have "resultStatementKey r = Some (statementKey item)"
    by (simp add: plan(2) resultOf_def item(4) searchPlan_def Let_def)
  moreover have "admitted_for i p s (memberOf d)" if "d \<in> set ms" for d
  proof -
    from that s(4) have d: "d \<in> set (admAdmitted (admitDebits (inputDebits i) (inputHeld i)))"
      "payable_in (unitRef (statementAmount s)) (admAmount d)"
      "\<exists>due. localDate (paymentDate s) = Some due \<and> withinWindow p (the (parseLocalDate due)) (admDate d)"
      using planned_candidates(2) [OF p(2) plan(1) s(1)] by blast+
    show ?thesis
      unfolding admitted_for_def memberOf_simps
      by (rule bexI [OF _ admitted_debits(1) [OF d(1)]]) (use d admitted_debits [OF d(1)] in simp)
  qed
  ultimately show ?thesis
    using p(1) item s(3)
    by (intro exI [of _ p] exI [of _ item])
      (auto simp: s(2) allocation_members value_of_members allocates_def list_all_iff)
qed

lemma proposal_pays_statement_witness:
  "value_of allocatedAmount (members ex_paid) = amount_value (exactQuantity ''JPY'' (integerDecimal 5)) \<and>
   members ex_paid \<noteq> []"
  using proposal_pays_statement [OF ex_allocation_run, of ex_result ex_paid]
  by (auto simp: ex_result_def ex_paid_def allocation_members ex_statement_def)

section \<open>What the output depends on\<close>

text \<open>
  The output is not independent of the order of the input. Two statements that share their
  reference id and key but not the revision of their reference are both refused as repeated; the results
  are sorted by id, key and code only, so these two keep the order in which they were given, and the
  same two statements in the other order give another output.
\<close>

theorem repeated_statements_keep_order:
  "planCardStatementAllocations
      ((ex_allocation [ex_statement ''s'' ''1'' ''m'' 5, ex_statement ''s'' ''2'' ''m'' 5])\<lparr>inputDebits := []\<rparr>) \<noteq>
    planCardStatementAllocations
      ((ex_allocation [ex_statement ''s'' ''2'' ''m'' 5, ex_statement ''s'' ''1'' ''m'' 5])\<lparr>inputDebits := []\<rparr>)"
  by code_simp

end
