(* ===== verification/Collection_Lease.thy ===== *)
theory Collection_Lease
  imports Kogane_Prelude
begin

text \<open>
  The execution lease of a source: \<open>packages/collection/src/schedule-lease.ts\<close> (claim, heartbeat,
  self-stop and release of one call of \<open>withCollectionLease\<close>) and the part of
  \<open>services/processor/src/schedule-store.ts\<close> that frees a silent lease or lets the operator release one.
  The SQL statements are functions on the row of one source that return how many rows they changed. The
  calls, the database and the clock interleave freely: a step relation, one rule per callback, statement
  or timer, in which a timer that is due runs before time goes on.
\<close>

section \<open>Clocks\<close>

record LeaseTiming =
  heartbeatMs :: int
  heartbeatLossMs :: int
  deadlineMs :: int
  graceMs :: int

definition LEASE_TIMING :: LeaseTiming where
  "LEASE_TIMING = \<lparr>heartbeatMs = 60000, heartbeatLossMs = 3 * 60000, deadlineMs = 13 * 60000, graceMs = 30000\<rparr>"

definition LEASE_RELEASE_ATTEMPTS :: nat where
  "LEASE_RELEASE_ATTEMPTS = 3"

definition LEASE_STALE_MINUTES :: int where
  "LEASE_STALE_MINUTES = 10"

definition LEGACY_LEASE_STALE_MINUTES :: int where
  "LEGACY_LEASE_STALE_MINUTES = 60"

datatype LeaseAbortCode = Collection_deadline_exceeded | Collection_lease_lost

section \<open>The row of one source\<close>

record LeaseRow =
  leaseRef :: "string option"
  startedAt :: "int option"
  heartbeatAt :: "int option"

definition freeRow :: LeaseRow where
  "freeRow = \<lparr>leaseRef = None, startedAt = None, heartbeatAt = None\<rparr>"

definition claimLease :: "string \<Rightarrow> int \<Rightarrow> int \<Rightarrow> LeaseRow \<Rightarrow> LeaseRow \<times> nat" where
  "claimLease ref started now row =
     (if leaseRef row = None
      then (\<lparr>leaseRef = Some ref, startedAt = Some started, heartbeatAt = Some now\<rparr>, 1) else (row, 0))"

definition writeHeartbeat :: "string \<Rightarrow> int \<Rightarrow> LeaseRow \<Rightarrow> LeaseRow \<times> nat" where
  "writeHeartbeat ref now row =
     (if leaseRef row = Some ref then (row\<lparr>heartbeatAt := Some now\<rparr>, 1) else (row, 0))"

definition releaseOwn :: "string \<Rightarrow> LeaseRow \<Rightarrow> LeaseRow \<times> nat" where
  "releaseOwn ref row = (if leaseRef row = Some ref then (freeRow, 1) else (row, 0))"

definition ownHeartbeat :: "LeaseRow \<Rightarrow> bool" where
  "ownHeartbeat row \<longleftrightarrow>
     (case heartbeatAt row of
        None \<Rightarrow> False
      | Some beat \<Rightarrow> (case startedAt row of None \<Rightarrow> True | Some started \<Rightarrow> started \<le> beat))"

definition staleLease :: "int \<Rightarrow> LeaseRow \<Rightarrow> bool" where
  "staleLease now row \<longleftrightarrow>
     leaseRef row \<noteq> None \<and>
     ((ownHeartbeat row \<and>
       (case heartbeatAt row of None \<Rightarrow> False | Some beat \<Rightarrow> beat < now - LEASE_STALE_MINUTES * 60000)) \<or>
      (\<not> ownHeartbeat row \<and>
       (case startedAt row of None \<Rightarrow> False
        | Some started \<Rightarrow> started < now - LEGACY_LEASE_STALE_MINUTES * 60000)))"

definition expireLease :: "string \<Rightarrow> int \<Rightarrow> LeaseRow \<Rightarrow> LeaseRow \<times> nat" where
  "expireLease ref now row =
     (if leaseRef row = Some ref \<and> staleLease now row then (freeRow, 1) else (row, 0))"

text \<open>
  The operator's request must say that the execution stopped; nothing checks that it did. A request for a row
  that is free already is satisfied.
\<close>

definition operatorRelease :: "string \<Rightarrow> bool \<Rightarrow> LeaseRow \<Rightarrow> LeaseRow \<times> nat" where
  "operatorRelease ref confirmedStopped row =
     (if confirmedStopped \<and> (leaseRef row = Some ref \<or> leaseRef row = None) then (freeRow, 1) else (row, 0))"

text \<open>
  What a call relies on: a claim takes a free row and only that, a renewal and a release touch the row
  of their own reference and no other.
\<close>

locale lease_store =
  fixes holder :: "'r \<Rightarrow> string option"
    and beat :: "'r \<Rightarrow> int option"
    and claim :: "string \<Rightarrow> int \<Rightarrow> int \<Rightarrow> 'r \<Rightarrow> 'r \<times> nat"
    and renew :: "string \<Rightarrow> int \<Rightarrow> 'r \<Rightarrow> 'r \<times> nat"
    and release :: "string \<Rightarrow> 'r \<Rightarrow> 'r \<times> nat"
  assumes claim_free: "holder r = None \<Longrightarrow> holder (fst (claim ref started now r)) = Some ref \<and>
      beat (fst (claim ref started now r)) = Some now \<and> snd (claim ref started now r) = 1"
    and claim_taken: "holder r \<noteq> None \<Longrightarrow> claim ref started now r = (r, 0)"
    and renew_own: "holder r = Some ref \<Longrightarrow> holder (fst (renew ref now r)) = Some ref \<and>
      beat (fst (renew ref now r)) = Some now \<and> snd (renew ref now r) = 1"
    and renew_foreign: "holder r \<noteq> Some ref \<Longrightarrow> renew ref now r = (r, 0)"
    and release_foreign: "holder r \<noteq> Some ref \<Longrightarrow> release ref r = (r, 0)"
    and release_own: "holder r = Some ref \<Longrightarrow> holder (fst (release ref r)) = None"
begin

text \<open>Whoever holds the lease keeps it, whatever the others do, and its heartbeat only moves by its own writes.\<close>

definition held_since :: "string \<Rightarrow> int \<Rightarrow> 'r \<Rightarrow> bool" where
  "held_since ref since r \<longleftrightarrow> holder r = Some ref \<and> (\<exists>h. beat r = Some h \<and> since \<le> h)"

lemma held_since_mono: "held_since ref since r \<Longrightarrow> since' \<le> since \<Longrightarrow> held_since ref since' r"
  by (auto simp: held_since_def)

lemma held_claim: "held_since ref since r \<Longrightarrow> held_since ref since (fst (claim other started now r))"
  by (simp add: held_since_def claim_taken)

lemma held_renew:
  "held_since ref since r \<Longrightarrow> since \<le> now \<Longrightarrow> held_since ref since (fst (renew other now r))"
  by (cases "other = ref") (auto simp: held_since_def renew_own renew_foreign)

lemma held_release: "held_since ref since r \<Longrightarrow> other \<noteq> ref \<Longrightarrow> held_since ref since (fst (release other r))"
  by (simp add: held_since_def release_foreign)

lemma claim_holds: "snd (claim ref started now r) = 1 \<Longrightarrow> held_since ref now (fst (claim ref started now r))"
  by (cases "holder r = None") (auto simp: held_since_def claim_free claim_taken)

lemma renew_holds: "snd (renew ref now r) = 1 \<Longrightarrow> held_since ref now (fst (renew ref now r))"
  by (cases "holder r = Some ref") (auto simp: held_since_def renew_own renew_foreign)

lemma one_holder: "held_since a s r \<Longrightarrow> held_since b t r \<Longrightarrow> a = b"
  by (simp add: held_since_def)

end

interpretation rows: lease_store leaseRef heartbeatAt claimLease writeHeartbeat releaseOwn
  by unfold_locales (auto simp: claimLease_def writeHeartbeat_def releaseOwn_def freeRow_def)

text \<open>Whatever the clock of the claiming isolate says, a lease is stale only ten minutes after its heartbeat.\<close>

lemma stale_is_silent:
  assumes "staleLease now row" and "heartbeatAt row = Some h"
  shows "h < now - LEASE_STALE_MINUTES * 60000"
  using assms
  by (auto simp: staleLease_def ownHeartbeat_def LEASE_STALE_MINUTES_def LEGACY_LEASE_STALE_MINUTES_def
      split: option.splits)

section \<open>One call\<close>

text \<open>A heartbeat statement: when it was sent, what it changed once it ran, and what became of its promise.\<close>

datatype BeatFate = Awaited | Answered | Failed

record Beat =
  beatSent :: int
  beatChanges :: "nat option"
  beatFate :: BeatFate

datatype Stage =
    Claiming | Acting | Releasing nat | Ended

record Execution =
  startedText :: int
  claimSentMs :: int
  claimChanges :: "nat option"
  stage :: Stage
  actingSince :: int
  lastBeatMs :: int
  nextBeatMs :: int
  deadlineAt :: "int option"
  graceAt :: "int option"
  aborted :: "LeaseAbortCode option"
  forceFired :: bool
  beats :: "Beat list"

definition newExecution :: "int \<Rightarrow> int \<Rightarrow> Execution" where
  "newExecution started now = \<lparr>startedText = started, claimSentMs = now, claimChanges = None,
     stage = Claiming, actingSince = now, lastBeatMs = now, nextBeatMs = now, deadlineAt = None,
     graceAt = None, aborted = None, forceFired = False, beats = []\<rparr>"

definition startActing :: "LeaseTiming \<Rightarrow> int \<Rightarrow> Execution \<Rightarrow> Execution" where
  "startActing T now e = e\<lparr>stage := Acting, actingSince := now, lastBeatMs := claimSentMs e,
     nextBeatMs := now + heartbeatMs T, deadlineAt := Some (now + deadlineMs T)\<rparr>"

definition abortWith :: "LeaseTiming \<Rightarrow> LeaseAbortCode \<Rightarrow> int \<Rightarrow> Execution \<Rightarrow> Execution" where
  "abortWith T code now e =
     (if stage e \<noteq> Acting \<or> aborted e \<noteq> None then e
      else e\<lparr>aborted := Some code, graceAt := Some (now + graceMs T)\<rparr>)"

definition beatLost :: "LeaseTiming \<Rightarrow> int \<Rightarrow> Execution \<Rightarrow> bool" where
  "beatLost T now e \<longleftrightarrow> heartbeatLossMs T \<le> now - lastBeatMs e"

definition onInterval :: "LeaseTiming \<Rightarrow> int \<Rightarrow> Execution \<Rightarrow> Execution" where
  "onInterval T now e =
     (let e' = (if beatLost T now e then abortWith T Collection_lease_lost now e else e)
      in e'\<lparr>beats := beats e' @ [\<lparr>beatSent = now, beatChanges = None, beatFate = Awaited\<rparr>],
            nextBeatMs := now + heartbeatMs T\<rparr>)"

definition onBeatAnswer :: "LeaseTiming \<Rightarrow> int \<Rightarrow> nat \<Rightarrow> int \<Rightarrow> Execution \<Rightarrow> Execution" where
  "onBeatAnswer T now changes sent e =
     (if changes \<noteq> 1 then abortWith T Collection_lease_lost now e
      else e\<lparr>lastBeatMs := max (lastBeatMs e) sent\<rparr>)"

definition onBeatError :: "LeaseTiming \<Rightarrow> int \<Rightarrow> Execution \<Rightarrow> Execution" where
  "onBeatError T now e = (if beatLost T now e then abortWith T Collection_lease_lost now e else e)"

definition onDeadline :: "LeaseTiming \<Rightarrow> int \<Rightarrow> Execution \<Rightarrow> Execution" where
  "onDeadline T now e = (abortWith T Collection_deadline_exceeded now e)\<lparr>deadlineAt := None\<rparr>"

text \<open>The grace timer: the call fails. Where the platform or \<open>forceStop\<close> ends the execution, it ends with it.\<close>

definition onGrace :: "bool \<Rightarrow> Execution \<Rightarrow> Execution" where
  "onGrace stopped e = e\<lparr>graceAt := None, forceFired := True, stage := (if stopped then Ended else stage e)\<rparr>"

definition onSettled :: "Execution \<Rightarrow> Execution" where
  "onSettled e = e\<lparr>stage := Releasing 1\<rparr>"

definition onReleaseError :: "Execution \<Rightarrow> Execution" where
  "onReleaseError e =
     e\<lparr>stage := (case stage e of
         Releasing n \<Rightarrow> if n < LEASE_RELEASE_ATTEMPTS then Releasing (Suc n) else Ended
       | other \<Rightarrow> other)\<rparr>"

definition setBeat :: "nat \<Rightarrow> Beat \<Rightarrow> Execution \<Rightarrow> Execution" where
  "setBeat i b e = e\<lparr>beats := (beats e)[i := b]\<rparr>"

section \<open>The interleaving\<close>

text \<open>
  \<open>cleared\<close> is not in the program: it notes when the operator cleared the lease a reference held, so that the
  properties can tell a call that lost its lease in this way.
\<close>

record LeaseState =
  clock :: int
  row :: LeaseRow
  execs :: "string \<rightharpoonup> Execution"
  cleared :: "string \<rightharpoonup> int"

definition put :: "string \<Rightarrow> Execution \<Rightarrow> LeaseState \<Rightarrow> LeaseState" where
  "put ref e s = s\<lparr>execs := (execs s)(ref \<mapsto> e)\<rparr>"

definition noteRelease :: "string \<Rightarrow> bool \<Rightarrow> LeaseState \<Rightarrow> string \<rightharpoonup> int" where
  "noteRelease ref confirmed s =
     (if confirmed \<and> leaseRef (row s) = Some ref then (cleared s)(ref \<mapsto> clock s) else cleared s)"

text \<open>
  Time goes on only when no timer is due, and a claim is answered or fails within \<open>answer\<close> milliseconds:
  that is the database's bound on one statement, a parameter of the model.
\<close>

definition may_wait :: "int \<Rightarrow> int \<Rightarrow> Execution \<Rightarrow> bool" where
  "may_wait answer now e \<longleftrightarrow>
     (stage e = Claiming \<longrightarrow> now < claimSentMs e + answer) \<and>
     (stage e = Acting \<longrightarrow> now < nextBeatMs e \<and> (\<forall>t. deadlineAt e = Some t \<longrightarrow> now < t) \<and>
        (\<forall>t. graceAt e = Some t \<longrightarrow> now < t))"

text \<open>
  \<open>stops\<close> tells the calls whose execution ends with the grace timer (\<open>forceStop\<close> is given, or a plain
  Worker call) from those whose action runs on. A statement may run late, after its answer was given up;
  the operator may release any reference at any time, that of a running execution too.
\<close>

inductive lease_step :: "LeaseTiming \<Rightarrow> int \<Rightarrow> (string \<Rightarrow> bool) \<Rightarrow> LeaseState \<Rightarrow> LeaseState \<Rightarrow> bool"
  for T answer stops
where
  wait: "(\<And>ref e. execs s ref = Some e \<Longrightarrow> may_wait answer (clock s) e) \<Longrightarrow>
    lease_step T answer stops s (s\<lparr>clock := clock s + 1\<rparr>)"
| begin_call: "execs s ref = None \<Longrightarrow>
    lease_step T answer stops s (put ref (newExecution started (clock s)) s)"
| claim_runs: "execs s ref = Some e \<Longrightarrow> claimChanges e = None \<Longrightarrow>
    claimLease ref (startedText e) (clock s) (row s) = (r, n) \<Longrightarrow>
    lease_step T answer stops s (put ref (e\<lparr>claimChanges := Some n\<rparr>) (s\<lparr>row := r\<rparr>))"
| claim_won: "execs s ref = Some e \<Longrightarrow> stage e = Claiming \<Longrightarrow> claimChanges e = Some 1 \<Longrightarrow>
    lease_step T answer stops s (put ref (startActing T (clock s) e) s)"
| claim_busy: "execs s ref = Some e \<Longrightarrow> stage e = Claiming \<Longrightarrow> claimChanges e = Some n \<Longrightarrow> n \<noteq> 1 \<Longrightarrow>
    lease_step T answer stops s (put ref (e\<lparr>stage := Ended\<rparr>) s)"
| claim_failed: "execs s ref = Some e \<Longrightarrow> stage e = Claiming \<Longrightarrow>
    lease_step T answer stops s (put ref (e\<lparr>stage := Releasing 1\<rparr>) s)"
| interval: "execs s ref = Some e \<Longrightarrow> stage e = Acting \<Longrightarrow> nextBeatMs e = clock s \<Longrightarrow>
    lease_step T answer stops s (put ref (onInterval T (clock s) e) s)"
| beat_runs: "execs s ref = Some e \<Longrightarrow> i < length (beats e) \<Longrightarrow> beatChanges (beats e ! i) = None \<Longrightarrow>
    writeHeartbeat ref (clock s) (row s) = (r, n) \<Longrightarrow>
    lease_step T answer stops s
      (put ref (setBeat i ((beats e ! i)\<lparr>beatChanges := Some n\<rparr>) e) (s\<lparr>row := r\<rparr>))"
| beat_answered: "execs s ref = Some e \<Longrightarrow> stage e = Acting \<Longrightarrow> i < length (beats e) \<Longrightarrow>
    beatFate (beats e ! i) = Awaited \<Longrightarrow> beatChanges (beats e ! i) = Some n \<Longrightarrow>
    lease_step T answer stops s
      (put ref (setBeat i ((beats e ! i)\<lparr>beatFate := Answered\<rparr>)
        (onBeatAnswer T (clock s) n (beatSent (beats e ! i)) e)) s)"
| beat_failed: "execs s ref = Some e \<Longrightarrow> stage e = Acting \<Longrightarrow> i < length (beats e) \<Longrightarrow>
    beatFate (beats e ! i) = Awaited \<Longrightarrow>
    lease_step T answer stops s
      (put ref (setBeat i ((beats e ! i)\<lparr>beatFate := Failed\<rparr>) (onBeatError T (clock s) e)) s)"
| deadline: "execs s ref = Some e \<Longrightarrow> stage e = Acting \<Longrightarrow> deadlineAt e = Some (clock s) \<Longrightarrow>
    lease_step T answer stops s (put ref (onDeadline T (clock s) e) s)"
| grace: "execs s ref = Some e \<Longrightarrow> stage e = Acting \<Longrightarrow> graceAt e = Some (clock s) \<Longrightarrow>
    lease_step T answer stops s (put ref (onGrace (stops ref) e) s)"
| settle: "execs s ref = Some e \<Longrightarrow> stage e = Acting \<Longrightarrow>
    lease_step T answer stops s (put ref (onSettled e) s)"
| release_done: "execs s ref = Some e \<Longrightarrow> stage e = Releasing k \<Longrightarrow>
    releaseOwn ref (row s) = (r, n) \<Longrightarrow>
    lease_step T answer stops s (put ref (e\<lparr>stage := Ended\<rparr>) (s\<lparr>row := r\<rparr>))"
| release_failed: "execs s ref = Some e \<Longrightarrow> stage e = Releasing k \<Longrightarrow>
    r \<in> {row s, fst (releaseOwn ref (row s))} \<Longrightarrow>
    lease_step T answer stops s (put ref (onReleaseError e) (s\<lparr>row := r\<rparr>))"
| expire: "expireLease ref (clock s) (row s) = (r, 1) \<Longrightarrow>
    lease_step T answer stops s (s\<lparr>row := r\<rparr>)"
| operator: "operatorRelease ref confirmed (row s) = (r, n) \<Longrightarrow>
    lease_step T answer stops s (s\<lparr>row := r, cleared := noteRelease ref confirmed s\<rparr>)"

inductive lease_reachable :: "LeaseTiming \<Rightarrow> int \<Rightarrow> (string \<Rightarrow> bool) \<Rightarrow> LeaseState \<Rightarrow> bool"
  for T answer stops
where
  start: "lease_reachable T answer stops \<lparr>clock = t, row = freeRow, execs = Map.empty, cleared = Map.empty\<rparr>"
| step: "lease_reachable T answer stops s \<Longrightarrow> lease_step T answer stops s s' \<Longrightarrow>
    lease_reachable T answer stops s'"

section \<open>Invariants\<close>

text \<open>A live call: its action runs and its own stop has not fired.\<close>

definition live :: "(string \<Rightarrow> bool) \<Rightarrow> string \<Rightarrow> Execution \<Rightarrow> bool" where
  "live stops ref e \<longleftrightarrow> stage e = Acting \<and> (stops ref \<or> \<not> forceFired e)"

text \<open>The longest a lease may be without a heartbeat while its holder is live.\<close>

definition silence :: "LeaseTiming \<Rightarrow> int \<Rightarrow> int" where
  "silence T answer = max (heartbeatLossMs T) answer + heartbeatMs T"

definition timing_safe :: "LeaseTiming \<Rightarrow> int \<Rightarrow> bool" where
  "timing_safe T answer \<longleftrightarrow> 0 < heartbeatMs T \<and> 0 \<le> graceMs T \<and> 0 \<le> deadlineMs T \<and> 0 \<le> answer \<and>
     silence T answer + graceMs T \<le> LEASE_STALE_MINUTES * 60000"

definition clocks_ok :: "LeaseTiming \<Rightarrow> int \<Rightarrow> (string \<Rightarrow> bool) \<Rightarrow> string \<Rightarrow> int \<Rightarrow> Execution \<Rightarrow> bool" where
  "clocks_ok T answer stops ref now e \<longleftrightarrow>
     (stage e = Claiming \<longrightarrow> claimSentMs e \<le> now \<and> now \<le> claimSentMs e + answer \<and> graceAt e = None \<and>
        aborted e = None \<and> \<not> forceFired e \<and> beats e = [] \<and> deadlineAt e = None) \<and>
     (stage e = Acting \<longrightarrow>
        lastBeatMs e \<le> now \<and> now \<le> nextBeatMs e \<and> (\<forall>b\<in>set (beats e). beatSent b \<le> now) \<and> (\<forall>t. deadlineAt e = Some t \<longrightarrow> now \<le> t) \<and>
        actingSince e \<le> claimSentMs e + answer \<and>
        (stops ref \<longrightarrow> \<not> forceFired e) \<and>
        (aborted e = None \<longrightarrow> graceAt e = None \<and> \<not> forceFired e \<and>
           deadlineAt e = Some (actingSince e + deadlineMs T) \<and>
           nextBeatMs e \<le> lastBeatMs e + silence T answer) \<and>
        (aborted e \<noteq> None \<and> \<not> forceFired e \<longrightarrow>
           (\<exists>t. graceAt e = Some t \<and> now \<le> t \<and> t \<le> lastBeatMs e + silence T answer + graceMs T \<and>
              t \<le> actingSince e + deadlineMs T + graceMs T)))"

text \<open>
  What the row owes a call: a call that is live, or that won its claim and does not know it yet, holds it,
  unless the operator cleared its lease.
\<close>

definition row_ok :: "(string \<Rightarrow> bool) \<Rightarrow> int option \<Rightarrow> string \<Rightarrow> LeaseRow \<Rightarrow> Execution \<Rightarrow> bool" where
  "row_ok stops gone ref r e \<longleftrightarrow> gone \<noteq> None \<or>
     (stage e = Claiming \<and> claimChanges e = Some 1 \<longrightarrow> rows.held_since ref (claimSentMs e) r) \<and>
     (live stops ref e \<longrightarrow> rows.held_since ref (lastBeatMs e) r \<and>
        (\<forall>b\<in>set (beats e). beatChanges b = Some 1 \<longrightarrow> rows.held_since ref (beatSent b) r))"

definition lease_ok :: "LeaseTiming \<Rightarrow> int \<Rightarrow> (string \<Rightarrow> bool) \<Rightarrow> LeaseState \<Rightarrow> bool" where
  "lease_ok T answer stops s \<longleftrightarrow>
     (\<forall>ref e. execs s ref = Some e \<longrightarrow>
        clocks_ok T answer stops ref (clock s) e \<and> row_ok stops (cleared s ref) ref (row s) e)"

lemma put_simps [simp]:
  "clock (put ref e s) = clock s" "row (put ref e s) = row s" "execs (put ref e s) = (execs s)(ref \<mapsto> e)"
  "cleared (put ref e s) = cleared s"
  by (simp_all add: put_def)

lemma lease_okD:
  assumes "lease_ok T answer stops s" and "execs s ref = Some e"
  shows "clocks_ok T answer stops ref (clock s) e" "row_ok stops (cleared s ref) ref (row s) e"
  using assms by (auto simp: lease_ok_def)

text \<open>A step of one call: its own obligations, and that it leaves what the others hold.\<close>

lemma row_ok_mono:
  assumes "row_ok stops gone ref r e" and "clocks_ok T answer stops ref now e"
    and "\<And>since. since \<le> now \<Longrightarrow> rows.held_since ref since r \<Longrightarrow> rows.held_since ref since r'"
  shows "row_ok stops gone ref r' e"
  using assms(1,2) unfolding row_ok_def clocks_ok_def live_def by (blast intro: assms(3))

lemma lease_ok_call:
  assumes "lease_ok T answer stops s"
    and "clocks_ok T answer stops ref (clock s) e'" and "row_ok stops (cleared s ref) ref r e'"
    and "\<And>other since. other \<noteq> ref \<Longrightarrow> since \<le> clock s \<Longrightarrow>
      rows.held_since other since (row s) \<Longrightarrow> rows.held_since other since r"
  shows "lease_ok T answer stops (put ref e' (s\<lparr>row := r\<rparr>))"
proof -
  have "row_ok stops (cleared s other) other r f" if "other \<noteq> ref" "execs s other = Some f" for other f
    using row_ok_mono [OF lease_okD(2,1) [OF assms(1) that(2)]] assms(4) [OF that(1)] by blast
  then show ?thesis using assms(1-3) by (auto simp: lease_ok_def)
qed

lemma lease_ok_own:
  assumes "lease_ok T answer stops s"
    and "clocks_ok T answer stops ref (clock s) e'" and "row_ok stops (cleared s ref) ref (row s) e'"
  shows "lease_ok T answer stops (put ref e' s)"
  using lease_ok_call [OF assms(1,2), of "row s"] assms(3) by simp

lemma ended_ok [simp]:
  assumes "stage e \<noteq> Claiming" and "stage e \<noteq> Acting"
  shows "clocks_ok T answer stops ref now e" "row_ok stops gone ref r e"
  using assms by (simp_all add: clocks_ok_def row_ok_def live_def)

section \<open>Every step keeps them\<close>

lemma live_bound:
  assumes "clocks_ok T answer stops ref now e" and "live stops ref e" and "0 \<le> graceMs T"
  shows "now \<le> lastBeatMs e + silence T answer + graceMs T"
  using assms unfolding clocks_ok_def live_def by (cases "aborted e = None") force+

lemma abortWith_simps [simp]:
  "stage (abortWith T code now e) = stage e" "claimSentMs (abortWith T code now e) = claimSentMs e"
  "claimChanges (abortWith T code now e) = claimChanges e" "beats (abortWith T code now e) = beats e"
  "lastBeatMs (abortWith T code now e) = lastBeatMs e" "nextBeatMs (abortWith T code now e) = nextBeatMs e"
  "forceFired (abortWith T code now e) = forceFired e" "actingSince (abortWith T code now e) = actingSince e"
  "deadlineAt (abortWith T code now e) = deadlineAt e"
  by (simp_all add: abortWith_def)

lemma abort_ok:
  assumes "clocks_ok T answer stops ref now e" and "stage e = Acting" and "0 \<le> graceMs T"
    and "0 \<le> deadlineMs T"
  shows "clocks_ok T answer stops ref now (abortWith T code now e)"
  using assms by (auto simp: clocks_ok_def abortWith_def)

lemma clocks_setBeat:
  assumes "clocks_ok T answer stops ref now e" and "stage e = Acting" and "beatSent b \<le> now"
  shows "clocks_ok T answer stops ref now (setBeat i b e)"
proof -
  have "x \<in> set ((beats e)[i := b]) \<Longrightarrow> x = b \<or> x \<in> set (beats e)" for x
    using set_update_subset_insert [of "beats e" i b] by blast
  then show ?thesis using assms by (fastforce simp: clocks_ok_def setBeat_def)
qed

lemma wait_ok:
  assumes "clocks_ok T answer stops ref now e" and "may_wait answer now e"
  shows "clocks_ok T answer stops ref (now + 1) e"
  using assms unfolding clocks_ok_def may_wait_def by (cases "stage e") force+

lemma start_ok:
  assumes "clocks_ok T answer stops ref now e" and "stage e = Claiming" and "timing_safe T answer"
  shows "clocks_ok T answer stops ref now (startActing T now e)"
  using assms by (auto simp: clocks_ok_def startActing_def timing_safe_def silence_def)

lemma interval_ok:
  assumes "clocks_ok T answer stops ref now e" and "stage e = Acting" and "nextBeatMs e = now"
    and "timing_safe T answer"
  shows "clocks_ok T answer stops ref now (onInterval T now e)"
proof -
  define e' where "e' = (if beatLost T now e then abortWith T Collection_lease_lost now e else e)"
  have T: "0 < heartbeatMs T" "0 \<le> graceMs T" "0 \<le> deadlineMs T" using assms(4) by (simp_all add: timing_safe_def)
  have e': "clocks_ok T answer stops ref now e'" "stage e' = Acting"
    using abort_ok [OF assms(1,2) T(2,3)] assms(1,2) by (simp_all add: e'_def)
  have "aborted e' = None \<Longrightarrow> now - lastBeatMs e' < heartbeatLossMs T"
    using assms(2) by (auto simp: e'_def beatLost_def abortWith_def split: if_splits)
  then have "aborted e' = None \<Longrightarrow> now + heartbeatMs T \<le> lastBeatMs e' + silence T answer"
    by (simp add: silence_def)
  then show ?thesis
    using e' T(1) by (simp add: onInterval_def Let_def e'_def [symmetric] clocks_ok_def)
qed

lemma beat_answer_ok:
  assumes "clocks_ok T answer stops ref now e" and "stage e = Acting" and "sent \<le> now"
    and "timing_safe T answer"
  shows "clocks_ok T answer stops ref now (onBeatAnswer T now n sent e)"
proof (cases "n = 1")
  case True
  then show ?thesis using assms(1-3) by (fastforce simp: onBeatAnswer_def clocks_ok_def)
next
  case False
  then show ?thesis using assms abort_ok [OF assms(1,2)] by (simp add: onBeatAnswer_def timing_safe_def)
qed

lemma deadline_ok:
  assumes "clocks_ok T answer stops ref now e" and "stage e = Acting" and "timing_safe T answer"
  shows "clocks_ok T answer stops ref now (onDeadline T now e)"
proof -
  have "clocks_ok T answer stops ref now (abortWith T Collection_deadline_exceeded now e)"
    using assms abort_ok [OF assms(1,2)] by (simp add: timing_safe_def)
  moreover have "aborted (abortWith T Collection_deadline_exceeded now e) \<noteq> None"
    using assms(2) by (simp add: abortWith_def)
  ultimately show ?thesis by (simp add: onDeadline_def clocks_ok_def)
qed

lemma grace_ok:
  assumes "clocks_ok T answer stops ref now e" and "stage e = Acting" and "graceAt e \<noteq> None"
  shows "clocks_ok T answer stops ref now (onGrace (stops ref) e)"
  using assms by (cases "stops ref") (auto simp: clocks_ok_def onGrace_def)

lemma row_ok_same:
  assumes "row_ok stops gone ref r e" and "stage e = Acting" and "live stops ref e' \<Longrightarrow> live stops ref e"
    and "stage e' \<noteq> Claiming" and "lastBeatMs e' = lastBeatMs e"
    and "\<And>b. b \<in> set (beats e') \<Longrightarrow> b \<in> set (beats e) \<or> beatChanges b = None"
  shows "row_ok stops gone ref r e'"
  using assms unfolding row_ok_def by (metis option.distinct(1))

lemma row_ok_setBeat:
  assumes "row_ok stops gone ref r e" and "stage e = Acting"
    and "gone = None \<Longrightarrow> live stops ref e \<Longrightarrow> beatChanges b = Some 1 \<Longrightarrow> rows.held_since ref (beatSent b) r"
  shows "row_ok stops gone ref r (setBeat i b e)"
proof -
  have upd: "x = b \<or> x \<in> set (beats e)" if "x \<in> set ((beats e)[i := b])" for x
    using set_update_subset_insert [of "beats e" i b] that by blast
  have "rows.held_since ref (beatSent x) r"
    if "gone = None" "live stops ref e" "x \<in> set ((beats e)[i := b])" "beatChanges x = Some 1" for x
    using upd [OF that(3)] assms(1,3) that(1,2,4) unfolding row_ok_def by blast
  then show ?thesis using assms(1,2) by (cases gone) (simp_all add: row_ok_def setBeat_def live_def)
qed

lemma answer_silence: "0 < heartbeatMs T \<Longrightarrow> answer \<le> silence T answer"
  by (simp add: silence_def max_def)

lemma silent_not_held:
  assumes "timing_safe T answer" and "clocks_ok T answer stops ref now e" and "row_ok stops gone ref r e"
    and "staleLease now r"
  shows "row_ok stops gone ref r' e"
proof (cases gone)
  case None
  have never: "\<not> rows.held_since ref since r" if "now \<le> since + LEASE_STALE_MINUTES * 60000" for since
    using stale_is_silent [OF assms(4)] that by (auto simp: rows.held_since_def)
  have "\<not> (stage e = Claiming \<and> claimChanges e = Some 1)"
  proof
    assume e: "stage e = Claiming \<and> claimChanges e = Some 1"
    then have "now \<le> claimSentMs e + LEASE_STALE_MINUTES * 60000"
      using assms(1,2) answer_silence [of T answer] by (simp add: clocks_ok_def timing_safe_def)
    with never e assms(3) None show False by (simp add: row_ok_def)
  qed
  moreover have "\<not> live stops ref e"
  proof
    assume e: "live stops ref e"
    then have "now \<le> lastBeatMs e + LEASE_STALE_MINUTES * 60000"
      using live_bound [OF assms(2) e] assms(1) by (simp add: timing_safe_def)
    with never e assms(3) None show False by (simp add: row_ok_def)
  qed
  ultimately show ?thesis unfolding row_ok_def by blast
qed (simp add: row_ok_def)

text \<open>The steps that write the row, or that change more than one field of a call.\<close>

lemma claim_runs_ok:
  assumes ok: "lease_ok T answer stops s" and call: "execs s ref = Some e"
    and r: "claimLease ref (startedText e) (clock s) (row s) = (r, n)"
  shows "lease_ok T answer stops (put ref (e\<lparr>claimChanges := Some n\<rparr>) (s\<lparr>row := r\<rparr>))"
proof (rule lease_ok_call [OF ok])
  note e = lease_okD [OF ok call]
  show "clocks_ok T answer stops ref (clock s) (e\<lparr>claimChanges := Some n\<rparr>)"
    using e(1) by (simp add: clocks_ok_def)
  have rn: "r = fst (claimLease ref (startedText e) (clock s) (row s))"
    "n = snd (claimLease ref (startedText e) (clock s) (row s))" by (simp_all add: r)
  have "rows.held_since ref (claimSentMs e) r" if "stage e = Claiming" "n = 1"
    using rows.claim_holds [of ref "startedText e" "clock s" "row s"] e(1) that
      rows.held_since_mono [of ref "clock s" r "claimSentMs e"] by (simp add: rn clocks_ok_def)
  moreover have "row_ok stops (cleared s ref) ref r e"
    using row_ok_mono [OF e(2,1)] rows.held_claim unfolding rn(1) by blast
  ultimately show "row_ok stops (cleared s ref) ref r (e\<lparr>claimChanges := Some n\<rparr>)"
    by (cases "cleared s ref") (simp_all add: row_ok_def live_def)
  show "rows.held_since other since r" if "other \<noteq> ref" "rows.held_since other since (row s)" for other since
    using that(2) by (simp add: rn rows.held_claim)
qed

lemma beat_runs_ok:
  assumes ok: "lease_ok T answer stops s" and call: "execs s ref = Some e" and i: "i < length (beats e)"
    and r: "writeHeartbeat ref (clock s) (row s) = (r, n)"
  shows "lease_ok T answer stops (put ref (setBeat i ((beats e ! i)\<lparr>beatChanges := Some n\<rparr>) e) (s\<lparr>row := r\<rparr>))"
proof (rule lease_ok_call [OF ok])
  note e = lease_okD [OF ok call]
  let ?b = "(beats e ! i)\<lparr>beatChanges := Some n\<rparr>"
  have rn: "r = fst (writeHeartbeat ref (clock s) (row s))" "n = snd (writeHeartbeat ref (clock s) (row s))"
    by (simp_all add: r)
  have "clocks_ok T answer stops ref (clock s) (setBeat i ?b e) \<and> row_ok stops (cleared s ref) ref r (setBeat i ?b e)"
  proof (cases "stage e = Acting")
    case True
    then have b: "beatSent (beats e ! i) \<le> clock s" using e(1) i by (simp add: clocks_ok_def)
    have held: "rows.held_since ref since r" if "since \<le> clock s" "n = 1" for since
      using rows.renew_holds [of ref "clock s" "row s"] rows.held_since_mono [of ref "clock s" r since] that
      by (simp add: rn)
    have "row_ok stops (cleared s ref) ref r e" using row_ok_mono [OF e(2,1)] rows.held_renew unfolding rn(1) by blast
    then have "row_ok stops (cleared s ref) ref r (setBeat i ?b e)" by (rule row_ok_setBeat [OF _ True]) (use held b in simp)
    with b show ?thesis by (simp add: clocks_setBeat [OF e(1) True])
  next
    case False
    moreover have "stage e \<noteq> Claiming" using e(1) i by (auto simp: clocks_ok_def)
    ultimately show ?thesis by (simp add: setBeat_def)
  qed
  then show "clocks_ok T answer stops ref (clock s) (setBeat i ?b e)" "row_ok stops (cleared s ref) ref r (setBeat i ?b e)" by blast+
  show "rows.held_since other since r" if "other \<noteq> ref" "since \<le> clock s" "rows.held_since other since (row s)" for other since
    using that(2,3) by (simp add: rn rows.held_renew)
qed

lemma beat_closes_ok:
  assumes ok: "lease_ok T answer stops s" and acting: "stage e' = Acting"
    and b: "b \<in> set (beats e')" "beatSent b \<le> clock s"
    and e': "clocks_ok T answer stops ref (clock s) e'" "row_ok stops (cleared s ref) ref (row s) e'"
  shows "lease_ok T answer stops (put ref (setBeat i (b\<lparr>beatFate := fate\<rparr>) e') s)"
proof (rule lease_ok_own [OF ok])
  show "clocks_ok T answer stops ref (clock s) (setBeat i (b\<lparr>beatFate := fate\<rparr>) e')"
    using b(2) by (intro clocks_setBeat [OF e'(1) acting]) simp
  show "row_ok stops (cleared s ref) ref (row s) (setBeat i (b\<lparr>beatFate := fate\<rparr>) e')"
    using b(1) e'(2) by (intro row_ok_setBeat [OF e'(2) acting]) (auto simp: row_ok_def)
qed

lemma operator_ok:
  assumes ok: "lease_ok T answer stops s" and r: "operatorRelease ref confirmed (row s) = (r, n)"
  shows "lease_ok T answer stops (s\<lparr>row := r, cleared := noteRelease ref confirmed s\<rparr>)"
proof -
  have "row_ok stops (noteRelease ref confirmed s other) other r e" if other: "execs s other = Some e" for other e
  proof (cases "confirmed \<and> leaseRef (row s) = Some ref \<and> other = ref")
    case True
    then show ?thesis by (simp add: noteRelease_def row_ok_def)
  next
    case False
    then have "rows.held_since other since r" if "rows.held_since other since (row s)" for since
      using that r by (auto simp: operatorRelease_def rows.held_since_def split: if_splits)
    moreover have "noteRelease ref confirmed s other = cleared s other" using False by (simp add: noteRelease_def)
    ultimately show ?thesis using row_ok_mono [OF lease_okD(2,1) [OF ok other]] by simp
  qed
  then show ?thesis using ok by (auto simp: lease_ok_def)
qed

text \<open>What the tick, the answer or the failure of a heartbeat, the deadline and the stop leave of a call's claim on the row.\<close>

lemma acting_rows:
  assumes "row_ok stops gone ref r e" and acting: "stage e = Acting"
  shows "row_ok stops gone ref r (onInterval T now e)" and "row_ok stops gone ref r (onDeadline T now e)"
    and "row_ok stops gone ref r (onGrace (stops ref) e)" and "row_ok stops gone ref r (onBeatError T now e)"
    and "b \<in> set (beats e) \<Longrightarrow> beatChanges b = Some n \<Longrightarrow> row_ok stops gone ref r (onBeatAnswer T now n (beatSent b) e)"
proof -
  show "row_ok stops gone ref r (onInterval T now e)"
    by (rule row_ok_same [OF assms]) (use acting in \<open>auto simp: onInterval_def Let_def live_def split: if_splits\<close>)
  show "row_ok stops gone ref r (onDeadline T now e)"
    by (rule row_ok_same [OF assms]) (use acting in \<open>auto simp: onDeadline_def live_def\<close>)
  show "row_ok stops gone ref r (onGrace (stops ref) e)" using acting by (simp add: row_ok_def live_def onGrace_def)
  show "row_ok stops gone ref r (onBeatError T now e)" using assms by (auto simp: row_ok_def live_def onBeatError_def)
  show "row_ok stops gone ref r (onBeatAnswer T now n (beatSent b) e)" if "b \<in> set (beats e)" "beatChanges b = Some n"
    using assms that by (auto simp: row_ok_def live_def onBeatAnswer_def max_def)
qed

lemma beat_steps_ok:
  assumes ok: "lease_ok T answer stops s" and safe: "timing_safe T answer"
    and e: "execs s ref = Some e" "stage e = Acting" "i < length (beats e)"
  shows "lease_ok T answer stops
      (put ref (setBeat i ((beats e ! i)\<lparr>beatFate := Failed\<rparr>) (onBeatError T (clock s) e)) s)"
    and "beatChanges (beats e ! i) = Some n \<Longrightarrow> lease_ok T answer stops
      (put ref (setBeat i ((beats e ! i)\<lparr>beatFate := Answered\<rparr>) (onBeatAnswer T (clock s) n (beatSent (beats e ! i)) e)) s)"
proof -
  note inv = lease_okD [OF ok e(1)]
  have b: "beats e ! i \<in> set (beats e)" "beatSent (beats e ! i) \<le> clock s" using e(2,3) inv(1) by (auto simp: clocks_ok_def)
  have "clocks_ok T answer stops ref (clock s) (onBeatError T (clock s) e)"
    using abort_ok [OF inv(1) e(2)] safe inv(1) by (simp add: onBeatError_def timing_safe_def)
  then show "lease_ok T answer stops
      (put ref (setBeat i ((beats e ! i)\<lparr>beatFate := Failed\<rparr>) (onBeatError T (clock s) e)) s)"
    using e(2) b by (intro beat_closes_ok [OF ok] acting_rows(4) [OF inv(2)]) (simp_all add: onBeatError_def)
  show "lease_ok T answer stops
      (put ref (setBeat i ((beats e ! i)\<lparr>beatFate := Answered\<rparr>) (onBeatAnswer T (clock s) n (beatSent (beats e ! i)) e)) s)"
    if "beatChanges (beats e ! i) = Some n"
    using e(2) b that
    by (intro beat_closes_ok [OF ok] beat_answer_ok [OF inv(1) e(2) b(2) safe] acting_rows(5) [OF inv(2)])
      (simp_all add: onBeatAnswer_def)
qed

lemma lease_step_ok:
  assumes "lease_step T answer stops s s'" and "timing_safe T answer" and ok: "lease_ok T answer stops s"
  shows "lease_ok T answer stops s'"
proof -
  note own = lease_ok_own [OF ok] and inv = lease_okD [OF ok]
  from assms(1) show ?thesis
  proof cases
    case wait
    with ok wait_ok show ?thesis by (auto simp: lease_ok_def)
  next
    case (begin_call ref started)
    have "clocks_ok T answer stops ref (clock s) (newExecution started (clock s))"
      using assms(2) by (simp add: clocks_ok_def newExecution_def timing_safe_def)
    then show ?thesis unfolding begin_call by (rule own) (simp add: row_ok_def newExecution_def live_def)
  next
    case (claim_won ref e)
    have "row_ok stops (cleared s ref) ref (row s) (startActing T (clock s) e)"
      using inv [OF claim_won(2)] claim_won(3,4) by (simp add: row_ok_def startActing_def clocks_ok_def live_def)
    with start_ok [OF inv(1) [OF claim_won(2)] claim_won(3) assms(2)] show ?thesis
      unfolding claim_won(1) by (rule own)
  next
    case (interval ref e)
    with inv [OF interval(2)] assms(2) show ?thesis by (simp add: own interval_ok acting_rows(1))
  next
    case (deadline ref e)
    with inv [OF deadline(2)] assms(2) show ?thesis by (simp add: own deadline_ok acting_rows(2))
  next
    case (grace ref e)
    with inv [OF grace(2)] show ?thesis by (simp add: own grace_ok acting_rows(3))
  next
    case (release_done ref e k r n)
    then have "r = fst (releaseOwn ref (row s))" by simp
    then show ?thesis
      unfolding release_done(1) by (intro lease_ok_call [OF ok]) (simp_all add: rows.held_release)
  next
    case (release_failed ref e k r)
    have "stage (onReleaseError e) \<noteq> Claiming" "stage (onReleaseError e) \<noteq> Acting"
      using release_failed(3) by (simp_all add: onReleaseError_def)
    moreover have "rows.held_since other since r"
      if "other \<noteq> ref" "rows.held_since other since (row s)" for other since
      using that release_failed(4) by (auto simp: rows.held_release)
    ultimately show ?thesis unfolding release_failed(1) by (intro lease_ok_call [OF ok]) simp_all
  next
    case (expire ref r)
    then have "staleLease (clock s) (row s)" by (auto simp: expireLease_def split: if_splits)
    then show ?thesis using silent_not_held [OF assms(2) inv] ok expire(1) by (auto simp: lease_ok_def)
  next
    case (operator ref confirmed r n)
    show ?thesis unfolding operator(1) by (rule operator_ok [OF ok operator(2)])
  qed (simp_all add: own onSettled_def claim_runs_ok [OF ok] beat_runs_ok [OF ok] beat_steps_ok [OF ok assms(2)])
qed

lemma reachable_ok:
  assumes "lease_reachable T answer stops s" and "timing_safe T answer"
  shows "lease_ok T answer stops s"
  using assms(1)
proof (induction rule: lease_reachable.induct)
  case (start t)
  show ?case by (simp add: lease_ok_def)
next
  case (step s s')
  then show ?case using lease_step_ok assms(2) by blast
qed

section \<open>What the calls remember\<close>

text \<open>
  Facts of the past that hold whatever the clocks are: the stamps of a call are not in the future; an acting
  call has sent a heartbeat in every interval since its start; an answered heartbeat that changed nothing has
  aborted it; and a call whose lease was cleared has written nothing since, and never holds it again.
\<close>

definition stamps_ok :: "int \<Rightarrow> Execution \<Rightarrow> bool" where
  "stamps_ok now e \<longleftrightarrow> (stage e = Claiming \<longrightarrow> beats e = []) \<and> claimSentMs e \<le> now \<and> lastBeatMs e \<le> now \<and> actingSince e \<le> now \<and> (\<forall>b\<in>set (beats e). beatSent b \<le> now)"

definition ticks_ok :: "LeaseTiming \<Rightarrow> int \<Rightarrow> Execution \<Rightarrow> bool" where
  "ticks_ok T now e \<longleftrightarrow> (stage e = Acting \<longrightarrow> now \<le> nextBeatMs e \<and>
     (\<forall>t. actingSince e \<le> t \<and> t < nextBeatMs e - heartbeatMs T \<longrightarrow>
        (\<exists>b\<in>set (beats e). t < beatSent b \<and> beatSent b \<le> t + heartbeatMs T)))"

definition answers_ok :: "Execution \<Rightarrow> bool" where
  "answers_ok e \<longleftrightarrow> (\<forall>b\<in>set (beats e). beatFate b = Answered \<longrightarrow>
     beatChanges b \<noteq> None \<and> (stage e = Acting \<and> beatChanges b \<noteq> Some 1 \<longrightarrow> aborted e \<noteq> None))"

definition past_ok :: "LeaseRow \<Rightarrow> int option \<Rightarrow> string \<Rightarrow> Execution \<Rightarrow> bool" where
  "past_ok r gone ref e \<longleftrightarrow> (leaseRef r = Some ref \<longrightarrow> claimChanges e \<noteq> None) \<and>
     (\<forall>t. gone = Some t \<longrightarrow> leaseRef r \<noteq> Some ref \<and> claimChanges e \<noteq> None \<and> claimSentMs e \<le> t \<and> lastBeatMs e \<le> t \<and>
        (\<forall>b\<in>set (beats e). beatChanges b = Some 1 \<longrightarrow> beatSent b \<le> t))"

definition call_past :: "LeaseTiming \<Rightarrow> int \<Rightarrow> LeaseRow \<Rightarrow> int option \<Rightarrow> string \<Rightarrow> Execution \<Rightarrow> bool" where
  "call_past T now r gone ref e \<longleftrightarrow> stamps_ok now e \<and> ticks_ok T now e \<and> answers_ok e \<and> past_ok r gone ref e"

lemmas past_defs = call_past_def stamps_ok_def ticks_ok_def answers_ok_def past_ok_def

definition past_kept :: "LeaseTiming \<Rightarrow> LeaseState \<Rightarrow> bool" where
  "past_kept T s \<longleftrightarrow>
     (\<forall>ref. leaseRef (row s) = Some ref \<or> cleared s ref \<noteq> None \<longrightarrow> execs s ref \<noteq> None) \<and>
     (\<forall>ref e. execs s ref = Some e \<longrightarrow> call_past T (clock s) (row s) (cleared s ref) ref e)"

text \<open>A step of one call that may hand the row to it or take it from it, and to nobody else.\<close>

lemma past_call:
  assumes "past_kept T s" and "call_past T (clock s) r (cleared s ref) ref e'"
    and "leaseRef r = leaseRef (row s) \<or> leaseRef r = Some ref \<or> leaseRef r = None"
  shows "past_kept T (put ref e' (s\<lparr>row := r\<rparr>))"
proof -
  have "call_past T (clock s) r (cleared s other) other f" if "other \<noteq> ref" "execs s other = Some f" for other f
  proof -
    have "call_past T (clock s) (row s) (cleared s other) other f" using assms(1) that(2) by (simp add: past_kept_def)
    with that(1) assms(3) show ?thesis unfolding call_past_def past_ok_def by auto
  qed
  with assms show ?thesis unfolding past_kept_def by auto
qed

lemma past_own: "past_kept T s \<Longrightarrow> call_past T (clock s) (row s) (cleared s ref) ref e' \<Longrightarrow> past_kept T (put ref e' s)"
  using past_call [of T s "row s" ref e'] by simp

lemma past_row:
  assumes "past_kept T s" and "leaseRef r = leaseRef (row s) \<or> leaseRef r = None"
    and "\<And>ref t. gone ref = Some t \<Longrightarrow> cleared s ref = Some t \<or> (leaseRef (row s) = Some ref \<and> leaseRef r = None \<and> t = clock s)"
  shows "past_kept T (s\<lparr>row := r, cleared := gone\<rparr>)"
proof -
  have call: "call_past T (clock s) r (gone ref) ref e" if e: "execs s ref = Some e" for ref e
  proof -
    have past: "call_past T (clock s) (row s) (cleared s ref) ref e" using assms(1) e by (simp add: past_kept_def)
    show ?thesis
    proof (cases "gone ref")
      case None
      with past assms(2) show ?thesis unfolding call_past_def past_ok_def by auto
    next
      case (Some t)
      from assms(3) [OF Some] show ?thesis
      proof
        assume "cleared s ref = Some t"
        with past Some assms(2) show ?thesis unfolding call_past_def past_ok_def by auto
      next
        assume "leaseRef (row s) = Some ref \<and> leaseRef r = None \<and> t = clock s"
        with past Some show ?thesis unfolding call_past_def past_ok_def stamps_ok_def by auto
      qed
    qed
  qed
  have "execs s ref \<noteq> None" if "leaseRef r = Some ref \<or> gone ref \<noteq> None" for ref
    using that assms unfolding past_kept_def by fastforce
  with call show ?thesis unfolding past_kept_def by simp
qed

lemma past_setBeat:
  assumes "call_past T now r gone ref e" and "i < length (beats e)" and "beatSent b = beatSent (beats e ! i)"
    and "beatFate b = Answered \<Longrightarrow> beatChanges b \<noteq> None \<and> (stage e = Acting \<and> beatChanges b \<noteq> Some 1 \<longrightarrow> aborted e \<noteq> None)"
    and "gone \<noteq> None \<Longrightarrow> beatChanges b = Some 1 \<Longrightarrow> beatChanges (beats e ! i) = Some 1"
  shows "call_past T now r gone ref (setBeat i b e)"
proof -
  have mem: "x = b \<or> x \<in> set (beats e)" if "x \<in> set ((beats e)[i := b])" for x
    using set_update_subset_insert [of "beats e" i b] that by blast
  have old: "beats e ! i \<in> set (beats e)" using assms(2) by simp
  have sent: "\<exists>y\<in>set ((beats e)[i := b]). beatSent y = beatSent x" if "x \<in> set (beats e)" for x
  proof -
    from that obtain k where k: "k < length (beats e)" "beats e ! k = x" by (metis in_set_conv_nth)
    have "(beats e)[i := b] ! k \<in> set ((beats e)[i := b])" using k(1) by simp
    moreover have "beatSent ((beats e)[i := b] ! k) = beatSent x" using k assms(2,3) by (cases "k = i") simp_all
    ultimately show ?thesis by blast
  qed
  have "stamps_ok now (setBeat i b e)"
    using assms(1-3) old by (auto simp: call_past_def stamps_ok_def setBeat_def dest!: mem)
  moreover have "ticks_ok T now (setBeat i b e)"
    using assms(1) sent unfolding call_past_def ticks_ok_def setBeat_def by simp metis
  moreover have "answers_ok (setBeat i b e)"
    using assms(1,4) by (auto simp: call_past_def answers_ok_def setBeat_def dest!: mem)
  moreover have "past_ok r gone ref (setBeat i b e)"
    using assms(1,3,5) old by (auto simp: call_past_def past_ok_def setBeat_def dest!: mem)
  ultimately show ?thesis by (simp add: call_past_def)
qed

text \<open>The callbacks of an acting call.\<close>

lemma past_abort: "call_past T now r gone ref e \<Longrightarrow> call_past T now r gone ref (abortWith T code now e)"
  by (auto simp: past_defs abortWith_def)

lemma past_callbacks:
  assumes e: "call_past T now r gone ref e" and acting: "stage e = Acting"
  shows "call_past T now r gone ref (onDeadline T now e)" and "call_past T now r gone ref (onGrace stopped e)"
    and "call_past T now r gone ref (onBeatError T now e)" and "call_past T now r gone ref (onSettled e)"
    and "b \<in> set (beats e) \<Longrightarrow> beatChanges b = Some n \<Longrightarrow> call_past T now r gone ref (onBeatAnswer T now n (beatSent b) e)"
    and "nextBeatMs e = now \<Longrightarrow> 0 < heartbeatMs T \<Longrightarrow> call_past T now r gone ref (onInterval T now e)"
proof -
  show "call_past T now r gone ref (onDeadline T now e)"
    using past_abort [OF e] by (simp add: onDeadline_def past_defs)
  show "call_past T now r gone ref (onGrace stopped e)" "call_past T now r gone ref (onSettled e)"
    using e acting by (auto simp: onGrace_def onSettled_def past_defs)
  show "call_past T now r gone ref (onBeatError T now e)" using e past_abort [OF e] by (simp add: onBeatError_def)
  show "call_past T now r gone ref (onBeatAnswer T now n (beatSent b) e)"
    if "b \<in> set (beats e)" "beatChanges b = Some n"
    using e past_abort [OF e] that by (auto simp: onBeatAnswer_def past_defs)
  define e' where "e' = (if beatLost T now e then abortWith T Collection_lease_lost now e else e)"
  have e': "call_past T now r gone ref e'" "nextBeatMs e' = nextBeatMs e" "stage e' = Acting"
    using e past_abort [OF e] acting by (simp_all add: e'_def)
  show "call_past T now r gone ref (onInterval T now e)" if due: "nextBeatMs e = now" "0 < heartbeatMs T"
  proof -
    let ?b = "\<lparr>beatSent = now, beatChanges = None, beatFate = Awaited\<rparr>"
    have "\<exists>b\<in>set (beats e' @ [?b]). t < beatSent b \<and> beatSent b \<le> t + heartbeatMs T"
      if t: "actingSince e' \<le> t" "t < now" for t
    proof (cases "t < now - heartbeatMs T")
      case True
      then show ?thesis using e' t(1) due(1) by (auto simp: call_past_def ticks_ok_def)
    next
      case False
      with t(2) show ?thesis by auto
    qed
    then show ?thesis
      using e' due unfolding onInterval_def Let_def e'_def [symmetric] past_defs by auto
  qed
qed

lemma past_step:
  assumes "lease_step T answer stops s s'" and past: "past_kept T s" and "0 < heartbeatMs T"
  shows "past_kept T s'"
proof -
  note own = past_own [OF past]
  have call: "call_past T (clock s) (row s) (cleared s ref) ref e" if "execs s ref = Some e" for ref e
    using past that by (simp add: past_kept_def)
  have some: "leaseRef (row s) \<noteq> Some ref \<and> cleared s ref = None" if "execs s ref = None" for ref
    using past that by (auto simp: past_kept_def)
  from assms(1) show ?thesis
  proof cases
    case wait
    have "call_past T (clock s + 1) (row s) (cleared s ref) ref e" if e: "execs s ref = Some e" for ref e
      using call [OF e] wait(2) [OF e] unfolding past_defs may_wait_def by fastforce
    then show ?thesis unfolding wait(1) using past by (simp add: past_kept_def)
  next
    case (begin_call ref started)
    then show ?thesis using some [of ref] by (auto simp: past_defs newExecution_def intro: own)
  next
    case (claim_runs ref e r n)
    then have r: "leaseRef r = leaseRef (row s) \<or> leaseRef r = Some ref" by (auto simp: claimLease_def split: if_splits)
    moreover have "call_past T (clock s) r (cleared s ref) ref (e\<lparr>claimChanges := Some n\<rparr>)"
      using call [OF claim_runs(2)] claim_runs(3) by (auto simp: past_defs)
    ultimately show ?thesis unfolding claim_runs(1) using past_call [OF past] by blast
  next
    case (claim_won ref e)
    then show ?thesis using call [OF claim_won(2)] assms(3) by (auto simp: past_defs startActing_def intro!: own)
  next
    case (beat_runs ref e i r n)
    then have r: "leaseRef r = leaseRef (row s)" "leaseRef (row s) \<noteq> Some ref \<longrightarrow> n = 0"
      by (auto simp: writeHeartbeat_def split: if_splits)
    have e: "call_past T (clock s) r (cleared s ref) ref e" using call [OF beat_runs(2)] r(1) by (simp add: past_defs)
    have "beatFate (beats e ! i) \<noteq> Answered"
      using e beat_runs(3,4) nth_mem [OF beat_runs(3)] by (auto simp: call_past_def answers_ok_def)
    then have "call_past T (clock s) r (cleared s ref) ref (setBeat i ((beats e ! i)\<lparr>beatChanges := Some n\<rparr>) e)"
      using e r by (intro past_setBeat [OF e beat_runs(3)]) (auto simp: past_defs)
    then show ?thesis unfolding beat_runs(1) using r(1) by (intro past_call [OF past]) simp_all
  next
    case (beat_answered ref e i n)
    have b: "beats e ! i \<in> set (beats e)" using beat_answered(4) by simp
    note e = past_callbacks(5) [OF call [OF beat_answered(2)] beat_answered(3) b beat_answered(6)]
    have "n \<noteq> 1 \<Longrightarrow> aborted (onBeatAnswer T (clock s) n (beatSent (beats e ! i)) e) \<noteq> None"
      using beat_answered(3) by (simp add: onBeatAnswer_def abortWith_def)
    with e beat_answered(4,6) show ?thesis
      unfolding beat_answered(1) by (intro own past_setBeat) (auto simp: onBeatAnswer_def)
  next
    case (beat_failed ref e i)
    with past_callbacks(3) [OF call [OF beat_failed(2)] beat_failed(3)] show ?thesis
      unfolding beat_failed(1) by (intro own past_setBeat) (auto simp: onBeatError_def)
  next
    case (release_done ref e k r n)
    then have "leaseRef r = leaseRef (row s) \<or> leaseRef r = None" by (auto simp: releaseOwn_def freeRow_def split: if_splits)
    moreover have "call_past T (clock s) r (cleared s ref) ref (e\<lparr>stage := Ended\<rparr>)"
      using call [OF release_done(2)] calculation by (auto simp: past_defs)
    ultimately show ?thesis unfolding release_done(1) using past_call [OF past] by blast
  next
    case (release_failed ref e k r)
    then have r: "leaseRef r = leaseRef (row s) \<or> leaseRef r = None" by (auto simp: releaseOwn_def freeRow_def split: if_splits)
    moreover have "call_past T (clock s) r (cleared s ref) ref (onReleaseError e)"
      using call [OF release_failed(2)] r release_failed(3) by (auto simp: past_defs onReleaseError_def)
    ultimately show ?thesis unfolding release_failed(1) using past_call [OF past] by blast
  next
    case (expire ref r)
    then have "leaseRef r = leaseRef (row s) \<or> leaseRef r = None" by (auto simp: expireLease_def freeRow_def split: if_splits)
    from past_row [OF past this, of "cleared s"] show ?thesis unfolding expire(1) by simp
  next
    case (operator ref confirmed r n)
    show ?thesis unfolding operator(1)
      by (rule past_row [OF past]) (use operator(2) in \<open>auto simp: operatorRelease_def noteRelease_def freeRow_def split: if_splits\<close>)
  next
    case (claim_busy ref e n)
    then show ?thesis using call [OF claim_busy(2)] by (auto simp: past_defs intro!: own)
  next
    case (claim_failed ref e)
    then show ?thesis using call [OF claim_failed(2)] by (auto simp: past_defs intro!: own)
  qed (use call assms(3) in \<open>auto intro!: own past_callbacks\<close>)
qed

lemma reachable_past:
  assumes "lease_reachable T answer stops s" and "0 < heartbeatMs T"
  shows "past_kept T s"
  using assms(1)
proof (induction rule: lease_reachable.induct)
  case (start t)
  show ?case by (simp add: past_kept_def freeRow_def)
next
  case (step s s')
  then show ?case using past_step assms(2) by blast
qed

lemma reachable_call:
  assumes "lease_reachable LEASE_TIMING answer stops s" and "execs s ref = Some e"
  shows "call_past LEASE_TIMING (clock s) (row s) (cleared s ref) ref e"
  using reachable_past [OF assms(1)] assms(2) by (simp add: past_kept_def LEASE_TIMING_def)

lemma deployed_timing: "timing_safe LEASE_TIMING answer \<longleftrightarrow> 0 \<le> answer \<and> answer \<le> 510000"
  by (auto simp: timing_safe_def silence_def LEASE_TIMING_def LEASE_STALE_MINUTES_def max_def)

text \<open>The row is free or complete, as the table's check demands.\<close>

lemma row_complete:
  assumes "lease_reachable T answer stops s" and "leaseRef (row s) \<noteq> None"
  shows "startedAt (row s) \<noteq> None" "heartbeatAt (row s) \<noteq> None"
proof -
  have "leaseRef (row s) \<noteq> None \<longrightarrow> startedAt (row s) \<noteq> None \<and> heartbeatAt (row s) \<noteq> None"
    using assms(1)
  proof (induction rule: lease_reachable.induct)
    case (start t)
    show ?case by (simp add: freeRow_def)
  next
    case (step s s')
    from step(2,3) show ?case
      by cases (auto simp: claimLease_def writeHeartbeat_def releaseOwn_def expireLease_def operatorRelease_def
          freeRow_def split: if_splits)
  qed
  with assms(2) show "startedAt (row s) \<noteq> None" "heartbeatAt (row s) \<noteq> None" by blast+
qed

text \<open>A heartbeat of the row is never in the future.\<close>

lemma row_clock:
  assumes "lease_reachable T answer stops s" and "heartbeatAt (row s) = Some h"
  shows "h \<le> clock s"
proof -
  have "\<forall>h. heartbeatAt (row s) = Some h \<longrightarrow> h \<le> clock s"
    using assms(1)
  proof (induction rule: lease_reachable.induct)
    case (start t)
    show ?case by (simp add: freeRow_def)
  next
    case (step s s')
    from step(2,3) show ?case
      by cases (auto simp: claimLease_def writeHeartbeat_def releaseOwn_def expireLease_def operatorRelease_def
          freeRow_def split: if_splits)
  qed
  with assms(2) show ?thesis by blast
qed

text \<open>Waiting: while no timer is due, time goes on.\<close>

lemma wait_until:
  assumes "lease_reachable T answer stops s"
    and "\<And>ref e t. execs s ref = Some e \<Longrightarrow> clock s \<le> t \<Longrightarrow> t < clock s + int n \<Longrightarrow> may_wait answer t e"
  shows "(lease_step T answer stops)\<^sup>*\<^sup>* s (s\<lparr>clock := clock s + int n\<rparr>)"
  using assms(2)
proof (induction n)
  case (Suc n)
  let ?s = "s\<lparr>clock := clock s + int n\<rparr>"
  have "(lease_step T answer stops)\<^sup>*\<^sup>* s ?s" using Suc by simp
  moreover have "lease_step T answer stops ?s (?s\<lparr>clock := clock ?s + 1\<rparr>)"
    by (rule lease_step.wait) (use Suc.prems in auto)
  ultimately show ?case by (simp add: algebra_simps)
qed simp

lemma reachable_steps:
  "(lease_step T answer stops)\<^sup>*\<^sup>* s s' \<Longrightarrow> lease_reachable T answer stops s \<Longrightarrow> lease_reachable T answer stops s'"
  by (induction rule: rtranclp_induct) (auto intro: lease_reachable.step)

section \<open>Concrete runs\<close>

definition ex_call :: Execution where
  "ex_call = (newExecution 5 0)\<lparr>claimChanges := Some 1\<rparr>"

definition ex_row :: LeaseRow where
  "ex_row = \<lparr>leaseRef = Some ''a'', startedAt = Some 5, heartbeatAt = Some 0\<rparr>"

definition ex_state :: "Execution \<Rightarrow> LeaseState" where
  "ex_state e = \<lparr>clock = 0, row = ex_row, execs = [''a'' \<mapsto> e], cleared = Map.empty\<rparr>"

lemma ex_state_simps [simp]:
  "clock (ex_state e) = 0" "row (ex_state e) = ex_row" "execs (ex_state e) = [''a'' \<mapsto> e]" "cleared (ex_state e) = Map.empty"
  "put ''a'' e' (ex_state e) = ex_state e'" "(ex_state e)\<lparr>row := ex_row\<rparr> = ex_state e"
  by (simp_all add: ex_state_def put_def)

lemma ex_claimed: "lease_reachable T answer stops (ex_state ex_call)"
proof -
  let ?s0 = "\<lparr>clock = 0, row = freeRow, execs = Map.empty, cleared = Map.empty\<rparr> :: LeaseState"
  let ?s1 = "put ''a'' (newExecution 5 (clock ?s0)) ?s0"
  have "lease_reachable T answer stops ?s1"
    by (rule lease_reachable.step [OF lease_reachable.start lease_step.begin_call]) simp
  moreover have "lease_step T answer stops ?s1
      (put ''a'' ((newExecution 5 (clock ?s0))\<lparr>claimChanges := Some 1\<rparr>) (?s1\<lparr>row := ex_row\<rparr>))"
    by (rule lease_step.claim_runs) (simp_all add: newExecution_def claimLease_def freeRow_def ex_row_def)
  moreover have "put ''a'' ((newExecution 5 (clock ?s0))\<lparr>claimChanges := Some 1\<rparr>) (?s1\<lparr>row := ex_row\<rparr>) =
      ex_state ex_call"
    by (simp add: put_def ex_state_def ex_call_def)
  ultimately show ?thesis using lease_reachable.step by metis
qed

lemma ex_acting: "lease_reachable T answer stops (ex_state (startActing T 0 ex_call))"
proof -
  have "lease_step T answer stops (ex_state ex_call) (put ''a'' (startActing T (clock (ex_state ex_call)) ex_call) (ex_state ex_call))"
    by (rule lease_step.claim_won) (simp_all add: ex_call_def newExecution_def)
  with ex_claimed show ?thesis using lease_reachable.step by (fastforce simp del: ex_state_simps(2))
qed

text \<open>A call whose claim was answered with an error and whose three releases failed leaves its lease behind.\<close>

lemma ex_leaked:
  "lease_reachable T answer stops (ex_state (ex_call\<lparr>stage := Ended\<rparr>))"
proof -
  let ?e = "\<lambda>k. ex_call\<lparr>stage := k\<rparr>"
  have "lease_step T answer stops (ex_state ex_call) (put ''a'' (?e (Releasing 1)) (ex_state ex_call))"
    by (rule lease_step.claim_failed) (simp_all add: ex_call_def newExecution_def)
  then have first: "lease_reachable T answer stops (ex_state (?e (Releasing 1)))"
    using lease_reachable.step [OF ex_claimed] by simp
  have again: "lease_reachable T answer stops (ex_state (?e (stage (onReleaseError (?e (Releasing k))))))"
    if "lease_reachable T answer stops (ex_state (?e (Releasing k)))" for k
  proof -
    have "lease_step T answer stops (ex_state (?e (Releasing k)))
        (put ''a'' (onReleaseError (?e (Releasing k))) ((ex_state (?e (Releasing k)))\<lparr>row := ex_row\<rparr>))"
      by (rule lease_step.release_failed) simp_all
    moreover have "onReleaseError (?e (Releasing k)) = ?e (stage (onReleaseError (?e (Releasing k))))"
      by (simp add: onReleaseError_def)
    ultimately show ?thesis using lease_reachable.step [OF that] by simp
  qed
  have "lease_reachable T answer stops (ex_state (?e (Releasing 2)))"
    using again [OF first] by (simp add: onReleaseError_def LEASE_RELEASE_ATTEMPTS_def numeral_2_eq_2)
  then have "lease_reachable T answer stops (ex_state (?e (Releasing 3)))"
    using again [of 2] by (simp add: onReleaseError_def LEASE_RELEASE_ATTEMPTS_def numeral_3_eq_3)
  then show ?thesis using again [of 3] by (simp add: onReleaseError_def LEASE_RELEASE_ATTEMPTS_def)
qed

text \<open>The operator clears the lease of a call that is acting.\<close>

definition ex_cleared :: LeaseState where
  "ex_cleared = (ex_state (startActing LEASE_TIMING 0 ex_call))\<lparr>row := freeRow, cleared := [''a'' \<mapsto> 0]\<rparr>"

lemma ex_released: "lease_reachable LEASE_TIMING answer stops ex_cleared"
proof -
  let ?s = "ex_state (startActing LEASE_TIMING 0 ex_call)"
  have "lease_step LEASE_TIMING answer stops ?s (?s\<lparr>row := freeRow, cleared := noteRelease ''a'' True ?s\<rparr>)"
    by (rule lease_step.operator [of _ True _ _ 1]) (simp add: operatorRelease_def ex_row_def)
  moreover have "?s\<lparr>row := freeRow, cleared := noteRelease ''a'' True ?s\<rparr> = ex_cleared"
    by (simp add: ex_cleared_def noteRelease_def ex_row_def)
  ultimately show ?thesis using lease_reachable.step [OF ex_acting] by metis
qed

section \<open>What a lease promises\<close>

text \<open>
  What holds of a call whose lease the operator cleared: the row does not name it any more, not much time has
  passed since, and if a heartbeat it sent after the clearing was answered, it has been aborted.
\<close>

definition stopping :: "int \<Rightarrow> LeaseState \<Rightarrow> string \<Rightarrow> Execution \<Rightarrow> bool" where
  "stopping answer s ref e \<longleftrightarrow>
     (case cleared s ref of
        None \<Rightarrow> False
      | Some t \<Rightarrow> leaseRef (row s) \<noteq> Some ref \<and> clock s \<le> t + max 180000 answer + 90000 \<and>
          (\<forall>b\<in>set (beats e). t < beatSent b \<and> beatFate b = Answered \<longrightarrow> aborted e \<noteq> None))"

lemma live_beat:
  assumes "lease_reachable LEASE_TIMING answer stops s" and "0 \<le> answer" and "answer \<le> 510000"
    and "execs s ref = Some e" and "live stops ref e"
  shows "clock s \<le> lastBeatMs e + max 180000 answer + 90000"
proof -
  have "timing_safe LEASE_TIMING answer" using assms(2,3) by (simp add: deployed_timing)
  note ok = lease_okD [OF reachable_ok [OF assms(1) this] assms(4)]
  have "clock s \<le> lastBeatMs e + silence LEASE_TIMING answer + graceMs LEASE_TIMING"
    using live_bound [OF ok(1) assms(5)] by (simp add: LEASE_TIMING_def)
  then show ?thesis by (simp add: LEASE_TIMING_def silence_def)
qed

lemma cleared_stops:
  assumes "lease_reachable LEASE_TIMING answer stops s" and "0 \<le> answer" and "answer \<le> 510000"
    and "execs s ref = Some e" and "live stops ref e" and "cleared s ref = Some t"
  shows "stopping answer s ref e"
proof -
  note past = reachable_call [OF assms(1,4)]
  have acting: "stage e = Acting" using assms(5) by (simp add: live_def)
  have lost: "leaseRef (row s) \<noteq> Some ref" "lastBeatMs e \<le> t"
    "\<And>b. b \<in> set (beats e) \<Longrightarrow> t < beatSent b \<Longrightarrow> beatChanges b \<noteq> Some 1"
    using past assms(6) by (force simp: call_past_def past_ok_def)+
  have "aborted e \<noteq> None" if "b \<in> set (beats e)" "t < beatSent b" "beatFate b = Answered" for b
    using past acting that lost(3) [OF that(1,2)] by (auto simp: call_past_def answers_ok_def)
  with lost(1,2) live_beat [OF assms(1-5)] show ?thesis by (simp add: stopping_def assms(6))
qed

text \<open>
  That the operator's confirmation is true is needed for two live calls not to overlap: nothing checks it. A
  release of a running call lets the next call start at once, and both are live until the first is told.
\<close>

theorem operator_release_overlaps:
  "\<exists>s e f. lease_reachable LEASE_TIMING 30000 (\<lambda>_. True) s \<and>
    execs s ''a'' = Some e \<and> live (\<lambda>_. True) ''a'' e \<and> execs s ''b'' = Some f \<and> live (\<lambda>_. True) ''b'' f"
proof -
  let ?R = "lease_reachable LEASE_TIMING 30000 (\<lambda>_. True)" and ?f = "newExecution 0 0"
  let ?f1 = "?f\<lparr>claimChanges := Some 1\<rparr>"
  note step = lease_reachable.step [of LEASE_TIMING 30000 "\<lambda>_. True"]
  have s1: "?R (put ''b'' ?f ex_cleared)"
    using step [OF ex_released lease_step.begin_call [of ex_cleared "''b''"]] by (simp add: ex_cleared_def)
  have "lease_step LEASE_TIMING 30000 (\<lambda>_. True) (put ''b'' ?f ex_cleared)
      (put ''b'' ?f1 ((put ''b'' ?f ex_cleared)\<lparr>row := \<lparr>leaseRef = Some ''b'', startedAt = Some 0, heartbeatAt = Some 0\<rparr>\<rparr>))"
    by (rule lease_step.claim_runs) (simp_all add: newExecution_def claimLease_def freeRow_def ex_cleared_def)
  note s2 = step [OF s1 this]
  note s3 = step [OF s2 lease_step.claim_won [of _ "''b''" ?f1]]
  show ?thesis
    by (intro exI conjI, rule s3) (auto simp: newExecution_def startActing_def live_def ex_cleared_def)
qed

text \<open>
  Property C14: two live calls of one source overlap only where the operator cleared a lease, and not for long.
  With the deployed clocks, if the database answers a claim within eight and a half minutes, then in every
  interleaving of calls, statements, timers, the processor's sweep and operator releases, of two live calls
  one is stopping: the operator cleared its lease, at most four and a half minutes ago (longer only by the
  answer bound of the claim), the row does not name it, and if a heartbeat it sent since was answered it has
  been aborted. Live means that the action runs and, if its execution is one the platform does not end, its
  own stop has not fired.
\<close>

theorem one_live_call:
  assumes "lease_reachable LEASE_TIMING answer stops s" and "0 \<le> answer" and "answer \<le> 510000"
    and "execs s a = Some e" and "live stops a e" and "execs s b = Some f" and "live stops b f"
  shows "a = b \<or> stopping answer s a e \<or> stopping answer s b f"
proof (cases "cleared s a = None \<and> cleared s b = None")
  case True
  have ok: "lease_ok LEASE_TIMING answer stops s"
    using reachable_ok [OF assms(1)] assms(2,3) by (simp add: deployed_timing)
  have "rows.held_since a (lastBeatMs e) (row s)" "rows.held_since b (lastBeatMs f) (row s)"
    using lease_okD(2) [OF ok assms(4)] lease_okD(2) [OF ok assms(6)] assms(5,7) True by (simp_all add: row_ok_def)
  then show ?thesis using rows.one_holder by blast
next
  case False
  then show ?thesis
    using cleared_stops [OF assms(1-3,4,5)] cleared_stops [OF assms(1-3,6,7)] by auto
qed

lemma one_live_call_witness:
  "\<exists>s e f. lease_reachable LEASE_TIMING 30000 (\<lambda>_. True) s \<and> execs s ''a'' = Some e \<and> execs s ''b'' = Some f \<and>
     (stopping 30000 s ''a'' e \<or> stopping 30000 s ''b'' f)"
proof -
  obtain s e f where run: "lease_reachable LEASE_TIMING 30000 (\<lambda>_. True) s" and a: "execs s ''a'' = Some e" "live (\<lambda>_. True) ''a'' e"
    and b: "execs s ''b'' = Some f" "live (\<lambda>_. True) ''b'' f"
    using operator_release_overlaps by blast
  from one_live_call [OF run _ _ a b] have "stopping 30000 s ''a'' e \<or> stopping 30000 s ''b'' f" by simp
  with run a(1) b(1) show ?thesis by blast
qed

text \<open>
  Property C15: a live call is bounded, and one whose lease was cleared stops. If the database answers a claim
  within eight and a half minutes, a live call ends at most thirteen and a half minutes after its action
  started, and its last written heartbeat is at most four and a half minutes old (longer only by a slow claim
  answer). Where the operator did not clear its lease, the row names it and is not stale. Where he did, the
  row no longer names it and the call ends within that same time of the clearing; one minute after the
  clearing (or after its start) it has sent a heartbeat since, and any such heartbeat that is answered has aborted it.
\<close>

theorem live_call_bounded:
  assumes "lease_reachable LEASE_TIMING answer stops s" and "0 \<le> answer" and "answer \<le> 510000"
    and "execs s ref = Some e" and "live stops ref e"
  shows "clock s \<le> actingSince e + 810000 \<and> actingSince e \<le> claimSentMs e + answer \<and>
    clock s \<le> lastBeatMs e + max 180000 answer + 90000 \<and>
    (case cleared s ref of
       None \<Rightarrow> leaseRef (row s) = Some ref \<and> \<not> staleLease (clock s) (row s)
     | Some t \<Rightarrow> leaseRef (row s) \<noteq> Some ref \<and> clock s \<le> t + max 180000 answer + 90000 \<and>
         (if max t (actingSince e) + 60000 < clock s
          then \<exists>b\<in>set (beats e). t < beatSent b \<and> beatSent b \<le> max t (actingSince e) + 60000 else True) \<and>
         (\<forall>b\<in>set (beats e). t < beatSent b \<and> beatFate b = Answered \<longrightarrow> aborted e \<noteq> None))"
proof -
  have safe: "timing_safe LEASE_TIMING answer" using assms(2,3) by (simp add: deployed_timing)
  note ok = lease_okD [OF reachable_ok [OF assms(1) safe] assms(4)]
  note past = reachable_call [OF assms(1,4)]
  have acting: "stage e = Acting" using assms(5) by (simp add: live_def)
  have beat: "clock s \<le> lastBeatMs e + max 180000 answer + 90000" by (rule live_beat [OF assms])
  have ends: "clock s \<le> actingSince e + deadlineMs LEASE_TIMING + graceMs LEASE_TIMING"
    "actingSince e \<le> claimSentMs e + answer"
    using ok(1) assms(5) unfolding clocks_ok_def live_def LEASE_TIMING_def by (cases "aborted e = None"; force)+
  show ?thesis
  proof (cases "cleared s ref")
    case None
    with ok(2) assms(5) obtain h where h: "leaseRef (row s) = Some ref" "heartbeatAt (row s) = Some h"
      "lastBeatMs e \<le> h" by (auto simp: row_ok_def rows.held_since_def)
    have "\<not> staleLease (clock s) (row s)"
      using stale_is_silent [of "clock s" "row s", OF _ h(2)] h(3) beat assms(3)
      by (auto simp: LEASE_STALE_MINUTES_def)
    with None h(1) beat ends show ?thesis by (simp add: LEASE_TIMING_def)
  next
    case (Some t)
    have sent: "\<exists>b\<in>set (beats e). t < beatSent b \<and> beatSent b \<le> max t (actingSince e) + 60000"
      if "max t (actingSince e) + 60000 < clock s"
    proof -
      have "clock s \<le> nextBeatMs e" using past acting by (simp add: call_past_def ticks_ok_def)
      with that have "max t (actingSince e) < nextBeatMs e - heartbeatMs LEASE_TIMING"
        by (auto simp: LEASE_TIMING_def max_def split: if_splits)
      with past acting obtain b where "b \<in> set (beats e)" "max t (actingSince e) < beatSent b"
        "beatSent b \<le> max t (actingSince e) + heartbeatMs LEASE_TIMING"
        unfolding call_past_def ticks_ok_def by (metis max.cobounded2)
      then show ?thesis by (intro bexI [of _ b]) (simp_all add: LEASE_TIMING_def)
    qed
    have "stopping answer s ref e" using cleared_stops [OF assms Some] .
    with Some sent beat ends show ?thesis by (simp add: LEASE_TIMING_def stopping_def)
  qed
qed

lemma live_call_bounded_witness:
  "leaseRef (row (ex_state (startActing LEASE_TIMING 0 ex_call))) = Some ''a'' \<and>
   \<not> staleLease 0 (row (ex_state (startActing LEASE_TIMING 0 ex_call))) \<and> leaseRef (row ex_cleared) \<noteq> Some ''a''"
  using live_call_bounded [OF ex_acting [of LEASE_TIMING 30000 "\<lambda>_. True"], of "''a''" "startActing LEASE_TIMING 0 ex_call"]
    live_call_bounded [OF ex_released [of 30000 "\<lambda>_. True"], of "''a''" "startActing LEASE_TIMING 0 ex_call"]
  by (simp add: live_def startActing_def ex_cleared_def del: ex_state_simps(2))

text \<open>
  Once a call that holds the lease has ended and none of its heartbeats can still run, nothing but the sweep
  and the operator touches the row: no claim takes it and nobody renews it.
\<close>

definition left_behind :: "Execution \<Rightarrow> bool" where
  "left_behind e \<longleftrightarrow> stage e = Ended \<and> claimChanges e \<noteq> None \<and> (\<forall>b\<in>set (beats e). beatChanges b \<noteq> None)"

lemma left_facts:
  assumes "left_behind e"
  shows "stage e = Ended" and "claimChanges e \<noteq> None" and "\<forall>i<length (beats e). beatChanges (beats e ! i) \<noteq> None"
  using assms nth_mem unfolding left_behind_def by blast+

lemma left_step:
  assumes "lease_step T answer stops s s'" and "execs s ref = Some e" and "left_behind e"
    and "leaseRef (row s') = Some ref"
  shows "row s' = row s"
  using assms(1,2,4)
  by cases (use left_facts [OF assms(3)] in \<open>auto simp: claimLease_def writeHeartbeat_def releaseOwn_def expireLease_def
      operatorRelease_def freeRow_def split: if_splits\<close>)

lemma left_exec:
  assumes "lease_step T answer stops s s'" and "execs s ref = Some e" and "left_behind e"
  shows "execs s' ref = Some e"
  using assms(1,2) by cases (use left_facts [OF assms(3)] in \<open>auto split: if_splits\<close>)

lemma left_run:
  assumes "(lease_step T answer stops)\<^sup>*\<^sup>* s s'" and "execs s ref = Some e" and "left_behind e"
  shows "execs s' ref = Some e \<and> (leaseRef (row s') = Some ref \<longrightarrow> row s' = row s) \<and> clock s \<le> clock s'"
  using assms(1)
proof (induction rule: rtranclp_induct)
  case (step t u)
  then have t: "execs t ref = Some e" by simp
  have "clock t \<le> clock u" using step(2) by cases simp_all
  moreover have "leaseRef (row u) = Some ref \<Longrightarrow> row u = row t" by (rule left_step [OF step(2) t assms(3)])
  ultimately show ?case using step.IH left_exec [OF step(2) t assms(3)] by auto
qed (simp add: assms(2))

text \<open>
  Property C16: a lease left behind is freed by the sweep, and at a known time. When a call that holds the lease
  has ended and none of its heartbeats is still to run, then in every run from there in which the row still
  names it, the row is unchanged: no claim, heartbeat or release of any call touched it, and a sweep frees it
  exactly when ten minutes have passed since its heartbeat, or an hour since its claim where the claiming
  clock ran ahead of the database.
\<close>

theorem leaked_lease_freed:
  assumes "lease_reachable LEASE_TIMING answer stops s" and "execs s ref = Some e" and "stage e = Ended"
    and "\<forall>b\<in>set (beats e). beatChanges b \<noteq> None" and "leaseRef (row s) = Some ref"
    and "(lease_step LEASE_TIMING answer stops)\<^sup>*\<^sup>* s s'" and "leaseRef (row s') = Some ref"
  shows "row s' = row s \<and> (\<exists>started h. startedAt (row s) = Some started \<and> heartbeatAt (row s) = Some h \<and> h \<le> clock s \<and>
    expireLease ref (clock s') (row s') =
      (if (if started \<le> h then h + 600000 else started + 3600000) < clock s' then (freeRow, 1) else (row s, 0)))"
proof -
  have "claimChanges e \<noteq> None" using reachable_call [OF assms(1,2)] assms(5) by (simp add: call_past_def past_ok_def)
  then have "left_behind e" using assms(3,4) by (simp add: left_behind_def)
  with left_run [OF assms(6,2)] assms(7) have same: "row s' = row s" by blast
  obtain started h where row: "startedAt (row s) = Some started" "heartbeatAt (row s) = Some h"
    using row_complete [OF assms(1)] assms(5) by auto
  have "h \<le> clock s" using row_clock [OF assms(1) row(2)] .
  moreover have "expireLease ref (clock s') (row s) =
      (if (if started \<le> h then h + 600000 else started + 3600000) < clock s' then (freeRow, 1) else (row s, 0))"
    using row assms(5) by (auto simp: expireLease_def staleLease_def ownHeartbeat_def LEASE_STALE_MINUTES_def
        LEGACY_LEASE_STALE_MINUTES_def)
  ultimately show ?thesis using same row by simp
qed

lemma leaked_lease_freed_witness:
  "expireLease ''a'' 3600006 ex_row = (freeRow, 1) \<and> expireLease ''a'' 3600005 ex_row = (ex_row, 0)"
proof -
  let ?e = "ex_call\<lparr>stage := Ended\<rparr>"
  note leaked = ex_leaked [of LEASE_TIMING 30000 "\<lambda>_. True"]
  have "(lease_step LEASE_TIMING 30000 (\<lambda>_. True))\<^sup>*\<^sup>* (ex_state ?e) ((ex_state ?e)\<lparr>clock := clock (ex_state ?e) + int n\<rparr>)" for n
    by (rule wait_until [OF leaked]) (auto simp: may_wait_def split: if_splits)
  from leaked_lease_freed [OF leaked _ _ _ _ this] have
    "expireLease ''a'' (int n) ex_row = (if 3600005 < int n then (freeRow, 1) else (ex_row, 0))" for n
    by (simp add: ex_row_def ex_call_def newExecution_def)
  from this [of 3600006] this [of 3600005] show ?thesis by simp
qed

text \<open>
  The bound on the claim's answer is needed. A claim that ran but whose answer arrives after
  more than ten minutes finds its lease freed and taken by another call, and its action starts all the
  same: the two are live at once.
\<close>

theorem late_answer_overlaps:
  "\<exists>s e f. lease_reachable LEASE_TIMING 700000 (\<lambda>_. True) s \<and>
    execs s ''a'' = Some e \<and> live (\<lambda>_. True) ''a'' e \<and> execs s ''b'' = Some f \<and> live (\<lambda>_. True) ''b'' f"
proof -
  let ?T = LEASE_TIMING and ?A = "700000 :: int" and ?S = "\<lambda>_ :: string. True"
  let ?c = "600001 :: int"
  let ?r0 = "\<lparr>leaseRef = Some ''a'', startedAt = Some 0, heartbeatAt = Some 0\<rparr> :: LeaseRow"
  let ?e = "(newExecution 0 0)\<lparr>claimChanges := Some 1\<rparr>"
  let ?f = "newExecution ?c ?c"
  let ?f1 = "?f\<lparr>claimChanges := Some 1\<rparr>"
  let ?st = "\<lambda>c r es. \<lparr>clock = c, row = r, execs = es, cleared = Map.empty\<rparr> :: LeaseState"
  note step = lease_reachable.step [of ?T ?A ?S]
  have s1: "lease_reachable ?T ?A ?S (?st 0 freeRow [''a'' \<mapsto> newExecution 0 0])"
    using step [OF lease_reachable.start lease_step.begin_call [of "?st 0 freeRow Map.empty" "''a''"]]
    by (simp add: put_def)
  have "lease_step ?T ?A ?S (?st 0 freeRow [''a'' \<mapsto> newExecution 0 0])
      (put ''a'' ?e ((?st 0 freeRow [''a'' \<mapsto> newExecution 0 0])\<lparr>row := ?r0\<rparr>))"
    by (rule lease_step.claim_runs) (simp_all add: newExecution_def claimLease_def freeRow_def)
  from step [OF s1 this] have s2: "lease_reachable ?T ?A ?S (?st 0 ?r0 [''a'' \<mapsto> ?e])" by (simp add: put_def)
  let ?s2 = "?st 0 ?r0 [''a'' \<mapsto> ?e]"
  have "(lease_step ?T ?A ?S)\<^sup>*\<^sup>* ?s2 (?s2\<lparr>clock := clock ?s2 + int 600001\<rparr>)"
    by (rule wait_until [OF s2]) (auto simp: may_wait_def newExecution_def split: if_splits)
  from reachable_steps [OF this s2] have s3: "lease_reachable ?T ?A ?S (?st ?c ?r0 [''a'' \<mapsto> ?e])" by simp
  have "lease_step ?T ?A ?S (?st ?c ?r0 [''a'' \<mapsto> ?e]) ((?st ?c ?r0 [''a'' \<mapsto> ?e])\<lparr>row := freeRow\<rparr>)"
    by (rule lease_step.expire [of "''a''"])
      (simp add: expireLease_def staleLease_def ownHeartbeat_def LEASE_STALE_MINUTES_def)
  from step [OF s3 this] have s4: "lease_reachable ?T ?A ?S (?st ?c freeRow [''a'' \<mapsto> ?e])" by simp
  have s5: "lease_reachable ?T ?A ?S (?st ?c freeRow [''a'' \<mapsto> ?e, ''b'' \<mapsto> ?f])"
    using step [OF s4 lease_step.begin_call [of "?st ?c freeRow [''a'' \<mapsto> ?e]" "''b''"]] by (simp add: put_def)
  have "lease_step ?T ?A ?S (?st ?c freeRow [''a'' \<mapsto> ?e, ''b'' \<mapsto> ?f])
      (put ''b'' ?f1 ((?st ?c freeRow [''a'' \<mapsto> ?e, ''b'' \<mapsto> ?f])\<lparr>row :=
        \<lparr>leaseRef = Some ''b'', startedAt = Some ?c, heartbeatAt = Some ?c\<rparr>\<rparr>))"
    by (rule lease_step.claim_runs) (simp_all add: newExecution_def claimLease_def freeRow_def)
  note s6 = step [OF s5 this]
  note s7 = step [OF s6 lease_step.claim_won [of _ "''b''" ?f1]]
  note s8 = step [OF s7 lease_step.claim_won [of _ "''a''" ?e]]
  show ?thesis
    by (intro exI conjI, rule s8) (auto simp: newExecution_def startActing_def live_def)
qed

end
