(* ===== verification/Reconcile.thy ===== *)
theory Reconcile
  imports Card_Settlement Decisions
begin

text \<open>
  Matching candidates, \<open>packages/domain/src/reconcile.ts\<close>: from the claims of one bounded fact set, which
  pairs are proposed as the same provider row (stage A), as a pending row and its posting (stage B) or as
  an economic correspondence across sources (stage C), with the reasons and the conditions to re-check.
\<close>

section \<open>Codes and records\<close>

datatype ReconciliationKind =
    Rec_provider_same | Rec_pending_to_posted | Rec_supersedes | Rec_supports | Rec_contradicts
  | Rec_funded_by | Rec_statement_covers

fun kind_text :: "ReconciliationKind \<Rightarrow> string" where
  "kind_text Rec_provider_same = ''provider_same''"
| "kind_text Rec_pending_to_posted = ''pending_to_posted''"
| "kind_text Rec_supersedes = ''supersedes''"
| "kind_text Rec_supports = ''supports''"
| "kind_text Rec_contradicts = ''contradicts''"
| "kind_text Rec_funded_by = ''funded_by''"
| "kind_text Rec_statement_covers = ''statement_covers''"

fun source_kind_text :: "SourceFactKind \<Rightarrow> string" where
  "source_kind_text TransactionKind = ''transaction''"
| "source_kind_text BalanceKind = ''balance''"
| "source_kind_text PositionKind = ''position''"
| "source_kind_text ValuationKind = ''valuation''"
| "source_kind_text TypedClaimKind = ''typed-claim''"

datatype ProposalStage = Stage_A | Stage_B | Stage_C

datatype ProposalMethod = Rule_method | Manual_method | Ai_method

datatype ProposalStatus = Proposal_proposed | Proposal_accepted | Proposal_rejected | Proposal_withdrawn

datatype RationaleCode =
    Provider_link_id_equal | Provider_identifier_equal | Collector_fingerprint_identifier
  | Same_identifier_namespace | Same_source_account | Same_statement_period | Amount_equal
  | Amount_opposite_sign | Date_within_window | Status_pending_to_posted | Counterparty_equal
  | Owner_established_self | Multiple_candidates | No_provider_link_id

datatype RejectionConditionCode =
    Identifier_namespace_differs | Credential_epoch_differs | Counterparty_differs | Amount_differs
  | Unit_differs | Owner_not_established | Rejected_outside_window | Provider_link_absent
  | Rejected_not_unique

record ReconciliationProposal =
  proposalId :: string
  proposalKind :: ReconciliationKind
  proposalStage :: ProposalStage
  targetRefs :: "SourceFactRef list"
  proposalMethod :: ProposalMethod
  policyRelease :: string
  rationale :: "RationaleCode list"
  rejections :: "RejectionConditionCode list"
  evidence :: "string list"
  proposalStatus :: ProposalStatus
  decisionRef :: "string option"
  autoAcceptable :: bool

definition RECONCILIATION_POLICY_RELEASE :: string where
  "RECONCILIATION_POLICY_RELEASE = ''reconciliation-rules-v1''"

datatype IdentifierOrigin = Provider_origin | Collector_fingerprint | Unknown_origin

record IdentifierScope =
  scopeSourceId :: string
  credentialEpoch :: string
  accountNamespace :: string

datatype SettlementState = Pending | Posted | Unknown_settlement

record MatchFact =
  matchRef :: SourceFactRef
  matchScope :: IdentifierScope
  matchAccount :: string
  externalId :: "string option"
  identifierOrigin :: IdentifierOrigin
  providerLinkId :: "string option"
  settlementState :: SettlementState
  matchQuantity :: Quantity
  matchOccurred :: TemporalValue
  counterparty :: "string option"
  statementPeriodText :: "string option"
  matchOwner :: "string option"

record MatchOptions =
  dayWindow :: int
  optionRelease :: string

definition DEFAULT_MATCH_OPTIONS :: MatchOptions where
  "DEFAULT_MATCH_OPTIONS = \<lparr>dayWindow = 5, optionRelease = RECONCILIATION_POLICY_RELEASE\<rparr>"

section \<open>Comparisons\<close>

definition sameScope :: "IdentifierScope \<Rightarrow> IdentifierScope \<Rightarrow> bool" where
  "sameScope a b \<longleftrightarrow>
     scopeSourceId a = scopeSourceId b \<and> credentialEpoch a = credentialEpoch b \<and>
     accountNamespace a = accountNamespace b"

definition scopeMismatch :: "IdentifierScope \<Rightarrow> IdentifierScope \<Rightarrow> RejectionConditionCode list" where
  "scopeMismatch a b =
     (if scopeSourceId a \<noteq> scopeSourceId b \<or> accountNamespace a \<noteq> accountNamespace b
      then [Identifier_namespace_differs] else []) @
     (if credentialEpoch a \<noteq> credentialEpoch b then [Credential_epoch_differs] else [])"

definition localDay :: "TemporalValue \<Rightarrow> string option" where
  "localDay t =
     (case t of LocalDate d _ _ \<Rightarrow> Some d | Instant i _ _ \<Rightarrow> Some (take 10 i) | _ \<Rightarrow> None)"

definition daysAfter :: "TemporalValue \<Rightarrow> TemporalValue \<Rightarrow> int option" where
  "daysAfter from until =
     (case (localDay from, localDay until) of
        (Some left, Some right) \<Rightarrow>
          (case (parseLocalDate left, parseLocalDate right) of
             (Some x, Some y) \<Rightarrow> Some (daysBetween x y)
           | _ \<Rightarrow> None)
      | _ \<Rightarrow> None)"

definition dayDistance :: "TemporalValue \<Rightarrow> TemporalValue \<Rightarrow> int option" where
  "dayDistance a b = map_option abs (daysAfter a b)"

definition postedInWindow :: "TemporalValue \<Rightarrow> TemporalValue \<Rightarrow> int \<Rightarrow> bool" where
  "postedInWindow pending posted window =
     (case daysAfter pending posted of None \<Rightarrow> False | Some days \<Rightarrow> 0 \<le> days \<and> days \<le> window)"

definition amountsEqual :: "Quantity \<Rightarrow> Quantity \<Rightarrow> bool" where
  "amountsEqual a b \<longleftrightarrow> compareQuantities a b = Inr 0"

definition amountsOpposite :: "Quantity \<Rightarrow> Quantity \<Rightarrow> bool" where
  "amountsOpposite a b \<longleftrightarrow>
     unitRef a = unitRef b \<and>
     (case (quantityValue a, quantityValue b) of
        (ExactValue x _, ExactValue y _) \<Rightarrow>
          coefficient x \<noteq> 0 \<and> coefficient y \<noteq> 0 \<and> (coefficient x < 0) \<noteq> (coefficient y < 0) \<and>
          \<bar>coefficient x\<bar> = \<bar>coefficient y\<bar> \<and> scale x = scale y
      | _ \<Rightarrow> False)"

definition refText :: "SourceFactRef \<Rightarrow> string" where
  "refText r = source_kind_text (factKind r) @ ''/'' @ factId r @ ''@'' @ factRevision r"

definition pairId :: "ReconciliationKind \<Rightarrow> SourceFactRef \<Rightarrow> SourceFactRef \<Rightarrow> string" where
  "pairId k left right = kind_text k @ '':'' @ refText left @ '':'' @ refText right"

definition proposalOf ::
  "ReconciliationKind \<Rightarrow> ProposalStage \<Rightarrow> MatchFact \<Rightarrow> MatchFact \<Rightarrow> RationaleCode list \<Rightarrow>
   RejectionConditionCode list \<Rightarrow> bool \<Rightarrow> string \<Rightarrow> ReconciliationProposal"
where
  "proposalOf k st left right reasons conditions auto release = \<lparr>
     proposalId = pairId k (matchRef left) (matchRef right), proposalKind = k, proposalStage = st,
     targetRefs = [matchRef left, matchRef right], proposalMethod = Rule_method, policyRelease = release,
     rationale = reasons, rejections = conditions,
     evidence = [factId (matchRef left), factId (matchRef right)],
     proposalStatus = Proposal_proposed, decisionRef = None, autoAcceptable = auto\<rparr>"

section \<open>Stage A\<close>

text \<open>The two nested loops over \<open>i < j\<close>.\<close>

fun pairs :: "'a list \<Rightarrow> ('a \<times> 'a) list" where
  "pairs [] = []"
| "pairs (x # xs) = map (Pair x) xs @ pairs xs"

definition sameIdentifier :: "MatchFact \<Rightarrow> MatchFact \<Rightarrow> bool" where
  "sameIdentifier left right \<longleftrightarrow> externalId left \<noteq> None \<and> externalId left = externalId right"

definition stageAProposal :: "MatchOptions \<Rightarrow> MatchFact \<times> MatchFact \<Rightarrow> ReconciliationProposal option" where
  "stageAProposal o' p =
     (let left = fst p; right = snd p
      in if \<not> sameIdentifier left right then None
         else if identifierOrigin left \<noteq> Provider_origin \<or> identifierOrigin right \<noteq> Provider_origin then None
         else if scopeMismatch (matchScope left) (matchScope right) \<noteq> [] then None
         else Some (proposalOf Rec_provider_same Stage_A left right
           ([Provider_identifier_equal, Same_identifier_namespace] @
            (if amountsEqual (matchQuantity left) (matchQuantity right) then [Amount_equal] else []))
           [Identifier_namespace_differs, Credential_epoch_differs] True (optionRelease o')))"

definition stageAProposals :: "MatchFact list \<Rightarrow> MatchOptions \<Rightarrow> ReconciliationProposal list" where
  "stageAProposals facts o' = List.map_filter (stageAProposal o') (pairs facts)"

section \<open>Stage B\<close>

record Draft =
  draftLeft :: MatchFact
  draftRight :: MatchFact
  draftRationale :: "RationaleCode list"
  draftRejections :: "RejectionConditionCode list"
  linked :: bool

definition sameLink :: "MatchFact \<Rightarrow> MatchFact \<Rightarrow> bool" where
  "sameLink left right \<longleftrightarrow> providerLinkId left \<noteq> None \<and> providerLinkId left = providerLinkId right"

definition stageBRationale :: "bool \<Rightarrow> bool \<Rightarrow> MatchFact \<Rightarrow> MatchFact \<Rightarrow> RationaleCode list" where
  "stageBRationale lnk inWindow left right =
     [Status_pending_to_posted, Same_identifier_namespace, Same_source_account] @
     (if lnk then [Provider_link_id_equal] else [No_provider_link_id]) @
     (if statementPeriodText left \<noteq> None \<and> statementPeriodText left = statementPeriodText right
      then [Same_statement_period] else []) @
     (if inWindow then [Date_within_window] else []) @
     (if amountsEqual (matchQuantity left) (matchQuantity right) then [Amount_equal] else []) @
     (if counterparty left \<noteq> None \<and> counterparty right \<noteq> None \<and> counterparty left = counterparty right
      then [Counterparty_equal] else [])"

definition stageBConditions :: "bool \<Rightarrow> RejectionConditionCode list" where
  "stageBConditions lnk =
     (if lnk then [Identifier_namespace_differs, Credential_epoch_differs]
      else [Provider_link_absent, Counterparty_differs, Amount_differs, Rejected_not_unique])"

definition stageBDraft :: "MatchOptions \<Rightarrow> MatchFact \<times> MatchFact \<Rightarrow> Draft option" where
  "stageBDraft o' p =
     (let left = fst p; right = snd p;
          lnk = sameLink left right;
          inWindow = postedInWindow (matchOccurred left) (matchOccurred right) (dayWindow o')
      in if \<not> sameScope (matchScope left) (matchScope right) \<or> matchAccount left \<noteq> matchAccount right then None
         else if \<not> lnk \<and> \<not> inWindow then None
         else Some \<lparr>draftLeft = left, draftRight = right, draftRationale = stageBRationale lnk inWindow left right,
           draftRejections = stageBConditions lnk, linked = lnk\<rparr>)"

definition stageBDrafts :: "MatchFact list \<Rightarrow> MatchOptions \<Rightarrow> Draft list" where
  "stageBDrafts facts o' =
     List.map_filter (stageBDraft o')
       (concat (map (\<lambda>left. map (Pair left) (filter (\<lambda>f. settlementState f = Posted) facts))
         (filter (\<lambda>f. settlementState f = Pending) facts)))"

definition candidatesPerPending :: "Draft list \<Rightarrow> string \<Rightarrow> nat" where
  "candidatesPerPending drafts ident =
     length (filter (\<lambda>d. \<not> linked d \<and> factId (matchRef (draftLeft d)) = ident) drafts)"

definition candidatesPerPosted :: "Draft list \<Rightarrow> string \<Rightarrow> nat" where
  "candidatesPerPosted drafts ident =
     length (filter (\<lambda>d. \<not> linked d \<and> factId (matchRef (draftRight d)) = ident) drafts)"

definition ambiguous :: "Draft list \<Rightarrow> Draft \<Rightarrow> bool" where
  "ambiguous drafts d \<longleftrightarrow>
     \<not> linked d \<and>
     (1 < candidatesPerPending drafts (factId (matchRef (draftLeft d))) \<or>
      1 < candidatesPerPosted drafts (factId (matchRef (draftRight d))))"

definition draftProposal :: "MatchOptions \<Rightarrow> Draft list \<Rightarrow> Draft \<Rightarrow> ReconciliationProposal" where
  "draftProposal o' drafts d =
     proposalOf Rec_pending_to_posted Stage_B (draftLeft d) (draftRight d)
       (if ambiguous drafts d then draftRationale d @ [Multiple_candidates] else draftRationale d)
       (if ambiguous drafts d then js_set (draftRejections d @ [Rejected_not_unique]) else draftRejections d)
       (linked d) (optionRelease o')"

definition stageBProposals :: "MatchFact list \<Rightarrow> MatchOptions \<Rightarrow> ReconciliationProposal list" where
  "stageBProposals facts o' =
     (let drafts = stageBDrafts facts o';
          equalFirst = filter (\<lambda>d. Amount_equal \<in> set (draftRationale d)) drafts @
            filter (\<lambda>d. Amount_equal \<notin> set (draftRationale d)) drafts
      in map (draftProposal o' drafts) equalFirst)"

section \<open>Stage C and the whole\<close>

definition stageCProposal :: "MatchOptions \<Rightarrow> MatchFact \<times> MatchFact \<Rightarrow> ReconciliationProposal option" where
  "stageCProposal o' p =
     (let left = fst p; right = snd p
      in if scopeSourceId (matchScope left) = scopeSourceId (matchScope right) then None
         else if unitRef (matchQuantity left) \<noteq> unitRef (matchQuantity right) then None
         else if \<not> amountsOpposite (matchQuantity left) (matchQuantity right) then None
         else case dayDistance (matchOccurred left) (matchOccurred right) of
           None \<Rightarrow> None
         | Some distance \<Rightarrow>
             if dayWindow o' < distance then None
             else
               (let bothOwned = (matchOwner left \<noteq> None \<and> matchOwner right \<noteq> None \<and> matchOwner left = matchOwner right)
                in Some (proposalOf Rec_funded_by Stage_C left right
                  ([Amount_opposite_sign, Date_within_window] @
                   (if bothOwned then [Owner_established_self] else []))
                  ([Amount_differs, Rejected_outside_window] @
                   (if bothOwned then [] else [Owner_not_established]) @ [Provider_link_absent])
                  False (optionRelease o'))))"

definition stageCProposals :: "MatchFact list \<Rightarrow> MatchOptions \<Rightarrow> ReconciliationProposal list" where
  "stageCProposals facts o' = List.map_filter (stageCProposal o') (pairs facts)"

definition matchProposals :: "MatchFact list \<Rightarrow> MatchOptions \<Rightarrow> ReconciliationProposal list" where
  "matchProposals facts o' =
     js_sort (\<lambda>a b. compareText (proposalId a) (proposalId b))
       (stageAProposals facts o' @ stageBProposals facts o' @ stageCProposals facts o')"

definition proposalIdentity ::
  "ReconciliationProposal \<Rightarrow> ReconciliationKind \<times> ProposalStage \<times> ProposalMethod \<times> string \<times> string list"
where
  "proposalIdentity p =
     (proposalKind p, proposalStage p, proposalMethod p, policyRelease p, map refText (targetRefs p))"

definition validReconciliationProposal :: "ReconciliationProposal \<Rightarrow> bool" where
  "validReconciliationProposal p \<longleftrightarrow>
     isText 512 (proposalId p) \<and> 2 \<le> length (targetRefs p) \<and> list_all validSourceFactRef (targetRefs p) \<and>
     isText 128 (policyRelease p) \<and> isRefList 10000 (evidence p) \<and>
     isTextOrNull 256 (decisionRef p) \<and>
     (autoAcceptable p \<longrightarrow>
       Provider_link_id_equal \<in> set (rationale p) \<or> Provider_identifier_equal \<in> set (rationale p))"

section \<open>Membership\<close>

lemma set_pairs: "p \<in> set (pairs xs) \<Longrightarrow> fst p \<in> set xs \<and> snd p \<in> set xs"
  by (induction xs) auto

lemma set_matchProposals:
  "set (matchProposals facts o') =
     set (stageAProposals facts o') \<union> set (stageBProposals facts o') \<union> set (stageCProposals facts o')"
  by (simp add: matchProposals_def Un_assoc)

lemma set_stageB:
  "set (stageBProposals facts o') = draftProposal o' (stageBDrafts facts o') ` set (stageBDrafts facts o')"
  by (auto simp: stageBProposals_def Let_def)

lemma set_drafts:
  "set (stageBDrafts facts o') =
     {d. \<exists>left\<in>set facts. \<exists>right\<in>set facts. settlementState left = Pending \<and> settlementState right = Posted \<and>
        stageBDraft o' (left, right) = Some d}"
  by (auto simp: stageBDrafts_def set_map_filter)

lemma stageBRationale_reasons:
  "Provider_link_id_equal \<in> set (stageBRationale lnk inWindow l r) \<longleftrightarrow> lnk"
  "Provider_identifier_equal \<notin> set (stageBRationale lnk inWindow l r)"
  "Multiple_candidates \<notin> set (stageBRationale lnk inWindow l r)"
  by (simp_all add: stageBRationale_def)

lemma stageBDraft_SomeD:
  assumes "stageBDraft o' (left, right) = Some d"
  shows "draftLeft d = left" "draftRight d = right" "sameScope (matchScope left) (matchScope right)"
    "linked d \<longleftrightarrow> sameLink left right"
    "Provider_link_id_equal \<in> set (draftRationale d) \<longleftrightarrow> linked d"
    "Provider_identifier_equal \<notin> set (draftRationale d)" "Multiple_candidates \<notin> set (draftRationale d)"
  using assms by (auto simp: stageBDraft_def Let_def stageBRationale_reasons split: if_splits)

lemma proposalOf_simps [simp]:
  "proposalId (proposalOf k st l r reasons conditions auto release) = pairId k (matchRef l) (matchRef r)"
  "targetRefs (proposalOf k st l r reasons conditions auto release) = [matchRef l, matchRef r]"
  "rationale (proposalOf k st l r reasons conditions auto release) = reasons"
  "rejections (proposalOf k st l r reasons conditions auto release) = conditions"
  "autoAcceptable (proposalOf k st l r reasons conditions auto release) = auto"
  "proposalStatus (proposalOf k st l r reasons conditions auto release) = Proposal_proposed"
  "decisionRef (proposalOf k st l r reasons conditions auto release) = None"
  "proposalMethod (proposalOf k st l r reasons conditions auto release) = Rule_method"
  "policyRelease (proposalOf k st l r reasons conditions auto release) = release"
  "evidence (proposalOf k st l r reasons conditions auto release) = [factId (matchRef l), factId (matchRef r)]"
  by (simp_all add: proposalOf_def)

text \<open>What the provider itself states of two rows: one identifier or one link, in one namespace.\<close>

definition provider_states :: "MatchFact \<Rightarrow> MatchFact \<Rightarrow> bool" where
  "provider_states l r \<longleftrightarrow>
     sameScope (matchScope l) (matchScope r) \<and>
     ((sameIdentifier l r \<and> identifierOrigin l = Provider_origin \<and> identifierOrigin r = Provider_origin) \<or>
      sameLink l r)"

lemma scopeMismatch_Nil: "scopeMismatch a b = [] \<longleftrightarrow> sameScope a b"
  by (auto simp: scopeMismatch_def sameScope_def)

lemma stageA_SomeD:
  assumes "stageAProposal o' q = Some p"
  shows "p = proposalOf Rec_provider_same Stage_A (fst q) (snd q) (rationale p) (rejections p) True (optionRelease o')"
    "Provider_identifier_equal \<in> set (rationale p)" "provider_states (fst q) (snd q)"
  using assms by (auto simp: stageAProposal_def Let_def scopeMismatch_Nil provider_states_def split: if_splits)

lemma stageC_SomeD:
  assumes "stageCProposal o' q = Some p"
  shows "p = proposalOf Rec_funded_by Stage_C (fst q) (snd q) (rationale p) (rejections p) False (optionRelease o')"
    "Provider_identifier_equal \<notin> set (rationale p)" "Provider_link_id_equal \<notin> set (rationale p)"
  using assms by (auto simp: stageCProposal_def Let_def split: if_splits option.splits)

text \<open>Each proposal comes from a pair of the facts; the three stages say which.\<close>

lemma proposal_origin:
  assumes "p \<in> set (matchProposals facts o')"
  obtains l r k st reasons conditions auto where "l \<in> set facts" "r \<in> set facts"
    "p = proposalOf k st l r reasons conditions auto (optionRelease o')"
    "auto \<longleftrightarrow> Provider_link_id_equal \<in> set reasons \<or> Provider_identifier_equal \<in> set reasons"
    "auto \<longrightarrow> provider_states l r"
proof -
  from assms consider (a) "p \<in> set (stageAProposals facts o')" | (b) "p \<in> set (stageBProposals facts o')"
    | (c) "p \<in> set (stageCProposals facts o')" by (auto simp: set_matchProposals)
  then show thesis
  proof cases
    case a
    then obtain q where q: "q \<in> set (pairs facts)" "stageAProposal o' q = Some p"
      by (auto simp: stageAProposals_def set_map_filter)
    from set_pairs [OF q(1)] stageA_SomeD(2,3) [OF q(2)] show thesis
      by (intro that [OF _ _ stageA_SomeD(1) [OF q(2)]]) auto
  next
    case b
    then obtain d l r where d: "l \<in> set facts" "r \<in> set facts" "stageBDraft o' (l, r) = Some d"
      "p = draftProposal o' (stageBDrafts facts o') d" by (auto simp: set_stageB set_drafts)
    note facts = stageBDraft_SomeD [OF d(3)]
    show thesis
      by (rule that [OF d(1,2) d(4) [unfolded draftProposal_def facts(1,2)]])
        (use facts in \<open>auto simp: provider_states_def\<close>)
  next
    case c
    then obtain q where q: "q \<in> set (pairs facts)" "stageCProposal o' q = Some p"
      by (auto simp: stageCProposals_def set_map_filter)
    from set_pairs [OF q(1)] stageC_SomeD(2,3) [OF q(2)] show thesis
      by (intro that [OF _ _ stageC_SomeD(1) [OF q(2)]]) auto
  qed
qed

text \<open>
  Property C39: a rule never decides. Every proposal is proposed, by rule, without a decision; it is marked
  as acceptable automatically exactly when its reasons name a provider link or identifier, and only when the
  provider itself issued one identifier or link for both rows inside one namespace. The converse of the last
  does not hold and is not claimed: equal identifiers alone do not make a proposal automatic.
\<close>

theorem automatic_only_by_provider:
  "list_all (\<lambda>p. proposalStatus p = Proposal_proposed \<and> proposalMethod p = Rule_method \<and> decisionRef p = None \<and>
     (autoAcceptable p = (Provider_link_id_equal \<in> set (rationale p) \<or> Provider_identifier_equal \<in> set (rationale p))) \<and>
     (if autoAcceptable p then \<exists>l r. {l, r} \<subseteq> set facts \<and> targetRefs p = [matchRef l, matchRef r] \<and> provider_states l r
      else True)) (matchProposals facts o')"
  unfolding list_all_iff
proof
  fix p assume "p \<in> set (matchProposals facts o')"
  then obtain l r k st reasons conditions auto where "l \<in> set facts" "r \<in> set facts"
    "p = proposalOf k st l r reasons conditions auto (optionRelease o')"
    "auto \<longleftrightarrow> Provider_link_id_equal \<in> set reasons \<or> Provider_identifier_equal \<in> set reasons"
    "auto \<longrightarrow> provider_states l r" by (rule proposal_origin)
  then show "proposalStatus p = Proposal_proposed \<and> proposalMethod p = Rule_method \<and> decisionRef p = None \<and>
     (autoAcceptable p = (Provider_link_id_equal \<in> set (rationale p) \<or> Provider_identifier_equal \<in> set (rationale p))) \<and>
     (if autoAcceptable p then \<exists>l r. {l, r} \<subseteq> set facts \<and> targetRefs p = [matchRef l, matchRef r] \<and> provider_states l r
      else True)"
    by auto
qed

text \<open>
  What the matcher proposes passes its own validator, with two exceptions. For valid
  references and a valid release, a proposal is valid exactly when its id is at most 512 characters long
  and its two claims have different ids; nothing else can be refused.
\<close>

theorem proposals_validate:
  assumes "p \<in> set (matchProposals facts o')" and "list_all (\<lambda>f. validSourceFactRef (matchRef f)) facts"
    and "isText 128 (optionRelease o')"
  shows "validReconciliationProposal p \<longleftrightarrow>
    length (proposalId p) \<le> 512 \<and> distinct (map factId (targetRefs p))"
proof -
  from assms(1) obtain l r k st reasons conditions auto where p: "l \<in> set facts" "r \<in> set facts"
    "p = proposalOf k st l r reasons conditions auto (optionRelease o')"
    "auto \<longleftrightarrow> Provider_link_id_equal \<in> set reasons \<or> Provider_identifier_equal \<in> set reasons"
    by (rule proposal_origin)
  have refs: "validSourceFactRef (matchRef l)" "validSourceFactRef (matchRef r)"
    using assms(2) p(1,2) by (simp_all add: list_all_iff)
  have "length (js_set [a, b]) = Suc (Suc 0) \<longleftrightarrow> a \<noteq> b" for a b :: string by (simp add: js_set_def)
  then show ?thesis
    using refs assms(3) p(4)
    by (auto simp: p(3) validReconciliationProposal_def isRefList_def isTextOrNull_def validSourceFactRef_def
        isText_def pairId_def)
qed

section \<open>Stage B in any order, and its ambiguity\<close>

lemma mset_map_filter:
  "mset (List.map_filter f xs) = image_mset (the \<circ> f) (filter_mset (\<lambda>x. f x \<noteq> None) (mset xs))"
  by (induction xs) (auto simp: List.map_filter_def)

lemma pair_product: "concat (map (\<lambda>left. map (Pair left) ys) xs) = List.product xs ys"
  by (induction xs) simp_all

lemma mset_drafts:
  assumes "mset facts = mset facts'"
  shows "mset (stageBDrafts facts o') = mset (stageBDrafts facts' o')"
proof -
  have "mset (filter P facts) = mset (filter P facts')" for P using assms by simp
  then have "mset (List.product (filter P facts) (filter Q facts)) = mset (List.product (filter P facts') (filter Q facts'))"
    for P Q by (simp only: pair_product [symmetric] mset_concat_map mset_map)
  then show ?thesis by (simp only: stageBDrafts_def mset_map_filter pair_product)
qed

lemma ambiguous_cong:
  assumes "mset drafts = mset drafts'"
  shows "ambiguous drafts d = ambiguous drafts' d"
proof -
  have "length (filter P drafts) = length (filter P drafts')" for P :: "Draft \<Rightarrow> bool"
    using assms by (metis mset_filter size_mset)
  then show ?thesis by (simp add: ambiguous_def candidatesPerPending_def candidatesPerPosted_def)
qed

lemma mset_stageB: "mset (stageBProposals facts o') = image_mset (draftProposal o' (stageBDrafts facts o')) (mset (stageBDrafts facts o'))"
proof -
  have "image_mset f (mset (filter P xs)) + image_mset f (mset (filter (\<lambda>x. \<not> P x) xs)) = image_mset f (mset xs)"
    for f :: "Draft \<Rightarrow> ReconciliationProposal" and P xs
    by (induction xs) simp_all
  then show ?thesis by (simp add: stageBProposals_def Let_def)
qed

lemma drafts_distinct:
  assumes "distinct facts"
  shows "distinct (map (\<lambda>d. (draftLeft d, draftRight d)) (stageBDrafts facts o'))"
proof -
  have "map (\<lambda>d. (draftLeft d, draftRight d)) (List.map_filter (stageBDraft o') ps) =
      filter (\<lambda>p. stageBDraft o' p \<noteq> None) ps" for ps
    by (induction ps) (auto simp: List.map_filter_def stageBDraft_SomeD(1,2))
  then show ?thesis by (simp add: stageBDrafts_def pair_product distinct_product assms)
qed

lemma several_iff:
  assumes "distinct xs" and "x \<in> set xs" and "P x"
  shows "1 < length (filter P xs) \<longleftrightarrow> (\<exists>y\<in>set xs. y \<noteq> x \<and> P y)"
proof -
  from assms(2) obtain us vs where xs: "xs = us @ x # vs" by (meson split_list)
  have "1 < length (filter P xs) \<longleftrightarrow> filter P us \<noteq> [] \<or> filter P vs \<noteq> []" using assms(3) xs by auto
  then show ?thesis using assms(1) xs by (auto simp: filter_empty_conv)
qed

lemma stageBDraft_pair:
  assumes "d \<in> set (stageBDrafts facts o')"
  shows "draftLeft d \<in> set facts" "draftRight d \<in> set facts"
    "stageBDraft o' (draftLeft d, draftRight d) = Some d"
  using assms by (auto simp: set_drafts stageBDraft_SomeD(1,2))

lemma draft_by_pair:
  assumes "d \<in> set (stageBDrafts facts o')" and "d' \<in> set (stageBDrafts facts o')"
    and "draftLeft d = draftLeft d'" and "draftRight d = draftRight d'"
  shows "d = d'"
proof -
  have "Some d = Some d'"
    using stageBDraft_pair(3) [OF assms(1)] stageBDraft_pair(3) [OF assms(2)] unfolding assms(3,4)
    by (rule trans [OF sym])
  then show ?thesis by (rule option.inject [THEN iffD1])
qed

lemma draftProposal_refs [simp]:
  "targetRefs (draftProposal o' drafts d) = [matchRef (draftLeft d), matchRef (draftRight d)]"
  "autoAcceptable (draftProposal o' drafts d) = linked d"
  by (simp_all add: draftProposal_def)

lemma draftProposal_ambiguous:
  assumes "d \<in> set (stageBDrafts facts o')"
  shows "Multiple_candidates \<in> set (rationale (draftProposal o' drafts d)) \<longleftrightarrow> ambiguous drafts d"
  using stageBDraft_SomeD(7) [OF stageBDraft_pair(3) [OF assms]] by (auto simp: draftProposal_def)

lemma ambiguous_iff:
  assumes "distinct (map (\<lambda>f. factId (matchRef f)) facts)" and d: "d \<in> set (stageBDrafts facts o')"
  shows "ambiguous (stageBDrafts facts o') d \<longleftrightarrow>
    \<not> linked d \<and> (\<exists>d'\<in>set (stageBDrafts facts o'). d' \<noteq> d \<and> \<not> linked d' \<and>
      (draftLeft d' = draftLeft d \<or> draftRight d' = draftRight d))"
proof -
  let ?ds = "stageBDrafts facts o'"
  have distinct: "distinct ?ds"
    using drafts_distinct [of facts o'] assms(1) by (metis distinct_map)
  have inj: "inj_on (\<lambda>f. factId (matchRef f)) (set facts)" using assms(1) by (simp add: distinct_map)
  have left: "factId (matchRef (draftLeft d')) = factId (matchRef (draftLeft d)) \<longleftrightarrow> draftLeft d' = draftLeft d"
    and right: "factId (matchRef (draftRight d')) = factId (matchRef (draftRight d)) \<longleftrightarrow> draftRight d' = draftRight d"
    if "d' \<in> set ?ds" for d'
    using inj_onD [OF inj] stageBDraft_pair(1,2) [OF that] stageBDraft_pair(1,2) [OF d] by metis+
  show ?thesis
  proof (cases "linked d")
    case False
    have "1 < candidatesPerPending ?ds (factId (matchRef (draftLeft d))) \<longleftrightarrow>
        (\<exists>d'\<in>set ?ds. d' \<noteq> d \<and> \<not> linked d' \<and> draftLeft d' = draftLeft d)"
      unfolding candidatesPerPending_def using several_iff [OF distinct d] False left by (smt (verit))
    moreover have "1 < candidatesPerPosted ?ds (factId (matchRef (draftRight d))) \<longleftrightarrow>
        (\<exists>d'\<in>set ?ds. d' \<noteq> d \<and> \<not> linked d' \<and> draftRight d' = draftRight d)"
      unfolding candidatesPerPosted_def using several_iff [OF distinct d] False right by (smt (verit))
    ultimately show ?thesis using False by (auto simp: ambiguous_def)
  qed (simp add: ambiguous_def)
qed

section \<open>Concrete facts\<close>

definition ex_fact :: "string \<Rightarrow> SettlementState \<Rightarrow> MatchFact" where
  "ex_fact ref state = \<lparr>matchRef = \<lparr>factKind = TransactionKind, factId = ref, factRevision = ''1''\<rparr>,
     matchScope = \<lparr>scopeSourceId = ''v'', credentialEpoch = ''1'', accountNamespace = ''a''\<rparr>,
     matchAccount = ''a'', externalId = None, identifierOrigin = Unknown_origin, providerLinkId = None,
     settlementState = state, matchQuantity = exactQuantity ''JPY'' (integerDecimal 3),
     matchOccurred = LocalDate ''2024-01-05'' None Provider, counterparty = None,
     statementPeriodText = None, matchOwner = None\<rparr>"

definition ex_facts :: "MatchFact list" where
  "ex_facts = [ex_fact ''p'' Pending, ex_fact ''q'' Posted, ex_fact ''r'' Posted]"

definition ex_proposal :: "string \<Rightarrow> ReconciliationProposal" where
  "ex_proposal ref = proposalOf Rec_pending_to_posted Stage_B (ex_fact ''p'' Pending) (ex_fact ref Posted)
     [Status_pending_to_posted, Same_identifier_namespace, Same_source_account, No_provider_link_id,
      Date_within_window, Amount_equal, Multiple_candidates]
     [Provider_link_absent, Counterparty_differs, Amount_differs, Rejected_not_unique] False
     RECONCILIATION_POLICY_RELEASE"

definition ex_draft :: "string \<Rightarrow> Draft" where
  "ex_draft ref = \<lparr>draftLeft = ex_fact ''p'' Pending, draftRight = ex_fact ref Posted,
     draftRationale = [Status_pending_to_posted, Same_identifier_namespace, Same_source_account,
       No_provider_link_id, Date_within_window, Amount_equal],
     draftRejections = [Provider_link_absent, Counterparty_differs, Amount_differs, Rejected_not_unique],
     linked = False\<rparr>"

lemma ex_pair: "stageBDraft DEFAULT_MATCH_OPTIONS (ex_fact ''p'' Pending, ex_fact ref Posted) = Some (ex_draft ref)"
proof -
  have "postedInWindow (LocalDate ''2024-01-05'' None Provider) (LocalDate ''2024-01-05'' None Provider) 5"
    by code_simp
  moreover have "amountsEqual (exactQuantity ''JPY'' (integerDecimal 3)) (exactQuantity ''JPY'' (integerDecimal 3))"
    by code_simp
  ultimately show ?thesis
    by (simp add: stageBDraft_def ex_fact_def ex_draft_def sameScope_def sameLink_def stageBRationale_def
        stageBConditions_def DEFAULT_MATCH_OPTIONS_def)
qed

lemma ex_drafts: "stageBDrafts ex_facts DEFAULT_MATCH_OPTIONS = [ex_draft ''q'', ex_draft ''r'']"
proof -
  have "settlementState (ex_fact ref state) = state" for ref state by (simp add: ex_fact_def)
  then show ?thesis by (simp add: stageBDrafts_def ex_facts_def List.map_filter_def ex_pair)
qed

lemma ex_stageB: "stageBProposals ex_facts DEFAULT_MATCH_OPTIONS = [ex_proposal ''q'', ex_proposal ''r'']"
proof -
  have "ambiguous [ex_draft ''q'', ex_draft ''r''] (ex_draft ref)" for ref
    by (simp add: ambiguous_def candidatesPerPending_def ex_draft_def)
  then have "draftProposal DEFAULT_MATCH_OPTIONS [ex_draft ''q'', ex_draft ''r''] (ex_draft ref) = ex_proposal ref" for ref
    by (simp add: draftProposal_def ex_proposal_def) (simp add: ex_draft_def js_set_def DEFAULT_MATCH_OPTIONS_def)
  then show ?thesis by (simp add: stageBProposals_def ex_drafts Let_def) (simp add: ex_draft_def)
qed

lemma proposals_validate_witness: "validReconciliationProposal (ex_proposal ''q'')"
proof -
  have member: "ex_proposal ''q'' \<in> set (matchProposals ex_facts DEFAULT_MATCH_OPTIONS)"
    by (simp add: set_matchProposals ex_stageB)
  have refs: "list_all (\<lambda>f. validSourceFactRef (matchRef f)) ex_facts"
    by (simp add: ex_facts_def ex_fact_def validSourceFactRef_def isText_def)
  have release: "isText 128 (optionRelease DEFAULT_MATCH_OPTIONS)"
    by (simp add: DEFAULT_MATCH_OPTIONS_def RECONCILIATION_POLICY_RELEASE_def isText_def)
  have "length (proposalId (ex_proposal ''q'')) \<le> 512" "distinct (map factId (targetRefs (ex_proposal ''q'')))"
    by (simp_all add: ex_proposal_def ex_fact_def pairId_def refText_def)
  then show ?thesis using proposals_validate [OF member refs release] by (rule iffD2 [rotated, OF conjI])
qed

text \<open>
  Stage B finds the same pairs in any order. The proposals for the same facts listed in
  another order are the same proposals, with the same reasons, ambiguity and ids.
\<close>

theorem posting_candidates_order_free:
  assumes "mset facts = mset facts'"
  shows "mset (stageBProposals facts o') = mset (stageBProposals facts' o')"
proof -
  have drafts: "mset (stageBDrafts facts o') = mset (stageBDrafts facts' o')" by (rule mset_drafts [OF assms])
  have "draftProposal o' (stageBDrafts facts o') = draftProposal o' (stageBDrafts facts' o')"
    by (intro ext) (simp only: draftProposal_def ambiguous_cong [OF drafts])
  with drafts show ?thesis by (simp add: mset_stageB)
qed

lemma posting_candidates_order_free_witness:
  "mset (stageBProposals (rev ex_facts) DEFAULT_MATCH_OPTIONS) = {#ex_proposal ''q'', ex_proposal ''r''#}"
  using posting_candidates_order_free [of ex_facts "rev ex_facts" DEFAULT_MATCH_OPTIONS] by (simp add: ex_stageB)

text \<open>
  A heuristic candidate says when it is not the only one. For facts with different ids, a
  stage B proposal the provider did not link carries \<open>multiple_candidates\<close> exactly when another such
  proposal shares its pending row or its posted row; one the provider linked never does.
\<close>

theorem ambiguity_is_exact:
  assumes "distinct (map (\<lambda>f. factId (matchRef f)) facts)" and "p \<in> set (stageBProposals facts o')"
  shows "Multiple_candidates \<in> set (rationale p) \<longleftrightarrow>
    \<not> autoAcceptable p \<and>
    (\<exists>q\<in>set (stageBProposals facts o'). \<not> autoAcceptable q \<and> targetRefs q \<noteq> targetRefs p \<and>
       (hd (targetRefs q) = hd (targetRefs p) \<or> List.last (targetRefs q) = List.last (targetRefs p)))"
proof -
  let ?ds = "stageBDrafts facts o'"
  from assms(2) obtain d where d: "d \<in> set ?ds" "p = draftProposal o' ?ds d" by (auto simp: set_stageB)
  have inj: "inj_on (\<lambda>f. factId (matchRef f)) (set facts)" using assms(1) by (simp add: distinct_map)
  have left: "matchRef (draftLeft d') = matchRef (draftLeft d) \<longleftrightarrow> draftLeft d' = draftLeft d"
    and right: "matchRef (draftRight d') = matchRef (draftRight d) \<longleftrightarrow> draftRight d' = draftRight d"
    if "d' \<in> set ?ds" for d'
    using inj_onD [OF inj] stageBDraft_pair(1,2) [OF that] stageBDraft_pair(1,2) [OF d(1)] by metis+
  have same: "targetRefs (draftProposal o' ?ds d') = targetRefs p \<longleftrightarrow> d' = d" if "d' \<in> set ?ds" for d'
    using left [OF that] right [OF that] draft_by_pair [OF that d(1)]
    by (auto simp: d(2))
  have "(\<exists>q\<in>set (stageBProposals facts o'). \<not> autoAcceptable q \<and> targetRefs q \<noteq> targetRefs p \<and>
       (hd (targetRefs q) = hd (targetRefs p) \<or> List.last (targetRefs q) = List.last (targetRefs p))) \<longleftrightarrow>
     (\<exists>d'\<in>set ?ds. d' \<noteq> d \<and> \<not> linked d' \<and> (draftLeft d' = draftLeft d \<or> draftRight d' = draftRight d))"
    unfolding set_stageB bex_simps
    by (rule bex_cong [OF refl])
      (use left right same in \<open>auto simp: d\<close>)
  then show ?thesis
    using ambiguous_iff [OF assms(1) d(1)] draftProposal_ambiguous [OF d(1)] by (simp add: d(2))
qed

lemma ambiguity_is_exact_witness:
  "Multiple_candidates \<in> set (rationale (ex_proposal ''q''))"
proof -
  have ids: "distinct (map (\<lambda>f. factId (matchRef f)) ex_facts)" by (simp add: ex_facts_def ex_fact_def)
  have "ex_proposal ''q'' \<in> set (stageBProposals ex_facts DEFAULT_MATCH_OPTIONS)" by (simp add: ex_stageB)
  from ambiguity_is_exact [OF ids this] show ?thesis
    by (simp add: ex_stageB) (simp add: ex_proposal_def ex_fact_def)
qed

end
