(* ===== verification/Rewards.thy ===== *)
theory Rewards
  imports Decisions Civil_Time
begin

text \<open>
  Reward programs, \<open>packages/domain/src/rewards.ts\<close>: holdings made of buckets, what of a holding may be
  consumed, which buckets an offer accepts, the simulation of one conversion, and the walk over the
  observed events of a redemption. A field whose type is one literal (\<open>consumable: false\<close>,
  \<open>netAssetEligible: false\<close>, \<open>basis: "policy-estimated"\<close>) carries nothing and is left out of its record.
  Reason codes are the constructors of closed datatypes.
\<close>

section \<open>Data\<close>

definition REWARD_POLICY_RELEASE :: string where
  "REWARD_POLICY_RELEASE = ''reward-model-v2''"

definition CONVERSION_SEARCH_RELEASE :: string where
  "CONVERSION_SEARCH_RELEASE = ''conversion-search-v1''"

datatype BucketKind = Regular | Restricted | Time_limited | Pending_award | Qualification | Unclassified

definition BUCKET_KINDS :: "BucketKind list" where
  "BUCKET_KINDS = [Regular, Restricted, Time_limited, Pending_award, Qualification, Unclassified]"

definition CONSUMABLE_BUCKET_KINDS :: "BucketKind list" where
  "CONSUMABLE_BUCKET_KINDS = [Regular, Restricted, Time_limited]"

record RewardProgram =
  programId :: string
  institutionRef :: string
  programRef :: string
  programUnit :: string
  termsEvidenceRefs :: "string list"
  programRelease :: string

record RewardBucket =
  bucketRef :: string
  bucketProgram :: string
  bucketHolding :: string
  bucketKind :: BucketKind
  restrictionRefs :: "string list"
  bucketQuantity :: Quantity
  observedExpiry :: "TemporalValue option"
  bucketObservedAt :: TemporalValue
  bucketFacts :: "string list"

record RewardHolding =
  holdingRef :: string
  holdingProgram :: string
  holdingUnit :: string
  buckets :: "RewardBucket list"

record QualificationMeasure =
  measureRef :: string
  measureProgram :: string
  metricRef :: string
  measureQuantity :: Quantity
  measurePeriod :: TemporalValue
  measureFacts :: "string list"

datatype MembershipSource = Provider_membership | Self_reported

record MembershipState =
  memberProgram :: string
  memberHolding :: string
  tier :: string
  memberValid :: TemporalValue
  memberSource :: MembershipSource
  memberEvidence :: "string list"

datatype RuleVerification = Verified | Needs_rule_verification

text \<open>Every reason or uncertainty code of a holding, an estimate or an eligibility.\<close>

datatype RewardCode =
    History_incomplete | History_completeness_unknown | No_qualifying_activity_observed
  | Rule_not_verified | Rule_family_unsupported | Rule_out_of_force | Rule_bucket_kind_not_covered
  | Bucket_kind_unclassified | Membership_required | Membership_self_reported
  | Membership_not_retroactive | Membership_out_of_scope | Deadline_zone_assumed
  | Provider_and_policy_differ | Provider_expiry_only | No_expiry_under_verified_terms
  | Acquisition_date_unknown | Activity_date_unknown | Deadline_passed | Rule_transition_unconfirmed
  | Fixed_deadline_not_derivable | Qualifying_activity_policy_missing
  | Bucket_unit_mismatch | Qualification_not_consumable | Award_not_yet_held
  | Qualification_measures_reported_separately | Not_consumable | Bucket_kind_not_eligible
  | Restriction_not_eligible | Offer_not_valid_at_clock | Application_deadline_passed

record ConversionOffer =
  offerId :: string
  offerVersion :: string
  sourceProgramRef :: string
  destinationProgramRef :: string
  fromUnitRef :: string
  toUnitRef :: string
  offerRatio :: ExactRatio
  minimumUse :: ExactDecimal
  increment :: ExactDecimal
  maximumPerRequest :: "ExactDecimal option"
  sharedQuotaRef :: "string option"
  fixedFees :: "Quantity list"
  variableFeePolicyRef :: "string option"
  eligibilityPolicyRef :: string
  eligibleBucketKinds :: "BucketKind list"
  eligibleRestrictionRefs :: "string list"
  eligibleTiers :: "string list option"
  offerValidTime :: TemporalValue
  applicationDeadline :: TemporalValue
  processingPolicyRef :: string
  processingDays :: int
  roundingPolicyRef :: string
  offerRounding :: Rounding
  cancellationPolicyRef :: "string option"
  offerEvidence :: "string list"
  offerVerification :: RuleVerification

datatype OfferEligibilityState = Available | Not_eligible | Eligibility_needs_verification

record OfferEligibility =
  eligibilityOffer :: string
  eligibilityState :: OfferEligibilityState
  eligible :: Quantity
  eligibleBucketRefs :: "string list"
  eligibilityExcluded :: "(string \<times> RewardCode) list"
  eligibilityCodes :: "RewardCode list"

datatype ConversionCode =
    Below_minimum | Capped_by_maximum | Rounded_down_to_increment | Plan_unit_mismatch
  | Quantity_not_exact | Offer_not_verified | Credit_is_not_the_application | Step_error ValueErrorCode
  | Plan_invalid_ratio

record ConversionPlan =
  planOffer :: string
  planOfferVersion :: string
  use :: Quantity
  receive :: Quantity
  planRemainder :: Quantity
  planFees :: "Quantity list"
  feasible :: bool
  planReasons :: "ConversionCode list"
  planConditions :: "string list"
  planRelease :: string

datatype RedemptionStage = Requested | Debited | Credited | Cancelled | Returned

record RedemptionEvent =
  redemptionRef :: string
  redemptionStage :: RedemptionStage
  redemptionQuantity :: Quantity
  returnedToBucketRef :: "string option"
  redemptionAt :: TemporalValue
  redemptionEvidence :: "string list"

datatype RedemptionCode =
    Application_is_not_a_credit | Return_awaits_observation | Return_bucket_unknown

datatype RedemptionViolation =
    Debit_unit_mismatch | Credit_unit_mismatch | Credit_before_debit | Return_unit_mismatch

record RedemptionPosition =
  positionStage :: RedemptionStage
  sourceHeld :: Quantity
  inTransit :: Quantity
  destinationCredited :: Quantity
  positionCodes :: "RedemptionCode list"

record ReturnedBucket =
  returnedRef :: string
  returnedQuantity :: Quantity
  returnedBy :: string

record RedemptionTrace =
  positions :: "RedemptionPosition list"
  violations :: "RedemptionViolation list"
  returnedBuckets :: "ReturnedBucket list"

datatype RewardValueKind =
    Provider_displayed | Cash_like_redemption_estimate | Planned_redemption_estimate | Realized_benefit_estimate

datatype SourceAuthority = Provider_reported | Policy_estimated

record RewardValueClaim =
  claimKind :: RewardValueKind
  claimQuantity :: Quantity
  claimOffer :: "string option"
  claimConditions :: "string list"
  sourceAuthority :: SourceAuthority

section \<open>Validators\<close>

definition isRef :: "string \<Rightarrow> bool" where
  "isRef s \<longleftrightarrow> isText 512 s"

definition orNull :: "('a \<Rightarrow> bool) \<Rightarrow> 'a option \<Rightarrow> bool" where
  "orNull guard x = (case x of None \<Rightarrow> True | Some v \<Rightarrow> guard v)"

definition validRewardProgram :: "RewardProgram \<Rightarrow> bool" where
  "validRewardProgram p \<longleftrightarrow>
     isRef (programId p) \<and> isRef (institutionRef p) \<and> isRef (programRef p) \<and> isText 128 (programUnit p) \<and>
     isRefList 100 (termsEvidenceRefs p) \<and> isText 64 (programRelease p)"

definition validRewardBucket :: "RewardBucket \<Rightarrow> bool" where
  "validRewardBucket b \<longleftrightarrow>
     isRef (bucketRef b) \<and> isRef (bucketProgram b) \<and> isRef (bucketHolding b) \<and>
     isRefList 100 (restrictionRefs b) \<and> validQuantity (bucketQuantity b) \<and>
     orNull validTemporalValue (observedExpiry b) \<and> validTemporalValue (bucketObservedAt b) \<and>
     isRefList 100 (bucketFacts b)"

definition validQualificationMeasure :: "QualificationMeasure \<Rightarrow> bool" where
  "validQualificationMeasure m \<longleftrightarrow>
     isRef (measureRef m) \<and> isRef (measureProgram m) \<and> isRef (metricRef m) \<and>
     validQuantity (measureQuantity m) \<and> validTemporalValue (measurePeriod m) \<and>
     isRefList 100 (measureFacts m)"

definition validMembershipState :: "MembershipState \<Rightarrow> bool" where
  "validMembershipState s \<longleftrightarrow>
     isRef (memberProgram s) \<and> isRef (memberHolding s) \<and> isText 128 (tier s) \<and>
     validTemporalValue (memberValid s) \<and> isRefList 100 (memberEvidence s)"

definition validRounding :: "Rounding \<Rightarrow> bool" where
  "validRounding r \<longleftrightarrow> roundScale r \<le> DECIMAL_DIGIT_LIMIT"

definition validConversionOffer :: "ConversionOffer \<Rightarrow> bool" where
  "validConversionOffer o' \<longleftrightarrow>
     isRef (offerId o') \<and> isText 64 (offerVersion o') \<and> isRef (sourceProgramRef o') \<and>
     isRef (destinationProgramRef o') \<and> isText 128 (fromUnitRef o') \<and> isText 128 (toUnitRef o') \<and>
     validExactRatio (offerRatio o') \<and> validExactDecimal (minimumUse o') \<and> validExactDecimal (increment o') \<and>
     orNull validExactDecimal (maximumPerRequest o') \<and> isTextOrNull 512 (sharedQuotaRef o') \<and>
     length (fixedFees o') \<le> 20 \<and> list_all validQuantity (fixedFees o') \<and>
     isTextOrNull 512 (variableFeePolicyRef o') \<and> isRef (eligibilityPolicyRef o') \<and>
     length (eligibleBucketKinds o') \<le> 10 \<and> isRefList 100 (eligibleRestrictionRefs o') \<and>
     orNull (isRefList 100) (eligibleTiers o') \<and> validTemporalValue (offerValidTime o') \<and>
     validTemporalValue (applicationDeadline o') \<and> isRef (processingPolicyRef o') \<and>
     0 \<le> processingDays o' \<and> processingDays o' \<le> 3650 \<and> isRef (roundingPolicyRef o') \<and>
     validRounding (offerRounding o') \<and> isTextOrNull 512 (cancellationPolicyRef o') \<and>
     isRefList 100 (offerEvidence o')"

section \<open>The summary of a holding\<close>

record KindTotal =
  totalKind :: BucketKind
  totalQuantity :: Quantity
  totalBuckets :: "string list"

record RewardHoldingSummary =
  summaryHolding :: string
  summaryProgram :: string
  summaryUnit :: string
  consumable :: Quantity
  byKind :: "KindTotal list"
  summaryExcluded :: "(string \<times> BucketKind \<times> RewardCode) list"
  summaryMeasures :: "QualificationMeasure list"
  summaryCodes :: "RewardCode list"
  summaryError :: "ValueError option"

definition bucketError :: "Quantity list \<Rightarrow> string \<Rightarrow> ValueError option" where
  "bucketError quantities u = (case sumQuantities u quantities of Inl e \<Rightarrow> Some e | Inr _ \<Rightarrow> None)"

text \<open>A sum that failed is a conflict with the error's code, never a smaller number.\<close>

definition summedOr :: "string \<Rightarrow> Quantity list \<Rightarrow> Quantity" where
  "summedOr u quantities =
     (case sumQuantities u quantities of
        Inr q \<Rightarrow> q
      | Inl e \<Rightarrow> \<lparr>unitRef = u, quantityValue = AbsentValue Conflict (value_error_text (errorCode e))\<rparr>)"

definition isConsumable :: "RewardBucket \<Rightarrow> bool" where
  "isConsumable b \<longleftrightarrow> bucketKind b \<in> set CONSUMABLE_BUCKET_KINDS"

definition excludedFrom :: "string \<Rightarrow> RewardBucket \<Rightarrow> (string \<times> BucketKind \<times> RewardCode) list" where
  "excludedFrom u b =
     (if unitRef (bucketQuantity b) \<noteq> u then [(bucketRef b, bucketKind b, Bucket_unit_mismatch)]
      else if isConsumable b then []
      else [(bucketRef b, bucketKind b,
         if bucketKind b = Unclassified then Bucket_kind_unclassified
         else if bucketKind b = Qualification then Qualification_not_consumable else Award_not_yet_held)])"

definition kindTotal :: "RewardHolding \<Rightarrow> BucketKind \<Rightarrow> KindTotal option" where
  "kindTotal h k =
     (let grp = filter (\<lambda>b. bucketKind b = k \<and> unitRef (bucketQuantity b) = holdingUnit h) (buckets h)
      in if grp = [] then None
         else Some \<lparr>totalKind = k, totalQuantity = summedOr (holdingUnit h) (map bucketQuantity grp),
           totalBuckets = map bucketRef grp\<rparr>)"

definition summarizeHolding :: "RewardHolding \<Rightarrow> QualificationMeasure list \<Rightarrow> RewardHoldingSummary" where
  "summarizeHolding h qualifications =
     (let quantities = map bucketQuantity (filter isConsumable (buckets h));
          unclassified = list_ex (\<lambda>b. bucketKind b = Unclassified) (buckets h);
          own = filter (\<lambda>m. measureProgram m = holdingProgram h) qualifications
      in \<lparr>summaryHolding = holdingRef h, summaryProgram = holdingProgram h, summaryUnit = holdingUnit h,
          consumable =
            (if unclassified
             then \<lparr>unitRef = holdingUnit h, quantityValue = AbsentValue Missing ''bucket_kind_unclassified''\<rparr>
             else summedOr (holdingUnit h) quantities),
          byKind = List.map_filter (kindTotal h) BUCKET_KINDS,
          summaryExcluded = concat (map (excludedFrom (holdingUnit h)) (buckets h)),
          summaryMeasures = own,
          summaryCodes =
            (if unclassified then [Bucket_kind_unclassified] else []) @
            (if own \<noteq> [] then [Qualification_measures_reported_separately] else []),
          summaryError = bucketError quantities (holdingUnit h)\<rparr>)"

definition qualificationMeasures :: "RewardHolding \<Rightarrow> QualificationMeasure list \<Rightarrow> QualificationMeasure list" where
  "qualificationMeasures h extra =
     map (\<lambda>b. \<lparr>measureRef = bucketRef b, measureProgram = bucketProgram b,
         metricRef = ''reward.qualification-measure'', measureQuantity = bucketQuantity b,
         measurePeriod = bucketObservedAt b, measureFacts = bucketFacts b\<rparr>)
       (filter (\<lambda>b. bucketKind b = Qualification) (buckets h)) @
     filter (\<lambda>m. measureProgram m = holdingProgram h) extra"

section \<open>Offer eligibility\<close>

definition pushCode :: "'a list \<Rightarrow> 'a \<Rightarrow> 'a list" where
  "pushCode codes code = (if code \<in> set codes then codes else codes @ [code])"

definition offerRefOf :: "ConversionOffer \<Rightarrow> string" where
  "offerRefOf o' = offerId o' @ ''@'' @ offerVersion o'"

definition notEligible :: "ConversionOffer \<Rightarrow> RewardBucket \<Rightarrow> RewardCode option" where
  "notEligible o' b =
     (if unitRef (bucketQuantity b) \<noteq> fromUnitRef o' then Some Bucket_unit_mismatch
      else if bucketKind b = Unclassified then Some Bucket_kind_unclassified
      else if bucketKind b = Qualification \<or> bucketKind b = Pending_award then Some Not_consumable
      else if bucketKind b \<notin> set (eligibleBucketKinds o') then Some Bucket_kind_not_eligible
      else if filter (\<lambda>r. r \<notin> set (eligibleRestrictionRefs o')) (restrictionRefs b) \<noteq> []
      then Some Restriction_not_eligible else None)"

definition membershipCodes :: "ConversionOffer \<Rightarrow> MembershipState list \<Rightarrow> RewardCode list" where
  "membershipCodes o' membership =
     (case eligibleTiers o' of
        None \<Rightarrow> []
      | Some tiers \<Rightarrow>
          (let matching = filter (\<lambda>s. tier s \<in> set tiers) membership
           in if matching = [] then [Membership_out_of_scope]
              else if list_ex (\<lambda>s. memberSource s = Self_reported) matching then [Membership_self_reported]
              else []))"

definition clockCodes :: "ConversionOffer \<Rightarrow> TemporalValue option \<Rightarrow> RewardCode list" where
  "clockCodes o' clock =
     (case clock of
        None \<Rightarrow> []
      | Some now \<Rightarrow>
          (case compareTemporal now (offerValidTime o') of
             Ordered c \<Rightarrow> if c \<noteq> 0 then [Offer_not_valid_at_clock] else [] | _ \<Rightarrow> []) @
          (case compareTemporal now (applicationDeadline o') of
             Ordered c \<Rightarrow> if 0 < c then [Application_deadline_passed] else [] | _ \<Rightarrow> []))"

definition availableForOffer ::
  "RewardBucket list \<Rightarrow> ConversionOffer \<Rightarrow> MembershipState list \<Rightarrow> TemporalValue option \<Rightarrow> OfferEligibility"
where
  "availableForOffer bs o' membership clock =
     (let excluded = List.map_filter (\<lambda>b. map_option (Pair (bucketRef b)) (notEligible o' b)) bs;
          accepted = filter (\<lambda>b. notEligible o' b = None) bs;
          codes = (if list_ex (\<lambda>b. notEligible o' b = Some Bucket_kind_unclassified) bs
              then [Bucket_kind_unclassified] else []) @ membershipCodes o' membership @ clockCodes o' clock
      in \<lparr>eligibilityOffer = offerRefOf o',
          eligibilityState =
            (if offerVerification o' \<noteq> Verified \<or> Membership_out_of_scope \<in> set codes \<or>
                Membership_self_reported \<in> set codes then Eligibility_needs_verification
             else if Offer_not_valid_at_clock \<in> set codes \<or> Application_deadline_passed \<in> set codes \<or>
                accepted = [] then Not_eligible else Available),
          eligible = summedOr (fromUnitRef o') (map bucketQuantity accepted),
          eligibleBucketRefs = map bucketRef accepted,
          eligibilityExcluded = excluded,
          eligibilityCodes =
            (if offerVerification o' \<noteq> Verified then pushCode codes Rule_not_verified else codes)\<rparr>)"

section \<open>The simulation of one conversion\<close>

definition conditionRefs :: "ConversionOffer \<Rightarrow> string list" where
  "conditionRefs o' =
     [eligibilityPolicyRef o', processingPolicyRef o', roundingPolicyRef o'] @
     (case cancellationPolicyRef o' of None \<Rightarrow> [] | Some r \<Rightarrow> if r = [] then [] else [r]) @
     (case variableFeePolicyRef o' of None \<Rightarrow> [] | Some r \<Rightarrow> if r = [] then [] else [r])"

definition infeasible :: "ConversionOffer \<Rightarrow> Quantity \<Rightarrow> Quantity list \<Rightarrow> ConversionCode list \<Rightarrow> ConversionPlan" where
  "infeasible o' q fees reasons =
     (let zero = exactQuantity (fromUnitRef o') (integerDecimal 0)
      in \<lparr>planOffer = offerRefOf o', planOfferVersion = offerVersion o', use = zero,
          receive = exactQuantity (toUnitRef o') (integerDecimal 0),
          planRemainder = (case quantityValue q of ExactValue _ _ \<Rightarrow> q | AbsentValue _ _ \<Rightarrow> zero),
          planFees = fees, feasible = False, planReasons = reasons, planConditions = conditionRefs o',
          planRelease = REWARD_POLICY_RELEASE\<rparr>)"

definition capAt :: "ExactDecimal option \<Rightarrow> ExactDecimal \<Rightarrow> ExactDecimal \<times> ConversionCode list" where
  "capAt maximum balance =
     (case maximum of
        None \<Rightarrow> (balance, [])
      | Some mx \<Rightarrow> if 0 < compareDecimals balance mx then (mx, [Capped_by_maximum]) else (balance, []))"

definition simulateConversion :: "ConversionOffer \<Rightarrow> Quantity \<Rightarrow> Quantity list \<Rightarrow> ConversionPlan" where
  "simulateConversion o' q fees =
     (if unitRef q \<noteq> fromUnitRef o' then infeasible o' q fees [Plan_unit_mismatch]
      else case quantityValue q of
        AbsentValue _ _ \<Rightarrow> infeasible o' q fees [Quantity_not_exact]
      | ExactValue balance _ \<Rightarrow>
          (let (capped, capCodes) = capAt (maximumPerRequest o') balance;
               codes = (if offerVerification o' \<noteq> Verified then [Offer_not_verified] else []) @ capCodes
           in case divideDecimals capped (increment o') (Some \<lparr>roundScale = 0, roundMode = Down\<rparr>) of
                Inl e \<Rightarrow> infeasible o' q fees (codes @ [Step_error (errorCode e)])
              | Inr steps \<Rightarrow>
                  (let used = multiplyDecimals steps (increment o');
                       codes = codes @ (if compareDecimals used capped < 0 then [Rounded_down_to_increment] else [])
                   in if compareDecimals used (minimumUse o') < 0 then
                        infeasible o' q fees (codes @ [Below_minimum])
                      else case multiplyByRatio used (offerRatio o') (Some (offerRounding o')) of
                        Inl _ \<Rightarrow> infeasible o' q fees (codes @ [Plan_invalid_ratio])
                      | Inr received \<Rightarrow>
                          \<lparr>planOffer = offerRefOf o', planOfferVersion = offerVersion o',
                           use = exactQuantity (fromUnitRef o') used,
                           receive = exactQuantity (toUnitRef o') received,
                           planRemainder = exactQuantity (fromUnitRef o') (subtractDecimals balance used),
                           planFees = fees, feasible = (offerVerification o' = Verified),
                           planReasons = codes @ [Credit_is_not_the_application],
                           planConditions = conditionRefs o', planRelease = REWARD_POLICY_RELEASE\<rparr>)))"

definition cashLikeRedemptionEstimate :: "ConversionOffer \<Rightarrow> ConversionPlan \<Rightarrow> RewardValueClaim option" where
  "cashLikeRedemptionEstimate o' plan =
     (if \<not> feasible plan \<or> planOffer plan \<noteq> offerRefOf o' then None
      else Some \<lparr>claimKind = Cash_like_redemption_estimate, claimQuantity = receive plan,
        claimOffer = Some (planOffer plan), claimConditions = planConditions plan,
        sourceAuthority = Policy_estimated\<rparr>)"

definition providerDisplayedValue :: "Quantity \<Rightarrow> string \<Rightarrow> RewardValueClaim" where
  "providerDisplayedValue q evidenceRef =
     \<lparr>claimKind = Provider_displayed, claimQuantity = q, claimOffer = None,
      claimConditions = [evidenceRef], sourceAuthority = Provider_reported\<rparr>"

section \<open>The life of a redemption\<close>

definition negateValue :: "Quantity \<Rightarrow> ValueState" where
  "negateValue q =
     (case quantityValue q of
        AbsentValue s r \<Rightarrow> AbsentValue s r
      | ExactValue v nv \<Rightarrow>
          ExactValue (if coefficient v = 0 then \<lparr>coefficient = 0, scale = 0\<rparr>
            else \<lparr>coefficient = - coefficient v, scale = scale v\<rparr>) nv)"

definition plusQuantity :: "Quantity \<Rightarrow> Quantity \<Rightarrow> Quantity" where
  "plusQuantity acc amount =
     (case sumQuantities (unitRef acc) [acc, amount] of
        Inr q \<Rightarrow> q
      | Inl _ \<Rightarrow>
          (case quantityValue acc of
             AbsentValue _ _ \<Rightarrow> acc
           | ExactValue _ _ \<Rightarrow> \<lparr>unitRef = unitRef acc, quantityValue = quantityValue amount\<rparr>))"

definition moveQuantity :: "Quantity \<Rightarrow> Quantity \<Rightarrow> Quantity \<Rightarrow> Quantity \<times> Quantity" where
  "moveQuantity source target amount =
     (plusQuantity source \<lparr>unitRef = unitRef source, quantityValue = negateValue amount\<rparr>,
      plusQuantity target amount)"

record RedemptionWalk =
  walkHeld :: Quantity
  walkTransit :: Quantity
  walkCredited :: Quantity
  walkDebited :: bool
  walkTrace :: RedemptionTrace

definition startWalk :: "Quantity \<Rightarrow> string \<Rightarrow> RedemptionWalk" where
  "startWalk initial destination =
     \<lparr>walkHeld = initial, walkTransit = exactQuantity (unitRef initial) (integerDecimal 0),
      walkCredited = exactQuantity destination (integerDecimal 0), walkDebited = False,
      walkTrace = \<lparr>positions = [], violations = [], returnedBuckets = []\<rparr>\<rparr>"

definition violate :: "RedemptionViolation \<Rightarrow> RedemptionWalk \<Rightarrow> RedemptionWalk" where
  "violate v w = w\<lparr>walkTrace := (walkTrace w)\<lparr>violations := violations (walkTrace w) @ [v]\<rparr>\<rparr>"

definition onDebited :: "string \<Rightarrow> Quantity \<Rightarrow> RedemptionWalk \<Rightarrow> RedemptionWalk" where
  "onDebited u q w =
     (if unitRef q \<noteq> u then violate Debit_unit_mismatch w
      else let (h, t) = moveQuantity (walkHeld w) (walkTransit w) q
           in w\<lparr>walkHeld := h, walkTransit := t\<rparr>)\<lparr>walkDebited := True\<rparr>"

definition onCredited :: "string \<Rightarrow> string \<Rightarrow> Quantity \<Rightarrow> RedemptionWalk \<Rightarrow> RedemptionWalk" where
  "onCredited u destination q w =
     (if unitRef q \<noteq> destination then violate Credit_unit_mismatch w
      else if \<not> walkDebited w then violate Credit_before_debit w
      else w\<lparr>walkCredited := plusQuantity (walkCredited w) q,
             walkTransit := exactQuantity u (integerDecimal 0)\<rparr>)"

definition onReturned :: "string \<Rightarrow> RedemptionEvent \<Rightarrow> RedemptionWalk \<Rightarrow> RedemptionWalk" where
  "onReturned u e w =
     (if unitRef (redemptionQuantity e) \<noteq> u then violate Return_unit_mismatch w
      else w\<lparr>walkHeld := plusQuantity (walkHeld w) (redemptionQuantity e),
             walkTransit := exactQuantity u (integerDecimal 0),
             walkTrace := (walkTrace w)\<lparr>returnedBuckets := returnedBuckets (walkTrace w) @
               [\<lparr>returnedRef = (case returnedToBucketRef e of Some r \<Rightarrow> r
                   | None \<Rightarrow> ''bucket:returned:'' @ redemptionRef e),
                 returnedQuantity = redemptionQuantity e, returnedBy = redemptionRef e\<rparr>]\<rparr>\<rparr>)"

definition stageCodes :: "string \<Rightarrow> RedemptionEvent \<Rightarrow> RedemptionCode list" where
  "stageCodes u e =
     (case redemptionStage e of
        Requested \<Rightarrow> [Application_is_not_a_credit]
      | Cancelled \<Rightarrow> [Return_awaits_observation]
      | Returned \<Rightarrow>
          if unitRef (redemptionQuantity e) = u \<and> returnedToBucketRef e = None then [Return_bucket_unknown] else []
      | _ \<Rightarrow> [])"

definition redemptionStep :: "string \<Rightarrow> string \<Rightarrow> RedemptionWalk \<Rightarrow> RedemptionEvent \<Rightarrow> RedemptionWalk" where
  "redemptionStep u destination w e =
     (let w' = (case redemptionStage e of
            Requested \<Rightarrow> w
          | Debited \<Rightarrow> onDebited u (redemptionQuantity e) w
          | Credited \<Rightarrow> onCredited u destination (redemptionQuantity e) w
          | Cancelled \<Rightarrow> w
          | Returned \<Rightarrow> onReturned u e w)
      in w'\<lparr>walkTrace := (walkTrace w')\<lparr>positions := positions (walkTrace w') @
           [\<lparr>positionStage = redemptionStage e, sourceHeld = walkHeld w', inTransit = walkTransit w',
             destinationCredited = walkCredited w', positionCodes = stageCodes u e\<rparr>]\<rparr>\<rparr>)"

definition redemptionPositions :: "Quantity \<Rightarrow> RedemptionEvent list \<Rightarrow> string \<Rightarrow> RedemptionTrace" where
  "redemptionPositions initial events destination =
     walkTrace (foldl (redemptionStep (unitRef initial) destination) (startWalk initial destination) events)"

section \<open>Sums that may fail\<close>

lemma sumQuantities_in:
  "sumQuantities u qs = (case exactOperands qs u of Inl e \<Rightarrow> Inl e | Inr vs \<Rightarrow> Inr (exactQuantity u (sumDecimals vs)))"
  by (simp add: sumQuantities_def)

lemma sum_exact_parts:
  "list_all is_exact qs \<Longrightarrow> sum_list (map dec_value (concat (map exact_part qs))) = sum_list (map amount_value qs)"
  by (induction qs) (auto simp: is_exact_def amount_value_def)

text \<open>A sum is the exact sum of operands that are all exact in the unit, and else a conflict.\<close>

lemma summedOr_exact:
  "exact_in u (summedOr u qs) \<longleftrightarrow> list_all (exact_in u) qs"
  "unitRef (summedOr u qs) = u"
  "list_all (exact_in u) qs \<Longrightarrow> amount_value (summedOr u qs) = sum_list (map amount_value qs)"
proof -
  have ok: "(\<exists>vs. exactOperands qs u = Inr vs) \<longleftrightarrow> list_all (exact_in u) qs"
    by (auto simp: exactOperands_Inr list_all_iff exact_in_def)
  show "exact_in u (summedOr u qs) \<longleftrightarrow> list_all (exact_in u) qs"
    unfolding ok [symmetric] by (auto simp: summedOr_def sumQuantities_def exact_in_def is_exact_def split: sum.splits)
  show "unitRef (summedOr u qs) = u" by (auto simp: summedOr_def sumQuantities_def split: sum.splits)
  show "amount_value (summedOr u qs) = sum_list (map amount_value qs)" if all: "list_all (exact_in u) qs"
  proof -
    have "exactOperands qs u = Inr (concat (map exact_part qs))"
      using all by (auto simp: exactOperands_Inr list_all_iff exact_in_def)
    moreover have "list_all is_exact qs" using all by (auto simp: list_all_iff exact_in_def)
    ultimately show ?thesis
      by (simp add: summedOr_def sumQuantities_def dec_value_sumDecimals sum_exact_parts)
  qed
qed

section \<open>The consumable quantity\<close>

text \<open>What a bucket must be for the consumable sum to exist.\<close>

definition summable :: "string \<Rightarrow> RewardBucket \<Rightarrow> bool" where
  "summable u b \<longleftrightarrow> bucketKind b \<noteq> Unclassified \<and> (isConsumable b \<longrightarrow> exact_in u (bucketQuantity b))"

lemma consumable_sum:
  "exact_in (holdingUnit h) (consumable (summarizeHolding h qs)) \<longleftrightarrow> list_all (summable (holdingUnit h)) (buckets h)"
  "list_all (summable (holdingUnit h)) (buckets h) \<Longrightarrow> amount_value (consumable (summarizeHolding h qs)) =
     sum_list (map (\<lambda>b. if isConsumable b then amount_value (bucketQuantity b) else 0) (buckets h))"
proof -
  let ?u = "holdingUnit h"
  let ?qs = "map bucketQuantity (filter isConsumable (buckets h))"
  have all: "list_all (summable ?u) (buckets h) \<longleftrightarrow>
      \<not> list_ex (\<lambda>b. bucketKind b = Unclassified) (buckets h) \<and> list_all (exact_in ?u) ?qs"
    by (auto simp: summable_def list_all_iff list_ex_iff)
  show "exact_in ?u (consumable (summarizeHolding h qs)) \<longleftrightarrow> list_all (summable ?u) (buckets h)"
    unfolding all by (simp add: summarizeHolding_def Let_def summedOr_exact(1)) (simp add: exact_in_def is_exact_def)
  assume "list_all (summable ?u) (buckets h)"
  moreover have "sum_list (map amount_value (map bucketQuantity (filter isConsumable bs))) =
      sum_list (map (\<lambda>b. if isConsumable b then amount_value (bucketQuantity b) else 0) bs)" for bs
    by (induction bs) simp_all
  ultimately show "amount_value (consumable (summarizeHolding h qs)) =
     sum_list (map (\<lambda>b. if isConsumable b then amount_value (bucketQuantity b) else 0) (buckets h))"
    unfolding all by (simp add: summarizeHolding_def Let_def summedOr_exact(3))
qed

lemma kind_totals_refs:
  "mset (concat (map totalBuckets (List.map_filter (kindTotal h) BUCKET_KINDS))) =
     mset (map bucketRef (filter (\<lambda>b. unitRef (bucketQuantity b) = holdingUnit h) (buckets h)))"
proof -
  let ?grp = "\<lambda>k. map bucketRef (filter (\<lambda>b. bucketKind b = k \<and> unitRef (bucketQuantity b) = holdingUnit h) (buckets h))"
  have step: "concat (map totalBuckets (List.map_filter (kindTotal h) ks)) = concat (map ?grp ks)" for ks
    by (induction ks) (simp_all add: List.map_filter_def kindTotal_def Let_def)
  have "mset (concat (map (\<lambda>k. map bucketRef (filter (\<lambda>b. bucketKind b = k \<and> P b) bs)) BUCKET_KINDS)) =
      mset (map bucketRef (filter P bs))" for P bs
  proof (induction bs)
    case (Cons b bs)
    then show ?case by (cases "bucketKind b") (auto simp: BUCKET_KINDS_def)
  qed (simp add: BUCKET_KINDS_def)
  then show ?thesis unfolding step .
qed

text \<open>
  The consumable quantity of a holding. It is the exact sum of the regular, restricted and
  time-limited buckets when each of them is exact in the holding's unit and no bucket is unclassified;
  otherwise it is not exact at all, never a smaller number. Pending awards and qualification buckets
  never enter it, and the totals by kind list every bucket of the holding's unit exactly once.
\<close>

theorem consumable_exactly:
  "unitRef (consumable (summarizeHolding h qs)) = holdingUnit h \<and>
   (if list_all (summable (holdingUnit h)) (buckets h)
    then is_exact (consumable (summarizeHolding h qs)) \<and>
      amount_value (consumable (summarizeHolding h qs)) =
        sum_list (map (\<lambda>b. if isConsumable b then amount_value (bucketQuantity b) else 0) (buckets h))
    else \<not> is_exact (consumable (summarizeHolding h qs))) \<and>
   mset (concat (map totalBuckets (byKind (summarizeHolding h qs)))) =
     mset (map bucketRef (filter (\<lambda>b. unitRef (bucketQuantity b) = holdingUnit h) (buckets h)))"
proof -
  have u: "unitRef (consumable (summarizeHolding h qs)) = holdingUnit h"
    by (simp add: summarizeHolding_def Let_def summedOr_exact(2))
  have "is_exact (consumable (summarizeHolding h qs)) \<longleftrightarrow> list_all (summable (holdingUnit h)) (buckets h)"
    using consumable_sum(1) [of h qs] u by (simp add: exact_in_def)
  moreover have "byKind (summarizeHolding h qs) = List.map_filter (kindTotal h) BUCKET_KINDS"
    by (simp add: summarizeHolding_def Let_def)
  ultimately show ?thesis using u consumable_sum(2) kind_totals_refs by simp
qed

section \<open>Eligibility\<close>

lemma eligibility_codes:
  "membershipCodes o' ms = [] \<longleftrightarrow>
     Membership_out_of_scope \<notin> set (membershipCodes o' ms) \<and> Membership_self_reported \<notin> set (membershipCodes o' ms)"
  "clockCodes o' c = [] \<longleftrightarrow>
     Offer_not_valid_at_clock \<notin> set (clockCodes o' c) \<and> Application_deadline_passed \<notin> set (clockCodes o' c)"
  "Membership_out_of_scope \<notin> set (clockCodes o' c)" "Membership_self_reported \<notin> set (clockCodes o' c)"
  "Offer_not_valid_at_clock \<notin> set (membershipCodes o' ms)" "Application_deadline_passed \<notin> set (membershipCodes o' ms)"
  by (auto simp: membershipCodes_def clockCodes_def Let_def split: option.splits TemporalOrder.splits if_splits)

text \<open>
  What an offer accepts. Each bucket is either eligible or excluded with one reason, the
  eligible quantity is the exact sum of the eligible buckets or a conflict, and the offer is available
  exactly when it is verified, its tiers are met by provider claims only, the clock breaks neither its
  validity nor its deadline, and some bucket is eligible.
\<close>

theorem eligibility_partitions:
  "(let E = availableForOffer bs o' ms clock
    in mset (eligibleBucketRefs E @ map fst (eligibilityExcluded E)) = mset (map bucketRef bs) \<and>
       exact_in (fromUnitRef o') (eligible E) =
         list_all (\<lambda>b. is_exact (bucketQuantity b)) (filter (\<lambda>b. notEligible o' b = None) bs) \<and>
       (eligibilityState E = Available) =
         (offerVerification o' = Verified \<and> membershipCodes o' ms = [] \<and> clockCodes o' clock = [] \<and>
          list_ex (\<lambda>b. notEligible o' b = None) bs))"
proof -
  define E where "E = availableForOffer bs o' ms clock"
  have refs: "mset (eligibleBucketRefs E @ map fst (eligibilityExcluded E)) = mset (map bucketRef bs)"
    unfolding E_def availableForOffer_def Let_def
    by (induction bs) (auto simp: List.map_filter_def)
  have unit: "notEligible o' b = None \<Longrightarrow> unitRef (bucketQuantity b) = fromUnitRef o'" for b
    by (auto simp: notEligible_def split: if_splits)
  have "exact_in (fromUnitRef o') (eligible E) \<longleftrightarrow>
      list_all (exact_in (fromUnitRef o')) (map bucketQuantity (filter (\<lambda>b. notEligible o' b = None) bs))"
    by (simp add: E_def availableForOffer_def Let_def summedOr_exact(1))
  then have exact: "exact_in (fromUnitRef o') (eligible E) =
      list_all (\<lambda>b. is_exact (bucketQuantity b)) (filter (\<lambda>b. notEligible o' b = None) bs)"
    using unit by (auto simp: list_all_iff exact_in_def)
  have "filter (\<lambda>b. notEligible o' b = None) bs = [] \<longleftrightarrow> \<not> list_ex (\<lambda>b. notEligible o' b = None) bs"
    by (auto simp: filter_empty_conv list_ex_iff)
  then have "eligibilityState E = Available \<longleftrightarrow> offerVerification o' = Verified \<and> membershipCodes o' ms = [] \<and>
      clockCodes o' clock = [] \<and> list_ex (\<lambda>b. notEligible o' b = None) bs"
    unfolding eligibility_codes(1,2) by (auto simp: E_def availableForOffer_def Let_def eligibility_codes(3-))
  with refs exact show ?thesis by (simp add: E_def)
qed

section \<open>One conversion\<close>

lemma divideDecimals_rounding:
  assumes "dec_value b \<noteq> 0"
  shows "\<exists>z. divideDecimals a b (Some rd) = Inr (normalizeDecimal z (int (roundScale rd))) \<and>
    rounds_to (roundMode rd) (dec_value a / dec_value b * 10 ^ roundScale rd) z"
proof -
  let ?num = "coefficient a * 10 ^ scale b" and ?den = "coefficient b * 10 ^ scale a"
  have den: "?den \<noteq> 0" using assms by (simp add: dec_value_def)
  obtain n d where nd: "reducedRatio ?num ?den = (n, d)" by fastforce
  have "of_int ?num / of_int ?den = dec_value a / dec_value b" by (simp add: dec_value_def)
  then have "(of_int n / of_int d :: rat) = dec_value a / dec_value b"
    using reducedRatio_value [OF den nd] by (rule trans [rotated])
  moreover have "(of_int (n * 10 ^ roundScale rd) / of_int d :: rat) = of_int n / of_int d * 10 ^ roundScale rd" by simp
  ultimately have "of_int (n * 10 ^ roundScale rd) / of_int d = dec_value a / dec_value b * 10 ^ roundScale rd"
    by (simp only:)
  moreover have "0 < d" using reducedRatio_spec [OF den nd] by simp
  ultimately have "rounds_to (roundMode rd) (dec_value a / dec_value b * 10 ^ roundScale rd)
      (roundQuotient (roundMode rd) (n * 10 ^ roundScale rd) d)"
    by (metis roundQuotient_spec)
  then show ?thesis using den nd by (auto simp: divideDecimals_def ratioToDecimal_def)
qed

lemma rounds_down_floor:
  assumes "0 \<le> y" and "rounds_to Down y z"
  shows "z = \<lfloor>y\<rfloor>"
proof -
  have near: "\<bar>y - of_int z\<bar> < 1" "\<bar>of_int z\<bar> \<le> \<bar>y\<bar>" "0 \<le> y * of_int z" using assms(2) by simp_all
  have "0 \<le> z"
  proof (rule ccontr)
    assume "\<not> 0 \<le> z"
    then have "(of_int z :: rat) < 0" by simp
    then have "y \<le> 0" using near(3) by (simp add: zero_le_mult_iff)
    then have "y = 0" using assms(1) by simp
    then show False using near(2) \<open>\<not> 0 \<le> z\<close> by simp
  qed
  then have "(0 :: rat) \<le> of_int z" by simp
  then show ?thesis using near(1,2) assms(1) by (intro floor_unique [symmetric]) linarith+
qed

lemma capAt_value:
  "dec_value (fst (capAt mx balance)) = (case mx of None \<Rightarrow> dec_value balance | Some m \<Rightarrow> min (dec_value balance) (dec_value m))"
  by (auto simp: capAt_def compareDecimals_value min_def split: option.splits if_splits)

lemma whole_steps:
  assumes "0 < dec_value inc" and "0 \<le> dec_value c"
  obtains steps where "divideDecimals c inc (Some \<lparr>roundScale = 0, roundMode = Down\<rparr>) = Inr steps"
    and "dec_value steps = of_int \<lfloor>dec_value c / dec_value inc\<rfloor>"
proof -
  have "dec_value inc \<noteq> 0" using assms(1) by simp
  from divideDecimals_rounding [OF this, of c "\<lparr>roundScale = 0, roundMode = Down\<rparr>"] obtain z where
    z: "divideDecimals c inc (Some \<lparr>roundScale = 0, roundMode = Down\<rparr>) = Inr (normalizeDecimal z 0)"
    "rounds_to Down (dec_value c / dec_value inc) z" by auto
  have "z = \<lfloor>dec_value c / dec_value inc\<rfloor>"
    by (rule rounds_down_floor [OF _ z(2)]) (use assms in simp)
  moreover have "dec_value (normalizeDecimal z 0) = of_int z" using normalizeDecimal_spec [of z 0] by simp
  ultimately show thesis using z(1) that by simp
qed

text \<open>
  A conversion takes whole increments. From an exact balance, the plan uses the largest
  multiple of the increment within the balance and the offer's maximum; what is used and what remains
  add up to the balance, what is received is the used quantity times the ratio under the offer's own
  rounding. Below the minimum nothing is used and the balance remains; a plan is feasible exactly when
  it reaches the minimum of a verified offer.
\<close>

theorem conversion_takes_whole_increments:
  assumes "unitRef q = fromUnitRef o'" and "quantityValue q = ExactValue balance nv"
    and "0 < dec_value (increment o')" and "0 \<le> dec_value balance"
    and "orNull (\<lambda>m. 0 \<le> dec_value m) (maximumPerRequest o')" and "validExactRatio (offerRatio o')"
  shows "(let p = simulateConversion o' q fees;
       cap = (case maximumPerRequest o' of None \<Rightarrow> dec_value balance | Some m \<Rightarrow> min (dec_value balance) (dec_value m));
       taken = of_int \<lfloor>cap / dec_value (increment o')\<rfloor> * dec_value (increment o')
     in if taken < dec_value (minimumUse o')
        then \<not> feasible p \<and> amount_value (use p) = 0 \<and> amount_value (receive p) = 0 \<and> planRemainder p = q \<and>
          Below_minimum \<in> set (planReasons p)
        else feasible p = (offerVerification o' = Verified) \<and>
          exact_in (fromUnitRef o') (use p) \<and> amount_value (use p) = taken \<and> 0 \<le> taken \<and> taken \<le> cap \<and>
          exact_in (fromUnitRef o') (planRemainder p) \<and> amount_value (planRemainder p) = dec_value balance - taken \<and>
          (\<exists>z. receive p = exactQuantity (toUnitRef o') (normalizeDecimal z (int (roundScale (offerRounding o')))) \<and>
             rounds_to (roundMode (offerRounding o'))
               (taken * ratio_value (offerRatio o') * 10 ^ roundScale (offerRounding o')) z))"
proof -
  define cap where "cap = (case maximumPerRequest o' of None \<Rightarrow> dec_value balance
    | Some m \<Rightarrow> min (dec_value balance) (dec_value m))"
  define inc where "inc = dec_value (increment o')"
  obtain c codes where c: "capAt (maximumPerRequest o') balance = (c, codes)" by fastforce
  have cv: "dec_value c = cap" using capAt_value [of "maximumPerRequest o'" balance] by (simp add: c cap_def)
  have "0 \<le> cap" using assms(4,5) by (auto simp: cap_def orNull_def split: option.splits)
  obtain steps where steps: "divideDecimals c (increment o') (Some \<lparr>roundScale = 0, roundMode = Down\<rparr>) = Inr steps"
    "dec_value steps = of_int \<lfloor>cap / inc\<rfloor>"
    using whole_steps [OF assms(3), of c] \<open>0 \<le> cap\<close> unfolding cv inc_def by blast
  define used where "used = multiplyDecimals steps (increment o')"
  define taken where "taken = of_int \<lfloor>cap / inc\<rfloor> * inc"
  have uv: "dec_value used = taken" by (simp add: used_def taken_def dec_value_multiplyDecimals steps(2) inc_def)
  have bounds: "0 \<le> taken" "taken \<le> cap"
    using \<open>0 \<le> cap\<close> assms(3) by (simp_all add: taken_def inc_def floor_divide_lower flip: inc_def)
  obtain z where z: "multiplyByRatio used (offerRatio o') (Some (offerRounding o')) =
      Inr (normalizeDecimal z (int (roundScale (offerRounding o'))))"
    "rounds_to (roundMode (offerRounding o')) (taken * ratio_value (offerRatio o') * 10 ^ roundScale (offerRounding o')) z"
    using multiplyByRatio_rounding [OF assms(6), of used "offerRounding o'"] unfolding uv by blast
  have less: "compareDecimals used (minimumUse o') < 0 \<longleftrightarrow> taken < dec_value (minimumUse o')"
    by (auto simp: compareDecimals_value uv)
  show ?thesis
    using z(2) bounds
    by (simp add: Let_def simulateConversion_def assms(1,2) c steps(1) z(1) less uv
        infeasible_def dec_value_integerDecimal dec_value_subtractDecimals flip: cap_def inc_def taken_def used_def)
      auto
qed

text \<open>The scenario of the domain's own fixture: 2500 points, one to two, in steps of 1000.\<close>

definition ex_offer :: ConversionOffer where
  "ex_offer = \<lparr>offerId = ''offer'', offerVersion = ''1'', sourceProgramRef = ''a'', destinationProgramRef = ''b'',
     fromUnitRef = ''points:a'', toUnitRef = ''points:b'', offerRatio = \<lparr>numerator = 1, denominator = 2\<rparr>,
     minimumUse = integerDecimal 1000, increment = integerDecimal 1000,
     maximumPerRequest = Some (integerDecimal 3000), sharedQuotaRef = None, fixedFees = [],
     variableFeePolicyRef = None, eligibilityPolicyRef = ''e'', eligibleBucketKinds = [Regular],
     eligibleRestrictionRefs = [], eligibleTiers = None, offerValidTime = UnknownTime ''open'',
     applicationDeadline = UnknownTime ''open'', processingPolicyRef = ''p'', processingDays = 3,
     roundingPolicyRef = ''r'', offerRounding = \<lparr>roundScale = 0, roundMode = Down\<rparr>,
     cancellationPolicyRef = None, offerEvidence = [], offerVerification = Verified\<rparr>"

lemma conversion_takes_whole_increments_witness:
  "(let p = simulateConversion ex_offer (exactQuantity ''points:a'' (integerDecimal 2500)) []
    in feasible p \<and> amount_value (use p) = 2000 \<and> amount_value (planRemainder p) = 500)"
proof -
  have ratio: "validExactRatio (offerRatio ex_offer)"
    by (simp add: ex_offer_def validExactRatio_def int_text_def nat_text.simps DECIMAL_DIGIT_LIMIT_def)
  have inc: "0 < dec_value (increment ex_offer)" and bal: "0 \<le> dec_value (integerDecimal 2500)"
    and mx: "orNull (\<lambda>m. 0 \<le> dec_value m) (maximumPerRequest ex_offer)"
    by (simp_all add: ex_offer_def dec_value_integerDecimal orNull_def)
  have floor: "\<lfloor>(5 / 2 :: rat)\<rfloor> = 2" by (rule floor_unique) simp_all
  show ?thesis
    using conversion_takes_whole_increments [of "exactQuantity ''points:a'' (integerDecimal 2500)" ex_offer
        "integerDecimal 2500" ARITHMETIC_POLICY_VERSION "[]", OF _ _ inc bal mx ratio]
    by (simp add: Let_def dec_value_integerDecimal ex_offer_def floor)
qed

text \<open>An unknown balance leaves a plan whose remainder is an exact zero.\<close>

lemma unknown_remainder_zero:
  assumes "unitRef q = fromUnitRef o'" and "quantityValue q = AbsentValue st reason"
  shows "planRemainder (simulateConversion o' q fees) = exactQuantity (fromUnitRef o') (integerDecimal 0)"
  using assms by (simp add: simulateConversion_def infeasible_def Let_def)

section \<open>The walk over a redemption\<close>

lemma plusQuantity_exact:
  assumes "unitRef q = unitRef acc"
  shows "unitRef (plusQuantity acc q) = unitRef acc" "is_exact (plusQuantity acc q) \<longleftrightarrow> is_exact acc \<and> is_exact q"
    "is_exact acc \<Longrightarrow> is_exact q \<Longrightarrow> amount_value (plusQuantity acc q) = amount_value acc + amount_value q"
  using assms
  by (auto simp: plusQuantity_def sumQuantities_def exactOperands_def is_exact_def amount_value_def
      dec_value_sumDecimals Let_def split: ValueState.splits)

lemma negateValue_exact:
  "is_exact \<lparr>unitRef = u, quantityValue = negateValue q\<rparr> \<longleftrightarrow> is_exact q"
  "is_exact q \<Longrightarrow> amount_value \<lparr>unitRef = u, quantityValue = negateValue q\<rparr> = - amount_value q"
  by (auto simp: negateValue_def is_exact_def amount_value_def dec_value_def split: ValueState.splits)

text \<open>What an event does to the source and to the destination.\<close>

definition movesHeld :: "string \<Rightarrow> RedemptionEvent \<Rightarrow> bool" where
  "movesHeld u e \<longleftrightarrow> redemptionStage e \<in> {Debited, Returned} \<and> unitRef (redemptionQuantity e) = u"

definition heldChange :: "RedemptionEvent \<Rightarrow> rat" where
  "heldChange e = (if redemptionStage e = Debited then - amount_value (redemptionQuantity e)
     else amount_value (redemptionQuantity e))"

definition creditsTo :: "string \<Rightarrow> RedemptionEvent list \<Rightarrow> RedemptionEvent list" where
  "creditsTo destination es = filter (\<lambda>e. redemptionStage e = Credited \<and> unitRef (redemptionQuantity e) = destination)
     (dropWhile (\<lambda>e. redemptionStage e \<noteq> Debited) es)"

abbreviation walk :: "Quantity \<Rightarrow> string \<Rightarrow> RedemptionEvent list \<Rightarrow> RedemptionWalk" where
  "walk initial destination es \<equiv> foldl (redemptionStep (unitRef initial) destination) (startWalk initial destination) es"

definition positionAt :: "RedemptionWalk \<Rightarrow> RedemptionCode list \<Rightarrow> RedemptionStage \<Rightarrow> RedemptionPosition" where
  "positionAt w codes st = \<lparr>positionStage = st, sourceHeld = walkHeld w, inTransit = walkTransit w,
     destinationCredited = walkCredited w, positionCodes = codes\<rparr>"

lemma step_positions:
  "positions (walkTrace (redemptionStep u d w e)) = positions (walkTrace w) @
     [positionAt (redemptionStep u d w e) (stageCodes u e) (redemptionStage e)]"
  by (cases "redemptionStage e")
    (simp_all add: redemptionStep_def onDebited_def onCredited_def onReturned_def violate_def moveQuantity_def
      positionAt_def Let_def)

lemma walk_positions:
  "positions (walkTrace (walk i d es)) =
     map (\<lambda>n. positionAt (walk i d (take (Suc n) es)) (stageCodes (unitRef i) (es ! n)) (redemptionStage (es ! n)))
       [0..<length es]"
proof (induction es rule: rev_induct)
  case (snoc e es)
  then show ?case by (simp add: step_positions nth_append)
qed (simp add: startWalk_def)

lemma step_held:
  assumes "unitRef (walkHeld w) = u"
  shows "walkHeld (redemptionStep u d w e) =
    (if movesHeld u e then plusQuantity (walkHeld w)
       (if redemptionStage e = Debited
        then \<lparr>unitRef = u, quantityValue = negateValue (redemptionQuantity e)\<rparr> else redemptionQuantity e)
     else walkHeld w)"
  using assms
  by (cases "redemptionStage e")
    (auto simp: redemptionStep_def onDebited_def onCredited_def onReturned_def violate_def moveQuantity_def
      movesHeld_def Let_def)

lemma walk_held:
  "unitRef (walkHeld (walk i d es)) = unitRef i \<and>
   is_exact (walkHeld (walk i d es)) =
     (is_exact i \<and> list_all (is_exact \<circ> redemptionQuantity) (filter (movesHeld (unitRef i)) es)) \<and>
   (is_exact (walkHeld (walk i d es)) \<longrightarrow> amount_value (walkHeld (walk i d es)) =
     amount_value i + sum_list (map heldChange (filter (movesHeld (unitRef i)) es)))"
proof (induction es rule: rev_induct)
  case (snoc e es)
  let ?w = "walk i d es"
  let ?amount = "if redemptionStage e = Debited
      then \<lparr>unitRef = unitRef i, quantityValue = negateValue (redemptionQuantity e)\<rparr> else redemptionQuantity e"
  have u: "unitRef (walkHeld ?w) = unitRef i" using snoc.IH by simp
  show ?case
  proof (cases "movesHeld (unitRef i) e")
    case True
    then have unit: "unitRef ?amount = unitRef (walkHeld ?w)" by (simp add: movesHeld_def u)
    have amount: "is_exact ?amount \<longleftrightarrow> is_exact (redemptionQuantity e)"
      "is_exact (redemptionQuantity e) \<Longrightarrow> amount_value ?amount = heldChange e"
      by (simp_all add: negateValue_exact heldChange_def)
    show ?thesis
      using snoc.IH True plusQuantity_exact [OF unit] amount by (auto simp: step_held [OF u])
  qed (use snoc.IH in \<open>simp add: step_held [OF u]\<close>)
qed (simp add: startWalk_def)

lemma step_credited:
  "walkDebited (redemptionStep u d w e) = (walkDebited w \<or> redemptionStage e = Debited)"
  "walkCredited (redemptionStep u d w e) =
    (if redemptionStage e = Credited \<and> unitRef (redemptionQuantity e) = d \<and> walkDebited w
     then plusQuantity (walkCredited w) (redemptionQuantity e) else walkCredited w)"
  by (cases "redemptionStage e";
      simp add: redemptionStep_def onDebited_def onCredited_def onReturned_def violate_def moveQuantity_def Let_def)+

lemma creditsTo_snoc:
  "creditsTo d (es @ [e]) = creditsTo d es @
     (if redemptionStage e = Credited \<and> unitRef (redemptionQuantity e) = d \<and>
        list_ex (\<lambda>e. redemptionStage e = Debited) es then [e] else [])"
proof (cases "list_ex (\<lambda>e. redemptionStage e = Debited) es")
  case False
  then have "dropWhile (\<lambda>e. redemptionStage e \<noteq> Debited) es = []" by (simp add: list_ex_iff)
  with False show ?thesis
    by (auto simp: creditsTo_def dropWhile_append list_ex_iff simp del: dropWhile_eq_Nil_conv)
qed (auto simp: creditsTo_def dropWhile_append list_ex_iff)

lemma walk_credited:
  "walkDebited (walk i d es) = list_ex (\<lambda>e. redemptionStage e = Debited) es \<and>
   unitRef (walkCredited (walk i d es)) = d \<and>
   is_exact (walkCredited (walk i d es)) = list_all (is_exact \<circ> redemptionQuantity) (creditsTo d es) \<and>
   (is_exact (walkCredited (walk i d es)) \<longrightarrow> amount_value (walkCredited (walk i d es)) =
     sum_list (map (amount_value \<circ> redemptionQuantity) (creditsTo d es)))"
proof (induction es rule: rev_induct)
  case (snoc e es)
  then show ?case
    using plusQuantity_exact [of "redemptionQuantity e" "walkCredited (walk i d es)"]
    by (auto simp: step_credited creditsTo_snoc)
qed (simp add: startWalk_def creditsTo_def dec_value_integerDecimal)

text \<open>
  Property C27: the positions of a redemption are an account of what was observed. After any event, the
  source holds the initial quantity less the debits plus the returns observed so far in its unit, and
  the destination the credits observed after a first debit; a request or a cancellation moves nothing.
  A debit, a return or a credit that is not exact makes that position, and every later one, not exact.
\<close>

theorem redemption_accounts:
  assumes "n < length events"
  shows "(let p = positions (redemptionPositions initial events destination) ! n;
       moved = filter (movesHeld (unitRef initial)) (take (Suc n) events);
       credits = creditsTo destination (take (Suc n) events)
     in length (positions (redemptionPositions initial events destination)) = length events \<and>
       (if is_exact initial \<and> list_all (is_exact \<circ> redemptionQuantity) moved
        then is_exact (sourceHeld p) \<and> amount_value (sourceHeld p) = amount_value initial + sum_list (map heldChange moved)
        else \<not> is_exact (sourceHeld p)) \<and>
       (if list_all (is_exact \<circ> redemptionQuantity) credits
        then is_exact (destinationCredited p) \<and>
          amount_value (destinationCredited p) = sum_list (map (amount_value \<circ> redemptionQuantity) credits)
        else \<not> is_exact (destinationCredited p)))"
proof -
  have p: "positions (redemptionPositions initial events destination) ! n =
      positionAt (walk initial destination (take (Suc n) events)) (stageCodes (unitRef initial) (events ! n))
        (redemptionStage (events ! n))"
    using assms by (simp add: redemptionPositions_def walk_positions)
  have "length (positions (redemptionPositions initial events destination)) = length events"
    by (simp add: redemptionPositions_def walk_positions)
  then show ?thesis
    using walk_held [of initial destination "take (Suc n) events"]
      walk_credited [of initial destination "take (Suc n) events"]
    unfolding Let_def p by (simp add: positionAt_def)
qed

definition ex_redemption :: "RedemptionEvent list" where
  "ex_redemption = [\<lparr>redemptionRef = ''d'', redemptionStage = Debited,
       redemptionQuantity = exactQuantity ''points:a'' (integerDecimal 2000), returnedToBucketRef = None,
       redemptionAt = UnknownTime ''t'', redemptionEvidence = []\<rparr>,
     \<lparr>redemptionRef = ''r'', redemptionStage = Returned,
       redemptionQuantity = absentQuantity ''points:a'' Missing ''not shown'', returnedToBucketRef = None,
       redemptionAt = UnknownTime ''t'', redemptionEvidence = []\<rparr>]"

lemma redemption_accounts_witness:
  "(let ps = positions (redemptionPositions (exactQuantity ''points:a'' (integerDecimal 2500)) ex_redemption ''points:b'')
    in amount_value (sourceHeld (ps ! 0)) = 500 \<and> \<not> is_exact (sourceHeld (ps ! 1)))"
proof -
  let ?q = "exactQuantity ''points:a'' (integerDecimal 2500)"
  have absent: "\<not> is_exact (absentQuantity u st r)" for u st r by (simp add: is_exact_def absentQuantity_def)
  have facts: "0 < length ex_redemption" "1 < length ex_redemption" by (simp_all add: ex_redemption_def)
  have moves: "filter (movesHeld ''points:a'') ex_redemption = ex_redemption"
    by (simp add: ex_redemption_def movesHeld_def absentQuantity_def)
  then have "filter (movesHeld ''points:a'') (take 1 ex_redemption) = take 1 ex_redemption"
    by (simp add: ex_redemption_def split: if_splits)
  then show ?thesis
    using redemption_accounts [OF facts(1), of ?q "''points:b''"] redemption_accounts [OF facts(2), of ?q "''points:b''"] moves
    by (simp add: Let_def ex_redemption_def heldChange_def dec_value_integerDecimal absent numeral_2_eq_2)
qed

end
