(* ===== verification/Reward_Search.thy ===== *)
theory Reward_Search
  imports Rewards
begin

text \<open>
  The bounded search for conversion chains, \<open>findConversionPaths\<close> of \<open>packages/domain/src/rewards.ts\<close>. The
  nested function \<open>visit\<close> becomes \<open>scan\<close>, which threads the mutable counters and lists of the closure
  through a record; a \<open>return\<close> inside \<open>visit\<close> ends that scan only. Its reference is \<open>exploration\<close>, the
  same traversal with no counter at all, and \<open>follow\<close>, which applies one sequence of offers.
\<close>

section \<open>Data\<close>

record SearchBudget =
  maxDepth :: int
  maxCandidates :: int
  maxExpansions :: int
  requiredCompletionBy :: "TemporalValue option"

record ConversionHop =
  hopOffer :: string
  hopPlan :: ConversionPlan
  appliedOn :: string
  creditExpectedOn :: string

record ConversionPath =
  pathHops :: "ConversionHop list"
  received :: Quantity
  pathFees :: "Quantity list"
  pathReasons :: "ConversionCode list"

datatype SearchStop = Max_expansions | Max_candidates

definition SEARCH_STOPS :: "SearchStop list" where
  "SEARCH_STOPS = [Max_expansions, Max_candidates]"

datatype SearchReason =
    Same_offer_reuse | Shared_quota_reuse | Cycle_rejected | Hop_needs_verification | Hop_deadline_passed
  | Reuse_before_credit | Completion_after_required_by | Plan_refused ConversionCode | Not_feasible
  | Clock_not_a_date

record ConversionSearchResult =
  paths :: "ConversionPath list"
  rejected :: "(string \<times> SearchReason) list"
  expansions :: int
  stoppedBy :: "SearchStop list"
  resultBudget :: SearchBudget
  searchRelease :: string

record SearchState =
  stateUnit :: string
  stateQuantity :: Quantity
  stateDay :: int
  stateHops :: "ConversionHop list"
  usedOfferIds :: "string list"
  usedQuotaRefs :: "string list"
  stateFees :: "Quantity list"

text \<open>The variables of the closure, and what it reads.\<close>

record SearchRun =
  runPaths :: "ConversionPath list"
  runRejected :: "(string \<times> SearchReason) list"
  runExpansions :: int
  runStops :: "SearchStop list"

record SearchInput =
  searchOffers :: "ConversionOffer list"
  searchGoal :: string
  searchBudget :: SearchBudget
  requiredBy :: "int option"

section \<open>One offer at one state\<close>

fun localDateOf :: "TemporalValue \<Rightarrow> CivilDate option" where
  "localDateOf (LocalDate v _ _) = parseLocalDate v"
| "localDateOf (Instant v _ _) = parseLocalDate (take 10 v)"
| "localDateOf _ = None"

definition dayNumber :: "TemporalValue \<Rightarrow> int option" where
  "dayNumber v = map_option daysFromCivil (localDateOf v)"

definition dayText :: "int \<Rightarrow> string" where
  "dayText d = formatLocalDate (civilFromDays d)"

text \<open>The empty reference is falsy, like a missing one.\<close>

definition quotaOf :: "ConversionOffer \<Rightarrow> string list" where
  "quotaOf o' = (case sharedQuotaRef o' of None \<Rightarrow> [] | Some r \<Rightarrow> if r = [] then [] else [r])"

definition afterDeadline :: "int \<Rightarrow> int option \<Rightarrow> bool" where
  "afterDeadline d limit = (case limit of None \<Rightarrow> False | Some l \<Rightarrow> l < d)"

datatype HopOutcome = Skipped | Hop_rejected SearchReason | Taken SearchState

definition hopOf :: "SearchState \<Rightarrow> ConversionOffer \<Rightarrow> ConversionPlan \<Rightarrow> ConversionHop" where
  "hopOf st o' plan = \<lparr>hopOffer = offerRefOf o', hopPlan = plan, appliedOn = dayText (stateDay st),
     creditExpectedOn = dayText (stateDay st + processingDays o')\<rparr>"

definition nextState :: "SearchState \<Rightarrow> ConversionOffer \<Rightarrow> ConversionPlan \<Rightarrow> SearchState" where
  "nextState st o' plan = \<lparr>stateUnit = toUnitRef o', stateQuantity = receive plan,
     stateDay = stateDay st + processingDays o', stateHops = stateHops st @ [hopOf st o' plan],
     usedOfferIds = usedOfferIds st @ [offerId o'], usedQuotaRefs = usedQuotaRefs st @ quotaOf o',
     stateFees = stateFees st @ planFees plan\<rparr>"

definition planOf :: "SearchState \<Rightarrow> ConversionOffer \<Rightarrow> ConversionPlan" where
  "planOf st o' = simulateConversion o' (stateQuantity st) (fixedFees o')"

definition examineOffer :: "int option \<Rightarrow> SearchState \<Rightarrow> string list \<Rightarrow> ConversionOffer \<Rightarrow> HopOutcome" where
  "examineOffer required st visited o' =
     (if fromUnitRef o' \<noteq> stateUnit st then Skipped
      else if offerId o' \<in> set (usedOfferIds st) then Hop_rejected Same_offer_reuse
      else if set (quotaOf o') \<inter> set (usedQuotaRefs st) \<noteq> {} then Hop_rejected Shared_quota_reuse
      else if toUnitRef o' \<in> set visited then Hop_rejected Cycle_rejected
      else if offerVerification o' \<noteq> Verified then Hop_rejected Hop_needs_verification
      else if afterDeadline (stateDay st) (dayNumber (applicationDeadline o'))
      then Hop_rejected (if stateHops st = [] then Hop_deadline_passed else Reuse_before_credit)
      else if afterDeadline (stateDay st + processingDays o') required
      then Hop_rejected Completion_after_required_by
      else let plan = planOf st o'
           in if \<not> feasible plan
              then Hop_rejected (case planReasons plan of [] \<Rightarrow> Not_feasible | r # _ \<Rightarrow> Plan_refused r)
              else Taken (nextState st o' plan))"

definition pathOf :: "SearchState \<Rightarrow> ConversionPath" where
  "pathOf st = \<lparr>pathHops = stateHops st, received = stateQuantity st, pathFees = stateFees st,
     pathReasons = concat (map (\<lambda>h. planReasons (hopPlan h)) (stateHops st))\<rparr>"

section \<open>The search\<close>

definition stopWith :: "SearchStop \<Rightarrow> SearchRun \<Rightarrow> SearchRun" where
  "stopWith s run = run\<lparr>runStops := pushCode (runStops run) s\<rparr>"

definition countOffer :: "SearchRun \<Rightarrow> SearchRun" where
  "countOffer run = run\<lparr>runExpansions := runExpansions run + 1\<rparr>"

definition rejectOffer :: "ConversionOffer \<Rightarrow> SearchReason \<Rightarrow> SearchRun \<Rightarrow> SearchRun" where
  "rejectOffer o' reason run = run\<lparr>runRejected := runRejected run @ [(offerRefOf o', reason)]\<rparr>"

definition full :: "SearchInput \<Rightarrow> SearchRun \<Rightarrow> bool" where
  "full inp run \<longleftrightarrow> maxCandidates (searchBudget inp) \<le> int (length (runPaths run))"

definition atDepth :: "SearchInput \<Rightarrow> SearchState \<Rightarrow> bool" where
  "atDepth inp st \<longleftrightarrow> maxDepth (searchBudget inp) \<le> int (length (stateHops st))"

definition keepGoal :: "SearchInput \<Rightarrow> SearchState \<Rightarrow> SearchRun \<Rightarrow> SearchRun" where
  "keepGoal inp st run =
     (if stateUnit st = searchGoal inp
      then if full inp run then stopWith Max_candidates run
           else run\<lparr>runPaths := runPaths run @ [pathOf st]\<rparr>
      else run)"

lemma examine_hops: "examineOffer required st visited o' = Taken nxt \<Longrightarrow> length (stateHops nxt) = Suc (length (stateHops st))"
  by (auto simp: examineOffer_def nextState_def Let_def split: if_splits)

function scan ::
  "SearchInput \<Rightarrow> SearchState \<Rightarrow> string list \<Rightarrow> ConversionOffer list \<Rightarrow> SearchRun \<Rightarrow> SearchRun"
where
  "scan inp st visited [] run = run"
| "scan inp st visited (o' # os) run =
     (if maxExpansions (searchBudget inp) \<le> runExpansions run then stopWith Max_expansions run
      else scan inp st visited os
        (case examineOffer (requiredBy inp) st visited o' of
           Skipped \<Rightarrow> countOffer run
         | Hop_rejected reason \<Rightarrow> rejectOffer o' reason (countOffer run)
         | Taken nxt \<Rightarrow>
             (let run' = keepGoal inp nxt (countOffer run)
              in if atDepth inp nxt then run'
                 else if full inp run' then stopWith Max_candidates run'
                 else scan inp nxt (visited @ [toUnitRef o']) (searchOffers inp) run')))"
  by pat_completeness auto
termination
  by (relation "measures [\<lambda>(inp, st, visited, os, run). nat (maxDepth (searchBudget inp) - int (length (stateHops st))),
        \<lambda>(inp, st, visited, os, run). length os]")
    (auto simp: atDepth_def dest: examine_hops)

definition visit :: "SearchInput \<Rightarrow> SearchState \<Rightarrow> string list \<Rightarrow> SearchRun \<Rightarrow> SearchRun" where
  "visit inp st visited run =
     (if atDepth inp st then run
      else if full inp run then stopWith Max_candidates run
      else scan inp st visited (searchOffers inp) run)"

lemma scan_Cons:
  "scan inp st visited (o' # os) run =
     (if maxExpansions (searchBudget inp) \<le> runExpansions run then stopWith Max_expansions run
      else scan inp st visited os
        (case examineOffer (requiredBy inp) st visited o' of
           Skipped \<Rightarrow> countOffer run
         | Hop_rejected reason \<Rightarrow> rejectOffer o' reason (countOffer run)
         | Taken nxt \<Rightarrow> visit inp nxt (visited @ [toUnitRef o']) (keepGoal inp nxt (countOffer run))))"
  by (simp add: visit_def Let_def split: HopOutcome.splits)

definition emptyRun :: SearchRun where
  "emptyRun = \<lparr>runPaths = [], runRejected = [], runExpansions = 0, runStops = []\<rparr>"

definition startState :: "Quantity \<Rightarrow> int \<Rightarrow> SearchState" where
  "startState q d = \<lparr>stateUnit = unitRef q, stateQuantity = q, stateDay = d, stateHops = [],
     usedOfferIds = [], usedQuotaRefs = [], stateFees = []\<rparr>"

definition searchInput :: "ConversionOffer list \<Rightarrow> string \<Rightarrow> SearchBudget \<Rightarrow> SearchInput" where
  "searchInput offers goal budget = \<lparr>searchOffers = offers, searchGoal = goal, searchBudget = budget,
     requiredBy = (case requiredCompletionBy budget of None \<Rightarrow> None | Some v \<Rightarrow> dayNumber v)\<rparr>"

definition findConversionPaths ::
  "ConversionOffer list \<Rightarrow> Quantity \<Rightarrow> TemporalValue \<Rightarrow> string \<Rightarrow> SearchBudget \<Rightarrow> ConversionSearchResult"
where
  "findConversionPaths offers q clock goal budget =
     (case dayNumber clock of
        None \<Rightarrow> \<lparr>paths = [], rejected = [(''-'', Clock_not_a_date)], expansions = 0, stoppedBy = [],
          resultBudget = budget, searchRelease = CONVERSION_SEARCH_RELEASE\<rparr>
      | Some d \<Rightarrow>
          (let run = visit (searchInput offers goal budget) (startState q d) [unitRef q] emptyRun
           in \<lparr>paths = runPaths run, rejected = runRejected run, expansions = runExpansions run,
               stoppedBy = filter (\<lambda>s. s \<in> set (runStops run)) SEARCH_STOPS, resultBudget = budget,
               searchRelease = CONVERSION_SEARCH_RELEASE\<rparr>))"

section \<open>The reference: the traversal without a budget\<close>

datatype SearchEvent = Examined | Refused_hop "string \<times> SearchReason" | Found ConversionPath

function exploration :: "SearchInput \<Rightarrow> SearchState \<Rightarrow> string list \<Rightarrow> ConversionOffer list \<Rightarrow> SearchEvent list" where
  "exploration inp st visited [] = []"
| "exploration inp st visited (o' # os) =
     Examined #
     (case examineOffer (requiredBy inp) st visited o' of
        Skipped \<Rightarrow> []
      | Hop_rejected reason \<Rightarrow> [Refused_hop (offerRefOf o', reason)]
      | Taken nxt \<Rightarrow>
          (if stateUnit nxt = searchGoal inp then [Found (pathOf nxt)] else []) @
          (if atDepth inp nxt then []
           else exploration inp nxt (visited @ [toUnitRef o']) (searchOffers inp))) @
     exploration inp st visited os"
  by pat_completeness auto
termination
  by (relation "measures [\<lambda>(inp, st, visited, os). nat (maxDepth (searchBudget inp) - int (length (stateHops st))),
        \<lambda>(inp, st, visited, os). length os]")
    (auto simp: atDepth_def dest: examine_hops)

definition explorationFrom :: "SearchInput \<Rightarrow> SearchState \<Rightarrow> string list \<Rightarrow> SearchEvent list" where
  "explorationFrom inp st visited =
     (if atDepth inp st then [] else exploration inp st visited (searchOffers inp))"

definition founds :: "SearchEvent list \<Rightarrow> ConversionPath list" where
  "founds evs = concat (map (\<lambda>e. case e of Found p \<Rightarrow> [p] | _ \<Rightarrow> []) evs)"

definition refusals :: "SearchEvent list \<Rightarrow> (string \<times> SearchReason) list" where
  "refusals evs = concat (map (\<lambda>e. case e of Refused_hop r \<Rightarrow> [r] | _ \<Rightarrow> []) evs)"

definition examinations :: "SearchEvent list \<Rightarrow> int" where
  "examinations evs = int (length (filter (\<lambda>e. e = Examined) evs))"

lemma event_simps [simp]:
  "founds [] = []" "founds (a @ b) = founds a @ founds b" "founds (Examined # b) = founds b"
  "founds (Refused_hop r # b) = founds b" "founds (Found p # b) = p # founds b"
  "refusals [] = []" "refusals (a @ b) = refusals a @ refusals b" "refusals (Examined # b) = refusals b"
  "refusals (Refused_hop r # b) = r # refusals b" "refusals (Found p # b) = refusals b"
  "examinations [] = 0" "examinations (a @ b) = examinations a + examinations b"
  "examinations (Examined # b) = examinations b + 1" "examinations (Refused_hop r # b) = examinations b"
  "examinations (Found p # b) = examinations b"
  by (simp_all add: founds_def refusals_def examinations_def)

text \<open>
  What a part of the search owes the part of the reference it walks: its paths are a prefix, cut only
  where a cap stopped it; without a stop its counters are the reference's; the caps hold; and once a
  cap is reached no path is added.
\<close>

definition exhausted :: "SearchInput \<Rightarrow> SearchRun \<Rightarrow> bool" where
  "exhausted inp run \<longleftrightarrow> maxExpansions (searchBudget inp) \<le> runExpansions run \<or> full inp run"

definition replay :: "SearchEvent list \<Rightarrow> SearchRun \<Rightarrow> SearchRun" where
  "replay evs run = run\<lparr>runPaths := runPaths run @ founds evs, runRejected := runRejected run @ refusals evs,
     runExpansions := runExpansions run + examinations evs\<rparr>"

definition cut_off :: "SearchInput \<Rightarrow> SearchEvent list \<Rightarrow> SearchRun \<Rightarrow> SearchRun \<Rightarrow> bool" where
  "cut_off inp evs run run' \<longleftrightarrow>
     (\<exists>ys zs. founds evs = ys @ zs \<and> runPaths run' = runPaths run @ ys \<and>
        (zs = [] \<or> exhausted inp run' \<and> runStops run' \<noteq> []))"

definition walks :: "SearchInput \<Rightarrow> SearchEvent list \<Rightarrow> SearchRun \<Rightarrow> SearchRun \<Rightarrow> bool" where
  "walks inp evs run run' \<longleftrightarrow>
     cut_off inp evs run run' \<and>
     (runStops run' = [] \<longrightarrow> runStops run = [] \<and> run' = replay evs run) \<and>
     (exhausted inp run \<longrightarrow> exhausted inp run' \<and> runPaths run' = runPaths run) \<and>
     (runExpansions run \<le> maxExpansions (searchBudget inp) \<longrightarrow>
        runExpansions run' \<le> maxExpansions (searchBudget inp)) \<and>
     (int (length (runPaths run)) \<le> maxCandidates (searchBudget inp) \<longrightarrow>
        int (length (runPaths run')) \<le> maxCandidates (searchBudget inp))"

lemma walks_refl: "walks inp [] run run"
  by (simp add: walks_def cut_off_def replay_def)

lemma cut_off_trans:
  assumes "cut_off inp as a b" and "cut_off inp bs b c"
    and "exhausted inp b \<Longrightarrow> exhausted inp c \<and> runPaths c = runPaths b"
    and "runStops c = [] \<Longrightarrow> runStops b = []"
  shows "cut_off inp (as @ bs) a c"
proof -
  obtain ya za where a: "founds as = ya @ za" "runPaths b = runPaths a @ ya"
    "za = [] \<or> exhausted inp b \<and> runStops b \<noteq> []" using assms(1) by (auto simp: cut_off_def)
  obtain yb zb where b: "founds bs = yb @ zb" "runPaths c = runPaths b @ yb"
    "zb = [] \<or> exhausted inp c \<and> runStops c \<noteq> []" using assms(2) by (auto simp: cut_off_def)
  show ?thesis
  proof (cases "za = []")
    case True
    then have "founds (as @ bs) = (ya @ yb) @ zb" "runPaths c = runPaths a @ (ya @ yb)" using a b by simp_all
    then show ?thesis unfolding cut_off_def using b(3) by blast
  next
    case False
    then have "exhausted inp c" "runPaths c = runPaths b" "runStops c \<noteq> []" using a(3) assms(3,4) by blast+
    moreover have "founds (as @ bs) = ya @ (za @ founds bs)" using a(1) by simp
    ultimately show ?thesis unfolding cut_off_def using a(2) by metis
  qed
qed

lemma walksD:
  assumes "walks inp evs run run'"
  shows "cut_off inp evs run run'" "runStops run' = [] \<Longrightarrow> runStops run = []"
    "runStops run' = [] \<Longrightarrow> run' = replay evs run"
    "exhausted inp run \<Longrightarrow> exhausted inp run' \<and> runPaths run' = runPaths run"
    "runExpansions run \<le> maxExpansions (searchBudget inp) \<Longrightarrow> runExpansions run' \<le> maxExpansions (searchBudget inp)"
    "int (length (runPaths run)) \<le> maxCandidates (searchBudget inp) \<Longrightarrow>
       int (length (runPaths run')) \<le> maxCandidates (searchBudget inp)"
  using assms by (simp_all add: walks_def)

lemma replay_append: "replay bs (replay as run) = replay (as @ bs) run"
  by (simp add: replay_def)

lemma walks_trans:
  assumes "walks inp as a b" and "walks inp bs b c"
  shows "walks inp (as @ bs) a c"
proof -
  note a = walksD [OF assms(1)] and b = walksD [OF assms(2)]
  have "cut_off inp (as @ bs) a c" by (rule cut_off_trans [OF a(1) b(1,4,2)])
  moreover have "runStops c = [] \<Longrightarrow> c = replay (as @ bs) a"
    using a(3) b(2,3) replay_append [of bs as a] by simp
  ultimately show ?thesis unfolding walks_def using a(2,4-6) b(2,4-6) by simp
qed

lemma pushCode_neq [simp]: "pushCode codes c \<noteq> []"
  by (auto simp: pushCode_def)

lemma walks_count: 
  assumes "runExpansions run < maxExpansions (searchBudget inp)"
  shows "walks inp [Examined] run (countOffer run)"
  using assms by (auto simp: walks_def cut_off_def replay_def countOffer_def exhausted_def full_def)

lemma walks_reject: "walks inp [Refused_hop (offerRefOf o', reason)] run (rejectOffer o' reason run)"
  by (auto simp: walks_def cut_off_def replay_def rejectOffer_def exhausted_def full_def)

lemma walks_stop:
  assumes "exhausted inp run"
  shows "walks inp evs run (stopWith s run)"
  using assms by (auto simp: walks_def cut_off_def stopWith_def exhausted_def full_def)

lemma walks_goal:
  assumes "runExpansions run < maxExpansions (searchBudget inp)"
  shows "walks inp (Examined # (if stateUnit nxt = searchGoal inp then [Found (pathOf nxt)] else [])) run
    (keepGoal inp nxt (countOffer run))"
proof (cases "stateUnit nxt = searchGoal inp")
  case True
  show ?thesis
  proof (cases "full inp run")
    case full: True
    then have "exhausted inp (countOffer run)" by (simp add: exhausted_def full_def countOffer_def)
    from walks_trans [OF walks_count [OF assms] walks_stop [OF this]] show ?thesis
      using True full by (simp add: keepGoal_def full_def countOffer_def)
  next
    case False
    then show ?thesis using True assms
      by (simp add: keepGoal_def walks_def cut_off_def replay_def exhausted_def full_def countOffer_def)
  qed
next
  case False
  then show ?thesis using walks_count [OF assms] by (simp add: keepGoal_def)
qed

lemma walks_scan: "walks inp (exploration inp st visited os) run (scan inp st visited os run)"
proof (induction inp st visited os run rule: scan.induct)
  case (1 inp st visited run)
  then show ?case by (simp add: walks_refl)
next
  case (2 inp st visited o' os run)
  show ?case
  proof (cases "maxExpansions (searchBudget inp) \<le> runExpansions run")
    case True
    then have "exhausted inp run" by (simp add: exhausted_def)
    with True show ?thesis by (simp add: walks_stop)
  next
    case False
    then have room: "runExpansions run < maxExpansions (searchBudget inp)" by simp
    show ?thesis
    proof (cases "examineOffer (requiredBy inp) st visited o'")
      case Skipped
      then have "walks inp (exploration inp st visited os) (countOffer run) (scan inp st visited os (countOffer run))"
        using 2(2) [OF False] by simp
      from walks_trans [OF walks_count [OF room] this] show ?thesis using False Skipped by simp
    next
      case (Hop_rejected reason)
      let ?run = "rejectOffer o' reason (countOffer run)"
      have "walks inp (exploration inp st visited os) ?run (scan inp st visited os ?run)"
        using 2(2) [OF False] Hop_rejected by simp
      from walks_trans [OF walks_trans [OF walks_count [OF room] walks_reject] this]
      show ?thesis using False Hop_rejected by simp
    next
      case (Taken nxt)
      let ?run = "keepGoal inp nxt (countOffer run)"
      let ?goal = "if stateUnit nxt = searchGoal inp then [Found (pathOf nxt)] else []"
      have sub: "walks inp (explorationFrom inp nxt (visited @ [toUnitRef o'])) ?run (visit inp nxt (visited @ [toUnitRef o']) ?run)"
        using 2(1) [OF False Taken refl]
        by (auto simp: visit_def explorationFrom_def walks_refl exhausted_def intro: walks_stop)
      have "walks inp (exploration inp st visited os) (visit inp nxt (visited @ [toUnitRef o']) ?run)
          (scan inp st visited os (visit inp nxt (visited @ [toUnitRef o']) ?run))"
        using 2(2) [OF False] Taken by (simp add: visit_def Let_def)
      from walks_trans [OF walks_trans [OF walks_goal [OF room] sub] this] show ?thesis
        using False Taken by (simp add: scan_Cons explorationFrom_def del: scan.simps)
    qed
  qed
qed

lemma walks_visit: "walks inp (explorationFrom inp st visited) run (visit inp st visited run)"
  by (auto simp: visit_def explorationFrom_def walks_refl walks_scan exhausted_def intro: walks_stop)

lemma stops_listed: "filter (\<lambda>s. s \<in> set stops) SEARCH_STOPS = [] \<longleftrightarrow> stops = []"
proof -
  have "s \<in> set SEARCH_STOPS" for s by (cases s) (simp_all add: SEARCH_STOPS_def)
  then show ?thesis by (auto simp: filter_empty_conv) (metis list.set_intros(1) neq_Nil_conv)
qed

lemma search_run:
  fixes offers :: "ConversionOffer list" and q :: Quantity and goal :: string and budget :: SearchBudget
  assumes "dayNumber clock = Some d"
  defines "run \<equiv> visit (searchInput offers goal budget) (startState q d) [unitRef q] emptyRun"
  shows "paths (findConversionPaths offers q clock goal budget) = runPaths run"
    "rejected (findConversionPaths offers q clock goal budget) = runRejected run"
    "expansions (findConversionPaths offers q clock goal budget) = runExpansions run"
    "stoppedBy (findConversionPaths offers q clock goal budget) = [] \<longleftrightarrow> runStops run = []"
  using assms(1) by (simp_all add: findConversionPaths_def run_def Let_def stops_listed)

lemma search_walks:
  assumes "dayNumber clock = Some d"
  shows "walks (searchInput offers goal budget)
    (explorationFrom (searchInput offers goal budget) (startState q d) [unitRef q]) emptyRun
    (visit (searchInput offers goal budget) (startState q d) [unitRef q] emptyRun)"
  by (rule walks_visit)

abbreviation reference :: "ConversionOffer list \<Rightarrow> Quantity \<Rightarrow> int \<Rightarrow> string \<Rightarrow> SearchBudget \<Rightarrow> SearchEvent list" where
  "reference offers q d goal budget \<equiv>
     explorationFrom (searchInput offers goal budget) (startState q d) [unitRef q]"

lemma search_against_reference:
  fixes offers :: "ConversionOffer list" and q :: Quantity and goal :: string and budget :: SearchBudget
  assumes "dayNumber clock = Some d"
  defines "r \<equiv> findConversionPaths offers q clock goal budget" and "ref \<equiv> reference offers q d goal budget"
  shows "\<exists>rest. founds ref = paths r @ rest"
    "stoppedBy r = [] \<Longrightarrow> paths r = founds ref \<and> rejected r = refusals ref \<and> expansions r = examinations ref"
    "0 \<le> maxExpansions budget \<Longrightarrow> expansions r \<le> maxExpansions budget"
    "0 \<le> maxCandidates budget \<Longrightarrow> int (length (paths r)) \<le> maxCandidates budget"
proof -
  define inp where "inp = searchInput offers goal budget"
  define run where "run = visit inp (startState q d) [unitRef q] emptyRun"
  note result = search_run [OF assms(1), where offers = offers and goal = goal and budget = budget and q = q,
      folded inp_def r_def, folded run_def]
  note w = walksD [OF search_walks [OF assms(1), where offers = offers and goal = goal and budget = budget and q = q,
      folded ref_def inp_def, folded run_def]]
  have budget: "searchBudget inp = budget" by (simp add: inp_def searchInput_def)
  show "\<exists>rest. founds ref = paths r @ rest" using w(1) by (auto simp: cut_off_def emptyRun_def result)
  show "expansions r \<le> maxExpansions budget" if "0 \<le> maxExpansions budget"
    using w(5) that by (simp add: budget result) (simp add: emptyRun_def)
  show "int (length (paths r)) \<le> maxCandidates budget" if "0 \<le> maxCandidates budget"
    using w(6) that by (simp add: budget result) (simp add: emptyRun_def)
  show "paths r = founds ref \<and> rejected r = refusals ref \<and> expansions r = examinations ref" if "stoppedBy r = []"
    unfolding result w(3) [OF that [unfolded result]] by (simp add: replay_def emptyRun_def)
qed

section \<open>What a path is\<close>


fun chainPlans :: "Quantity \<Rightarrow> ConversionOffer list \<Rightarrow> ConversionPlan list" where
  "chainPlans q [] = []"
| "chainPlans q (o' # os) =
     (let plan = simulateConversion o' q (fixedFees o') in plan # chainPlans (receive plan) os)"

fun chainHops :: "Quantity \<Rightarrow> int \<Rightarrow> ConversionOffer list \<Rightarrow> ConversionHop list" where
  "chainHops q d [] = []"
| "chainHops q d (o' # os) =
     \<lparr>hopOffer = offerRefOf o', hopPlan = simulateConversion o' q (fixedFees o'), appliedOn = dayText d,
       creditExpectedOn = dayText (d + processingDays o')\<rparr> #
     chainHops (receive (simulateConversion o' q (fixedFees o'))) (d + processingDays o') os"

definition chainEnd :: "SearchState \<Rightarrow> ConversionOffer list \<Rightarrow> SearchState" where
  "chainEnd st os = \<lparr>stateUnit = List.last (stateUnit st # map toUnitRef os),
      stateQuantity = List.last (stateQuantity st # map receive (chainPlans (stateQuantity st) os)),
      stateDay = stateDay st + sum_list (map processingDays os),
      stateHops = stateHops st @ chainHops (stateQuantity st) (stateDay st) os,
      usedOfferIds = usedOfferIds st @ map offerId os,
      usedQuotaRefs = usedQuotaRefs st @ concat (map quotaOf os),
      stateFees = stateFees st @ concat (map fixedFees os)\<rparr>"



lemma simulate_fees [simp]: "planFees (simulateConversion o' q fees) = fees"
  by (simp add: simulateConversion_def infeasible_def Let_def split: ValueState.split sum.split prod.split)

lemma distinct_quota [simp]: "distinct (quotaOf o')"
  by (simp add: quotaOf_def split: option.split)

text \<open>A sequence can be followed exactly when it is a chain without a repeated offer, quota or unit.\<close>

lemma chainEnd_Nil [simp]: "chainEnd st [] = st"
  by (simp add: chainEnd_def)















text \<open>A second hop for the example offer: from \<open>points:b\<close> to \<open>points:c\<close> in steps of 500.\<close>

definition ex_second :: ConversionOffer where
  "ex_second = ex_offer\<lparr>offerId := ''second'', fromUnitRef := ''points:b'', toUnitRef := ''points:c'',
     minimumUse := integerDecimal 500, increment := integerDecimal 500, maximumPerRequest := None\<rparr>"

definition ex_budget :: SearchBudget where
  "ex_budget = \<lparr>maxDepth = 2, maxCandidates = 8, maxExpansions = 500, requiredCompletionBy = None\<rparr>"

definition ex_start :: Quantity where
  "ex_start = exactQuantity ''points:a'' (integerDecimal 2500)"

definition ex_clock :: TemporalValue where
  "ex_clock = LocalDate ''2024-01-05'' None Derived"

lemma ex_day: "dayNumber ex_clock = Some 19727"
  by code_simp

lemma ex_search:
  "(let r = findConversionPaths [ex_offer, ex_second] ex_start ex_clock ''points:c'' ex_budget
    in stoppedBy r = [] \<and> length (paths r) = 1)"
  by code_simp

text \<open>
  Property C23: the budgeted search against the unbounded traversal. Its paths are the first paths of the
  reference, in its order; the caps on candidates and examinations hold; and when it reports no stop,
  its paths, rejections and number of examinations are all those of the reference, so an empty answer
  without a stop means that the offers allow no path within the depth.
\<close>

theorem search_is_prefix_of_reference:
  assumes "dayNumber clock = Some d" and "0 \<le> maxExpansions budget" and "0 \<le> maxCandidates budget"
  shows "(let r = findConversionPaths offers q clock goal budget; ref = reference offers q d goal budget
     in (\<exists>rest. founds ref = paths r @ rest) \<and> expansions r \<le> maxExpansions budget \<and>
        int (length (paths r)) \<le> maxCandidates budget \<and>
        (if stoppedBy r = []
         then paths r = founds ref \<and> rejected r = refusals ref \<and> expansions r = examinations ref else True))"
  using search_against_reference [OF assms(1), where offers = offers and goal = goal and budget = budget and q = q]
    assms(2,3) by simp

lemma search_is_prefix_of_reference_witness:
  "(let r = findConversionPaths [ex_offer, ex_second] ex_start ex_clock ''points:c'' ex_budget
    in length (paths r) = 1 \<and> paths r = founds (reference [ex_offer, ex_second] ex_start 19727 ''points:c'' ex_budget))"
proof -
  have budget: "0 \<le> maxExpansions ex_budget" "0 \<le> maxCandidates ex_budget" by (simp_all add: ex_budget_def)
  from search_is_prefix_of_reference [OF ex_day budget, of "[ex_offer, ex_second]" ex_start "''points:c''"] ex_search
  show ?thesis unfolding Let_def by presburger
qed



section \<open>What the search does not look at\<close>

text \<open>
  The validity period, the tiers, the bucket kinds and the restrictions of an offer do not change what
  the search does with it at any state.
\<close>

lemma search_ignores_eligibility:
  assumes other_def: "other = o'\<lparr>eligibleBucketKinds := ks, eligibleRestrictionRefs := rs, eligibleTiers := ts,
    offerValidTime := v\<rparr>"
  shows "examineOffer required st visited other = examineOffer required st visited o'"
proof -
  have refs: "offerRefOf other = offerRefOf o'" "conditionRefs other = conditionRefs o'" "quotaOf other = quotaOf o'"
    by (simp_all add: offerRefOf_def conditionRefs_def quotaOf_def other_def)
  have same: "fromUnitRef other = fromUnitRef o'" "toUnitRef other = toUnitRef o'" "increment other = increment o'"
    "minimumUse other = minimumUse o'" "maximumPerRequest other = maximumPerRequest o'"
    "offerRatio other = offerRatio o'" "offerRounding other = offerRounding o'"
    "offerVerification other = offerVerification o'" "offerVersion other = offerVersion o'" "offerId other = offerId o'"
    "fixedFees other = fixedFees o'" "applicationDeadline other = applicationDeadline o'"
    "processingDays other = processingDays o'"
    by (simp_all add: other_def)
  show ?thesis
    unfolding examineOffer_def planOf_def nextState_def hopOf_def simulateConversion_def infeasible_def refs same ..
qed

end
