(* ===== verification/Reward_Expiry.thy ===== *)
theory Reward_Expiry
  imports Reward_Search
begin

text \<open>
  The expiry estimate of a reward holding, \<open>estimateExpiry\<close> of \<open>packages/domain/src/rewards.ts\<close>: what a rule
  version, the activity history and the membership claims yield for each bucket, kept apart from what
  the provider displays. The function's local variables up to \<open>computedFor\<close> are the record
  \<open>ExpiryInputs\<close>; the pushes onto \<open>uncertaintyCodes\<close> are a list in push order, folded by \<open>pushCode\<close>.
\<close>

section \<open>Data\<close>

definition EXPIRY_DERIVATION_RELEASE :: string where
  "EXPIRY_DERIVATION_RELEASE = ''reward-expiry-v2''"

datatype ExpiryFamily = Fixed_lot | Inactivity | Fixed_account | No_expiry_family | Unsupported_family

datatype DayBoundary = End_of_day | Start_of_day

datatype ZoneBasis = Documented | Assumed

record DeadlineCalendar =
  calendarZone :: string
  dayBoundary :: DayBoundary
  zoneBasis :: ZoneBasis

datatype ActivityDateBasis = Provider_posted | Member_used

record QualifyingActivityPolicy =
  policyRef :: string
  activityKinds :: "string list"
  excludedKinds :: "string list"
  extensionMonths :: int
  endOfMonthPolicy :: EndOfMonthPolicy
  dateBasis :: ActivityDateBasis

record ExpiryRule =
  ruleId :: string
  ruleVersion :: string
  ruleFamily :: ExpiryFamily
  ruleProgram :: string
  ruleBucketKinds :: "BucketKind list"
  ruleTiers :: "string list option"
  ruleValidPeriod :: "TemporalValue option"
  qualifyingActivity :: "QualifyingActivityPolicy option"
  deadlineCalendar :: DeadlineCalendar
  priorityPolicyRef :: "string option"
  ruleEvidence :: "string list"
  ruleVerification :: RuleVerification

record RewardActivity =
  activityRef :: string
  activityKind :: string
  postedDate :: TemporalValue
  usedDate :: "TemporalValue option"

datatype HistoryCompleteness = History_complete | History_partial | History_unknown

record ActivityHistory =
  windowRef :: string
  completeness :: HistoryCompleteness
  earliestObserved :: "TemporalValue option"
  activities :: "RewardActivity list"

datatype ExpiryEstimateState = Estimate_computed | Estimate_partial | Estimate_conflict | Estimate_needs_verification

datatype DeadlineBasis = Provider_observed | Policy_estimate | Unknown_basis

record DisplayedExpiry =
  displayedValue :: TemporalValue
  displayedAt :: TemporalValue
  displayedFacts :: "string list"

record ExpiryRuleBasis =
  basisRuleRef :: string
  basisRuleId :: string
  basisVersion :: string
  basisFamily :: ExpiryFamily
  basisVerification :: RuleVerification
  basisPeriod :: "TemporalValue option"
  basisEvidence :: "string list"
  basisPolicyRef :: "string option"
  basisCalendar :: DeadlineCalendar

record ExpiryActivityBasis =
  basisWindow :: string
  basisCompleteness :: HistoryCompleteness
  basisEarliest :: "TemporalValue option"
  anchorActivityRef :: "string option"
  anchorDate :: "TemporalValue option"

record ExpiryMembershipClaimBasis =
  claimTier :: string
  claimSource :: MembershipSource
  claimValid :: TemporalValue
  claimEvidence :: "string list"

record ExpiryMembershipBasis =
  requiredTiers :: "string list"
  membershipClaims :: "ExpiryMembershipClaimBasis list"

datatype ComputedExpiryStatus = Date_status | No_expiry_status | Unavailable

definition COMPUTED_EXPIRY_REASONS :: "RewardCode list" where
  "COMPUTED_EXPIRY_REASONS =
     [Rule_not_verified, Rule_family_unsupported, Rule_out_of_force, Rule_transition_unconfirmed,
      Rule_bucket_kind_not_covered, Bucket_kind_unclassified, Fixed_deadline_not_derivable,
      Qualifying_activity_policy_missing, Membership_out_of_scope, Membership_not_retroactive,
      Activity_date_unknown, No_qualifying_activity_observed, History_completeness_unknown]"

record ComputedExpiry =
  computedStatus :: ComputedExpiryStatus
  computedValue :: "TemporalValue option"
  computedReason :: "RewardCode option"
  computedRule :: ExpiryRuleBasis
  computedActivity :: "ExpiryActivityBasis option"
  computedMembership :: "ExpiryMembershipBasis option"
  computedCodes :: "RewardCode list"
  computedRelease :: string

datatype ExpiryAgreement = Agree | Disagree | Not_comparable

record BucketExpiryBasis =
  displayed :: "DisplayedExpiry option"
  computed :: ComputedExpiry
  agreement :: ExpiryAgreement

record ExpiringBucket =
  expiringRef :: string
  expiringQuantity :: Quantity
  expiryDeadline :: TemporalValue
  deadlineBasis :: DeadlineBasis
  providerObserved :: "TemporalValue option"
  policyEstimated :: "TemporalValue option"
  expiryReasons :: "RewardCode list"
  expiryBasis :: BucketExpiryBasis

record ExpiryEstimate =
  estimateHolding :: string
  estimateRule :: string
  contextId :: string
  estimateState :: ExpiryEstimateState
  expiringBuckets :: "ExpiringBucket list"
  estimateCodes :: "RewardCode list"
  sourceExpiryRefs :: "string list"
  estimateRelease :: string

text \<open>The list that names itself the reason codes of the module.\<close>

definition REWARD_UNCERTAINTY_CODES :: "RewardCode list" where
  "REWARD_UNCERTAINTY_CODES =
     [History_incomplete, History_completeness_unknown, No_qualifying_activity_observed, Rule_not_verified,
      Rule_family_unsupported, Rule_out_of_force, Rule_bucket_kind_not_covered, Bucket_kind_unclassified,
      Membership_required, Membership_self_reported, Membership_not_retroactive, Membership_out_of_scope,
      Deadline_zone_assumed, Provider_and_policy_differ, Provider_expiry_only, No_expiry_under_verified_terms,
      Acquisition_date_unknown, Activity_date_unknown, Deadline_passed, Rule_transition_unconfirmed]"

section \<open>Validators\<close>

definition validDeadlineCalendar :: "DeadlineCalendar \<Rightarrow> bool" where
  "validDeadlineCalendar c \<longleftrightarrow> validZone (calendarZone c)"

definition validQualifyingActivityPolicy :: "QualifyingActivityPolicy \<Rightarrow> bool" where
  "validQualifyingActivityPolicy p \<longleftrightarrow>
     isRef (policyRef p) \<and> isRefList 100 (activityKinds p) \<and> isRefList 100 (excludedKinds p) \<and>
     1 \<le> extensionMonths p \<and> extensionMonths p \<le> 1200"

definition validExpiryRule :: "ExpiryRule \<Rightarrow> bool" where
  "validExpiryRule r \<longleftrightarrow>
     isRef (ruleId r) \<and> isText 64 (ruleVersion r) \<and> isRef (ruleProgram r) \<and> length (ruleBucketKinds r) \<le> 10 \<and>
     orNull (isRefList 100) (ruleTiers r) \<and> orNull validTemporalValue (ruleValidPeriod r) \<and>
     orNull validQualifyingActivityPolicy (qualifyingActivity r) \<and> validDeadlineCalendar (deadlineCalendar r) \<and>
     isTextOrNull 512 (priorityPolicyRef r) \<and> isRefList 100 (ruleEvidence r)"

definition validDisplayedExpiry :: "DisplayedExpiry \<Rightarrow> bool" where
  "validDisplayedExpiry d \<longleftrightarrow>
     validTemporalValue (displayedValue d) \<and> validTemporalValue (displayedAt d) \<and> isRefList 100 (displayedFacts d)"

definition validExpiryRuleBasis :: "ExpiryRuleBasis \<Rightarrow> bool" where
  "validExpiryRuleBasis b \<longleftrightarrow>
     isRef (basisRuleRef b) \<and> isRef (basisRuleId b) \<and> isText 64 (basisVersion b) \<and>
     basisRuleRef b = basisRuleId b @ ''@'' @ basisVersion b \<and> orNull validTemporalValue (basisPeriod b) \<and>
     isRefList 100 (basisEvidence b) \<and> isTextOrNull 512 (basisPolicyRef b) \<and> validDeadlineCalendar (basisCalendar b)"

fun isLocalDate :: "TemporalValue \<Rightarrow> bool" where
  "isLocalDate (LocalDate _ _ _) \<longleftrightarrow> True"
| "isLocalDate _ \<longleftrightarrow> False"

fun isUnknownTime :: "TemporalValue \<Rightarrow> bool" where
  "isUnknownTime (UnknownTime _) \<longleftrightarrow> True"
| "isUnknownTime _ \<longleftrightarrow> False"

definition validLocalDate :: "TemporalValue \<Rightarrow> bool" where
  "validLocalDate v \<longleftrightarrow> validTemporalValue v \<and> isLocalDate v"

definition validExpiryActivityBasis :: "ExpiryActivityBasis \<Rightarrow> bool" where
  "validExpiryActivityBasis b \<longleftrightarrow>
     isRef (basisWindow b) \<and> orNull validTemporalValue (basisEarliest b) \<and> isTextOrNull 512 (anchorActivityRef b) \<and>
     orNull validLocalDate (anchorDate b) \<and> (anchorActivityRef b = None) = (anchorDate b = None)"

definition validMembershipClaim :: "ExpiryMembershipClaimBasis \<Rightarrow> bool" where
  "validMembershipClaim c \<longleftrightarrow>
     isText 128 (claimTier c) \<and> validTemporalValue (claimValid c) \<and> isRefList 100 (claimEvidence c)"

definition validExpiryMembershipBasis :: "ExpiryMembershipBasis \<Rightarrow> bool" where
  "validExpiryMembershipBasis b \<longleftrightarrow>
     isRefList 100 (requiredTiers b) \<and> length (membershipClaims b) \<le> 100 \<and>
     list_all validMembershipClaim (membershipClaims b)"

definition answerableBy :: "ComputedExpiryStatus \<Rightarrow> ExpiryRuleBasis \<Rightarrow> bool" where
  "answerableBy st rule \<longleftrightarrow>
     (if st = Unavailable then True
      else if basisVerification rule \<noteq> Verified then False
      else if st = No_expiry_status then basisFamily rule = No_expiry_family \<and> basisPeriod rule = None
      else basisFamily rule \<noteq> No_expiry_family \<and> basisFamily rule \<noteq> Unsupported_family)"

text \<open>The codes are constructors here, so a list of them is bounded and without repetition.\<close>

definition validCodes :: "RewardCode list \<Rightarrow> bool" where
  "validCodes codes \<longleftrightarrow> length codes \<le> 100 \<and> distinct codes"

definition validComputedExpiry :: "ComputedExpiry \<Rightarrow> bool" where
  "validComputedExpiry c \<longleftrightarrow>
     orNull validLocalDate (computedValue c) \<and> orNull (\<lambda>r. r \<in> set COMPUTED_EXPIRY_REASONS) (computedReason c) \<and>
     (case computedStatus c of
        Date_status \<Rightarrow> computedValue c \<noteq> None \<and> computedReason c = None
      | No_expiry_status \<Rightarrow> computedValue c = None \<and> computedReason c = None
      | Unavailable \<Rightarrow> computedValue c = None \<and> computedReason c \<noteq> None) \<and>
     validExpiryRuleBasis (computedRule c) \<and> answerableBy (computedStatus c) (computedRule c) \<and>
     orNull validExpiryActivityBasis (computedActivity c) \<and>
     orNull validExpiryMembershipBasis (computedMembership c) \<and>
     validCodes (computedCodes c) \<and> isText 64 (computedRelease c)"

definition validBucketExpiryBasis :: "BucketExpiryBasis \<Rightarrow> bool" where
  "validBucketExpiryBasis b \<longleftrightarrow>
     orNull validDisplayedExpiry (displayed b) \<and> validComputedExpiry (computed b) \<and>
     (agreement b = Not_comparable \<or>
      (case displayed b of
         None \<Rightarrow> False
       | Some d \<Rightarrow> \<not> isUnknownTime (displayedValue d) \<and>
           (if agreement b = Agree then computedStatus (computed b) = Date_status
            else computedStatus (computed b) \<noteq> Unavailable)))"

section \<open>Dates and periods\<close>

definition asLocalDate :: "CivilDate \<Rightarrow> string \<Rightarrow> TemporalValue" where
  "asLocalDate date zone = LocalDate (formatLocalDate date) (Some zone) Derived"

definition activityDate :: "RewardActivity \<Rightarrow> ActivityDateBasis \<Rightarrow> TemporalValue" where
  "activityDate a basis =
     (if basis = Provider_posted then postedDate a
      else case usedDate a of None \<Rightarrow> UnknownTime ''activity_used_date_missing'' | Some d \<Rightarrow> d)"

fun coversDay :: "TemporalValue \<Rightarrow> CivilDate \<Rightarrow> bool" where
  "coversDay (Period p) d \<longleftrightarrow> periodContainsDate p d"
| "coversDay (LocalDate v _ _) d \<longleftrightarrow>
     (case parseLocalDate v of None \<Rightarrow> False | Some date \<Rightarrow> daysFromCivil date = daysFromCivil d)"
| "coversDay _ d \<longleftrightarrow> False"

definition versionInForce :: "ExpiryRule \<Rightarrow> CivilDate option \<Rightarrow> bool" where
  "versionInForce r d =
     (case ruleValidPeriod r of
        None \<Rightarrow> True
      | Some period \<Rightarrow> (case d of None \<Rightarrow> False | Some dd \<Rightarrow> coversDay period dd))"

definition ruleRefOf :: "ExpiryRule \<Rightarrow> string" where
  "ruleRefOf r = ruleId r @ ''@'' @ ruleVersion r"

definition ruleBasis :: "ExpiryRule \<Rightarrow> ExpiryRuleBasis" where
  "ruleBasis r = \<lparr>basisRuleRef = ruleRefOf r, basisRuleId = ruleId r, basisVersion = ruleVersion r,
     basisFamily = ruleFamily r, basisVerification = ruleVerification r, basisPeriod = ruleValidPeriod r,
     basisEvidence = js_set (ruleEvidence r), basisPolicyRef = map_option policyRef (qualifyingActivity r),
     basisCalendar = deadlineCalendar r\<rparr>"

definition agreementOf :: "DisplayedExpiry option \<Rightarrow> ComputedExpiry \<Rightarrow> ExpiryAgreement" where
  "agreementOf d c =
     (case d of
        None \<Rightarrow> Not_comparable
      | Some shown \<Rightarrow>
          if isUnknownTime (displayedValue shown) then Not_comparable
          else if computedStatus c = No_expiry_status then Disagree
          else case computedValue c of
            None \<Rightarrow> Not_comparable
          | Some v \<Rightarrow>
              (case compareTemporal (displayedValue shown) v of
                 Incomparable _ \<Rightarrow> Not_comparable
               | Ordered n \<Rightarrow> if n = 0 then Agree else Disagree))"

section \<open>What the rule, the history and the membership give\<close>

definition ruleFailureOf :: "ExpiryRule \<Rightarrow> CivilDate option \<Rightarrow> RewardCode option" where
  "ruleFailureOf r now =
     (if ruleVerification r \<noteq> Verified then Some Rule_not_verified
      else if ruleFamily r = Unsupported_family then Some Rule_family_unsupported
      else if \<not> versionInForce r now then Some Rule_out_of_force
      else if ruleFamily r = Inactivity \<and> qualifyingActivity r = None then Some Qualifying_activity_policy_missing
      else None)"

definition matchingClaims :: "ExpiryRule \<Rightarrow> RewardHolding \<Rightarrow> MembershipState list \<Rightarrow> MembershipState list" where
  "matchingClaims r h membership =
     (case ruleTiers r of
        None \<Rightarrow> []
      | Some tiers \<Rightarrow> filter (\<lambda>s. memberProgram s = holdingProgram h \<and> memberHolding s = holdingRef h \<and>
          tier s \<in> set tiers) membership)"

definition membershipBasisOf :: "ExpiryRule \<Rightarrow> MembershipState list \<Rightarrow> ExpiryMembershipBasis option" where
  "membershipBasisOf r matching =
     (case ruleTiers r of
        None \<Rightarrow> None
      | Some tiers \<Rightarrow> Some \<lparr>requiredTiers = js_set tiers,
          membershipClaims = map (\<lambda>s. \<lparr>claimTier = tier s, claimSource = memberSource s,
            claimValid = memberValid s, claimEvidence = js_set (memberEvidence s)\<rparr>) matching\<rparr>)"

text \<open>The scan for the newest qualifying activity: the anchor so far, and whether one had no date.\<close>

definition qualifies :: "QualifyingActivityPolicy \<Rightarrow> RewardActivity \<Rightarrow> bool" where
  "qualifies p a \<longleftrightarrow> activityKind a \<notin> set (excludedKinds p) \<and> activityKind a \<in> set (activityKinds p)"

definition replacesAnchor :: "(CivilDate \<times> string) option \<Rightarrow> CivilDate \<Rightarrow> string \<Rightarrow> bool" where
  "replacesAnchor anchor date ref \<longleftrightarrow>
     (case anchor of
        None \<Rightarrow> True
      | Some (a, aref) \<Rightarrow> daysFromCivil a < daysFromCivil date \<or> (daysFromCivil date = daysFromCivil a \<and> ref < aref))"

definition scanActivity ::
  "QualifyingActivityPolicy \<Rightarrow> (CivilDate \<times> string) option \<times> bool \<Rightarrow> RewardActivity \<Rightarrow>
   (CivilDate \<times> string) option \<times> bool"
where
  "scanActivity p acc a =
     (if \<not> qualifies p a then acc
      else case localDateOf (activityDate a (dateBasis p)) of
        None \<Rightarrow> (fst acc, True)
      | Some date \<Rightarrow>
          if replacesAnchor (fst acc) date (activityRef a) then (Some (date, activityRef a), snd acc) else acc)"

definition scanHistory :: "QualifyingActivityPolicy \<Rightarrow> RewardActivity list \<Rightarrow> (CivilDate \<times> string) option \<times> bool" where
  "scanHistory p items = foldl (scanActivity p) (None, False) items"

text \<open>Whether one of the claims covers the day, and whether the provider stands behind one that does.\<close>

definition coverCodes :: "MembershipState list \<Rightarrow> CivilDate option \<Rightarrow> RewardCode list" where
  "coverCodes matching d =
     (let covering = (case d of None \<Rightarrow> [] | Some dd \<Rightarrow> filter (\<lambda>s. coversDay (memberValid s) dd) matching)
      in if covering = [] then [Membership_not_retroactive]
         else if \<not> list_ex (\<lambda>s. memberSource s = Provider_membership) covering then [Membership_self_reported]
         else [])"

record ExpiryInputs =
  ruleFailure :: "RewardCode option"
  outOfScope :: bool
  anchorDay :: "CivilDate option"
  activityFailure :: "RewardCode option"
  activityBasis :: "ExpiryActivityBasis option"
  membershipBasis :: "ExpiryMembershipBasis option"
  notRetroactive :: bool
  derivationCodes :: "RewardCode list"

definition activityCodes :: "(CivilDate \<times> string) option \<times> bool \<Rightarrow> ActivityHistory \<Rightarrow> RewardCode list" where
  "activityCodes found history =
     (if snd found then [Activity_date_unknown] else []) @
     (if fst found = None then [No_qualifying_activity_observed] else []) @
     (case completeness history of
        History_partial \<Rightarrow> [History_incomplete]
      | History_unknown \<Rightarrow> [History_completeness_unknown]
      | History_complete \<Rightarrow> [])"

definition activityFailureOf :: "(CivilDate \<times> string) option \<times> bool \<Rightarrow> ActivityHistory \<Rightarrow> RewardCode option" where
  "activityFailureOf found history =
     (if snd found then Some Activity_date_unknown
      else if fst found = None then Some No_qualifying_activity_observed
      else if completeness history = History_unknown then Some History_completeness_unknown else None)"

definition zoneCodes :: "ExpiryRule \<Rightarrow> RewardCode list" where
  "zoneCodes r = (if zoneBasis (deadlineCalendar r) = Assumed then [Deadline_zone_assumed] else [])"

definition expiryInputs ::
  "ExpiryRule \<Rightarrow> RewardHolding \<Rightarrow> ActivityHistory \<Rightarrow> MembershipState list \<Rightarrow> CivilDate option \<Rightarrow> ExpiryInputs"
where
  "expiryInputs r h history membership now =
     (let failure = ruleFailureOf r now;
          matching = matchingClaims r h membership;
          gated = (failure = None \<and> ruleTiers r \<noteq> None);
          scope = (if \<not> gated then [] else if matching = [] then [Membership_out_of_scope] else [Membership_required]);
          consumes = (failure = None \<and> ruleFamily r = Inactivity);
          found = (case qualifyingActivity r of
              Some p \<Rightarrow> if consumes then scanHistory p (activities history) else (None, False)
            | None \<Rightarrow> (None, False));
          scanned = (consumes \<and> qualifyingActivity r \<noteq> None);
          cover = (if \<not> gated \<or> matching = [] then []
            else if scanned \<and> fst found \<noteq> None then coverCodes matching (map_option fst (fst found))
            else if ruleFamily r = No_expiry_family then coverCodes matching now else [])
      in \<lparr>ruleFailure = failure, outOfScope = (gated \<and> matching = []), anchorDay = map_option fst (fst found),
          activityFailure = (if scanned then activityFailureOf found history else None),
          activityBasis =
            (if scanned then Some \<lparr>basisWindow = windowRef history, basisCompleteness = completeness history,
               basisEarliest = earliestObserved history, anchorActivityRef = map_option snd (fst found),
               anchorDate = map_option (\<lambda>a. asLocalDate (fst a) (calendarZone (deadlineCalendar r))) (fst found)\<rparr>
             else None),
          membershipBasis = membershipBasisOf r matching,
          notRetroactive = (Membership_not_retroactive \<in> set cover),
          derivationCodes = zoneCodes r @ scope @ (if scanned then activityCodes found history else []) @ cover\<rparr>)"

section \<open>The computed side of a bucket\<close>

definition inactivityDeadline ::
  "ExpiryRule \<Rightarrow> ExpiryInputs \<Rightarrow> RewardCode + CivilDate"
where
  "inactivityDeadline r inp =
     (case anchorDay inp of
        None \<Rightarrow> Inl No_qualifying_activity_observed
      | Some a \<Rightarrow>
          (case qualifyingActivity r of
             None \<Rightarrow> Inl No_qualifying_activity_observed
           | Some p \<Rightarrow>
               (let deadline = addMonths a (extensionMonths p) (endOfMonthPolicy p)
                in if \<not> versionInForce r (Some a) \<or> \<not> versionInForce r (Some deadline)
                   then Inl Rule_transition_unconfirmed else Inr deadline)))"

text \<open>Status and day, or the one reason why there is none.\<close>

definition computeStatus ::
  "ExpiryRule \<Rightarrow> ExpiryInputs \<Rightarrow> BucketKind \<Rightarrow> RewardCode + CivilDate option"
where
  "computeStatus r inp k =
     (if k = Unclassified then Inl Bucket_kind_unclassified
      else case ruleFailure inp of
        Some reason \<Rightarrow> Inl reason
      | None \<Rightarrow>
          if k \<notin> set (ruleBucketKinds r) then Inl Rule_bucket_kind_not_covered
          else if ruleFamily r = Fixed_lot \<or> ruleFamily r = Fixed_account then Inl Fixed_deadline_not_derivable
          else if ruleFamily r = No_expiry_family then
            (if outOfScope inp then Inl Membership_out_of_scope
             else if notRetroactive inp then Inl Membership_not_retroactive
             else if ruleValidPeriod r \<noteq> None then Inl Rule_transition_unconfirmed
             else Inr None)
          else if outOfScope inp then Inl Membership_out_of_scope
          else case activityFailure inp of
            Some reason \<Rightarrow> Inl reason
          | None \<Rightarrow>
              if notRetroactive inp then Inl Membership_not_retroactive
              else map_sum id Some (inactivityDeadline r inp))"

definition consumedInputs :: "ExpiryRule \<Rightarrow> ExpiryInputs \<Rightarrow> RewardCode option \<Rightarrow> bool" where
  "consumedInputs r inp reason \<longleftrightarrow>
     ruleFailure inp = None \<and> reason \<noteq> Some Rule_bucket_kind_not_covered \<and>
     reason \<noteq> Some Bucket_kind_unclassified \<and> (ruleFamily r = Inactivity \<or> ruleFamily r = No_expiry_family)"

definition computedFor :: "ExpiryRule \<Rightarrow> ExpiryInputs \<Rightarrow> BucketKind \<Rightarrow> ComputedExpiry" where
  "computedFor r inp k =
     (let answer = computeStatus r inp k;
          reason = (case answer of Inl c \<Rightarrow> Some c | Inr _ \<Rightarrow> None);
          consumed = consumedInputs r inp reason
      in \<lparr>computedStatus = (case answer of Inl _ \<Rightarrow> Unavailable | Inr None \<Rightarrow> No_expiry_status | Inr (Some _) \<Rightarrow> Date_status),
          computedValue = (case answer of
              Inr (Some d) \<Rightarrow> Some (asLocalDate d (calendarZone (deadlineCalendar r))) | _ \<Rightarrow> None),
          computedReason = reason, computedRule = ruleBasis r,
          computedActivity = (if consumed \<and> ruleFamily r = Inactivity then activityBasis inp else None),
          computedMembership = (if consumed then membershipBasis inp else None),
          computedCodes = (if consumed then filter (\<lambda>c. Some c \<noteq> reason) (derivationCodes inp) else []),
          computedRelease = EXPIRY_DERIVATION_RELEASE\<rparr>)"

section \<open>The estimate\<close>

definition displayedOf :: "RewardBucket \<Rightarrow> DisplayedExpiry option" where
  "displayedOf b = map_option (\<lambda>v. \<lparr>displayedValue = v, displayedAt = bucketObservedAt b,
     displayedFacts = js_set (bucketFacts b)\<rparr>) (observedExpiry b)"

definition readableDisplay :: "DisplayedExpiry option \<Rightarrow> TemporalValue option" where
  "readableDisplay d =
     (case d of None \<Rightarrow> None
      | Some s \<Rightarrow> if isUnknownTime (displayedValue s) then None else Some (displayedValue s))"

fun code_text :: "RewardCode \<Rightarrow> string" where
  "code_text History_incomplete = ''history_incomplete''"
| "code_text History_completeness_unknown = ''history_completeness_unknown''"
| "code_text No_qualifying_activity_observed = ''no_qualifying_activity_observed''"
| "code_text Rule_not_verified = ''rule_not_verified''"
| "code_text Rule_family_unsupported = ''rule_family_unsupported''"
| "code_text Rule_out_of_force = ''rule_out_of_force''"
| "code_text Rule_bucket_kind_not_covered = ''rule_bucket_kind_not_covered''"
| "code_text Bucket_kind_unclassified = ''bucket_kind_unclassified''"
| "code_text Membership_required = ''membership_required''"
| "code_text Membership_self_reported = ''membership_self_reported''"
| "code_text Membership_not_retroactive = ''membership_not_retroactive''"
| "code_text Membership_out_of_scope = ''membership_out_of_scope''"
| "code_text Deadline_zone_assumed = ''deadline_zone_assumed''"
| "code_text Provider_and_policy_differ = ''provider_and_policy_differ''"
| "code_text Provider_expiry_only = ''provider_expiry_only''"
| "code_text No_expiry_under_verified_terms = ''no_expiry_under_verified_terms''"
| "code_text Acquisition_date_unknown = ''acquisition_date_unknown''"
| "code_text Activity_date_unknown = ''activity_date_unknown''"
| "code_text Deadline_passed = ''deadline_passed''"
| "code_text Rule_transition_unconfirmed = ''rule_transition_unconfirmed''"
| "code_text Fixed_deadline_not_derivable = ''fixed_deadline_not_derivable''"
| "code_text Qualifying_activity_policy_missing = ''qualifying_activity_policy_missing''"
| "code_text Bucket_unit_mismatch = ''unit_mismatch''"
| "code_text Qualification_not_consumable = ''qualification_not_consumable''"
| "code_text Award_not_yet_held = ''award_not_yet_held''"
| "code_text Qualification_measures_reported_separately = ''qualification_measures_reported_separately''"
| "code_text Not_consumable = ''not_consumable''"
| "code_text Bucket_kind_not_eligible = ''bucket_kind_not_eligible''"
| "code_text Restriction_not_eligible = ''restriction_not_eligible''"
| "code_text Offer_not_valid_at_clock = ''offer_not_valid_at_clock''"
| "code_text Application_deadline_passed = ''application_deadline_passed''"

definition unknownDeadline :: "ComputedExpiry \<Rightarrow> TemporalValue" where
  "unknownDeadline c =
     UnknownTime (if computedStatus c = No_expiry_status then ''no_expiry_under_verified_terms''
       else case computedReason c of None \<Rightarrow> ''expiry_not_determined'' | Some r \<Rightarrow> code_text r)"

definition deadlineOf :: "DisplayedExpiry option \<Rightarrow> ComputedExpiry \<Rightarrow> TemporalValue" where
  "deadlineOf d c =
     (case readableDisplay d of
        Some v \<Rightarrow> v
      | None \<Rightarrow>
          (case computedValue c of
             Some v \<Rightarrow> v
           | None \<Rightarrow> (case d of Some s \<Rightarrow> displayedValue s | None \<Rightarrow> unknownDeadline c)))"

definition deadlineBasisOf :: "DisplayedExpiry option \<Rightarrow> ComputedExpiry \<Rightarrow> DeadlineBasis" where
  "deadlineBasisOf d c =
     (if readableDisplay d \<noteq> None then Provider_observed
      else if computedValue c \<noteq> None then Policy_estimate
      else if d \<noteq> None then Provider_observed else Unknown_basis)"

definition deadlinePassed :: "CivilDate option \<Rightarrow> TemporalValue \<Rightarrow> bool" where
  "deadlinePassed now deadline \<longleftrightarrow>
     (case (now, deadline) of
        (Some n, LocalDate v _ _) \<Rightarrow>
          (case parseLocalDate v of None \<Rightarrow> False | Some d \<Rightarrow> daysFromCivil d < daysFromCivil n)
      | _ \<Rightarrow> False)"

text \<open>The codes one bucket pushes onto its own reasons, and onto the estimate's uncertainty.\<close>

definition bucketReasons :: "CivilDate option \<Rightarrow> DisplayedExpiry option \<Rightarrow> ComputedExpiry \<Rightarrow> RewardCode list" where
  "bucketReasons now d c =
     (case computedReason c of None \<Rightarrow> [] | Some r \<Rightarrow> [r]) @
     (if computedStatus c = No_expiry_status then [No_expiry_under_verified_terms] else []) @
     (if computedReason c = Some Fixed_deadline_not_derivable \<and> d = None then [Acquisition_date_unknown] else []) @
     (if d \<noteq> None \<and> computedStatus c = Unavailable then [Provider_expiry_only] else []) @
     (if agreementOf d c = Disagree then [Provider_and_policy_differ] else []) @
     (if deadlinePassed now (deadlineOf d c) then [Deadline_passed] else [])"

definition bucketUncertainty :: "CivilDate option \<Rightarrow> DisplayedExpiry option \<Rightarrow> ComputedExpiry \<Rightarrow> RewardCode list" where
  "bucketUncertainty now d c =
     (if computedStatus c = No_expiry_status then [No_expiry_under_verified_terms] else []) @
     (case computedReason c of None \<Rightarrow> []
      | Some r \<Rightarrow> if r \<in> {Bucket_kind_unclassified, Rule_bucket_kind_not_covered, Rule_transition_unconfirmed}
          then [r] else []) @
     (if computedReason c = Some Fixed_deadline_not_derivable \<and> d = None then [Acquisition_date_unknown] else []) @
     (if agreementOf d c = Disagree then [Provider_and_policy_differ] else []) @
     (if deadlinePassed now (deadlineOf d c) then [Deadline_passed] else [])"

definition expiringBucket :: "ExpiryRule \<Rightarrow> ExpiryInputs \<Rightarrow> CivilDate option \<Rightarrow> RewardBucket \<Rightarrow> ExpiringBucket" where
  "expiringBucket r inp now b =
     (let d = displayedOf b;
          c = computedFor r inp (bucketKind b)
      in \<lparr>expiringRef = bucketRef b, expiringQuantity = bucketQuantity b, expiryDeadline = deadlineOf d c,
          deadlineBasis = deadlineBasisOf d c, providerObserved = observedExpiry b,
          policyEstimated = computedValue c, expiryReasons = foldl pushCode [] (bucketReasons now d c),
          expiryBasis = \<lparr>displayed = d, computed = c, agreement = agreementOf d c\<rparr>\<rparr>)"

definition undeterminedBucket :: "ExpiryInputs \<Rightarrow> ExpiringBucket \<Rightarrow> bool" where
  "undeterminedBucket inp e \<longleftrightarrow>
     ruleFailure inp = None \<and> computedReason (computed (expiryBasis e)) \<noteq> Some Rule_bucket_kind_not_covered \<and>
     computedStatus (computed (expiryBasis e)) \<noteq> No_expiry_status \<and> isUnknownTime (expiryDeadline e)"

definition PARTIAL_CODES :: "RewardCode list" where
  "PARTIAL_CODES = [History_incomplete, History_completeness_unknown, No_qualifying_activity_observed,
     Acquisition_date_unknown, Activity_date_unknown, Bucket_kind_unclassified, Rule_transition_unconfirmed]"

definition failureCodes :: "RewardCode option \<Rightarrow> RewardCode list" where
  "failureCodes failure =
     (case failure of
        None \<Rightarrow> []
      | Some c \<Rightarrow> [if c = Qualifying_activity_policy_missing then Rule_family_unsupported else c])"

definition estimateExpiry ::
  "ExpiryRule \<Rightarrow> RewardHolding \<Rightarrow> ActivityHistory \<Rightarrow> MembershipState list \<Rightarrow> TemporalValue \<Rightarrow> string \<Rightarrow> ExpiryEstimate"
where
  "estimateExpiry r h history membership clock context =
     (let now = localDateOf clock;
          inp = expiryInputs r h history membership now;
          listed = filter (\<lambda>b. bucketKind b \<noteq> Qualification) (buckets h);
          rows = map (expiringBucket r inp now) listed;
          codes = foldl pushCode []
            (zoneCodes r @ failureCodes (ruleFailure inp) @ derivationCodes inp @
             concat (map (\<lambda>b. bucketUncertainty now (displayedOf b) (computedFor r inp (bucketKind b))) listed));
          conflict = list_ex (\<lambda>e. agreement (expiryBasis e) = Disagree) rows;
          part = (list_ex (undeterminedBucket inp) rows \<or> outOfScope inp \<or> notRetroactive inp \<or>
            list_ex (\<lambda>c. c \<in> set codes) PARTIAL_CODES)
      in \<lparr>estimateHolding = holdingRef h, estimateRule = ruleRefOf r, contextId = context,
          estimateState =
            (if ruleFailure inp \<noteq> None then Estimate_needs_verification
             else if conflict then Estimate_conflict
             else if part then Estimate_partial else Estimate_computed),
          expiringBuckets = rows, estimateCodes = codes,
          sourceExpiryRefs = js_set (concat (map (\<lambda>b. if observedExpiry b \<noteq> None then bucketFacts b else []) listed)),
          estimateRelease = REWARD_POLICY_RELEASE\<rparr>)"

end
