(* ===== verification/Reward_Expiry_Contract.thy ===== *)
theory Reward_Expiry_Contract
  imports Reward_Expiry
begin

text \<open>
  What the expiry estimate promises: when it has a date and which, that the order of the history does
  not matter, and that every basis it returns passes the contract's own validator.
\<close>

section \<open>The newest qualifying activity\<close>

lemma localDateOf_valid:
  assumes "localDateOf v = Some d"
  shows "validCivil d \<and> 0 \<le> year d \<and> year d \<le> 9999"
  using assms by (cases v) (auto dest: parseLocalDate_Some)

lemma same_day:
  assumes "validCivil a" and "validCivil b"
  shows "daysFromCivil a = daysFromCivil b \<longleftrightarrow> a = b"
  using civilFromDays_daysFromCivil [OF assms(1)] civilFromDays_daysFromCivil [OF assms(2)] by metis

definition betterAnchor :: "(CivilDate \<times> string) option \<Rightarrow> CivilDate \<times> string \<Rightarrow> (CivilDate \<times> string) option" where
  "betterAnchor acc a = (if replacesAnchor acc (fst a) (snd a) then Some a else acc)"

text \<open>The dated qualifying activities, in the order of the history.\<close>

definition datedActivities :: "QualifyingActivityPolicy \<Rightarrow> RewardActivity list \<Rightarrow> (CivilDate \<times> string) list" where
  "datedActivities p items =
     List.map_filter (\<lambda>a. if qualifies p a
       then map_option (\<lambda>d. (d, activityRef a)) (localDateOf (activityDate a (dateBasis p))) else None) items"

definition undatedActivity :: "QualifyingActivityPolicy \<Rightarrow> RewardActivity \<Rightarrow> bool" where
  "undatedActivity p a \<longleftrightarrow> qualifies p a \<and> localDateOf (activityDate a (dateBasis p)) = None"

lemma scanActivity_step:
  "scanActivity p (anchor, undated) a =
     (foldl betterAnchor anchor (datedActivities p [a]), undated \<or> undatedActivity p a)"
  by (simp add: scanActivity_def datedActivities_def undatedActivity_def betterAnchor_def List.map_filter_def
      split: option.split)

lemma datedActivities_Cons: "datedActivities p (a # items) = datedActivities p [a] @ datedActivities p items"
  by (simp add: datedActivities_def List.map_filter_def)

lemma scanHistory_folds:
  "foldl (scanActivity p) (anchor, undated) items =
     (foldl betterAnchor anchor (datedActivities p items), undated \<or> list_ex (undatedActivity p) items)"
proof (induction items arbitrary: anchor undated)
  case (Cons a items)
  show ?case by (simp add: scanActivity_step Cons.IH datedActivities_Cons [of p a items])
qed (simp add: datedActivities_def List.map_filter_def)

lemma scanHistory_parts:
  "scanHistory p items = (foldl betterAnchor None (datedActivities p items), list_ex (undatedActivity p) items)"
  by (simp add: scanHistory_def scanHistory_folds)

lemma dated_valid: "a \<in> set (datedActivities p items) \<Longrightarrow> validCivil (fst a) \<and> 0 \<le> year (fst a) \<and> year (fst a) \<le> 9999"
  by (auto simp: datedActivities_def List.map_filter_def split: if_splits dest: localDateOf_valid)

lemma better_commutes:
  assumes "validCivil (fst x)" and "validCivil (fst y)"
  shows "betterAnchor (betterAnchor acc x) y = betterAnchor (betterAnchor acc y) x"
proof -
  have day: "daysFromCivil (fst x) = daysFromCivil (fst y) \<longleftrightarrow> fst x = fst y" using assms by (rule same_day)
  show ?thesis
  proof (cases acc)
    case None
    then show ?thesis using day
      by (cases "daysFromCivil (fst x)" "daysFromCivil (fst y)" rule: linorder_cases; cases x; cases y)
        (auto simp: betterAnchor_def replacesAnchor_def)
  next
    case (Some a)
    obtain ad ar where a: "a = (ad, ar)" by (cases a)
    show ?thesis using day unfolding Some a
      by (cases "daysFromCivil (fst x)" "daysFromCivil (fst y)" rule: linorder_cases; cases x; cases y)
        (auto simp: betterAnchor_def replacesAnchor_def)
  qed
qed

lemma scanHistory_perm:
  assumes "mset items = mset items'"
  shows "scanHistory p items = scanHistory p items'"
proof -
  have dated: "mset (datedActivities p items) = mset (datedActivities p items')"
    using assms by (simp add: datedActivities_def List.map_filter_def)
  have "fold (\<lambda>x acc. betterAnchor acc x) (datedActivities p items) None =
      fold (\<lambda>x acc. betterAnchor acc x) (datedActivities p items') None"
    by (rule fold_permuted_eq [OF dated, where P = "\<lambda>_. True"])
      (auto intro: better_commutes dest: dated_valid)
  moreover have "list_ex (undatedActivity p) items = list_ex (undatedActivity p) items'"
    using mset_eq_setD [OF assms] by (simp add: list_ex_iff)
  ultimately show ?thesis by (simp add: scanHistory_parts foldl_conv_fold)
qed

text \<open>
  The order of an activity history does not matter. The same activities listed in another
  order give the same estimate: the same anchor, dates, reasons, codes and state.
\<close>

theorem history_order_free:
  assumes "mset (activities history) = mset items"
  shows "estimateExpiry r h (history\<lparr>activities := items\<rparr>) ms clock context = estimateExpiry r h history ms clock context"
proof -
  let ?other = "history\<lparr>activities := items\<rparr>"
  have scan: "scanHistory p items = scanHistory p (activities history)" for p
    using scanHistory_perm [OF assms] by simp
  have fields: "activities ?other = items" "completeness ?other = completeness history"
    "windowRef ?other = windowRef history" "earliestObserved ?other = earliestObserved history" by simp_all
  have "expiryInputs r h ?other ms now = expiryInputs r h history ms now" for now
    unfolding expiryInputs_def activityCodes_def activityFailureOf_def fields scan ..
  then show ?thesis by (simp add: estimateExpiry_def)
qed

section \<open>When there is a date\<close>

definition newest :: "QualifyingActivityPolicy \<Rightarrow> RewardActivity list \<Rightarrow> CivilDate \<Rightarrow> bool" where
  "newest p items d \<longleftrightarrow>
     d \<in> fst ` set (datedActivities p items) \<and>
     (\<forall>a\<in>set (datedActivities p items). daysFromCivil (fst a) \<le> daysFromCivil d)"

lemma anchor_newest:
  "case foldl betterAnchor None ds of
     None \<Rightarrow> ds = []
   | Some a \<Rightarrow> a \<in> set ds \<and> (\<forall>b\<in>set ds. daysFromCivil (fst b) \<le> daysFromCivil (fst a))"
proof (induction ds rule: rev_induct)
  case (snoc x ds)
  show ?case
  proof (cases "foldl betterAnchor None ds")
    case None
    with snoc.IH show ?thesis by (simp add: betterAnchor_def [of None] replacesAnchor_def)
  next
    case (Some a)
    have "betterAnchor (Some a) x = (if daysFromCivil (fst a) < daysFromCivil (fst x) \<or>
        (daysFromCivil (fst x) = daysFromCivil (fst a) \<and> snd x < snd a) then Some x else Some a)"
      by (cases a) (simp add: betterAnchor_def replacesAnchor_def)
    with Some snoc.IH show ?thesis by auto
  qed
qed simp

lemma newest_anchor:
  "newest p items d \<longleftrightarrow> map_option fst (fst (scanHistory p items)) = Some d"
proof -
  let ?ds = "datedActivities p items"
  have anchor: "fst (scanHistory p items) = foldl betterAnchor None ?ds" by (simp add: scanHistory_parts)
  show ?thesis
  proof (cases "foldl betterAnchor None ?ds")
    case None
    then show ?thesis using anchor_newest [of ?ds] by (simp add: newest_def anchor)
  next
    case (Some a)
    then have a: "a \<in> set ?ds" "\<forall>b\<in>set ?ds. daysFromCivil (fst b) \<le> daysFromCivil (fst a)"
      using anchor_newest [of ?ds] by simp_all
    have "newest p items d \<longleftrightarrow> fst a = d"
    proof
      assume "newest p items d"
      then obtain b where b: "b \<in> set ?ds" "d = fst b" "daysFromCivil (fst a) \<le> daysFromCivil d"
        using a(1) by (auto simp: newest_def)
      then have "daysFromCivil (fst a) = daysFromCivil (fst b)" using a(2) by (simp add: order_antisym)
      then show "fst a = d" using same_day dated_valid a(1) b(1,2) by metis
    qed (use a in \<open>auto simp: newest_def\<close>)
    then show ?thesis by (simp add: anchor Some)
  qed
qed

definition tierCovered :: "ExpiryRule \<Rightarrow> RewardHolding \<Rightarrow> MembershipState list \<Rightarrow> CivilDate \<Rightarrow> bool" where
  "tierCovered r h ms d \<longleftrightarrow>
     (case ruleTiers r of
        None \<Rightarrow> True
      | Some _ \<Rightarrow> list_ex (\<lambda>s. coversDay (memberValid s) d) (matchingClaims r h ms))"

text \<open>Every input that a date needs.\<close>

definition dateReady ::
  "ExpiryRule \<Rightarrow> RewardHolding \<Rightarrow> ActivityHistory \<Rightarrow> MembershipState list \<Rightarrow> CivilDate option \<Rightarrow> BucketKind \<Rightarrow>
   QualifyingActivityPolicy \<Rightarrow> CivilDate \<Rightarrow> bool"
where
  "dateReady r h history ms now k p a \<longleftrightarrow>
     ruleVerification r = Verified \<and> ruleFamily r = Inactivity \<and> versionInForce r now \<and>
     qualifyingActivity r = Some p \<and> k \<noteq> Unclassified \<and> k \<in> set (ruleBucketKinds r) \<and>
     \<not> list_ex (undatedActivity p) (activities history) \<and> newest p (activities history) a \<and>
     completeness history \<noteq> History_unknown \<and> tierCovered r h ms a \<and>
     versionInForce r (Some a) \<and> versionInForce r (Some (addMonths a (extensionMonths p) (endOfMonthPolicy p)))"

lemma cover_codes:
  "Membership_not_retroactive \<in> set (coverCodes ms (Some d)) \<longleftrightarrow> \<not> list_ex (\<lambda>s. coversDay (memberValid s) d) ms"
  by (auto simp: coverCodes_def Let_def filter_empty_conv list_ex_iff)

lemma inputs_failure [simp]: "ruleFailure (expiryInputs r h history ms now) = ruleFailureOf r now"
  by (simp add: expiryInputs_def Let_def)

lemma inputs_inactivity:
  assumes "ruleFailureOf r now = None" and "ruleFamily r = Inactivity" and "qualifyingActivity r = Some p"
  shows "anchorDay (expiryInputs r h history ms now) = map_option fst (fst (scanHistory p (activities history)))"
    "activityFailure (expiryInputs r h history ms now) = activityFailureOf (scanHistory p (activities history)) history"
    "outOfScope (expiryInputs r h history ms now) \<longleftrightarrow> ruleTiers r \<noteq> None \<and> matchingClaims r h ms = []"
    "newest p (activities history) a \<Longrightarrow> matchingClaims r h ms \<noteq> [] \<Longrightarrow>
      notRetroactive (expiryInputs r h history ms now) \<longleftrightarrow> \<not> tierCovered r h ms a"
    "ruleTiers r = None \<Longrightarrow> \<not> notRetroactive (expiryInputs r h history ms now)"
  using assms
  by (auto simp: expiryInputs_def Let_def newest_anchor tierCovered_def cover_codes matchingClaims_def split: option.splits)

lemma status_date_iff:
  "computeStatus r (expiryInputs r h history ms now) k = Inr (Some deadline) \<longleftrightarrow>
     (\<exists>p a. dateReady r h history ms now k p a \<and> deadline = addMonths a (extensionMonths p) (endOfMonthPolicy p))"
proof (cases "ruleFailureOf r now = None \<and> ruleFamily r = Inactivity \<and> k \<noteq> Unclassified \<and> k \<in> set (ruleBucketKinds r)")
  case False
  moreover have "\<not> dateReady r h history ms now k p a" for p a
    using False by (auto simp: dateReady_def ruleFailureOf_def)
  moreover have "ruleFailureOf r now = None \<Longrightarrow> ruleFamily r \<noteq> Unsupported_family"
    by (auto simp: ruleFailureOf_def split: if_splits)
  ultimately show ?thesis
    by (cases "ruleFamily r") (auto simp: computeStatus_def split: option.splits)
next
  case True
  then obtain p where p: "qualifyingActivity r = Some p" by (auto simp: ruleFailureOf_def split: if_splits)
  have base: "ruleVerification r = Verified" "versionInForce r now"
    using True by (auto simp: ruleFailureOf_def split: if_splits)
  let ?inp = "expiryInputs r h history ms now"
  have status: "computeStatus r ?inp k =
      (if outOfScope ?inp then Inl Membership_out_of_scope
       else case activityFailure ?inp of
         Some reason \<Rightarrow> Inl reason
       | None \<Rightarrow> if notRetroactive ?inp then Inl Membership_not_retroactive
           else map_sum id Some (inactivityDeadline r ?inp))"
    using True by (simp add: computeStatus_def)
  note inputs = inputs_inactivity [OF _ _ p, where now = now and h = h and history = history and ms = ms]
  show ?thesis
  proof (cases "\<exists>a. newest p (activities history) a")
    case False
    then have "fst (scanHistory p (activities history)) = None"
      unfolding newest_anchor by (cases "fst (scanHistory p (activities history))") auto
    then have "activityFailure ?inp \<noteq> None" using True inputs(2) by (simp add: activityFailureOf_def)
    then show ?thesis using False p by (auto simp: status dateReady_def)
  next
    case some: True
    then obtain a where a: "newest p (activities history) a" ..
    then have anchor: "anchorDay ?inp = Some a" "fst (scanHistory p (activities history)) \<noteq> None"
      using True inputs(1) by (auto simp: newest_anchor)
    have only: "newest p (activities history) b \<longleftrightarrow> b = a" for b using a by (auto simp: newest_anchor)
    have failure: "activityFailure ?inp = None \<longleftrightarrow>
        \<not> list_ex (undatedActivity p) (activities history) \<and> completeness history \<noteq> History_unknown"
      using True inputs(2) anchor(2) by (auto simp: activityFailureOf_def scanHistory_parts)
    have tiers: "\<not> outOfScope ?inp \<and> \<not> notRetroactive ?inp \<longleftrightarrow> tierCovered r h ms a"
      using True inputs(3,5) inputs(4) [OF _ _ a] by (cases "ruleTiers r") (auto simp: tierCovered_def)
    have deadline: "inactivityDeadline r ?inp = Inr deadline \<longleftrightarrow>
        deadline = addMonths a (extensionMonths p) (endOfMonthPolicy p) \<and> versionInForce r (Some a) \<and>
        versionInForce r (Some deadline)"
      by (auto simp: inactivityDeadline_def anchor(1) p Let_def)
    have "map_sum id Some x = Inr (Some deadline) \<longleftrightarrow> x = Inr deadline" for x :: "RewardCode + CivilDate"
      by (cases x) auto
    then have "computeStatus r ?inp k = Inr (Some deadline) \<longleftrightarrow>
        \<not> outOfScope ?inp \<and> activityFailure ?inp = None \<and> \<not> notRetroactive ?inp \<and> inactivityDeadline r ?inp = Inr deadline"
      unfolding status by (auto split: option.split)
    also have "\<dots> \<longleftrightarrow> tierCovered r h ms a \<and> activityFailure ?inp = None \<and> inactivityDeadline r ?inp = Inr deadline"
      using tiers by blast
    also have "\<dots> \<longleftrightarrow> dateReady r h history ms now k p a \<and> deadline = addMonths a (extensionMonths p) (endOfMonthPolicy p)"
      unfolding failure deadline using True base p a by (auto simp: dateReady_def)
    also have "\<dots> \<longleftrightarrow> (\<exists>p a. dateReady r h history ms now k p a \<and>
        deadline = addMonths a (extensionMonths p) (endOfMonthPolicy p))"
      using p only by (auto simp: dateReady_def)
    finally show ?thesis .
  qed
qed

text \<open>
  Property C25: a computed deadline is never guessed. A bucket has a computed date exactly when the rule is
  verified, of the inactivity family, in force on the evaluation day and covers the kind, every
  qualifying activity is dated, one was observed, the history is not of unknown completeness, a
  required tier covers the newest of them, and that day and the deadline both lie in the rule's own
  period; and then the date is the newest qualifying activity's day moved by the rule's months.
\<close>

theorem expiry_date_exactly:
  "(let c = computedFor r (expiryInputs r h history ms now) k
    in if \<exists>p a. dateReady r h history ms now k p a
       then computedStatus c = Date_status \<and> computedReason c = None \<and>
         (\<exists>p a. dateReady r h history ms now k p a \<and> computedValue c =
            Some (asLocalDate (addMonths a (extensionMonths p) (endOfMonthPolicy p)) (calendarZone (deadlineCalendar r))))
       else computedStatus c \<noteq> Date_status \<and> computedValue c = None)"
proof -
  let ?s = "computeStatus r (expiryInputs r h history ms now) k"
  show ?thesis
  proof (cases "\<exists>p a. dateReady r h history ms now k p a")
    case True
    then obtain p a where pa: "dateReady r h history ms now k p a" by blast
    then have "?s = Inr (Some (addMonths a (extensionMonths p) (endOfMonthPolicy p)))"
      using status_date_iff [of r h history ms now k] by blast
    with pa show ?thesis by (auto simp: computedFor_def Let_def)
  next
    case False
    then have "?s \<noteq> Inr (Some d)" for d using status_date_iff [of r h history ms now k d] by blast
    then have "case ?s of Inl _ \<Rightarrow> True | Inr x \<Rightarrow> x = None" by (cases ?s) (auto simp: not_None_eq)
    with False show ?thesis by (auto simp: computedFor_def Let_def split: sum.splits)
  qed
qed

section \<open>Every basis is valid\<close>

lemma isRefList_js_set [simp]: "isRefList n xs \<Longrightarrow> isRefList n (js_set xs)"
  by (simp add: isRefList_def length_js_set js_set_distinct)

lemma validLocalDate_asLocalDate:
  assumes "validCivil d" and "0 \<le> year d" and "year d \<le> 9999" and "validZone z"
  shows "validLocalDate (asLocalDate d z)"
  using parse_format_date [OF assms(1-3)] assms(4)
  by (simp add: validLocalDate_def asLocalDate_def validLocalDateText_def)

text \<open>A deadline of at most a hundred years after a day before 9900 can be written as a date.\<close>

lemma deadline_writable:
  assumes "validCivil a" and "0 \<le> year a" and "year a \<le> 9899" and "1 \<le> n" and "n \<le> 1200"
  shows "validCivil (addMonths a n pol) \<and> 0 \<le> year (addMonths a n pol) \<and> year (addMonths a n pol) \<le> 9999"
proof -
  define r where "r = addMonths a n pol"
  have r: "validCivil r" "year r * 12 + month r = year a * 12 + month a + n"
    using addMonths_correct [OF assms(1), of n pol] by (simp_all add: Let_def r_def)
  then have "1 \<le> month r" "month r \<le> 12" "1 \<le> month a" "month a \<le> 12" using assms(1) by (simp_all add: validCivil_def)
  then show ?thesis unfolding r_def [symmetric] using r assms(2-5) by linarith
qed

definition writableHistory :: "ExpiryRule \<Rightarrow> ActivityHistory \<Rightarrow> bool" where
  "writableHistory r history \<longleftrightarrow>
     isRef (windowRef history) \<and> orNull validTemporalValue (earliestObserved history) \<and>
     list_all (\<lambda>a. isRef (activityRef a)) (activities history) \<and>
     orNull (\<lambda>p. list_all (\<lambda>a. year (fst a) \<le> 9899) (datedActivities p (activities history))) (qualifyingActivity r)"

lemma scan_member:
  assumes "fst (scanHistory p items) = Some a"
  shows "a \<in> set (datedActivities p items)"
  using anchor_newest [of "datedActivities p items"] assms by (simp add: scanHistory_parts)

lemma dated_ref: "a \<in> set (datedActivities p items) \<Longrightarrow> \<exists>x\<in>set items. snd a = activityRef x"
  by (auto simp: datedActivities_def List.map_filter_def split: if_splits)

lemma activityBasis_valid:
  assumes "writableHistory r history" and "validZone (calendarZone (deadlineCalendar r))"
  shows "orNull validExpiryActivityBasis (activityBasis (expiryInputs r h history ms now))"
proof (cases "qualifyingActivity r")
  case None
  then show ?thesis by (simp add: expiryInputs_def Let_def orNull_def)
next
  case (Some p)
  have anchor: "isRef (snd a) \<and> validLocalDate (asLocalDate (fst a) (calendarZone (deadlineCalendar r)))"
    if "fst (scanHistory p (activities history)) = Some a" for a
  proof -
    have a: "a \<in> set (datedActivities p (activities history))" using that by (rule scan_member)
    have "isRef (snd a)" using dated_ref [OF a] assms(1) by (auto simp: writableHistory_def list_all_iff)
    moreover have "validLocalDate (asLocalDate (fst a) (calendarZone (deadlineCalendar r)))"
      using dated_valid [OF a] assms(2) by (intro validLocalDate_asLocalDate) auto
    ultimately show ?thesis ..
  qed
  then show ?thesis using assms(1) Some
    by (cases "fst (scanHistory p (activities history))")
      (auto simp: expiryInputs_def Let_def orNull_def validExpiryActivityBasis_def isTextOrNull_def writableHistory_def isRef_def)
qed

lemma membershipBasis_valid:
  assumes "validExpiryRule r" and "list_all validMembershipState ms" and "length ms \<le> 100"
  shows "orNull validExpiryMembershipBasis (membershipBasis (expiryInputs r h history ms now))"
proof -
  have len: "length (matchingClaims r h ms) \<le> 100"
    using assms(3) le_trans [OF length_filter_le assms(3)] by (simp add: matchingClaims_def split: option.split)
  have "set (matchingClaims r h ms) \<subseteq> set ms" by (auto simp: matchingClaims_def split: option.splits)
  then have "list_all validMembershipState (matchingClaims r h ms)" using assms(2) by (auto simp: list_all_iff)
  then show ?thesis
    using len assms(1)
    by (auto simp: expiryInputs_def Let_def membershipBasisOf_def orNull_def validExpiryMembershipBasis_def
        validMembershipClaim_def validMembershipState_def validExpiryRule_def list_all_iff split: option.split)
qed

lemma codes_valid: "validCodes (derivationCodes (expiryInputs r h history ms now))"
proof -
  have cover: "coverCodes a b \<in> {[], [Membership_not_retroactive], [Membership_self_reported]}" for a b
    by (simp add: coverCodes_def Let_def)
  have act: "distinct (activityCodes found history) \<and> length (activityCodes found history) \<le> 3 \<and>
      set (activityCodes found history) \<subseteq> {Activity_date_unknown, No_qualifying_activity_observed,
        History_incomplete, History_completeness_unknown}" for found
    by (auto simp: activityCodes_def split: HistoryCompleteness.split)
  have scanned: "distinct (if b then activityCodes found history else []) \<and>
      length (if b then activityCodes found history else []) \<le> 3 \<and>
      set (if b then activityCodes found history else []) \<subseteq> {Activity_date_unknown, No_qualifying_activity_observed,
        History_incomplete, History_completeness_unknown}" for b found
    using act [of found] by simp
  have general: "validCodes (z @ s @ a @ c)"
    if "z \<in> {[], [Deadline_zone_assumed]}" "s \<in> {[], [Membership_out_of_scope], [Membership_required]}"
      "distinct a" "length a \<le> 3" "set a \<subseteq> {Activity_date_unknown, No_qualifying_activity_observed,
        History_incomplete, History_completeness_unknown}"
      "c \<in> {[], [Membership_not_retroactive], [Membership_self_reported]}" for z s a c
    using that by (auto simp: validCodes_def)
  show ?thesis
    unfolding expiryInputs_def Let_def ExpiryInputs.select_convs
    by (rule general [OF _ _ scanned [THEN conjunct1] scanned [THEN conjunct2, THEN conjunct1]
          scanned [THEN conjunct2, THEN conjunct2]]) (use cover in \<open>auto simp: zoneCodes_def\<close>)
qed

lemma ruleBasis_valid:
  assumes "validExpiryRule r" and "isRef (ruleRefOf r)"
  shows "validExpiryRuleBasis (ruleBasis r)"
  using assms
  by (auto simp: ruleBasis_def validExpiryRuleBasis_def validExpiryRule_def ruleRefOf_def isTextOrNull_def orNull_def
      validQualifyingActivityPolicy_def isRef_def split: option.splits)

lemma status_reason:
  assumes "computeStatus r (expiryInputs r h history ms now) k = Inl reason"
  shows "reason \<in> set COMPUTED_EXPIRY_REASONS"
  using assms
  by (auto simp: computeStatus_def COMPUTED_EXPIRY_REASONS_def ruleFailureOf_def expiryInputs_def Let_def
      activityFailureOf_def inactivityDeadline_def split: if_splits option.splits sum.splits)

lemma no_expiry_rule:
  assumes "computeStatus r (expiryInputs r h history ms now) k = Inr None"
  shows "ruleVerification r = Verified \<and> ruleFamily r = No_expiry_family \<and> ruleValidPeriod r = None"
proof -
  have "map_sum id Some x \<noteq> Inr None" for x :: "RewardCode + CivilDate" by (cases x) auto
  then show ?thesis using assms
    by (auto simp: computeStatus_def ruleFailureOf_def split: if_splits option.splits)
qed

lemma computed_valid:
  assumes "validExpiryRule r" and "isRef (ruleRefOf r)" and "writableHistory r history"
    and "list_all validMembershipState ms" and "length ms \<le> 100"
  shows "validComputedExpiry (computedFor r (expiryInputs r h history ms now) k)"
proof -
  let ?inp = "expiryInputs r h history ms now"
  let ?s = "computeStatus r ?inp k"
  let ?c = "computedFor r ?inp k"
  have zone: "validZone (calendarZone (deadlineCalendar r))"
    using assms(1) by (simp add: validExpiryRule_def validDeadlineCalendar_def)
  have parts: "orNull validExpiryActivityBasis (computedActivity ?c)"
    "orNull validExpiryMembershipBasis (computedMembership ?c)" "validCodes (computedCodes ?c)"
    "validExpiryRuleBasis (computedRule ?c)" "isText 64 (computedRelease ?c)"
    using activityBasis_valid [OF assms(3) zone] membershipBasis_valid [OF assms(1,4,5)] codes_valid [of r h history ms now]
      ruleBasis_valid [OF assms(1,2)]
    by (auto simp: computedFor_def Let_def orNull_def validCodes_def isText_def EXPIRY_DERIVATION_RELEASE_def
        intro: le_trans [OF length_filter_le])
  have rule: "basisVerification (computedRule ?c) = ruleVerification r" "basisFamily (computedRule ?c) = ruleFamily r"
    "basisPeriod (computedRule ?c) = ruleValidPeriod r" by (simp_all add: computedFor_def Let_def ruleBasis_def)
  show ?thesis
  proof (cases ?s)
    case (Inl reason)
    then have "computedStatus ?c = Unavailable" "computedValue ?c = None" "computedReason ?c = Some reason"
      by (simp_all add: computedFor_def Let_def)
    then show ?thesis using parts status_reason [OF Inl]
      by (simp add: validComputedExpiry_def orNull_def answerableBy_def)
  next
    case (Inr x)
    show ?thesis
    proof (cases x)
      case None
      then have "computedStatus ?c = No_expiry_status" "computedValue ?c = None" "computedReason ?c = None"
        using Inr by (simp_all add: computedFor_def Let_def)
      then show ?thesis using parts no_expiry_rule [of r h history ms now k] Inr None
        by (simp add: validComputedExpiry_def orNull_def answerableBy_def rule)
    next
      case (Some d)
      then have c: "computedStatus ?c = Date_status" "computedReason ?c = None"
        "computedValue ?c = Some (asLocalDate d (calendarZone (deadlineCalendar r)))"
        using Inr by (simp_all add: computedFor_def Let_def)
      obtain p a where ready: "dateReady r h history ms now k p a"
        and d: "d = addMonths a (extensionMonths p) (endOfMonthPolicy p)"
        using Inr Some status_date_iff [of r h history ms now k d] by auto
      then have fam: "ruleVerification r = Verified" "ruleFamily r = Inactivity" and p: "qualifyingActivity r = Some p"
        and new: "newest p (activities history) a" by (simp_all add: dateReady_def)
      obtain x where x: "x \<in> set (datedActivities p (activities history))" "fst x = a"
        using new by (auto simp: newest_def)
      have "year a \<le> 9899" using assms(3) p x by (auto simp: writableHistory_def orNull_def list_all_iff)
      moreover have "1 \<le> extensionMonths p" "extensionMonths p \<le> 1200"
        using assms(1) p by (simp_all add: validExpiryRule_def orNull_def validQualifyingActivityPolicy_def)
      ultimately have "validLocalDate (asLocalDate d (calendarZone (deadlineCalendar r)))"
        using dated_valid [OF x(1)] x(2) zone deadline_writable [of a "extensionMonths p" "endOfMonthPolicy p"]
        by (auto simp: d intro: validLocalDate_asLocalDate)
      then show ?thesis using parts fam
        by (simp add: validComputedExpiry_def c orNull_def answerableBy_def rule)
    qed
  qed
qed

lemma bucket_rule_ref: "validBucketExpiryBasis (expiryBasis (expiringBucket r inp now b)) \<Longrightarrow> isRef (ruleRefOf r)"
proof -
  assume "validBucketExpiryBasis (expiryBasis (expiringBucket r inp now b))"
  then have "validExpiryRuleBasis (computedRule (computedFor r inp (bucketKind b)))"
    by (simp add: expiringBucket_def Let_def validBucketExpiryBasis_def validComputedExpiry_def)
  then show ?thesis by (auto simp: computedFor_def Let_def validExpiryRuleBasis_def ruleBasis_def)
qed

text \<open>
  Property C26: when what the estimate returns passes the contract's validator. For a valid rule, valid
  buckets, at most a hundred valid membership claims, and a history whose window and activities have valid
  references, whose earliest day is valid, and whose dated qualifying activities lie before the year 9900,
  all bases are valid exactly when the rule's reference, its id, an at sign and its version, fits 512
  characters or the holding has only buckets of qualification points, which have no basis. A valid basis
  states exactly one of a date, a verified absence of expiry or a closed reason, and an agreement only
  between two calendar answers.
\<close>

theorem expiry_bases_validate:
  assumes "validExpiryRule r" and "writableHistory r history"
    and "list_all validMembershipState ms" and "length ms \<le> 100" and "list_all validRewardBucket (buckets h)"
  shows "list_all (\<lambda>e. validBucketExpiryBasis (expiryBasis e)) (expiringBuckets (estimateExpiry r h history ms clock context)) \<longleftrightarrow>
    isRef (ruleRefOf r) \<or> list_all (\<lambda>b. bucketKind b = Qualification) (buckets h)"
proof -
  let ?inp = "expiryInputs r h history ms (localDateOf clock)"
  have "validBucketExpiryBasis (expiryBasis (expiringBucket r ?inp (localDateOf clock) b)) \<longleftrightarrow> isRef (ruleRefOf r)"
    if "b \<in> set (buckets h)" for b
  proof
    assume "validBucketExpiryBasis (expiryBasis (expiringBucket r ?inp (localDateOf clock) b))"
    then show "isRef (ruleRefOf r)" using bucket_rule_ref by simp
  next
    assume ref: "isRef (ruleRefOf r)"
    let ?c = "computedFor r ?inp (bucketKind b)"
    have c: "validComputedExpiry ?c" using computed_valid [OF assms(1) ref assms(2-4)] .
    have "validRewardBucket b" using assms(5) that by (simp add: list_all_iff)
    then have shown: "orNull validDisplayedExpiry (displayedOf b)"
      by (auto simp: displayedOf_def orNull_def validDisplayedExpiry_def validRewardBucket_def split: option.splits)
    have dated: "computedStatus ?c = Date_status \<longleftrightarrow> computedValue ?c \<noteq> None"
      using c by (auto simp: validComputedExpiry_def split: ComputedExpiryStatus.splits)
    show "validBucketExpiryBasis (expiryBasis (expiringBucket r ?inp (localDateOf clock) b))"
      using c shown dated
      by (auto simp: expiringBucket_def Let_def validBucketExpiryBasis_def agreementOf_def
          split: option.splits TemporalOrder.splits if_splits)
  qed
  then show ?thesis by (auto simp: estimateExpiry_def Let_def list_all_iff)
qed

section \<open>A concrete estimate\<close>

definition ex_policy :: QualifyingActivityPolicy where
  "ex_policy = \<lparr>policyRef = ''p'', activityKinds = [''purchase''], excludedKinds = [''transfer''],
     extensionMonths = 12, endOfMonthPolicy = Clamp, dateBasis = Provider_posted\<rparr>"

definition ex_rule :: ExpiryRule where
  "ex_rule = \<lparr>ruleId = ''rule'', ruleVersion = ''1'', ruleFamily = Inactivity, ruleProgram = ''prog'',
     ruleBucketKinds = [Regular], ruleTiers = None, ruleValidPeriod = None, qualifyingActivity = Some ex_policy,
     deadlineCalendar = \<lparr>calendarZone = ''Asia/Tokyo'', dayBoundary = End_of_day, zoneBasis = Documented\<rparr>,
     priorityPolicyRef = None, ruleEvidence = [], ruleVerification = Verified\<rparr>"

definition ex_activity :: "string \<Rightarrow> string \<Rightarrow> string \<Rightarrow> RewardActivity" where
  "ex_activity ref k date = \<lparr>activityRef = ref, activityKind = k, postedDate = LocalDate date None Provider,
     usedDate = None\<rparr>"

definition ex_history :: ActivityHistory where
  "ex_history = \<lparr>windowRef = ''w'', completeness = History_complete, earliestObserved = None,
     activities = [ex_activity ''a'' ''purchase'' ''2024-03-31'', ex_activity ''b'' ''transfer'' ''2024-05-01'',
       ex_activity ''c'' ''purchase'' ''2024-01-10'']\<rparr>"

definition ex_holding :: RewardHolding where
  "ex_holding = \<lparr>holdingRef = ''h'', holdingProgram = ''prog'', holdingUnit = ''points'',
     buckets = [\<lparr>bucketRef = ''b'', bucketProgram = ''prog'', bucketHolding = ''h'', bucketKind = Regular,
       restrictionRefs = [], bucketQuantity = exactQuantity ''points'' (integerDecimal 300), observedExpiry = None,
       bucketObservedAt = UnknownTime ''t'', bucketFacts = []\<rparr>]\<rparr>"

lemma history_order_free_witness:
  "estimateExpiry ex_rule ex_holding (ex_history\<lparr>activities := rev (activities ex_history)\<rparr>) [] (UnknownTime ''t'') ''c'' =
   estimateExpiry ex_rule ex_holding ex_history [] (UnknownTime ''t'') ''c''"
  by (rule history_order_free) (simp add: ex_history_def)

lemma ex_dates:
  "localDateOf (LocalDate ''2024-03-31'' None Provider) = Some \<lparr>year = 2024, month = 3, day = 31\<rparr>"
  "localDateOf (LocalDate ''2024-01-10'' None Provider) = Some \<lparr>year = 2024, month = 1, day = 10\<rparr>"
  by code_simp+

lemma ex_dated: "datedActivities ex_policy (activities ex_history) =
    [(\<lparr>year = 2024, month = 3, day = 31\<rparr>, ''a''), (\<lparr>year = 2024, month = 1, day = 10\<rparr>, ''c'')]"
  by (simp add: datedActivities_def ex_history_def ex_activity_def ex_policy_def qualifies_def activityDate_def
      List.map_filter_def ex_dates del: localDateOf.simps)

lemma expiry_bases_validate_witness:
  "validBucketExpiryBasis (expiryBasis (hd (expiringBuckets (estimateExpiry ex_rule ex_holding ex_history [] (UnknownTime ''t'') ''c''))))"
proof -
  have policy: "validQualifyingActivityPolicy ex_policy"
    by (simp add: ex_policy_def validQualifyingActivityPolicy_def isRef_def isRefList_def isText_def js_set_def)
  have zone: "validZone ''Asia/Tokyo''" by code_simp
  have rule: "validExpiryRule ex_rule" "isRef (ruleRefOf ex_rule)"
    using policy zone
    by (simp_all add: ex_rule_def validExpiryRule_def validDeadlineCalendar_def isRef_def isText_def isTextOrNull_def
        orNull_def isRefList_def ruleRefOf_def)
  have refs: "windowRef ex_history = ''w''" "earliestObserved ex_history = None"
    "list_all (\<lambda>a. isRef (activityRef a)) (activities ex_history)" "qualifyingActivity ex_rule = Some ex_policy"
    by (simp_all add: ex_history_def ex_activity_def ex_rule_def isRef_def isText_def)
  have history: "writableHistory ex_rule ex_history"
    unfolding writableHistory_def refs by (simp add: ex_dated orNull_def refs(3)) (simp add: isRef_def isText_def)
  have quantity: "validQuantity (exactQuantity ''points'' (integerDecimal 300))" by code_simp
  have bucket: "list_all validRewardBucket (buckets ex_holding)"
    using quantity by (simp add: ex_holding_def validRewardBucket_def isRef_def isText_def isRefList_def orNull_def)
  have "list_all (\<lambda>e. validBucketExpiryBasis (expiryBasis e))
      (expiringBuckets (estimateExpiry ex_rule ex_holding ex_history [] (UnknownTime ''t'') ''c''))"
    using expiry_bases_validate [OF rule(1) history _ _ bucket] rule(2) by simp
  moreover have "expiringBuckets (estimateExpiry ex_rule ex_holding ex_history [] (UnknownTime ''t'') ''c'') \<noteq> []"
    by (simp add: estimateExpiry_def Let_def ex_holding_def)
  ultimately show ?thesis by (simp add: list_all_iff)
qed

text \<open>
  A rule with an id of 512 characters passes its validator, but its reference has more: every basis computed
  under it is refused.
\<close>

lemma long_rule_id_refused:
  "validExpiryRule (ex_rule\<lparr>ruleId := replicate 512 CHR ''r''\<rparr>)"
  "\<not> validBucketExpiryBasis (expiryBasis (hd (expiringBuckets
     (estimateExpiry (ex_rule\<lparr>ruleId := replicate 512 CHR ''r''\<rparr>) ex_holding ex_history [] (UnknownTime ''t'') ''c''))))"
proof -
  have "validZone ''Asia/Tokyo''" by code_simp
  then show "validExpiryRule (ex_rule\<lparr>ruleId := replicate 512 CHR ''r''\<rparr>)"
    by (simp add: ex_rule_def ex_policy_def validExpiryRule_def validQualifyingActivityPolicy_def validDeadlineCalendar_def
        isRef_def isText_def isTextOrNull_def orNull_def isRefList_def js_set_def)
  have "\<not> isRef (ruleRefOf (ex_rule\<lparr>ruleId := replicate 512 CHR ''r''\<rparr>))"
    by (simp add: isRef_def isText_def ruleRefOf_def)
  then have "\<not> validBucketExpiryBasis (expiryBasis (expiringBucket (ex_rule\<lparr>ruleId := replicate 512 CHR ''r''\<rparr>) inp now b))"
    for inp now b using bucket_rule_ref by blast
  then show "\<not> validBucketExpiryBasis (expiryBasis (hd (expiringBuckets
     (estimateExpiry (ex_rule\<lparr>ruleId := replicate 512 CHR ''r''\<rparr>) ex_holding ex_history [] (UnknownTime ''t'') ''c''))))"
    by (simp add: estimateExpiry_def Let_def ex_holding_def)
qed

text \<open>Not every reason code is in the list that says so: a fixed deadline that only the display can state.\<close>

lemma reason_outside_list:
  "Fixed_deadline_not_derivable \<notin> set REWARD_UNCERTAINTY_CODES"
  "Fixed_deadline_not_derivable \<in> set (expiryReasons (hd (expiringBuckets
     (estimateExpiry (ex_rule\<lparr>ruleFamily := Fixed_lot\<rparr>) ex_holding ex_history [] (UnknownTime ''t'') ''c''))))"
  by (simp add: REWARD_UNCERTAINTY_CODES_def)
    (simp add: estimateExpiry_def Let_def ex_holding_def expiringBucket_def bucketReasons_def computedFor_def
      computeStatus_def ruleFailureOf_def versionInForce_def ex_rule_def displayedOf_def pushCode_def)

end
