(* ===== verification/Economic_Events.thy ===== *)
theory Economic_Events
  imports Decisions Card_Settlement "HOL-Library.AList"
begin

text \<open>
  Economic events, \<open>packages/domain/src/events.ts\<close>: the states an event of a kind may be in and follow one
  another, the stored forms of events, obligations and settlements, and the checks over their amounts:
  the legs of an event conserve what they move unit by unit, settlements stay within an obligation,
  refunds within a purchase. The reference to a source fact is in \<^theory_text>\<open>Card_Settlement\<close>, the allocation
  checks these build on in \<^theory_text>\<open>Decisions\<close>.
\<close>

section \<open>Kinds and states\<close>

datatype EconomicEventKind =
    Purchase_kind | Charge_kind | Refund_kind | Transfer_kind | Card_settlement_kind | Fee_kind
  | Platform_payout_kind | Unknown_kind

definition ECONOMIC_EVENT_KINDS :: "EconomicEventKind list" where
  "ECONOMIC_EVENT_KINDS = [Purchase_kind, Charge_kind, Refund_kind, Transfer_kind, Card_settlement_kind,
     Fee_kind, Platform_payout_kind, Unknown_kind]"

datatype EventState =
    Proposed | Authorized | Captured | Canceled | Observed | Issued | Revised | Requested | Debited
  | In_transit | Credited | Returned | Confirmed | Unknown_state

definition EVENT_STATES :: "EventState list" where
  "EVENT_STATES = [Proposed, Authorized, Captured, Canceled, Observed, Issued, Revised, Requested, Debited,
     In_transit, Credited, Returned, Confirmed, Unknown_state]"

fun EVENT_STATE_FAMILIES :: "EconomicEventKind \<Rightarrow> EventState list" where
  "EVENT_STATE_FAMILIES Purchase_kind = [Proposed, Authorized, Captured, Canceled, Unknown_state]"
| "EVENT_STATE_FAMILIES Refund_kind = [Proposed, Authorized, Captured, Canceled, Unknown_state]"
| "EVENT_STATE_FAMILIES Charge_kind = [Observed, Issued, Revised, Canceled, Unknown_state]"
| "EVENT_STATE_FAMILIES Transfer_kind = [Requested, Debited, In_transit, Credited, Returned, Unknown_state]"
| "EVENT_STATE_FAMILIES Card_settlement_kind = [Requested, Debited, Credited, Returned, Unknown_state]"
| "EVENT_STATE_FAMILIES Platform_payout_kind =
     [Requested, Debited, In_transit, Credited, Returned, Unknown_state]"
| "EVENT_STATE_FAMILIES Fee_kind = [Proposed, Confirmed, Canceled, Unknown_state]"
| "EVENT_STATE_FAMILIES Unknown_kind = [Unknown_state]"

text \<open>The successors the table lists; a missing key is the empty list, both are terminal states.\<close>

fun purchase_transitions :: "EventState \<Rightarrow> EventState list" where
  "purchase_transitions Proposed = [Authorized, Captured, Canceled, Unknown_state]"
| "purchase_transitions Authorized = [Captured, Canceled, Unknown_state]"
| "purchase_transitions Captured = [Unknown_state]"
| "purchase_transitions Unknown_state = [Proposed, Authorized, Captured, Canceled]"
| "purchase_transitions _ = []"

fun charge_transitions :: "EventState \<Rightarrow> EventState list" where
  "charge_transitions Observed = [Issued, Revised, Canceled, Unknown_state]"
| "charge_transitions Issued = [Revised, Canceled, Unknown_state]"
| "charge_transitions Revised = [Revised, Canceled, Unknown_state]"
| "charge_transitions Unknown_state = [Observed, Issued, Revised, Canceled]"
| "charge_transitions _ = []"

fun transfer_transitions :: "EventState \<Rightarrow> EventState list" where
  "transfer_transitions Requested = [Debited, Returned, Unknown_state]"
| "transfer_transitions Debited = [In_transit, Credited, Returned, Unknown_state]"
| "transfer_transitions In_transit = [Credited, Returned, Unknown_state]"
| "transfer_transitions Credited = [Unknown_state]"
| "transfer_transitions Unknown_state = [Requested, Debited, In_transit, Credited, Returned]"
| "transfer_transitions _ = []"

fun settlement_transitions :: "EventState \<Rightarrow> EventState list" where
  "settlement_transitions Requested = [Debited, Returned, Unknown_state]"
| "settlement_transitions Debited = [Credited, Returned, Unknown_state]"
| "settlement_transitions Credited = [Unknown_state]"
| "settlement_transitions Unknown_state = [Requested, Debited, Credited, Returned]"
| "settlement_transitions _ = []"

fun payout_transitions :: "EventState \<Rightarrow> EventState list" where
  "payout_transitions Requested = [Debited, In_transit, Returned, Unknown_state]"
| "payout_transitions Debited = [In_transit, Credited, Returned, Unknown_state]"
| "payout_transitions In_transit = [Credited, Returned, Unknown_state]"
| "payout_transitions Credited = [Unknown_state]"
| "payout_transitions Unknown_state = [Requested, Debited, In_transit, Credited, Returned]"
| "payout_transitions _ = []"

fun fee_transitions :: "EventState \<Rightarrow> EventState list" where
  "fee_transitions Proposed = [Confirmed, Canceled, Unknown_state]"
| "fee_transitions Confirmed = [Unknown_state]"
| "fee_transitions Unknown_state = [Proposed, Confirmed, Canceled]"
| "fee_transitions _ = []"

fun EVENT_TRANSITIONS :: "EconomicEventKind \<Rightarrow> EventState \<Rightarrow> EventState list" where
  "EVENT_TRANSITIONS Purchase_kind = purchase_transitions"
| "EVENT_TRANSITIONS Refund_kind = purchase_transitions"
| "EVENT_TRANSITIONS Charge_kind = charge_transitions"
| "EVENT_TRANSITIONS Transfer_kind = transfer_transitions"
| "EVENT_TRANSITIONS Card_settlement_kind = settlement_transitions"
| "EVENT_TRANSITIONS Platform_payout_kind = payout_transitions"
| "EVENT_TRANSITIONS Fee_kind = fee_transitions"
| "EVENT_TRANSITIONS Unknown_kind = (\<lambda>_. [])"

datatype UnknownStateReason =
    Provider_status_absent | Provider_status_unmapped | Conflicting_evidence | Evidence_out_of_scope
  | Kind_undecided

datatype StateTransitionResult =
    Transition_ok | State_not_in_family | Transition_not_defined | Terminal_state

definition eventTransition :: "EconomicEventKind \<Rightarrow> EventState \<Rightarrow> EventState \<Rightarrow> StateTransitionResult" where
  "eventTransition k a b =
     (let family = EVENT_STATE_FAMILIES k
      in if a \<notin> set family \<or> b \<notin> set family then State_not_in_family
         else let successors = EVENT_TRANSITIONS k a
              in if successors = [] then Terminal_state
                 else if b \<in> set successors then Transition_ok else Transition_not_defined)"

section \<open>Stored forms\<close>

datatype RecognitionBasis =
    Cash_movement | Purchase_recognition | Obligation_change | Trade_date_basis | Settlement_date_basis
  | Unknown_basis

datatype LegRole = Increase | Decrease | Fee_role | Unresolved

record EconomicLeg =
  legEvent :: string
  legRevision :: int
  legIndex :: int
  subjectRef :: string
  legQuantity :: Quantity
  legRole :: LegRole
  legBasis :: RecognitionBasis

record EconomicEventRevision =
  eventId :: string
  eventRevision :: int
  eventKind :: EconomicEventKind
  eventState :: EventState
  eventUnknownReason :: "UnknownStateReason option"
  effectiveTime :: TemporalValue
  eventBasis :: RecognitionBasis
  evidenceSupport :: "SourceFactRef list"
  eventDecision :: string
  eventSupersededBy :: "string option"
  eventLegs :: "EconomicLeg list"

datatype ObligationState = Open_obligation | Partially_settled | Settled | Disputed | Unknown_obligation

record ObligationComponent =
  componentCode :: string
  componentQuantity :: Quantity
  componentConfirmed :: bool

datatype ScheduleStatus = Schedule_confirmed | Schedule_projected

record ObligationScheduleEntry =
  entrySequence :: int
  entryDue :: TemporalValue
  entryPrincipal :: Quantity
  entryFee :: "Quantity option"
  entryStatus :: ScheduleStatus

record ObligationRevision =
  obligationId :: string
  obligationRevision :: int
  creditorRef :: string
  debtorRef :: string
  obligationPrincipal :: Quantity
  feeComponents :: "ObligationComponent list"
  obligationSchedule :: "ObligationScheduleEntry list"
  obligationState :: ObligationState
  obligationUnknownReason :: "UnknownStateReason option"
  stateEvidenceRefs :: "string list"
  obligationDecision :: string
  obligationSupersededBy :: "string option"

record SettlementRelation =
  settlementId :: string
  settledObligation :: string
  settlementComponentRef :: string
  allocated :: Quantity
  occurred :: TemporalValue
  settlementDifference :: "Quantity option"
  settlementDecision :: string

definition validEconomicLeg :: "EconomicLeg \<Rightarrow> bool" where
  "validEconomicLeg l \<longleftrightarrow>
     isText 256 (legEvent l) \<and> isSafeIntFrom 1 (legRevision l) \<and> isSafeIntFrom 0 (legIndex l) \<and>
     isText 512 (subjectRef l) \<and> validQuantity (legQuantity l)"

definition validStatePair :: "'s list \<Rightarrow> 's \<Rightarrow> 's \<Rightarrow> UnknownStateReason option \<Rightarrow> bool" where
  "validStatePair family unknown st reason \<longleftrightarrow>
     st \<in> set family \<and> (if st = unknown then reason \<noteq> None else reason = None)"

definition validEconomicEventRevision :: "EconomicEventRevision \<Rightarrow> bool" where
  "validEconomicEventRevision e \<longleftrightarrow>
     isText 256 (eventId e) \<and> isSafeIntFrom 1 (eventRevision e) \<and>
     validStatePair (EVENT_STATE_FAMILIES (eventKind e)) Unknown_state (eventState e) (eventUnknownReason e) \<and>
     validTemporalValue (effectiveTime e) \<and> list_all validSourceFactRef (evidenceSupport e) \<and>
     isText 256 (eventDecision e) \<and>
     (case eventSupersededBy e of None \<Rightarrow> True | Some s \<Rightarrow> isText 512 s) \<and>
     list_all validEconomicLeg (eventLegs e) \<and> evidenceSupport e \<noteq> [] \<and>
     list_all (\<lambda>l. legEvent l = eventId e \<and> legRevision l = eventRevision e) (eventLegs e) \<and>
     length (js_set (map legIndex (eventLegs e))) = length (eventLegs e)"

definition validObligationComponent :: "ObligationComponent \<Rightarrow> bool" where
  "validObligationComponent c \<longleftrightarrow> isText 128 (componentCode c) \<and> validQuantity (componentQuantity c)"

definition validObligationScheduleEntry :: "ObligationScheduleEntry \<Rightarrow> bool" where
  "validObligationScheduleEntry s \<longleftrightarrow>
     isSafeIntFrom 1 (entrySequence s) \<and> validTemporalValue (entryDue s) \<and> validQuantity (entryPrincipal s) \<and>
     (case entryFee s of None \<Rightarrow> True | Some f \<Rightarrow> validQuantity f)"

definition validObligationRevision :: "ObligationRevision \<Rightarrow> bool" where
  "validObligationRevision r \<longleftrightarrow>
     isText 256 (obligationId r) \<and> isSafeIntFrom 1 (obligationRevision r) \<and> isText 512 (creditorRef r) \<and>
     isText 512 (debtorRef r) \<and> creditorRef r \<noteq> debtorRef r \<and> validQuantity (obligationPrincipal r) \<and>
     list_all validObligationComponent (feeComponents r) \<and>
     list_all validObligationScheduleEntry (obligationSchedule r) \<and>
     validStatePair [Open_obligation, Partially_settled, Settled, Disputed, Unknown_obligation]
       Unknown_obligation (obligationState r) (obligationUnknownReason r) \<and>
     isRefList 10000 (stateEvidenceRefs r) \<and> isText 256 (obligationDecision r) \<and>
     (case obligationSupersededBy r of None \<Rightarrow> True | Some s \<Rightarrow> isText 512 s)"

definition validSettlementRelation :: "SettlementRelation \<Rightarrow> bool" where
  "validSettlementRelation s \<longleftrightarrow>
     isText 256 (settlementId s) \<and> isText 256 (settledObligation s) \<and> isText 512 (settlementComponentRef s) \<and>
     validQuantity (allocated s) \<and> validTemporalValue (occurred s) \<and>
     (case settlementDifference s of None \<Rightarrow> True | Some d \<Rightarrow> validQuantity d) \<and>
     isText 256 (settlementDecision s)"

section \<open>Conservation of one event\<close>

record UnitConservation =
  conservedUnit :: string
  unitDecrease :: Quantity
  unitIncrease :: Quantity
  unitFees :: Quantity
  unitDifference :: Quantity

datatype ConservationReasonCode = Cross_unit_requires_fx_model | Unresolved_legs_present | Single_unit_balanced

record ConservationCheck =
  crossUnit :: bool
  conservedUnits :: "UnitConservation list"
  checkDifference :: "Quantity option"
  checkReasons :: "ConservationReasonCode list"

fun role_text :: "LegRole \<Rightarrow> string" where
  "role_text Increase = ''increase''"
| "role_text Decrease = ''decrease''"
| "role_text Fee_role = ''fee''"
| "role_text Unresolved = ''unresolved''"

definition exactOf :: "Quantity \<Rightarrow> ExactDecimal option" where
  "exactOf q = (case quantityValue q of ExactValue v _ \<Rightarrow> Some v | AbsentValue _ _ \<Rightarrow> None)"

definition absentLeg :: "EconomicLeg \<Rightarrow> string list" where
  "absentLeg l =
     (case quantityValue (legQuantity l) of
        ExactValue _ _ \<Rightarrow> []
      | AbsentValue status reason \<Rightarrow> [role_text (legRole l) @ '':'' @ absent_status_text status @ '':'' @ reason])"

text \<open>The running entries of one unit; the map \<open>sums\<close> of the code is an association list by unit.\<close>

record UnitSums =
  sumDecrease :: ExactDecimal
  sumIncrease :: ExactDecimal
  sumFees :: ExactDecimal

definition noSums :: UnitSums where
  "noSums = \<lparr>sumDecrease = integerDecimal 0, sumIncrease = integerDecimal 0, sumFees = integerDecimal 0\<rparr>"

definition addLeg :: "UnitSums \<Rightarrow> EconomicLeg \<Rightarrow> UnitSums" where
  "addLeg s l =
     (case exactOf (legQuantity l) of
        None \<Rightarrow> s
      | Some amount \<Rightarrow>
          (case legRole l of
             Decrease \<Rightarrow> s\<lparr>sumDecrease := addDecimals (sumDecrease s) amount\<rparr>
           | Increase \<Rightarrow> s\<lparr>sumIncrease := addDecimals (sumIncrease s) amount\<rparr>
           | Fee_role \<Rightarrow> s\<lparr>sumFees := addDecimals (sumFees s) amount\<rparr>
           | Unresolved \<Rightarrow> s))"

definition addToUnit :: "(string \<times> UnitSums) list \<Rightarrow> EconomicLeg \<Rightarrow> (string \<times> UnitSums) list" where
  "addToUnit entries l =
     (let u = unitRef (legQuantity l);
          s = (case map_of entries u of None \<Rightarrow> noSums | Some s \<Rightarrow> s)
      in AList.update u (addLeg s l) entries)"

definition unitRow :: "string \<times> UnitSums \<Rightarrow> UnitConservation" where
  "unitRow = (\<lambda>(u, s). \<lparr>conservedUnit = u, unitDecrease = exactQuantity u (sumDecrease s),
      unitIncrease = exactQuantity u (sumIncrease s), unitFees = exactQuantity u (sumFees s),
      unitDifference = exactQuantity u
        (subtractDecimals (subtractDecimals (sumDecrease s) (sumIncrease s)) (sumFees s))\<rparr>)"

definition singleUnit ::
  "UnitConservation \<Rightarrow> Quantity option \<Rightarrow> ConservationReasonCode list \<Rightarrow> ConservationError + ConservationCheck"
where
  "singleUnit only declared reasons =
     (if (case declared of None \<Rightarrow> False | Some d \<Rightarrow> unitRef d \<noteq> conservedUnit only) then
        Inl (LegsError (value_error Unit_mismatch ''the declared unresolved difference is in another unit''
          [conservedUnit only, unitRef (the declared)]))
      else case (case declared of None \<Rightarrow> Some (integerDecimal 0) | Some d \<Rightarrow> exactOf d) of
        None \<Rightarrow> Inl (LegsError (value_error Value_not_exact
          ''the declared unresolved difference must be exact'' [conservedUnit only]))
      | Some declaredValue \<Rightarrow>
          (if (case exactOf (unitDifference only) of
                 None \<Rightarrow> False | Some gap \<Rightarrow> compareDecimals gap declaredValue \<noteq> 0)
           then Inl (ConservationError Conservation_violated
             ''legs do not balance; declare the unresolved difference explicitly''
             [conservedUnit only] (Some (unitDifference only)))
           else Inr \<lparr>crossUnit = False, conservedUnits = [only], checkDifference = Some (unitDifference only),
             checkReasons = reasons @ [Single_unit_balanced]\<rparr>))"

definition conservationCheck :: "EconomicLeg list \<Rightarrow> Quantity option \<Rightarrow> ConservationError + ConservationCheck" where
  "conservationCheck ls declared =
     (let absent = concat (map absentLeg ls)
      in if absent \<noteq> [] then
           Inl (LegsError (value_error Value_not_exact
             ''a leg without an exact amount is never treated as zero'' absent))
         else
           let entries = foldl addToUnit [] ls;
               rows = map unitRow (js_sort (\<lambda>a b. compareText (fst a) (fst b)) entries);
               reasons = (if list_ex (\<lambda>l. legRole l = Unresolved) ls then [Unresolved_legs_present] else [])
           in case rows of
                [] \<Rightarrow> Inl (ConservationError Conservation_violated
                  ''an event with no legs conserves nothing'' [] None)
              | [only] \<Rightarrow> singleUnit only declared reasons
              | _ \<Rightarrow> Inr \<lparr>crossUnit = True, conservedUnits = rows, checkDifference = None,
                  checkReasons = Cross_unit_requires_fx_model # reasons\<rparr>)"

section \<open>Fills, settlements and refunds\<close>

definition splitFillCheck :: "Quantity \<Rightarrow> Allocation list \<Rightarrow> ConservationError + AllocatedWithin" where
  "splitFillCheck executed fills = checkFillAllocations executed fills"

record SettlementCheckOutcome =
  settledTotal :: Quantity
  outstandingLeft :: Quantity
  settledState :: ObligationState
  unresolvedDifferences :: "Quantity list"

definition settlementAllocation :: "SettlementRelation \<Rightarrow> Allocation" where
  "settlementAllocation s = \<lparr>allocationId = settlementId s, sourceRef = settlementComponentRef s,
     targetRef = ''obligation:'' @ settledObligation s, role = Settlement, allocationQuantity = allocated s\<rparr>"

definition zeroAmount :: "Quantity \<Rightarrow> bool" where
  "zeroAmount q = (case exactOf q of None \<Rightarrow> False | Some v \<Rightarrow> coefficient v = 0)"

definition settlementCheck :: "Quantity \<Rightarrow> SettlementRelation list \<Rightarrow> ConservationError + SettlementCheckOutcome" where
  "settlementCheck outstanding settlements =
     (case checkObligationAllocations outstanding (map settlementAllocation settlements) of
        Inl e \<Rightarrow> Inl e
      | Inr r \<Rightarrow> Inr \<lparr>settledTotal = allocatedTotal r, outstandingLeft = remainingTotal r,
          settledState =
            (if zeroAmount (remainingTotal r) then Settled
             else if zeroAmount (allocatedTotal r) then Open_obligation else Partially_settled),
          unresolvedDifferences = List.map_filter settlementDifference settlements\<rparr>)"

datatype RefundExceptionCode = Over_refund | Refund_target_unknown

record RefundException =
  exceptionCode :: RefundExceptionCode
  exceptionQuantity :: Quantity
  exceptionRefs :: "string list"

record RefundAllocationOutcome =
  refundAllocated :: Quantity
  refundNet :: Quantity
  refundExceptions :: "RefundException list"

definition unknownTarget :: "Quantity \<Rightarrow> RefundException" where
  "unknownTarget q = \<lparr>exceptionCode = Refund_target_unknown, exceptionQuantity = q, exceptionRefs = []\<rparr>"

definition refundAllocation ::
  "Quantity \<Rightarrow> Allocation list \<Rightarrow> Quantity list \<Rightarrow> ConservationError + RefundAllocationOutcome"
where
  "refundAllocation bought refunds unallocated =
     (let wrong = filter (\<lambda>r. role r \<noteq> Refund) refunds; exceptions = map unknownTarget unallocated
      in if wrong \<noteq> [] then
           Inl (ConservationError Conservation_violated
             ''only refund allocations are netted against a purchase'' (map allocationId wrong) None)
         else case checkSourceAllocations bought refunds of
           Inr r \<Rightarrow> Inr \<lparr>refundAllocated = allocatedTotal r, refundNet = remainingTotal r,
             refundExceptions = exceptions\<rparr>
         | Inl (ConservationError Allocation_exceeds_limit message refs (Some excess)) \<Rightarrow>
             (case exactOf excess of
                None \<Rightarrow> Inl (ConservationError Allocation_exceeds_limit message refs (Some excess))
              | Some v \<Rightarrow> Inr \<lparr>refundAllocated = bought,
                  refundNet = exactQuantity (unitRef bought) (integerDecimal 0),
                  refundExceptions = exceptions @ [\<lparr>exceptionCode = Over_refund,
                    exceptionQuantity = exactQuantity (unitRef excess) (subtractDecimals (integerDecimal 0) v),
                    exceptionRefs = map allocationId refunds\<rparr>]\<rparr>)
         | Inl e \<Rightarrow> Inl e)"

section \<open>Rates and totals\<close>

record EffectiveRate =
  rateUnit :: string
  rateValue :: ExactDecimal

definition effectiveRate :: "Quantity \<Rightarrow> Quantity \<Rightarrow> Rounding option \<Rightarrow> ValueError + EffectiveRate" where
  "effectiveRate base received rnd =
     (case (exactOf base, exactOf received) of
        (Some p, Some r) \<Rightarrow>
          (case divideDecimals r p rnd of
             Inl e \<Rightarrow> Inl e
           | Inr v \<Rightarrow> Inr \<lparr>rateUnit = unitRef received @ ''/'' @ unitRef base, rateValue = v\<rparr>)
      | _ \<Rightarrow> Inl (value_error Value_not_exact ''an effective rate needs two exact amounts''
          [unitRef base, unitRef received]))"

record ReferenceDifference =
  differenceMethod :: string
  differenceQuantity :: Quantity
  differenceReference :: string

definition referenceQuoteDifference ::
  "Quantity \<Rightarrow> ExactDecimal \<Rightarrow> Quantity \<Rightarrow> string \<Rightarrow> string option \<Rightarrow> ValueError + ReferenceDifference"
where
  "referenceQuoteDifference base rate received ref method =
     (case (exactOf base, exactOf received) of
        (Some p, Some r) \<Rightarrow>
          Inr \<lparr>differenceMethod = (case method of None \<Rightarrow> ''reference-quote-difference'' | Some m \<Rightarrow> m),
            differenceQuantity = exactQuantity (unitRef received) (subtractDecimals (multiplyDecimals p rate) r),
            differenceReference = ref\<rparr>
      | _ \<Rightarrow> Inl (value_error Value_not_exact ''a reference difference needs two exact amounts''
          [unitRef base, unitRef received]))"

record LegFilter =
  filterUnit :: string
  filterBasis :: "RecognitionBasis option"
  filterRole :: "LegRole option"

definition legSelected :: "LegFilter \<Rightarrow> EconomicLeg \<Rightarrow> bool" where
  "legSelected f l \<longleftrightarrow> unitRef (legQuantity l) = filterUnit f \<and>
     (case filterBasis f of None \<Rightarrow> True | Some b \<Rightarrow> legBasis l = b) \<and>
     (case filterRole f of None \<Rightarrow> True | Some r \<Rightarrow> legRole l = r)"

fun exactLegs :: "EconomicLeg list \<Rightarrow> ExactDecimal list \<Rightarrow> ValueError + ExactDecimal list" where
  "exactLegs [] acc = Inr acc"
| "exactLegs (l # ls) acc =
     (case exactOf (legQuantity l) of
        None \<Rightarrow> Inl (value_error Value_not_exact ''a leg without an exact amount is never treated as zero''
          [legEvent l @ ''#'' @ int_text (legIndex l)])
      | Some v \<Rightarrow> exactLegs ls (acc @ [v]))"

definition legTotal :: "EconomicLeg list \<Rightarrow> LegFilter \<Rightarrow> ValueError + Quantity" where
  "legTotal ls f =
     (case exactLegs (filter (legSelected f) ls) [] of
        Inl e \<Rightarrow> Inl e
      | Inr vs \<Rightarrow> Inr (exactQuantity (filterUnit f) (sumDecimals vs)))"

section \<open>The order of states\<close>

text \<open>How far a known state is along its kind's course; \<open>unknown\<close> has no place in it.\<close>

fun state_rank :: "EventState \<Rightarrow> nat" where
  "state_rank Authorized = 1" | "state_rank Captured = 2" | "state_rank Canceled = 3"
| "state_rank Issued = 1" | "state_rank Revised = 2" | "state_rank Debited = 1" | "state_rank In_transit = 2"
| "state_rank Credited = 3" | "state_rank Returned = 4" | "state_rank Confirmed = 1" | "state_rank _ = 0"

text \<open>The states an event reaches by allowed transitions that do not pass through \<open>unknown\<close>.\<close>

inductive known_path :: "EconomicEventKind \<Rightarrow> EventState \<Rightarrow> EventState \<Rightarrow> bool" for k where
  start: "a \<noteq> Unknown_state \<Longrightarrow> known_path k a a"
| advance: "known_path k a b \<Longrightarrow> eventTransition k b c = Transition_ok \<Longrightarrow> c \<noteq> Unknown_state \<Longrightarrow> known_path k a c"

inductive_cases known_pathE: "known_path k a b"

lemma transition_advances:
  assumes "eventTransition k a b = Transition_ok" and "a \<noteq> Unknown_state" and "b \<noteq> Unknown_state"
  shows "state_rank a < state_rank b \<or> a = b"
  using assms by (cases k; cases a) (auto simp: eventTransition_def Let_def split: if_splits)

text \<open>
  An event does not go back. Along allowed transitions that stay in known states its state
  only advances, so a state once left (a captured purchase, a credited transfer) comes again only
  through \<open>unknown\<close>, which carries its reason; and a canceled or returned event has no successor at all.
\<close>

theorem states_only_advance:
  assumes "known_path k a b"
  shows "(a = b \<or> state_rank a < state_rank b) \<and> eventTransition k Canceled c \<noteq> Transition_ok \<and>
    eventTransition k Returned c \<noteq> Transition_ok"
proof -
  have "a \<noteq> Unknown_state \<and> b \<noteq> Unknown_state \<and> (a = b \<or> state_rank a < state_rank b)"
    using assms
  proof (induction rule: known_path.induct)
    case (advance a b c)
    then show ?case using transition_advances [of k b c] by auto
  qed simp
  moreover have "EVENT_TRANSITIONS k Canceled = []" "EVENT_TRANSITIONS k Returned = []" by (cases k; simp)+
  ultimately show ?thesis by (simp add: eventTransition_def Let_def)
qed

lemma states_only_advance_witness:
  "known_path Transfer_kind Requested Credited \<and> state_rank Requested < state_rank Credited"
proof -
  have "known_path Transfer_kind Requested Debited"
    by (rule known_path.advance [OF known_path.start]) (simp_all add: eventTransition_def)
  then have "known_path Transfer_kind Requested In_transit"
    by (rule known_path.advance) (simp_all add: eventTransition_def)
  then have path: "known_path Transfer_kind Requested Credited"
    by (rule known_path.advance) (simp_all add: eventTransition_def)
  from states_only_advance [OF path] path show ?thesis by simp
qed

section \<open>What the checks decide\<close>

lemma exactOf_value: "exactOf q = Some v \<Longrightarrow> is_exact q \<and> dec_value v = amount_value q"
  by (auto simp: exactOf_def is_exact_def amount_value_def split: ValueState.splits)

lemma exactOf_exact: "is_exact q \<Longrightarrow> \<exists>v. exactOf q = Some v \<and> dec_value v = amount_value q"
  by (auto simp: exactOf_def is_exact_def amount_value_def)

lemma exactOf_None: "exactOf q = None \<longleftrightarrow> \<not> is_exact q"
  by (auto simp: exactOf_def is_exact_def split: ValueState.splits)

lemma absentLegs_Nil: "concat (map absentLeg ls) = [] \<longleftrightarrow> list_all (\<lambda>l. is_exact (legQuantity l)) ls"
  by (induction ls) (auto simp: absentLeg_def is_exact_def split: ValueState.splits)

text \<open>The exact amounts of one role in one unit.\<close>

definition role_sum :: "LegRole \<Rightarrow> string \<Rightarrow> EconomicLeg list \<Rightarrow> rat" where
  "role_sum r u ls =
     sum_list (map (\<lambda>l. amount_value (legQuantity l)) (filter (\<lambda>l. legRole l = r \<and> unitRef (legQuantity l) = u) ls))"

definition unit_net :: "string \<Rightarrow> EconomicLeg list \<Rightarrow> rat" where
  "unit_net u ls = role_sum Decrease u ls - role_sum Increase u ls - role_sum Fee_role u ls"

definition legUnits :: "EconomicLeg list \<Rightarrow> string list" where
  "legUnits ls = sorted_set (map (\<lambda>l. unitRef (legQuantity l)) ls)"

definition sums_hold :: "string \<Rightarrow> EconomicLeg list \<Rightarrow> UnitSums \<Rightarrow> bool" where
  "sums_hold u ls s \<longleftrightarrow> dec_value (sumDecrease s) = role_sum Decrease u ls \<and>
     dec_value (sumIncrease s) = role_sum Increase u ls \<and> dec_value (sumFees s) = role_sum Fee_role u ls"

lemma role_sum_snoc:
  "role_sum r u (ls @ [l]) = role_sum r u ls +
     (if legRole l = r \<and> unitRef (legQuantity l) = u then amount_value (legQuantity l) else 0)"
  by (simp add: role_sum_def)

lemma addLeg_holds:
  assumes "sums_hold (unitRef (legQuantity l)) ls s" and "is_exact (legQuantity l)"
  shows "sums_hold (unitRef (legQuantity l)) (ls @ [l]) (addLeg s l)"
proof -
  obtain v where "exactOf (legQuantity l) = Some v" "dec_value v = amount_value (legQuantity l)"
    using exactOf_exact [OF assms(2)] by blast
  with assms(1) show ?thesis
    by (cases "legRole l") (simp_all add: sums_hold_def addLeg_def role_sum_snoc dec_value_addDecimals)
qed

lemma role_sum_fresh:
  assumes "u \<notin> set (map (\<lambda>l. unitRef (legQuantity l)) ls)"
  shows "role_sum r u ls = 0"
proof -
  have "filter (\<lambda>l. legRole l = r \<and> unitRef (legQuantity l) = u) ls = []"
    using assms by (auto simp: filter_empty_conv)
  then show ?thesis by (simp only: role_sum_def list.map sum_list.Nil)
qed

lemma unit_keys:
  "distinct (map fst (foldl addToUnit [] ls)) \<and>
   set (map fst (foldl addToUnit [] ls)) = set (map (\<lambda>l. unitRef (legQuantity l)) ls)"
  by (induction ls rule: rev_induct) (simp_all add: addToUnit_def Let_def distinct_update dom_update)

lemma map_of_addToUnit:
  "map_of (addToUnit entries l) u =
     (if u = unitRef (legQuantity l)
      then Some (addLeg (case map_of entries u of None \<Rightarrow> noSums | Some s \<Rightarrow> s) l) else map_of entries u)"
  by (simp add: addToUnit_def Let_def update_conv')

lemma unit_sums:
  assumes "list_all (\<lambda>l. is_exact (legQuantity l)) ls" and "map_of (foldl addToUnit [] ls) u = Some s"
  shows "sums_hold u ls s"
  using assms
proof (induction ls arbitrary: u s rule: rev_induct)
  case (snoc l ls)
  let ?w = "unitRef (legQuantity l)"
  have exact: "list_all (\<lambda>l. is_exact (legQuantity l)) ls" "is_exact (legQuantity l)" using snoc.prems(1) by auto
  have old: "sums_hold ?w ls (case map_of (foldl addToUnit [] ls) ?w of None \<Rightarrow> noSums | Some s \<Rightarrow> s)"
  proof (cases "map_of (foldl addToUnit [] ls) ?w")
    case None
    then have "?w \<notin> set (map (\<lambda>l. unitRef (legQuantity l)) ls)"
      using unit_keys [of ls] by (simp add: map_of_eq_None_iff)
    then have "role_sum r ?w ls = 0" for r by (rule role_sum_fresh)
    with None show ?thesis by (simp add: sums_hold_def noSums_def dec_value_integerDecimal)
  next
    case (Some t)
    with snoc.IH [OF exact(1)] show ?thesis by simp
  qed
  show ?case
  proof (cases "u = ?w")
    case True
    with snoc.prems(2) addLeg_holds [OF old exact(2)] show ?thesis by (auto simp: map_of_addToUnit)
  next
    case False
    with snoc.prems(2) have "map_of (foldl addToUnit [] ls) u = Some s" by (simp add: map_of_addToUnit)
    from snoc.IH [OF exact(1) this] False show ?thesis by (simp add: sums_hold_def role_sum_snoc)
  qed
qed simp

definition row_holds :: "EconomicLeg list \<Rightarrow> UnitConservation \<Rightarrow> bool" where
  "row_holds ls row \<longleftrightarrow> (let u = conservedUnit row
     in list_all (exact_in u) [unitDecrease row, unitIncrease row, unitFees row, unitDifference row] \<and>
        amount_value (unitDecrease row) = role_sum Decrease u ls \<and>
        amount_value (unitIncrease row) = role_sum Increase u ls \<and>
        amount_value (unitFees row) = role_sum Fee_role u ls \<and>
        amount_value (unitDifference row) = unit_net u ls)"

lemma unit_rows:
  assumes "list_all (\<lambda>l. is_exact (legQuantity l)) ls"
  defines "rows \<equiv> map unitRow (js_sort (\<lambda>a b. compareText (fst a) (fst b)) (foldl addToUnit [] ls))"
  shows "map conservedUnit rows = legUnits ls" and "list_all (row_holds ls) rows"
proof -
  let ?sorted = "js_sort (\<lambda>a b. compareText (fst a) (fst b)) (foldl addToUnit [] ls)"
  have units: "map conservedUnit rows = map fst ?sorted" by (simp add: rows_def unitRow_def split_beta)
  have "sorted (map fst ?sorted)"
    using text_order.sorted_js_sort [of fst "foldl addToUnit [] ls"] by (simp add: sorted_map)
  moreover have "distinct (map fst ?sorted)" using unit_keys [of ls] by simp
  moreover have "set (map fst ?sorted) = set (map (\<lambda>l. unitRef (legQuantity l)) ls)"
    using unit_keys [of ls] by simp
  ultimately show "map conservedUnit rows = legUnits ls"
    unfolding units legUnits_def by (intro sorted_distinct_set_unique) simp_all
  have "sums_hold u ls s" if "(u, s) \<in> set (foldl addToUnit [] ls)" for u s
    using unit_sums [OF assms(1)] unit_keys [of ls] that by (metis map_of_eq_Some_iff)
  then show "list_all (row_holds ls) rows"
    by (auto simp: rows_def list_all_iff row_holds_def unitRow_def sums_hold_def unit_net_def Let_def exactOf_def
        dec_value_subtractDecimals)
qed

definition declared_amount :: "Quantity option \<Rightarrow> rat" where
  "declared_amount declared = (case declared of None \<Rightarrow> 0 | Some d \<Rightarrow> amount_value d)"

lemma singleUnit_ok:
  assumes "row_holds ls only"
  shows "singleUnit only declared reasons =
     Inr \<lparr>crossUnit = False, conservedUnits = [only], checkDifference = Some (unitDifference only),
       checkReasons = reasons @ [Single_unit_balanced]\<rparr> \<longleftrightarrow>
     (case declared of None \<Rightarrow> True | Some d \<Rightarrow> exact_in (conservedUnit only) d) \<and>
       unit_net (conservedUnit only) ls = declared_amount declared"
    and "singleUnit only declared reasons = Inr r \<Longrightarrow>
      r = \<lparr>crossUnit = False, conservedUnits = [only], checkDifference = Some (unitDifference only),
       checkReasons = reasons @ [Single_unit_balanced]\<rparr>"
proof -
  obtain gap where gap: "exactOf (unitDifference only) = Some gap" "dec_value gap = unit_net (conservedUnit only) ls"
    using assms exactOf_exact [of "unitDifference only"] by (auto simp: row_holds_def Let_def exact_in_def)
  show "singleUnit only declared reasons =
     Inr \<lparr>crossUnit = False, conservedUnits = [only], checkDifference = Some (unitDifference only),
       checkReasons = reasons @ [Single_unit_balanced]\<rparr> \<longleftrightarrow>
     (case declared of None \<Rightarrow> True | Some d \<Rightarrow> exact_in (conservedUnit only) d) \<and>
       unit_net (conservedUnit only) ls = declared_amount declared"
  proof (cases declared)
    case None
    with gap show ?thesis
      by (auto simp: singleUnit_def declared_amount_def compareDecimals_value dec_value_integerDecimal)
  next
    case (Some d)
    show ?thesis
    proof (cases "exactOf d")
      case None
      then have "\<not> is_exact d" by (simp add: exactOf_None)
      then show ?thesis using Some None by (simp add: singleUnit_def exact_in_def)
    next
      case (Some v)
      with exactOf_value [of d v] gap \<open>declared = Some d\<close> show ?thesis
        by (auto simp: singleUnit_def declared_amount_def compareDecimals_value exact_in_def)
    qed
  qed
  show "singleUnit only declared reasons = Inr r \<Longrightarrow>
      r = \<lparr>crossUnit = False, conservedUnits = [only], checkDifference = Some (unitDifference only),
       checkReasons = reasons @ [Single_unit_balanced]\<rparr>"
    by (auto simp: singleUnit_def split: if_splits option.splits)
qed

text \<open>The check of legs that are all exact: one row for each unit, and what is decided by how many there are.\<close>

lemma conservationCheck_exact:
  assumes "list_all (\<lambda>l. is_exact (legQuantity l)) ls"
  obtains rows reasons where "map conservedUnit rows = legUnits ls" "list_all (row_holds ls) rows"
    "conservationCheck ls declared = (case rows of
      [] \<Rightarrow> Inl (ConservationError Conservation_violated ''an event with no legs conserves nothing'' [] None)
    | [only] \<Rightarrow> singleUnit only declared reasons
    | _ \<Rightarrow> Inr \<lparr>crossUnit = True, conservedUnits = rows, checkDifference = None,
        checkReasons = Cross_unit_requires_fx_model # reasons\<rparr>)"
proof -
  let ?rows = "map unitRow (js_sort (\<lambda>a b. compareText (fst a) (fst b)) (foldl addToUnit [] ls))"
  let ?reasons = "if list_ex (\<lambda>l. legRole l = Unresolved) ls then [Unresolved_legs_present] else []"
  show thesis
    using that [of ?rows ?reasons] unit_rows [OF assms] absentLegs_Nil [of ls] assms
    unfolding conservationCheck_def Let_def by simp
qed

text \<open>
  Property C33: what the conservation check accepts. There must be legs, all of exact amounts; a unit's row
  holds the exact sums of its legs by role and their net, one row for every unit in order. Legs of one unit
  are accepted exactly when they leave the declared difference in that unit, or nothing when none is
  declared, so a gap is never absorbed. Legs of several units are accepted whatever they leave: their rows
  are reported side by side, never netted, without a difference, and marked as needing a model of exchange.
\<close>

theorem event_conserves:
  "case conservationCheck ls declared of
     Inr r \<Rightarrow> list_all (\<lambda>l. is_exact (legQuantity l)) ls \<and> ls \<noteq> [] \<and>
       map conservedUnit (conservedUnits r) = legUnits ls \<and> list_all (row_holds ls) (conservedUnits r) \<and>
       crossUnit r = (1 < length (legUnits ls)) \<and>
       (case legUnits ls of
          [u] \<Rightarrow> (case declared of None \<Rightarrow> True | Some d \<Rightarrow> exact_in u d) \<and> unit_net u ls = declared_amount declared \<and>
            checkDifference r = Some (unitDifference (hd (conservedUnits r)))
        | _ \<Rightarrow> checkDifference r = None \<and> Cross_unit_requires_fx_model \<in> set (checkReasons r))
   | Inl e \<Rightarrow> \<not> (list_all (\<lambda>l. is_exact (legQuantity l)) ls \<and> ls \<noteq> [] \<and>
       (case legUnits ls of
          [u] \<Rightarrow> (case declared of None \<Rightarrow> True | Some d \<Rightarrow> exact_in u d) \<and> unit_net u ls = declared_amount declared
        | _ \<Rightarrow> True))"
proof (cases "list_all (\<lambda>l. is_exact (legQuantity l)) ls")
  case False
  then show ?thesis using absentLegs_Nil [of ls] by (simp add: conservationCheck_def Let_def)
next
  case True
  obtain rows reasons where rows: "map conservedUnit rows = legUnits ls" "list_all (row_holds ls) rows"
    and run: "conservationCheck ls declared = (case rows of
      [] \<Rightarrow> Inl (ConservationError Conservation_violated ''an event with no legs conserves nothing'' [] None)
    | [only] \<Rightarrow> singleUnit only declared reasons
    | _ \<Rightarrow> Inr \<lparr>crossUnit = True, conservedUnits = rows, checkDifference = None,
        checkReasons = Cross_unit_requires_fx_model # reasons\<rparr>)" by (rule conservationCheck_exact [OF True, of declared])
  have empty: "ls = [] \<longleftrightarrow> legUnits ls = []" by (simp add: legUnits_def)
  consider (none) "rows = []" | (one) only where "rows = [only]" | (more) a b cs where "rows = a # b # cs"
    by (cases rows; cases "tl rows") auto
  then show ?thesis
  proof cases
    case none
    with rows run empty show ?thesis by simp
  next
    case one
    with rows have only: "row_holds ls only" "legUnits ls = [conservedUnit only]" by auto
    note single = singleUnit_ok [OF only(1), of declared reasons]
    show ?thesis
      using single True run one only empty by (cases "singleUnit only declared reasons") simp_all
  next
    case more
    with rows(1) have units: "legUnits ls = conservedUnit a # conservedUnit b # map conservedUnit cs" by simp
    have "conservationCheck ls declared = Inr \<lparr>crossUnit = True, conservedUnits = rows, checkDifference = None,
        checkReasons = Cross_unit_requires_fx_model # reasons\<rparr>" by (simp only: run) (simp add: more)
    with units True rows empty show ?thesis by simp
  qed
qed

text \<open>The outcome of a limit check, with its amounts as numbers.\<close>

definition given_sum :: "Allocation list \<Rightarrow> rat" where
  "given_sum allocs = sum_list (map (\<lambda>a. amount_value (allocationQuantity a)) allocs)"

lemma limit_cases:
  assumes "checkAllocationsWithinLimit limit allocs what = r"
  shows "(\<exists>ok. r = Inr ok \<and> exact_in (unitRef limit) limit \<and> exact_in (unitRef limit) (allocatedTotal ok) \<and>
      exact_in (unitRef limit) (remainingTotal ok) \<and> amount_value (allocatedTotal ok) = given_sum allocs \<and>
      amount_value (remainingTotal ok) = amount_value limit - given_sum allocs \<and> given_sum allocs \<le> amount_value limit) \<or>
    (\<exists>excess. r = Inl (ConservationError Allocation_exceeds_limit (''allocations exceed the '' @ what)
        (map allocationId allocs) (Some excess)) \<and> exact_in (unitRef limit) limit \<and> exact_in (unitRef limit) excess \<and>
      amount_value excess = amount_value limit - given_sum allocs \<and> amount_value limit < given_sum allocs) \<or>
    (\<exists>e. r = Inl e \<and> (case e of ConservationError c _ _ _ \<Rightarrow> c = Negative_allocation | LegsError _ \<Rightarrow> True))"
proof (cases "exactAll (unitRef limit) (limit # map allocationQuantity allocs)")
  case (Inl e)
  then show ?thesis using assms by (auto simp: checkAllocationsWithinLimit_def)
next
  case (Inr vs)
  then have exact: "list_all (exact_in (unitRef limit)) (limit # map allocationQuantity allocs)"
    and vs: "vs = concat (map exact_part (limit # map allocationQuantity allocs))" by (simp_all only: exactAll_Inr)
  from exact obtain cap nv where cap: "quantityValue limit = ExactValue cap nv"
    by (auto simp: exact_in_def is_exact_def)
  define amounts where "amounts = concat (map exact_part (map allocationQuantity allocs))"
  have parts: "vs = cap # amounts" by (simp add: vs amounts_def cap)
  have sum: "dec_value (sumDecimals amounts) = given_sum allocs"
    using exact_parts(1) [of "unitRef limit" "map allocationQuantity allocs"] exact
    by (simp add: dec_value_sumDecimals amounts_def given_sum_def comp_def)
  have limit: "amount_value limit = dec_value cap" by (simp add: amount_value_def cap)
  show ?thesis
    using assms exact
    unfolding checkAllocationsWithinLimit_def Inr parts
    by (auto simp: Let_def coefficient_negative dec_value_subtractDecimals sum limit split: if_splits)
qed

text \<open>
  Refunds of a purchase are accounted to the last unit. What is allocated and what is left net
  make up the purchase; the refunds are what is allocated plus the excess reported as an over-refund,
  which appears exactly when they exceed the purchase; refunds of no known target are listed, each once,
  and never netted.
\<close>

theorem refunds_accounted:
  assumes "refundAllocation bought refunds unallocated = Inr r"
  shows "list_all (\<lambda>a. role a = Refund) refunds \<and>
    amount_value (refundAllocated r) + amount_value (refundNet r) = amount_value bought \<and>
    given_sum refunds = amount_value (refundAllocated r) +
      sum_list (map (amount_value \<circ> exceptionQuantity) (filter (\<lambda>x. exceptionCode x = Over_refund) (refundExceptions r))) \<and>
    (list_ex (\<lambda>x. exceptionCode x = Over_refund) (refundExceptions r) \<longleftrightarrow> amount_value bought < given_sum refunds) \<and>
    filter (\<lambda>x. exceptionCode x = Refund_target_unknown) (refundExceptions r) = map unknownTarget unallocated \<and>
    0 \<le> amount_value (refundNet r)"
proof -
  have plain: "filter (\<lambda>x. exceptionCode x = Over_refund) (map unknownTarget unallocated) = []"
    "filter (\<lambda>x. exceptionCode x = Refund_target_unknown) (map unknownTarget unallocated) = map unknownTarget unallocated"
    "\<not> list_ex (\<lambda>x. exceptionCode x = Over_refund) (map unknownTarget unallocated)"
    by (auto simp: filter_empty_conv filter_id_conv unknownTarget_def list_ex_iff)
  have roles: "list_all (\<lambda>a. role a = Refund) refunds"
    using assms by (auto simp: refundAllocation_def Let_def list_all_iff filter_empty_conv split: if_splits)
  then have wrong: "filter (\<lambda>r. role r \<noteq> Refund) refunds = []" by (simp add: filter_empty_conv list_all_iff)
  consider ok where "checkSourceAllocations bought refunds = Inr ok"
      "amount_value (allocatedTotal ok) = given_sum refunds"
      "amount_value (remainingTotal ok) = amount_value bought - given_sum refunds" "given_sum refunds \<le> amount_value bought"
    | excess where "checkSourceAllocations bought refunds = Inl (ConservationError Allocation_exceeds_limit
        (''allocations exceed the '' @ ''source amount'') (map allocationId refunds) (Some excess))"
      "exact_in (unitRef bought) excess"
      "amount_value excess = amount_value bought - given_sum refunds" "amount_value bought < given_sum refunds"
    | e where "checkSourceAllocations bought refunds = Inl e"
      "case e of ConservationError c _ _ _ \<Rightarrow> c = Negative_allocation | LegsError _ \<Rightarrow> True"
    using limit_cases [OF refl, of bought refunds "''source amount''"] unfolding checkSourceAllocations_def by blast
  then show ?thesis
  proof cases
    case 1
    with assms wrong have "r = \<lparr>refundAllocated = allocatedTotal ok, refundNet = remainingTotal ok,
        refundExceptions = map unknownTarget unallocated\<rparr>"
      by (simp add: refundAllocation_def Let_def)
    with 1 roles plain show ?thesis by simp
  next
    case 2
    then obtain v where v: "exactOf excess = Some v" "dec_value v = amount_value excess"
      using exactOf_exact [of excess] by (auto simp: exact_in_def)
    with 2 assms wrong have "r = \<lparr>refundAllocated = bought,
        refundNet = exactQuantity (unitRef bought) (integerDecimal 0),
        refundExceptions = map unknownTarget unallocated @ [\<lparr>exceptionCode = Over_refund,
          exceptionQuantity = exactQuantity (unitRef excess) (subtractDecimals (integerDecimal 0) v),
          exceptionRefs = map allocationId refunds\<rparr>]\<rparr>"
      by (simp add: refundAllocation_def Let_def)
    with 2 v roles plain show ?thesis by (simp add: dec_value_subtractDecimals dec_value_integerDecimal)
  next
    case 3
    with assms wrong show ?thesis
      by (cases e) (auto simp: refundAllocation_def Let_def)
  qed
qed

definition ex_refund :: "string \<Rightarrow> int \<Rightarrow> Allocation" where
  "ex_refund i n = \<lparr>allocationId = i, sourceRef = ''leg:1'', targetRef = ''event:1'', role = Refund,
     allocationQuantity = exactQuantity ''JPY'' \<lparr>coefficient = n, scale = 0\<rparr>\<rparr>"

lemma refunds_accounted_witness:
  "case refundAllocation (exactQuantity ''JPY'' \<lparr>coefficient = 1000, scale = 0\<rparr>) [ex_refund ''r1'' 700, ex_refund ''r2'' 500] [] of
     Inr r \<Rightarrow> given_sum [ex_refund ''r1'' 700, ex_refund ''r2'' 500] = 1200 \<and> amount_value (refundNet r) = 0 \<and>
       amount_value (refundAllocated r) + amount_value (refundNet r) = 1000 \<and>
       map (amount_value \<circ> exceptionQuantity) (refundExceptions r) = [200]
   | Inl _ \<Rightarrow> False"
proof -
  define run where "run = refundAllocation (exactQuantity ''JPY'' \<lparr>coefficient = 1000, scale = 0\<rparr>)
    [ex_refund ''r1'' 700, ex_refund ''r2'' 500] []"
  have "case run of Inr r \<Rightarrow> map exceptionCode (refundExceptions r) = [Over_refund] \<and> coefficient (the (exactOf (refundNet r))) = 0 \<and>
      exactOf (refundNet r) \<noteq> None | Inl _ \<Rightarrow> False"
    unfolding run_def by code_simp
  then obtain r where r: "run = Inr r" "map exceptionCode (refundExceptions r) = [Over_refund]"
    "exactOf (refundNet r) \<noteq> None" "coefficient (the (exactOf (refundNet r))) = 0"
    by (auto split: sum.splits)
  then have net: "amount_value (refundNet r) = 0"
    using exactOf_value [of "refundNet r"] by (auto simp: dec_value_def)
  obtain x where x: "refundExceptions r = [x]" "exceptionCode x = Over_refund" using r(2) by auto
  have nums: "amount_value (exactQuantity ''JPY'' \<lparr>coefficient = 1000, scale = 0\<rparr>) = 1000"
    "given_sum [ex_refund ''r1'' 700, ex_refund ''r2'' 500] = 1200"
    by (simp_all add: given_sum_def ex_refund_def dec_value_def)
  from refunds_accounted [OF r(1) [unfolded run_def]] x net nums r(1) show ?thesis
    by (simp add: run_def)
qed

text \<open>
  The state of an obligation follows from what was allocated to it. The settlements add up to
  the settled total, with the remainder they make up what was outstanding, and the state is settled
  exactly when nothing remains, open exactly when something remains and nothing was allocated.
  Differences the settlements declare are passed on and never netted.
\<close>

theorem settlement_state_follows:
  assumes "settlementCheck outstanding settlements = Inr r"
  shows "amount_value (settledTotal r) = sum_list (map (amount_value \<circ> allocated) settlements) \<and>
    amount_value (settledTotal r) + amount_value (outstandingLeft r) = amount_value outstanding \<and>
    0 \<le> amount_value (outstandingLeft r) \<and>
    settledState r = (if amount_value (outstandingLeft r) = 0 then Settled
      else if amount_value (settledTotal r) = 0 then Open_obligation else Partially_settled) \<and>
    unresolvedDifferences r = concat (map (\<lambda>s. case settlementDifference s of None \<Rightarrow> [] | Some d \<Rightarrow> [d]) settlements)"
proof -
  obtain ok where ok: "checkObligationAllocations outstanding (map settlementAllocation settlements) = Inr ok"
    using assms by (auto simp: settlementCheck_def split: sum.splits)
  have sum: "given_sum (map settlementAllocation settlements) = sum_list (map (amount_value \<circ> allocated) settlements)"
    by (simp add: given_sum_def settlementAllocation_def comp_def)
  have zero: "zeroAmount q \<longleftrightarrow> amount_value q = 0" if "exact_in u q" for u q
    using that exactOf_exact [of q] by (auto simp: zeroAmount_def exact_in_def dec_value_def split: option.splits)
  have pass: "List.map_filter f xs = concat (map (\<lambda>s. case f s of None \<Rightarrow> [] | Some d \<Rightarrow> [d]) xs)" for f :: "SettlementRelation \<Rightarrow> Quantity option" and xs
    by (induction xs) (auto simp: List.map_filter_def)
  from limit_cases [OF ok [unfolded checkObligationAllocations_def]]
  have facts: "exact_in (unitRef outstanding) (allocatedTotal ok)" "exact_in (unitRef outstanding) (remainingTotal ok)"
    "amount_value (allocatedTotal ok) = given_sum (map settlementAllocation settlements)"
    "amount_value (remainingTotal ok) = amount_value outstanding - given_sum (map settlementAllocation settlements)"
    "given_sum (map settlementAllocation settlements) \<le> amount_value outstanding"
    by auto
  have "r = \<lparr>settledTotal = allocatedTotal ok, outstandingLeft = remainingTotal ok,
      settledState = (if zeroAmount (remainingTotal ok) then Settled
        else if zeroAmount (allocatedTotal ok) then Open_obligation else Partially_settled),
      unresolvedDifferences = List.map_filter settlementDifference settlements\<rparr>"
    using assms by (simp add: settlementCheck_def ok)
  with facts show ?thesis by (simp add: zero [OF facts(1)] zero [OF facts(2)] sum pass)
qed

definition ex_settlement :: "string \<Rightarrow> int \<Rightarrow> Quantity option \<Rightarrow> SettlementRelation" where
  "ex_settlement i n difference = \<lparr>settlementId = i, settledObligation = ''obligation:1'', settlementComponentRef = ''component:1'',
     allocated = exactQuantity ''JPY'' \<lparr>coefficient = n, scale = 0\<rparr>, occurred = UnknownTime ''not stated'', settlementDifference = difference, settlementDecision = ''decision:1''\<rparr>"

lemma settlement_state_follows_witness:
  "case settlementCheck (exactQuantity ''JPY'' \<lparr>coefficient = 1000, scale = 0\<rparr>)
       [ex_settlement ''s1'' 300 None, ex_settlement ''s2'' 450 (Some (exactQuantity ''JPY'' \<lparr>coefficient = 20, scale = 0\<rparr>))] of
     Inr r \<Rightarrow> amount_value (settledTotal r) = 750 \<and> amount_value (outstandingLeft r) = 250 \<and>
       settledState r = Partially_settled \<and> length (unresolvedDifferences r) = 1
   | Inl _ \<Rightarrow> False"
proof -
  define run where "run = settlementCheck (exactQuantity ''JPY'' \<lparr>coefficient = 1000, scale = 0\<rparr>)
    [ex_settlement ''s1'' 300 None, ex_settlement ''s2'' 450 (Some (exactQuantity ''JPY'' \<lparr>coefficient = 20, scale = 0\<rparr>))]"
  have "case run of Inr r \<Rightarrow> True | Inl _ \<Rightarrow> False" unfolding run_def by code_simp
  then obtain r where r: "run = Inr r" by (auto split: sum.splits)
  have nums: "dec_value \<lparr>coefficient = n, scale = 0\<rparr> = of_int n" for n by (simp add: dec_value_def)
  from settlement_state_follows [OF r [unfolded run_def]] r show ?thesis
    by (auto simp add: run_def nums ex_settlement_def)
qed

end
