(* ===== verification/Knowledge_Cut.thy ===== *)
theory Knowledge_Cut
  imports Economic_Events
begin

text \<open>
  The first half of \<open>packages/domain/src/reconstruction.ts\<close>: the provisional adopted events an adapter hands
  over, their validators, and the knowledge selector, which decides for every revision whether it is in
  force at a cut of the decision history. An object type whose only check is its shape is a record or
  datatype; what a validator checks of the values is written out. Text is ordered by code unit, so \<open>cmp\<close>
  is \<open>compareText\<close> and \<open>xs.sort(cmp)\<close> is \<open>sort\<close>.
\<close>

section \<open>Data\<close>

definition PROVISIONAL_EVENT_CONTRACT :: string where
  "PROVISIONAL_EVENT_CONTRACT = ''provisional-adopted-events-v1''"

record ReconstructionBudget =
  maxRevisions :: int
  maxLegs :: int
  maxReportedRows :: int
  maxCoverageRows :: int

definition RECONSTRUCTION_BUDGET :: ReconstructionBudget where
  "RECONSTRUCTION_BUDGET = \<lparr>maxRevisions = 5000, maxLegs = 20000, maxReportedRows = 5000, maxCoverageRows = 1000\<rparr>"

datatype ProvisionalWriter = Card_purchase_recognition_v1 | Card_settlement_review

record ProvisionalKnowledgeCut =
  coreEpoch :: string
  commitSeq :: int

datatype ProvisionalResolution = Full_chains | Resolved_at_cut

datatype ProvisionalTimeRole = Trade_role | Settlement_role | Posting_role | Usage_role | Value_role

record ProvisionalTime =
  timeRole :: ProvisionalTimeRole
  timeValue :: TemporalValue

datatype ProvisionalLegEffect = Movement | Breakdown | Correspondence

record ProvisionalLeg =
  provIndex :: int
  provAccount :: "string option"
  provQuantity :: Quantity
  provEffect :: ProvisionalLegEffect
  provRole :: LegRole
  ofLegIndex :: "int option"
  provBasis :: RecognitionBasis

datatype ProvisionalClaimBook = Card_usage | Cash_movement_book | Security_quantity

record ProvisionalClaim =
  claimBook :: ProvisionalClaimBook
  claimKey :: string

datatype ProvisionalRevisionFlag = Identity_changed | Alias_conflict_flag | Claim_conflict | Writer_unsupported

definition PROVISIONAL_REVISION_FLAGS :: "ProvisionalRevisionFlag list" where
  "PROVISIONAL_REVISION_FLAGS = [Identity_changed, Alias_conflict_flag, Claim_conflict, Writer_unsupported]"

record ProvisionalEventRevision =
  provEvent :: string
  provRevision :: int
  provKind :: EconomicEventKind
  provState :: EventState
  provUnknownReason :: "UnknownStateReason option"
  provTimes :: "ProvisionalTime list"
  commitRef :: "ProvisionalKnowledgeCut option"
  provRecordedAt :: string
  supersededBy :: "string option"
  provLegs :: "ProvisionalLeg list"
  evidenceIds :: "string list"
  provClaims :: "ProvisionalClaim list"
  provFlags :: "ProvisionalRevisionFlag list"

datatype FamilyCoverageStatus = Evented | Not_evented | Family_unknown

record ProvisionalFamilyCoverage =
  familyAccount :: string
  families :: "string list"
  familyStatus :: FamilyCoverageStatus

datatype HistoryCoverageStatus = History_complete | History_gap_status | History_unknown

record ProvisionalHistoryCoverage =
  historyAccount :: string
  historyFrom :: string
  historyTo :: string
  historyStatus :: HistoryCoverageStatus
  historyReason :: "string option"

record ProvisionalManifestPins =
  identityRelease :: string
  evidenceAliasRelease :: string
  coverageRelease :: string
  fxReferenceRef :: "string option"
  policyRefs :: "string list"

record ProvisionalAdoptedEventSet =
  setContract :: string
  setResolution :: ProvisionalResolution
  setVersion :: string
  setAdapter :: string
  setWriters :: "ProvisionalWriter list"
  setPins :: ProvisionalManifestPins
  setRevisions :: "ProvisionalEventRevision list"
  setFamilies :: "ProvisionalFamilyCoverage list"
  setHistory :: "ProvisionalHistoryCoverage list"

datatype ReconstructionRefusal =
    Invalid_request | Invalid_policy | Invalid_event_set | Invalid_knowledge_cut | Invalid_start_snapshot
  | Invalid_end_reported | Selection_mismatch | Baseline_mismatch | Event_budget_exceeded
  | Reported_budget_exceeded | Coverage_budget_exceeded

record ReconstructionError =
  refusalCode :: ReconstructionRefusal
  refusalRefs :: "string list"

definition refuse :: "ReconstructionRefusal \<Rightarrow> string list \<Rightarrow> ReconstructionError" where
  "refuse code refs = \<lparr>refusalCode = code, refusalRefs = refs\<rparr>"

datatype SelectionStatus =
    Active | Superseded_at_cut | Recorded_after_cut | Chain_inconsistent | Knowledge_unlogged_status

record SelectedRevision =
  selectedRow :: ProvisionalEventRevision
  selectedStatus :: SelectionStatus
  supersededAtCutBy :: "string option"

record DuplicateClaim =
  duplicateBook :: ProvisionalClaimBook
  duplicateKey :: string
  duplicateHolders :: "string list"

record KnowledgeSelection =
  selContract :: string
  selResolution :: ProvisionalResolution
  selCut :: ProvisionalKnowledgeCut
  selVersion :: string
  selAdapter :: string
  selWriters :: "ProvisionalWriter list"
  selPins :: ProvisionalManifestPins
  selFamilies :: "ProvisionalFamilyCoverage list"
  selHistory :: "ProvisionalHistoryCoverage list"
  selRevisions :: "SelectedRevision list"
  inconsistentEvents :: "string list"
  unloggedEvents :: "string list"
  duplicateClaims :: "DuplicateClaim list"

record LateExplanation =
  lateBaseline :: ProvisionalKnowledgeCut
  lateCut :: ProvisionalKnowledgeCut
  lateEntered :: "string list"
  lateLeft :: "string list"

section \<open>Validators\<close>

text \<open>The pattern of a reference: anything but a line break, then an \<open>@\<close> and a positive number.\<close>

definition eventRefText :: "string \<Rightarrow> bool" where
  "eventRefText s \<longleftrightarrow>
     (let number = rev (takeWhile (\<lambda>c. c \<noteq> CHR ''@'') (rev s)); front = dropWhile (\<lambda>c. c \<noteq> CHR ''@'') (rev s)
      in front \<noteq> [] \<and> tl front \<noteq> [] \<and> list_all (\<lambda>c. c \<noteq> CHR 0x0A \<and> c \<noteq> CHR 0x0D) (tl front) \<and>
         number \<noteq> [] \<and> list_all is_digit number \<and> hd number \<noteq> CHR ''0'')"

definition validCut :: "ProvisionalKnowledgeCut \<Rightarrow> bool" where
  "validCut c \<longleftrightarrow> isText 64 (coreEpoch c) \<and> isSafeIntFrom 0 (commitSeq c)"

definition validTime :: "ProvisionalTime \<Rightarrow> bool" where
  "validTime t \<longleftrightarrow> validTemporalValue (timeValue t)"

definition validClaim :: "ProvisionalClaim \<Rightarrow> bool" where
  "validClaim c \<longleftrightarrow> isText 512 (claimKey c)"

definition validProvisionalLeg :: "ProvisionalLeg \<Rightarrow> bool" where
  "validProvisionalLeg l \<longleftrightarrow>
     isSafeIntFrom 0 (provIndex l) \<and> isTextOrNull 256 (provAccount l) \<and> validQuantity (provQuantity l) \<and>
     (if provEffect l = Movement
      then (provRole l = Increase \<or> provRole l = Decrease) \<and> ofLegIndex l = None
      else case ofLegIndex l of None \<Rightarrow> False | Some i \<Rightarrow> isSafeIntFrom 0 i \<and> i \<noteq> provIndex l)"

text \<open>A leg of a revision refers to a movement of the same revision; a breakdown is in its unit.\<close>

definition legRefersToMovement :: "ProvisionalLeg list \<Rightarrow> ProvisionalLeg \<Rightarrow> bool" where
  "legRefersToMovement ls l =
     (case ofLegIndex l of
        None \<Rightarrow> True
      | Some i \<Rightarrow>
          (case List.find (\<lambda>t. provIndex t = i) (rev ls) of
             None \<Rightarrow> False
           | Some target \<Rightarrow> provEffect target = Movement \<and>
               (provEffect l \<noteq> Breakdown \<or> unitRef (provQuantity l) = unitRef (provQuantity target))))"

definition validProvisionalEventRevision :: "ProvisionalEventRevision \<Rightarrow> bool" where
  "validProvisionalEventRevision r \<longleftrightarrow>
     isText 256 (provEvent r) \<and> CHR ''@'' \<notin> set (provEvent r) \<and> isSafeIntFrom 1 (provRevision r) \<and>
     length (provTimes r) \<le> 16 \<and> list_all validTime (provTimes r) \<and>
     (case commitRef r of None \<Rightarrow> True | Some c \<Rightarrow> validCut c) \<and> validInstantText (provRecordedAt r) \<and>
     (case supersededBy r of None \<Rightarrow> True | Some s \<Rightarrow> isText 512 s \<and> eventRefText s) \<and>
     length (provLegs r) \<le> 64 \<and> list_all validProvisionalLeg (provLegs r) \<and> isRefList 64 (evidenceIds r) \<and>
     length (provClaims r) \<le> 64 \<and> list_all validClaim (provClaims r) \<and>
     length (provFlags r) \<le> length PROVISIONAL_REVISION_FLAGS \<and> distinct (provFlags r) \<and>
     validStatePair (EVENT_STATE_FAMILIES (provKind r)) Unknown_state (provState r) (provUnknownReason r) \<and>
     length (js_set (map provIndex (provLegs r))) = length (provLegs r) \<and>
     length (js_set (provClaims r)) = length (provClaims r) \<and>
     list_all (legRefersToMovement (provLegs r)) (provLegs r)"

definition validPins :: "ProvisionalManifestPins \<Rightarrow> bool" where
  "validPins p \<longleftrightarrow>
     isText 256 (identityRelease p) \<and> isText 256 (evidenceAliasRelease p) \<and> isText 256 (coverageRelease p) \<and>
     isTextOrNull 256 (fxReferenceRef p) \<and> isRefList 64 (policyRefs p)"

definition validFamilyCoverage :: "ProvisionalFamilyCoverage \<Rightarrow> bool" where
  "validFamilyCoverage f \<longleftrightarrow> isText 256 (familyAccount f) \<and> isRefList 64 (families f) \<and> families f \<noteq> []"

definition validHistoryCoverage :: "ProvisionalHistoryCoverage \<Rightarrow> bool" where
  "validHistoryCoverage h \<longleftrightarrow>
     isText 256 (historyAccount h) \<and> validLocalDateText (historyFrom h) \<and> validLocalDateText (historyTo h) \<and>
     historyFrom h \<le> historyTo h \<and>
     (if historyStatus h = History_complete then historyReason h = None
      else case historyReason h of None \<Rightarrow> False | Some r \<Rightarrow> isText 128 r)"

definition refOf :: "ProvisionalEventRevision \<Rightarrow> string" where
  "refOf r = provEvent r @ ''@'' @ int_text (provRevision r)"

text \<open>The first row that is invalid or repeats a reference.\<close>

fun firstBadRow :: "nat \<Rightarrow> string list \<Rightarrow> ProvisionalEventRevision list \<Rightarrow> nat option" where
  "firstBadRow i seen [] = None"
| "firstBadRow i seen (r # rs) =
     (if \<not> validProvisionalEventRevision r \<or> refOf r \<in> set seen then Some i
      else firstBadRow (Suc i) (refOf r # seen) rs)"

definition checkEventSet :: "ProvisionalAdoptedEventSet \<Rightarrow> ReconstructionError option" where
  "checkEventSet es =
     (let rows = int (length (setRevisions es)); ls = sum_list (map (\<lambda>r. int (length (provLegs r))) (setRevisions es))
      in if maxRevisions RECONSTRUCTION_BUDGET < rows
         then Some (refuse Event_budget_exceeded [''revisions:'' @ int_text rows])
         else if maxLegs RECONSTRUCTION_BUDGET < ls
         then Some (refuse Event_budget_exceeded [''legs:'' @ int_text ls])
         else if maxCoverageRows RECONSTRUCTION_BUDGET < int (length (setFamilies es))
         then Some (refuse Coverage_budget_exceeded [''familyCoverage:'' @ nat_text (length (setFamilies es))])
         else if maxCoverageRows RECONSTRUCTION_BUDGET < int (length (setHistory es))
         then Some (refuse Coverage_budget_exceeded [''historyCoverage:'' @ nat_text (length (setHistory es))])
         else if setContract es \<noteq> PROVISIONAL_EVENT_CONTRACT \<or> \<not> isText 256 (setVersion es) \<or>
           \<not> isText 256 (setAdapter es) \<or> 2 < length (setWriters es) \<or> \<not> distinct (setWriters es) \<or>
           \<not> validPins (setPins es) \<or> \<not> list_all validFamilyCoverage (setFamilies es) \<or>
           \<not> list_all validHistoryCoverage (setHistory es)
         then Some (refuse Invalid_event_set [''$''])
         else map_option (\<lambda>i. refuse Invalid_event_set [''revisions['' @ nat_text i @ '']''])
           (firstBadRow 0 [] (setRevisions es)))"

definition validProvisionalAdoptedEventSet :: "ProvisionalAdoptedEventSet \<Rightarrow> bool" where
  "validProvisionalAdoptedEventSet es \<longleftrightarrow> checkEventSet es = None"

section \<open>Supersession at a cut\<close>

text \<open>\<open>logged\<close>: the commit is in the history of the cut; \<open>committed\<close>: at or before it.\<close>

definition logged :: "ProvisionalKnowledgeCut \<Rightarrow> ProvisionalEventRevision \<Rightarrow> bool" where
  "logged kcut r = (case commitRef r of None \<Rightarrow> False | Some c \<Rightarrow> coreEpoch c = coreEpoch kcut)"

definition seqOf :: "ProvisionalEventRevision \<Rightarrow> int" where
  "seqOf r = (case commitRef r of None \<Rightarrow> 0 | Some c \<Rightarrow> commitSeq c)"

definition committed :: "ProvisionalKnowledgeCut \<Rightarrow> ProvisionalEventRevision \<Rightarrow> bool" where
  "committed kcut r \<longleftrightarrow> logged kcut r \<and> seqOf r \<le> commitSeq kcut"

definition revisionByRef :: "ProvisionalEventRevision list \<Rightarrow> string \<Rightarrow> ProvisionalEventRevision option" where
  "revisionByRef rows ref = List.find (\<lambda>r. refOf r = ref) (rev rows)"

text \<open>
  What one row adds: its event if the successor is unknown to the history, the events its pointer makes
  inconsistent, and the successor in force at the cut.
\<close>

datatype Supersession =
    No_supersession
  | Pointer_missing
  | Successor_unlogged
  | Superseded_by ProvisionalEventRevision bool

definition supersession ::
  "ProvisionalEventRevision list \<Rightarrow> ProvisionalKnowledgeCut \<Rightarrow> ProvisionalEventRevision \<Rightarrow> Supersession"
where
  "supersession rows kcut r =
     (if \<not> committed kcut r then No_supersession
      else case supersededBy r of
        None \<Rightarrow> No_supersession
      | Some ref \<Rightarrow>
          (case revisionByRef rows ref of
             None \<Rightarrow> Pointer_missing
           | Some target \<Rightarrow>
               if \<not> logged kcut target then Successor_unlogged
               else if \<not> committed kcut target then No_supersession
               else Superseded_by target
                 (refOf target = refOf r \<or>
                  provEvent target = provEvent r \<and> provRevision target \<le> provRevision r \<or>
                  seqOf target < seqOf r)))"

definition successions ::
  "ProvisionalEventRevision list \<Rightarrow> ProvisionalKnowledgeCut \<Rightarrow> (string \<times> string) list"
where
  "successions rows kcut = List.map_filter
     (\<lambda>r. case supersession rows kcut r of Superseded_by t _ \<Rightarrow> Some (refOf r, refOf t) | _ \<Rightarrow> None) rows"

definition successorOf :: "(string \<times> string) list \<Rightarrow> string \<Rightarrow> string option" where
  "successorOf links ref = map_of (rev links) ref"

text \<open>
  The walk that looks for cycles. \<open>walkFrom\<close> is the inner loop from one reference: it stops at a
  finished reference, at the end of the chain, or at a reference of its own path, and then the path from
  there on is a cycle. The path of a walk is finished afterwards.
\<close>

datatype WalkMark = Walking | Finished

definition unmarked :: "(string \<times> string) list \<Rightarrow> (string \<Rightarrow> WalkMark option) \<Rightarrow> string set" where
  "unmarked links marks = {k \<in> set (map fst links). marks k = None}"

lemma finite_unmarked [simp]: "finite (unmarked links marks)"
  by (rule finite_subset [of _ "set (map fst links)"]) (auto simp: unmarked_def)

lemma successorOf_key: "successorOf links ref = Some nxt \<Longrightarrow> ref \<in> set (map fst links)"
  by (force simp: successorOf_def dest: map_of_SomeD)

function walkFrom ::
  "(string \<times> string) list \<Rightarrow> (string \<Rightarrow> WalkMark option) \<Rightarrow> string list \<Rightarrow> string option \<Rightarrow>
   (string \<Rightarrow> WalkMark option) \<times> string list \<times> string list"
where
  "walkFrom links marks path None = (marks, path, [])"
| "walkFrom links marks path (Some ref) =
     (case marks ref of
        Some Finished \<Rightarrow> (marks, path, [])
      | Some Walking \<Rightarrow> (marks, path, dropWhile (\<lambda>p. p \<noteq> ref) path)
      | None \<Rightarrow> walkFrom links (marks(ref \<mapsto> Walking)) (path @ [ref]) (successorOf links ref))"
  by pat_completeness auto
termination
proof (relation "measure (\<lambda>(links, marks, path, cur). 2 * card (unmarked links marks) + (if cur = None then 0 else 1))", simp)
  fix links :: "(string \<times> string) list" and marks :: "string \<Rightarrow> WalkMark option" and path :: "string list" and ref :: string
  assume fresh: "marks ref = (None :: WalkMark option)"
  have sub: "unmarked links (marks(ref \<mapsto> Walking)) \<subseteq> unmarked links marks" by (auto simp: unmarked_def)
  then have le: "card (unmarked links (marks(ref \<mapsto> Walking))) \<le> card (unmarked links marks)" by (simp add: card_mono)
  show "((links, marks(ref \<mapsto> Walking), path @ [ref], successorOf links ref), links, marks, path, Some ref)
    \<in> measure (\<lambda>(links, marks, path, cur). 2 * card (unmarked links marks) + (if cur = None then 0 else 1))"
  proof (cases "successorOf links ref")
    case None
    with le show ?thesis by simp
  next
    case (Some nxt)
    then have "ref \<in> set (map fst links)" by (rule successorOf_key)
    then have "ref \<in> unmarked links marks - unmarked links (marks(ref \<mapsto> Walking))"
      using fresh by (auto simp: unmarked_def)
    with sub have "unmarked links (marks(ref \<mapsto> Walking)) \<subset> unmarked links marks" by blast
    then have "card (unmarked links (marks(ref \<mapsto> Walking))) < card (unmarked links marks)"
      by (simp add: psubset_card_mono)
    with Some show ?thesis by simp
  qed
qed

definition finishPath :: "(string \<Rightarrow> WalkMark option) \<Rightarrow> string list \<Rightarrow> string \<Rightarrow> WalkMark option" where
  "finishPath marks path = (\<lambda>k. if k \<in> set path then Some Finished else marks k)"

fun cycleScan ::
  "(string \<times> string) list \<Rightarrow> (string \<Rightarrow> WalkMark option) \<Rightarrow> string list \<Rightarrow> string list"
where
  "cycleScan links marks [] = []"
| "cycleScan links marks (start # starts) =
     (case walkFrom links marks [] (Some start) of
        (marks', path, cyc) \<Rightarrow> cyc @ cycleScan links (finishPath marks' path) starts)"

definition cycleRefs :: "(string \<times> string) list \<Rightarrow> string list" where
  "cycleRefs links = cycleScan links (\<lambda>_. None) (map fst links)"

section \<open>The selection\<close>

record ChainState =
  chainLinks :: "(string \<times> string) list"
  chainUnlogged :: "string list"
  chainInconsistent :: "string list"

definition unloggedBy ::
  "ProvisionalEventRevision list \<Rightarrow> ProvisionalKnowledgeCut \<Rightarrow> ProvisionalEventRevision \<Rightarrow> string list"
where
  "unloggedBy rows kcut r =
     (case supersession rows kcut r of Successor_unlogged \<Rightarrow> [provEvent r] | _ \<Rightarrow> [])"

definition inconsistentBy ::
  "ProvisionalEventRevision list \<Rightarrow> ProvisionalKnowledgeCut \<Rightarrow> ProvisionalEventRevision \<Rightarrow> string list"
where
  "inconsistentBy rows kcut r =
     (case supersession rows kcut r of
        Pointer_missing \<Rightarrow> [provEvent r]
      | Superseded_by target bad \<Rightarrow> if bad then [provEvent r, provEvent target] else []
      | _ \<Rightarrow> [])"

definition eventsOf :: "ProvisionalEventRevision list \<Rightarrow> string list \<Rightarrow> string list" where
  "eventsOf rows refs = List.map_filter (\<lambda>ref. map_option provEvent (revisionByRef rows ref)) refs"

definition liveEvents ::
  "ProvisionalEventRevision list \<Rightarrow> ProvisionalKnowledgeCut \<Rightarrow> (string \<times> string) list \<Rightarrow> string list"
where
  "liveEvents rows kcut ls =
     map provEvent (filter (\<lambda>r. committed kcut r \<and> successorOf ls (refOf r) = None) rows)"

definition chainState ::
  "ProvisionalEventRevision list \<Rightarrow> ProvisionalResolution \<Rightarrow> ProvisionalKnowledgeCut \<Rightarrow> ChainState"
where
  "chainState rows resolution kcut =
     (let full = (resolution = Full_chains);
          ls = (if full then successions rows kcut else []);
          live = liveEvents rows kcut ls
      in \<lparr>chainLinks = ls,
          chainUnlogged = map provEvent (filter (\<lambda>r. \<not> logged kcut r) rows) @
            (if full then concat (map (unloggedBy rows kcut) rows) else []),
          chainInconsistent =
            (if full then concat (map (inconsistentBy rows kcut) rows) @ eventsOf rows (cycleRefs ls) else []) @
            filter (\<lambda>e. 1 < count_list live e) (js_set live)\<rparr>)"

definition selectRow ::
  "ChainState \<Rightarrow> ProvisionalKnowledgeCut \<Rightarrow> ProvisionalEventRevision \<Rightarrow> SelectedRevision"
where
  "selectRow c kcut r =
     (let plain = (\<lambda>status. \<lparr>selectedRow = r, selectedStatus = status, supersededAtCutBy = None\<rparr>)
      in if \<not> logged kcut r then plain Knowledge_unlogged_status
         else if \<not> committed kcut r then plain Recorded_after_cut
         else if provEvent r \<in> set (chainUnlogged c) then plain Knowledge_unlogged_status
         else if provEvent r \<in> set (chainInconsistent c) then plain Chain_inconsistent
         else case successorOf (chainLinks c) (refOf r) of
           None \<Rightarrow> plain Active
         | Some by' \<Rightarrow> \<lparr>selectedRow = r, selectedStatus = Superseded_at_cut, supersededAtCutBy = Some by'\<rparr>)"

definition compareSelected :: "SelectedRevision \<Rightarrow> SelectedRevision \<Rightarrow> int" where
  "compareSelected a b =
     or_else (compareText (provEvent (selectedRow a)) (provEvent (selectedRow b)))
       (provRevision (selectedRow a) - provRevision (selectedRow b))"

fun bookText :: "ProvisionalClaimBook \<Rightarrow> string" where
  "bookText Card_usage = ''card-usage''"
| "bookText Cash_movement_book = ''cash-movement''"
| "bookText Security_quantity = ''security-quantity''"

text \<open>The holders of a claim: a \<open>Map\<close> by book and key in insertion order, its entries two sets.\<close>

definition activeRows :: "SelectedRevision list \<Rightarrow> ProvisionalEventRevision list" where
  "activeRows sel = map selectedRow (filter (\<lambda>s. selectedStatus s = Active) sel)"

definition holdersOf :: "ProvisionalEventRevision list \<Rightarrow> ProvisionalClaim \<Rightarrow> ProvisionalEventRevision list" where
  "holdersOf rows c = filter (\<lambda>r. c \<in> set (provClaims r)) rows"

definition compareDuplicates :: "DuplicateClaim \<Rightarrow> DuplicateClaim \<Rightarrow> int" where
  "compareDuplicates a b =
     or_else (compareText (bookText (duplicateBook a)) (bookText (duplicateBook b)))
       (compareText (duplicateKey a) (duplicateKey b))"

definition duplicateClaimsOf :: "SelectedRevision list \<Rightarrow> DuplicateClaim list" where
  "duplicateClaimsOf sel =
     (let rows = activeRows sel;
          claims = js_set (concat (map provClaims rows));
          contested = filter (\<lambda>c. 1 < length (js_set (map provEvent (holdersOf rows c)))) claims
      in js_sort compareDuplicates
           (map (\<lambda>c. \<lparr>duplicateBook = claimBook c, duplicateKey = claimKey c,
              duplicateHolders = sorted_set (map refOf (holdersOf rows c))\<rparr>) contested))"

definition resolveRows ::
  "ProvisionalEventRevision list \<Rightarrow> ProvisionalResolution \<Rightarrow> ProvisionalKnowledgeCut \<Rightarrow> SelectedRevision list"
where
  "resolveRows rows resolution kcut =
     js_sort compareSelected (map (selectRow (chainState rows resolution kcut) kcut) rows)"

fun writerText :: "ProvisionalWriter \<Rightarrow> string" where
  "writerText Card_purchase_recognition_v1 = ''card-purchase-recognition-v1''"
| "writerText Card_settlement_review = ''card-settlement-review''"

definition selectKnowledge ::
  "ProvisionalAdoptedEventSet \<Rightarrow> ProvisionalKnowledgeCut \<Rightarrow> ReconstructionError + KnowledgeSelection"
where
  "selectKnowledge es kcut =
     (case checkEventSet es of
        Some problem \<Rightarrow> Inl problem
      | None \<Rightarrow>
          if \<not> validCut kcut then Inl (refuse Invalid_knowledge_cut [''knowledgeCut''])
          else
            let c = chainState (setRevisions es) (setResolution es) kcut;
                rows = resolveRows (setRevisions es) (setResolution es) kcut
            in Inr \<lparr>selContract = PROVISIONAL_EVENT_CONTRACT, selResolution = setResolution es, selCut = kcut,
                 selVersion = setVersion es, selAdapter = setAdapter es,
                 selWriters = js_sort (\<lambda>a b. compareText (writerText a) (writerText b)) (setWriters es),
                 selPins = (setPins es)\<lparr>policyRefs := sort (policyRefs (setPins es))\<rparr>,
                 selFamilies = setFamilies es, selHistory = setHistory es,
                 selRevisions = rows, inconsistentEvents = sorted_set (chainInconsistent c),
                 unloggedEvents = sorted_set (chainUnlogged c), duplicateClaims = duplicateClaimsOf rows\<rparr>)"

text \<open>The set a selection came from, as \<open>checkSelection\<close> puts it together again.\<close>

definition setOfSelection :: "KnowledgeSelection \<Rightarrow> ProvisionalAdoptedEventSet" where
  "setOfSelection s = \<lparr>setContract = selContract s, setResolution = selResolution s, setVersion = selVersion s,
     setAdapter = selAdapter s, setWriters = selWriters s, setPins = selPins s,
     setRevisions = map selectedRow (selRevisions s), setFamilies = selFamilies s, setHistory = selHistory s\<rparr>"

definition checkSelection :: "KnowledgeSelection \<Rightarrow> ReconstructionError option" where
  "checkSelection s =
     (case selectKnowledge (setOfSelection s) (selCut s) of
        Inl e \<Rightarrow> Some e
      | Inr again \<Rightarrow> if again = s then None else Some (refuse Selection_mismatch [''selection'']))"

definition activeRefs :: "KnowledgeSelection \<Rightarrow> string list" where
  "activeRefs s = js_set (map refOf (activeRows (selRevisions s)))"

definition lateUnchecked :: "KnowledgeSelection \<Rightarrow> KnowledgeSelection \<Rightarrow> ReconstructionError + LateExplanation" where
  "lateUnchecked baseline now =
     (if selContract baseline \<noteq> selContract now \<or> selResolution baseline \<noteq> selResolution now \<or>
         selAdapter baseline \<noteq> selAdapter now \<or>
         selResolution now = Full_chains \<and> selVersion baseline \<noteq> selVersion now \<or>
         coreEpoch (selCut baseline) \<noteq> coreEpoch (selCut now) \<or>
         commitSeq (selCut now) < commitSeq (selCut baseline)
      then Inl (refuse Baseline_mismatch [''baseline''])
      else
        let before = activeRefs baseline; after = activeRefs now
        in Inr \<lparr>lateBaseline = selCut baseline, lateCut = selCut now,
             lateEntered = sort (filter (\<lambda>ref. ref \<notin> set before) after),
             lateLeft = sort (filter (\<lambda>ref. ref \<notin> set after) before)\<rparr>)"

definition explainLate :: "KnowledgeSelection \<Rightarrow> KnowledgeSelection \<Rightarrow> ReconstructionError + LateExplanation" where
  "explainLate baseline now =
     (case checkSelection baseline of
        Some problem \<Rightarrow> Inl problem
      | None \<Rightarrow>
          (case checkSelection now of
             Some problem \<Rightarrow> Inl problem
           | None \<Rightarrow> lateUnchecked baseline now))"

end
