(* ===== verification/Reconstruction.thy ===== *)
theory Reconstruction
  imports Knowledge_Cut
begin

text \<open>
  The fold of \<open>packages/domain/src/reconstruction.ts\<close>, its data and its steps: a start snapshot plus the
  movements selected at a knowledge cut, cell by cell (account and unit), explained against the reported
  end. A \<open>Map\<close> keyed by the text \<open>account\u0000unit\<close> keeps that text as its key. The outer \<open>None\<close> of a
  result is a thrown exception.
\<close>

section \<open>Constants and closed codes\<close>

definition RECONSTRUCTED_STATE_SCHEMA :: string where
  "RECONSTRUCTED_STATE_SCHEMA = ''reconstructed-state-v1''"

definition RECONSTRUCTION_ENGINE_RELEASE :: string where
  "RECONSTRUCTION_ENGINE_RELEASE = ''reconstruction-engine-v1''"

definition RECONSTRUCTION_FOLD_POLICY_ID :: string where
  "RECONSTRUCTION_FOLD_POLICY_ID = ''reconstruction-fold-v1''"

definition RECONSTRUCTION_ZONE :: string where
  "RECONSTRUCTION_ZONE = ''Asia/Tokyo''"

definition ZONE_OFFSET_SECONDS :: int where
  "ZONE_OFFSET_SECONDS = 9 * 3600"

datatype MeasurementKind =
    Stock | Flow_kind | Obligation_kind | Capacity_kind | Price_kind | Valuation_kind | Period_total_kind
  | Qualification_measure

datatype SignMeaning = Provider_sign | Asset_positive | Liability_positive | Unsigned | Unknown_sign

datatype ReconstructionBasis = Cash_basis | Trade_basis | Settlement_basis

datatype StateEffect = Effect_applied | Effect_pending_apart | Effect_none

datatype LegEffectRule = Apply_by_direction | Attribution_never_added | Link_never_added

datatype LegDisposition =
    Applied | Pending_shown_apart | Outside_range | Superseded_at_knowledge_time
  | Recorded_after_knowledge_time | State_no_effect | Other_basis | Other_account | Boundary_same_day
  | Breakdown_attribution | Correspondence_link | Unknown_effect | Leg_unlogged
  | Flagged ProvisionalRevisionFlag

definition LEG_DISPOSITIONS :: "LegDisposition list" where
  "LEG_DISPOSITIONS = [Applied, Pending_shown_apart, Outside_range, Superseded_at_knowledge_time,
     Recorded_after_knowledge_time, State_no_effect, Other_basis, Other_account, Boundary_same_day,
     Breakdown_attribution, Correspondence_link, Unknown_effect, Leg_unlogged] @ map Flagged PROVISIONAL_REVISION_FLAGS"

definition IGNORED_DISPOSITIONS :: "LegDisposition list" where
  "IGNORED_DISPOSITIONS = [Outside_range, Superseded_at_knowledge_time, Recorded_after_knowledge_time,
     State_no_effect, Other_basis, Breakdown_attribution, Correspondence_link]"

definition COUNTED :: "LegDisposition list" where
  "COUNTED = [Applied, Pending_shown_apart, Boundary_same_day]"

datatype ReconstructionGap =
    No_start_snapshot | Start_metric_not_stock | Start_sign_unknown | Start_ambiguous_metrics
  | Start_ambiguous_positions | Start_value_not_exact | Instrument_not_identified | Gap_unlogged
  | Revision_chain_inconsistent | Gap_flag ProvisionalRevisionFlag | Duplicate_claim_gap
  | Leg_value_not_exact | Leg_sign_unknown | Event_time_unknown | Own_transfer_held
  | Leg_subject_unrecognized | Leg_effect_unknown | Family_not_evented | History_coverage_unknown
  | History_gap

definition RECONSTRUCTION_GAPS :: "ReconstructionGap list" where
  "RECONSTRUCTION_GAPS = [No_start_snapshot, Start_metric_not_stock, Start_sign_unknown,
     Start_ambiguous_metrics, Start_ambiguous_positions, Start_value_not_exact, Instrument_not_identified,
     Gap_unlogged, Revision_chain_inconsistent] @ map Gap_flag PROVISIONAL_REVISION_FLAGS @
     [Duplicate_claim_gap, Leg_value_not_exact, Leg_sign_unknown, Event_time_unknown, Own_transfer_held,
     Leg_subject_unrecognized, Leg_effect_unknown, Family_not_evented, History_coverage_unknown, History_gap]"

definition SCOPE_GAPS :: "ReconstructionGap list" where
  "SCOPE_GAPS = [Family_not_evented, History_coverage_unknown, History_gap]"

definition REVIEW_GAPS :: "ReconstructionGap list" where
  "REVIEW_GAPS = Revision_chain_inconsistent # map Gap_flag PROVISIONAL_REVISION_FLAGS @ [Duplicate_claim_gap]"

definition ABSENT_GAPS :: "ReconstructionGap list" where
  "ABSENT_GAPS = filter (\<lambda>g. g \<notin> set SCOPE_GAPS) RECONSTRUCTION_GAPS"

fun flagText :: "ProvisionalRevisionFlag \<Rightarrow> string" where
  "flagText Identity_changed = ''identity_changed''"
| "flagText Alias_conflict_flag = ''alias_conflict''"
| "flagText Claim_conflict = ''claim_conflict''"
| "flagText Writer_unsupported = ''writer_unsupported''"

fun gapText :: "ReconstructionGap \<Rightarrow> string" where
  "gapText No_start_snapshot = ''no_start_snapshot''"
| "gapText Start_metric_not_stock = ''start_metric_not_stock''"
| "gapText Start_sign_unknown = ''start_sign_unknown''"
| "gapText Start_ambiguous_metrics = ''start_ambiguous_metrics''"
| "gapText Start_ambiguous_positions = ''start_ambiguous_positions''"
| "gapText Start_value_not_exact = ''start_value_not_exact''"
| "gapText Instrument_not_identified = ''instrument_not_identified''"
| "gapText Gap_unlogged = ''knowledge_unlogged''"
| "gapText Revision_chain_inconsistent = ''revision_chain_inconsistent''"
| "gapText (Gap_flag f) = flagText f"
| "gapText Duplicate_claim_gap = ''duplicate_claim''"
| "gapText Leg_value_not_exact = ''leg_value_not_exact''"
| "gapText Leg_sign_unknown = ''leg_sign_unknown''"
| "gapText Event_time_unknown = ''event_time_unknown''"
| "gapText Own_transfer_held = ''own_transfer_held''"
| "gapText Leg_subject_unrecognized = ''leg_subject_unrecognized''"
| "gapText Leg_effect_unknown = ''leg_effect_unknown''"
| "gapText Family_not_evented = ''family_not_evented''"
| "gapText History_coverage_unknown = ''history_coverage_unknown''"
| "gapText History_gap = ''history_gap''"

datatype ExplanationStatus =
    Reconciled | Consistent_with_boundary_inclusion | Consistent_with_boundary_exclusion
  | Difference_unexplained | Not_comparable | Unavailable

datatype ExplanationReason =
    Reported_end_missing | Reported_end_not_exact | Reconstruction_incomplete | Snapshot_basis_unknown
  | Same_capture_as_start | No_reported_container

fun reasonText :: "ExplanationReason \<Rightarrow> string" where
  "reasonText Reported_end_missing = ''reported_end_missing''"
| "reasonText Reported_end_not_exact = ''reported_end_not_exact''"
| "reasonText Reconstruction_incomplete = ''reconstruction_incomplete''"
| "reasonText Snapshot_basis_unknown = ''snapshot_basis_unknown''"
| "reasonText Same_capture_as_start = ''same_capture_as_start''"
| "reasonText No_reported_container = ''no_reported_container''"

section \<open>Inputs\<close>

record ReconstructionReportedBalance =
  balRef :: string
  balAccount :: string
  balMetric :: string
  balKind :: MeasurementKind
  balSign :: SignMeaning
  balQuantity :: Quantity
  balSnapshot :: string
  balCapturedAt :: string

record ReconstructionReportedPosition =
  posRef :: string
  posAccount :: string
  posInstrument :: "string option"
  posQuantity :: Quantity
  posSnapshot :: string
  posCapturedAt :: string

record ReconstructionReportedSide =
  sideContext :: string
  sideDate :: string
  accountsWithoutContainer :: "string list"
  sideBalances :: "ReconstructionReportedBalance list"
  sidePositions :: "ReconstructionReportedPosition list"

record ReconstructionRequest =
  reqAccounts :: "string list"
  reqStart :: string
  reqEnd :: string
  reqBasis :: ReconstructionBasis
  reqKnowledgeAt :: string
  reqCut :: ProvisionalKnowledgeCut

record FoldPolicy =
  foldPolicyId :: string
  foldZone :: string
  foldLegBasis :: "ReconstructionBasis \<Rightarrow> RecognitionBasis"
  foldTimeRole :: "ReconstructionBasis \<Rightarrow> ProvisionalTimeRole"
  foldStates :: "EconomicEventKind \<Rightarrow> EventState \<Rightarrow> StateEffect option"
  foldLegs :: "ProvisionalLegEffect \<Rightarrow> LegEffectRule"

fun STATE_EFFECT_V1 :: "EventState \<Rightarrow> StateEffect option" where
  "STATE_EFFECT_V1 Captured = Some Effect_applied"
| "STATE_EFFECT_V1 Debited = Some Effect_applied"
| "STATE_EFFECT_V1 Credited = Some Effect_applied"
| "STATE_EFFECT_V1 Confirmed = Some Effect_applied"
| "STATE_EFFECT_V1 Authorized = Some Effect_pending_apart"
| "STATE_EFFECT_V1 Requested = Some Effect_pending_apart"
| "STATE_EFFECT_V1 In_transit = Some Effect_pending_apart"
| "STATE_EFFECT_V1 Proposed = Some Effect_pending_apart"
| "STATE_EFFECT_V1 Canceled = Some Effect_none"
| "STATE_EFFECT_V1 Returned = Some Effect_none"
| "STATE_EFFECT_V1 Unknown_state = Some Effect_none"
| "STATE_EFFECT_V1 _ = None"

definition stateEffectsV1 :: "EconomicEventKind \<Rightarrow> EventState \<Rightarrow> StateEffect option" where
  "stateEffectsV1 k st = (if st \<in> set (EVENT_STATE_FAMILIES k) then STATE_EFFECT_V1 st else None)"

fun baseLegBasis :: "ReconstructionBasis \<Rightarrow> RecognitionBasis" where
  "baseLegBasis Cash_basis = Cash_movement"
| "baseLegBasis Trade_basis = Trade_date_basis"
| "baseLegBasis Settlement_basis = Settlement_date_basis"

fun baseTimeRole :: "ReconstructionBasis \<Rightarrow> ProvisionalTimeRole" where
  "baseTimeRole Cash_basis = Posting_role"
| "baseTimeRole Trade_basis = Trade_role"
| "baseTimeRole Settlement_basis = Settlement_role"

fun baseLegEffect :: "ProvisionalLegEffect \<Rightarrow> LegEffectRule" where
  "baseLegEffect Movement = Apply_by_direction"
| "baseLegEffect Breakdown = Attribution_never_added"
| "baseLegEffect Correspondence = Link_never_added"

definition RECONSTRUCTION_FOLD_V1 :: FoldPolicy where
  "RECONSTRUCTION_FOLD_V1 = \<lparr>foldPolicyId = RECONSTRUCTION_FOLD_POLICY_ID, foldZone = RECONSTRUCTION_ZONE,
     foldLegBasis = baseLegBasis, foldTimeRole = baseTimeRole, foldStates = stateEffectsV1, foldLegs = baseLegEffect\<rparr>"

section \<open>Outputs\<close>

record LegDispositionRecord =
  recRef :: string
  recEvent :: string
  recRevision :: int
  recLegIndex :: "int option"
  recAccount :: "string option"
  recUnit :: "string option"
  recDisposition :: LegDisposition
  recGap :: "ReconstructionGap option"
  recConflict :: bool

record ReconstructionStart =
  startRef :: string
  startSnapshot :: string
  startCapturedAt :: string
  startMetric :: "string option"
  startSign :: "SignMeaning option"
  startReported :: Quantity
  startOriented :: Quantity

record ComponentTotal =
  componentCount :: nat
  componentTotal :: Quantity
  componentRefs :: "string list"

record ReconstructionExplanation =
  explStatus :: ExplanationStatus
  explReason :: "ExplanationReason option"
  explReported :: "ReconstructionStart option"
  explRemainder :: Quantity
  explLate :: "(Quantity \<times> string list) option"
  explPending :: "Quantity \<times> string list"
  explBoundary :: "Quantity \<times> string list"

datatype ReconstructionWindowBound = Capture string | End_of_date string

datatype CellMeasure = Balance_measure | Position_measure | Flow_only

record ReconstructedCell =
  cellAccount :: string
  cellMeasure :: CellMeasure
  cellUnitRef :: "string option"
  cellUnidentified :: "string option"
  cellWindow :: "ReconstructionWindowBound \<times> ReconstructionWindowBound"
  cellStart :: "ReconstructionStart option"
  reconstructed :: Quantity
  cellApplied :: ComponentTotal
  cellPending :: ComponentTotal
  cellBoundary :: ComponentTotal
  boundaryAtStart :: nat
  boundaryAtEnd :: nat
  ignoredCounts :: "(LegDisposition \<times> nat) list"
  unknownRefs :: "string list"
  cellGaps :: "ReconstructionGap list"
  cellPartition :: ResultPartition
  needsReview :: bool
  explanation :: ReconstructionExplanation

record ReconstructedAccount =
  acctId :: string
  startContainer :: bool
  endContainer :: bool
  acctCoverage :: "FamilyCoverageStatus option"
  acctCells :: nat

record ReconstructionManifest =
  manResolution :: ProvisionalResolution
  manPolicies :: "string list"
  manBasis :: ReconstructionBasis
  manRange :: "string \<times> string"
  manAccounts :: "string list"
  manKnowledgeAt :: string
  manCut :: ProvisionalKnowledgeCut
  manBaselineCut :: "ProvisionalKnowledgeCut option"
  manBaselineVersion :: "string option"
  manStartContext :: string
  manEndContext :: string
  manSetVersion :: string
  manAdapter :: string
  manWriters :: "ProvisionalWriter list"
  manPins :: ProvisionalManifestPins
  manFamilies :: "ProvisionalFamilyCoverage list"
  manHistory :: "ProvisionalHistoryCoverage list"

record ReconstructedState =
  stateBasis :: ReconstructionBasis
  stateCut :: ProvisionalKnowledgeCut
  stateAccounts :: "ReconstructedAccount list"
  stateCells :: "ReconstructedCell list"
  stateDispositions :: "LegDispositionRecord list"
  stateManifest :: ReconstructionManifest

end
