(* ===== verification/Reconstruction_Fold.thy ===== *)
theory Reconstruction_Fold
  imports Reconstruction
begin

text \<open>
  The steps of the fold, \<open>packages/domain/src/reconstruction.ts\<close>: validation of the request and the
  reported sides, the projection of times to Tokyo, the placement of an event in a window, the reach of
  flags, what each leg does, the cells, and the state made of them.
\<close>

section \<open>Times\<close>

definition stripTrailingZeros :: "string \<Rightarrow> string" where
  "stripTrailingZeros s = rev (dropWhile (\<lambda>c. c = CHR ''0'') (rev s))"

definition tokyoInstant :: "string \<Rightarrow> string option" where
  "tokyoInstant t =
     (case parseInstant t of
        None \<Rightarrow> None
      | Some p \<Rightarrow>
          (let local = epochSeconds p + ZONE_OFFSET_SECONDS; days = local div 86400; second = local - days * 86400;
               fraction = (if nanoseconds p = 0 then [] else CHR ''.'' # stripTrailingZeros (padNumber (nanoseconds p) 9))
           in Some (formatLocalDate (civilFromDays days) @ ''T'' @ padNumber (second div 3600) 2 @ '':'' @
                padNumber (second mod 3600 div 60) 2 @ '':'' @ padNumber (second mod 60) 2 @ fraction @ ''+09:00'')))"

definition captureTokyoDate :: "string \<Rightarrow> string option" where
  "captureTokyoDate t = map_option (take 10) (tokyoInstant t)"

text \<open>\<open>compareInstants\<close> of the module, which throws for a text that is no instant.\<close>

definition captureOrder :: "string \<Rightarrow> string \<Rightarrow> int option" where
  "captureOrder a b =
     (case compareTemporal (Instant a RECONSTRUCTION_ZONE Collector) (Instant b RECONSTRUCTION_ZONE Collector) of
        Ordered n \<Rightarrow> Some n
      | Incomparable _ \<Rightarrow> None)"

definition tokyoInstantValue :: "string \<Rightarrow> TemporalValue" where
  "tokyoInstantValue t =
     Instant (case tokyoInstant t of None \<Rightarrow> ''null'' | Some v \<Rightarrow> v) RECONSTRUCTION_ZONE Collector"

definition tokyoDate :: "string \<Rightarrow> TemporalValue" where
  "tokyoDate date = LocalDate date (Some RECONSTRUCTION_ZONE) Derived"

fun projectEventTime :: "TemporalValue \<Rightarrow> TemporalValue" where
  "projectEventTime (Instant t zone basis) =
     (case tokyoInstant t of
        None \<Rightarrow> UnknownTime ''invalid_instant''
      | Some projected \<Rightarrow> Instant projected RECONSTRUCTION_ZONE basis)"
| "projectEventTime time = time"

section \<open>Validation of the inputs\<close>

definition validReportedBalance :: "ReconstructionReportedBalance \<Rightarrow> bool" where
  "validReportedBalance b \<longleftrightarrow>
     isText 512 (balRef b) \<and> isText 256 (balAccount b) \<and> isText 256 (balMetric b) \<and> validQuantity (balQuantity b) \<and>
     isText 512 (balSnapshot b) \<and> validInstantText (balCapturedAt b)"

definition validReportedPosition :: "ReconstructionReportedPosition \<Rightarrow> bool" where
  "validReportedPosition p \<longleftrightarrow>
     isText 512 (posRef p) \<and> isText 256 (posAccount p) \<and> isTextOrNull 256 (posInstrument p) \<and>
     validQuantity (posQuantity p) \<and>
     (case posInstrument p of None \<Rightarrow> True | Some i \<Rightarrow> unitRef (posQuantity p) = i) \<and>
     isText 512 (posSnapshot p) \<and> validInstantText (posCapturedAt p)"

text \<open>The rows of a side, as reference, account and capture: balances first.\<close>

definition sideRows :: "ReconstructionReportedSide \<Rightarrow> (string \<times> string \<times> string) list" where
  "sideRows s = map (\<lambda>b. (balRef b, balAccount b, balCapturedAt b)) (sideBalances s) @
     map (\<lambda>p. (posRef p, posAccount p, posCapturedAt p)) (sidePositions s)"

definition misplacedRow :: "ReconstructionReportedSide \<Rightarrow> string \<Rightarrow> string \<times> string \<times> string \<Rightarrow> bool" where
  "misplacedRow s date = (\<lambda>(ref, account, capturedAt).
     (case captureTokyoDate capturedAt of None \<Rightarrow> True | Some captured \<Rightarrow> date < captured) \<or>
     account \<in> set (accountsWithoutContainer s))"

definition checkReportedSide ::
  "ReconstructionReportedSide \<Rightarrow> string \<Rightarrow> ReconstructionRefusal \<Rightarrow> ReconstructionError option"
where
  "checkReportedSide s date code =
     (let rows = int (length (sideBalances s) + length (sidePositions s))
      in if maxReportedRows RECONSTRUCTION_BUDGET < rows
         then Some (refuse Reported_budget_exceeded [''rows:'' @ int_text rows])
         else if \<not> isText 256 (sideContext s) \<or> sideDate s \<noteq> date \<or> \<not> isRefList 1000 (accountsWithoutContainer s) \<or>
           \<not> list_all validReportedBalance (sideBalances s) \<or> \<not> list_all validReportedPosition (sidePositions s)
         then Some (refuse code [''$''])
         else map_option (\<lambda>(ref, _). refuse code [ref]) (List.find (misplacedRow s date) (sideRows s)))"

definition validReconstructionRequest :: "ReconstructionRequest \<Rightarrow> bool" where
  "validReconstructionRequest r \<longleftrightarrow>
     isRefList 100 (reqAccounts r) \<and> reqAccounts r \<noteq> [] \<and> validLocalDateText (reqStart r) \<and>
     validLocalDateText (reqEnd r) \<and> reqStart r < reqEnd r \<and> validInstantText (reqKnowledgeAt r) \<and> validCut (reqCut r)"

text \<open>Two policies have the same canonical text when they agree at every key.\<close>

definition validFoldPolicy :: "FoldPolicy \<Rightarrow> bool" where
  "validFoldPolicy p \<longleftrightarrow>
     foldPolicyId p = RECONSTRUCTION_FOLD_POLICY_ID \<and> foldZone p = RECONSTRUCTION_ZONE \<and>
     list_all (\<lambda>b. foldLegBasis p b = baseLegBasis b \<and> foldTimeRole p b = baseTimeRole b)
       [Cash_basis, Trade_basis, Settlement_basis] \<and>
     list_all (\<lambda>k. list_all (\<lambda>st. foldStates p k st = stateEffectsV1 k st) EVENT_STATES) ECONOMIC_EVENT_KINDS \<and>
     list_all (\<lambda>e. foldLegs p e = baseLegEffect e) [Movement, Breakdown, Correspondence]"

section \<open>Rows of a cell\<close>

definition orient :: "Quantity \<Rightarrow> SignMeaning \<Rightarrow> Quantity" where
  "orient q sign =
     (case quantityValue q of
        ExactValue v _ \<Rightarrow> if sign = Liability_positive then exactQuantity (unitRef q) (negateDecimal v) else q
      | AbsentValue _ _ \<Rightarrow> q)"

definition balanceRow :: "ReconstructionReportedBalance \<Rightarrow> ReconstructionStart" where
  "balanceRow b = \<lparr>startRef = balRef b, startSnapshot = balSnapshot b, startCapturedAt = balCapturedAt b,
     startMetric = Some (balMetric b), startSign = Some (balSign b), startReported = balQuantity b,
     startOriented = orient (balQuantity b) (balSign b)\<rparr>"

definition positionRow :: "ReconstructionReportedPosition \<Rightarrow> ReconstructionStart" where
  "positionRow p = \<lparr>startRef = posRef p, startSnapshot = posSnapshot p, startCapturedAt = posCapturedAt p,
     startMetric = None, startSign = None, startReported = posQuantity p, startOriented = posQuantity p\<rparr>"

datatype StartOutcome = Start_row ReconstructionStart | Start_gap ReconstructionGap

datatype EndOutcome = End_row ReconstructionStart | End_missing | End_unusable

definition pickRow ::
  "ReconstructionReportedBalance list \<Rightarrow> ReconstructionReportedPosition list \<Rightarrow> StartOutcome"
where
  "pickRow balances positions =
     (if balances \<noteq> [] \<and> positions \<noteq> [] then Start_gap Start_ambiguous_metrics
      else case positions of
        _ # _ # _ \<Rightarrow> Start_gap Start_ambiguous_positions
      | [p] \<Rightarrow> Start_row (positionRow p)
      | [] \<Rightarrow>
          if balances = [] then Start_gap No_start_snapshot
          else
            (case filter (\<lambda>b. balKind b = Stock \<and> (balSign b = Asset_positive \<or> balSign b = Liability_positive)) balances of
               _ # _ # _ \<Rightarrow> Start_gap Start_ambiguous_metrics
             | [b] \<Rightarrow> Start_row (balanceRow b)
             | [] \<Rightarrow> if list_ex (\<lambda>b. balKind b = Stock) balances then Start_gap Start_sign_unknown
                 else Start_gap Start_metric_not_stock))"

definition endOutcome :: "StartOutcome \<Rightarrow> EndOutcome" where
  "endOutcome pick =
     (case pick of
        Start_row s \<Rightarrow> End_row s
      | Start_gap g \<Rightarrow> if g = No_start_snapshot then End_missing else End_unusable)"

section \<open>Placement in a window\<close>

datatype Placement = Inside | Boundary_start | Boundary_end | Outside | Unknown_placement

definition boundValue :: "ReconstructionWindowBound \<Rightarrow> TemporalValue" where
  "boundValue b = (case b of Capture t \<Rightarrow> tokyoInstantValue t | End_of_date d \<Rightarrow> tokyoDate d)"

definition isCapture :: "ReconstructionWindowBound \<Rightarrow> bool" where
  "isCapture b = (case b of Capture _ \<Rightarrow> True | End_of_date _ \<Rightarrow> False)"

text \<open>On the day of the start: a boundary for a capture, in the start itself for an end of date.\<close>

definition atStart :: "ReconstructionWindowBound \<Rightarrow> Placement" where
  "atStart b = (if isCapture b then Boundary_start else Outside)"

definition atEnd :: "ReconstructionWindowBound \<Rightarrow> Placement" where
  "atEnd b = (if isCapture b then Boundary_end else Inside)"

definition placeTime :: "ReconstructionWindowBound \<Rightarrow> ReconstructionWindowBound \<Rightarrow> TemporalValue \<Rightarrow> Placement" where
  "placeTime from to time =
     (case compareTemporal time (boundValue from) of
        Incomparable r \<Rightarrow> if r = IWithin_day then atStart from else Unknown_placement
      | Ordered o1 \<Rightarrow>
          if o1 < 0 then Outside
          else if o1 = 0 then atStart from
          else
            (case compareTemporal time (boundValue to) of
               Incomparable r \<Rightarrow> if r = IWithin_day then atEnd to else Unknown_placement
             | Ordered o2 \<Rightarrow> if 0 < o2 then Outside else if o2 = 0 then atEnd to else Inside))"

definition placer ::
  "FoldPolicy \<Rightarrow> ReconstructionBasis \<Rightarrow> ReconstructionWindowBound \<Rightarrow> ReconstructionWindowBound \<Rightarrow>
   ProvisionalEventRevision \<Rightarrow> Placement"
where
  "placer policy basis from to r =
     (case filter (\<lambda>t. timeRole t = foldTimeRole policy basis) (provTimes r) of
        [t] \<Rightarrow> placeTime from to (projectEventTime (timeValue t))
      | _ \<Rightarrow> Unknown_placement)"

section \<open>Classification of a leg\<close>

record LegView =
  viewSelected :: SelectedRevision
  viewLeg :: ProvisionalLeg
  viewRef :: string

record Classified =
  disposition :: LegDisposition
  gapOf :: "ReconstructionGap option"
  placement :: "Placement option"

definition classified :: "LegDisposition \<Rightarrow> ReconstructionGap option \<Rightarrow> Placement option \<Rightarrow> Classified" where
  "classified d g p = \<lparr>disposition = d, gapOf = g, placement = p\<rparr>"

definition negative :: "Quantity \<Rightarrow> bool" where
  "negative q = (case exactOf q of None \<Rightarrow> False | Some v \<Rightarrow> coefficient v < 0)"

definition ownAccounts :: "RecognitionBasis \<Rightarrow> ProvisionalEventRevision \<Rightarrow> string list" where
  "ownAccounts basis r = js_set (List.map_filter provAccount
     (filter (\<lambda>l. provEffect l = Movement \<and> provBasis l = basis) (provLegs r)))"

definition firstFlag :: "ProvisionalEventRevision \<Rightarrow> ProvisionalRevisionFlag option" where
  "firstFlag r = List.find (\<lambda>f. f \<in> set (provFlags r)) PROVISIONAL_REVISION_FLAGS"

text \<open>The part of the classification that depends on the place of the event.\<close>

definition classifyPlaced ::
  "ProvisionalLeg \<Rightarrow> ProvisionalEventRevision \<Rightarrow> FoldPolicy \<Rightarrow> RecognitionBasis \<Rightarrow> Placement \<Rightarrow> bool \<Rightarrow> Classified"
where
  "classifyPlaced l r policy basis place accountKnown =
     (let rule = foldLegs policy (provEffect l); effect = foldStates policy (provKind r) (provState r);
          held = (\<lambda>g. classified Unknown_effect (Some g) (Some place));
          plain = (\<lambda>d. classified d None (Some place))
      in if rule = Link_never_added then plain Correspondence_link
         else if effect = Some Effect_none then plain State_no_effect
         else if rule = Attribution_never_added then
           (if negative (provQuantity l) \<and> place \<noteq> Outside then held Leg_sign_unknown else plain Breakdown_attribution)
         else if place = Outside then plain Outside_range
         else if effect = None then held Leg_effect_unknown
         else if \<not> accountKnown then held Leg_subject_unrecognized
         else if 1 < length (ownAccounts basis r) then held Own_transfer_held
         else if place = Unknown_placement then held Event_time_unknown
         else if \<not> is_exact (provQuantity l) then held Leg_value_not_exact
         else if negative (provQuantity l) then held Leg_sign_unknown
         else if place \<noteq> Inside then plain Boundary_same_day
         else plain (if effect = Some Effect_applied then Applied else Pending_shown_apart))"

definition classifyLeg ::
  "LegView \<Rightarrow> FoldPolicy \<Rightarrow> ReconstructionBasis \<Rightarrow> (ProvisionalEventRevision \<Rightarrow> Placement) \<Rightarrow> bool \<Rightarrow> Classified"
where
  "classifyLeg view policy basis place accountKnown =
     (let l = viewLeg view; s = viewSelected view; r = selectedRow s; b = foldLegBasis policy basis
      in if selectedStatus s = Recorded_after_cut then classified Recorded_after_knowledge_time None None
         else if selectedStatus s = Superseded_at_cut then classified Superseded_at_knowledge_time None None
         else if provBasis l \<noteq> b \<and> provBasis l \<noteq> Unknown_basis then classified Other_basis None None
         else if selectedStatus s = Knowledge_unlogged_status then classified Leg_unlogged (Some Gap_unlogged) None
         else if selectedStatus s = Chain_inconsistent
         then classified Unknown_effect (Some Revision_chain_inconsistent) None
         else case firstFlag r of
           Some f \<Rightarrow> classified (Flagged f) (Some (Gap_flag f)) None
         | None \<Rightarrow>
             if provBasis l = Unknown_basis then classified Unknown_effect (Some Leg_effect_unknown) None
             else classifyPlaced l r policy b (place r) accountKnown)"

definition signed :: "ProvisionalLeg \<Rightarrow> Quantity" where
  "signed l =
     (case quantityValue (provQuantity l) of
        AbsentValue _ _ \<Rightarrow> provQuantity l
      | ExactValue v _ \<Rightarrow> exactQuantity (unitRef (provQuantity l)) (if provRole l = Decrease then negateDecimal v else v))"

definition totalOf :: "string \<Rightarrow> LegView list \<Rightarrow> Quantity option" where
  "totalOf u views =
     (case sumQuantities u (map (signed \<circ> viewLeg) views) of Inl _ \<Rightarrow> None | Inr q \<Rightarrow> Some q)"

section \<open>History coverage\<close>

definition dayOf :: "string \<Rightarrow> int option" where
  "dayOf t = map_option daysFromCivil (parseLocalDate t)"

definition historySpan :: "ProvisionalHistoryCoverage \<Rightarrow> (int \<times> int) option" where
  "historySpan h = (case (dayOf (historyFrom h), dayOf (historyTo h)) of (Some a, Some b) \<Rightarrow> Some (a, b) | _ \<Rightarrow> None)"

text \<open>The sweep over complete spans sorted by their first day: the first day not covered.\<close>

fun firstUncovered :: "int \<Rightarrow> (int \<times> int) list \<Rightarrow> int" where
  "firstUncovered nxt [] = nxt"
| "firstUncovered nxt ((s, e) # spans) =
     (if nxt < s then nxt else firstUncovered (max nxt (e + 1)) spans)"

definition historyGaps ::
  "ProvisionalHistoryCoverage list \<Rightarrow> string \<Rightarrow> string \<Rightarrow> ReconstructionGap list option"
where
  "historyGaps rows from to = do {
     first \<leftarrow> dayOf from;
     final \<leftarrow> dayOf to;
     gapSpans \<leftarrow> those (map historySpan (filter (\<lambda>h. historyStatus h = History_gap_status) rows));
     if list_ex (\<lambda>(s, e). s \<le> final \<and> first \<le> e) gapSpans then Some [History_gap]
     else do {
       complete \<leftarrow> those (map historySpan (filter (\<lambda>h. historyStatus h = History_complete) rows));
       Some (if final < firstUncovered first (js_sort (\<lambda>a b. fst a - fst b) complete) then []
             else [History_coverage_unknown])
     }
   }"

section \<open>Where flags reach\<close>

text \<open>
  The rows a flagged revision reaches: itself and everything it superseded. The queue of the code is a
  stack (it pops from the end), here with its top first.
\<close>

definition predecessors :: "SelectedRevision list \<Rightarrow> string \<Rightarrow> ProvisionalEventRevision list" where
  "predecessors sel ref = map selectedRow
     (filter (\<lambda>s. selectedStatus s = Superseded_at_cut \<and> supersededAtCutBy s = Some ref) sel)"

definition reachable_refs ::
  "SelectedRevision list \<Rightarrow> string list \<Rightarrow> ProvisionalEventRevision list \<Rightarrow> string set"
where
  "reachable_refs sel seen stack = (refOf ` (set (map selectedRow sel) \<union> set stack)) - set seen"

function reachRows ::
  "SelectedRevision list \<Rightarrow> string list \<Rightarrow> ProvisionalEventRevision list \<Rightarrow> ProvisionalEventRevision list"
where
  "reachRows sel seen [] = []"
| "reachRows sel seen (r # stack) =
     (if refOf r \<in> set seen then reachRows sel seen stack
      else r # reachRows sel (refOf r # seen) (rev (predecessors sel (refOf r)) @ stack))"
  by pat_completeness auto
termination
proof (relation "measures [\<lambda>(sel, seen, stack). card (reachable_refs sel seen stack), \<lambda>(sel, seen, stack). length stack]",
    goal_cases)
  case 1
  show ?case by simp
next
  case (2 sel seen r stack)
  then have "reachable_refs sel seen stack \<subseteq> reachable_refs sel seen (r # stack)" by (auto simp: reachable_refs_def)
  then have "card (reachable_refs sel seen stack) \<le> card (reachable_refs sel seen (r # stack))"
    by (intro card_mono) (simp_all add: reachable_refs_def)
  then show ?case by auto
next
  case (3 sel seen r stack)
  let ?stack = "rev (predecessors sel (refOf r)) @ stack"
  have "set (predecessors sel (refOf r)) \<subseteq> set (map selectedRow sel)" by (auto simp: predecessors_def)
  then have "reachable_refs sel (refOf r # seen) ?stack \<subseteq> reachable_refs sel seen (r # stack) - {refOf r}"
    by (auto simp: reachable_refs_def)
  moreover have "refOf r \<in> reachable_refs sel seen (r # stack)" using 3 by (simp add: reachable_refs_def)
  ultimately have "reachable_refs sel (refOf r # seen) ?stack \<subset> reachable_refs sel seen (r # stack)" by blast
  then have "card (reachable_refs sel (refOf r # seen) ?stack) < card (reachable_refs sel seen (r # stack))"
    by (intro psubset_card_mono) (simp_all add: reachable_refs_def)
  then show ?case by simp
qed

definition cellKey :: "string \<Rightarrow> string \<Rightarrow> string" where
  "cellKey account u = account @ [CHR 0x00] @ u"

record FlagReach =
  reachCells :: "(string \<times> ProvisionalRevisionFlag list) list"
  reachUnits :: "(string \<times> ProvisionalRevisionFlag list) list"

definition legOnBasis :: "RecognitionBasis \<Rightarrow> ProvisionalLeg \<Rightarrow> bool" where
  "legOnBasis basis l \<longleftrightarrow> provBasis l = basis \<or> provBasis l = Unknown_basis"

definition flaggedLegs ::
  "SelectedRevision list \<Rightarrow> RecognitionBasis \<Rightarrow> (ProvisionalLeg \<times> ProvisionalRevisionFlag list) list"
where
  "flaggedLegs sel basis = concat (map (\<lambda>head.
     concat (map (\<lambda>r. map (\<lambda>l. (l, provFlags head)) (filter (legOnBasis basis) (provLegs r)))
       (reachRows sel [] [head])))
     (filter (\<lambda>r. provFlags r \<noteq> []) (activeRows sel)))"

definition flagReach :: "SelectedRevision list \<Rightarrow> RecognitionBasis \<Rightarrow> string list \<Rightarrow> FlagReach" where
  "flagReach sel basis requested =
     (let ls = flaggedLegs sel basis
      in \<lparr>reachCells = List.map_filter (\<lambda>(l, flags).
             case provAccount l of
               None \<Rightarrow> None
             | Some a \<Rightarrow> if a \<in> set requested then Some (cellKey a (unitRef (provQuantity l)), flags) else None) ls,
          reachUnits = List.map_filter (\<lambda>(l, flags).
             if provAccount l = None then Some (unitRef (provQuantity l), flags) else None) ls\<rparr>)"

definition flagsAt :: "(string \<times> ProvisionalRevisionFlag list) list \<Rightarrow> string \<Rightarrow> ProvisionalRevisionFlag list" where
  "flagsAt entries key = concat (map snd (filter (\<lambda>e. fst e = key) entries))"

section \<open>Legs and frames\<close>

definition legKey :: "ProvisionalLeg \<Rightarrow> string" where
  "legKey l = (case provAccount l of
     None \<Rightarrow> CHR 0x01 # unitRef (provQuantity l)
   | Some a \<Rightarrow> cellKey a (unitRef (provQuantity l)))"

definition legRef :: "ProvisionalEventRevision \<Rightarrow> ProvisionalLeg \<Rightarrow> string" where
  "legRef r l = refOf r @ ''#'' @ int_text (provIndex l)"

definition legViews :: "SelectedRevision list \<Rightarrow> LegView list" where
  "legViews sel = concat (map (\<lambda>s. map (\<lambda>l. \<lparr>viewSelected = s, viewLeg = l, viewRef = legRef (selectedRow s) l\<rparr>)
     (provLegs (selectedRow s))) sel)"

text \<open>\<open>indexLegs\<close>: the entry of a key, and the keys in insertion order.\<close>

definition legsAt :: "LegView list \<Rightarrow> string \<Rightarrow> LegView list" where
  "legsAt views key = filter (\<lambda>v. legKey (viewLeg v) = key) views"

definition legKeys :: "LegView list \<Rightarrow> string list" where
  "legKeys views = js_set (map (legKey \<circ> viewLeg) views)"

definition keyOwner :: "string \<Rightarrow> string" where
  "keyOwner key = takeWhile (\<lambda>c. c \<noteq> CHR 0x00) key"

definition keyUnit :: "string \<Rightarrow> string" where
  "keyUnit key = takeWhile (\<lambda>c. c \<noteq> CHR 0x00) (tl (dropWhile (\<lambda>c. c \<noteq> CHR 0x00) key))"

record CellFrame =
  frameAccount :: string
  frameMeasure :: CellMeasure
  frameUnitRef :: "string option"
  frameUnit :: string
  frameUnidentified :: "string option"
  frameStart :: StartOutcome
  frameEnd :: EndOutcome

text \<open>\<open>note\<close>: a unit keeps its first measure unless that was \<open>flow-only\<close>.\<close>

fun noteUnit :: "(string \<times> CellMeasure) list \<Rightarrow> string \<times> CellMeasure \<Rightarrow> (string \<times> CellMeasure) list" where
  "noteUnit [] note = [note]"
| "noteUnit ((u, m) # keyed) note =
     (if u = fst note then (u, if m = Flow_only then snd note else m) # keyed else (u, m) # noteUnit keyed note)"

definition sideNotes :: "ReconstructionReportedSide \<Rightarrow> string \<Rightarrow> (string \<times> CellMeasure) list" where
  "sideNotes s account =
     map (\<lambda>b. (unitRef (balQuantity b), Balance_measure)) (filter (\<lambda>b. balAccount b = account) (sideBalances s)) @
     List.map_filter (\<lambda>p. map_option (\<lambda>i. (i, Position_measure)) (posInstrument p))
       (filter (\<lambda>p. posAccount p = account) (sidePositions s))"

definition opensCell :: "RecognitionBasis \<Rightarrow> LegView \<Rightarrow> bool" where
  "opensCell basis v \<longleftrightarrow> selectedStatus (viewSelected v) \<noteq> Superseded_at_cut \<and>
     selectedStatus (viewSelected v) \<noteq> Recorded_after_cut \<and> legOnBasis basis (viewLeg v)"

definition legNotes :: "RecognitionBasis \<Rightarrow> LegView list \<Rightarrow> string \<Rightarrow> (string \<times> CellMeasure) list" where
  "legNotes basis views account =
     concat (map (\<lambda>key. map (\<lambda>v. (unitRef (provQuantity (viewLeg v)), Flow_only)) (filter (opensCell basis) (legsAt views key)))
       (filter (\<lambda>key. take 1 key \<noteq> [CHR 0x01] \<and> keyOwner key = account) (legKeys views)))"

definition reachNotes :: "FlagReach \<Rightarrow> string \<Rightarrow> (string \<times> CellMeasure) list" where
  "reachNotes reach account =
     map (\<lambda>key. (keyUnit key, Flow_only)) (filter (\<lambda>key. keyOwner key = account) (js_set (map fst (reachCells reach))))"

definition pickSide :: "ReconstructionReportedSide \<Rightarrow> string \<Rightarrow> string \<Rightarrow> StartOutcome" where
  "pickSide s account u =
     pickRow (filter (\<lambda>b. balAccount b = account \<and> unitRef (balQuantity b) = u) (sideBalances s))
       (filter (\<lambda>p. posAccount p = account \<and> posInstrument p = Some u) (sidePositions s))"

definition unitFrame ::
  "ReconstructionReportedSide \<Rightarrow> ReconstructionReportedSide \<Rightarrow> string \<Rightarrow> string \<times> CellMeasure \<Rightarrow> CellFrame"
where
  "unitFrame start final account = (\<lambda>(u, m).
     \<lparr>frameAccount = account, frameMeasure = m, frameUnitRef = Some u, frameUnit = u, frameUnidentified = None,
      frameStart = pickSide start account u, frameEnd = endOutcome (pickSide final account u)\<rparr>)"

definition unidentifiedFrames :: "ReconstructionReportedSide \<Rightarrow> string \<Rightarrow> CellFrame list" where
  "unidentifiedFrames s account =
     map (\<lambda>p. \<lparr>frameAccount = account, frameMeasure = Position_measure, frameUnitRef = None,
        frameUnit = unitRef (posQuantity p), frameUnidentified = Some (posRef p),
        frameStart = Start_gap Instrument_not_identified, frameEnd = End_unusable\<rparr>)
       (filter (\<lambda>p. posAccount p = account \<and> posInstrument p = None) (sidePositions s))"

definition accountFrames ::
  "RecognitionBasis \<Rightarrow> ReconstructionReportedSide \<Rightarrow> ReconstructionReportedSide \<Rightarrow> LegView list \<Rightarrow> FlagReach \<Rightarrow>
   string \<Rightarrow> CellFrame list"
where
  "accountFrames basis start final views reach account =
     (let notes = sideNotes start account @ sideNotes final account @ legNotes basis views account @ reachNotes reach account
      in map (unitFrame start final account) (foldl noteUnit [] notes) @
         unidentifiedFrames start account @ unidentifiedFrames final account)"

definition frames ::
  "ReconstructionRequest \<Rightarrow> FoldPolicy \<Rightarrow> ReconstructionReportedSide \<Rightarrow> ReconstructionReportedSide \<Rightarrow>
   LegView list \<Rightarrow> FlagReach \<Rightarrow> CellFrame list"
where
  "frames request policy start final views reach =
     concat (map (accountFrames (foldLegBasis policy (reqBasis request)) start final views reach) (reqAccounts request))"

end
