(* ===== verification/Reconstruction_State.thy ===== *)
theory Reconstruction_State
  imports Reconstruction_Fold
begin

text \<open>
  \<open>reconstructState\<close> of \<open>packages/domain/src/reconstruction.ts\<close>: the fold of one cell, its gaps, its figure, its
  explanation against the reported end, the record of every leg, and the state made of them. One
  definition per value the cell's loop computes, in its order.
\<close>

section \<open>The fold of a cell\<close>

definition boundOf :: "string option \<Rightarrow> string \<Rightarrow> ReconstructionWindowBound" where
  "boundOf capturedAt date = (case capturedAt of None \<Rightarrow> End_of_date date | Some t \<Rightarrow> Capture t)"

type_synonym Window = "ReconstructionWindowBound \<times> ReconstructionWindowBound"

type_synonym CellFold = "(LegView \<times> Classified) list"

definition foldCell ::
  "CellFrame \<Rightarrow> ReconstructionRequest \<Rightarrow> FoldPolicy \<Rightarrow> LegView list \<Rightarrow> Window \<Rightarrow> CellFold"
where
  "foldCell frame request policy legs window =
     (case frameUnitRef frame of
        None \<Rightarrow> []
      | Some u \<Rightarrow>
          map (\<lambda>v. (v, classifyLeg v policy (reqBasis request) (placer policy (reqBasis request) (fst window) (snd window))
                 (provAccount (viewLeg v) \<noteq> None)))
            (legsAt legs (cellKey (frameAccount frame) u) @ legsAt legs (CHR 0x01 # u)))"

definition viewsWith :: "LegDisposition \<Rightarrow> CellFold \<Rightarrow> LegView list" where
  "viewsWith d items = map fst (filter (\<lambda>(v, c). disposition c = d) items)"

definition appliedOf :: "CellFold \<Rightarrow> LegView list" where
  "appliedOf items = viewsWith Applied items"

definition isBlocking :: "LegDisposition \<Rightarrow> bool" where
  "isBlocking d \<longleftrightarrow> d \<notin> set COUNTED \<and> d \<notin> set IGNORED_DISPOSITIONS"

definition refsOf :: "LegView list \<Rightarrow> string list" where
  "refsOf views = sort (map viewRef views)"

definition startRowOf :: "CellFrame \<Rightarrow> ReconstructionStart option" where
  "startRowOf frame = (case frameStart frame of Start_row s \<Rightarrow> Some s | Start_gap _ \<Rightarrow> None)"

definition endRowOf :: "CellFrame \<Rightarrow> ReconstructionStart option" where
  "endRowOf frame = (case frameEnd frame of End_row e \<Rightarrow> Some e | _ \<Rightarrow> None)"

text \<open>The end was captured before the start.\<close>

definition invertedEnd :: "CellFrame \<Rightarrow> bool option" where
  "invertedEnd frame =
     (case (startRowOf frame, endRowOf frame) of
        (Some s, Some e) \<Rightarrow> map_option (\<lambda>n. n < 0) (captureOrder (startCapturedAt e) (startCapturedAt s))
      | _ \<Rightarrow> Some False)"

definition windowOf :: "CellFrame \<Rightarrow> ReconstructionRequest \<Rightarrow> bool \<Rightarrow> Window" where
  "windowOf frame request inverted =
     (boundOf (map_option startCapturedAt (startRowOf frame)) (reqStart request),
      boundOf (if inverted then None else map_option startCapturedAt (endRowOf frame)) (reqEnd request))"

text \<open>Step 4: the references of counted legs whose revision holds a claim another event holds too.\<close>

definition conflictedRefs :: "string list \<Rightarrow> CellFold \<Rightarrow> string list" where
  "conflictedRefs duplicated items = js_set (map (viewRef \<circ> fst)
     (filter (\<lambda>(v, c). disposition c \<in> set COUNTED \<and> refOf (selectedRow (viewSelected v)) \<in> set duplicated) items))"

section \<open>Gaps\<close>

definition startGaps :: "CellFrame \<Rightarrow> ReconstructionGap list" where
  "startGaps frame =
     (case frameStart frame of
        Start_gap g \<Rightarrow> [g]
      | Start_row s \<Rightarrow> if is_exact (startReported s) then [] else [Start_value_not_exact])"

definition reachGaps :: "FlagReach \<Rightarrow> CellFrame \<Rightarrow> ReconstructionGap list" where
  "reachGaps reach frame =
     (case frameUnitRef frame of
        None \<Rightarrow> []
      | Some u \<Rightarrow> map Gap_flag (flagsAt (reachCells reach) (cellKey (frameAccount frame) u) @ flagsAt (reachUnits reach) u))"

definition familyRows :: "KnowledgeSelection \<Rightarrow> string \<Rightarrow> ProvisionalFamilyCoverage list" where
  "familyRows selection account = filter (\<lambda>f. familyAccount f = account) (selFamilies selection)"

definition familyGaps :: "ProvisionalFamilyCoverage list \<Rightarrow> ReconstructionGap list" where
  "familyGaps family = (if family = [] \<or> list_ex (\<lambda>f. familyStatus f \<noteq> Evented) family then [Family_not_evented] else [])"

text \<open>
  The civil days the window spans: after an end of date, from the day of a capture on. A comparison with
  \<open>null\<close> is false unless both are \<open>null\<close>, and a date that does not parse throws.
\<close>

definition windowDates :: "Window \<Rightarrow> (string option \<times> string option) option" where
  "windowDates window =
     (case snd window of
        Capture t \<Rightarrow> Some (captureTokyoDate t)
      | End_of_date d \<Rightarrow> Some (Some d)) \<bind> (\<lambda>to.
     (case fst window of
        Capture t \<Rightarrow> Some (captureTokyoDate t, to)
      | End_of_date d \<Rightarrow> map_option (\<lambda>date. (Some (formatLocalDate (addDays date 1)), to)) (parseLocalDate d)))"

definition windowHistoryGaps :: "ProvisionalHistoryCoverage list \<Rightarrow> Window \<Rightarrow> ReconstructionGap list option" where
  "windowHistoryGaps rows window =
     (case windowDates window of
        None \<Rightarrow> None
      | Some (Some from, Some to) \<Rightarrow> if from \<le> to then historyGaps rows from to else Some []
      | Some (None, None) \<Rightarrow> None
      | Some _ \<Rightarrow> Some [])"

definition historyRows :: "KnowledgeSelection \<Rightarrow> string \<Rightarrow> ProvisionalHistoryCoverage list" where
  "historyRows selection account = filter (\<lambda>h. historyAccount h = account) (selHistory selection)"

text \<open>What step 1 to 4 found, and the gap a blocked leg without one adds; in the closed order.\<close>

definition foundGaps ::
  "CellFrame \<Rightarrow> ReconstructionReportedSide \<Rightarrow> KnowledgeSelection \<Rightarrow> FlagReach \<Rightarrow> CellFold \<Rightarrow> string list \<Rightarrow>
   ReconstructionGap list \<Rightarrow> ReconstructionGap list"
where
  "foundGaps frame start selection reach items conflicted history =
     startGaps frame @ (if frameAccount frame \<in> set (accountsWithoutContainer start) then [No_start_snapshot] else []) @
     List.map_filter (gapOf \<circ> snd) items @ (if conflicted \<noteq> [] then [Duplicate_claim_gap] else []) @
     reachGaps reach frame @ familyGaps (familyRows selection (frameAccount frame)) @ history"

definition sortedGaps :: "ReconstructionGap list \<Rightarrow> string list \<Rightarrow> ReconstructionGap list" where
  "sortedGaps gaps unknown =
     (let added = (if unknown \<noteq> [] \<and> \<not> list_ex (\<lambda>g. g \<in> set ABSENT_GAPS) gaps then Leg_effect_unknown # gaps else gaps)
      in filter (\<lambda>g. g \<in> set added) RECONSTRUCTION_GAPS)"

definition blockedRefs :: "CellFold \<Rightarrow> string list" where
  "blockedRefs items = refsOf (map fst (filter (\<lambda>(v, c). isBlocking (disposition c)) items))"

section \<open>The figure\<close>

text \<open>Step 5: the start plus what was applied, or its absence with the first blocking reason.\<close>

definition figureOf ::
  "CellFrame \<Rightarrow> ReconstructionGap list \<Rightarrow> Quantity \<Rightarrow> Quantity option"
where
  "figureOf frame gaps appliedTotal =
     (case List.find (\<lambda>g. g \<in> set ABSENT_GAPS) gaps of
        Some g \<Rightarrow> Some (absentQuantity (frameUnit frame) Missing (gapText g))
      | None \<Rightarrow>
          map_option (\<lambda>s.
            case sumQuantities (frameUnit frame) [startOriented s, appliedTotal] of
              Inr q \<Rightarrow> q
            | Inl e \<Rightarrow> absentQuantity (frameUnit frame) Missing (value_error_text (errorCode e))) (startRowOf frame))"

definition figurePartition :: "Quantity \<Rightarrow> ReconstructionGap list \<Rightarrow> ResultPartition" where
  "figurePartition figure gaps =
     (if \<not> is_exact figure then Not_computable else if gaps \<noteq> [] then Partial_verified_scope else Complete)"

section \<open>The explanation\<close>

text \<open>The end is the start's own capture: the snapshot would be compared with itself.\<close>

definition sameCapture :: "CellFrame \<Rightarrow> bool option" where
  "sameCapture frame =
     (case (startRowOf frame, endRowOf frame) of
        (Some s, Some e) \<Rightarrow>
          if startSnapshot s = startSnapshot e
          then map_option (\<lambda>n. n = 0) (captureOrder (startCapturedAt s) (startCapturedAt e)) else Some False
      | _ \<Rightarrow> Some False)"

definition metricsDiffer :: "CellFrame \<Rightarrow> bool" where
  "metricsDiffer frame =
     (case (startRowOf frame, endRowOf frame) of
        (Some s, Some e) \<Rightarrow> startMetric s \<noteq> startMetric e
      | _ \<Rightarrow> False)"

text \<open>Step 7, up to the comparison: why the cell cannot be compared, or nothing.\<close>

definition comparability ::
  "CellFrame \<Rightarrow> ReconstructionRequest \<Rightarrow> ReconstructionReportedSide \<Rightarrow> bool \<Rightarrow> ResultPartition \<Rightarrow>
   (ExplanationStatus \<times> ExplanationReason option) option"
where
  "comparability frame request final inverted part =
     (if frameAccount frame \<in> set (accountsWithoutContainer final) then Some (Unavailable, Some No_reported_container)
      else if frameUnitRef frame = None then Some (Not_comparable, Some Reconstruction_incomplete)
      else if frameEnd frame = End_missing then Some (Not_comparable, Some Reported_end_missing)
      else sameCapture frame \<bind> (\<lambda>same.
        if same then Some (Not_comparable, Some Same_capture_as_start)
        else if frameEnd frame = End_unusable \<or> reqBasis request \<noteq> Cash_basis \<or> inverted \<or> metricsDiffer frame
        then Some (Not_comparable, Some Snapshot_basis_unknown)
        else map_option (\<lambda>e.
          if \<not> is_exact (startOriented e) then (Not_comparable, Some Reported_end_not_exact)
          else if part \<noteq> Complete then (Not_comparable, Some Reconstruction_incomplete)
          else (Difference_unexplained, None)) (endRowOf frame)))"

definition remainderOf ::
  "CellFrame \<Rightarrow> ExplanationReason option \<Rightarrow> Quantity \<Rightarrow> Quantity"
where
  "remainderOf frame reason figure =
     (let absent = absentQuantity (frameUnit frame) Missing
            (reasonText (case reason of None \<Rightarrow> Reconstruction_incomplete | Some r \<Rightarrow> r))
      in case endRowOf frame of
           None \<Rightarrow> absent
         | Some e \<Rightarrow>
             if reason = None \<or> reason = Some Reconstruction_incomplete
             then (case subtractQuantities (startOriented e) figure of Inr q \<Rightarrow> q | Inl _ \<Rightarrow> absent)
             else absent)"

definition isZero :: "Quantity \<Rightarrow> bool" where
  "isZero q = (case exactOf q of None \<Rightarrow> False | Some v \<Rightarrow> coefficient v = 0)"

definition equalQuantities :: "Quantity \<Rightarrow> Quantity \<Rightarrow> bool" where
  "equalQuantities a b = (compareQuantities a b = Inr 0)"

definition finalStatus :: "ExplanationStatus \<Rightarrow> Quantity \<Rightarrow> LegView list \<Rightarrow> Quantity \<Rightarrow> ExplanationStatus" where
  "finalStatus status remainder boundaryViews boundaryTotal =
     (if status \<noteq> Difference_unexplained then status
      else if boundaryViews = [] then (if isZero remainder then Reconciled else status)
      else if isZero remainder then Consistent_with_boundary_exclusion
      else if equalQuantities remainder boundaryTotal then Consistent_with_boundary_inclusion
      else status)"

definition lateOf ::
  "CellFrame \<Rightarrow> Quantity \<Rightarrow> LegView list \<Rightarrow> LegView list \<Rightarrow> (Quantity \<times> string list) option"
where
  "lateOf frame appliedTotal appliedViews earlier = map_option (\<lambda>earlierTotal.
     (case subtractQuantities appliedTotal earlierTotal of
        Inr q \<Rightarrow> q
      | Inl e \<Rightarrow> absentQuantity (frameUnit frame) Missing (value_error_text (errorCode e)),
      let now = js_set (map viewRef appliedViews); before = js_set (map viewRef earlier)
      in sort (filter (\<lambda>r. r \<notin> set before) now @ filter (\<lambda>r. r \<notin> set now) before)))
     (totalOf (frameUnit frame) earlier)"

definition lateRecorded ::
  "CellFrame \<Rightarrow> ReconstructionRequest \<Rightarrow> FoldPolicy \<Rightarrow> LegView list option \<Rightarrow> Window \<Rightarrow> ExplanationReason option \<Rightarrow>
   Quantity \<Rightarrow> LegView list \<Rightarrow> (Quantity \<times> string list) option option"
where
  "lateRecorded frame request policy baselineLegs window reason appliedTotal appliedViews =
     (case baselineLegs of
        None \<Rightarrow> Some None
      | Some legs \<Rightarrow>
          if endRowOf frame = None \<or> reason = Some No_reported_container then Some None
          else map_option Some (lateOf frame appliedTotal appliedViews (appliedOf (foldCell frame request policy legs window))))"

section \<open>The cell\<close>

text \<open>The duplicated claims' holders; what a cell needs of the whole run.\<close>

definition duplicatedRefs :: "KnowledgeSelection \<Rightarrow> string list" where
  "duplicatedRefs selection = concat (map duplicateHolders (duplicateClaims selection))"

record ReconstructionInput =
  inRequest :: ReconstructionRequest
  inPolicy :: FoldPolicy
  inStart :: ReconstructionReportedSide
  inEnd :: ReconstructionReportedSide
  inSelection :: KnowledgeSelection
  inBaseline :: "KnowledgeSelection option"

definition inBasis :: "ReconstructionInput \<Rightarrow> RecognitionBasis" where
  "inBasis x = foldLegBasis (inPolicy x) (reqBasis (inRequest x))"

definition inReach :: "ReconstructionInput \<Rightarrow> FlagReach" where
  "inReach x = flagReach (selRevisions (inSelection x)) (inBasis x) (reqAccounts (inRequest x))"

definition inLegs :: "ReconstructionInput \<Rightarrow> LegView list" where
  "inLegs x = legViews (selRevisions (inSelection x))"

definition inFrames :: "ReconstructionInput \<Rightarrow> CellFrame list" where
  "inFrames x = frames (inRequest x) (inPolicy x) (inStart x) (inEnd x) (inLegs x) (inReach x)"

text \<open>The fold of a frame in its window.\<close>

record FoldedFrame =
  foldedFrame :: CellFrame
  foldedInverted :: bool
  foldedWindow :: Window
  foldedItems :: CellFold
  foldedConflicts :: "string list"

definition foldFrame :: "ReconstructionInput \<Rightarrow> CellFrame \<Rightarrow> FoldedFrame option" where
  "foldFrame x frame = map_option (\<lambda>inverted.
     let window = windowOf frame (inRequest x) inverted;
         items = foldCell frame (inRequest x) (inPolicy x) (inLegs x) window
     in \<lparr>foldedFrame = frame, foldedInverted = inverted, foldedWindow = window, foldedItems = items,
         foldedConflicts = conflictedRefs (duplicatedRefs (inSelection x)) items\<rparr>) (invertedEnd frame)"

definition componentOf :: "LegView list \<Rightarrow> Quantity \<Rightarrow> ComponentTotal" where
  "componentOf views amount = \<lparr>componentCount = length views, componentTotal = amount, componentRefs = refsOf views\<rparr>"

definition countPlaced :: "Placement \<Rightarrow> CellFold \<Rightarrow> nat" where
  "countPlaced p items = length (filter (\<lambda>(v, c). disposition c = Boundary_same_day \<and> placement c = Some p) items)"

definition ignoredOf :: "CellFold \<Rightarrow> (LegDisposition \<times> nat) list" where
  "ignoredOf items = map (\<lambda>d. (d, length (viewsWith d items))) IGNORED_DISPOSITIONS"

definition cellOf :: "ReconstructionInput \<Rightarrow> FoldedFrame \<Rightarrow> ReconstructedCell option" where
  "cellOf x f = do {
     let frame = foldedFrame f;
     let items = foldedItems f;
     history \<leftarrow> windowHistoryGaps (historyRows (inSelection x) (frameAccount frame)) (foldedWindow f);
     let applied = viewsWith Applied items;
     let pending = viewsWith Pending_shown_apart items;
     let boundary = viewsWith Boundary_same_day items;
     let unknown = blockedRefs items;
     appliedTotal \<leftarrow> totalOf (frameUnit frame) applied;
     let gaps = sortedGaps (foundGaps frame (inStart x) (inSelection x) (inReach x) items (foldedConflicts f) history) unknown;
     figure \<leftarrow> figureOf frame gaps appliedTotal;
     let part = figurePartition figure gaps;
     pendingTotal \<leftarrow> totalOf (frameUnit frame) pending;
     boundaryTotal \<leftarrow> totalOf (frameUnit frame) boundary;
     (status, reason) \<leftarrow> comparability frame (inRequest x) (inEnd x) (foldedInverted f) part;
     let remainder = remainderOf frame reason figure;
     late \<leftarrow> lateRecorded frame (inRequest x) (inPolicy x) (map_option (\<lambda>b. legViews (selRevisions b)) (inBaseline x))
       (foldedWindow f) reason appliedTotal applied;
     Some \<lparr>cellAccount = frameAccount frame, cellMeasure = frameMeasure frame, cellUnitRef = frameUnitRef frame,
       cellUnidentified = frameUnidentified frame, cellWindow = foldedWindow f, cellStart = startRowOf frame,
       reconstructed = figure, cellApplied = componentOf applied appliedTotal,
       cellPending = componentOf pending pendingTotal, cellBoundary = componentOf boundary boundaryTotal,
       boundaryAtStart = countPlaced Boundary_start items, boundaryAtEnd = countPlaced Boundary_end items,
       ignoredCounts = ignoredOf items, unknownRefs = unknown, cellGaps = gaps, cellPartition = part,
       needsReview = list_ex (\<lambda>g. g \<in> set REVIEW_GAPS) gaps,
       explanation = \<lparr>explStatus = finalStatus status remainder boundary boundaryTotal, explReason = reason,
         explReported = endRowOf frame, explRemainder = remainder, explLate = late,
         explPending = (pendingTotal, refsOf pending), explBoundary = (boundaryTotal, refsOf boundary)\<rparr>\<rparr>
   }"

section \<open>The records\<close>

definition statusDisposition :: "SelectionStatus \<Rightarrow> LegDisposition option" where
  "statusDisposition st =
     (if st = Recorded_after_cut then Some Recorded_after_knowledge_time
      else if st = Superseded_at_cut then Some Superseded_at_knowledge_time else None)"

definition recordOf :: "SelectedRevision \<Rightarrow> ProvisionalLeg \<Rightarrow> LegDisposition \<Rightarrow> ReconstructionGap option \<Rightarrow> bool \<Rightarrow> LegDispositionRecord" where
  "recordOf s l d g conflict = \<lparr>recRef = legRef (selectedRow s) l, recEvent = provEvent (selectedRow s),
     recRevision = provRevision (selectedRow s), recLegIndex = Some (provIndex l), recAccount = provAccount l,
     recUnit = Some (unitRef (provQuantity l)), recDisposition = d, recGap = g, recConflict = conflict\<rparr>"

text \<open>A revision without legs has one record of its own.\<close>

definition leglessOutcome :: "FoldPolicy \<Rightarrow> SelectedRevision \<Rightarrow> LegDisposition \<times> ReconstructionGap option" where
  "leglessOutcome policy s =
     (let r = selectedRow s; effect = foldStates policy (provKind r) (provState r)
      in case statusDisposition (selectedStatus s) of
           Some d \<Rightarrow> (d, None)
         | None \<Rightarrow>
             if selectedStatus s = Knowledge_unlogged_status then (Leg_unlogged, Some Gap_unlogged)
             else if selectedStatus s = Chain_inconsistent then (Unknown_effect, Some Revision_chain_inconsistent)
             else case firstFlag r of
               Some f \<Rightarrow> (Flagged f, Some (Gap_flag f))
             | None \<Rightarrow> if effect = Some Effect_none then (State_no_effect, None)
                 else (Unknown_effect, Some Leg_effect_unknown))"

definition leglessRecord :: "FoldPolicy \<Rightarrow> SelectedRevision \<Rightarrow> LegDispositionRecord" where
  "leglessRecord policy s =
     \<lparr>recRef = refOf (selectedRow s), recEvent = provEvent (selectedRow s), recRevision = provRevision (selectedRow s),
      recLegIndex = None, recAccount = None, recUnit = None, recDisposition = fst (leglessOutcome policy s),
      recGap = snd (leglessOutcome policy s), recConflict = False\<rparr>"

text \<open>A leg outside every cell is recorded where it stands; a leg of no account whose unit has cells is a stray.\<close>

definition requestPlace :: "ReconstructionInput \<Rightarrow> ProvisionalEventRevision \<Rightarrow> Placement" where
  "requestPlace x = placer (inPolicy x) (reqBasis (inRequest x)) (End_of_date (reqStart (inRequest x)))
     (End_of_date (reqEnd (inRequest x)))"

definition cellKeysOf :: "CellFrame list \<Rightarrow> string list" where
  "cellKeysOf fs = List.map_filter (\<lambda>f. map_option (cellKey (frameAccount f)) (frameUnitRef f)) fs"

definition cellUnitsOf :: "CellFrame list \<Rightarrow> string list" where
  "cellUnitsOf fs = List.map_filter frameUnitRef fs"

definition outsideRecord :: "ReconstructionInput \<Rightarrow> SelectedRevision \<Rightarrow> ProvisionalLeg \<Rightarrow> LegDispositionRecord option" where
  "outsideRecord x s l =
     (case provAccount l of
        None \<Rightarrow>
          if unitRef (provQuantity l) \<in> set (cellUnitsOf (inFrames x)) then None
          else
            let outcome = classifyLeg \<lparr>viewSelected = s, viewLeg = l, viewRef = legRef (selectedRow s) l\<rparr> (inPolicy x)
              (reqBasis (inRequest x)) (requestPlace x) False
            in Some (recordOf s l (disposition outcome) (gapOf outcome) False)
      | Some a \<Rightarrow>
          if cellKey a (unitRef (provQuantity l)) \<in> set (cellKeysOf (inFrames x)) then None
          else Some (recordOf s l
            (case statusDisposition (selectedStatus s) of
               Some d \<Rightarrow> d
             | None \<Rightarrow> if \<not> legOnBasis (inBasis x) l then Other_basis else Other_account) None False))"

definition outsideRecords :: "ReconstructionInput \<Rightarrow> SelectedRevision \<Rightarrow> LegDispositionRecord list" where
  "outsideRecords x s =
     (if provLegs (selectedRow s) = [] then [leglessRecord (inPolicy x) s]
      else List.map_filter (outsideRecord x s) (provLegs (selectedRow s)))"

definition isStray :: "ReconstructionInput \<Rightarrow> LegView \<Rightarrow> bool" where
  "isStray x v \<longleftrightarrow> provAccount (viewLeg v) = None \<and> unitRef (provQuantity (viewLeg v)) \<in> set (cellUnitsOf (inFrames x))"

text \<open>\<open>strays\<close>: one entry for each reference, the last view of it, where the reference came first.\<close>

definition strayViews :: "ReconstructionInput \<Rightarrow> (string \<times> LegView) list" where
  "strayViews x = foldl (\<lambda>m v. AList.update (viewRef v) v m) [] (filter (isStray x) (inLegs x))"

definition cellRecords :: "FoldedFrame \<Rightarrow> LegDispositionRecord list" where
  "cellRecords f = map (\<lambda>(v, c). recordOf (viewSelected v) (viewLeg v) (disposition c) (gapOf c) (viewRef v \<in> set (foldedConflicts f)))
     (filter (\<lambda>(v, c). provAccount (viewLeg v) \<noteq> None) (foldedItems f))"

definition indexIn :: "'a list \<Rightarrow> 'a \<Rightarrow> int" where
  "indexIn xs y = (let before = takeWhile (\<lambda>x. x \<noteq> y) xs in if y \<in> set xs then int (length before) else - 1)"

definition severity :: "Classified \<Rightarrow> int" where
  "severity c =
     (if isBlocking (disposition c) then 0 else 1) * 10000 +
     (case gapOf c of None \<Rightarrow> int (length RECONSTRUCTION_GAPS) | Some g \<Rightarrow> indexIn RECONSTRUCTION_GAPS g) * 100 +
     indexIn LEG_DISPOSITIONS (disposition c)"

text \<open>A stray takes the most severe of its outcomes over the cells; without an outcome the code throws.\<close>

definition strayOutcomes :: "FoldedFrame list \<Rightarrow> string \<Rightarrow> Classified list" where
  "strayOutcomes fs ref = concat (map (\<lambda>f. map snd
     (filter (\<lambda>(v, c). provAccount (viewLeg v) = None \<and> viewRef v = ref) (foldedItems f))) fs)"

definition strayRecord :: "FoldedFrame list \<Rightarrow> string \<times> LegView \<Rightarrow> LegDispositionRecord option" where
  "strayRecord fs = (\<lambda>(ref, v).
     (case js_sort (\<lambda>a b. severity a - severity b) (strayOutcomes fs ref) of
        [] \<Rightarrow> None
      | c # _ \<Rightarrow> Some (recordOf (viewSelected v) (viewLeg v) (disposition c) (gapOf c) False)))"

definition recordOrder :: "LegDispositionRecord \<Rightarrow> LegDispositionRecord \<Rightarrow> int" where
  "recordOrder a b =
     (let index = (\<lambda>i. case recLegIndex i of None \<Rightarrow> - 1 | Some n \<Rightarrow> n)
      in or_else (compareText (recEvent a) (recEvent b)) (or_else (recRevision a - recRevision b) (index a - index b)))"

definition recordsOf :: "ReconstructionInput \<Rightarrow> FoldedFrame list \<Rightarrow> LegDispositionRecord list option" where
  "recordsOf x fs = map_option (\<lambda>strays.
     js_sort recordOrder (concat (map (outsideRecords x) (selRevisions (inSelection x))) @ concat (map cellRecords fs) @ strays))
     (those (map (strayRecord fs) (strayViews x)))"

section \<open>The state\<close>

fun measureText :: "CellMeasure \<Rightarrow> string" where
  "measureText Balance_measure = ''balance''"
| "measureText Position_measure = ''position''"
| "measureText Flow_only = ''flow-only''"

definition textOf :: "string option \<Rightarrow> string" where
  "textOf s = (case s of None \<Rightarrow> [] | Some t \<Rightarrow> t)"

definition cellOrder :: "ReconstructedCell \<Rightarrow> ReconstructedCell \<Rightarrow> int" where
  "cellOrder a b =
     or_else (compareText (cellAccount a) (cellAccount b))
       (or_else (compareText (measureText (cellMeasure a)) (measureText (cellMeasure b)))
         (or_else (compareText (textOf (cellUnitRef a)) (textOf (cellUnitRef b)))
           (compareText (textOf (cellUnidentified a)) (textOf (cellUnidentified b)))))"

definition accountOf :: "ReconstructionInput \<Rightarrow> ReconstructedCell list \<Rightarrow> string \<Rightarrow> ReconstructedAccount" where
  "accountOf x cells account =
     (let family = familyRows (inSelection x) account
      in \<lparr>acctId = account, startContainer = (account \<notin> set (accountsWithoutContainer (inStart x))),
          endContainer = (account \<notin> set (accountsWithoutContainer (inEnd x))),
          acctCoverage =
            (if family = [] then None
             else if list_ex (\<lambda>f. familyStatus f = Not_evented) family then Some Not_evented
             else if list_ex (\<lambda>f. familyStatus f = Family_unknown) family then Some Family_unknown
             else Some Evented),
          acctCells = length (filter (\<lambda>c. cellAccount c = account) cells)\<rparr>)"

fun familyText :: "FamilyCoverageStatus \<Rightarrow> string" where
  "familyText Evented = ''evented''"
| "familyText Not_evented = ''not-evented''"
| "familyText Family_unknown = ''unknown''"

fun historyText :: "HistoryCoverageStatus \<Rightarrow> string" where
  "historyText History_complete = ''complete''"
| "historyText History_gap_status = ''gap''"
| "historyText History_unknown = ''unknown''"

fun joinWith :: "string \<Rightarrow> string list \<Rightarrow> string" where
  "joinWith sep [] = []"
| "joinWith sep [s] = s"
| "joinWith sep (s # ss) = s @ sep @ joinWith sep ss"

definition familyOrder :: "ProvisionalFamilyCoverage \<Rightarrow> ProvisionalFamilyCoverage \<Rightarrow> int" where
  "familyOrder a b =
     or_else (compareText (familyAccount a) (familyAccount b))
       (or_else (compareText (familyText (familyStatus a)) (familyText (familyStatus b)))
         (compareText (joinWith [CHR 0x00] (families a)) (joinWith [CHR 0x00] (families b))))"

definition historyOrder :: "ProvisionalHistoryCoverage \<Rightarrow> ProvisionalHistoryCoverage \<Rightarrow> int" where
  "historyOrder a b =
     or_else (compareText (historyAccount a) (historyAccount b))
       (or_else (compareText (historyFrom a) (historyFrom b))
         (or_else (compareText (historyTo a) (historyTo b))
           (or_else (compareText (historyText (historyStatus a)) (historyText (historyStatus b)))
             (compareText (textOf (historyReason a)) (textOf (historyReason b))))))"

definition canonicalFamilies :: "KnowledgeSelection \<Rightarrow> ProvisionalFamilyCoverage list" where
  "canonicalFamilies selection = js_sort familyOrder (map (\<lambda>f. f\<lparr>families := sort (families f)\<rparr>) (selFamilies selection))"

definition canonicalHistory :: "KnowledgeSelection \<Rightarrow> ProvisionalHistoryCoverage list" where
  "canonicalHistory selection = js_sort historyOrder (selHistory selection)"

definition manifestOf :: "ReconstructionInput \<Rightarrow> ReconstructionManifest" where
  "manifestOf x =
     (let r = inRequest x; s = inSelection x
      in \<lparr>manResolution = selResolution s, manPolicies = [foldPolicyId (inPolicy x)], manBasis = reqBasis r,
          manRange = (reqStart r, reqEnd r), manAccounts = sort (reqAccounts r), manKnowledgeAt = reqKnowledgeAt r,
          manCut = reqCut r, manBaselineCut = map_option selCut (inBaseline x),
          manBaselineVersion = map_option selVersion (inBaseline x), manStartContext = sideContext (inStart x),
          manEndContext = sideContext (inEnd x), manSetVersion = selVersion s, manAdapter = selAdapter s,
          manWriters = selWriters s, manPins = selPins s, manFamilies = canonicalFamilies s, manHistory = canonicalHistory s\<rparr>)"

text \<open>The refusals before the fold, in their order.\<close>

definition baselineProblem :: "ReconstructionInput \<Rightarrow> ReconstructionError option" where
  "baselineProblem x =
     (case inBaseline x of
        None \<Rightarrow> None
      | Some b \<Rightarrow>
          (case checkSelection b of
             Some e \<Rightarrow> Some (refuse Baseline_mismatch (refusalRefs e))
           | None \<Rightarrow>
               (case lateUnchecked b (inSelection x) of
                  Inl e \<Rightarrow> Some (refuse Baseline_mismatch (refusalRefs e))
                | Inr _ \<Rightarrow> None)))"

definition refusedInput :: "ReconstructionInput \<Rightarrow> ReconstructionError option" where
  "refusedInput x =
     (if \<not> validReconstructionRequest (inRequest x) then Some (refuse Invalid_request [''request''])
      else if \<not> validFoldPolicy (inPolicy x) then Some (refuse Invalid_policy [''policy''])
      else case checkReportedSide (inStart x) (reqStart (inRequest x)) Invalid_start_snapshot of
        Some e \<Rightarrow> Some e
      | None \<Rightarrow>
          (case checkReportedSide (inEnd x) (reqEnd (inRequest x)) Invalid_end_reported of
             Some e \<Rightarrow> Some e
           | None \<Rightarrow>
               (case checkSelection (inSelection x) of
                  Some e \<Rightarrow> Some e
                | None \<Rightarrow>
                    if selCut (inSelection x) \<noteq> reqCut (inRequest x)
                    then Some (refuse Selection_mismatch [''selection.knowledgeCut''])
                    else baselineProblem x)))"

definition foldState :: "ReconstructionInput \<Rightarrow> ReconstructedState option" where
  "foldState x = do {
     fs \<leftarrow> those (map (foldFrame x) (inFrames x));
     unsorted \<leftarrow> those (map (cellOf x) fs);
     records \<leftarrow> recordsOf x fs;
     let cells = js_sort cellOrder unsorted;
     Some \<lparr>stateBasis = reqBasis (inRequest x), stateCut = reqCut (inRequest x),
       stateAccounts = map (accountOf x cells) (sort (reqAccounts (inRequest x))), stateCells = cells,
       stateDispositions = records, stateManifest = manifestOf x\<rparr>
   }"

definition reconstructState :: "ReconstructionInput \<Rightarrow> (ReconstructionError + ReconstructedState) option" where
  "reconstructState x =
     (case refusedInput x of
        Some e \<Rightarrow> Some (Inl e)
      | None \<Rightarrow> map_option Inr (foldState x))"

end
