(* ===== verification/Reconstruction_Cells.thy ===== *)
theory Reconstruction_Cells
  imports Reconstruction_State
begin

text \<open>
  What a reconstructed cell says. A state that \<open>reconstructState\<close> returns is taken apart into the frames, the
  folds and the parts of a cell; then its figure, the legs that reach it, its partition and its
  explanation are characterized.
\<close>

section \<open>Cells of a state\<close>

lemma those_SomeD: "those xs = Some ys \<Longrightarrow> xs = map Some ys"
  by (induction xs arbitrary: ys) (auto split: option.splits)

lemma reconstructState_Inr:
  assumes "reconstructState x = Some (Inr st)"
  shows "refusedInput x = None" and "foldState x = Some st"
  using assms by (auto simp: reconstructState_def split: option.splits)

text \<open>What the input was, once it is not refused.\<close>

lemma accepted_input:
  assumes "refusedInput x = None"
  shows "validReconstructionRequest (inRequest x)" and "validFoldPolicy (inPolicy x)"
    and "checkReportedSide (inStart x) (reqStart (inRequest x)) Invalid_start_snapshot = None"
    and "checkReportedSide (inEnd x) (reqEnd (inRequest x)) Invalid_end_reported = None"
    and "checkSelection (inSelection x) = None" and "selCut (inSelection x) = reqCut (inRequest x)"
    and "baselineProblem x = None"
  using assms by (auto simp: refusedInput_def split: if_splits option.splits)

lemma foldState_parts:
  assumes "foldState x = Some st"
  obtains fs unsorted records where "map (foldFrame x) (inFrames x) = map Some fs" "map (cellOf x) fs = map Some unsorted"
    "recordsOf x fs = Some records" "stateCells st = js_sort cellOrder unsorted" "stateDispositions st = records"
proof -
  from assms obtain fs unsorted records where
    "those (map (foldFrame x) (inFrames x)) = Some fs" "those (map (cellOf x) fs) = Some unsorted"
    "recordsOf x fs = Some records" "stateCells st = js_sort cellOrder unsorted" "stateDispositions st = records"
    unfolding foldState_def by (auto simp: Let_def split: Option.bind_splits)
  with that show thesis by (blast dest: those_SomeD)
qed

lemma map_SomeD: "map f xs = map Some ys \<Longrightarrow> y \<in> set ys \<Longrightarrow> \<exists>x\<in>set xs. f x = Some y"
  by (metis (mono_tags, lifting) image_iff image_set)

lemma cell_origin:
  assumes "reconstructState x = Some (Inr st)" and "c \<in> set (stateCells st)"
  obtains frame f where "frame \<in> set (inFrames x)" "foldFrame x frame = Some f" "cellOf x f = Some c"
proof -
  from reconstructState_Inr(2) [OF assms(1)] obtain fs unsorted where
    maps: "map (foldFrame x) (inFrames x) = map Some fs" "map (cellOf x) fs = map Some unsorted"
    and "stateCells st = js_sort cellOrder unsorted" by (rule foldState_parts)
  with assms(2) have "c \<in> set unsorted" by simp
  with maps that show thesis by (blast dest: map_SomeD)
qed

lemma foldFrame_Some:
  assumes "foldFrame x frame = Some f"
  shows "foldedFrame f = frame" and "invertedEnd frame = Some (foldedInverted f)"
    and "foldedWindow f = windowOf frame (inRequest x) (foldedInverted f)"
    and "foldedItems f = foldCell frame (inRequest x) (inPolicy x) (inLegs x) (foldedWindow f)"
    and "foldedConflicts f = conflictedRefs (duplicatedRefs (inSelection x)) (foldedItems f)"
  using assms by (auto simp: foldFrame_def Let_def)

lemma cellOf_parts:
  assumes "cellOf x f = Some c"
  obtains history appliedTotal pendingTotal boundaryTotal status where
    "windowHistoryGaps (historyRows (inSelection x) (frameAccount (foldedFrame f))) (foldedWindow f) = Some history"
    "totalOf (frameUnit (foldedFrame f)) (viewsWith Applied (foldedItems f)) = Some appliedTotal"
    "totalOf (frameUnit (foldedFrame f)) (viewsWith Pending_shown_apart (foldedItems f)) = Some pendingTotal"
    "totalOf (frameUnit (foldedFrame f)) (viewsWith Boundary_same_day (foldedItems f)) = Some boundaryTotal"
    "cellGaps c = sortedGaps (foundGaps (foldedFrame f) (inStart x) (inSelection x) (inReach x) (foldedItems f)
       (foldedConflicts f) history) (blockedRefs (foldedItems f))"
    "figureOf (foldedFrame f) (cellGaps c) appliedTotal = Some (reconstructed c)"
    "cellPartition c = figurePartition (reconstructed c) (cellGaps c)"
    "comparability (foldedFrame f) (inRequest x) (inEnd x) (foldedInverted f) (cellPartition c) =
       Some (status, explReason (explanation c))"
    "explRemainder (explanation c) = remainderOf (foldedFrame f) (explReason (explanation c)) (reconstructed c)"
    "explStatus (explanation c) = finalStatus status (explRemainder (explanation c))
       (viewsWith Boundary_same_day (foldedItems f)) boundaryTotal"
    "cellApplied c = componentOf (viewsWith Applied (foldedItems f)) appliedTotal"
    "cellBoundary c = componentOf (viewsWith Boundary_same_day (foldedItems f)) boundaryTotal"
    "cellStart c = startRowOf (foldedFrame f)" "explReported (explanation c) = endRowOf (foldedFrame f)"
    "cellAccount c = frameAccount (foldedFrame f)" "cellUnitRef c = frameUnitRef (foldedFrame f)"
    "unknownRefs c = blockedRefs (foldedItems f)"
  using assms unfolding cellOf_def
  by (auto simp: Let_def split: Option.bind_splits prod.splits)


section \<open>The figure\<close>

text \<open>The row picked for a cell is in the unit of the cell, oriented without losing exactness.\<close>

lemma orient_exact [simp]:
  "unitRef (orient q sign) = unitRef q" "is_exact (orient q sign) \<longleftrightarrow> is_exact q"
  by (auto simp: orient_def is_exact_def split: ValueState.splits)

lemma checked_position:
  assumes "checkReportedSide s date code = None" and "p \<in> set (sidePositions s)" and "posInstrument p = Some u"
  shows "unitRef (posQuantity p) = u"
  using assms
  by (auto simp: checkReportedSide_def Let_def list_all_iff validReportedPosition_def split: if_splits)

lemma pickRow_row:
  assumes "pickRow balances positions = Start_row r"
  obtains b where "b \<in> set balances" "r = balanceRow b" | p where "p \<in> set positions" "r = positionRow p"
proof (cases positions)
  case Nil
  with assms have "balances \<noteq> []" by (auto simp: pickRow_def)
  with assms Nil obtain b bs where
    "filter (\<lambda>b. balKind b = Stock \<and> (balSign b = Asset_positive \<or> balSign b = Liability_positive)) balances = b # bs"
    and "r = balanceRow b"
    by (auto simp: pickRow_def split: list.splits if_splits)
  moreover from this(1) have "b \<in> set balances" by (auto simp: filter_eq_Cons_iff)
  ultimately show thesis using that by blast
next
  case (Cons p ps)
  with assms have "r = positionRow p" by (auto simp: pickRow_def split: list.splits if_splits)
  with Cons that show thesis by auto
qed

lemma pickSide_row:
  assumes "pickSide s account u = Start_row r" and "checkReportedSide s date code = None"
  shows "unitRef (startOriented r) = u" and "is_exact (startOriented r) \<longleftrightarrow> is_exact (startReported r)"
proof -
  from assms(1) have "unitRef (startOriented r) = u \<and> (is_exact (startOriented r) \<longleftrightarrow> is_exact (startReported r))"
    unfolding pickSide_def
  proof (rule pickRow_row)
    fix b assume "b \<in> set (filter (\<lambda>b. balAccount b = account \<and> unitRef (balQuantity b) = u) (sideBalances s))"
      "r = balanceRow b"
    then show ?thesis by (simp add: balanceRow_def)
  next
    fix p assume "p \<in> set (filter (\<lambda>p. posAccount p = account \<and> posInstrument p = Some u) (sidePositions s))"
      "r = positionRow p"
    then show ?thesis using checked_position [OF assms(2)] by (simp add: positionRow_def)
  qed
  then show "unitRef (startOriented r) = u" and "is_exact (startOriented r) \<longleftrightarrow> is_exact (startReported r)" by simp_all
qed

text \<open>A frame is either of a unit, with what the sides report, or an unidentified position.\<close>

lemma frame_cases:
  assumes "frame \<in> set (frames request policy start final views reach)"
  obtains u where "frameUnitRef frame = Some u" "frameUnit frame = u"
      "frameStart frame = pickSide start (frameAccount frame) u"
      "frameEnd frame = endOutcome (pickSide final (frameAccount frame) u)"
      "frameAccount frame \<in> set (reqAccounts request)"
    | "frameUnitRef frame = None" "frameStart frame = Start_gap Instrument_not_identified" "frameEnd frame = End_unusable"
      "frameAccount frame \<in> set (reqAccounts request)"
  using assms
  by (auto simp: frames_def accountFrames_def Let_def unitFrame_def unidentifiedFrames_def)

lemma pick_gap: "pickSide s account u = Start_gap g \<Longrightarrow> g \<in> set ABSENT_GAPS"
  by (auto simp: pickSide_def pickRow_def ABSENT_GAPS_def RECONSTRUCTION_GAPS_def SCOPE_GAPS_def
    split: list.splits if_splits)

lemma absent_gap_listed: "g \<in> set ABSENT_GAPS \<Longrightarrow> g \<in> set RECONSTRUCTION_GAPS"
  by (simp add: ABSENT_GAPS_def)

lemma sortedGaps_keep: "g \<in> set gaps \<Longrightarrow> g \<in> set RECONSTRUCTION_GAPS \<Longrightarrow> g \<in> set (sortedGaps gaps unknown)"
  by (simp add: sortedGaps_def)

lemma foundGaps_start: "set (startGaps frame) \<subseteq> set (foundGaps frame start selection reach items conflicted history)"
  by (auto simp: foundGaps_def)

lemma start_gap_absent:
  assumes "frame \<in> set (inFrames x)" and "g \<in> set (startGaps frame)"
  shows "g \<in> set ABSENT_GAPS"
proof -
  have listed: "Instrument_not_identified \<in> set ABSENT_GAPS" "Start_value_not_exact \<in> set ABSENT_GAPS"
    by (simp_all add: ABSENT_GAPS_def RECONSTRUCTION_GAPS_def SCOPE_GAPS_def)
  from assms(1) [unfolded inFrames_def] show ?thesis
  proof (rule frame_cases)
    fix u assume "frameStart frame = pickSide (inStart x) (frameAccount frame) u"
    with assms(2) listed show ?thesis
      by (auto simp: startGaps_def dest!: sym [of _ "pickSide _ _ _"] intro: pick_gap split: StartOutcome.splits if_splits)
  next
    assume "frameStart frame = Start_gap Instrument_not_identified"
    with assms(2) listed show ?thesis by (simp add: startGaps_def)
  qed
qed

text \<open>A total is the exact sum of signed legs of its unit.\<close>

definition signed_amount :: "ProvisionalLeg \<Rightarrow> rat" where
  "signed_amount l = (if provRole l = Decrease then - amount_value (provQuantity l) else amount_value (provQuantity l))"

lemma signed_exact:
  "unitRef (signed l) = unitRef (provQuantity l)" "is_exact (signed l) \<longleftrightarrow> is_exact (provQuantity l)"
  "is_exact (provQuantity l) \<Longrightarrow> amount_value (signed l) = signed_amount l"
  by (auto simp: signed_def is_exact_def signed_amount_def amount_value_def dec_value_negateDecimal split: ValueState.splits)

lemma sumQuantities_Inr:
  "sumQuantities u qs = Inr q \<longleftrightarrow> list_all (exact_in u) qs \<and> q = exactQuantity u (sumDecimals (concat (map exact_part qs)))"
  unfolding sumQuantities_total by (auto simp: list_all_iff exact_in_def)

lemma sumQuantities_amount:
  assumes "sumQuantities u qs = Inr q"
  shows "exact_in u q" and "amount_value q = sum_list (map amount_value qs)"
  using assms exact_parts [of u qs]
  by (auto simp: sumQuantities_Inr exact_in_def dec_value_sumDecimals)

lemma totalOf_amount:
  assumes "totalOf u views = Some q"
  shows "exact_in u q" and "amount_value q = sum_list (map (signed_amount \<circ> viewLeg) views)"
    and "v \<in> set views \<Longrightarrow> exact_in u (provQuantity (viewLeg v))"
proof -
  from assms have sum: "sumQuantities u (map (signed \<circ> viewLeg) views) = Inr q"
    by (simp add: totalOf_def split: sum.splits)
  then show "exact_in u q" by (rule sumQuantities_amount)
  from sum have exact: "list_all (exact_in u) (map (signed \<circ> viewLeg) views)" by (simp add: sumQuantities_Inr)
  then show "v \<in> set views \<Longrightarrow> exact_in u (provQuantity (viewLeg v))"
    by (auto simp: list_all_iff exact_in_def signed_exact)
  have "map amount_value (map (signed \<circ> viewLeg) views) = map (signed_amount \<circ> viewLeg) views"
    using exact by (auto simp: list_all_iff exact_in_def signed_exact)
  with sumQuantities_amount(2) [OF sum] show "amount_value q = sum_list (map (signed_amount \<circ> viewLeg) views)" by (simp only:)
qed


lemma figureOf_blocked:
  assumes "g \<in> set gaps" and "g \<in> set ABSENT_GAPS" and "figureOf frame gaps applied = Some q"
  shows "\<not> is_exact q"
proof -
  from assms(1,2) obtain h where "List.find (\<lambda>g. g \<in> set ABSENT_GAPS) gaps = Some h"
    by (cases "List.find (\<lambda>g. g \<in> set ABSENT_GAPS) gaps") (auto simp: find_None_iff)
  with assms(3) show ?thesis by (auto simp: figureOf_def absentQuantity_def is_exact_def)
qed

lemma figureOf_free:
  assumes "set gaps \<inter> set ABSENT_GAPS = {}" and "startRowOf frame = Some s" and "exact_in (frameUnit frame) (startOriented s)"
    and "exact_in (frameUnit frame) applied" and "figureOf frame gaps applied = Some q"
  shows "exact_in (frameUnit frame) q" and "amount_value q = amount_value (startOriented s) + amount_value applied"
proof -
  have none: "List.find (\<lambda>g. g \<in> set ABSENT_GAPS) gaps = None" using assms(1) by (auto simp: find_None_iff)
  obtain w where w: "sumQuantities (frameUnit frame) [startOriented s, applied] = Inr w"
    using assms(3,4) by (auto simp: sumQuantities_Inr)
  with none assms(2,5) have "w = q" by (simp add: figureOf_def)
  with sumQuantities_amount [OF w] show "exact_in (frameUnit frame) q"
    and "amount_value q = amount_value (startOriented s) + amount_value applied" by simp_all
qed

text \<open>A cell without a gap that blocks its figure has an exact start in its unit.\<close>

lemma free_cell_start:
  assumes "refusedInput x = None" and "frame \<in> set (inFrames x)" and "set (startGaps frame) = {}"
  obtains s u where "startRowOf frame = Some s" "frameUnitRef frame = Some u" "frameUnit frame = u" "exact_in u (startOriented s)"
proof -
  from assms(2) [unfolded inFrames_def] show thesis
  proof (rule frame_cases)
    fix u assume u: "frameUnitRef frame = Some u" "frameUnit frame = u" "frameStart frame = pickSide (inStart x) (frameAccount frame) u"
    from assms(3) obtain s where s: "frameStart frame = Start_row s" "is_exact (startReported s)"
      by (auto simp: startGaps_def split: StartOutcome.splits if_splits)
    with u pickSide_row [OF _ accepted_input(3) [OF assms(1)]] have "exact_in u (startOriented s)"
      by (auto simp: exact_in_def)
    with u(1,2) show thesis by (intro that) (simp_all add: startRowOf_def s(1))
  next
    assume "frameStart frame = Start_gap Instrument_not_identified"
    with assms(3) show thesis by (simp add: startGaps_def)
  qed
qed

lemma cell_figure:
  assumes "refusedInput x = None" and "frame \<in> set (inFrames x)" and "foldFrame x frame = Some f" and "cellOf x f = Some c"
  shows "is_exact (reconstructed c) \<longleftrightarrow> set (cellGaps c) \<inter> set ABSENT_GAPS = {}"
    and "is_exact (reconstructed c) \<Longrightarrow> \<exists>s u. cellStart c = Some s \<and> cellUnitRef c = Some u \<and> exact_in u (startOriented s) \<and>
      exact_in u (reconstructed c) \<and>
      amount_value (reconstructed c) = amount_value (startOriented s) + amount_value (componentTotal (cellApplied c))"
proof -
  note frame = foldFrame_Some(1) [OF assms(3)]
  obtain history appliedTotal where total: "totalOf (frameUnit frame) (viewsWith Applied (foldedItems f)) = Some appliedTotal"
    and gaps: "cellGaps c = sortedGaps (foundGaps frame (inStart x) (inSelection x) (inReach x) (foldedItems f)
       (foldedConflicts f) history) (blockedRefs (foldedItems f))"
    and figure: "figureOf frame (cellGaps c) appliedTotal = Some (reconstructed c)"
    and rest: "cellApplied c = componentOf (viewsWith Applied (foldedItems f)) appliedTotal"
      "cellStart c = startRowOf frame" "cellUnitRef c = frameUnitRef frame"
    using assms(4) unfolding frame [symmetric] by (rule cellOf_parts)
  have free: "set (startGaps frame) = {}" if none: "set (cellGaps c) \<inter> set ABSENT_GAPS = {}"
  proof -
    have "set (startGaps frame) \<subseteq> set (cellGaps c)"
      unfolding gaps using start_gap_absent [OF assms(2)] absent_gap_listed
        foundGaps_start [of frame "inStart x" "inSelection x" "inReach x" "foldedItems f" "foldedConflicts f" history]
      by (auto intro!: sortedGaps_keep)
    moreover have "set (startGaps frame) \<subseteq> set ABSENT_GAPS" using start_gap_absent [OF assms(2)] by (rule subsetI)
    ultimately show ?thesis using none by (metis Int_greatest subset_empty)
  qed
  have exact: "\<exists>s u. cellStart c = Some s \<and> cellUnitRef c = Some u \<and> exact_in u (startOriented s) \<and> exact_in u (reconstructed c) \<and>
      amount_value (reconstructed c) = amount_value (startOriented s) + amount_value (componentTotal (cellApplied c))"
    if none: "set (cellGaps c) \<inter> set ABSENT_GAPS = {}"
  proof -
    from free_cell_start [OF assms(1,2) free [OF none]] obtain s u where
      s: "startRowOf frame = Some s" "frameUnitRef frame = Some u" "frameUnit frame = u" "exact_in u (startOriented s)" .
    with figureOf_free [OF none s(1) _ totalOf_amount(1) [OF total] figure] rest show ?thesis
      by (simp add: componentOf_def)
  qed
  show iff: "is_exact (reconstructed c) \<longleftrightarrow> set (cellGaps c) \<inter> set ABSENT_GAPS = {}"
    using exact figureOf_blocked [OF _ _ figure] by (auto simp: exact_in_def)
  show "is_exact (reconstructed c) \<Longrightarrow> \<exists>s u. cellStart c = Some s \<and> cellUnitRef c = Some u \<and> exact_in u (startOriented s) \<and>
      exact_in u (reconstructed c) \<and>
      amount_value (reconstructed c) = amount_value (startOriented s) + amount_value (componentTotal (cellApplied c))"
    using exact iff by blast
qed

lemma figure_of_cell:
  assumes "reconstructState x = Some (Inr st)" and "c \<in> set (stateCells st)"
  shows "(is_exact (reconstructed c) \<longleftrightarrow> set (cellGaps c) \<inter> set ABSENT_GAPS = {}) \<and>
    (is_exact (reconstructed c) \<longrightarrow> (\<exists>s u. cellStart c = Some s \<and> cellUnitRef c = Some u \<and> exact_in u (startOriented s) \<and>
       exact_in u (reconstructed c) \<and>
       amount_value (reconstructed c) = amount_value (startOriented s) + amount_value (componentTotal (cellApplied c)))) \<and>
    (cellPartition c = Complete \<longleftrightarrow> cellGaps c = []) \<and>
    (cellPartition c = Partial_verified_scope \<longleftrightarrow> cellGaps c \<noteq> [] \<and> set (cellGaps c) \<subseteq> set SCOPE_GAPS)"
proof -
  obtain frame f where frame: "frame \<in> set (inFrames x)" "foldFrame x frame = Some f" "cellOf x f = Some c"
    using assms by (rule cell_origin)
  note figure = cell_figure [OF reconstructState_Inr(1) [OF assms(1)] frame]
  obtain gaps unknown where "cellGaps c = sortedGaps gaps unknown" and part: "cellPartition c = figurePartition (reconstructed c) (cellGaps c)"
    using frame(3) by (rule cellOf_parts)
  then have "set (cellGaps c) \<subseteq> set RECONSTRUCTION_GAPS" by (auto simp: sortedGaps_def Let_def)
  then have scope: "set (cellGaps c) \<inter> set ABSENT_GAPS = {} \<longleftrightarrow> set (cellGaps c) \<subseteq> set SCOPE_GAPS"
    by (auto simp: ABSENT_GAPS_def SCOPE_GAPS_def)
  show ?thesis
    using figure scope unfolding part figurePartition_def by (auto split: if_splits)
qed

end
