(* ===== verification/Knowledge_Cut_Contract.thy ===== *)
theory Knowledge_Cut_Contract
  imports Knowledge_Cut
begin

text \<open>
  What the knowledge selector promises: the walk finds exactly the references on a cycle of
  supersessions, the selection does not depend on the order of the rows and passes its own check, and
  at most one revision of an event is in force.
\<close>

section \<open>The walk against the transitive closure\<close>

definition link_rel :: "(string \<times> string) list \<Rightarrow> (string \<times> string) set" where
  "link_rel ls = {(a, b). successorOf ls a = Some b}"

lemma link_rel_iff [simp]: "(a, b) \<in> link_rel ls \<longleftrightarrow> successorOf ls a = Some b"
  by (simp add: link_rel_def)

text \<open>From a reference on a cycle every way leads back.\<close>

lemma cycle_returns:
  assumes "(x, x) \<in> (link_rel ls)\<^sup>+" and "(x, y) \<in> (link_rel ls)\<^sup>*"
  shows "(y, x) \<in> (link_rel ls)\<^sup>+"
  using assms(2)
proof (induction rule: rtrancl_induct)
  case (step y z)
  from step.IH obtain w where w: "(y, w) \<in> link_rel ls" "(w, x) \<in> (link_rel ls)\<^sup>*" by (meson tranclD)
  with step.hyps(2) have "w = z" by simp
  with w(2) assms(1) show ?case by (metis rtrancl_trancl_trancl)
qed (rule assms(1))

lemma closed_trancl:
  assumes "\<And>a b. a \<in> S \<Longrightarrow> (a, b) \<in> R \<Longrightarrow> b \<in> S" and "(x, y) \<in> R\<^sup>+" and "x \<in> S"
  shows "y \<in> S"
  using assms(2,3) by (induction rule: trancl_induct) (auto intro: assms(1))

definition chain :: "(string \<times> string) list \<Rightarrow> string list \<Rightarrow> bool" where
  "chain ls = successively (\<lambda>a b. successorOf ls a = Some b)"

lemma chain_reaches:
  assumes "chain ls (xs @ [y])" and "x \<in> set (xs @ [y])"
  shows "(x, y) \<in> (link_rel ls)\<^sup>*"
  using assms
proof (induction xs arbitrary: x)
  case (Cons a xs)
  show ?case
  proof (cases "x \<in> set (xs @ [y])")
    case True
    with Cons show ?thesis by (cases "xs @ [y]") (auto simp: chain_def)
  next
    case False
    with Cons.prems have x: "x = a" by auto
    obtain b where b: "successorOf ls a = Some b" "b \<in> set (xs @ [y])" "chain ls (xs @ [y])"
      using Cons.prems(1) by (cases "xs @ [y]") (auto simp: chain_def)
    then have "(b, y) \<in> (link_rel ls)\<^sup>*" using Cons.IH b(3) by blast
    with b(1) x show ?thesis by (auto intro: converse_rtrancl_into_rtrancl)
  qed
qed simp

text \<open>What the marks mean in a walk: finished references lead to finished ones only.\<close>

definition finished_closed :: "(string \<times> string) list \<Rightarrow> (string \<Rightarrow> WalkMark option) \<Rightarrow> bool" where
  "finished_closed ls marks \<longleftrightarrow>
     (\<forall>a b. marks a = Some Finished \<longrightarrow> successorOf ls a = Some b \<longrightarrow> marks b = Some Finished)"

definition walk_state :: "(string \<times> string) list \<Rightarrow> (string \<Rightarrow> WalkMark option) \<Rightarrow> string list \<Rightarrow> string option \<Rightarrow> bool" where
  "walk_state ls marks path cur \<longleftrightarrow>
     finished_closed ls marks \<and> (\<forall>k. marks k = Some Walking \<longleftrightarrow> k \<in> set path) \<and> distinct path \<and>
     chain ls path \<and> (path \<noteq> [] \<longrightarrow> successorOf ls (last path) = cur)"

definition walk_result ::
  "(string \<times> string) list \<Rightarrow> (string \<Rightarrow> WalkMark option) \<Rightarrow> string option \<Rightarrow>
   (string \<Rightarrow> WalkMark option) \<times> string list \<times> string list \<Rightarrow> bool"
where
  "walk_result ls marks cur = (\<lambda>(marks', path, cyc).
     (\<forall>k. marks' k = Some Finished \<longleftrightarrow> marks k = Some Finished) \<and> (\<forall>k. marks' k = Some Walking \<longleftrightarrow> k \<in> set path) \<and>
     (\<forall>a b. a \<in> set path \<longrightarrow> successorOf ls a = Some b \<longrightarrow> b \<in> set path \<or> marks b = Some Finished) \<and>
     (\<forall>c. cur = Some c \<longrightarrow> c \<in> set path \<or> marks c = Some Finished) \<and>
     (\<forall>x\<in>set path. x \<in> set cyc \<longleftrightarrow> (x, x) \<in> (link_rel ls)\<^sup>+) \<and> set cyc \<subseteq> set path)"

lemma chain_next:
  assumes "chain ls path" and "a \<in> set path" and "successorOf ls a = Some b"
  shows "b \<in> set path \<or> a = last path"
  using assms
proof (induction path)
  case (Cons x xs)
  then show ?case by (cases xs) (auto simp: chain_def)
qed simp

lemma chain_to_last:
  assumes "chain ls path" and "x \<in> set path"
  shows "(x, last path) \<in> (link_rel ls)\<^sup>*"
proof -
  from assms(2) obtain ys y where "path = ys @ [y]" by (cases path rule: rev_cases) auto
  with chain_reaches [of ls ys y x] assms show ?thesis by simp
qed

lemma walk_ends:
  assumes state: "walk_state ls marks path cur"
    and ends: "cur = None \<or> (\<exists>c. cur = Some c \<and> marks c = Some Finished)"
  shows "walk_result ls marks cur (marks, path, [])"
proof -
  have acyclic: "(x, x) \<notin> (link_rel ls)\<^sup>+" if x: "x \<in> set path" for x
  proof
    assume "(x, x) \<in> (link_rel ls)\<^sup>+"
    moreover have "(x, last path) \<in> (link_rel ls)\<^sup>*" using state x chain_to_last by (simp add: walk_state_def)
    ultimately have loop: "(last path, x) \<in> (link_rel ls)\<^sup>+" by (rule cycle_returns)
    then obtain c where c: "successorOf ls (last path) = Some c" "(c, x) \<in> (link_rel ls)\<^sup>*" by (auto dest: tranclD)
    with state x ends have "marks c = Some Finished" by (auto simp: walk_state_def)
    moreover have "marks x = Some Finished"
    proof (cases "c = x")
      case False
      with c(2) have "(c, x) \<in> (link_rel ls)\<^sup>+" by (auto dest: rtranclD)
      then have "x \<in> {k. marks k = Some Finished}"
        by (rule closed_trancl [rotated]) (use state calculation in \<open>auto simp: walk_state_def finished_closed_def\<close>)
      then show ?thesis by simp
    qed (use calculation in simp)
    moreover have "marks x = Some Walking" using state x by (simp add: walk_state_def)
    ultimately show False by simp
  qed
  have closed: "b \<in> set path \<or> marks b = Some Finished" if "a \<in> set path" "successorOf ls a = Some b" for a b
  proof (cases "b \<in> set path")
    case False
    with chain_next [of ls path a b] state that have "a = last path" by (simp add: walk_state_def)
    moreover have "path \<noteq> []" using that by auto
    ultimately have "cur = Some b" using state that(2) by (simp add: walk_state_def)
    with ends show ?thesis by auto
  qed simp
  show ?thesis
    unfolding walk_result_def prod.case
  proof (intro conjI)
    show "\<forall>k. (marks k = Some Walking) = (k \<in> set path)" using state by (simp add: walk_state_def)
    show "\<forall>a b. a \<in> set path \<longrightarrow> successorOf ls a = Some b \<longrightarrow> b \<in> set path \<or> marks b = Some Finished"
      using closed by blast
    show "\<forall>c. cur = Some c \<longrightarrow> c \<in> set path \<or> marks c = Some Finished" using ends by auto
    show "\<forall>x\<in>set path. x \<in> set [] \<longleftrightarrow> (x, x) \<in> (link_rel ls)\<^sup>+" using acyclic by simp
  qed simp_all
qed

lemma walk_closes:
  assumes state: "walk_state ls marks path (Some ref)" and "marks ref = Some Walking"
  shows "walk_result ls marks (Some ref) (marks, path, dropWhile (\<lambda>p. p \<noteq> ref) path)"
proof -
  let ?cyc = "dropWhile (\<lambda>p. p \<noteq> ref) path" and ?pre = "takeWhile (\<lambda>p. p \<noteq> ref) path"
  have ref: "ref \<in> set path" using assms by (simp add: walk_state_def)
  then obtain rest where cyc: "?cyc = ref # rest"
    by (metis (mono_tags, lifting) dropWhile_eq_Nil_conv hd_dropWhile list.collapse)
  have path: "path = ?pre @ ?cyc" by simp
  have last: "last ?cyc = last path" using cyc path by (metis last_appendR list.discI)
  have "chain ls (?pre @ ?cyc)" using state by (simp add: walk_state_def)
  then have chain: "chain ls ?cyc" unfolding chain_def successively_append_iff by simp
  have ends: "successorOf ls (last path) = Some ref" using state ref by (auto simp: walk_state_def)
  have onto: "(x, ref) \<in> (link_rel ls)\<^sup>+" if "x \<in> set path" for x
  proof -
    have "(x, last path) \<in> (link_rel ls)\<^sup>*" using state that chain_to_last by (simp add: walk_state_def)
    moreover have "(last path, ref) \<in> link_rel ls" using ends by simp
    ultimately show ?thesis by (rule rtrancl_into_trancl1)
  qed
  have inside: "b \<in> set ?cyc" if "a \<in> set ?cyc" "(a, b) \<in> link_rel ls" for a b
    using chain_next [OF chain, of a b] that ends last cyc by auto
  have exactly: "(x, x) \<in> (link_rel ls)\<^sup>+ \<longleftrightarrow> x \<in> set ?cyc" if x: "x \<in> set path" for x
  proof
    assume "(x, x) \<in> (link_rel ls)\<^sup>+"
    then have "(ref, x) \<in> (link_rel ls)\<^sup>+" using cycle_returns onto [OF x] by (metis trancl_into_rtrancl)
    moreover have "ref \<in> set ?cyc" by (simp only: cyc list.set_intros)
    ultimately show "x \<in> set ?cyc" using closed_trancl [of "set ?cyc" "link_rel ls" ref x] inside by blast
  next
    assume "x \<in> set ?cyc"
    then have "(ref, x) \<in> (link_rel ls)\<^sup>*"
      using chain unfolding cyc
    proof (induction rest arbitrary: x rule: rev_induct)
      case (snoc y ys)
      show ?case
      proof (cases "x = y")
        case True
        from snoc.prems(2) have "chain ls ((ref # ys) @ [y])" by simp
        with True show ?thesis using chain_reaches [of ls "ref # ys" y ref] by simp
      next
        case False
        from snoc.prems(2) have "chain ls ((ref # ys) @ [y])" by simp
        then have "chain ls (ref # ys)" by (simp only: chain_def successively_append_iff)
        with snoc.IH [of x] snoc.prems(1) False show ?thesis by simp
      qed
    qed simp
    with onto [OF x] show "(x, x) \<in> (link_rel ls)\<^sup>+" by (rule trancl_rtrancl_trancl)
  qed
  have closed: "b \<in> set path" if "a \<in> set path" "successorOf ls a = Some b" for a b
  proof (cases "a = last path")
    case True
    with that(2) ends ref show ?thesis by simp
  next
    case False
    with chain_next [of ls path a b] state that show ?thesis by (simp add: walk_state_def)
  qed
  show ?thesis
    unfolding walk_result_def prod.case
  proof (intro conjI)
    show "\<forall>k. (marks k = Some Walking) = (k \<in> set path)" using state by (simp add: walk_state_def)
    show "\<forall>a b. a \<in> set path \<longrightarrow> successorOf ls a = Some b \<longrightarrow> b \<in> set path \<or> marks b = Some Finished"
      using closed by blast
    show "\<forall>c. Some ref = Some c \<longrightarrow> c \<in> set path \<or> marks c = Some Finished" using ref by simp
    show "\<forall>x\<in>set path. x \<in> set ?cyc \<longleftrightarrow> (x, x) \<in> (link_rel ls)\<^sup>+" using exactly by blast
    show "set ?cyc \<subseteq> set path" using set_dropWhileD by fast
  qed simp
qed

lemma walk_continues:
  assumes "walk_state ls marks path (Some ref)" and "marks ref = None"
  shows "walk_state ls (marks(ref \<mapsto> Walking)) (path @ [ref]) (successorOf ls ref)"
proof -
  have "marks ref = Some Walking \<longleftrightarrow> ref \<in> set path" using assms(1) by (simp add: walk_state_def)
  then have "ref \<notin> set path" using assms(2) by simp
  moreover have "chain ls (path @ [ref])"
    using assms(1) by (cases "path = []") (auto simp: walk_state_def chain_def successively_append_iff)
  ultimately show ?thesis using assms by (auto simp: walk_state_def finished_closed_def)
qed

lemma walkFrom_grows: "set path \<subseteq> set (fst (snd (walkFrom ls marks path cur)))"
proof (induction ls marks path cur rule: walkFrom.induct)
  case (2 ls marks path ref)
  show ?case
  proof (cases "marks ref")
    case None
    with 2 [OF None] show ?thesis by (simp del: fun_upd_apply)
  next
    case (Some m)
    then show ?thesis by (cases m) simp_all
  qed
qed simp

lemma walkFrom_result:
  assumes "walk_state ls marks path cur"
  shows "walk_result ls marks cur (walkFrom ls marks path cur)"
  using assms
proof (induction ls marks path cur rule: walkFrom.induct)
  case (1 ls marks path)
  then show ?case using walk_ends by simp
next
  case (2 ls marks path ref)
  show ?case
  proof (cases "marks ref")
    case None
    obtain marks' path' cyc where run: "walkFrom ls (marks(ref \<mapsto> Walking)) (path @ [ref]) (successorOf ls ref) = (marks', path', cyc)"
      by (cases "walkFrom ls (marks(ref \<mapsto> Walking)) (path @ [ref]) (successorOf ls ref)")
    have res: "walk_result ls (marks(ref \<mapsto> Walking)) (successorOf ls ref) (marks', path', cyc)"
      using 2(1) [OF None walk_continues [OF 2(2) None]] run by (simp only:)
    have "ref \<in> set path'"
      using walkFrom_grows [of "path @ [ref]" ls "marks(ref \<mapsto> Walking)" "successorOf ls ref"]
      unfolding run by simp
    with res None run show ?thesis by (auto simp: walk_result_def split: if_splits)
  next
    case (Some m)
    then show ?thesis using 2(2) walk_ends [OF 2(2)] walk_closes [OF 2(2)] by (cases m) auto
  qed
qed

lemma cycleScan_exact:
  assumes "finished_closed ls marks" and "\<forall>k. marks k \<noteq> Some Walking"
  shows "set (cycleScan ls marks starts) \<subseteq> {x. (x, x) \<in> (link_rel ls)\<^sup>+} \<and>
    {x \<in> set starts. marks x \<noteq> Some Finished \<and> (x, x) \<in> (link_rel ls)\<^sup>+} \<subseteq> set (cycleScan ls marks starts)"
  using assms
proof (induction starts arbitrary: marks)
  case (Cons start starts)
  obtain marks' path cyc where run: "walkFrom ls marks [] (Some start) = (marks', path, cyc)"
    by (cases "walkFrom ls marks [] (Some start)")
  have "walk_state ls marks [] (Some start)" using Cons.prems by (simp add: walk_state_def chain_def)
  from walkFrom_result [OF this] run have res: "walk_result ls marks (Some start) (marks', path, cyc)" by simp
  let ?marks = "finishPath marks' path"
  have marks: "?marks k = Some Finished \<longleftrightarrow> k \<in> set path \<or> marks k = Some Finished" "?marks k \<noteq> Some Walking" for k
    using res by (auto simp: finishPath_def walk_result_def)
  have "finished_closed ls ?marks"
    unfolding finished_closed_def marks
  proof (intro allI impI)
    fix a b assume a: "a \<in> set path \<or> marks a = Some Finished" and b: "successorOf ls a = Some b"
    from a show "b \<in> set path \<or> marks b = Some Finished"
    proof
      assume "a \<in> set path"
      with res b show ?thesis unfolding walk_result_def prod.case by blast
    next
      assume "marks a = Some Finished"
      with Cons.prems(1) b show ?thesis unfolding finished_closed_def by blast
    qed
  qed
  then have IH: "set (cycleScan ls ?marks starts) \<subseteq> {x. (x, x) \<in> (link_rel ls)\<^sup>+}"
    "{x \<in> set starts. ?marks x \<noteq> Some Finished \<and> (x, x) \<in> (link_rel ls)\<^sup>+} \<subseteq> set (cycleScan ls ?marks starts)"
    using Cons.IH [of ?marks] marks(2) by blast+
  have path: "x \<in> set cyc \<longleftrightarrow> (x, x) \<in> (link_rel ls)\<^sup>+" if "x \<in> set path" for x
    using res that unfolding walk_result_def by blast
  have cyc: "set cyc \<subseteq> set path" "start \<in> set path \<or> marks start = Some Finished"
    using res unfolding walk_result_def by blast+
  have scan: "set (cycleScan ls marks (start # starts)) = set cyc \<union> set (cycleScan ls ?marks starts)"
    by (simp only: cycleScan.simps run prod.case set_append)
  show ?case
  proof (intro conjI subsetI)
    fix x assume "x \<in> set (cycleScan ls marks (start # starts))"
    then show "x \<in> {x. (x, x) \<in> (link_rel ls)\<^sup>+}" unfolding scan using IH(1) path cyc(1) by blast
  next
    fix x assume x: "x \<in> {x \<in> set (start # starts). marks x \<noteq> Some Finished \<and> (x, x) \<in> (link_rel ls)\<^sup>+}"
    show "x \<in> set (cycleScan ls marks (start # starts))"
    proof (cases "x \<in> set path")
      case True
      with x path show ?thesis unfolding scan by blast
    next
      case False
      with x cyc(2) have "x \<in> set starts" by auto
      with x False marks(1) IH(2) show ?thesis unfolding scan by blast
    qed
  qed
qed simp

lemma set_cycleRefs: "set (cycleRefs ls) = {x. (x, x) \<in> (link_rel ls)\<^sup>+}"
proof -
  have start: "finished_closed ls (\<lambda>_. None)" "\<forall>k. (\<lambda>_. None) k \<noteq> Some Walking" by (simp_all add: finished_closed_def)
  have "x \<in> set (map fst ls)" if "(x, x) \<in> (link_rel ls)\<^sup>+" for x
    using that successorOf_key by (auto dest!: tranclD simp del: set_map)
  with cycleScan_exact [OF start, of "map fst ls"] show ?thesis
    unfolding cycleRefs_def by (simp del: set_map) blast
qed

text \<open>
  Property C31: the walk finds exactly the cycles. The references the scan over all chains reports are those
  from which following supersessions leads back to them, each chain being walked once.
\<close>

theorem cycles_are_exact: "set (cycleRefs ls) = {x. (x, x) \<in> (link_rel ls)\<^sup>+}"
  by (rule set_cycleRefs)

section \<open>The order of the rows\<close>

lemma firstBadRow_None:
  "firstBadRow i seen rows = None \<longleftrightarrow>
     list_all validProvisionalEventRevision rows \<and> distinct (map refOf rows) \<and> set (map refOf rows) \<inter> set seen = {}"
  by (induction rows arbitrary: i seen) auto

lemma byRef_iff:
  assumes "distinct (map refOf rows)"
  shows "revisionByRef rows ref = Some r \<longleftrightarrow> r \<in> set rows \<and> refOf r = ref"
proof
  assume "revisionByRef rows ref = Some r"
  then show "r \<in> set rows \<and> refOf r = ref"
    unfolding revisionByRef_def by (metis (mono_tags, lifting) find_Some_iff nth_mem set_rev)
next
  assume r: "r \<in> set rows \<and> refOf r = ref"
  then obtain t where t: "revisionByRef rows ref = Some t"
    unfolding revisionByRef_def by (metis (mono_tags, lifting) find_None_iff not_None_eq set_rev)
  then have "t \<in> set rows" "refOf t = ref"
    unfolding revisionByRef_def by (metis (mono_tags, lifting) find_Some_iff nth_mem set_rev)+
  with r assms have "t = r" by (auto simp: distinct_map dest: inj_onD)
  with t show "revisionByRef rows ref = Some r" by simp
qed

lemma byRef_None:
  assumes "distinct (map refOf rows)"
  shows "revisionByRef rows ref = None \<longleftrightarrow> ref \<notin> refOf ` set rows"
proof (cases "revisionByRef rows ref")
  case None
  then have "\<not> (r \<in> set rows \<and> refOf r = ref)" for r using byRef_iff [OF assms, of ref r] by simp
  with None show ?thesis by auto
next
  case (Some r)
  with byRef_iff [OF assms, of ref r] show ?thesis by auto
qed

lemma set_successions:
  "set (successions rows kcut) =
     {(refOf r, refOf t) | r t bad. r \<in> set rows \<and> supersession rows kcut r = Superseded_by t bad}"
proof -
  have "(case supersession rows kcut r of Superseded_by t _ \<Rightarrow> Some (refOf r, refOf t) | _ \<Rightarrow> None) = Some p \<longleftrightarrow>
      (\<exists>t bad. supersession rows kcut r = Superseded_by t bad \<and> p = (refOf r, refOf t))" for r p
    by (cases "supersession rows kcut r") auto
  then show ?thesis unfolding successions_def set_map_filter by blast
qed

lemma successorOf_successions:
  assumes "distinct (map refOf rows)"
  shows "successorOf (successions rows kcut) ref = Some nxt \<longleftrightarrow>
    (\<exists>r\<in>set rows. refOf r = ref \<and> (\<exists>t bad. supersession rows kcut r = Superseded_by t bad \<and> refOf t = nxt))"
proof -
  let ?f = "\<lambda>r. case supersession rows kcut r of Superseded_by t _ \<Rightarrow> Some (refOf r, refOf t) | _ \<Rightarrow> None"
  have "map fst (successions rows kcut) = map refOf (filter (\<lambda>r. ?f r \<noteq> None) rows)"
    unfolding successions_def List.map_filter_def by (induction rows) (auto split: Supersession.splits)
  then have "distinct (map fst (successions rows kcut))" using assms by (simp add: distinct_map_filter)
  then have "successorOf (successions rows kcut) ref = Some nxt \<longleftrightarrow> (ref, nxt) \<in> set (successions rows kcut)"
    unfolding successorOf_def by (simp add: map_of_eq_Some_iff rev_map [symmetric])
  also have "\<dots> \<longleftrightarrow> (\<exists>r\<in>set rows. refOf r = ref \<and> (\<exists>t bad. supersession rows kcut r = Superseded_by t bad \<and> refOf t = nxt))"
    unfolding set_successions by blast
  finally show ?thesis .
qed

lemma supersession_perm:
  assumes "mset rows = mset rows'" and "distinct (map refOf rows)"
  shows "supersession rows = supersession rows'"
proof -
  have refs: "distinct (map refOf rows')" using assms by (metis mset_eq_imp_distinct_iff mset_map)
  have "revisionByRef rows ref = revisionByRef rows' ref" for ref
    using byRef_iff [OF assms(2), of ref] byRef_iff [OF refs, of ref] mset_eq_setD [OF assms(1)]
    by (metis not_Some_eq)
  then have look: "revisionByRef rows = revisionByRef rows'" by (rule ext)
  show ?thesis unfolding supersession_def [abs_def] look by (rule refl)
qed

lemma compareSelected_le:
  "compareSelected a b \<le> 0 \<longleftrightarrow> provEvent (selectedRow a) < provEvent (selectedRow b) \<or>
     provEvent (selectedRow a) = provEvent (selectedRow b) \<and> provRevision (selectedRow a) \<le> provRevision (selectedRow b)"
  by (cases "provEvent (selectedRow a)" "provEvent (selectedRow b)" rule: linorder_cases)
    (auto simp: compareSelected_def or_else_def compareText_def dest: less_not_sym)

interpretation selected_order: comparator compareSelected
proof
  fix x y z :: SelectedRevision
  show "0 < compareSelected x y \<Longrightarrow> compareSelected y x \<le> 0"
    using compareSelected_le [of x y] compareSelected_le [of y x]
      linorder_less_linear [of "provEvent (selectedRow x)" "provEvent (selectedRow y)"] by (auto simp: not_le [symmetric])
  show "compareSelected x y \<le> 0 \<Longrightarrow> compareSelected y z \<le> 0 \<Longrightarrow> compareSelected x z \<le> 0"
    unfolding compareSelected_le by (elim disjE conjE) (auto intro: less_trans)
qed

lemma compareSelected_antisym:
  "compareSelected a b \<le> 0 \<Longrightarrow> compareSelected b a \<le> 0 \<Longrightarrow> refOf (selectedRow a) = refOf (selectedRow b)"
  unfolding compareSelected_le refOf_def by (metis less_asym less_irrefl order_antisym)

lemma selectedRow_selectRow [simp]: "selectedRow (selectRow c kcut r) = r"
  by (simp add: selectRow_def Let_def split: option.split)

lemma eventsOf_set: "set (eventsOf rows refs) = {e. \<exists>ref\<in>set refs. \<exists>r. revisionByRef rows ref = Some r \<and> provEvent r = e}"
  by (auto simp: eventsOf_def set_map_filter)

text \<open>Everything the state of the chains is used for depends on the multiset of the rows only.\<close>

lemma chainState_perm:
  assumes "mset rows = mset rows'" and "distinct (map refOf rows)"
  shows "successorOf (chainLinks (chainState rows resolution kcut)) = successorOf (chainLinks (chainState rows' resolution kcut))"
    and "set (chainUnlogged (chainState rows resolution kcut)) = set (chainUnlogged (chainState rows' resolution kcut))"
    and "set (chainInconsistent (chainState rows resolution kcut)) = set (chainInconsistent (chainState rows' resolution kcut))"
proof -
  have refs: "distinct (map refOf rows')" using assms by (metis mset_eq_imp_distinct_iff mset_map)
  note same = supersession_perm [OF assms] mset_eq_setD [OF assms(1)]
  define L where "L = (if resolution = Full_chains then successions rows kcut else [])"
  define L' where "L' = (if resolution = Full_chains then successions rows' kcut else [])"
  have next_eq: "successorOf L = successorOf L'"
  proof (rule ext)
    fix ref show "successorOf L ref = successorOf L' ref"
      using successorOf_successions [OF assms(2), of kcut ref] successorOf_successions [OF refs, of kcut ref] same
      unfolding L_def L'_def by (cases "resolution = Full_chains"; simp) (metis not_Some_eq)
  qed
  have "revisionByRef rows ref = revisionByRef rows' ref" for ref
    using byRef_iff [OF assms(2), of ref] byRef_iff [OF refs, of ref] same(2) by (metis not_Some_eq)
  moreover have "link_rel L = link_rel L'" using next_eq by (simp add: link_rel_def)
  ultimately have cycles: "set (eventsOf rows (cycleRefs L)) = set (eventsOf rows' (cycleRefs L'))"
    by (simp add: eventsOf_set set_cycleRefs)
  have m: "mset (liveEvents rows kcut L) = mset (liveEvents rows' kcut L')"
    using assms(1) next_eq by (simp add: liveEvents_def)
  then have live: "set (liveEvents rows kcut L) = set (liveEvents rows' kcut L')" by (rule mset_eq_setD)
  have count: "count_list (liveEvents rows kcut L) = count_list (liveEvents rows' kcut L')"
    by (rule ext) (simp only: count_mset [symmetric] m)
  show "successorOf (chainLinks (chainState rows resolution kcut)) = successorOf (chainLinks (chainState rows' resolution kcut))"
    using next_eq by (simp add: chainState_def Let_def L_def L'_def)
  show "set (chainUnlogged (chainState rows resolution kcut)) = set (chainUnlogged (chainState rows' resolution kcut))"
    using same by (simp add: chainState_def Let_def unloggedBy_def [abs_def])
  show "set (chainInconsistent (chainState rows resolution kcut)) = set (chainInconsistent (chainState rows' resolution kcut))"
    using same cycles live count unfolding chainState_def Let_def L_def [symmetric] L'_def [symmetric]
    by (simp add: inconsistentBy_def [abs_def])
qed

lemma resolveRows_perm:
  assumes "mset rows = mset rows'" and "distinct (map refOf rows)"
  shows "resolveRows rows resolution kcut = resolveRows rows' resolution kcut"
proof -
  have same: "selectRow (chainState rows resolution kcut) kcut = selectRow (chainState rows' resolution kcut) kcut"
    using chainState_perm [OF assms, of resolution kcut] by (intro ext) (simp add: selectRow_def)
  have refs: "a = b" if "a \<in> set rows" "b \<in> set rows" "refOf a = refOf b" for a b
    using that assms(2) by (auto simp: distinct_map dest: inj_onD)
  show ?thesis
    unfolding resolveRows_def same
  proof (rule selected_order.js_sort_perm)
    fix a b :: SelectedRevision
    let ?sel = "selectRow (chainState rows' resolution kcut) kcut"
    assume a: "a \<in> set (map ?sel rows)" and b: "b \<in> set (map ?sel rows)"
      and le: "compareSelected a b \<le> 0" "compareSelected b a \<le> 0"
    from le have "refOf (selectedRow a) = refOf (selectedRow b)" by (rule compareSelected_antisym)
    moreover obtain r t where "r \<in> set rows" "a = ?sel r" "t \<in> set rows" "b = ?sel t" using a b by auto
    ultimately show "a = b" using refs [of r t] by simp
  qed (simp add: assms(1))
qed

lemma checkEventSet_None:
  "checkEventSet es = None \<longleftrightarrow>
     length (setRevisions es) \<le> 5000 \<and> sum_list (map (\<lambda>r. int (length (provLegs r))) (setRevisions es)) \<le> 20000 \<and>
     length (setFamilies es) \<le> 1000 \<and> length (setHistory es) \<le> 1000 \<and>
     setContract es = PROVISIONAL_EVENT_CONTRACT \<and> isText 256 (setVersion es) \<and> isText 256 (setAdapter es) \<and>
     length (setWriters es) \<le> 2 \<and> distinct (setWriters es) \<and> validPins (setPins es) \<and>
     list_all validFamilyCoverage (setFamilies es) \<and> list_all validHistoryCoverage (setHistory es) \<and>
     list_all validProvisionalEventRevision (setRevisions es) \<and> distinct (map refOf (setRevisions es))"
  by (simp add: checkEventSet_def Let_def firstBadRow_None RECONSTRUCTION_BUDGET_def flip: linorder_not_less) blast

lemma checkEventSet_perm:
  assumes "checkEventSet es = None" and "mset rows = mset (setRevisions es)"
  shows "checkEventSet (es\<lparr>setRevisions := rows\<rparr>) = None"
proof -
  have "length rows = length (setRevisions es)" using assms(2) by (rule mset_eq_length)
  moreover have "sum_list (map (\<lambda>r. int (length (provLegs r))) rows) = sum_list (map (\<lambda>r. int (length (provLegs r))) (setRevisions es))"
    unfolding sum_mset_sum_list [symmetric] mset_map assms(2) ..
  moreover have "distinct (map refOf rows) = distinct (map refOf (setRevisions es))"
    using assms(2) by (metis mset_eq_imp_distinct_iff mset_map)
  moreover have "list_all validProvisionalEventRevision rows = list_all validProvisionalEventRevision (setRevisions es)"
    using mset_eq_setD [OF assms(2)] by (simp add: list_all_iff)
  ultimately show ?thesis using assms(1) unfolding checkEventSet_None by simp
qed

lemma checkEventSet_refs: "checkEventSet es = None \<Longrightarrow> distinct (map refOf (setRevisions es))"
  by (simp add: checkEventSet_None)

lemma selectKnowledge_perm:
  assumes "checkEventSet es = None" and "mset rows = mset (setRevisions es)"
  shows "selectKnowledge (es\<lparr>setRevisions := rows\<rparr>) kcut = selectKnowledge es kcut"
proof -
  have refs: "distinct (map refOf rows)"
    using checkEventSet_refs [OF checkEventSet_perm [OF assms]] by simp
  note same = chainState_perm [OF assms(2) refs, of "setResolution es" kcut]
  have "sorted_set (chainInconsistent (chainState rows (setResolution es) kcut)) =
      sorted_set (chainInconsistent (chainState (setRevisions es) (setResolution es) kcut))"
    "sorted_set (chainUnlogged (chainState rows (setResolution es) kcut)) =
      sorted_set (chainUnlogged (chainState (setRevisions es) (setResolution es) kcut))"
    by (rule sorted_set_cong, rule same)+
  then show ?thesis
    using assms(1) checkEventSet_perm [OF assms] resolveRows_perm [OF assms(2) refs, of "setResolution es" kcut]
    by (simp add: selectKnowledge_def Let_def)
qed

text \<open>
  Property C28: the selection does not depend on the order in which the rows are listed: any permutation of
  the revisions of an accepted set gives the same selection, statuses, inconsistent events and contested
  claims included.
\<close>

theorem selection_order_free:
  assumes "checkEventSet es = None" and "mset rows = mset (setRevisions es)"
  shows "selectKnowledge (es\<lparr>setRevisions := rows\<rparr>) kcut = selectKnowledge es kcut"
  using assms by (rule selectKnowledge_perm)

section \<open>A selection passes its own check\<close>

lemma map_selectedRow_resolveRows:
  "mset (map selectedRow (resolveRows rows resolution kcut)) = mset rows"
  by (simp add: resolveRows_def mset_map multiset.map_comp comp_def)

lemma js_sort_idem:
  "js_sort (\<lambda>a b. compareText (f a) (f b)) (js_sort (\<lambda>a b. compareText (f a) (f b)) xs) =
   js_sort (\<lambda>a b. compareText (f a) (f b)) xs"
  if "inj f" for f :: "'a \<Rightarrow> 'b :: linorder"
proof (rule text_order.js_sort_perm)
  show "a = b" if "compareText (f a) (f b) \<le> 0" "compareText (f b) (f a) \<le> 0" for a b
    using that \<open>inj f\<close> by (auto dest: injD)
qed simp

lemma inj_writerText: "inj writerText"
proof (rule injI)
  fix a b show "writerText a = writerText b \<Longrightarrow> a = b" by (cases a; cases b) simp_all
qed

lemma validPins_sorted [simp]: "validPins (p\<lparr>policyRefs := sort (policyRefs p)\<rparr>) = validPins p"
  using length_js_set [of "sort (policyRefs p)"] length_js_set [of "policyRefs p"]
  by (simp add: validPins_def isRefList_def list_all_iff)

lemma selectKnowledge_Inr:
  assumes "selectKnowledge es kcut = Inr s"
  shows "checkEventSet es = None" and "validCut kcut" and "selCut s = kcut"
    and "selRevisions s = resolveRows (setRevisions es) (setResolution es) kcut"
    and "inconsistentEvents s = sorted_set (chainInconsistent (chainState (setRevisions es) (setResolution es) kcut))"
    and "unloggedEvents s = sorted_set (chainUnlogged (chainState (setRevisions es) (setResolution es) kcut))"
    and "setOfSelection s = es\<lparr>setWriters := js_sort (\<lambda>a b. compareText (writerText a) (writerText b)) (setWriters es),
      setPins := (setPins es)\<lparr>policyRefs := sort (policyRefs (setPins es))\<rparr>,
      setRevisions := map selectedRow (selRevisions s)\<rparr>"
  using assms by (auto simp: selectKnowledge_def Let_def setOfSelection_def checkEventSet_None split: option.splits if_splits)

lemma selection_checked:
  assumes "selectKnowledge es kcut = Inr s"
  shows "checkSelection s = None \<and> selectKnowledge (setOfSelection s) (selCut s) = Inr s"
proof -
  note s = selectKnowledge_Inr [OF assms]
  define es' where "es' = es\<lparr>setWriters := js_sort (\<lambda>a b. compareText (writerText a) (writerText b)) (setWriters es),
      setPins := (setPins es)\<lparr>policyRefs := sort (policyRefs (setPins es))\<rparr>\<rparr>"
  have writers: "distinct (js_sort (\<lambda>a b. compareText (writerText a) (writerText b)) (setWriters es)) = distinct (setWriters es)"
    using distinct_js_sort [of id] by simp
  have ok: "checkEventSet es' = None"
    using s(1) by (simp add: es'_def checkEventSet_None writers)
  have "selectKnowledge es' kcut = Inr s"
    using assms s(1,2) ok by (simp add: selectKnowledge_def Let_def es'_def js_sort_idem [OF inj_writerText] sorted_sort_id)
  moreover have "setOfSelection s = es'\<lparr>setRevisions := map selectedRow (selRevisions s)\<rparr>"
    by (simp add: s(7) es'_def)
  moreover have "mset (map selectedRow (selRevisions s)) = mset (setRevisions es')"
    unfolding s(4) by (simp only: map_selectedRow_resolveRows) (simp add: es'_def)
  ultimately have "selectKnowledge (setOfSelection s) kcut = Inr s"
    using selectKnowledge_perm [OF ok, of "map selectedRow (selRevisions s)" kcut] by simp
  then show ?thesis using s(3) by (simp add: checkSelection_def)
qed

text \<open>
  A selection passes the check made of it. Putting the set together again from the selection's
  own rows, which are sorted, and selecting anew gives the selection back, so every selection the selector
  makes is accepted where \<open>checkSelection\<close> guards the fold.
\<close>

theorem selection_passes_check:
  assumes "selectKnowledge es kcut = Inr s"
  shows "checkSelection s = None \<and> selectKnowledge (setOfSelection s) (selCut s) = Inr s"
  using assms by (rule selection_checked)

section \<open>What is in force\<close>

text \<open>The supersessions in force at a cut, and the events whose chain they leave undecided.\<close>

definition replaced_by ::
  "ProvisionalEventRevision list \<Rightarrow> ProvisionalKnowledgeCut \<Rightarrow> ProvisionalEventRevision \<Rightarrow> ProvisionalEventRevision \<Rightarrow> bool"
where
  "replaced_by rows kcut r t \<longleftrightarrow> r \<in> set rows \<and> t \<in> set rows \<and> committed kcut r \<and> committed kcut t \<and>
     supersededBy r = Some (refOf t)"

definition goes_back :: "ProvisionalEventRevision \<Rightarrow> ProvisionalEventRevision \<Rightarrow> bool" where
  "goes_back r t \<longleftrightarrow> provEvent t = provEvent r \<and> provRevision t \<le> provRevision r \<or> seqOf t < seqOf r"

definition in_force ::
  "ProvisionalResolution \<Rightarrow> ProvisionalEventRevision list \<Rightarrow> ProvisionalKnowledgeCut \<Rightarrow> ProvisionalEventRevision \<Rightarrow> bool"
where
  "in_force resolution rows kcut r \<longleftrightarrow> r \<in> set rows \<and> committed kcut r \<and>
     (resolution = Full_chains \<longrightarrow> (\<nexists>t. replaced_by rows kcut r t))"

definition chain_undecided ::
  "ProvisionalResolution \<Rightarrow> ProvisionalEventRevision list \<Rightarrow> ProvisionalKnowledgeCut \<Rightarrow> string \<Rightarrow> bool"
where
  "chain_undecided resolution rows kcut e \<longleftrightarrow>
     (resolution = Full_chains \<and>
        ((\<exists>r\<in>set rows. provEvent r = e \<and> committed kcut r \<and> supersededBy r \<noteq> None \<and>
            the (supersededBy r) \<notin> refOf ` set rows) \<or>
         (\<exists>r t. replaced_by rows kcut r t \<and> goes_back r t \<and> (e = provEvent r \<or> e = provEvent t)) \<or>
         (\<exists>r. (replaced_by rows kcut)\<^sup>+\<^sup>+ r r \<and> provEvent r = e))) \<or>
     (\<exists>r t. in_force resolution rows kcut r \<and> in_force resolution rows kcut t \<and> r \<noteq> t \<and>
        provEvent r = e \<and> provEvent t = e)"

lemma supersession_replaced:
  assumes "distinct (map refOf rows)" and "r \<in> set rows"
  shows "supersession rows kcut r = Superseded_by t bad \<longleftrightarrow>
      replaced_by rows kcut r t \<and> bad = (refOf t = refOf r \<or> goes_back r t)"
    and "supersession rows kcut r = Pointer_missing \<longleftrightarrow>
      committed kcut r \<and> supersededBy r \<noteq> None \<and> the (supersededBy r) \<notin> refOf ` set rows"
proof -
  have committed_logged: "committed kcut x \<Longrightarrow> logged kcut x" for x by (simp add: committed_def)
  have look: "revisionByRef rows ref = Some x \<longleftrightarrow> x \<in> set rows \<and> refOf x = ref" for ref x by (rule byRef_iff [OF assms(1)])
  show "supersession rows kcut r = Superseded_by t bad \<longleftrightarrow>
      replaced_by rows kcut r t \<and> bad = (refOf t = refOf r \<or> goes_back r t)"
  proof (cases "supersededBy r")
    case (Some ref)
    show ?thesis
    proof (cases "revisionByRef rows ref")
      case None
      with look [of ref t] Some show ?thesis by (auto simp: supersession_def replaced_by_def)
    next
      case (Some a)
      then have a: "(t \<in> set rows \<and> refOf t = ref) = (t = a)" "a \<in> set rows" "refOf a = ref"
        using look [of ref t] look [of ref a] by auto
      then have "replaced_by rows kcut r t \<longleftrightarrow> t = a \<and> committed kcut r \<and> committed kcut a"
        using \<open>supersededBy r = Some ref\<close> assms(2) by (auto simp: replaced_by_def)
      then show ?thesis
        using \<open>supersededBy r = Some ref\<close> \<open>revisionByRef rows ref = Some a\<close> committed_logged [of a]
        by (cases "committed kcut r"; cases "committed kcut a") (auto simp: supersession_def goes_back_def)
    qed
  qed (simp add: supersession_def replaced_by_def)
  show "supersession rows kcut r = Pointer_missing \<longleftrightarrow>
      committed kcut r \<and> supersededBy r \<noteq> None \<and> the (supersededBy r) \<notin> refOf ` set rows"
  proof (cases "supersededBy r")
    case (Some ref)
    then show ?thesis
      using byRef_None [OF assms(1), of ref] by (cases "revisionByRef rows ref") (auto simp: supersession_def)
  qed (simp add: supersession_def)
qed

lemma link_rel_successions:
  assumes "distinct (map refOf rows)"
  shows "(a, b) \<in> link_rel (successions rows kcut) \<longleftrightarrow> (\<exists>r t. replaced_by rows kcut r t \<and> refOf r = a \<and> refOf t = b)"
proof -
  have "r \<in> set rows \<Longrightarrow> (\<exists>bad. supersession rows kcut r = Superseded_by t bad) \<longleftrightarrow> replaced_by rows kcut r t" for r t
    using supersession_replaced(1) [OF assms] by blast
  then show ?thesis
    unfolding link_rel_iff successorOf_successions [OF assms] by (metis replaced_by_def)
qed

lemma same_ref: "distinct (map refOf rows) \<Longrightarrow> r \<in> set rows \<Longrightarrow> t \<in> set rows \<Longrightarrow> refOf r = refOf t \<Longrightarrow> r = t"
  by (auto simp: distinct_map dest: inj_onD)

lemma cycle_rows:
  assumes "distinct (map refOf rows)"
  shows "(a, a) \<in> (link_rel (successions rows kcut))\<^sup>+ \<longleftrightarrow> (\<exists>r. (replaced_by rows kcut)\<^sup>+\<^sup>+ r r \<and> refOf r = a)"
proof -
  let ?L = "link_rel (successions rows kcut)"
  have forth: "\<exists>r t. (replaced_by rows kcut)\<^sup>+\<^sup>+ r t \<and> refOf r = a \<and> refOf t = b \<and> r \<in> set rows \<and> t \<in> set rows"
    if "(a, b) \<in> ?L\<^sup>+" for a b
    using that
  proof (induction rule: trancl_induct)
    case (base y)
    then show ?case unfolding link_rel_successions [OF assms] by (auto simp: replaced_by_def)
  next
    case (step y z)
    then obtain r t u v where "(replaced_by rows kcut)\<^sup>+\<^sup>+ r t" "refOf r = a" "refOf t = y" "r \<in> set rows" "t \<in> set rows"
      and v: "replaced_by rows kcut u v" "refOf u = y" "refOf v = z"
      unfolding link_rel_successions [OF assms] by blast
    moreover from v have "u = t" using same_ref [OF assms, of u t] calculation by (simp add: replaced_by_def)
    ultimately show ?case using v(1) by (metis replaced_by_def tranclp.trancl_into_trancl)
  qed
  have onto: "(refOf r, refOf t) \<in> ?L\<^sup>+" if "(replaced_by rows kcut)\<^sup>+\<^sup>+ r t" for r t
    using that
  proof (induction rule: tranclp_induct)
    case (base y)
    then show ?case using link_rel_successions [OF assms] by blast
  next
    case (step y z)
    then have "(refOf y, refOf z) \<in> ?L" using link_rel_successions [OF assms] by blast
    with step.IH show ?case by (rule trancl_into_trancl)
  qed
  show ?thesis
  proof
    assume "(a, a) \<in> ?L\<^sup>+"
    from forth [OF this] obtain r t where "(replaced_by rows kcut)\<^sup>+\<^sup>+ r t" "refOf r = a" "refOf t = a" "r \<in> set rows" "t \<in> set rows"
      by blast
    moreover from this have "r = t" using same_ref [OF assms] by blast
    ultimately show "\<exists>r. (replaced_by rows kcut)\<^sup>+\<^sup>+ r r \<and> refOf r = a" by blast
  next
    assume "\<exists>r. (replaced_by rows kcut)\<^sup>+\<^sup>+ r r \<and> refOf r = a"
    with onto show "(a, a) \<in> ?L\<^sup>+" by blast
  qed
qed

lemma eventsOf_cycles:
  assumes "distinct (map refOf rows)"
  shows "set (eventsOf rows (cycleRefs (successions rows kcut))) =
    {e. \<exists>r. (replaced_by rows kcut)\<^sup>+\<^sup>+ r r \<and> provEvent r = e}"
proof -
  have member: "r \<in> set rows" if "(replaced_by rows kcut)\<^sup>+\<^sup>+ r r" for r
    using that by (auto simp: replaced_by_def dest: tranclpD)
  have row: "(refOf r, refOf r) \<in> (link_rel (successions rows kcut))\<^sup>+ \<longleftrightarrow> (replaced_by rows kcut)\<^sup>+\<^sup>+ r r"
    if "r \<in> set rows" for r
    unfolding cycle_rows [OF assms] using that member same_ref [OF assms] by metis
  show ?thesis
  proof (rule set_eqI)
    fix e
    have "e \<in> set (eventsOf rows (cycleRefs (successions rows kcut))) \<longleftrightarrow>
        (\<exists>r\<in>set rows. (refOf r, refOf r) \<in> (link_rel (successions rows kcut))\<^sup>+ \<and> provEvent r = e)"
      unfolding eventsOf_set set_cycleRefs mem_Collect_eq Bex_def byRef_iff [OF assms] by auto
    also have "\<dots> \<longleftrightarrow> (\<exists>r. (replaced_by rows kcut)\<^sup>+\<^sup>+ r r \<and> provEvent r = e)" using row member by blast
    finally show "e \<in> set (eventsOf rows (cycleRefs (successions rows kcut))) \<longleftrightarrow>
        e \<in> {e. \<exists>r. (replaced_by rows kcut)\<^sup>+\<^sup>+ r r \<and> provEvent r = e}" by simp
  qed
qed

lemma live_in_force:
  assumes "distinct (map refOf rows)" and "r \<in> set rows"
  shows "committed kcut r \<and> successorOf (chainLinks (chainState rows resolution kcut)) (refOf r) = None \<longleftrightarrow>
    in_force resolution rows kcut r"
proof (cases "resolution = Full_chains")
  case True
  have "successorOf (successions rows kcut) (refOf r) = None \<longleftrightarrow> (\<nexists>b. (refOf r, b) \<in> link_rel (successions rows kcut))"
    by (simp only: link_rel_iff) (metis not_Some_eq)
  also have "\<dots> \<longleftrightarrow> (\<nexists>t. replaced_by rows kcut r t)"
    unfolding link_rel_successions [OF assms(1)] using same_ref [OF assms(1) _ assms(2)] by (metis replaced_by_def)
  finally show ?thesis using True assms(2) by (simp add: chainState_def Let_def in_force_def)
next
  case False
  then show ?thesis using assms(2) by (simp add: chainState_def Let_def in_force_def successorOf_def)
qed

lemma several_live:
  assumes "distinct (map refOf rows)"
  shows "1 < count_list (liveEvents rows kcut (chainLinks (chainState rows resolution kcut))) e \<longleftrightarrow>
    (\<exists>r t. in_force resolution rows kcut r \<and> in_force resolution rows kcut t \<and> r \<noteq> t \<and> provEvent r = e \<and> provEvent t = e)"
proof -
  let ?live = "filter (\<lambda>r. in_force resolution rows kcut r \<and> provEvent r = e) rows"
  have "count_list (map provEvent (filter P rs)) e = length (filter (\<lambda>r. P r \<and> provEvent r = e) rs)" for P rs
    by (induction rs) auto
  moreover have "liveEvents rows kcut (chainLinks (chainState rows resolution kcut)) = map provEvent (filter (in_force resolution rows kcut) rows)"
    unfolding liveEvents_def using live_in_force [OF assms] by (auto intro!: arg_cong [where f = "map provEvent"] filter_cong)
  ultimately have "count_list (liveEvents rows kcut (chainLinks (chainState rows resolution kcut))) e = length ?live" by simp
  moreover have "distinct ?live" using assms by (simp add: distinct_map)
  ultimately show ?thesis using several_js_set [of ?live] by (auto simp: js_set_distinct in_force_def)
qed

lemma several_live_events:
  fixes res kcut
  assumes "distinct (map refOf rows)"
  defines "events \<equiv> liveEvents rows kcut (chainLinks (chainState rows res kcut))"
  shows "set (filter (\<lambda>e. 1 < count_list events e) (js_set events)) =
    {e. \<exists>r t. in_force res rows kcut r \<and> in_force res rows kcut t \<and> r \<noteq> t \<and> provEvent r = e \<and> provEvent t = e}"
proof -
  have "e \<in> set events" if "1 < count_list events e" for e
    using that by (metis count_list_0_iff not_less_zero)
  then show ?thesis using several_live [OF assms(1), of kcut res] unfolding events_def by auto
qed

lemma inconsistentBy_iff:
  assumes refs: "distinct (map refOf rows)" and r: "r \<in> set rows"
  shows "e \<in> set (inconsistentBy rows kcut r) \<longleftrightarrow>
    (provEvent r = e \<and> committed kcut r \<and> supersededBy r \<noteq> None \<and> the (supersededBy r) \<notin> refOf ` set rows) \<or>
    (\<exists>t. replaced_by rows kcut r t \<and> goes_back r t \<and> (e = provEvent r \<or> e = provEvent t))"
proof -
  have self: "refOf t = refOf r \<Longrightarrow> replaced_by rows kcut r t \<Longrightarrow> goes_back r t" for t
    using same_ref [OF refs, of t r] r by (auto simp: replaced_by_def goes_back_def)
  have "e \<in> set (inconsistentBy rows kcut r) \<longleftrightarrow> supersession rows kcut r = Pointer_missing \<and> e = provEvent r \<or>
      (\<exists>t. supersession rows kcut r = Superseded_by t True \<and> (e = provEvent r \<or> e = provEvent t))"
    by (cases "supersession rows kcut r") (auto simp: inconsistentBy_def)
  then show ?thesis unfolding supersession_replaced [OF refs r] using self by blast
qed

lemma inconsistentBy_events:
  assumes refs: "distinct (map refOf rows)"
  shows "e \<in> (\<Union>r\<in>set rows. set (inconsistentBy rows kcut r)) \<longleftrightarrow>
    (\<exists>r\<in>set rows. provEvent r = e \<and> committed kcut r \<and> supersededBy r \<noteq> None \<and> the (supersededBy r) \<notin> refOf ` set rows) \<or>
    (\<exists>r t. replaced_by rows kcut r t \<and> goes_back r t \<and> (e = provEvent r \<or> e = provEvent t))"
proof -
  have "r \<in> set rows" if "replaced_by rows kcut r t" for r t using that by (simp add: replaced_by_def)
  then have split: "(\<exists>r\<in>set rows. P r \<or> (\<exists>t. replaced_by rows kcut r t \<and> Q r t)) \<longleftrightarrow>
      (\<exists>r\<in>set rows. P r) \<or> (\<exists>r t. replaced_by rows kcut r t \<and> Q r t)" for P Q by blast
  show ?thesis unfolding UN_iff split [symmetric] by (rule bex_cong [OF refl inconsistentBy_iff [OF refs]])
qed

lemma inconsistent_events:
  assumes "selectKnowledge es kcut = Inr s"
  shows "set (inconsistentEvents s) = Collect (chain_undecided (setResolution es) (setRevisions es) kcut)"
proof -
  let ?rows = "setRevisions es" and ?res = "setResolution es"
  note s = selectKnowledge_Inr [OF assms]
  have refs: "distinct (map refOf ?rows)" using s(1) by (rule checkEventSet_refs)
  let ?live = "liveEvents ?rows kcut (chainLinks (chainState ?rows ?res kcut))"
  let ?several = "filter (\<lambda>e. 1 < count_list ?live e) (js_set ?live)"
  note live = several_live_events [OF refs, of kcut ?res]
  show ?thesis
  proof (cases "?res = Full_chains")
    case True
    have "chainInconsistent (chainState ?rows ?res kcut) =
        (concat (map (inconsistentBy ?rows kcut) ?rows) @ eventsOf ?rows (cycleRefs (successions ?rows kcut))) @ ?several"
      using True by (simp add: chainState_def Let_def)
    then have "set (inconsistentEvents s) = (\<Union>r\<in>set ?rows. set (inconsistentBy ?rows kcut r)) \<union>
        {e. \<exists>r. (replaced_by ?rows kcut)\<^sup>+\<^sup>+ r r \<and> provEvent r = e} \<union>
        {e. \<exists>r t. in_force ?res ?rows kcut r \<and> in_force ?res ?rows kcut t \<and> r \<noteq> t \<and> provEvent r = e \<and> provEvent t = e}"
      unfolding s(5) set_sorted_set by (simp only: set_append set_concat set_map eventsOf_cycles [OF refs] live image_image)
    also have "\<dots> = Collect (chain_undecided ?res ?rows kcut)"
      unfolding chain_undecided_def set_eq_iff Un_iff mem_Collect_eq inconsistentBy_events [OF refs]
      using True by (simp only: simp_thms) (simp only: disj_assoc simp_thms)
    finally show ?thesis .
  next
    case False
    then have "chainInconsistent (chainState ?rows ?res kcut) = ?several" by (simp add: chainState_def Let_def)
    then have "set (inconsistentEvents s) =
        {e. \<exists>r t. in_force ?res ?rows kcut r \<and> in_force ?res ?rows kcut t \<and> r \<noteq> t \<and> provEvent r = e \<and> provEvent t = e}"
      unfolding s(5) set_sorted_set by (simp only: live)
    also have "\<dots> = Collect (chain_undecided ?res ?rows kcut)" unfolding chain_undecided_def using False by simp
    finally show ?thesis .
  qed
qed

text \<open>
  Property C30: which events are reported as inconsistent. With whole chains an event is inconsistent
  exactly when a committed revision of it points to a revision that is not there, when a supersession in
  force goes back (to an earlier revision of the event or an earlier commit; both events are then
  inconsistent), when it is on a cycle of supersessions, or when two of its revisions are in force.
\<close>

theorem inconsistent_exactly:
  assumes "selectKnowledge es kcut = Inr s"
  shows "set (inconsistentEvents s) = Collect (chain_undecided (setResolution es) (setRevisions es) kcut)"
  using assms by (rule inconsistent_events)

lemma activeRows_set:
  assumes "selectKnowledge es kcut = Inr s"
  shows "set (activeRows (selRevisions s)) =
      {r. in_force (setResolution es) (setRevisions es) kcut r \<and> provEvent r \<notin> set (unloggedEvents s) \<and>
        provEvent r \<notin> set (inconsistentEvents s)}"
proof -
  let ?rows = "setRevisions es" and ?res = "setResolution es"
  let ?c = "chainState ?rows ?res kcut"
  note s = selectKnowledge_Inr [OF assms]
  have refs: "distinct (map refOf ?rows)" using s(1) by (rule checkEventSet_refs)
  have active: "selectedStatus (selectRow ?c kcut r) = Active \<longleftrightarrow> committed kcut r \<and> successorOf (chainLinks ?c) (refOf r) = None \<and>
      provEvent r \<notin> set (chainUnlogged ?c) \<and> provEvent r \<notin> set (chainInconsistent ?c)" for r
    by (auto simp: selectRow_def Let_def committed_def split: option.split)
  have rows: "set (activeRows (selRevisions s)) = {r \<in> set ?rows. selectedStatus (selectRow ?c kcut r) = Active}"
    unfolding activeRows_def s(4) resolveRows_def by force
  have sets: "set (unloggedEvents s) = set (chainUnlogged ?c)" "set (inconsistentEvents s) = set (chainInconsistent ?c)"
    by (simp_all add: s(5,6))
  have "r \<in> set ?rows" if "in_force ?res ?rows kcut r" for r using that by (simp add: in_force_def)
  then show ?thesis unfolding rows active sets using live_in_force [OF refs, of _ kcut ?res] by blast
qed

text \<open>
  Property C29: at most one revision of an event is in force. The selection lists every row of the set once,
  and its active rows are exactly those committed at the cut with no successor committed at it whose
  event is neither undated in the history nor inconsistent; no two of them belong to one event.
\<close>

theorem one_active_revision:
  assumes "selectKnowledge es kcut = Inr s"
  shows "mset (map selectedRow (selRevisions s)) = mset (setRevisions es) \<and>
    distinct (map provEvent (activeRows (selRevisions s))) \<and>
    set (activeRows (selRevisions s)) =
      {r. in_force (setResolution es) (setRevisions es) kcut r \<and> provEvent r \<notin> set (unloggedEvents s) \<and>
        provEvent r \<notin> set (inconsistentEvents s)}"
proof -
  note s = selectKnowledge_Inr [OF assms] and active = activeRows_set [OF assms]
  have rows: "mset (map selectedRow (selRevisions s)) = mset (setRevisions es)"
    unfolding s(4) by (rule map_selectedRow_resolveRows)
  have "distinct (setRevisions es)" using checkEventSet_refs [OF s(1)] by (simp add: distinct_map)
  then have "distinct (map selectedRow (selRevisions s))" using mset_eq_imp_distinct_iff [OF rows] by simp
  then have "distinct (activeRows (selRevisions s))" unfolding activeRows_def by (rule distinct_map_filter)
  moreover have "inj_on provEvent (set (activeRows (selRevisions s)))"
  proof (rule inj_onI, rule ccontr)
    fix r t assume r: "r \<in> set (activeRows (selRevisions s))" "t \<in> set (activeRows (selRevisions s))"
      and "provEvent r = provEvent t" "r \<noteq> t"
    then have "chain_undecided (setResolution es) (setRevisions es) kcut (provEvent r)"
      unfolding active chain_undecided_def by auto
    then have "provEvent r \<in> set (inconsistentEvents s)" using inconsistent_events [OF assms] by simp
    with r(1) show False unfolding active by simp
  qed
  ultimately show ?thesis using rows active by (simp add: distinct_map)
qed

lemma unlogged_grows:
  assumes "selectKnowledge es k1 = Inr b" and "selectKnowledge es k2 = Inr n"
    and "coreEpoch k1 = coreEpoch k2" and "commitSeq k1 \<le> commitSeq k2"
  shows "set (unloggedEvents b) \<subseteq> set (unloggedEvents n)"
proof -
  have logged: "logged k1 r = logged k2 r" for r using assms(3) by (simp add: logged_def split: option.split)
  have "committed k1 r \<Longrightarrow> committed k2 r" for r using assms(4) logged by (auto simp: committed_def)
  then have "supersession rows k1 r = Successor_unlogged \<Longrightarrow> supersession rows k2 r = Successor_unlogged" for rows r
    using logged by (auto simp: supersession_def split: option.splits if_splits)
  then have "set (unloggedBy rows k1 r) \<subseteq> set (unloggedBy rows k2 r)" for rows r
    by (auto simp: unloggedBy_def split: Supersession.splits)
  then show ?thesis
    unfolding selectKnowledge_Inr(6) [OF assms(1)] selectKnowledge_Inr(6) [OF assms(2)] set_sorted_set
    by (auto simp: chainState_def Let_def logged)
qed

lemma selection_same_set:
  assumes "selectKnowledge es k1 = Inr b" and "selectKnowledge es k2 = Inr n"
    and "coreEpoch k1 = coreEpoch k2" and "commitSeq k1 \<le> commitSeq k2"
  shows "explainLate b n = Inr \<lparr>lateBaseline = k1, lateCut = k2,
     lateEntered = sort (filter (\<lambda>ref. ref \<notin> set (activeRefs b)) (activeRefs n)),
     lateLeft = sort (filter (\<lambda>ref. ref \<notin> set (activeRefs n)) (activeRefs b))\<rparr>"
proof -
  have "checkSelection b = None" "checkSelection n = None"
    using selection_checked [OF assms(1)] selection_checked [OF assms(2)] by simp_all
  moreover have "selContract b = selContract n" "selResolution b = selResolution n" "selAdapter b = selAdapter n"
    "selVersion b = selVersion n" "selCut b = k1" "selCut n = k2"
    using assms(1,2) by (auto simp: selectKnowledge_def Let_def split: option.splits if_splits)
  ultimately show ?thesis using assms(3,4) by (simp add: explainLate_def lateUnchecked_def Let_def)
qed

lemma cut_grows:
  assumes "coreEpoch k1 = coreEpoch k2" and "commitSeq k1 \<le> commitSeq k2"
  shows "committed k1 r \<Longrightarrow> committed k2 r"
    and "committed k2 r \<Longrightarrow> \<not> committed k1 r \<Longrightarrow> commitSeq k1 < seqOf r"
proof -
  have "logged k1 r = logged k2 r" using assms(1) by (simp add: logged_def split: option.split)
  then show "committed k1 r \<Longrightarrow> committed k2 r"
    and "committed k2 r \<Longrightarrow> \<not> committed k1 r \<Longrightarrow> commitSeq k1 < seqOf r"
    using assms(2) by (auto simp: committed_def)
qed

lemma entered_reason:
  assumes "selectKnowledge es k1 = Inr b" and "selectKnowledge es k2 = Inr n"
    and "coreEpoch k1 = coreEpoch k2" and "commitSeq k1 \<le> commitSeq k2"
    and r: "r \<in> set (activeRows (selRevisions n)) - set (activeRows (selRevisions b))"
  shows "commitSeq k1 < seqOf r \<or> provEvent r \<in> set (inconsistentEvents b)"
proof (cases "committed k1 r")
  note nb = activeRows_set [OF assms(1)] activeRows_set [OF assms(2)]
  case True
  then have "in_force (setResolution es) (setRevisions es) k1 r"
    using r cut_grows(1) [OF assms(3,4)] unfolding nb by (auto simp: in_force_def replaced_by_def)
  moreover have "provEvent r \<notin> set (unloggedEvents b)" using r unlogged_grows [OF assms(1-4)] unfolding nb by blast
  ultimately show ?thesis using r unfolding nb by blast
next
  case False
  with r cut_grows(2) [OF assms(3,4), of r] show ?thesis
    unfolding activeRows_set [OF assms(2)] by (simp add: in_force_def)
qed

lemma left_reason:
  assumes "selectKnowledge es k1 = Inr b" and "selectKnowledge es k2 = Inr n"
    and "coreEpoch k1 = coreEpoch k2" and "commitSeq k1 \<le> commitSeq k2"
    and r: "r \<in> set (activeRows (selRevisions b)) - set (activeRows (selRevisions n))"
  shows "(\<exists>t. replaced_by (setRevisions es) k2 r t \<and> commitSeq k1 < seqOf t) \<or>
    provEvent r \<in> set (inconsistentEvents n) \<or> provEvent r \<in> set (unloggedEvents n)"
proof (cases "in_force (setResolution es) (setRevisions es) k2 r")
  case True
  with r show ?thesis unfolding activeRows_set [OF assms(1)] activeRows_set [OF assms(2)] by blast
next
  case False
  have force: "in_force (setResolution es) (setRevisions es) k1 r" using r unfolding activeRows_set [OF assms(1)] by simp
  with False cut_grows(1) [OF assms(3,4)] obtain t
    where t: "setResolution es = Full_chains" "replaced_by (setRevisions es) k2 r t" by (auto simp: in_force_def)
  with force have "\<not> committed k1 t" by (auto simp: in_force_def replaced_by_def)
  with t(2) cut_grows(2) [OF assms(3,4)] show ?thesis by (auto simp: replaced_by_def)
qed

text \<open>
  Property C32: what changed between two cuts of one set is explained. The references that entered or left
  are exactly the difference of what is in force, sorted and without repetition; a revision that entered
  was committed after the first cut or its event was inconsistent at it, and one that left was replaced by
  a revision committed after the first cut, or its event is inconsistent or undated at the second.
\<close>

theorem late_changes_explained:
  assumes "selectKnowledge es k1 = Inr b" and "selectKnowledge es k2 = Inr n"
    and "coreEpoch k1 = coreEpoch k2" and "commitSeq k1 \<le> commitSeq k2"
  shows "\<exists>l. explainLate b n = Inr l \<and> sorted_wrt (<) (lateEntered l) \<and> sorted_wrt (<) (lateLeft l) \<and>
    set (lateEntered l) = refOf ` (set (activeRows (selRevisions n)) - set (activeRows (selRevisions b))) \<and>
    set (lateLeft l) = refOf ` (set (activeRows (selRevisions b)) - set (activeRows (selRevisions n))) \<and>
    (\<forall>r\<in>set (activeRows (selRevisions n)) - set (activeRows (selRevisions b)).
       commitSeq k1 < seqOf r \<or> provEvent r \<in> set (inconsistentEvents b)) \<and>
    (\<forall>r\<in>set (activeRows (selRevisions b)) - set (activeRows (selRevisions n)).
       (\<exists>t. replaced_by (setRevisions es) k2 r t \<and> commitSeq k1 < seqOf t) \<or>
       provEvent r \<in> set (inconsistentEvents n) \<or> provEvent r \<in> set (unloggedEvents n))"
proof -
  let ?rows = "setRevisions es" and ?res = "setResolution es"
  note nb = activeRows_set [OF assms(1)] activeRows_set [OF assms(2)]
  have refs: "distinct (map refOf ?rows)"
    using selectKnowledge_Inr(1) [OF assms(1)] by (rule checkEventSet_refs)
  have inside: "r \<in> set ?rows" if "r \<in> set (activeRows (selRevisions b)) \<or> r \<in> set (activeRows (selRevisions n))" for r
    using that unfolding nb by (auto simp: in_force_def)
  have sets: "set (activeRefs x) = refOf ` set (activeRows (selRevisions x))" for x by (simp add: activeRefs_def)
  have sub: "set (activeRows (selRevisions b)) \<subseteq> set ?rows" "set (activeRows (selRevisions n)) \<subseteq> set ?rows" using inside by auto
  have diff: "refOf ` (A - B) = refOf ` A - refOf ` B" if "A \<subseteq> set ?rows" "B \<subseteq> set ?rows" for A B
    using that refs by (intro inj_on_image_set_diff [of refOf "set ?rows"]) (auto simp: distinct_map)
  show ?thesis
  proof (intro exI conjI)
    show "explainLate b n = Inr \<lparr>lateBaseline = k1, lateCut = k2,
       lateEntered = sort (filter (\<lambda>ref. ref \<notin> set (activeRefs b)) (activeRefs n)),
       lateLeft = sort (filter (\<lambda>ref. ref \<notin> set (activeRefs n)) (activeRefs b))\<rparr>"
      by (rule selection_same_set [OF assms])
    show "\<forall>r\<in>set (activeRows (selRevisions n)) - set (activeRows (selRevisions b)).
       commitSeq k1 < seqOf r \<or> provEvent r \<in> set (inconsistentEvents b)" using entered_reason [OF assms] by blast
    show "\<forall>r\<in>set (activeRows (selRevisions b)) - set (activeRows (selRevisions n)).
       (\<exists>t. replaced_by (setRevisions es) k2 r t \<and> commitSeq k1 < seqOf t) \<or>
       provEvent r \<in> set (inconsistentEvents n) \<or> provEvent r \<in> set (unloggedEvents n)" using left_reason [OF assms] by blast
  qed (auto simp: sets diff [OF sub] diff [OF sub(2,1)] strict_sorted_iff activeRefs_def)
qed

section \<open>Examples\<close>

text \<open>A purchase posted at commit 5 and corrected at commit 9.\<close>

definition ex_row :: "int \<Rightarrow> int \<Rightarrow> string option \<Rightarrow> ProvisionalEventRevision" where
  "ex_row n seq successor = \<lparr>provEvent = ''event:1'', provRevision = n, provKind = Purchase_kind, provState = Captured,
     provUnknownReason = None, provTimes = [], commitRef = Some \<lparr>coreEpoch = ''epoch:1'', commitSeq = seq\<rparr>,
     provRecordedAt = ''2024-01-05T00:00:00Z'', supersededBy = successor, provLegs = [], evidenceIds = [''obs:1''],
     provClaims = [], provFlags = []\<rparr>"

definition ex_set :: ProvisionalAdoptedEventSet where
  "ex_set = \<lparr>setContract = PROVISIONAL_EVENT_CONTRACT, setResolution = Full_chains, setVersion = ''v1'', setAdapter = ''a1'',
     setWriters = [Card_purchase_recognition_v1], setPins = \<lparr>identityRelease = ''i1'', evidenceAliasRelease = ''e1'',
       coverageRelease = ''c1'', fxReferenceRef = None, policyRefs = []\<rparr>,
     setRevisions = [ex_row 2 9 None, ex_row 1 5 (Some ''event:1@2'')], setFamilies = [], setHistory = []\<rparr>"

definition ex_cut :: "int \<Rightarrow> ProvisionalKnowledgeCut" where
  "ex_cut seq = \<lparr>coreEpoch = ''epoch:1'', commitSeq = seq\<rparr>"

definition statusesOf :: "ReconstructionError + KnowledgeSelection \<Rightarrow> (string \<times> SelectionStatus) list" where
  "statusesOf r = (case r of Inl _ \<Rightarrow> [] | Inr s \<Rightarrow>
     map (\<lambda>x. (refOf (selectedRow x), selectedStatus x)) (selRevisions s))"

lemma ex_row_valid:
  assumes "isSafeIntFrom 1 n" "isSafeIntFrom 0 seq" "case successor of None \<Rightarrow> True | Some s \<Rightarrow> isText 512 s \<and> eventRefText s"
  shows "validProvisionalEventRevision (ex_row n seq successor)"
proof -
  have "isText 256 ''event:1''" "CHR ''@'' \<notin> set ''event:1''" "isText 64 ''epoch:1''" "isRefList 64 [''obs:1'']"
    "validInstantText ''2024-01-05T00:00:00Z''" "validStatePair (EVENT_STATE_FAMILIES Purchase_kind) Unknown_state Captured None"
    by code_simp+
  with assms show ?thesis by (simp add: validProvisionalEventRevision_def ex_row_def validCut_def)
qed

lemma ex_set_checked: "checkEventSet ex_set = None"
proof -
  have "isText 512 ''event:1@2''" "eventRefText ''event:1@2''" "isSafeIntFrom 1 1" "isSafeIntFrom 1 2" "isSafeIntFrom 0 5" "isSafeIntFrom 0 9"
    by code_simp+
  then have rows: "validProvisionalEventRevision (ex_row 2 9 None)" "validProvisionalEventRevision (ex_row 1 5 (Some ''event:1@2''))"
    by (auto intro!: ex_row_valid)
  have refs: "refOf (ex_row 2 9 None) = ''event:1@2''" "refOf (ex_row 1 5 (Some ''event:1@2'')) = ''event:1@1''" by code_simp+
  have legs: "provLegs (ex_row n seq s) = []" for n seq s by (simp add: ex_row_def)
  have rest: "isText 256 ''v1''" "isText 256 ''a1''" "validPins (setPins ex_set)" by code_simp+
  show ?thesis using rows refs rest by (simp add: checkEventSet_def ex_set_def legs RECONSTRUCTION_BUDGET_def)
qed

lemma ex_statuses:
  "statusesOf (selectKnowledge ex_set (ex_cut 6)) = [(''event:1@1'', Active), (''event:1@2'', Recorded_after_cut)]"
  "statusesOf (selectKnowledge ex_set (ex_cut 10)) = [(''event:1@1'', Superseded_at_cut), (''event:1@2'', Active)]"
proof -
  have "validCut (ex_cut 6)" "validCut (ex_cut 10)" by code_simp+
  moreover have "map (\<lambda>x. (refOf (selectedRow x), selectedStatus x)) (resolveRows (setRevisions ex_set) (setResolution ex_set) (ex_cut 6)) =
      [(''event:1@1'', Active), (''event:1@2'', Recorded_after_cut)]" by code_simp
  moreover have "map (\<lambda>x. (refOf (selectedRow x), selectedStatus x)) (resolveRows (setRevisions ex_set) (setResolution ex_set) (ex_cut 10)) =
      [(''event:1@1'', Superseded_at_cut), (''event:1@2'', Active)]" by code_simp
  ultimately show "statusesOf (selectKnowledge ex_set (ex_cut 6)) = [(''event:1@1'', Active), (''event:1@2'', Recorded_after_cut)]"
    "statusesOf (selectKnowledge ex_set (ex_cut 10)) = [(''event:1@1'', Superseded_at_cut), (''event:1@2'', Active)]"
    by (simp_all add: statusesOf_def selectKnowledge_def ex_set_checked Let_def)
qed

lemma ex_selected:
  obtains b n where "selectKnowledge ex_set (ex_cut 6) = Inr b" "selectKnowledge ex_set (ex_cut 10) = Inr n"
    "map refOf (activeRows (selRevisions b)) = [''event:1@1'']" "map refOf (activeRows (selRevisions n)) = [''event:1@2'']"
proof -
  have pick: "map refOf (activeRows sel) = map fst (filter (\<lambda>p. snd p = Active) (map (\<lambda>x. (refOf (selectedRow x), selectedStatus x)) sel))" for sel
    by (induction sel) (simp_all add: activeRows_def)
  obtain b n where "selectKnowledge ex_set (ex_cut 6) = Inr b" "selectKnowledge ex_set (ex_cut 10) = Inr n"
    using ex_statuses by (cases "selectKnowledge ex_set (ex_cut 6)"; cases "selectKnowledge ex_set (ex_cut 10)")
      (simp_all add: statusesOf_def)
  with that ex_statuses show thesis by (simp add: statusesOf_def pick)
qed

lemma selection_order_free_witness:
  "selectKnowledge (ex_set\<lparr>setRevisions := [ex_row 1 5 (Some ''event:1@2''), ex_row 2 9 None]\<rparr>) (ex_cut 6) =
     selectKnowledge ex_set (ex_cut 6)"
proof (rule selection_order_free)
  show "checkEventSet ex_set = None" by (rule ex_set_checked)
  show "mset [ex_row 1 5 (Some ''event:1@2''), ex_row 2 9 None] = mset (setRevisions ex_set)" by (simp add: ex_set_def)
qed

lemma selection_passes_check_witness:
  "case selectKnowledge ex_set (ex_cut 6) of Inr s \<Rightarrow> checkSelection s = None | Inl _ \<Rightarrow> False"
proof -
  obtain b where b: "selectKnowledge ex_set (ex_cut 6) = Inr b" by (rule ex_selected)
  from selection_passes_check [OF b] b show ?thesis by simp
qed

lemma inconsistent_exactly_witness:
  "case selectKnowledge ex_set (ex_cut 6) of
     Inr s \<Rightarrow> set (inconsistentEvents s) = Collect (chain_undecided Full_chains (setRevisions ex_set) (ex_cut 6)) | Inl _ \<Rightarrow> False"
proof -
  obtain b where b: "selectKnowledge ex_set (ex_cut 6) = Inr b" by (rule ex_selected)
  from inconsistent_exactly [OF b] b show ?thesis by (simp add: ex_set_def)
qed

lemma one_active_revision_witness:
  "case selectKnowledge ex_set (ex_cut 6) of
     Inr s \<Rightarrow> map refOf (activeRows (selRevisions s)) = [''event:1@1''] \<and> distinct (map provEvent (activeRows (selRevisions s)))
   | Inl _ \<Rightarrow> False"
proof -
  obtain b where b: "selectKnowledge ex_set (ex_cut 6) = Inr b" "map refOf (activeRows (selRevisions b)) = [''event:1@1'']"
    by (rule ex_selected)
  from one_active_revision [OF b(1)] b show ?thesis by simp
qed

lemma late_changes_explained_witness:
  "case (selectKnowledge ex_set (ex_cut 6), selectKnowledge ex_set (ex_cut 10)) of
     (Inr b, Inr n) \<Rightarrow> (case explainLate b n of
        Inr l \<Rightarrow> set (lateEntered l) = {''event:1@2''} \<and> set (lateLeft l) = {''event:1@1''} | Inl _ \<Rightarrow> False)
   | _ \<Rightarrow> False"
proof -
  obtain b n where sel: "selectKnowledge ex_set (ex_cut 6) = Inr b" "selectKnowledge ex_set (ex_cut 10) = Inr n"
    and refs: "map refOf (activeRows (selRevisions b)) = [''event:1@1'']" "map refOf (activeRows (selRevisions n)) = [''event:1@2'']"
    by (rule ex_selected)
  have images: "refOf ` (set (activeRows (selRevisions n)) - set (activeRows (selRevisions b))) = {''event:1@2''}"
    "refOf ` (set (activeRows (selRevisions b)) - set (activeRows (selRevisions n))) = {''event:1@1''}"
  proof -
    obtain r t where rows: "activeRows (selRevisions b) = [r]" "refOf r = ''event:1@1''"
        "activeRows (selRevisions n) = [t]" "refOf t = ''event:1@2''"
      using refs by (auto simp: map_eq_Cons_conv)
    then have "r \<noteq> t" by auto
    with rows show "refOf ` (set (activeRows (selRevisions n)) - set (activeRows (selRevisions b))) = {''event:1@2''}"
      "refOf ` (set (activeRows (selRevisions b)) - set (activeRows (selRevisions n))) = {''event:1@1''}" by auto
  qed
  have "coreEpoch (ex_cut 6) = coreEpoch (ex_cut 10)" "commitSeq (ex_cut 6) \<le> commitSeq (ex_cut 10)"
    by (simp_all add: ex_cut_def)
  from late_changes_explained [OF sel this] obtain l where "explainLate b n = Inr l"
    "set (lateEntered l) = refOf ` (set (activeRows (selRevisions n)) - set (activeRows (selRevisions b)))"
    "set (lateLeft l) = refOf ` (set (activeRows (selRevisions b)) - set (activeRows (selRevisions n)))" by blast
  with images sel show ?thesis by simp
qed

end
