(* ===== verification/Reconstruction_Records.thy ===== *)
theory Reconstruction_Records
  imports Reconstruction_Cells Knowledge_Cut_Contract
begin

text \<open>
  The disposition records of a state: each leg of the selection has one. The frames have distinct accounts
  and units, so the legs of the cells, the legs outside every cell and the legs without account part the
  legs of the selection.
\<close>

section \<open>Keys of cells and references of legs\<close>

text \<open>
  The text keys \<open>account\u0000unit\<close> and \<open>\u0001unit\<close> tell accounts and units apart as long as no account contains
  the separator or starts like the key of a leg without account.
\<close>

definition plain_account :: "string \<Rightarrow> bool" where
  "plain_account a \<longleftrightarrow> CHR 0x00 \<notin> set a \<and> take 1 a \<noteq> [CHR 0x01]"

definition plain_legs :: "LegView list \<Rightarrow> bool" where
  "plain_legs views \<longleftrightarrow> list_all (\<lambda>v. case provAccount (viewLeg v) of None \<Rightarrow> True | Some a \<Rightarrow> plain_account a) views"

definition plain_accounts :: "ReconstructionInput \<Rightarrow> bool" where
  "plain_accounts x \<longleftrightarrow> list_all plain_account (reqAccounts (inRequest x)) \<and> plain_legs (inLegs x)"

lemma split_at_first:
  "c \<notin> set xs \<Longrightarrow> c \<notin> set ys \<Longrightarrow> xs @ c # us = ys @ c # vs \<longleftrightarrow> xs = ys \<and> us = vs"
proof (induction xs arbitrary: ys)
  case Nil
  then show ?case by (cases ys) auto
next
  case (Cons x xs)
  then show ?case by (cases ys) auto
qed

lemma cellKey_inject: "plain_account a \<Longrightarrow> plain_account b \<Longrightarrow> cellKey a u = cellKey b w \<longleftrightarrow> a = b \<and> u = w"
  by (simp add: cellKey_def plain_account_def split_at_first)

text \<open>Nothing in the guards of texts excludes the separator, and with it two cells can have one key.\<close>

lemma separator_joins_keys:
  "cellKey (a @ CHR 0x00 # b) u = cellKey a (b @ CHR 0x00 # u)" "isText 256 (''a'' @ CHR 0x00 # ''b'')"
  by (simp_all add: cellKey_def isText_def)

lemma cellKey_stray: "plain_account a \<Longrightarrow> cellKey a u \<noteq> CHR 0x01 # w"
  by (cases a) (auto simp: cellKey_def plain_account_def)

definition leg_pair :: "LegView \<Rightarrow> (string \<times> string) option" where
  "leg_pair v = map_option (\<lambda>a. (a, unitRef (provQuantity (viewLeg v)))) (provAccount (viewLeg v))"

lemma legKey_cell:
  assumes "plain_account a" and "case provAccount l of None \<Rightarrow> True | Some b \<Rightarrow> plain_account b"
  shows "legKey l = cellKey a u \<longleftrightarrow> provAccount l = Some a \<and> unitRef (provQuantity l) = u"
  using assms cellKey_stray [OF assms(1)] by (auto simp: legKey_def cellKey_inject split: option.splits dest: sym)

lemma legKey_stray:
  assumes "case provAccount l of None \<Rightarrow> True | Some b \<Rightarrow> plain_account b"
  shows "legKey l = CHR 0x01 # u \<longleftrightarrow> provAccount l = None \<and> unitRef (provQuantity l) = u"
  using assms cellKey_stray by (auto simp: legKey_def split: option.splits)

lemma legsAt_cell:
  "plain_account a \<Longrightarrow> plain_legs views \<Longrightarrow> legsAt views (cellKey a u) = filter (\<lambda>v. leg_pair v = Some (a, u)) views"
  unfolding legsAt_def leg_pair_def
  by (rule filter_cong) (auto simp: plain_legs_def list_all_iff legKey_cell)

lemma legsAt_stray:
  "plain_legs views \<Longrightarrow> legsAt views (CHR 0x01 # u) =
     filter (\<lambda>v. provAccount (viewLeg v) = None \<and> unitRef (provQuantity (viewLeg v)) = u) views"
  unfolding legsAt_def
  by (rule filter_cong) (auto simp: plain_legs_def list_all_iff legKey_stray)

lemma split_at_last:
  "c \<notin> set us \<Longrightarrow> c \<notin> set vs \<Longrightarrow> xs @ c # us = ys @ c # vs \<longleftrightarrow> xs = ys \<and> us = vs"
  using split_at_first [of c "rev us" "rev vs" "rev xs" "rev ys"]
  by (metis append.assoc append_Cons append_Nil rev.simps(2) rev_append rev_is_rev_conv rev_rev_ident set_rev)

lemma hash_in_int_text: "CHR ''#'' \<notin> set (int_text i)"
proof -
  have "CHR ''#'' \<notin> set (nat_text n)" for n
    using nat_text_digits [of n] by (auto simp: list_all_iff is_digit_def)
  then show ?thesis by (simp add: int_text_def)
qed

lemma legRef_inject: "legRef r l = legRef s k \<longleftrightarrow> refOf r = refOf s \<and> provIndex l = provIndex k"
  by (simp add: legRef_def split_at_last hash_in_int_text)

lemma checked_rows:
  assumes "checkSelection s = None"
  shows "distinct (map refOf (map selectedRow (selRevisions s)))"
    and "r \<in> set (selRevisions s) \<Longrightarrow> validProvisionalEventRevision (selectedRow r)"
    and "list_all validHistoryCoverage (selHistory s)"
proof -
  from assms have check: "checkEventSet (setOfSelection s) = None"
    by (auto simp: checkSelection_def selectKnowledge_def split: sum.splits option.splits if_splits)
  from checkEventSet_refs [OF check] show "distinct (map refOf (map selectedRow (selRevisions s)))"
    by (simp add: setOfSelection_def)
  show "list_all validHistoryCoverage (selHistory s)"
    using check by (auto simp: checkEventSet_def setOfSelection_def Let_def split: if_splits)
  have "firstBadRow i seen rows = None \<Longrightarrow> r \<in> set rows \<Longrightarrow> validProvisionalEventRevision r" for i seen rows r
    by (induction i seen rows rule: firstBadRow.induct) (auto split: if_splits)
  with check show "r \<in> set (selRevisions s) \<Longrightarrow> validProvisionalEventRevision (selectedRow r)"
    by (auto simp: checkEventSet_def setOfSelection_def Let_def split: if_splits)
qed

lemma legViews_refs: "v \<in> set (legViews sel) \<Longrightarrow> viewRef v = legRef (selectedRow (viewSelected v)) (viewLeg v)"
  by (auto simp: legViews_def)

lemma legViews_distinct:
  assumes "distinct (map refOf (map selectedRow sel))" and "\<And>s. s \<in> set sel \<Longrightarrow> distinct (map provIndex (provLegs (selectedRow s)))"
  shows "distinct (map viewRef (legViews sel))"
  using assms
proof (induction sel)
  case (Cons s sel)
  have inner: "map viewRef (legViews (s # sel)) =
      map (legRef (selectedRow s)) (provLegs (selectedRow s)) @ map viewRef (legViews sel)"
    by (simp add: legViews_def comp_def)
  have "distinct (map provIndex (provLegs (selectedRow s)))" using Cons.prems(2) by simp
  then have "distinct (map (legRef (selectedRow s)) (provLegs (selectedRow s)))"
    by (auto simp: distinct_map inj_on_def legRef_inject)
  moreover have "refOf (selectedRow s) \<notin> refOf ` selectedRow ` set sel" using Cons.prems(1) by (auto simp: image_iff)
  then have "legRef (selectedRow s) l \<noteq> viewRef v" if "v \<in> set (legViews sel)" for l v
    using that by (auto simp: legViews_def legRef_inject)
  moreover have "distinct (map viewRef (legViews sel))" using Cons by simp
  ultimately show ?case unfolding inner by (auto simp: image_iff)
qed (simp add: legViews_def)

lemma inLegs_distinct:
  assumes "refusedInput x = None"
  shows "distinct (map viewRef (inLegs x))"
proof -
  note checked = checked_rows [OF accepted_input(5) [OF assms]]
  have "distinct (map provIndex (provLegs (selectedRow s)))" if "s \<in> set (selRevisions (inSelection x))" for s
    using checked(2) [OF that] length_js_set [of "map provIndex (provLegs (selectedRow s))"]
    by (simp add: validProvisionalEventRevision_def card_distinct)
  with checked(1) show ?thesis unfolding inLegs_def by (intro legViews_distinct) simp_all
qed


section \<open>Every leg in one cell\<close>

text \<open>Account and unit of the frames that have a unit.\<close>

definition frame_pair :: "CellFrame \<Rightarrow> (string \<times> string) option" where
  "frame_pair f = map_option (Pair (frameAccount f)) (frameUnitRef f)"

definition frame_pairs :: "CellFrame list \<Rightarrow> (string \<times> string) list" where
  "frame_pairs fs = List.map_filter frame_pair fs"

lemma noteUnit_keys: "map fst (noteUnit keyed n) = (if fst n \<in> fst ` set keyed then map fst keyed else map fst keyed @ [fst n])"
  by (induction keyed) force+

lemma notes_distinct: "distinct (map fst keyed) \<Longrightarrow> distinct (map fst (foldl noteUnit keyed ns))"
proof (induction ns arbitrary: keyed)
  case (Cons n ns)
  have "distinct (map fst (noteUnit keyed n))" using Cons.prems by (auto simp: noteUnit_keys)
  then show ?case using Cons.IH by simp
qed simp

lemma map_filter_append: "List.map_filter f (xs @ ys) = List.map_filter f xs @ List.map_filter f ys"
  by (simp add: List.map_filter_def)

lemma accountFrames_pairs:
  "frame_pairs (accountFrames basis start final views reach a) =
     map (Pair a) (map fst (foldl noteUnit [] (sideNotes start a @ sideNotes final a @ legNotes basis views a @ reachNotes reach a)))"
proof -
  have units: "List.map_filter frame_pair (map (unitFrame start final a) ns) = map (Pair a) (map fst ns)" for ns
    by (induction ns) (auto simp: frame_pair_def unitFrame_def List.map_filter_simps)
  have none: "List.map_filter frame_pair (unidentifiedFrames s a) = []" for s
    by (auto simp: unidentifiedFrames_def List.map_filter_def filter_empty_conv frame_pair_def)
  show ?thesis by (simp add: frame_pairs_def accountFrames_def Let_def map_filter_append units none)
qed

lemma frames_distinct:
  assumes "distinct (reqAccounts request)"
  shows "distinct (frame_pairs (frames request policy start final views reach))"
proof -
  let ?G = "accountFrames (foldLegBasis policy (reqBasis request)) start final views reach"
  have pairs_Cons: "frame_pairs (concat (map ?G (b # as))) = frame_pairs (?G b) @ frame_pairs (concat (map ?G as))" for b as
    by (simp add: frame_pairs_def map_filter_append)
  have owners: "fst ` set (frame_pairs (concat (map ?G as))) \<subseteq> set as" for as
  proof (induction as)
    case (Cons b as)
    then show ?case unfolding pairs_Cons by (auto simp: accountFrames_pairs)
  qed (simp add: frame_pairs_def List.map_filter_simps)
  have "distinct (frame_pairs (concat (map ?G accounts)))" if "distinct accounts" for accounts
    using that
  proof (induction accounts)
    case (Cons a accounts)
    have pair: "distinct xs \<Longrightarrow> distinct (map (Pair a) xs)" for xs :: "string list"
      by (simp add: distinct_map inj_on_def)
    have "distinct (frame_pairs (?G a))" unfolding accountFrames_pairs
      by (intro pair notes_distinct) simp
    moreover have "distinct (frame_pairs (concat (map ?G accounts)))" using Cons by simp
    moreover have "set (frame_pairs (?G a)) \<inter> set (frame_pairs (concat (map ?G accounts))) = {}"
      using Cons.prems owners [of accounts] unfolding accountFrames_pairs by force
    ultimately show ?case unfolding pairs_Cons by simp
  qed (simp add: frame_pairs_def List.map_filter_simps)
  with assms show ?thesis by (simp add: frames_def)
qed

text \<open>Legs grouped by distinct keys are the legs that have one of the keys, each once.\<close>

lemma mset_filter_disj:
  "(\<And>x. x \<in> set xs \<Longrightarrow> \<not> (P x \<and> Q x)) \<Longrightarrow> mset (filter P xs) + mset (filter Q xs) = mset (filter (\<lambda>x. P x \<or> Q x) xs)"
  by (induction xs) auto

lemma mset_grouped:
  assumes "distinct ks"
  shows "mset (concat (map (\<lambda>k. filter (\<lambda>v. key v = Some k) vs) ks)) = mset (filter (\<lambda>v. key v \<in> Some ` set ks) vs)"
  using assms
proof (induction ks)
  case (Cons k ks)
  have "mset (filter (\<lambda>v. key v = Some k) vs) + mset (filter (\<lambda>v. key v \<in> Some ` set ks) vs) =
      mset (filter (\<lambda>v. key v = Some k \<or> key v \<in> Some ` set ks) vs)"
    using Cons.prems by (intro mset_filter_disj) auto
  with Cons show ?case by auto
qed simp

lemma cellRecords_refs:
  assumes "foldFrame x frame = Some f" and "plain_accounts x" and "frameAccount frame \<in> set (reqAccounts (inRequest x))"
  shows "map recRef (cellRecords f) =
    (case frame_pair frame of None \<Rightarrow> [] | Some k \<Rightarrow> map viewRef (filter (\<lambda>v. leg_pair v = Some k) (inLegs x)))"
proof (cases "frameUnitRef frame")
  case None
  then show ?thesis by (simp add: cellRecords_def foldFrame_Some [OF assms(1)] foldCell_def frame_pair_def)
next
  case (Some u)
  have plain: "plain_account (frameAccount frame)" "plain_legs (inLegs x)"
    using assms(2,3) by (auto simp: plain_accounts_def list_all_iff)
  have items: "map fst (foldedItems f) = filter (\<lambda>v. leg_pair v = Some (frameAccount frame, u)) (inLegs x) @
      filter (\<lambda>v. provAccount (viewLeg v) = None \<and> unitRef (provQuantity (viewLeg v)) = u) (inLegs x)"
    by (simp add: foldFrame_Some [OF assms(1)] foldCell_def Some legsAt_cell [OF plain] legsAt_stray [OF plain(2)] comp_def)
  have refs: "map recRef (cellRecords f) =
      map viewRef (filter (\<lambda>v. provAccount (viewLeg v) \<noteq> None) (map fst (foldedItems f)))"
  proof -
    have "recRef (recordOf (viewSelected (fst p)) (viewLeg (fst p)) d g b) = viewRef (fst p)"
      if "p \<in> set (foldedItems f)" for p d g b
    proof -
      from that have "fst p \<in> set (map fst (foldedItems f))" by simp
      then have "fst p \<in> set (inLegs x)" unfolding items by auto
      then show ?thesis by (simp add: recordOf_def inLegs_def legViews_refs)
    qed
    then have "recRef (case p of (v, c) \<Rightarrow> recordOf (viewSelected v) (viewLeg v) (disposition c) (gapOf c)
        (viewRef v \<in> set (foldedConflicts f))) = viewRef (fst p)" if "p \<in> set (foldedItems f)" for p
      using that by (cases p) auto
    moreover have "filter P (map fst ps) = map fst (filter (\<lambda>(v, c). P v) ps)" for P :: "LegView \<Rightarrow> bool" and ps :: CellFold
      by (induction ps) auto
    ultimately show ?thesis unfolding cellRecords_def by simp
  qed
  have "filter (\<lambda>v. provAccount (viewLeg v) \<noteq> None) (filter (\<lambda>v. leg_pair v = Some (frameAccount frame, u)) (inLegs x)) =
      filter (\<lambda>v. leg_pair v = Some (frameAccount frame, u)) (inLegs x)"
    by (subst filter_filter, rule filter_cong) (auto simp: leg_pair_def)
  moreover have "filter (\<lambda>v. provAccount (viewLeg v) \<noteq> None)
      (filter (\<lambda>v. provAccount (viewLeg v) = None \<and> unitRef (provQuantity (viewLeg v)) = u) (inLegs x)) = []"
    by (auto simp: filter_empty_conv)
  ultimately show ?thesis by (simp add: refs items Some frame_pair_def)
qed


text \<open>The rest of the legs: outside every cell, or strays.\<close>

definition leg_covered :: "ReconstructionInput \<Rightarrow> LegView \<Rightarrow> bool" where
  "leg_covered x v \<longleftrightarrow>
     (case leg_pair v of
        None \<Rightarrow> unitRef (provQuantity (viewLeg v)) \<in> set (cellUnitsOf (inFrames x))
      | Some k \<Rightarrow> k \<in> set (frame_pairs (inFrames x)))"

lemma set_map_filter_some: "y \<in> set (List.map_filter f xs) \<longleftrightarrow> (\<exists>x\<in>set xs. f x = Some y)"
  by (force simp: List.map_filter_def)

lemma cellKeysOf_pairs:
  assumes "plain_accounts x" and "plain_account a"
  shows "cellKey a u \<in> set (cellKeysOf (inFrames x)) \<longleftrightarrow> (a, u) \<in> set (frame_pairs (inFrames x))"
proof -
  have plain: "plain_account (frameAccount f)" if "f \<in> set (inFrames x)" for f
    using that assms(1) unfolding inFrames_def plain_accounts_def list_all_iff by (auto elim!: frame_cases)
  have "cellKey a u \<in> set (cellKeysOf (inFrames x)) \<longleftrightarrow>
      (\<exists>f\<in>set (inFrames x). \<exists>w. frameUnitRef f = Some w \<and> cellKey (frameAccount f) w = cellKey a u)"
    by (auto simp: cellKeysOf_def set_map_filter_some)
  also have "\<dots> \<longleftrightarrow> (\<exists>f\<in>set (inFrames x). frameUnitRef f = Some u \<and> frameAccount f = a)"
    using plain assms(2) by (auto simp: cellKey_inject)
  also have "\<dots> \<longleftrightarrow> (a, u) \<in> set (frame_pairs (inFrames x))"
    by (auto simp: frame_pairs_def frame_pair_def set_map_filter_some)
  finally show ?thesis .
qed

lemma outsideRecord_covered:
  assumes "plain_accounts x" and "v \<in> set (inLegs x)"
  shows "outsideRecord x (viewSelected v) (viewLeg v) = None \<longleftrightarrow> leg_covered x v"
    and "outsideRecord x (viewSelected v) (viewLeg v) = Some r \<Longrightarrow> recRef r = viewRef v"
proof -
  have "plain_account a" if "provAccount (viewLeg v) = Some a" for a
    using assms that by (auto simp: plain_accounts_def plain_legs_def list_all_iff)
  then show "outsideRecord x (viewSelected v) (viewLeg v) = None \<longleftrightarrow> leg_covered x v"
    using cellKeysOf_pairs [OF assms(1)]
    by (auto simp: outsideRecord_def leg_covered_def leg_pair_def Let_def split: option.splits)
  show "outsideRecord x (viewSelected v) (viewLeg v) = Some r \<Longrightarrow> recRef r = viewRef v"
    using legViews_refs assms(2) unfolding inLegs_def
    by (auto simp: outsideRecord_def recordOf_def Let_def split: option.splits if_splits)
qed

text \<open>The references a full account of the selection has: one for each leg, and one for a row without legs.\<close>

definition expected_refs :: "SelectedRevision list \<Rightarrow> string list" where
  "expected_refs sel = concat (map (\<lambda>s.
     if provLegs (selectedRow s) = [] then [refOf (selectedRow s)]
     else map (legRef (selectedRow s)) (provLegs (selectedRow s))) sel)"

lemma outside_refs:
  assumes "plain_accounts x" and "set sel \<subseteq> set (selRevisions (inSelection x))"
  shows "mset (map recRef (concat (map (outsideRecords x) sel))) + mset (map viewRef (filter (leg_covered x) (legViews sel))) =
    mset (expected_refs sel)"
  using assms(2)
proof (induction sel)
  case Nil
  then show ?case by (simp add: expected_refs_def legViews_def)
next
  case (Cons s sel)
  let ?view = "\<lambda>l. \<lparr>viewSelected = s, viewLeg = l, viewRef = legRef (selectedRow s) l\<rparr>"
  have views: "legViews (s # sel) = map ?view (provLegs (selectedRow s)) @ legViews sel" by (simp add: legViews_def)
  have member: "?view l \<in> set (inLegs x)" if "l \<in> set (provLegs (selectedRow s))" for l
    using Cons.prems that by (auto simp: inLegs_def legViews_def)
  have part: "mset (map recRef (List.map_filter (outsideRecord x s) ls)) +
      mset (map viewRef (filter (leg_covered x) (map ?view ls))) = mset (map (legRef (selectedRow s)) ls)"
    if "set ls \<subseteq> set (provLegs (selectedRow s))" for ls
    using that
  proof (induction ls)
    case (Cons l ls)
    then have "?view l \<in> set (inLegs x)" using member by simp
    from outsideRecord_covered [OF assms(1) this] Cons show ?case
      by (cases "outsideRecord x s l") (auto simp: List.map_filter_simps)
  qed (simp add: List.map_filter_simps)
  have row: "mset (map recRef (outsideRecords x s)) +
      mset (map viewRef (filter (leg_covered x) (map ?view (provLegs (selectedRow s))))) =
      mset (expected_refs [s])"
    using part [of "provLegs (selectedRow s)"] by (auto simp: outsideRecords_def expected_refs_def leglessRecord_def)
  have refs: "expected_refs (s # sel) = expected_refs [s] @ expected_refs sel" by (simp add: expected_refs_def)
  have "mset (map recRef (concat (map (outsideRecords x) sel))) + mset (map viewRef (filter (leg_covered x) (legViews sel))) =
    mset (expected_refs sel)" using Cons by simp
  then show ?case unfolding refs views mset_append row [symmetric] by (simp add: ac_simps)
qed

lemma strayViews_list:
  assumes "distinct (map viewRef (inLegs x))"
  shows "strayViews x = map (\<lambda>v. (viewRef v, v)) (filter (isStray x) (inLegs x))"
proof -
  have "foldl (\<lambda>m v. AList.update (viewRef v) v m) m vs = m @ map (\<lambda>v. (viewRef v, v)) vs"
    if "distinct (map fst m @ map viewRef vs)" for m and vs :: "LegView list"
    using that
  proof (induction vs arbitrary: m)
    case (Cons v vs)
    have "AList.update k w l = l @ [(k, w)]" if "k \<notin> fst ` set l" for k :: string and w :: LegView and l
      using that by (induction l) auto
    with Cons.prems have "AList.update (viewRef v) v m = m @ [(viewRef v, v)]" by auto
    with Cons show ?case by auto
  qed simp
  from this [of "[]" "filter (isStray x) (inLegs x)"] assms show ?thesis
    by (simp add: strayViews_def distinct_map_filter)
qed


lemma frame_pairs_units: "u \<in> set (cellUnitsOf fs) \<longleftrightarrow> u \<in> snd ` set (frame_pairs fs)"
  by (force simp: cellUnitsOf_def frame_pairs_def frame_pair_def set_map_filter_some)

lemma isStray_covered: "isStray x v \<longleftrightarrow> leg_covered x v \<and> leg_pair v = None"
  by (auto simp: isStray_def leg_covered_def leg_pair_def split: option.splits)

text \<open>The records of the cells are those of the covered legs with an account.\<close>

lemma cell_refs:
  assumes "plain_accounts x" and "map (foldFrame x) (inFrames x) = map Some fs" and "distinct (frame_pairs (inFrames x))"
  shows "mset (map recRef (concat (map cellRecords fs))) =
    mset (map viewRef (filter (\<lambda>v. leg_covered x v \<and> leg_pair v \<noteq> None) (inLegs x)))"
proof -
  let ?at = "\<lambda>k. map viewRef (filter (\<lambda>v. leg_pair v = Some k) (inLegs x))"
  have "concat (map (map recRef \<circ> cellRecords) gs) = concat (map ?at (frame_pairs frs))"
    if "map (foldFrame x) frs = map Some gs" "set frs \<subseteq> set (inFrames x)" for frs gs
    using that
  proof (induction frs arbitrary: gs)
    case (Cons fr frs)
    then obtain g hs where gs: "gs = g # hs" "foldFrame x fr = Some g" "map (foldFrame x) frs = map Some hs" by auto
    have "frameAccount fr \<in> set (reqAccounts (inRequest x))"
      using Cons.prems(2) unfolding inFrames_def by (auto elim: frame_cases)
    note refs = cellRecords_refs [OF gs(2) assms(1) this]
    have "concat (map (map recRef \<circ> cellRecords) hs) = concat (map ?at (frame_pairs frs))"
      by (rule Cons.IH) (use gs Cons.prems in auto)
    then show ?case by (cases "frame_pair fr") (simp_all add: gs(1) refs frame_pairs_def List.map_filter_simps comp_def)
  qed (simp add: frame_pairs_def List.map_filter_simps)
  from this [OF assms(2) subset_refl]
  have "map recRef (concat (map cellRecords fs)) =
      map viewRef (concat (map (\<lambda>k. filter (\<lambda>v. leg_pair v = Some k) (inLegs x)) (frame_pairs (inFrames x))))"
    by (simp add: map_concat comp_def)
  then have "mset (map recRef (concat (map cellRecords fs))) =
      image_mset viewRef (mset (concat (map (\<lambda>k. filter (\<lambda>v. leg_pair v = Some k) (inLegs x)) (frame_pairs (inFrames x)))))"
    by simp
  also have "\<dots> = image_mset viewRef (mset (filter (\<lambda>v. leg_pair v \<in> Some ` set (frame_pairs (inFrames x))) (inLegs x)))"
    by (simp only: mset_grouped [OF assms(3)])
  also have "filter (\<lambda>v. leg_pair v \<in> Some ` set (frame_pairs (inFrames x))) (inLegs x) =
      filter (\<lambda>v. leg_covered x v \<and> leg_pair v \<noteq> None) (inLegs x)"
    by (rule filter_cong) (auto simp: leg_covered_def split: option.splits)
  finally show ?thesis by simp
qed

lemma mset_filter_split: "mset (filter P xs) = mset (filter (\<lambda>x. P x \<and> Q x) xs) + mset (filter (\<lambda>x. P x \<and> \<not> Q x) xs)"
  by (induction xs) auto

lemma strayRecord_ref:
  assumes "strayRecord fs (viewRef v, v) = Some r" and "v \<in> set (inLegs x)"
  shows "recRef r = viewRef v"
  using assms legViews_refs [of v] by (auto simp: strayRecord_def recordOf_def inLegs_def split: list.splits)

lemma records_of_state:
  assumes "reconstructState x = Some (Inr st)" and "plain_accounts x"
  shows "mset (map recRef (stateDispositions st)) = mset (expected_refs (selRevisions (inSelection x)))"
proof -
  note accepted = reconstructState_Inr(1) [OF assms(1)]
  obtain fs records where fs: "map (foldFrame x) (inFrames x) = map Some fs"
    and records: "recordsOf x fs = Some records" "stateDispositions st = records"
    using reconstructState_Inr(2) [OF assms(1)] by (rule foldState_parts)
  then obtain strays where strays: "map (strayRecord fs) (strayViews x) = map Some strays"
    and sorted: "records = js_sort recordOrder
      (concat (map (outsideRecords x) (selRevisions (inSelection x))) @ concat (map cellRecords fs) @ strays)"
    by (auto simp: recordsOf_def dest: those_SomeD)
  have "map recRef rs = map viewRef vs"
    if "map (strayRecord fs) (map (\<lambda>v. (viewRef v, v)) vs) = map Some rs" "set vs \<subseteq> set (inLegs x)" for vs rs
    using that
  proof (induction vs arbitrary: rs)
    case (Cons v vs)
    then show ?case by (cases rs) (auto simp: strayRecord_ref)
  qed simp
  from this [of "filter (isStray x) (inLegs x)" strays] strays
  have stray: "map recRef strays = map viewRef (filter (isStray x) (inLegs x))"
    by (simp add: strayViews_list [OF inLegs_distinct [OF accepted]])
  have "distinct (reqAccounts (inRequest x))"
    using accepted_input(1) [OF accepted] length_js_set [of "reqAccounts (inRequest x)"]
    by (simp add: validReconstructionRequest_def isRefList_def card_distinct)
  then have "distinct (frame_pairs (inFrames x))" unfolding inFrames_def by (rule frames_distinct)
  note cells = cell_refs [OF assms(2) fs this]
  have "mset (map viewRef (filter (leg_covered x) (inLegs x))) =
      mset (map viewRef (filter (\<lambda>v. leg_covered x v \<and> leg_pair v = None) (inLegs x))) +
      mset (map viewRef (filter (\<lambda>v. leg_covered x v \<and> leg_pair v \<noteq> None) (inLegs x)))"
    using mset_filter_split [of "leg_covered x" "inLegs x" "\<lambda>v. leg_pair v = None"] by simp
  note split = this
  have "mset (map recRef records) = mset (map recRef (concat (map (outsideRecords x) (selRevisions (inSelection x))))) +
      (mset (map recRef (concat (map cellRecords fs))) + mset (map recRef strays))"
    unfolding sorted by (simp only: mset_map mset_js_sort mset_append image_mset_union)
  also have "\<dots> = mset (map recRef (concat (map (outsideRecords x) (selRevisions (inSelection x))))) +
      mset (map viewRef (filter (leg_covered x) (inLegs x)))"
    unfolding cells stray isStray_covered split by (simp only: ac_simps)
  also have "\<dots> = mset (expected_refs (selRevisions (inSelection x)))"
    unfolding inLegs_def by (rule outside_refs [OF assms(2) subset_refl])
  finally show ?thesis by (simp only: records(2))
qed

end
