(* ===== verification/Reconstruction_Explained.thy ===== *)
theory Reconstruction_Explained
  imports Reconstruction_Cells
begin

text \<open>
  What a reconstructed cell tells about the reported end, and which legs its figure is made of.
\<close>

section \<open>The explanation\<close>

lemma subtractQuantities_in:
  assumes "exact_in u a" and "exact_in u b"
  obtains q where "subtractQuantities a b = Inr q" "exact_in u q" "amount_value q = amount_value a - amount_value b"
proof -
  from assms(1) obtain v nv where a: "unitRef a = u" "quantityValue a = ExactValue v nv" "amount_value a = dec_value v"
    by (rule exact_inE)
  from assms(2) obtain w nw where b: "unitRef b = u" "quantityValue b = ExactValue w nw" "amount_value b = dec_value w"
    by (rule exact_inE)
  have "exactOperands [a, b] u = Inr [v, w]" using a b by (simp add: exactOperands_Inr is_exact_def)
  with a b that [of "exactQuantity u (subtractDecimals v w)"] show thesis
    by (simp add: subtractQuantities_def exact_in_def dec_value_subtractDecimals)
qed

lemma isZero_amount: "exact_in u q \<Longrightarrow> isZero q \<longleftrightarrow> amount_value q = 0"
  using exactOf_exact [of q] by (auto simp: isZero_def exact_in_def dec_value_def)

lemma equalQuantities_amount:
  "exact_in u a \<Longrightarrow> exact_in u b \<Longrightarrow> equalQuantities a b \<longleftrightarrow> amount_value a = amount_value b"
  by (auto simp: equalQuantities_def compareQuantities_in)

lemma comparability_None:
  assumes "comparability frame request final inverted part = Some (status, None)"
  shows "status = Difference_unexplained" and "part = Complete" and "reqBasis request = Cash_basis"
    and "\<not> metricsDiffer frame" and "\<not> inverted"
    and "\<exists>e. endRowOf frame = Some e \<and> is_exact (startOriented e)"
  using assms by (auto simp: comparability_def split: if_splits Option.bind_splits)

lemma comparability_Some:
  assumes "comparability frame request final inverted part = Some (status, Some r)"
  shows "status = Not_comparable \<or> status = Unavailable"
  using assms by (auto simp: comparability_def split: if_splits Option.bind_splits)

lemma end_row_unit:
  assumes "refusedInput x = None" and "frame \<in> set (inFrames x)" and "endRowOf frame = Some e" and "frameUnitRef frame = Some u"
  shows "unitRef (startOriented e) = u"
  using assms(2) [unfolded inFrames_def]
proof (rule frame_cases)
  fix w assume w: "frameUnitRef frame = Some w" "frameEnd frame = endOutcome (pickSide (inEnd x) (frameAccount frame) w)"
  with assms(3) have "pickSide (inEnd x) (frameAccount frame) w = Start_row e"
    by (auto simp: endRowOf_def endOutcome_def split: StartOutcome.splits if_splits)
  with w assms(4) show ?thesis using pickSide_row(1) [OF _ accepted_input(4) [OF assms(1)]] by simp
qed (use assms(4) in simp)

lemma explanation_of_cell:
  assumes "reconstructState x = Some (Inr st)" and "c \<in> set (stateCells st)"
  shows "(explReason (explanation c) \<noteq> None \<longrightarrow>
      explStatus (explanation c) = Not_comparable \<or> explStatus (explanation c) = Unavailable) \<and>
    (explReason (explanation c) = None \<longrightarrow> cellGaps c = [] \<and> reqBasis (inRequest x) = Cash_basis \<and>
      (\<exists>s e. cellStart c = Some s \<and> explReported (explanation c) = Some e \<and> startMetric s = startMetric e \<and>
         unitRef (startOriented s) = unitRef (startOriented e) \<and> is_exact (explRemainder (explanation c)) \<and>
         amount_value (explRemainder (explanation c)) = amount_value (startOriented e) - amount_value (reconstructed c)) \<and>
      explStatus (explanation c) =
        (let left = amount_value (explRemainder (explanation c))
         in if componentCount (cellBoundary c) = 0 then (if left = 0 then Reconciled else Difference_unexplained)
            else if left = 0 then Consistent_with_boundary_exclusion
            else if left = amount_value (componentTotal (cellBoundary c)) then Consistent_with_boundary_inclusion
            else Difference_unexplained))"
proof -
  obtain frame f where frame: "frame \<in> set (inFrames x)" "foldFrame x frame = Some f" "cellOf x f = Some c"
    using assms by (rule cell_origin)
  have folded: "foldedFrame f = frame" using frame(2) by (rule foldFrame_Some)
  note accepted = reconstructState_Inr(1) [OF assms(1)]
  note figure = cell_figure [OF accepted frame]
  obtain boundaryTotal status where
    boundary: "totalOf (frameUnit frame) (viewsWith Boundary_same_day (foldedItems f)) = Some boundaryTotal"
    and comparable: "comparability frame (inRequest x) (inEnd x) (foldedInverted f) (cellPartition c) =
       Some (status, explReason (explanation c))"
    and remainder: "explRemainder (explanation c) = remainderOf frame (explReason (explanation c)) (reconstructed c)"
    and final: "explStatus (explanation c) = finalStatus status (explRemainder (explanation c))
       (viewsWith Boundary_same_day (foldedItems f)) boundaryTotal"
    and part: "cellPartition c = figurePartition (reconstructed c) (cellGaps c)"
    and rest: "cellBoundary c = componentOf (viewsWith Boundary_same_day (foldedItems f)) boundaryTotal"
      "cellStart c = startRowOf frame" "explReported (explanation c) = endRowOf frame" "cellUnitRef c = frameUnitRef frame"
    using frame(3) unfolding folded [symmetric] by (rule cellOf_parts)
  show ?thesis
  proof (cases "explReason (explanation c)")
    case (Some r)
    with comparable comparability_Some have "status = Not_comparable \<or> status = Unavailable" by simp
    with final Some show ?thesis by (auto simp: finalStatus_def)
  next
    case None
    note none = comparability_None [OF comparable [unfolded None]]
    from none(2) part have gaps: "cellGaps c = []" "is_exact (reconstructed c)" by (auto simp: figurePartition_def split: if_splits)
    with figure(2) obtain s u where s: "cellStart c = Some s" "cellUnitRef c = Some u" "exact_in u (startOriented s)"
      "exact_in u (reconstructed c)" by blast
    from none(6) obtain e where e: "endRowOf frame = Some e" "is_exact (startOriented e)" by blast
    have unit: "exact_in u (startOriented e)"
      using end_row_unit [OF accepted frame(1) e(1)] e(2) s(2) rest by (simp add: exact_in_def)
    obtain q where q: "subtractQuantities (startOriented e) (reconstructed c) = Inr q" "exact_in u q"
      "amount_value q = amount_value (startOriented e) - amount_value (reconstructed c)"
      using unit s(4) by (rule subtractQuantities_in)
    have left: "explRemainder (explanation c) = q" using remainder None e(1) q(1) by (simp add: remainderOf_def)
    have "frameUnit frame = u"
      using frame(1) [unfolded inFrames_def] s(2) rest(4) by (auto elim!: frame_cases)
    then have total: "exact_in u boundaryTotal" using totalOf_amount(1) [OF boundary] by simp
    have status: "explStatus (explanation c) = (let left = amount_value (explRemainder (explanation c))
         in if componentCount (cellBoundary c) = 0 then (if left = 0 then Reconciled else Difference_unexplained)
            else if left = 0 then Consistent_with_boundary_exclusion
            else if left = amount_value (componentTotal (cellBoundary c)) then Consistent_with_boundary_inclusion
            else Difference_unexplained)"
      unfolding final left none(1) rest(1)
      by (simp add: finalStatus_def componentOf_def isZero_amount [OF q(2)] equalQuantities_amount [OF q(2) total] Let_def)
    from none(4) s(1) rest(2) e(1) have "startMetric s = startMetric e" by (simp add: metricsDiffer_def)
    with None gaps(1) none(3) s unit q status rest e(1) left show ?thesis
      by (auto simp: exact_in_def)
  qed
qed

section \<open>Which legs reach a figure\<close>

lemma firstFlag_None: "firstFlag r = None \<longleftrightarrow> provFlags r = []"
proof -
  have "f \<in> set PROVISIONAL_REVISION_FLAGS" for f by (cases f) (simp_all add: PROVISIONAL_REVISION_FLAGS_def)
  then show ?thesis by (auto simp: firstFlag_def find_None_iff intro: last_in_set)
qed

lemma valid_policy:
  assumes "validFoldPolicy p"
  shows "foldLegBasis p b = baseLegBasis b" "foldTimeRole p b = baseTimeRole b" "foldLegs p e = baseLegEffect e"
    "foldStates p k s = stateEffectsV1 k s"
proof -
  have "b \<in> {Cash_basis, Trade_basis, Settlement_basis}" by (cases b) simp_all
  with assms show "foldLegBasis p b = baseLegBasis b" "foldTimeRole p b = baseTimeRole b"
    by (auto simp: validFoldPolicy_def)
  have "e \<in> {Movement, Breakdown, Correspondence}" by (cases e) simp_all
  with assms show "foldLegs p e = baseLegEffect e" by (auto simp: validFoldPolicy_def)
  have "k \<in> set ECONOMIC_EVENT_KINDS" by (cases k) (simp_all add: ECONOMIC_EVENT_KINDS_def)
  moreover have "s \<in> set EVENT_STATES" by (cases s) (simp_all add: EVENT_STATES_def)
  ultimately show "foldStates p k s = stateEffectsV1 k s" using assms by (auto simp: validFoldPolicy_def list_all_iff)
qed

text \<open>A leg that may be counted: in force, unflagged, a movement of the basis, of a known account.\<close>

definition counted_leg :: "ReconstructionInput \<Rightarrow> Window \<Rightarrow> LegView \<Rightarrow> Placement \<Rightarrow> bool" where
  "counted_leg x window v place \<longleftrightarrow>
     (let r = selectedRow (viewSelected v); l = viewLeg v
      in selectedStatus (viewSelected v) = Active \<and> provFlags r = [] \<and> provEffect l = Movement \<and>
         provBasis l = baseLegBasis (reqBasis (inRequest x)) \<and> provAccount l \<noteq> None \<and> is_exact (provQuantity l) \<and>
         0 \<le> amount_value (provQuantity l) \<and> length (ownAccounts (provBasis l) r) \<le> 1 \<and>
         placer (inPolicy x) (reqBasis (inRequest x)) (fst window) (snd window) r = place)"

lemma negative_amount: "is_exact q \<Longrightarrow> negative q \<longleftrightarrow> amount_value q < 0"
  using exactOf_exact [of q] by (auto simp: negative_def coefficient_negative)

lemma classify_applied:
  assumes "validFoldPolicy (inPolicy x)"
    and "disposition (classifyLeg v (inPolicy x) (reqBasis (inRequest x))
      (placer (inPolicy x) (reqBasis (inRequest x)) (fst window) (snd window)) (provAccount (viewLeg v) \<noteq> None)) = Applied"
  shows "counted_leg x window v Inside \<and>
    stateEffectsV1 (provKind (selectedRow (viewSelected v))) (provState (selectedRow (viewSelected v))) = Some Effect_applied"
proof -
  have status: "selectedStatus (viewSelected v) = Active"
    using assms(2) by (cases "selectedStatus (viewSelected v)") (auto simp: classifyLeg_def Let_def classified_def split: if_splits)
  then have flags: "provFlags (selectedRow (viewSelected v)) = []"
    and basis: "provBasis (viewLeg v) = baseLegBasis (reqBasis (inRequest x))"
    using assms(2) unfolding firstFlag_None [symmetric]
    by (auto simp: classifyLeg_def Let_def classified_def valid_policy [OF assms(1)] split: if_splits option.splits)
  have "baseLegBasis b \<noteq> Unknown_basis" for b by (cases b) simp_all
  with status flags basis assms(2) have placed: "disposition (classifyPlaced (viewLeg v) (selectedRow (viewSelected v)) (inPolicy x)
      (baseLegBasis (reqBasis (inRequest x)))
      (placer (inPolicy x) (reqBasis (inRequest x)) (fst window) (snd window) (selectedRow (viewSelected v)))
      (provAccount (viewLeg v) \<noteq> None)) = Applied"
    by (simp add: classifyLeg_def Let_def valid_policy [OF assms(1)] firstFlag_None [THEN iffD2])
  show ?thesis
    using placed status flags basis
    by (cases "provEffect (viewLeg v)")
      (auto simp: classifyPlaced_def classified_def Let_def counted_leg_def valid_policy [OF assms(1)] not_less
        negative_amount split: if_splits)
qed

lemma legs_of_cell:
  assumes "reconstructState x = Some (Inr st)" and "c \<in> set (stateCells st)"
  shows "\<exists>vs. componentRefs (cellApplied c) = sort (map viewRef vs) \<and> componentCount (cellApplied c) = length vs \<and>
    set vs \<subseteq> set (inLegs x) \<and>
    (\<forall>v\<in>set vs. cellUnitRef c = Some (unitRef (provQuantity (viewLeg v))) \<and> counted_leg x (cellWindow c) v Inside \<and>
       stateEffectsV1 (provKind (selectedRow (viewSelected v))) (provState (selectedRow (viewSelected v))) = Some Effect_applied) \<and>
    amount_value (componentTotal (cellApplied c)) = sum_list (map (signed_amount \<circ> viewLeg) vs)"
proof -
  obtain frame f where frame: "frame \<in> set (inFrames x)" "foldFrame x frame = Some f" "cellOf x f = Some c"
    using assms by (rule cell_origin)
  note folded = foldFrame_Some [OF frame(2)]
  note policy = accepted_input(2) [OF reconstructState_Inr(1) [OF assms(1)]]
  define vs where "vs = viewsWith Applied (foldedItems f)"
  obtain appliedTotal where total: "totalOf (frameUnit frame) vs = Some appliedTotal"
    and rest: "cellApplied c = componentOf vs appliedTotal" "cellUnitRef c = frameUnitRef frame" "cellWindow c = foldedWindow f"
    using frame(3) unfolding folded(1) [symmetric] vs_def cellOf_def
    by (auto simp: Let_def split: Option.bind_splits prod.splits)
  have leg: "v \<in> set (inLegs x) \<and> frameUnitRef frame \<noteq> None \<and> counted_leg x (foldedWindow f) v Inside \<and>
       stateEffectsV1 (provKind (selectedRow (viewSelected v))) (provState (selectedRow (viewSelected v))) = Some Effect_applied"
    if "v \<in> set vs" for v
    using that classify_applied [OF policy, of v "foldedWindow f"] unfolding vs_def folded(4)
    by (cases "frameUnitRef frame") (auto simp: viewsWith_def foldCell_def legsAt_def)
  have unit: "frameUnitRef frame = Some (unitRef (provQuantity (viewLeg v)))" if "v \<in> set vs" for v
    using leg [OF that] totalOf_amount(3) [OF total that] frame(1) [unfolded inFrames_def]
    by (auto simp: exact_in_def elim!: frame_cases)
  show ?thesis
  proof (intro exI conjI ballI)
    show "componentRefs (cellApplied c) = sort (map viewRef vs)" "componentCount (cellApplied c) = length vs"
      using rest by (simp_all add: componentOf_def refsOf_def)
    show "amount_value (componentTotal (cellApplied c)) = sum_list (map (signed_amount \<circ> viewLeg) vs)"
      using rest totalOf_amount(2) [OF total] by (simp add: componentOf_def)
  qed (use leg unit rest in auto)
qed

end
