(* ===== verification/Reconstruction_Coverage.thy ===== *)
theory Reconstruction_Coverage
  imports Reconstruction_State
begin

text \<open>
  Two searches of the fold against what they look for: the sweep over coverage spans against the days of the
  window, and the walk over superseded rows against the closure of the supersession.
\<close>

section \<open>History coverage\<close>

text \<open>The sweep over spans in the order of their first day decides whether they cover every day of a range.\<close>

definition day_in :: "int \<Rightarrow> (int \<times> int) list \<Rightarrow> bool" where
  "day_in d spans \<longleftrightarrow> (\<exists>(s, e)\<in>set spans. s \<le> d \<and> d \<le> e)"

lemma day_in_simps [simp]:
  "\<not> day_in d []"
  "day_in d ((s, e) # spans) \<longleftrightarrow> (s \<le> d \<and> d \<le> e) \<or> day_in d spans"
  by (auto simp: day_in_def)

lemma firstUncovered_iff:
  "sorted (map fst spans) \<Longrightarrow>
   final < firstUncovered nxt spans \<longleftrightarrow> (\<forall>d. nxt \<le> d \<and> d \<le> final \<longrightarrow> day_in d spans)"
proof (induction nxt spans rule: firstUncovered.induct)
  case (1 nxt)
  then show ?case by auto
next
  case (2 nxt s e spans)
  show ?case
  proof (cases "nxt < s")
    case True
    with 2 have "\<not> day_in nxt ((s, e) # spans)" by (auto simp: day_in_def)
    with True show ?thesis by auto
  next
    case False
    from 2 have sorted: "sorted (map fst spans)" by simp
    have split: "(nxt \<le> d \<and> d \<le> final \<longrightarrow> day_in d ((s, e) # spans)) \<longleftrightarrow>
        (max nxt (e + 1) \<le> d \<and> d \<le> final \<longrightarrow> day_in d spans)" for d
      using False by auto
    have "final < firstUncovered nxt ((s, e) # spans) \<longleftrightarrow> final < firstUncovered (max nxt (e + 1)) spans"
      using False by simp
    also have "\<dots> \<longleftrightarrow> (\<forall>d. nxt \<le> d \<and> d \<le> final \<longrightarrow> day_in d ((s, e) # spans))"
      unfolding split by (rule "2.IH" [OF False sorted])
    finally show ?thesis .
  qed
qed

text \<open>The days a row of the history speaks of.\<close>

definition row_covers :: "ProvisionalHistoryCoverage \<Rightarrow> int \<Rightarrow> bool" where
  "row_covers h d = (case historySpan h of None \<Rightarrow> False | Some (s, e) \<Rightarrow> s \<le> d \<and> d \<le> e)"

lemma those_map_total: "(\<And>x. x \<in> set xs \<Longrightarrow> f x \<noteq> None) \<Longrightarrow> those (map f xs) = Some (map (the \<circ> f) xs)"
proof (induction xs)
  case (Cons x xs)
  then obtain y where "f x = Some y" by fastforce
  with Cons show ?case by simp
qed simp

lemma valid_history_span: "validHistoryCoverage h \<Longrightarrow> \<exists>s e. historySpan h = Some (s, e)"
  by (auto simp: validHistoryCoverage_def validLocalDateText_def historySpan_def dayOf_def)

lemma span_sorted: "sorted (map fst (js_sort (\<lambda>a b. fst a - fst b) (spans :: (int \<times> int) list)))"
proof (induction spans)
  case (Cons p ps)
  have "sorted (map fst xs) \<Longrightarrow> sorted (map fst (sort_insert (\<lambda>a b. fst a - fst b) p xs))" for xs :: "(int \<times> int) list"
    by (induction xs) auto
  with Cons show ?case by simp
qed simp

lemma historyGaps_days:
  assumes "list_all validHistoryCoverage rows" and "dayOf from = Some first" and "dayOf to = Some final"
  shows "historyGaps rows from to = Some
    (if \<exists>h\<in>set rows. historyStatus h = History_gap_status \<and> (\<exists>s e. historySpan h = Some (s, e) \<and> s \<le> final \<and> first \<le> e)
     then [History_gap]
     else if \<forall>d. first \<le> d \<and> d \<le> final \<longrightarrow> (\<exists>h\<in>set rows. historyStatus h = History_complete \<and> row_covers h d)
     then [] else [History_coverage_unknown])"
proof -
  define spans where "spans st = map (the \<circ> historySpan) (filter (\<lambda>h. historyStatus h = st) rows)" for st
  have total: "those (map historySpan (filter (\<lambda>h. historyStatus h = st) rows)) = Some (spans st)" for st
    unfolding spans_def using assms(1) by (intro those_map_total) (auto simp: list_all_iff dest: valid_history_span)
  have member: "p \<in> set (spans st) \<longleftrightarrow> (\<exists>h\<in>set rows. historyStatus h = st \<and> historySpan h = Some p)" for p st
    using assms(1) unfolding spans_def by (force simp: list_all_iff dest: valid_history_span)
  have gap: "list_ex (\<lambda>(s, e). s \<le> final \<and> first \<le> e) (spans History_gap_status) \<longleftrightarrow>
      (\<exists>h\<in>set rows. historyStatus h = History_gap_status \<and> (\<exists>s e. historySpan h = Some (s, e) \<and> s \<le> final \<and> first \<le> e))"
    unfolding list_ex_iff using member by fastforce
  have covered: "day_in d (spans History_complete) \<longleftrightarrow>
      (\<exists>h\<in>set rows. historyStatus h = History_complete \<and> row_covers h d)" for d
    unfolding day_in_def row_covers_def using member by (fastforce split: option.splits)
  have sweep: "final < firstUncovered first (js_sort (\<lambda>a b. fst a - fst b) (spans History_complete)) \<longleftrightarrow>
      (\<forall>d. first \<le> d \<and> d \<le> final \<longrightarrow> (\<exists>h\<in>set rows. historyStatus h = History_complete \<and> row_covers h d))"
    unfolding firstUncovered_iff [OF span_sorted] covered [symmetric] by (simp add: day_in_def)
  show ?thesis
    unfolding historyGaps_def assms total gap [symmetric] sweep [symmetric] by simp
qed

section \<open>Where flags reach\<close>

text \<open>\<open>(x, y)\<close>: the row \<open>y\<close> was superseded at the cut by the row \<open>x\<close>.\<close>

definition superseded_rel :: "SelectedRevision list \<Rightarrow> (string \<times> string) set" where
  "superseded_rel sel = {(x, y). \<exists>p\<in>set (predecessors sel x). refOf p = y}"

lemma reachRows_fresh:
  "distinct (map refOf (reachRows sel seen stack)) \<and> refOf ` set (reachRows sel seen stack) \<inter> set seen = {}"
  by (induction sel seen stack rule: reachRows.induct) auto

lemma reachRows_sound:
  "r \<in> set (reachRows sel seen stack) \<Longrightarrow> \<exists>h\<in>set stack. (refOf h, refOf r) \<in> (superseded_rel sel)\<^sup>*"
proof (induction sel seen stack rule: reachRows.induct)
  case (2 sel seen h stack)
  consider "refOf h \<in> set seen" | "refOf h \<notin> set seen" "r = h"
    | "refOf h \<notin> set seen" "r \<in> set (reachRows sel (refOf h # seen) (rev (predecessors sel (refOf h)) @ stack))"
    using "2.prems" by (auto split: if_splits)
  then show ?case
  proof cases
    case 1
    then show ?thesis using 2 by auto
  next
    case 3
    with "2.IH"(2) obtain k where k: "k \<in> set (predecessors sel (refOf h)) \<union> set stack"
      "(refOf k, refOf r) \<in> (superseded_rel sel)\<^sup>*" by auto
    then show ?thesis
      by (auto simp: superseded_rel_def intro: converse_rtrancl_into_rtrancl)
  qed auto
qed simp

text \<open>What was seen or returned is closed under the relation, as long as what was seen leads into it.\<close>

lemma reachRows_closed:
  assumes "\<And>x y. x \<in> set seen \<Longrightarrow> (x, y) \<in> superseded_rel sel \<Longrightarrow> y \<in> set seen \<union> refOf ` set stack"
  shows "refOf ` set stack \<subseteq> set seen \<union> refOf ` set (reachRows sel seen stack) \<and>
    (\<forall>x y. x \<in> set seen \<union> refOf ` set (reachRows sel seen stack) \<longrightarrow> (x, y) \<in> superseded_rel sel \<longrightarrow>
       y \<in> set seen \<union> refOf ` set (reachRows sel seen stack))"
  using assms
proof (induction sel seen stack rule: reachRows.induct)
  case (1 sel seen)
  then show ?case by auto
next
  case (2 sel seen h stack)
  show ?case
  proof (cases "refOf h \<in> set seen")
    case True
    with "2.prems" have "y \<in> set seen \<union> refOf ` set stack" if "x \<in> set seen" "(x, y) \<in> superseded_rel sel" for x y
      using that by auto
    from "2.IH"(1) [OF True this] True show ?thesis by simp
  next
    case False
    let ?rest = "rev (predecessors sel (refOf h)) @ stack"
    let ?S = "set (refOf h # seen) \<union> refOf ` set (reachRows sel (refOf h # seen) ?rest)"
    have lead: "\<And>x y. x \<in> set (refOf h # seen) \<Longrightarrow> (x, y) \<in> superseded_rel sel \<Longrightarrow>
        y \<in> set (refOf h # seen) \<union> refOf ` set ?rest"
      using "2.prems" by (auto simp: superseded_rel_def)
    have step: "refOf ` set ?rest \<subseteq> ?S \<and> (\<forall>x y. x \<in> ?S \<longrightarrow> (x, y) \<in> superseded_rel sel \<longrightarrow> y \<in> ?S)"
      by (rule "2.IH"(2) [OF False]) (fact lead)
    have same: "?S = set seen \<union> refOf ` set (reachRows sel seen (h # stack))" using False by simp
    from step have "refOf ` set (h # stack) \<subseteq> ?S" by auto
    with step show ?thesis unfolding same by blast
  qed
qed

lemma reachRows_set: "refOf ` set (reachRows sel [] [head]) = {x. (refOf head, x) \<in> (superseded_rel sel)\<^sup>*}"
proof -
  let ?R = "refOf ` set (reachRows sel [] [head])"
  from reachRows_closed [of "[]" sel "[head]"]
  have start: "refOf head \<in> ?R" and closed: "\<And>x y. x \<in> ?R \<Longrightarrow> (x, y) \<in> superseded_rel sel \<Longrightarrow> y \<in> ?R" by auto
  have "x \<in> ?R" if "(refOf head, x) \<in> (superseded_rel sel)\<^sup>*" for x
    using that by (induction rule: rtrancl_induct) (use start closed in blast)+
  moreover have "(refOf head, x) \<in> (superseded_rel sel)\<^sup>*" if "x \<in> ?R" for x
    using that reachRows_sound [of _ sel "[]" "[head]"] by auto
  ultimately show ?thesis by blast
qed

text \<open>The walk returns each row once.\<close>

lemma flags_reach_closure:
  "refOf ` set (reachRows sel [] [head]) = {x. (refOf head, x) \<in> (superseded_rel sel)\<^sup>*} \<and>
   distinct (map refOf (reachRows sel [] [head]))"
  using reachRows_set reachRows_fresh [of sel "[]" "[head]"] by blast

end
