(* ===== verification/Reconstruction_Total.thy ===== *)
theory Reconstruction_Total
  imports Reconstruction_Records Reconstruction_Explained Reconstruction_Coverage
begin

text \<open>
  The fold returns: each place where the code would throw (an instant that does not parse, a date that does
  not parse, a total of unequal units, a missing start, a leg without outcome) is out of reach.
\<close>

section \<open>Captures\<close>

text \<open>The dates the fold formats keep four digits of year: those of the captures and the day after the start.\<close>

definition dated_capture :: "string \<Rightarrow> bool" where
  "dated_capture t \<longleftrightarrow> (case captureTokyoDate t of None \<Rightarrow> False | Some d \<Rightarrow> validLocalDateText d)"

definition four_digit_years :: "ReconstructionInput \<Rightarrow> bool" where
  "four_digit_years x \<longleftrightarrow>
     list_all (\<lambda>(ref, account, t). dated_capture t) (sideRows (inStart x) @ sideRows (inEnd x)) \<and>
     (case parseLocalDate (reqStart (inRequest x)) of
        None \<Rightarrow> True
      | Some d \<Rightarrow> 0 \<le> year (addDays d 1) \<and> year (addDays d 1) \<le> 9999)"

lemma picked_capture:
  assumes "pickSide s account u = Start_row r"
  shows "\<exists>ref. (ref, account, startCapturedAt r) \<in> set (sideRows s)"
  using assms unfolding pickSide_def
  by (rule pickRow_row) (force simp: sideRows_def balanceRow_def positionRow_def)+

lemma checked_capture:
  assumes "checkReportedSide s date code = None" and "(ref, account, t) \<in> set (sideRows s)"
  shows "validInstantText t"
  using assms
  by (auto simp: checkReportedSide_def sideRows_def list_all_iff validReportedBalance_def validReportedPosition_def Let_def
      split: if_splits)

lemma frame_captures:
  assumes "refusedInput x = None" and "four_digit_years x" and "frame \<in> set (inFrames x)"
  shows "startRowOf frame = Some s \<Longrightarrow> validInstantText (startCapturedAt s) \<and> dated_capture (startCapturedAt s)"
    and "endRowOf frame = Some e \<Longrightarrow> validInstantText (startCapturedAt e) \<and> dated_capture (startCapturedAt e)"
proof -
  have good: "validInstantText (startCapturedAt r) \<and> dated_capture (startCapturedAt r)"
    if "pickSide s account u = Start_row r" "s = inStart x \<or> s = inEnd x" for s account u r
  proof -
    from picked_capture [OF that(1)] obtain ref where "(ref, account, startCapturedAt r) \<in> set (sideRows s)" by blast
    moreover from this that(2) assms(2) have "dated_capture (startCapturedAt r)"
      by (fastforce simp: four_digit_years_def list_all_iff)
    ultimately show ?thesis using that(2) accepted_input(3,4) [OF assms(1)] checked_capture by blast
  qed
  from assms(3) [unfolded inFrames_def]
  have both: "(startRowOf frame = Some s \<longrightarrow> validInstantText (startCapturedAt s) \<and> dated_capture (startCapturedAt s)) \<and>
      (endRowOf frame = Some e \<longrightarrow> validInstantText (startCapturedAt e) \<and> dated_capture (startCapturedAt e))" for s e
    by (rule frame_cases)
      (use good in \<open>fastforce simp: startRowOf_def endRowOf_def endOutcome_def split: StartOutcome.splits if_splits\<close>)+
  show "startRowOf frame = Some s \<Longrightarrow> validInstantText (startCapturedAt s) \<and> dated_capture (startCapturedAt s)"
    using both by blast
  show "endRowOf frame = Some e \<Longrightarrow> validInstantText (startCapturedAt e) \<and> dated_capture (startCapturedAt e)"
    using both by blast
qed

lemma captureOrder_total: "validInstantText a \<Longrightarrow> validInstantText b \<Longrightarrow> captureOrder a b \<noteq> None"
  by (auto simp: captureOrder_def validInstantText_def compareInstants_def)

lemma inverted_total:
  assumes "refusedInput x = None" and "four_digit_years x" and "frame \<in> set (inFrames x)"
  shows "invertedEnd frame \<noteq> None" and "sameCapture frame \<noteq> None"
  using frame_captures [OF assms] captureOrder_total
  by (auto simp: invertedEnd_def sameCapture_def split: option.splits)

section \<open>The window's history\<close>

lemma windowDates_total:
  assumes "refusedInput x = None" and "four_digit_years x" and "frame \<in> set (inFrames x)"
  shows "\<exists>from to. windowDates (windowOf frame (inRequest x) inverted) = Some (Some from, Some to) \<and>
    validLocalDateText from \<and> validLocalDateText to"
proof -
  note request = accepted_input(1) [OF assms(1)]
  from request obtain d where d: "parseLocalDate (reqStart (inRequest x)) = Some d"
    by (auto simp: validReconstructionRequest_def validLocalDateText_def)
  then have next_day: "validLocalDateText (formatLocalDate (addDays d 1))"
    using assms(2) daysFromCivil_civilFromDays [of "daysFromCivil d + 1"] parse_format_date [of "addDays d 1"]
    by (simp add: four_digit_years_def validLocalDateText_def addDays_def)
  have final_day: "validLocalDateText (reqEnd (inRequest x))" using request by (simp add: validReconstructionRequest_def)
  show ?thesis
    using frame_captures [OF assms] d next_day final_day
    by (cases "startRowOf frame"; cases "endRowOf frame"; cases inverted)
      (auto simp: windowOf_def boundOf_def windowDates_def dated_capture_def split: option.splits)
qed

lemma windowHistory_total:
  assumes "refusedInput x = None" and "four_digit_years x" and "frame \<in> set (inFrames x)"
  shows "windowHistoryGaps (historyRows (inSelection x) account) (windowOf frame (inRequest x) inverted) \<noteq> None"
proof -
  obtain fd td where w: "windowDates (windowOf frame (inRequest x) inverted) = Some (Some fd, Some td)"
    "validLocalDateText fd" "validLocalDateText td" using windowDates_total [OF assms] by blast
  then obtain first final where days: "dayOf fd = Some first" "dayOf td = Some final"
    by (auto simp: validLocalDateText_def dayOf_def)
  have "list_all validHistoryCoverage (historyRows (inSelection x) account)"
    using checked_rows(3) [OF accepted_input(5) [OF assms(1)]] by (auto simp: historyRows_def list_all_iff)
  from historyGaps_days [OF this days] w(1) show ?thesis by (simp add: windowHistoryGaps_def)
qed

section \<open>Totals\<close>

lemma counted_exact:
  assumes "disposition (classifyLeg v policy basis place known) \<in> set COUNTED"
  shows "is_exact (provQuantity (viewLeg v))"
proof -
  have "disposition (classifyPlaced l r policy b p k) \<in> set COUNTED \<Longrightarrow> is_exact (provQuantity l)" for l r b p k
    by (auto simp: classifyPlaced_def classified_def Let_def COUNTED_def split: if_splits)
  with assms show ?thesis
    by (auto simp: classifyLeg_def Let_def classified_def COUNTED_def split: if_splits option.splits)
qed

lemma foldCell_views:
  assumes "plain_legs legs" and "plain_account (frameAccount frame)" and "(v, c) \<in> set (foldCell frame request policy legs window)"
  shows "v \<in> set legs" and "frameUnitRef frame = Some (unitRef (provQuantity (viewLeg v)))"
    and "disposition c \<in> set COUNTED \<Longrightarrow> is_exact (provQuantity (viewLeg v))"
proof -
  from assms(3) obtain u where u: "frameUnitRef frame = Some u"
    by (cases "frameUnitRef frame") (auto simp: foldCell_def)
  with assms show "v \<in> set legs" and "frameUnitRef frame = Some (unitRef (provQuantity (viewLeg v)))"
    by (auto simp: foldCell_def legsAt_cell legsAt_stray leg_pair_def)
  from assms(3) u have "c = classifyLeg v policy (reqBasis request)
      (placer policy (reqBasis request) (fst window) (snd window)) (provAccount (viewLeg v) \<noteq> None)"
    by (auto simp: foldCell_def)
  then show "disposition c \<in> set COUNTED \<Longrightarrow> is_exact (provQuantity (viewLeg v))" using counted_exact by blast
qed

lemma totalOf_total:
  assumes "\<And>v. v \<in> set views \<Longrightarrow> exact_in u (provQuantity (viewLeg v))"
  shows "totalOf u views \<noteq> None"
proof -
  have "list_all (exact_in u) (map (signed \<circ> viewLeg) views)"
    using assms by (auto simp: list_all_iff exact_in_def signed_exact)
  then have "sumQuantities u (map (signed \<circ> viewLeg) views) =
      Inr (exactQuantity u (sumDecimals (concat (map exact_part (map (signed \<circ> viewLeg) views)))))"
    by (simp only: sumQuantities_Inr simp_thms)
  then show ?thesis by (simp add: totalOf_def)
qed

lemma viewsWith_total:
  assumes "plain_legs legs" and "plain_account (frameAccount frame)" and "d \<in> set COUNTED"
    and "\<And>u. frameUnitRef frame = Some u \<Longrightarrow> frameUnit frame = u"
  shows "totalOf (frameUnit frame) (viewsWith d (foldCell frame request policy legs window)) \<noteq> None"
proof (rule totalOf_total)
  fix v assume "v \<in> set (viewsWith d (foldCell frame request policy legs window))"
  then obtain c where c: "(v, c) \<in> set (foldCell frame request policy legs window)" "disposition c = d"
    by (auto simp: viewsWith_def)
  note views = foldCell_views [OF assms(1,2) c(1)]
  with c(2) assms(3,4) show "exact_in (frameUnit frame) (provQuantity (viewLeg v))" by (simp add: exact_in_def)
qed

lemma frame_plain:
  assumes "plain_accounts x" and "frame \<in> set (inFrames x)"
  shows "plain_account (frameAccount frame)" and "plain_legs (inLegs x)" and "frameUnitRef frame = Some u \<Longrightarrow> frameUnit frame = u"
  using assms unfolding inFrames_def plain_accounts_def list_all_iff by (auto elim!: frame_cases)

section \<open>The cell and the records\<close>

lemma figure_total:
  assumes "refusedInput x = None" and "frame \<in> set (inFrames x)"
  shows "figureOf frame (sortedGaps (foundGaps frame (inStart x) selection reach items conflicted history) unknown) q \<noteq> None"
proof (cases "startRowOf frame")
  case None
  then obtain g where g: "g \<in> set (startGaps frame)" by (auto simp: startRowOf_def startGaps_def split: StartOutcome.splits)
  let ?gaps = "sortedGaps (foundGaps frame (inStart x) selection reach items conflicted history) unknown"
  have "g \<in> set ?gaps"
    using g start_gap_absent [OF assms(2) g] foundGaps_start absent_gap_listed by (blast intro: sortedGaps_keep)
  then have "List.find (\<lambda>g. g \<in> set ABSENT_GAPS) ?gaps \<noteq> None"
    using start_gap_absent [OF assms(2) g] by (auto simp: find_None_iff)
  then show ?thesis by (auto simp: figureOf_def)
qed (simp add: figureOf_def split: option.splits)

lemma comparability_total:
  assumes "sameCapture frame \<noteq> None"
  shows "comparability frame request final inverted part \<noteq> None"
  using assms by (cases "frameEnd frame") (auto simp: comparability_def endRowOf_def simp del: not_None_eq)

definition plain_baseline :: "ReconstructionInput \<Rightarrow> bool" where
  "plain_baseline x \<longleftrightarrow> (case inBaseline x of None \<Rightarrow> True | Some b \<Rightarrow> plain_legs (legViews (selRevisions b)))"

lemma cell_total:
  assumes "refusedInput x = None" and "four_digit_years x" and "plain_accounts x" and "plain_baseline x"
    and "frame \<in> set (inFrames x)" and "foldFrame x frame = Some f"
  shows "cellOf x f \<noteq> None"
proof -
  note folded = foldFrame_Some [OF assms(6)]
  note plain = frame_plain [OF assms(3,5)]
  obtain history where history: "windowHistoryGaps (historyRows (inSelection x) (frameAccount frame)) (foldedWindow f) = Some history"
    using windowHistory_total [OF assms(1,2,5)] folded(3) by fastforce
  have totals: "\<exists>q. totalOf (frameUnit frame) (viewsWith d (foldedItems f)) = Some q" if "d \<in> set COUNTED" for d
    using viewsWith_total [OF plain(2,1) that plain(3)] unfolding folded(4) by simp
  then obtain a p b where totals: "totalOf (frameUnit frame) (viewsWith Applied (foldedItems f)) = Some a"
    "totalOf (frameUnit frame) (viewsWith Pending_shown_apart (foldedItems f)) = Some p"
    "totalOf (frameUnit frame) (viewsWith Boundary_same_day (foldedItems f)) = Some b"
    by (fastforce simp: COUNTED_def)
  let ?gaps = "sortedGaps (foundGaps frame (inStart x) (inSelection x) (inReach x) (foldedItems f) (foldedConflicts f) history)
    (blockedRefs (foldedItems f))"
  obtain q where figure: "figureOf frame ?gaps a = Some q" using figure_total [OF assms(1,5)] by fastforce
  obtain status reason where comparable: "comparability frame (inRequest x) (inEnd x) (foldedInverted f) (figurePartition q ?gaps) =
      Some (status, reason)"
    using comparability_total [OF inverted_total(2) [OF assms(1,2,5)]] by fastforce
  have late: "lateRecorded frame (inRequest x) (inPolicy x) (map_option (\<lambda>b. legViews (selRevisions b)) (inBaseline x))
      (foldedWindow f) reason a (viewsWith Applied (foldedItems f)) \<noteq> None"
  proof (cases "inBaseline x")
    case (Some bl)
    with assms(4) have "plain_legs (legViews (selRevisions bl))" by (simp add: plain_baseline_def)
    then have "totalOf (frameUnit frame)
        (appliedOf (foldCell frame (inRequest x) (inPolicy x) (legViews (selRevisions bl)) (foldedWindow f))) \<noteq> None"
      unfolding appliedOf_def by (rule viewsWith_total [OF _ plain(1) _ plain(3)]) (simp_all add: COUNTED_def)
    with Some show ?thesis by (auto simp: lateRecorded_def lateOf_def)
  qed (simp add: lateRecorded_def)
  then obtain l where "lateRecorded frame (inRequest x) (inPolicy x) (map_option (\<lambda>b. legViews (selRevisions b)) (inBaseline x))
      (foldedWindow f) reason a (viewsWith Applied (foldedItems f)) = Some l" by blast
  with history totals figure comparable folded(1) show ?thesis by (simp add: cellOf_def Let_def)
qed

lemma stray_total:
  assumes "plain_accounts x" and "map (foldFrame x) (inFrames x) = map Some fs" and "v \<in> set (inLegs x)" and "isStray x v"
  shows "strayRecord fs (viewRef v, v) \<noteq> None"
proof -
  from assms(4) obtain frame where frame: "frame \<in> set (inFrames x)" "frameUnitRef frame = Some (unitRef (provQuantity (viewLeg v)))"
    and none: "provAccount (viewLeg v) = None"
    by (auto simp: isStray_def cellUnitsOf_def set_map_filter_some)
  from frame(1) assms(2) obtain f where f: "f \<in> set fs" "foldFrame x frame = Some f"
    by (metis (mono_tags, lifting) image_iff image_set)
  note plain = frame_plain [OF assms(1) frame(1)]
  have "v \<in> set (legsAt (inLegs x) (CHR 0x01 # unitRef (provQuantity (viewLeg v))))"
    using assms(3) none by (simp add: legsAt_stray [OF plain(2)])
  then obtain c where "(v, c) \<in> set (foldedItems f)"
    unfolding foldFrame_Some(4) [OF f(2)] by (auto simp: foldCell_def frame(2))
  with none have "c \<in> set (map snd (filter (\<lambda>(w, c). provAccount (viewLeg w) = None \<and> viewRef w = viewRef v) (foldedItems f)))"
    by force
  with f(1) have "c \<in> set (strayOutcomes fs (viewRef v))" unfolding strayOutcomes_def by auto
  then have "strayOutcomes fs (viewRef v) \<noteq> []" by auto
  then have "js_sort (\<lambda>a b. severity a - severity b) (strayOutcomes fs (viewRef v)) \<noteq> []" by simp
  then show ?thesis unfolding strayRecord_def by (auto split: list.split)
qed

lemma those_total: "(\<And>x. x \<in> set xs \<Longrightarrow> f x \<noteq> None) \<Longrightarrow> \<exists>ys. those (map f xs) = Some ys"
  using those_map_total by blast

lemma foldState_total:
  assumes "refusedInput x = None" and "four_digit_years x" and "plain_accounts x" and "plain_baseline x"
  shows "foldState x \<noteq> None"
proof -
  have "foldFrame x frame \<noteq> None" if "frame \<in> set (inFrames x)" for frame
    using inverted_total(1) [OF assms(1,2) that] by (simp add: foldFrame_def)
  then obtain fs where fs: "those (map (foldFrame x) (inFrames x)) = Some fs" using those_total by blast
  note maps = those_SomeD [OF fs]
  have "cellOf x f \<noteq> None" if "f \<in> set fs" for f
    using map_SomeD [OF maps that] cell_total [OF assms] by blast
  then obtain cells where cells: "those (map (cellOf x) fs) = Some cells" using those_total by blast
  have "strayRecord fs p \<noteq> None" if "p \<in> set (strayViews x)" for p
    using that stray_total [OF assms(3) maps] by (auto simp: strayViews_list [OF inLegs_distinct [OF assms(1)]])
  then obtain strays where "those (map (strayRecord fs) (strayViews x)) = Some strays" using those_total by blast
  with fs cells show ?thesis by (simp add: foldState_def recordsOf_def Let_def)
qed

lemma reconstruction_result:
  assumes "four_digit_years x" and "plain_accounts x" and "plain_baseline x"
  shows "reconstructState x \<noteq> None"
  using foldState_total [OF _ assms] by (auto simp: reconstructState_def split: option.splits)

end
