(* ===== verification/Reconstruction_Flags.thy ===== *)
theory Reconstruction_Flags
  imports Reconstruction_Total
begin

section \<open>Flags\<close>

lemma reachRows_rows: "set (reachRows sel seen stack) \<subseteq> set stack \<union> set (map selectedRow sel)"
proof (induction sel seen stack rule: reachRows.induct)
  case (2 sel seen r stack)
  have "set (predecessors sel (refOf r)) \<subseteq> set (map selectedRow sel)" by (auto simp: predecessors_def)
  with 2 show ?case by auto
qed simp

text \<open>A row the closure reaches is returned by the walk itself, since references tell rows apart.\<close>

lemma reached_row:
  assumes "distinct (map refOf (map selectedRow sel))" and "head \<in> set (map selectedRow sel)" and "r \<in> set (map selectedRow sel)"
    and "(refOf head, refOf r) \<in> (superseded_rel sel)\<^sup>*"
  shows "r \<in> set (reachRows sel [] [head])"
proof -
  have "refOf r \<in> refOf ` set (reachRows sel [] [head])" unfolding reachRows_set using assms(4) by simp
  then obtain t where t: "t \<in> set (reachRows sel [] [head])" "refOf t = refOf r" by fastforce
  with reachRows_rows [of sel "[]" "[head]"] assms(2) have "t \<in> set (map selectedRow sel)" by auto
  with t assms(1,3) have "t = r" unfolding distinct_map by (auto dest: inj_onD)
  with t show ?thesis by simp
qed

lemma takeWhile_plain: "CHR 0x00 \<notin> set a \<Longrightarrow> takeWhile (\<lambda>c. c \<noteq> CHR 0x00) (a @ CHR 0x00 # u) = a"
  by (induction a) auto

lemma dropWhile_plain: "CHR 0x00 \<notin> set a \<Longrightarrow> dropWhile (\<lambda>c. c \<noteq> CHR 0x00) (a @ CHR 0x00 # u) = CHR 0x00 # u"
  by (induction a) auto

lemma key_parts:
  assumes "plain_account a" and "CHR 0x00 \<notin> set u"
  shows "keyOwner (cellKey a u) = a" and "keyUnit (cellKey a u) = u"
  using assms takeWhile_plain [of u "[]"]
  by (auto simp: keyOwner_def keyUnit_def cellKey_def plain_account_def takeWhile_plain dropWhile_plain takeWhile_eq_all_conv)

lemma noted_keys: "fst ` set (foldl noteUnit keyed ns) = fst ` set keyed \<union> fst ` set ns"
proof (induction ns arbitrary: keyed)
  case (Cons n ns)
  have "fst ` set (noteUnit keyed n) = insert (fst n) (fst ` set keyed)"
    using arg_cong [OF noteUnit_keys [of keyed n], of set] by auto
  with Cons show ?case by simp
qed simp

text \<open>A cell of a key that a flagged row reaches exists, and a pair of frames is a cell.\<close>

lemma reached_frame:
  assumes "(cellKey a u, flags) \<in> set (reachCells (inReach x))" and "a \<in> set (reqAccounts (inRequest x))"
    and "plain_account a" and "CHR 0x00 \<notin> set u"
  shows "\<exists>frame\<in>set (inFrames x). frameAccount frame = a \<and> frameUnitRef frame = Some u"
proof -
  have "(u, Flow_only) \<in> set (reachNotes (inReach x) a)"
    using assms(1) key_parts [OF assms(3,4)] by (force simp: reachNotes_def)
  then have "u \<in> fst ` set (foldl noteUnit [] (sideNotes (inStart x) a @ sideNotes (inEnd x) a @
      legNotes (inBasis x) (inLegs x) a @ reachNotes (inReach x) a))"
    unfolding noted_keys by force
  then have "(a, u) \<in> set (frame_pairs (accountFrames (inBasis x) (inStart x) (inEnd x) (inLegs x) (inReach x) a))"
    unfolding accountFrames_pairs by auto
  with assms(2) have "\<exists>frame\<in>set (inFrames x). frame_pair frame = Some (a, u)"
    by (auto simp: frame_pairs_def set_map_filter_some inFrames_def frames_def inBasis_def)
  then show ?thesis by (auto simp: frame_pair_def)
qed

lemma frame_cell:
  assumes "reconstructState x = Some (Inr st)" and "frame \<in> set (inFrames x)"
  obtains f c where "foldFrame x frame = Some f" "cellOf x f = Some c" "c \<in> set (stateCells st)"
proof -
  obtain fs unsorted where fs: "map (foldFrame x) (inFrames x) = map Some fs" "map (cellOf x) fs = map Some unsorted"
    and cells: "stateCells st = js_sort cellOrder unsorted"
    using reconstructState_Inr(2) [OF assms(1)] by (rule foldState_parts)
  from fs(1) assms(2) obtain f where f: "f \<in> set fs" "foldFrame x frame = Some f"
    by (metis (mono_tags, lifting) image_iff image_set)
  from fs(2) f(1) obtain c where "c \<in> set unsorted" "cellOf x f = Some c"
    by (metis (mono_tags, lifting) image_iff image_set)
  with f cells that show thesis by simp
qed

lemma reached_gap:
  assumes "(cellKey (frameAccount frame) u, flags) \<in> set (reachCells (inReach x))" and "flag \<in> set flags"
    and "frameUnitRef frame = Some u" and "foldFrame x frame = Some f" and "cellOf x f = Some c"
  shows "Gap_flag flag \<in> set (cellGaps c)" and "Gap_flag flag \<in> set ABSENT_GAPS"
proof -
  have "flag \<in> set PROVISIONAL_REVISION_FLAGS" by (cases flag) (simp_all add: PROVISIONAL_REVISION_FLAGS_def)
  then have listed: "Gap_flag flag \<in> set RECONSTRUCTION_GAPS" by (auto simp: RECONSTRUCTION_GAPS_def)
  then show "Gap_flag flag \<in> set ABSENT_GAPS" by (simp add: ABSENT_GAPS_def SCOPE_GAPS_def)
  have "Gap_flag flag \<in> set (reachGaps (inReach x) frame)"
    using assms(1-3) by (force simp: reachGaps_def flagsAt_def)
  moreover obtain history where "cellGaps c = sortedGaps (foundGaps frame (inStart x) (inSelection x) (inReach x) (foldedItems f)
       (foldedConflicts f) history) (blockedRefs (foldedItems f))"
    using assms(5) unfolding foldFrame_Some(1) [OF assms(4), symmetric] by (rule cellOf_parts)
  ultimately show "Gap_flag flag \<in> set (cellGaps c)" using listed by (auto simp: foundGaps_def intro: sortedGaps_keep)
qed

lemma flags_on_cells:
  assumes "reconstructState x = Some (Inr st)" and "plain_account a" and "a \<in> set (reqAccounts (inRequest x))"
    and "s \<in> set (selRevisions (inSelection x))" and "selectedStatus s = Active" and "flag \<in> set (provFlags (selectedRow s))"
    and "t \<in> set (selRevisions (inSelection x))"
    and "(refOf (selectedRow s), refOf (selectedRow t)) \<in> (superseded_rel (selRevisions (inSelection x)))\<^sup>*"
    and "l \<in> set (provLegs (selectedRow t))" and "legOnBasis (inBasis x) l" and "provAccount l = Some a"
    and "CHR 0x00 \<notin> set (unitRef (provQuantity l))"
  shows "\<exists>c\<in>set (stateCells st). cellAccount c = a \<and> cellUnitRef c = Some (unitRef (provQuantity l)) \<and>
    Gap_flag flag \<in> set (cellGaps c) \<and> \<not> is_exact (reconstructed c)"
proof -
  let ?sel = "selRevisions (inSelection x)" and ?u = "unitRef (provQuantity l)"
  note accepted = reconstructState_Inr(1) [OF assms(1)]
  have "selectedRow t \<in> set (reachRows ?sel [] [selectedRow s])"
    using checked_rows(1) [OF accepted_input(5) [OF accepted]] assms(4,7,8) by (intro reached_row) auto
  moreover have "selectedRow s \<in> set (filter (\<lambda>r. provFlags r \<noteq> []) (activeRows ?sel))"
    using assms(4-6) by (auto simp: activeRows_def)
  ultimately have "(l, provFlags (selectedRow s)) \<in> set (flaggedLegs ?sel (inBasis x))"
    using assms(9,10) by (force simp: flaggedLegs_def)
  then have key: "(cellKey a ?u, provFlags (selectedRow s)) \<in> set (reachCells (inReach x))"
    using assms(3,11) by (force simp: inReach_def flagReach_def Let_def set_map_filter_some)
  obtain frame where frame: "frame \<in> set (inFrames x)" "frameAccount frame = a" "frameUnitRef frame = Some ?u"
    using reached_frame [OF key assms(3,2,12)] by blast
  obtain f c where c: "foldFrame x frame = Some f" "cellOf x f = Some c" "c \<in> set (stateCells st)"
    using assms(1) frame(1) by (rule frame_cell)
  note gap = reached_gap [OF key [folded frame(2)] assms(6) frame(3) c(1,2)]
  have "\<not> is_exact (reconstructed c)" using cell_figure(1) [OF accepted frame(1) c(1,2)] gap by blast
  moreover have "cellAccount c = a \<and> cellUnitRef c = Some ?u"
    using c(2) unfolding frame(2,3) [symmetric] foldFrame_Some(1) [OF c(1), symmetric] by (rule cellOf_parts) simp
  ultimately show ?thesis using c(3) gap(1) by blast
qed

end
