(* ===== verification/Evaluation.thy ===== *)
theory Evaluation
  imports Civil_Time
begin

text \<open>
  How the examples of the development evaluate texts of dates, instants and numbers: rewriting with these
  bundles reads and writes them digit by digit. Whether a quantity is exact is decided by its constructor.
\<close>

lemma is_exact_code [code]: "is_exact q = (case quantityValue q of ExactValue _ _ \<Rightarrow> True | AbsentValue _ _ \<Rightarrow> False)"
  by (auto simp: is_exact_def split: ValueState.split)

lemma digit_chars:
  "digit_char 0 = CHR ''0''" "digit_char 1 = CHR ''1''" "digit_char (Suc 0) = CHR ''1''" "digit_char 2 = CHR ''2''" "digit_char 3 = CHR ''3''"
  "digit_char 4 = CHR ''4''" "digit_char 5 = CHR ''5''" "digit_char 6 = CHR ''6''" "digit_char 7 = CHR ''7''" "digit_char 8 = CHR ''8''" "digit_char 9 = CHR ''9''"
  using digit_char_char_digit [of "CHR ''0''"] digit_char_char_digit [of "CHR ''1''"] digit_char_char_digit [of "CHR ''2''"]
   digit_char_char_digit [of "CHR ''3''"] digit_char_char_digit [of "CHR ''4''"] digit_char_char_digit [of "CHR ''5''"] digit_char_char_digit [of "CHR ''6''"]
   digit_char_char_digit [of "CHR ''7''"] digit_char_char_digit [of "CHR ''8''"] digit_char_char_digit [of "CHR ''9''"]
  by (simp_all add: is_digit_def char_digit_def)

lemma nine_times: "replicate 9 c = [c, c, c, c, c, c, c, c, c]"
  by (simp add: eval_nat_numeral)

lemmas text_eval = parseInstant_def date_fields_def digit_field_def digits_value_def char_digit_def is_digit_def literal_def
  fraction_field_def offset_field_def padEnd_def parseLocalDate_def civil_def daysInMonth_def isLeapYear_def nine_times

lemmas number_eval = padNumber_def padStart_def int_text_def nat_text.simps digit_chars

end
