(* ===== verification/Reconstruction_Example.thy ===== *)
theory Reconstruction_Example
  imports Reconstruction_Flags Evaluation
begin

text \<open>
  One reconstruction in full: a balance of 1000 yen on 2024-01-01, a purchase of 300 yen posted on 2024-01-10,
  and a balance of 700 yen reported on 2024-01-31; and the same input when the purchase was withdrawn by a
  row that an adapter flagged.
\<close>

section \<open>The input\<close>

definition yen :: "int \<Rightarrow> Quantity" where
  "yen n = exactQuantity ''JPY'' \<lparr>coefficient = n, scale = 0\<rparr>"

definition ex_leg :: ProvisionalLeg where
  "ex_leg = \<lparr>provIndex = 0, provAccount = Some ''a:1'', provQuantity = yen 300, provEffect = Movement, provRole = Decrease,
     ofLegIndex = None, provBasis = Cash_movement\<rparr>"

text \<open>A purchase of 300 yen posted on 2024-01-10, and a withdrawal of it that an adapter flagged.\<close>

definition ex_purchase :: "string option \<Rightarrow> ProvisionalEventRevision" where
  "ex_purchase successor = (ex_row 1 5 successor)\<lparr>provTimes := [\<lparr>timeRole = Posting_role,
     timeValue = LocalDate ''2024-01-10'' (Some ''Asia/Tokyo'') Provider\<rparr>], provLegs := [ex_leg]\<rparr>"

definition ex_withdrawal :: ProvisionalEventRevision where
  "ex_withdrawal = (ex_row 2 9 None)\<lparr>provFlags := [Alias_conflict_flag]\<rparr>"

definition ex_selection :: "SelectedRevision list \<Rightarrow> KnowledgeSelection" where
  "ex_selection rows = \<lparr>selContract = PROVISIONAL_EVENT_CONTRACT, selResolution = Full_chains, selCut = ex_cut 10,
     selVersion = ''v1'', selAdapter = ''a1'', selWriters = [Card_purchase_recognition_v1],
     selPins = setPins ex_set,
     selFamilies = [\<lparr>familyAccount = ''a:1'', families = [''cash''], familyStatus = Evented\<rparr>],
     selHistory = [\<lparr>historyAccount = ''a:1'', historyFrom = ''2023-12-01'', historyTo = ''2024-02-29'',
        historyStatus = History_complete, historyReason = None\<rparr>],
     selRevisions = rows, inconsistentEvents = [], unloggedEvents = [], duplicateClaims = []\<rparr>"

definition ex_rows :: "SelectedRevision list" where
  "ex_rows = [\<lparr>selectedRow = ex_purchase None, selectedStatus = Active, supersededAtCutBy = None\<rparr>]"

definition ex_flagged :: "SelectedRevision list" where
  "ex_flagged = [\<lparr>selectedRow = ex_purchase (Some ''event:1@2''), selectedStatus = Superseded_at_cut,
     supersededAtCutBy = Some ''event:1@2''\<rparr>, \<lparr>selectedRow = ex_withdrawal, selectedStatus = Active, supersededAtCutBy = None\<rparr>]"

definition ex_balance :: "string \<Rightarrow> string \<Rightarrow> int \<Rightarrow> ReconstructionReportedBalance" where
  "ex_balance ref t n = \<lparr>balRef = ref, balAccount = ''a:1'', balMetric = ''cash'', balKind = Stock, balSign = Asset_positive,
     balQuantity = yen n, balSnapshot = ref, balCapturedAt = t\<rparr>"

definition ex_side :: "string \<Rightarrow> string \<Rightarrow> int \<Rightarrow> ReconstructionReportedSide" where
  "ex_side date t n = \<lparr>sideContext = ''ctx'', sideDate = date, accountsWithoutContainer = [],
     sideBalances = [ex_balance (''snapshot:'' @ date) t n], sidePositions = []\<rparr>"

definition ex_input :: "SelectedRevision list \<Rightarrow> ReconstructionInput" where
  "ex_input rows = \<lparr>inRequest = \<lparr>reqAccounts = [''a:1''], reqStart = ''2024-01-01'', reqEnd = ''2024-01-31'',
       reqBasis = Cash_basis, reqKnowledgeAt = ''2024-02-01T00:00:00Z'', reqCut = ex_cut 10\<rparr>,
     inPolicy = RECONSTRUCTION_FOLD_V1, inStart = ex_side ''2024-01-01'' ''2024-01-01T03:00:00Z'' 1000,
     inEnd = ex_side ''2024-01-31'' ''2024-01-31T03:00:00Z'' 700, inSelection = ex_selection rows, inBaseline = None\<rparr>"

section \<open>Dates\<close>

lemma ex_formats: "formatLocalDate \<lparr>year = 2024, month = 1, day = 1\<rparr> = ''2024-01-01''"
  "formatLocalDate \<lparr>year = 2024, month = 1, day = 31\<rparr> = ''2024-01-31''"
  "formatLocalDate \<lparr>year = 2024, month = 2, day = 1\<rparr> = ''2024-02-01''"
  by (simp_all add: formatLocalDate_def number_eval)

lemma ex_days:
  "daysFromCivil \<lparr>year = 2024, month = 1, day = 1\<rparr> = 19723" "daysFromCivil \<lparr>year = 2024, month = 1, day = 31\<rparr> = 19753"
  "daysFromCivil \<lparr>year = 2024, month = 1, day = 10\<rparr> = 19732" "daysFromCivil \<lparr>year = 2024, month = 2, day = 29\<rparr> = 19782"
  "daysFromCivil \<lparr>year = 2023, month = 12, day = 1\<rparr> = 19692" "daysFromCivil \<lparr>year = 2024, month = 2, day = 1\<rparr> = 19754"
  "civilFromDays 19723 = \<lparr>year = 2024, month = 1, day = 1\<rparr>" "civilFromDays 19753 = \<lparr>year = 2024, month = 1, day = 31\<rparr>"
  by code_simp+

lemma ex_parses:
  "parseInstant ''2024-01-01T03:00:00Z'' = Some \<lparr>epochSeconds = 1704078000, nanoseconds = 0, instantLocalDate = ''2024-01-01''\<rparr>"
  "parseInstant ''2024-01-31T03:00:00Z'' = Some \<lparr>epochSeconds = 1706670000, nanoseconds = 0, instantLocalDate = ''2024-01-31''\<rparr>"
  "parseInstant ''2024-01-01T12:00:00+09:00'' = Some \<lparr>epochSeconds = 1704078000, nanoseconds = 0, instantLocalDate = ''2024-01-01''\<rparr>"
  "parseInstant ''2024-01-31T12:00:00+09:00'' = Some \<lparr>epochSeconds = 1706670000, nanoseconds = 0, instantLocalDate = ''2024-01-31''\<rparr>"
  "parseInstant ''2024-02-01T00:00:00Z'' = Some \<lparr>epochSeconds = 1706745600, nanoseconds = 0, instantLocalDate = ''2024-02-01''\<rparr>"
  by (simp_all add: text_eval ex_days ex_formats)

lemma ex_dates_parse:
  "parseLocalDate ''2024-01-01'' = Some \<lparr>year = 2024, month = 1, day = 1\<rparr>"
  "parseLocalDate ''2024-01-31'' = Some \<lparr>year = 2024, month = 1, day = 31\<rparr>"
  "parseLocalDate ''2024-01-10'' = Some \<lparr>year = 2024, month = 1, day = 10\<rparr>"
  "parseLocalDate ''2023-12-01'' = Some \<lparr>year = 2023, month = 12, day = 1\<rparr>"
  "parseLocalDate ''2024-02-29'' = Some \<lparr>year = 2024, month = 2, day = 29\<rparr>"
  by (simp_all add: text_eval)

lemma ex_numbers: "padNumber 12 2 = ''12''" "padNumber 0 2 = ''00''"
  by (simp_all add: number_eval)

lemma ex_tokyo: "tokyoInstant ''2024-01-01T03:00:00Z'' = Some ''2024-01-01T12:00:00+09:00''"
  "tokyoInstant ''2024-01-31T03:00:00Z'' = Some ''2024-01-31T12:00:00+09:00''"
  by (simp_all add: tokyoInstant_def ex_parses ZONE_OFFSET_SECONDS_def Let_def ex_days ex_formats ex_numbers)

lemma ex_capture_dates: "captureTokyoDate ''2024-01-01T03:00:00Z'' = Some ''2024-01-01''"
  "captureTokyoDate ''2024-01-31T03:00:00Z'' = Some ''2024-01-31''"
  by (simp_all add: captureTokyoDate_def ex_tokyo)

lemma ex_place_time: "placeTime (Capture ''2024-01-01T03:00:00Z'') (Capture ''2024-01-31T03:00:00Z'')
    (LocalDate ''2024-01-10'' (Some ''Asia/Tokyo'') Provider) = Inside"
  by (simp add: placeTime_def boundValue_def tokyoInstantValue_def ex_tokyo compareInstantOther_def zonesCompatible_def
      RECONSTRUCTION_ZONE_def ex_parses ex_dates_parse ex_days)

lemma ex_placed: "placer RECONSTRUCTION_FOLD_V1 Cash_basis (Capture ''2024-01-01T03:00:00Z'') (Capture ''2024-01-31T03:00:00Z'')
    (ex_purchase successor) = Inside"
  by (simp add: placer_def ex_purchase_def RECONSTRUCTION_FOLD_V1_def ex_place_time)

lemma ex_history_days: "historyGaps (historyRows (ex_selection ex_rows) ''a:1'') ''2024-01-01'' ''2024-01-31'' = Some []"
  by (simp add: historyGaps_def dayOf_def historySpan_def historyRows_def ex_selection_def ex_dates_parse ex_days)

lemma ex_history: "windowHistoryGaps (historyRows (ex_selection ex_rows) ''a:1'')
    (Capture ''2024-01-01T03:00:00Z'', Capture ''2024-01-31T03:00:00Z'') = Some []"
  by (simp add: windowHistoryGaps_def windowDates_def ex_capture_dates ex_history_days)

section \<open>The cell\<close>

definition ex_start :: ReconstructionStart where
  "ex_start = balanceRow (ex_balance ''snapshot:2024-01-01'' ''2024-01-01T03:00:00Z'' 1000)"

definition ex_end :: ReconstructionStart where
  "ex_end = balanceRow (ex_balance ''snapshot:2024-01-31'' ''2024-01-31T03:00:00Z'' 700)"

definition ex_frame :: CellFrame where
  "ex_frame = \<lparr>frameAccount = ''a:1'', frameMeasure = Balance_measure, frameUnitRef = Some ''JPY'', frameUnit = ''JPY'',
     frameUnidentified = None, frameStart = Start_row ex_start, frameEnd = End_row ex_end\<rparr>"

lemma ex_frames: "inFrames (ex_input ex_rows) = [ex_frame]" by code_simp

definition ex_view :: "SelectedRevision list \<Rightarrow> LegView" where
  "ex_view rows = \<lparr>viewSelected = hd rows, viewLeg = ex_leg, viewRef = ''event:1@1#0''\<rparr>"

lemma ex_views: "legViews ex_rows = [ex_view ex_rows]" by code_simp

lemma ex_cell_legs: "legsAt [ex_view ex_rows] (cellKey ''a:1'' ''JPY'') = [ex_view ex_rows]" by code_simp

lemma ex_stray_legs: "legsAt [ex_view ex_rows] (CHR 0x01 # ''JPY'') = []" by code_simp

lemma ex_capture_order: "captureOrder ''2024-01-31T03:00:00Z'' ''2024-01-01T03:00:00Z'' = Some 1" by (simp add: captureOrder_def compareInstants_def ex_parses)

lemma ex_classified: "classifyLeg (ex_view ex_rows) RECONSTRUCTION_FOLD_V1 Cash_basis (\<lambda>r. Inside) True = classified Applied None (Some Inside)" by code_simp

lemma ex_applied_total: "totalOf ''JPY'' [ex_view ex_rows] = Some (yen (- 300))" by code_simp

lemma ex_empty_total: "totalOf ''JPY'' [] = Some (yen 0)" by code_simp

lemma ex_reach: "inReach (ex_input ex_rows) = \<lparr>reachCells = [], reachUnits = []\<rparr>" by code_simp

lemma ex_start_gaps: "startGaps ex_frame = []" by code_simp

lemma ex_family_gaps: "familyGaps (familyRows (ex_selection ex_rows) ''a:1'') = []" by code_simp

lemma ex_sum: "sumQuantities ''JPY'' [startOriented ex_start, yen (- 300)] = Inr (yen 700)" by code_simp

lemma ex_figure: "figureOf ex_frame [] (yen (- 300)) = Some (yen 700)" by (simp add: figureOf_def startRowOf_def ex_frame_def ex_sum)

lemma ex_duplicates: "duplicatedRefs (ex_selection ex_rows) = []" by code_simp

lemmas ex_defs = ex_input_def ex_side_def ex_selection_def

lemma ex_window: "windowOf ex_frame (inRequest (ex_input rows)) False =
    (Capture ''2024-01-01T03:00:00Z'', Capture ''2024-01-31T03:00:00Z'')"
  by (simp add: windowOf_def boundOf_def startRowOf_def endRowOf_def ex_frame_def ex_start_def ex_end_def balanceRow_def ex_balance_def)

lemma ex_inverted: "invertedEnd ex_frame = Some False"
  by (simp add: invertedEnd_def startRowOf_def endRowOf_def ex_frame_def ex_start_def ex_end_def balanceRow_def ex_balance_def ex_capture_order)

lemma ex_legs: "inLegs (ex_input ex_rows) = [ex_view ex_rows]"
  by (simp add: inLegs_def ex_defs ex_views)

definition ex_folded :: FoldedFrame where
  "ex_folded = \<lparr>foldedFrame = ex_frame, foldedInverted = False,
     foldedWindow = (Capture ''2024-01-01T03:00:00Z'', Capture ''2024-01-31T03:00:00Z''),
     foldedItems = [(ex_view ex_rows, classified Applied None (Some Inside))], foldedConflicts = []\<rparr>"

lemma ex_items: "foldCell ex_frame (inRequest (ex_input ex_rows)) (inPolicy (ex_input ex_rows)) (inLegs (ex_input ex_rows))
    (Capture ''2024-01-01T03:00:00Z'', Capture ''2024-01-31T03:00:00Z'') = [(ex_view ex_rows, classified Applied None (Some Inside))]"
proof -
  have place: "placer RECONSTRUCTION_FOLD_V1 Cash_basis (Capture ''2024-01-01T03:00:00Z'') (Capture ''2024-01-31T03:00:00Z'')
      (selectedRow (viewSelected (ex_view ex_rows))) = Inside"
    by (simp add: ex_view_def ex_rows_def ex_placed)
  have "classifyLeg (ex_view ex_rows) RECONSTRUCTION_FOLD_V1 Cash_basis
      (placer RECONSTRUCTION_FOLD_V1 Cash_basis (Capture ''2024-01-01T03:00:00Z'') (Capture ''2024-01-31T03:00:00Z'')) True =
      classifyLeg (ex_view ex_rows) RECONSTRUCTION_FOLD_V1 Cash_basis (\<lambda>r. Inside) True"
    by (simp only: classifyLeg_def Let_def place)
  moreover have "provAccount (viewLeg (ex_view ex_rows)) \<noteq> None" by (simp add: ex_view_def ex_leg_def)
  ultimately show ?thesis
    by (simp add: foldCell_def ex_legs ex_frame_def ex_cell_legs ex_stray_legs ex_classified) (simp add: ex_input_def)
qed

lemma ex_fold: "foldFrame (ex_input ex_rows) ex_frame = Some ex_folded"
  unfolding foldFrame_def ex_inverted
  by (simp add: ex_window ex_items ex_folded_def conflictedRefs_def Let_def) (simp add: ex_input_def ex_duplicates)

lemma ex_cell:
  assumes "cellOf (ex_input ex_rows) ex_folded = Some c"
  shows "cellGaps c = []" and "reconstructed c = yen 700" and "explReason (explanation c) = None"
    and "cellBoundary c = componentOf [] (yen 0)" and "cellApplied c = componentOf [ex_view ex_rows] (yen (- 300))"
    and "cellStart c = Some ex_start" and "explReported (explanation c) = Some ex_end" and "cellWindow c = foldedWindow ex_folded"
proof -
  have views: "viewsWith Applied (foldedItems ex_folded) = [ex_view ex_rows]" "viewsWith Boundary_same_day (foldedItems ex_folded) = []"
    "viewsWith Pending_shown_apart (foldedItems ex_folded) = []" "blockedRefs (foldedItems ex_folded) = []"
    by (simp_all add: ex_folded_def viewsWith_def classified_def blockedRefs_def refsOf_def isBlocking_def COUNTED_def)
  have frame: "foldedFrame ex_folded = ex_frame" "foldedInverted ex_folded = False" "frameUnit ex_frame = ''JPY''"
    "frameAccount ex_frame = ''a:1''" "frameUnitRef ex_frame = Some ''JPY''" "frameEnd ex_frame = End_row ex_end"
    by (simp_all add: ex_folded_def ex_frame_def)
  have history: "windowHistoryGaps (historyRows (inSelection (ex_input ex_rows)) ''a:1'') (foldedWindow ex_folded) = Some []"
    using ex_history by (simp add: ex_folded_def ex_input_def)
  have gaps: "foundGaps ex_frame (inStart (ex_input ex_rows)) (inSelection (ex_input ex_rows)) (inReach (ex_input ex_rows))
      (foldedItems ex_folded) (foldedConflicts ex_folded) [] = []"
    by (simp add: foundGaps_def ex_reach ex_start_gaps reachGaps_def flagsAt_def frame ex_folded_def classified_def List.map_filter_simps)
      (simp add: ex_input_def ex_family_gaps ex_side_def)
  have sorted: "sortedGaps [] [] = []" by (simp add: sortedGaps_def)
  have rows: "startRowOf ex_frame = Some ex_start" "endRowOf ex_frame = Some ex_end"
    by (simp_all add: ex_frame_def startRowOf_def endRowOf_def)
  have same: "sameCapture ex_frame = Some False"
    by (simp add: sameCapture_def rows) (simp add: ex_start_def ex_end_def balanceRow_def ex_balance_def)
  have metric: "\<not> metricsDiffer ex_frame"
    by (simp add: metricsDiffer_def rows) (simp add: ex_start_def ex_end_def balanceRow_def ex_balance_def)
  have exact: "is_exact (startOriented ex_end)" "is_exact (yen n)" for n
    by (simp_all add: ex_end_def balanceRow_def ex_balance_def yen_def)
  have part: "figurePartition (yen 700) [] = Complete" by (simp add: figurePartition_def exact)
  have comparable: "comparability ex_frame (inRequest (ex_input ex_rows)) (inEnd (ex_input ex_rows)) False Complete =
      Some (Difference_unexplained, None)"
    by (simp add: comparability_def frame same metric rows exact) (simp add: ex_input_def ex_side_def)
  have late: "lateRecorded ex_frame r p (map_option (\<lambda>b. legViews (selRevisions b)) (inBaseline (ex_input ex_rows))) w n q vs = Some None" for r p w n q vs
    by (simp add: lateRecorded_def ex_input_def)
  note facts = assms [unfolded cellOf_def Let_def frame history views ex_applied_total ex_empty_total Option.bind.bind_lunit gaps sorted ex_figure part comparable late prod.case]
  show "cellGaps c = []" "reconstructed c = yen 700" "explReason (explanation c) = None"
    "cellBoundary c = componentOf [] (yen 0)" "cellApplied c = componentOf [ex_view ex_rows] (yen (- 300))"
    "cellStart c = Some ex_start" "explReported (explanation c) = Some ex_end" "cellWindow c = foldedWindow ex_folded"
    using facts by (auto simp: rows)
qed

section \<open>The run\<close>

lemma ex_purchase_valid:
  assumes "case successor of None \<Rightarrow> True | Some s \<Rightarrow> isText 512 s \<and> eventRefText s"
  shows "validProvisionalEventRevision (ex_purchase successor)"
proof -
  have "validProvisionalEventRevision (ex_row 1 5 successor)" using assms by (intro ex_row_valid) (simp_all add: isSafeIntFrom_def MAX_SAFE_INTEGER_def)
  moreover have "validTime \<lparr>timeRole = Posting_role, timeValue = LocalDate ''2024-01-10'' (Some ''Asia/Tokyo'') Provider\<rparr>"
    "validProvisionalLeg ex_leg" "legRefersToMovement [ex_leg] ex_leg" by code_simp+
  ultimately show ?thesis
    by (simp add: validProvisionalEventRevision_def ex_purchase_def ex_row_def js_set_def)
qed

lemma ex_withdrawal_valid: "validProvisionalEventRevision ex_withdrawal"
proof -
  have "validProvisionalEventRevision (ex_row 2 9 None)" by (intro ex_row_valid) (simp_all add: isSafeIntFrom_def MAX_SAFE_INTEGER_def)
  then show ?thesis
    by (simp add: validProvisionalEventRevision_def ex_withdrawal_def ex_row_def PROVISIONAL_REVISION_FLAGS_def)
qed

lemma ex_refs: "refOf (ex_purchase s) = ''event:1@1''" "refOf ex_withdrawal = ''event:1@2''"
proof -
  have "int_text 1 = ''1''" "int_text 2 = ''2''" by code_simp+
  then show "refOf (ex_purchase s) = ''event:1@1''" "refOf ex_withdrawal = ''event:1@2''"
    by (simp_all add: refOf_def ex_purchase_def ex_withdrawal_def ex_row_def)
qed

lemma ex_rows_good: "firstBadRow 0 [] (map selectedRow ex_rows) = None" "firstBadRow 0 [] (map selectedRow ex_flagged) = None"
proof -
  have "isText 512 ''event:1@2''" "eventRefText ''event:1@2''" by code_simp+
  then show "firstBadRow 0 [] (map selectedRow ex_rows) = None" "firstBadRow 0 [] (map selectedRow ex_flagged) = None"
    by (simp_all add: ex_rows_def ex_flagged_def ex_purchase_valid ex_withdrawal_valid ex_refs)
qed

definition quiet :: "SelectedRevision list \<Rightarrow> bool" where
  "quiet rows \<longleftrightarrow> chainInconsistent (chainState (map selectedRow rows) Full_chains (ex_cut 10)) = [] \<and>
     chainUnlogged (chainState (map selectedRow rows) Full_chains (ex_cut 10)) = [] \<and> duplicateClaimsOf rows = []"

lemma ex_chains:
  "chainState (map selectedRow ex_rows) Full_chains (ex_cut 10) = \<lparr>chainLinks = [], chainUnlogged = [], chainInconsistent = []\<rparr>"
  "chainState (map selectedRow ex_flagged) Full_chains (ex_cut 10) =
     \<lparr>chainLinks = [(''event:1@1'', ''event:1@2'')], chainUnlogged = [], chainInconsistent = []\<rparr>"
  by code_simp+

lemma ex_quiet: "quiet ex_rows" "quiet ex_flagged"
  by (simp_all add: quiet_def ex_chains)
    (simp_all add: duplicateClaimsOf_def activeRows_def ex_rows_def ex_flagged_def ex_purchase_def ex_withdrawal_def ex_row_def
      js_set_def)

lemma ex_commits:
  "logged (ex_cut 10) (ex_purchase t)" "committed (ex_cut 10) (ex_purchase t)"
  "logged (ex_cut 10) ex_withdrawal" "committed (ex_cut 10) ex_withdrawal"
  by (simp_all add: committed_def logged_def seqOf_def ex_cut_def ex_purchase_def ex_withdrawal_def ex_row_def)

lemma ex_selected_rows: "resolveRows (map selectedRow ex_rows) Full_chains (ex_cut 10) = ex_rows"
  "resolveRows (map selectedRow ex_flagged) Full_chains (ex_cut 10) = ex_flagged"
proof -
  have order: "compareSelected \<lparr>selectedRow = ex_purchase t, selectedStatus = a, supersededAtCutBy = b\<rparr>
      \<lparr>selectedRow = ex_withdrawal, selectedStatus = c, supersededAtCutBy = d\<rparr> = - 1" for t a b c d
    by (simp add: compareSelected_def or_else_def ex_purchase_def ex_withdrawal_def ex_row_def compareText_def)
  have rows: "map selectedRow ex_rows = [ex_purchase None]"
    "map selectedRow ex_flagged = [ex_purchase (Some ''event:1@2''), ex_withdrawal]"
    by (simp_all add: ex_rows_def ex_flagged_def)
  show "resolveRows (map selectedRow ex_rows) Full_chains (ex_cut 10) = ex_rows"
    "resolveRows (map selectedRow ex_flagged) Full_chains (ex_cut 10) = ex_flagged"
    unfolding resolveRows_def ex_chains
    by (simp_all add: rows selectRow_def ex_commits successorOf_def ex_refs order) (simp_all add: ex_rows_def ex_flagged_def)
qed

lemma ex_selection_checked:
  assumes "quiet rows" and "resolveRows (map selectedRow rows) Full_chains (ex_cut 10) = rows"
    and "firstBadRow 0 [] (map selectedRow rows) = None" and "length rows \<le> 2"
    and "sum_list (map (\<lambda>r. int (length (provLegs r))) (map selectedRow rows)) \<le> 1"
  shows "checkSelection (ex_selection rows) = None"
proof -
  have texts: "isText 256 ''v1''" "isText 256 ''a1''" "validPins (setPins ex_set)" "validCut (ex_cut 10)" by code_simp+
  have coverage: "validFamilyCoverage \<lparr>familyAccount = ''a:1'', families = [''cash''], familyStatus = Evented\<rparr>"
    "validHistoryCoverage \<lparr>historyAccount = ''a:1'', historyFrom = ''2023-12-01'', historyTo = ''2024-02-29'',
        historyStatus = History_complete, historyReason = None\<rparr>"
    by (simp_all add: validFamilyCoverage_def validHistoryCoverage_def isText_def isRefList_def js_set_def
        validLocalDateText_def ex_dates_parse)
  have pins: "(setPins ex_set)\<lparr>policyRefs := sort (policyRefs (setPins ex_set))\<rparr> = setPins ex_set"
    by (simp add: ex_set_def)
  have "int (length rows) \<le> 5000" using assms(4) by simp
  then have check: "checkEventSet (setOfSelection (ex_selection rows)) = None"
    using assms(3,5) texts coverage by (simp add: checkEventSet_def setOfSelection_def ex_selection_def RECONSTRUCTION_BUDGET_def Let_def)
  show ?thesis
    unfolding checkSelection_def selectKnowledge_def check
    using assms(1,2) texts(4) pins
    by (simp add: setOfSelection_def ex_selection_def Let_def quiet_def)
qed

lemma ex_sizes:
  "length ex_rows \<le> 2" "length ex_flagged \<le> 2"
  "sum_list (map (\<lambda>r. int (length (provLegs r))) (map selectedRow ex_rows)) \<le> 1"
  "sum_list (map (\<lambda>r. int (length (provLegs r))) (map selectedRow ex_flagged)) \<le> 1"
  by (simp_all add: ex_rows_def ex_flagged_def ex_purchase_def ex_withdrawal_def ex_row_def)

lemma ex_selections: "checkSelection (ex_selection ex_rows) = None" "checkSelection (ex_selection ex_flagged) = None"
  by (rule ex_selection_checked [OF ex_quiet(1) ex_selected_rows(1) ex_rows_good(1) ex_sizes(1,3)])
    (rule ex_selection_checked [OF ex_quiet(2) ex_selected_rows(2) ex_rows_good(2) ex_sizes(2,4)])

lemma ex_sides:
  "checkReportedSide (ex_side ''2024-01-01'' ''2024-01-01T03:00:00Z'' 1000) ''2024-01-01'' Invalid_start_snapshot = None"
  "checkReportedSide (ex_side ''2024-01-31'' ''2024-01-31T03:00:00Z'' 700) ''2024-01-31'' Invalid_end_reported = None"
proof -
  have "validQuantity (yen 1000)" "validQuantity (yen 700)"
    by (simp_all add: yen_def exactQuantity_def validQuantity_def validExactDecimal_def number_eval isText_def
        DECIMAL_DIGIT_LIMIT_def ARITHMETIC_POLICY_VERSION_def)
  then have "validReportedBalance (ex_balance ''snapshot:2024-01-01'' ''2024-01-01T03:00:00Z'' 1000)"
    "validReportedBalance (ex_balance ''snapshot:2024-01-31'' ''2024-01-31T03:00:00Z'' 700)"
    by (simp_all add: validReportedBalance_def ex_balance_def validInstantText_def ex_parses isText_def)
  moreover have "isText 256 ''ctx''" "isRefList 1000 []" by (simp_all add: isText_def isRefList_def)
  ultimately show
    "checkReportedSide (ex_side ''2024-01-01'' ''2024-01-01T03:00:00Z'' 1000) ''2024-01-01'' Invalid_start_snapshot = None"
    "checkReportedSide (ex_side ''2024-01-31'' ''2024-01-31T03:00:00Z'' 700) ''2024-01-31'' Invalid_end_reported = None"
    by (simp_all add: checkReportedSide_def ex_side_def RECONSTRUCTION_BUDGET_def Let_def sideRows_def misplacedRow_def)
      (simp_all add: ex_balance_def ex_capture_dates)
qed

lemma ex_accepted: "refusedInput (ex_input ex_rows) = None" "refusedInput (ex_input ex_flagged) = None"
proof -
  have "isRefList 100 [''a:1'']" "validLocalDateText ''2024-01-01''" "validLocalDateText ''2024-01-31''"
    "''2024-01-01'' < ''2024-01-31''" "validInstantText ''2024-02-01T00:00:00Z''" "validCut (ex_cut 10)"
    by (simp_all add: isRefList_def isText_def js_set_def validLocalDateText_def ex_dates_parse validInstantText_def ex_parses
        validCut_def ex_cut_def isSafeIntFrom_def MAX_SAFE_INTEGER_def)
  moreover have "validFoldPolicy RECONSTRUCTION_FOLD_V1" by code_simp
  ultimately have "refusedInput (ex_input rows) = None" if "checkSelection (ex_selection rows) = None" for rows
    using that ex_sides by (simp add: refusedInput_def ex_input_def validReconstructionRequest_def baselineProblem_def)
      (simp add: ex_selection_def)
  with ex_selections show "refusedInput (ex_input ex_rows) = None" "refusedInput (ex_input ex_flagged) = None" by simp_all
qed

lemma ex_good_years: "four_digit_years (ex_input rows)"
proof -
  have "addDays \<lparr>year = 2024, month = 1, day = 1\<rparr> 1 = \<lparr>year = 2024, month = 1, day = 2\<rparr>" by code_simp
  then show ?thesis
    by (simp add: four_digit_years_def ex_input_def ex_side_def sideRows_def ex_balance_def dated_capture_def ex_capture_dates
        validLocalDateText_def ex_dates_parse)
qed

lemma ex_plain: "plain_accounts (ex_input ex_rows)" "plain_accounts (ex_input ex_flagged)" "plain_baseline (ex_input rows)"
  by (code_simp, code_simp, simp add: plain_baseline_def ex_input_def)

lemma ex_state:
  assumes "refusedInput (ex_input rows) = None" and "plain_accounts (ex_input rows)"
  obtains st where "reconstructState (ex_input rows) = Some (Inr st)"
  using foldState_total [OF assms(1) ex_good_years assms(2) ex_plain(3)] assms(1) that by (auto simp: reconstructState_def)

lemma ex_cell_run:
  obtains st c where "reconstructState (ex_input ex_rows) = Some (Inr st)" "c \<in> set (stateCells st)"
    "cellOf (ex_input ex_rows) ex_folded = Some c"
proof -
  obtain st where st: "reconstructState (ex_input ex_rows) = Some (Inr st)" using ex_accepted(1) ex_plain(1) by (rule ex_state)
  moreover have "ex_frame \<in> set (inFrames (ex_input ex_rows))" by (simp add: ex_frames)
  with st obtain f c where "foldFrame (ex_input ex_rows) ex_frame = Some f" "cellOf (ex_input ex_rows) f = Some c"
    "c \<in> set (stateCells st)" by (rule frame_cell)
  ultimately show thesis using that ex_fold by simp
qed

lemma ex_amounts:
  "amount_value (yen n) = of_int n" "amount_value (startOriented ex_start) = 1000" "amount_value (startOriented ex_end) = 700"
  by (simp_all add: yen_def amount_value_def dec_value_def ex_start_def ex_end_def balanceRow_def ex_balance_def orient_def)

lemma ex_expected: "expected_refs (selRevisions (inSelection (ex_input ex_rows))) = [''event:1@1#0'']"
proof -
  have "legRef (ex_purchase None) ex_leg = ''event:1@1#0''"
    by (simp add: legRef_def ex_refs ex_leg_def number_eval)
  then show ?thesis
    by (simp add: expected_refs_def ex_input_def ex_selection_def ex_rows_def) (simp add: ex_purchase_def)
qed

lemma mset_single: "mset xs = mset [x] \<Longrightarrow> xs = [x]"
  by (cases xs) auto

end
