(* ===== verification/Reconstruction_Contract.thy ===== *)
theory Reconstruction_Contract
  imports Reconstruction_Example
begin

text \<open>
  What the reconstruction promises, each promise with the run of the example that meets its conditions.
\<close>

section \<open>Promises\<close>



text \<open>
  Property C2: a figure is the start plus what was applied, or it is absent. A cell's figure is exact exactly
  when no gap of the cell blocks it; then the cell has an exact start in its unit and the figure is the
  oriented start plus the total applied, to the last digit. A result is complete exactly when the cell has no
  gap at all, and partial when its only gaps concern the scope.
\<close>

theorem figure_adds_up:
  assumes "reconstructState x = Some (Inr st)" and "c \<in> set (stateCells st)"
  shows "(is_exact (reconstructed c) \<longleftrightarrow> set (cellGaps c) \<inter> set ABSENT_GAPS = {}) \<and>
    (is_exact (reconstructed c) \<longrightarrow> (\<exists>s u. cellStart c = Some s \<and> cellUnitRef c = Some u \<and> exact_in u (startOriented s) \<and>
       exact_in u (reconstructed c) \<and>
       amount_value (reconstructed c) = amount_value (startOriented s) + amount_value (componentTotal (cellApplied c)))) \<and>
    (cellPartition c = Complete \<longleftrightarrow> cellGaps c = []) \<and>
    (cellPartition c = Partial_verified_scope \<longleftrightarrow> cellGaps c \<noteq> [] \<and> set (cellGaps c) \<subseteq> set SCOPE_GAPS)"
  using assms by (rule figure_of_cell)

lemma figure_adds_up_witness:
  "\<exists>st c s. reconstructState (ex_input ex_rows) = Some (Inr st) \<and> c \<in> set (stateCells st) \<and> cellPartition c = Complete \<and>
     cellStart c = Some s \<and> amount_value (startOriented s) = 1000 \<and> amount_value (reconstructed c) = 700"
proof -
  obtain st c where run: "reconstructState (ex_input ex_rows) = Some (Inr st)" "c \<in> set (stateCells st)"
    "cellOf (ex_input ex_rows) ex_folded = Some c" by (rule ex_cell_run)
  note cell = ex_cell [OF run(3)]
  have "is_exact (reconstructed c)" by (simp add: cell yen_def)
  with figure_adds_up [OF run(1,2)] cell(1,5,6) have "cellPartition c = Complete"
    "amount_value (reconstructed c) = amount_value (startOriented ex_start) + amount_value (yen (- 300))"
    by (auto simp: componentOf_def)
  moreover have "amount_value (startOriented ex_start) = 1000" "amount_value (yen (- 300)) = - 300"
    by (simp_all add: ex_amounts)
  ultimately show ?thesis using run cell(6) by auto
qed

text \<open>
  Property C3: only qualified legs reach a figure. What a cell applies is a list of legs of the selection in
  the unit of the cell, each of a revision in force without flags, in a state that counts, a movement on the
  requested basis, dated inside the window of the cell and exact; increases count plus, decreases minus, and
  their references are what the cell lists.
\<close>

theorem applied_legs_qualified:
  assumes "reconstructState x = Some (Inr st)" and "c \<in> set (stateCells st)"
  shows "\<exists>vs. componentRefs (cellApplied c) = sort (map viewRef vs) \<and> componentCount (cellApplied c) = length vs \<and>
    set vs \<subseteq> set (inLegs x) \<and>
    (\<forall>v\<in>set vs. cellUnitRef c = Some (unitRef (provQuantity (viewLeg v))) \<and> counted_leg x (cellWindow c) v Inside \<and>
       stateEffectsV1 (provKind (selectedRow (viewSelected v))) (provState (selectedRow (viewSelected v))) = Some Effect_applied) \<and>
    amount_value (componentTotal (cellApplied c)) = sum_list (map (signed_amount \<circ> viewLeg) vs)"
  using assms by (rule legs_of_cell)

lemma applied_legs_qualified_witness:
  "\<exists>st c v. reconstructState (ex_input ex_rows) = Some (Inr st) \<and> c \<in> set (stateCells st) \<and>
     componentRefs (cellApplied c) = [''event:1@1#0''] \<and> v \<in> set (inLegs (ex_input ex_rows)) \<and>
     counted_leg (ex_input ex_rows) (cellWindow c) v Inside \<and> amount_value (componentTotal (cellApplied c)) = - 300"
proof -
  obtain st c where run: "reconstructState (ex_input ex_rows) = Some (Inr st)" "c \<in> set (stateCells st)"
    "cellOf (ex_input ex_rows) ex_folded = Some c" by (rule ex_cell_run)
  note cell = ex_cell [OF run(3)]
  from applied_legs_qualified [OF run(1,2)] obtain vs where vs: "componentCount (cellApplied c) = length vs"
    "set vs \<subseteq> set (inLegs (ex_input ex_rows))" "list_all (\<lambda>v. counted_leg (ex_input ex_rows) (cellWindow c) v Inside) vs"
    by (auto simp: list_all_iff)
  have "length vs = 1" using vs(1) cell(5) by (simp add: componentOf_def)
  then obtain v where "vs = [v]" by (cases vs) auto
  with vs run cell(5) show ?thesis
    by (intro exI [of _ st] exI [of _ c] exI [of _ v]) (simp add: componentOf_def refsOf_def ex_view_def ex_amounts)
qed

text \<open>
  Property C4: what a comparable cell is told about the reported end. A cell that is compared (no reason
  against it) has no gap, is on the cash basis and has a start and an end of one metric and unit; its
  remainder is exactly the reported end minus the reconstructed figure, and its status follows from the
  remainder and the legs on the boundary alone: reconciled exactly when nothing remains and no leg is on a
  boundary. A cell that is not compared is never called reconciled, consistent or different.
\<close>

theorem explanation_exact:
  assumes "reconstructState x = Some (Inr st)" and "c \<in> set (stateCells st)"
  shows "(explReason (explanation c) \<noteq> None \<longrightarrow>
      explStatus (explanation c) = Not_comparable \<or> explStatus (explanation c) = Unavailable) \<and>
    (explReason (explanation c) = None \<longrightarrow> cellGaps c = [] \<and> reqBasis (inRequest x) = Cash_basis \<and>
      (\<exists>s e. cellStart c = Some s \<and> explReported (explanation c) = Some e \<and> startMetric s = startMetric e \<and>
         unitRef (startOriented s) = unitRef (startOriented e) \<and> is_exact (explRemainder (explanation c)) \<and>
         amount_value (explRemainder (explanation c)) = amount_value (startOriented e) - amount_value (reconstructed c)) \<and>
      explStatus (explanation c) =
        (let left = amount_value (explRemainder (explanation c))
         in if componentCount (cellBoundary c) = 0 then (if left = 0 then Reconciled else Difference_unexplained)
            else if left = 0 then Consistent_with_boundary_exclusion
            else if left = amount_value (componentTotal (cellBoundary c)) then Consistent_with_boundary_inclusion
            else Difference_unexplained))"
  using assms by (rule explanation_of_cell)

lemma explanation_exact_witness:
  "\<exists>st c. reconstructState (ex_input ex_rows) = Some (Inr st) \<and> c \<in> set (stateCells st) \<and>
     explStatus (explanation c) = Reconciled \<and> amount_value (explRemainder (explanation c)) = 0"
proof -
  obtain st c where run: "reconstructState (ex_input ex_rows) = Some (Inr st)" "c \<in> set (stateCells st)"
    "cellOf (ex_input ex_rows) ex_folded = Some c" by (rule ex_cell_run)
  note cell = ex_cell [OF run(3)]
  have "amount_value (startOriented ex_end) - amount_value (yen 700) = 0" by (simp add: ex_amounts)
  with explanation_exact [OF run(1,2)] cell(2-4,6,7) have "amount_value (explRemainder (explanation c)) = 0"
    "explStatus (explanation c) = Reconciled" by (auto simp: componentOf_def Let_def)
  with run show ?thesis by blast
qed

text \<open>
  Property C6: every leg has exactly one record, when no account of the request or of a leg contains the
  separator of the keys or starts like the key of a leg without account. Then the references of the records
  of a state are, with repetitions counted, those of all legs of the selection and of its rows without legs,
  whatever cells the legs fall into; legs of no account are recorded once although they meet every cell of
  their unit. Without the condition two cells can share a key, as \<open>separator_joins_keys\<close> shows, and a leg
  can have two records; the validators of the inputs do not exclude it.
\<close>

theorem one_record_per_leg:
  assumes "reconstructState x = Some (Inr st)" and "plain_accounts x"
  shows "mset (map recRef (stateDispositions st)) = mset (expected_refs (selRevisions (inSelection x)))"
  using assms by (rule records_of_state)

lemma one_record_per_leg_witness:
  "\<exists>st. reconstructState (ex_input ex_rows) = Some (Inr st) \<and> map recRef (stateDispositions st) = [''event:1@1#0'']"
proof -
  obtain st where st: "reconstructState (ex_input ex_rows) = Some (Inr st)" using ex_accepted(1) ex_plain(1) by (rule ex_state)
  have "expected_refs (selRevisions (inSelection (ex_input ex_rows))) = [''event:1@1#0'']" by (rule ex_expected)
  with one_record_per_leg [OF st ex_plain(1)]
  have "mset (map recRef (stateDispositions st)) = mset [''event:1@1#0'']" by (rule trans [OF _ arg_cong])
  then have "map recRef (stateDispositions st) = [''event:1@1#0'']" by (rule mset_single)
  with st show ?thesis by (intro exI conjI)
qed

text \<open>
  Property C7: a flag blocks the cells of the request its chain touched. When a row in force carries a flag,
  then for each leg of the row itself or of any row it replaced, directly or not, that is on the basis, has
  an account of the request that neither contains the separator of the keys nor starts like the key of a leg
  without account, and has a unit without the separator, the cell of that account and unit exists, names the
  flag among its gaps and has no figure; so a flagged withdrawal without legs still blocks the cell of the
  movement it withdrew. Legs off the basis, without account, or of an account not requested, are not meant.
\<close>

theorem flags_block_cells:
  assumes "reconstructState x = Some (Inr st)" and "plain_account a" and "a \<in> set (reqAccounts (inRequest x))"
    and "s \<in> set (selRevisions (inSelection x))" and "selectedStatus s = Active" and "flag \<in> set (provFlags (selectedRow s))"
    and "t \<in> set (selRevisions (inSelection x))"
    and "(refOf (selectedRow s), refOf (selectedRow t)) \<in> (superseded_rel (selRevisions (inSelection x)))\<^sup>*"
    and "l \<in> set (provLegs (selectedRow t))" and "legOnBasis (inBasis x) l" and "provAccount l = Some a"
    and "CHR 0x00 \<notin> set (unitRef (provQuantity l))"
  shows "\<exists>c\<in>set (stateCells st). cellAccount c = a \<and> cellUnitRef c = Some (unitRef (provQuantity l)) \<and>
    Gap_flag flag \<in> set (cellGaps c) \<and> \<not> is_exact (reconstructed c)"
  using assms by (rule flags_on_cells)

lemma flags_block_cells_witness:
  "\<exists>st c. reconstructState (ex_input ex_flagged) = Some (Inr st) \<and> c \<in> set (stateCells st) \<and> cellAccount c = ''a:1'' \<and>
     Gap_flag Alias_conflict_flag \<in> set (cellGaps c) \<and> \<not> is_exact (reconstructed c)"
proof -
  obtain st where st: "reconstructState (ex_input ex_flagged) = Some (Inr st)" using ex_accepted(2) ex_plain(2) by (rule ex_state)
  define head where "head = \<lparr>selectedRow = ex_withdrawal, selectedStatus = Active, supersededAtCutBy = None\<rparr>"
  define before where "before = \<lparr>selectedRow = ex_purchase (Some ''event:1@2''), selectedStatus = Superseded_at_cut,
     supersededAtCutBy = Some ''event:1@2''\<rparr>"
  have rows: "selRevisions (inSelection (ex_input ex_flagged)) = [before, head]"
    by (simp add: ex_input_def ex_selection_def ex_flagged_def head_def before_def)
  have step: "(refOf (selectedRow head), refOf (selectedRow before)) \<in> superseded_rel [before, head]"
    by (simp add: superseded_rel_def predecessors_def head_def before_def ex_refs)
  from st have "\<exists>c\<in>set (stateCells st). cellAccount c = ''a:1'' \<and> cellUnitRef c = Some (unitRef (provQuantity ex_leg)) \<and>
      Gap_flag Alias_conflict_flag \<in> set (cellGaps c) \<and> \<not> is_exact (reconstructed c)"
  proof (rule flags_block_cells [of _ _ _ head _ before])
    show "(refOf (selectedRow head), refOf (selectedRow before)) \<in> (superseded_rel (selRevisions (inSelection (ex_input ex_flagged))))\<^sup>*"
      unfolding rows using step by blast
    show "head \<in> set (selRevisions (inSelection (ex_input ex_flagged)))"
      "before \<in> set (selRevisions (inSelection (ex_input ex_flagged)))" unfolding rows by simp_all
  qed (simp_all add: head_def before_def ex_withdrawal_def ex_purchase_def ex_row_def ex_leg_def yen_def plain_account_def
      ex_input_def inBasis_def RECONSTRUCTION_FOLD_V1_def legOnBasis_def)
  with st show ?thesis by blast
qed

text \<open>
  Property C8: the coverage of a window is decided day by day. The sweep over the sorted spans reports a gap
  exactly when a gap row overlaps the window, and otherwise that coverage is unknown exactly when some day
  of the window is in no complete row.
\<close>

theorem history_gaps_exact:
  assumes "list_all validHistoryCoverage rows" and "dayOf from = Some first" and "dayOf to = Some final"
  shows "historyGaps rows from to = Some
    (if \<exists>h\<in>set rows. historyStatus h = History_gap_status \<and> (\<exists>s e. historySpan h = Some (s, e) \<and> s \<le> final \<and> first \<le> e)
     then [History_gap]
     else if \<forall>d. first \<le> d \<and> d \<le> final \<longrightarrow> (\<exists>h\<in>set rows. historyStatus h = History_complete \<and> row_covers h d)
     then [] else [History_coverage_unknown])"
  by (rule historyGaps_days) fact+

lemma history_gaps_exact_witness: "historyGaps (historyRows (ex_selection ex_rows) ''a:1'') ''2024-01-01'' ''2024-01-31'' = Some []"
proof -
  let ?rows = "historyRows (ex_selection ex_rows) ''a:1''"
  have valid: "list_all validHistoryCoverage ?rows"
    by (simp add: historyRows_def ex_selection_def validHistoryCoverage_def isText_def validLocalDateText_def ex_dates_parse)
  have "dayOf ''2024-01-01'' = Some 19723" "dayOf ''2024-01-31'' = Some 19753" by (simp_all add: dayOf_def ex_dates_parse ex_days)
  from history_gaps_exact [OF valid this] show ?thesis
    by (simp add: historyRows_def ex_selection_def row_covers_def historySpan_def dayOf_def ex_dates_parse ex_days)
qed

end
