(* ===== verification/Json_Text.thy ===== *)
theory Json_Text
  imports Kogane_Prelude
begin

text \<open>
  The text \<open>JSON.stringify\<close> gives the values the contracts store: texts, booleans, safe integers, null, arrays and
  objects whose keys are in a fixed order. Different values have different texts, also as prefixes of a longer
  text, and an array of texts and nulls can be read back. Code units are below 256, so there are no surrogates.
\<close>

section \<open>Writing\<close>

datatype Json = JNull | JBool bool | JText string | JNumber int | JArray "Json list" | JObject "(string \<times> Json) list"

definition hex_char :: "nat \<Rightarrow> char" where
  "hex_char n = (if n < 10 then digit_char n else char_of (87 + n))"

definition json_char :: "char \<Rightarrow> string" where
  "json_char c =
     (let n = (of_char c :: nat)
      in if n = 34 \<or> n = 92 then [CHR 0x5C, c]
         else if n = 8 then [CHR 0x5C, CHR ''b''] else if n = 9 then [CHR 0x5C, CHR ''t'']
         else if n = 10 then [CHR 0x5C, CHR ''n''] else if n = 12 then [CHR 0x5C, CHR ''f'']
         else if n = 13 then [CHR 0x5C, CHR ''r'']
         else if n < 32 then [CHR 0x5C, CHR ''u'', CHR ''0'', CHR ''0'', hex_char (n div 16), hex_char (n mod 16)]
         else [c])"

definition json_string :: "string \<Rightarrow> string" where
  "json_string s = CHR 0x22 # concat (map json_char s) @ [CHR 0x22]"

fun joined :: "string list \<Rightarrow> string" where
  "joined [] = []"
| "joined [x] = x"
| "joined (x # y # ys) = x @ CHR '','' # joined (y # ys)"

fun jsonText :: "Json \<Rightarrow> string" where
  "jsonText JNull = ''null''"
| "jsonText (JBool b) = (if b then ''true'' else ''false'')"
| "jsonText (JText s) = json_string s"
| "jsonText (JNumber i) = int_text i"
| "jsonText (JArray xs) = CHR ''['' # joined (map jsonText xs) @ '']''"
| "jsonText (JObject kvs) = CHR ''{'' # joined (map (\<lambda>(k, v). json_string k @ CHR '':'' # jsonText v) kvs) @ ''}''"

section \<open>Reading texts\<close>

definition hex_value :: "char \<Rightarrow> nat" where
  "hex_value c = (if is_digit c then char_digit c else of_char c - 87)"

text \<open>The next character of a JSON text, and what follows it; the second function reads behind a backslash.\<close>

definition read_escape :: "char \<Rightarrow> string \<Rightarrow> (char \<times> string) option" where
  "read_escape d r =
     (if d = CHR 0x22 \<or> d = CHR 0x5C then Some (d, r)
      else if d = CHR ''b'' then Some (CHR 0x08, r) else if d = CHR ''t'' then Some (CHR 0x09, r)
      else if d = CHR ''n'' then Some (CHR 0x0A, r) else if d = CHR ''f'' then Some (CHR 0x0C, r)
      else if d = CHR ''r'' then Some (CHR 0x0D, r)
      else if d = CHR ''u'' \<and> 4 \<le> length r \<and> take 2 r = ''00''
        then Some (char_of (16 * hex_value (r ! 2) + hex_value (r ! 3)), drop 4 r)
      else None)"

fun read_char :: "string \<Rightarrow> (char \<times> string) option" where
  "read_char [] = None"
| "read_char (c # r) =
     (if c = CHR 0x22 then None
      else if c \<noteq> CHR 0x5C then Some (c, r)
      else case r of [] \<Rightarrow> None | d # r' \<Rightarrow> read_escape d r')"

definition controls :: string where
  "controls = map char_of [0..<32::nat]"

lemma controls_code: "controls = [CHR 0x00, CHR 0x01, CHR 0x02, CHR 0x03, CHR 0x04, CHR 0x05, CHR 0x06, CHR 0x07, CHR 0x08, CHR 0x09,
    CHR 0x0A, CHR 0x0B, CHR 0x0C, CHR 0x0D, CHR 0x0E, CHR 0x0F, CHR 0x10, CHR 0x11, CHR 0x12, CHR 0x13, CHR 0x14, CHR 0x15, CHR 0x16,
    CHR 0x17, CHR 0x18, CHR 0x19, CHR 0x1A, CHR 0x1B, CHR 0x1C, CHR 0x1D, CHR 0x1E, CHR 0x1F]"
  by code_simp

lemma char_below: "(of_char c :: nat) < 32 \<Longrightarrow> c \<in> set controls"
  unfolding controls_def set_map by (rule image_eqI [of _ _ "of_char c"]) simp_all

lemma read_escape_append: "read_escape d r = Some (c, y) \<Longrightarrow> read_escape d (r @ z) = Some (c, y @ z)"
  by (auto simp: read_escape_def nth_append split: if_splits)

lemma read_char_append: "read_char x = Some (c, y) \<Longrightarrow> read_char (x @ z) = Some (c, y @ z)"
  by (cases x rule: read_char.cases) (auto simp: read_escape_append split: if_splits list.splits)

lemma read_json_char: "read_char (json_char c @ r) = Some (c, r)"
proof (cases "c \<in> set (CHR 0x22 # CHR 0x5C # controls)")
  case True
  have "list_all (\<lambda>c. read_char (json_char c) = Some (c, [])) (CHR 0x22 # CHR 0x5C # controls)"
    by code_simp
  with True have "read_char (json_char c) = Some (c, [])" unfolding list_all_iff by blast
  from read_char_append [OF this, of r] show ?thesis by simp
next
  case False
  have quotes: "char_of (34::nat) = CHR 0x22" "char_of (92::nat) = CHR 0x5C" by code_simp+
  have "\<not> (of_char c :: nat) < 32" "c \<noteq> CHR 0x22" "c \<noteq> CHR 0x5C" using False char_below [of c] by auto
  moreover from this have "(of_char c :: nat) \<noteq> 34" "(of_char c :: nat) \<noteq> 92" by (metis quotes char_of_char)+
  ultimately show ?thesis by (simp add: json_char_def Let_def)
qed

lemma read_escape_shorter: "read_escape d r = Some (c, y) \<Longrightarrow> length y \<le> length r"
  by (auto simp: read_escape_def split: if_splits)

lemma read_char_shorter: "read_char s = Some (c, r) \<Longrightarrow> length r < length s"
  by (cases s rule: read_char.cases) (auto dest: read_escape_shorter split: if_splits list.splits)

text \<open>A text up to its closing quote, and what follows it.\<close>

function read_text :: "string \<Rightarrow> (string \<times> string) option" where
  "read_text [] = None"
| "read_text (c # s) =
     (if c = CHR 0x22 then Some ([], s)
      else case read_char (c # s) of
          None \<Rightarrow> None
        | Some (d, r) \<Rightarrow> map_option (\<lambda>(t, r'). (d # t, r')) (read_text r))"
  by pat_completeness auto
termination by (relation "measure length") (auto simp del: read_char.simps dest: read_char_shorter)

lemma json_char_head: "json_char c = d # x \<Longrightarrow> d \<noteq> CHR 0x22"
  using read_json_char [of c "[]"] by auto

lemma json_char_nonempty [simp]: "json_char c \<noteq> []"
  using read_json_char [of c "[]"] by auto

lemma read_json_text: "read_text (concat (map json_char s) @ CHR 0x22 # r) = Some (s, r)"
proof (induction s)
  case (Cons c s)
  obtain d x where d: "json_char c = d # x" by (cases "json_char c") simp_all
  with read_json_char [of c "concat (map json_char s) @ CHR 0x22 # r"] json_char_head [OF d] Cons
  show ?case by simp
qed simp

lemma json_string_prefix: "json_string s @ r = json_string t @ r' \<longleftrightarrow> s = t \<and> r = r'"
proof
  assume "json_string s @ r = json_string t @ r'"
  then have "Some (s, r) = Some (t, r')"
    unfolding read_json_text [symmetric] by (simp add: json_string_def)
  then show "s = t \<and> r = r'" by simp
qed simp

section \<open>Different values have different texts\<close>

text \<open>A number ends where no digit follows.\<close>

definition stops :: "string \<Rightarrow> bool" where
  "stops r \<longleftrightarrow> (case r of [] \<Rightarrow> True | c # _ \<Rightarrow> \<not> is_digit c)"

lemma nat_text_prefix: "nat_text m @ r = nat_text n @ r' \<Longrightarrow> stops r \<Longrightarrow> stops r' \<Longrightarrow> m = n \<and> r = r'"
proof -
  assume eq: "nat_text m @ r = nat_text n @ r'" and stop: "stops r" "stops r'"
  have split: "takeWhile is_digit (nat_text k @ q) = nat_text k" "dropWhile is_digit (nat_text k @ q) = q" if "stops q" for k q
    using that nat_text_digits [of k]
    by (auto simp: stops_def list_all_iff takeWhile_append dropWhile_append split: list.splits)
  show ?thesis using split [OF stop(1), of m] split [OF stop(2), of n] eq by simp
qed

lemma nat_text_head: "nat_text n = c # s \<Longrightarrow> is_digit c"
  using nat_text_digits [of n] by simp

lemma int_text_prefix: "int_text i @ r = int_text j @ r' \<Longrightarrow> stops r \<Longrightarrow> stops r' \<Longrightarrow> i = j \<and> r = r'"
proof -
  assume eq: "int_text i @ r = int_text j @ r'" and stop: "stops r" "stops r'"
  have minus: "nat_text k @ q \<noteq> CHR ''-'' # t" for k q t
    using nat_text_head [of k] by (cases "nat_text k") (auto simp: is_digit_def)
  have other: "CHR ''-'' # t \<noteq> nat_text k @ q" for k q t by (rule minus [symmetric])
  show ?thesis
  proof (cases "i < 0"; cases "j < 0")
    assume "i < 0" "j < 0"
    with eq nat_text_prefix [OF _ stop, of "nat (- i)" "nat (- j)"] show ?thesis by (auto simp: int_text_def)
  next
    assume "\<not> i < 0" "\<not> j < 0"
    with eq nat_text_prefix [OF _ stop, of "nat i" "nat j"] show ?thesis by (auto simp: int_text_def)
  qed (use eq minus other in \<open>simp_all add: int_text_def\<close>)
qed

lemma joined_append: "ys \<noteq> [] \<Longrightarrow> joined (y # ys) = y @ CHR '','' # joined ys"
  by (cases ys) auto

text \<open>Items that tell apart their values, and do not begin with a closing bracket, are told apart in a list.\<close>

lemma joined_prefix:
  assumes "\<And>x y r r'. x \<in> set xs \<Longrightarrow> f x @ r = f y @ r' \<Longrightarrow> stops r \<Longrightarrow> stops r' \<Longrightarrow> x = y \<and> r = r'"
    and "\<And>x. f x \<noteq> [] \<and> hd (f x) \<noteq> e" and "e \<noteq> CHR '',''" and "\<not> is_digit e"
    and "joined (map f xs) @ e # r = joined (map f ys) @ e # r'"
  shows "xs = ys \<and> r = r'"
  using assms(1,5)
proof (induction xs arbitrary: ys)
  case Nil
  then show ?case
  proof (cases ys)
    case (Cons y zs)
    then have "hd (joined (map f ys) @ e # r') = hd (f y)" using assms(2) [of y] by (cases zs) auto
    with Nil assms(2) [of y] show ?thesis by (cases "joined (map f ys) @ e # r'") auto
  qed simp
next
  case (Cons x xs)
  define after where "after = (\<lambda>zs q. if zs = [] then e # q else CHR '','' # joined (map f zs) @ e # q)"
  have unfold: "joined (map f (z # zs)) @ e # q = f z @ after zs q" for z zs q
    by (cases zs) (simp_all add: after_def)
  have stop: "stops (after zs q)" for zs q using assms(4) by (simp add: after_def stops_def is_digit_def)
  show ?case
  proof (cases ys)
    case Nil
    with Cons.prems(2) have "f x @ after xs r = e # r'" by (simp only: unfold) simp
    with assms(2) [of x] show ?thesis by (cases "f x") auto
  next
    case (Cons y zs)
    with Cons.prems(2) have "f x @ after xs r = f y @ after zs r'" by (simp only: unfold)
    from Cons.prems(1) [OF _ this stop stop] have xy: "x = y" and rest: "after xs r = after zs r'" by simp_all
    show ?thesis
    proof (cases "xs = [] \<or> zs = []")
      case True
      with rest assms(3) have "xs = [] \<and> zs = [] \<and> r = r'" by (auto simp: after_def split: if_splits)
      with xy Cons show ?thesis by simp
    next
      case False
      with rest have "joined (map f xs) @ e # r = joined (map f zs) @ e # r'" by (simp add: after_def)
      from Cons.IH [OF Cons.prems(1) this] xy Cons show ?thesis by simp
    qed
  qed
qed

definition opens :: "Json \<Rightarrow> char \<Rightarrow> bool" where
  "opens x c \<longleftrightarrow> (case x of JNull \<Rightarrow> c = CHR ''n'' | JBool b \<Rightarrow> c = (if b then CHR ''t'' else CHR ''f'') | JText _ \<Rightarrow> c = CHR 0x22 | JNumber _ \<Rightarrow> is_digit c \<or> c = CHR ''-''
     | JArray _ \<Rightarrow> c = CHR ''['' | JObject _ \<Rightarrow> c = CHR ''{'')"

lemma jsonText_opens: "jsonText x \<noteq> [] \<and> opens x (hd (jsonText x))"
proof (cases x)
  case (JNumber i)
  have "is_digit (hd (nat_text n))" for n using nat_text_head [of n] by (cases "nat_text n") auto
  with JNumber show ?thesis by (simp add: int_text_def opens_def)
qed (simp_all add: opens_def json_string_def)

lemma opens_kind: "opens x c \<Longrightarrow> opens y c \<Longrightarrow> (\<exists>i j. x = JNumber i \<and> y = JNumber j) \<or> (x = JNull \<and> y = JNull) \<or> (\<exists>b. x = JBool b \<and> y = JBool b) \<or>
    (\<exists>s t. x = JText s \<and> y = JText t) \<or> (\<exists>xs ys. x = JArray xs \<and> y = JArray ys) \<or> (\<exists>ks vs. x = JObject ks \<and> y = JObject vs)"
  by (cases x; cases y) (auto simp: opens_def is_digit_def split: if_splits)

lemma same_kind:
  assumes "jsonText x @ r = jsonText y @ r'"
  shows "(\<exists>i j. x = JNumber i \<and> y = JNumber j) \<or> (x = JNull \<and> y = JNull) \<or> (\<exists>b. x = JBool b \<and> y = JBool b) \<or>
    (\<exists>s t. x = JText s \<and> y = JText t) \<or> (\<exists>xs ys. x = JArray xs \<and> y = JArray ys) \<or> (\<exists>ks vs. x = JObject ks \<and> y = JObject vs)"
proof (rule opens_kind)
  have "hd (jsonText x @ r) = hd (jsonText x)" "hd (jsonText y @ r') = hd (jsonText y)"
    using jsonText_opens [of x] jsonText_opens [of y] by simp_all
  with assms have "hd (jsonText x) = hd (jsonText y)" by simp
  then show "opens x (hd (jsonText y))" using jsonText_opens [of x] by simp
  show "opens y (hd (jsonText y))" using jsonText_opens [of y] by simp
qed

theorem jsonText_prefix: "jsonText a @ r = jsonText b @ r' \<Longrightarrow> stops r \<Longrightarrow> stops r' \<Longrightarrow> a = b \<and> r = r'"
proof (induction a arbitrary: b r r')
  case JNull
  from same_kind [OF JNull(1)] have "b = JNull" by blast
  with JNull show ?case by simp
next
  case (JBool d)
  from same_kind [OF JBool(1)] have "b = JBool d" by blast
  with JBool show ?case by simp
next
  case (JText s)
  from same_kind [OF JText(1)] obtain t where "b = JText t" by blast
  with JText show ?case by (simp add: json_string_prefix)
next
  case (JNumber i)
  from same_kind [OF JNumber(1)] obtain j where "b = JNumber j" by blast
  with JNumber int_text_prefix [of i r j r'] show ?case by simp
next
  case (JArray xs)
  from same_kind [OF JArray(2)] obtain ys where b: "b = JArray ys" by blast
  have ends: "hd (jsonText x) \<noteq> CHR '']''" for x using jsonText_opens [of x] by (cases x) (auto simp: opens_def is_digit_def split: if_splits)
  have "xs = ys \<and> r = r'"
  proof (rule joined_prefix [of xs jsonText "CHR '']''"])
    show "joined (map jsonText xs) @ CHR '']'' # r = joined (map jsonText ys) @ CHR '']'' # r'"
      using JArray(2) b by simp
  qed (use JArray(1) jsonText_opens ends in \<open>simp_all add: is_digit_def\<close>)
  with b show ?case by simp
next
  case (JObject ks)
  from same_kind [OF JObject(2)] obtain vs where b: "b = JObject vs" by blast
  let ?f = "\<lambda>(k, v). json_string k @ CHR '':'' # jsonText v"
  have item: "x = y \<and> q = q'" if "x \<in> set ks" "?f x @ q = ?f y @ q'" "stops q" "stops q'" for x y q q'
  proof -
    obtain k v l w where xy: "x = (k, v)" "y = (l, w)" by (cases x, cases y) blast
    with that(2) have "k = l" "jsonText v @ q = jsonText w @ q'"
      by (simp_all add: json_string_prefix)
    with JObject(1) [of x v q w q'] that xy show ?thesis by simp
  qed
  have "ks = vs \<and> r = r'"
  proof (rule joined_prefix [of ks ?f "CHR ''}''"])
    show "joined (map ?f ks) @ CHR ''}'' # r = joined (map ?f vs) @ CHR ''}'' # r'"
      using JObject(2) b by simp
    show "x = y \<and> q = q'" if "x \<in> set ks" "?f x @ q = ?f y @ q'" "stops q" "stops q'" for x y q q'
      using that by (rule item)
    show "?f x \<noteq> [] \<and> hd (?f x) \<noteq> CHR ''}''" for x by (cases x) (simp add: json_string_def)
  qed (simp_all add: is_digit_def)
  with b show ?case by simp
qed

corollary jsonText_inject [simp]: "jsonText a = jsonText b \<longleftrightarrow> a = b"
  using jsonText_prefix [of a "[]" b "[]"] by (auto simp: stops_def)

section \<open>Reading arrays of texts\<close>

text \<open>
  \<open>JSON.parse\<close> on the texts \<open>JSON.stringify\<close> gives an array of texts and nulls (no spaces between tokens,
  no other escapes); any other input is no result.
\<close>

definition json_of_part :: "string option \<Rightarrow> Json" where
  "json_of_part p = (case p of None \<Rightarrow> JNull | Some t \<Rightarrow> JText t)"

definition read_part :: "string \<Rightarrow> (string option \<times> string) option" where
  "read_part s =
     (if take 4 s = ''null'' then Some (None, drop 4 s)
      else case s of
          [] \<Rightarrow> None
        | c # r \<Rightarrow> if c = CHR 0x22 then map_option (\<lambda>(t, r'). (Some t, r')) (read_text r) else None)"

lemma read_text_shorter: "read_text s = Some (t, r) \<Longrightarrow> length r < length s"
proof (induction s arbitrary: t r rule: read_text.induct)
  case (2 c s)
  show ?case
  proof (cases "c = CHR 0x22")
    case False
    with 2(2) obtain d q u where d: "read_char (c # s) = Some (d, q)" "read_text q = Some (u, r)"
      by (auto simp del: read_char.simps split: option.splits)
    from 2(1) [OF False d(1) refl d(2)] read_char_shorter [OF d(1)] show ?thesis by simp
  qed (use 2(2) in simp)
qed simp

lemma read_part_shorter: "read_part s = Some (p, r) \<Longrightarrow> length r < length s"
  by (cases s) (auto simp: read_part_def dest: read_text_shorter split: if_splits)

function read_parts :: "string \<Rightarrow> (string option list \<times> string) option" where
  "read_parts [] = None"
| "read_parts (c # s) =
     (if c = CHR '']'' then Some ([], s)
      else if c = CHR '','' then
        (case read_part s of
           None \<Rightarrow> None
         | Some (p, r) \<Rightarrow> map_option (\<lambda>(ps, r'). (p # ps, r')) (read_parts r))
      else None)"
  by pat_completeness auto
termination by (relation "measure length") (auto dest: read_part_shorter)

definition read_array :: "string \<Rightarrow> string option list option" where
  "read_array s =
     (if s = ''[]'' then Some []
      else if take 1 s = ''['' then
        (case read_parts (CHR '','' # drop 1 s) of Some (ps, []) \<Rightarrow> Some ps | _ \<Rightarrow> None)
      else None)"

lemma read_json_part: "read_part (jsonText (json_of_part p) @ r) = Some (p, r)"
  by (cases p) (simp_all add: read_part_def json_of_part_def json_string_def read_json_text)

lemma read_json_parts:
  "read_parts (concat (map (\<lambda>p. CHR '','' # jsonText (json_of_part p)) ps) @ CHR '']'' # r) = Some (ps, r)"
  by (induction ps) (simp_all add: read_json_part)

lemma joined_concat: "xs \<noteq> [] \<Longrightarrow> CHR '','' # joined xs = concat (map (\<lambda>x. CHR '','' # x) xs)"
  by (induction xs rule: joined.induct) auto

theorem read_array_text: "read_array (jsonText (JArray (map json_of_part ps))) = Some ps"
proof (cases "ps = []")
  case False
  have "CHR '','' # joined (map (jsonText \<circ> json_of_part) ps) =
      concat (map (\<lambda>p. CHR '','' # jsonText (json_of_part p)) ps)"
    using joined_concat [of "map (jsonText \<circ> json_of_part) ps"] False by (simp add: comp_def)
  with read_json_parts [of ps "[]"]
  have "read_parts (CHR '','' # joined (map (jsonText \<circ> json_of_part) ps) @ '']'') = Some (ps, [])"
    by (metis append_Cons)
  moreover have "joined (map (jsonText \<circ> json_of_part) ps) \<noteq> []"
    using False jsonText_opens by (cases ps rule: list.exhaust; cases "tl ps") auto
  ultimately show ?thesis by (simp add: read_array_def)
qed (simp add: read_array_def)

section \<open>The canonical form\<close>

text \<open>
  The canonical text of \<open>packages/domain/src/context.ts\<close>: keys sorted, safe integers only, at most 64 levels;
  \<open>None\<close> is its \<open>CanonicalFormError\<close>.
\<close>

definition MAX_CANONICAL_INTEGER :: int where
  "MAX_CANONICAL_INTEGER = 9007199254740991"

definition CANONICAL_MAX_DEPTH :: nat where
  "CANONICAL_MAX_DEPTH = 64"

fun all_some :: "'a option list \<Rightarrow> 'a list option" where
  "all_some [] = Some []"
| "all_some (None # _) = None"
| "all_some (Some x # ys) = map_option (Cons x) (all_some ys)"

definition compareEntries :: "string \<times> 'a \<Rightarrow> string \<times> 'a \<Rightarrow> int" where
  "compareEntries a b = compareText (fst a) (fst b)"

fun canonicalize :: "nat \<Rightarrow> Json \<Rightarrow> string option" where
  "canonicalize depth JNull = (if CANONICAL_MAX_DEPTH < depth then None else Some ''null'')"
| "canonicalize depth (JText s) = (if CANONICAL_MAX_DEPTH < depth then None else Some (json_string s))"
| "canonicalize depth (JBool b) = (if CANONICAL_MAX_DEPTH < depth then None else Some (if b then ''true'' else ''false''))"
| "canonicalize depth (JNumber n) =
     (if CANONICAL_MAX_DEPTH < depth \<or> MAX_CANONICAL_INTEGER < \<bar>n\<bar> then None else Some (int_text n))"
| "canonicalize depth (JArray xs) =
     (if CANONICAL_MAX_DEPTH < depth then None
      else map_option (\<lambda>ts. CHR ''['' # joined ts @ '']'') (all_some (map (canonicalize (depth + 1)) xs)))"
| "canonicalize depth (JObject kvs) =
     (if CANONICAL_MAX_DEPTH < depth then None
      else map_option (\<lambda>ts. CHR ''{'' # joined ts @ ''}'')
        (all_some (map (\<lambda>(k, t). map_option (\<lambda>t. json_string k @ CHR '':'' # t) t)
          (js_sort compareEntries (map (\<lambda>(k, v). (k, canonicalize (depth + 1) v)) kvs)))))"

definition canonicalJson :: "Json \<Rightarrow> string option" where
  "canonicalJson v = canonicalize 0 v"

text \<open>\<open>sha\<close> stands for the hexadecimal SHA-256 of the runtime.\<close>

definition canonicalDigest :: "(string \<Rightarrow> string) \<Rightarrow> Json \<Rightarrow> string option" where
  "canonicalDigest sha v = map_option sha (canonicalJson v)"

text \<open>The value with the keys of every object sorted, and the values that have a canonical text.\<close>

fun sort_keys :: "Json \<Rightarrow> Json" where
  "sort_keys (JArray xs) = JArray (map sort_keys xs)"
| "sort_keys (JObject kvs) = JObject (js_sort compareEntries (map (\<lambda>(k, v). (k, sort_keys v)) kvs))"
| "sort_keys v = v"

fun fits :: "nat \<Rightarrow> Json \<Rightarrow> bool" where
  "fits depth (JNumber n) \<longleftrightarrow> depth \<le> CANONICAL_MAX_DEPTH \<and> \<bar>n\<bar> \<le> MAX_CANONICAL_INTEGER"
| "fits depth (JArray xs) \<longleftrightarrow> depth \<le> CANONICAL_MAX_DEPTH \<and> list_all (fits (depth + 1)) xs"
| "fits depth (JObject kvs) \<longleftrightarrow> depth \<le> CANONICAL_MAX_DEPTH \<and> list_all (\<lambda>(_, v). fits (depth + 1) v) kvs"
| "fits depth _ \<longleftrightarrow> depth \<le> CANONICAL_MAX_DEPTH"

lemma all_some_map: "list_all (\<lambda>x. f x = Some (g x)) xs \<Longrightarrow> all_some (map f xs) = Some (map g xs)"
  by (induction xs) auto

lemma all_some_None: "all_some xs = None \<longleftrightarrow> None \<in> set xs"
  by (induction xs rule: all_some.induct) auto

lemma sort_insert_entries:
  "sort_insert compareEntries (k, f v) (map (\<lambda>(k, v). (k, f v)) xs) =
   map (\<lambda>(k, v). (k, f v)) (sort_insert compareEntries (k, v) xs)"
  by (induction xs) (auto simp: compareEntries_def)

lemma js_sort_entries:
  "js_sort compareEntries (map (\<lambda>(k, v). (k, f v)) xs) = map (\<lambda>(k, v). (k, f v)) (js_sort compareEntries xs)"
  by (induction xs) (auto simp: sort_insert_entries)

text \<open>The canonical text is the text of the value with sorted keys, and exists exactly for the values that fit.\<close>

theorem canonicalize_text: "canonicalize depth v = (if fits depth v then Some (jsonText (sort_keys v)) else None)"
proof (induction v arbitrary: depth)
  case (JArray xs)
  show ?case
  proof (cases "list_all (fits (depth + 1)) xs")
    case True
    then have "all_some (map (canonicalize (depth + 1)) xs) = Some (map (jsonText \<circ> sort_keys) xs)"
      by (intro all_some_map) (auto simp: list_all_iff JArray)
    with True show ?thesis by (simp add: comp_def not_le)
  next
    case False
    then have "all_some (map (canonicalize (depth + 1)) xs) = None" by (auto simp: all_some_None list_all_iff image_iff JArray)
    with False show ?thesis by simp
  qed
next
  case (JObject kvs)
  let ?kvs = "js_sort compareEntries kvs"
  have each: "canonicalize d v = (if fits d v then Some (jsonText (sort_keys v)) else None)" if "(k, v) \<in> set kvs" for k v d
    using JObject [of "(k, v)" v d] that by simp
  have run: "js_sort compareEntries (map (\<lambda>(k, v). (k, canonicalize (depth + 1) v)) kvs) =
      map (\<lambda>(k, v). (k, canonicalize (depth + 1) v)) ?kvs" by (rule js_sort_entries)
  show ?case
  proof (cases "list_all (\<lambda>(_, v). fits (depth + 1) v) kvs")
    case True
    then have "all_some (map (\<lambda>(k, v). map_option (\<lambda>t. json_string k @ CHR '':'' # t) (canonicalize (depth + 1) v)) ?kvs) =
        Some (map (\<lambda>(k, v). json_string k @ CHR '':'' # jsonText (sort_keys v)) ?kvs)"
      by (intro all_some_map) (auto simp: list_all_iff each)
    with True show ?thesis
      unfolding canonicalize.simps run sort_keys.simps js_sort_entries by (simp add: comp_def case_prod_unfold not_le)
  next
    case False
    then have "all_some (map (\<lambda>(k, v). map_option (\<lambda>t. json_string k @ CHR '':'' # t) (canonicalize (depth + 1) v)) ?kvs) = None"
      by (force simp: all_some_None list_all_iff image_iff each)
    with False show ?thesis unfolding canonicalize.simps run by (simp add: comp_def case_prod_unfold)
  qed
qed auto

corollary canonical_same: "canonicalJson a = Some t \<Longrightarrow> canonicalJson b = Some t \<Longrightarrow> sort_keys a = sort_keys b"
  by (auto simp: canonicalJson_def canonicalize_text split: if_splits)

end
