(* ===== verification/Economic_Contract.thy ===== *)
theory Economic_Contract
  imports Json_Text Lot_Inputs
begin

text \<open>
  The consumption contract of economic events (\<open>packages/domain/src/economic-contract.ts\<close>): which book a row
  is consumed in, under which key and alias class, what a revision claims and releases, the records a commit
  stores, and the rules that admit an identity. The texts that are stored determine what they were made of,
  and a set of claims has one text. The guard codes of the database are names and are left out.
\<close>

section \<open>Books, keys and alias classes\<close>

datatype Book = Card_usage | Cash_movement_book | Security_quantity

fun book_text :: "Book \<Rightarrow> string" where
  "book_text Card_usage = ''card-usage''"
| "book_text Cash_movement_book = ''cash-movement''"
| "book_text Security_quantity = ''security-quantity''"

record ConsumptionKey =
  keySourceId :: string
  keyProducerId :: string
  keyNamespace :: "string option"
  keySourceAccount :: string
  keyExternalId :: string

definition CONSUMPTION_KEY_MAX_TEXT :: nat where
  "CONSUMPTION_KEY_MAX_TEXT = 2048"

definition key_parts :: "ConsumptionKey \<Rightarrow> string option list" where
  "key_parts k = [Some (keySourceId k), Some (keyProducerId k), keyNamespace k, Some (keySourceAccount k), Some (keyExternalId k)]"

definition consumptionKeyText :: "ConsumptionKey \<Rightarrow> string" where
  "consumptionKeyText k = jsonText (JArray (map json_of_part (key_parts k)))"

definition validConsumptionKey :: "ConsumptionKey \<Rightarrow> bool" where
  "validConsumptionKey k \<longleftrightarrow>
     isText 256 (keySourceId k) \<and> isText 256 (keyProducerId k) \<and>
     (case keyNamespace k of None \<Rightarrow> True | Some n \<Rightarrow> isText 256 n) \<and>
     isText 512 (keySourceAccount k) \<and> isText 512 (keyExternalId k) \<and>
     length (consumptionKeyText k) \<le> CONSUMPTION_KEY_MAX_TEXT"

fun key_of_parts :: "string option list \<Rightarrow> ConsumptionKey option" where
  "key_of_parts [Some s, Some p, n, Some a, Some e] =
     Some \<lparr>keySourceId = s, keyProducerId = p, keyNamespace = n, keySourceAccount = a, keyExternalId = e\<rparr>"
| "key_of_parts _ = None"

definition parseConsumptionKey :: "string \<Rightarrow> ConsumptionKey option" where
  "parseConsumptionKey t =
     (case Option.bind (read_array t) key_of_parts of
        None \<Rightarrow> None
      | Some k \<Rightarrow> if validConsumptionKey k \<and> consumptionKeyText k = t then Some k else None)"

record AliasClass =
  aliasSourceId :: string
  aliasComponents :: "string list"
  aliasAccountId :: string
  aliasRuleVersion :: string

definition aliasClassText :: "AliasClass \<Rightarrow> string" where
  "aliasClassText a = jsonText (JArray [JText (aliasSourceId a), JArray (map JText (aliasComponents a)),
     JText (aliasAccountId a), JText (aliasRuleVersion a)])"

definition validAliasClass :: "AliasClass \<Rightarrow> bool" where
  "validAliasClass a \<longleftrightarrow>
     isText 256 (aliasSourceId a) \<and> length (aliasComponents a) \<le> 16 \<and> list_all (isText 512) (aliasComponents a) \<and>
     aliasComponents a \<noteq> [] \<and> isText 256 (aliasAccountId a) \<and> isText 64 (aliasRuleVersion a) \<and>
     length (aliasClassText a) \<le> CONSUMPTION_KEY_MAX_TEXT"

section \<open>Claims\<close>

record BookClaim =
  claimBook :: Book
  claimedKey :: ConsumptionKey

definition validBookClaim :: "BookClaim \<Rightarrow> bool" where
  "validBookClaim c \<longleftrightarrow> validConsumptionKey (claimedKey c)"

definition bookClaimId :: "BookClaim \<Rightarrow> string" where
  "bookClaimId c = jsonText (JArray [JText (book_text (claimBook c)), JText (consumptionKeyText (claimedKey c))])"

definition validBookClaimSet :: "BookClaim list \<Rightarrow> bool" where
  "validBookClaimSet cs \<longleftrightarrow> length cs \<le> 64 \<and> list_all validBookClaim cs \<and> length (js_set (map bookClaimId cs)) = length cs"

definition sortedBookClaims :: "BookClaim list \<Rightarrow> BookClaim list" where
  "sortedBookClaims = js_sort (\<lambda>a b. compareText (bookClaimId a) (bookClaimId b))"

definition sameBookClaims :: "BookClaim list \<Rightarrow> BookClaim list \<Rightarrow> bool" where
  "sameBookClaims a b \<longleftrightarrow>
     (let left = js_set (map bookClaimId a); right = js_set (map bookClaimId b)
      in length left = length right \<and> list_all (\<lambda>i. i \<in> set right) left)"

fun released_from :: "string list \<Rightarrow> string list \<Rightarrow> BookClaim list \<Rightarrow> BookClaim list" where
  "released_from kept seen [] = []"
| "released_from kept seen (c # cs) =
     (if bookClaimId c \<in> set kept \<or> bookClaimId c \<in> set seen then released_from kept seen cs
      else c # released_from kept (bookClaimId c # seen) cs)"

definition releasedBookClaims :: "BookClaim list \<Rightarrow> BookClaim list \<Rightarrow> BookClaim list" where
  "releasedBookClaims prior nxt = sortedBookClaims (released_from (map bookClaimId nxt) [] prior)"

definition bookClaimsJson :: "BookClaim list \<Rightarrow> string" where
  "bookClaimsJson cs = jsonText (JArray (map (\<lambda>c. JArray [JText (book_text (claimBook c)), JText (consumptionKeyText (claimedKey c))])
     (sortedBookClaims cs)))"

section \<open>Revisions, heads and cuts\<close>

record RevisionRef =
  revisionEventId :: string
  revisionNumber :: int

definition validRevisionRef :: "RevisionRef \<Rightarrow> bool" where
  "validRevisionRef r \<longleftrightarrow> isText 256 (revisionEventId r) \<and> isSafeIntFrom 1 (revisionNumber r)"

record HeadRef =
  headEventId :: string
  headVersion :: int
  headLive :: bool

definition validHeadRef :: "HeadRef \<Rightarrow> bool" where
  "validHeadRef h \<longleftrightarrow> isText 256 (headEventId h) \<and> isSafeIntFrom 0 (headVersion h) \<and> (0 < headVersion h \<or> \<not> headLive h)"

definition economicEventSubject :: "string \<Rightarrow> string" where
  "economicEventSubject e = ''economic-event:'' @ e"

record CommitRef =
  commitEpoch :: string
  commitNumber :: int

definition validCommitRef :: "CommitRef \<Rightarrow> bool" where
  "validCommitRef c \<longleftrightarrow> isText 64 (commitEpoch c) \<and> isSafeIntFrom 1 (commitNumber c)"

datatype KnowledgeCut = Commit_cut CommitRef | Instant_cut string string

fun validKnowledgeCut :: "KnowledgeCut \<Rightarrow> bool" where
  "validKnowledgeCut (Commit_cut c) \<longleftrightarrow> validCommitRef c"
| "validKnowledgeCut (Instant_cut epoch instant) \<longleftrightarrow> isText 64 epoch \<and> isText 64 instant"

text \<open>\<open>YYYY-MM-DDTHH:MM:SS.sssZ\<close> exactly, a real UTC instant.\<close>

definition validKnownAt :: "string \<Rightarrow> bool" where
  "validKnownAt s \<longleftrightarrow> length s = 24 \<and> s ! 19 = CHR ''.'' \<and> s ! 23 = CHR ''Z'' \<and> parseInstant s \<noteq> None"

section \<open>Stored records\<close>

text \<open>The regular expressions of codes: between one and \<open>n\<close> characters of a closed set.\<close>

definition is_lower :: "char \<Rightarrow> bool" where
  "is_lower c \<longleftrightarrow> 97 \<le> (of_char c :: nat) \<and> (of_char c :: nat) \<le> 122"

definition is_code :: "nat \<Rightarrow> string \<Rightarrow> string \<Rightarrow> bool" where
  "is_code n marks s \<longleftrightarrow> isText n s \<and> list_all (\<lambda>c. is_lower c \<or> is_digit c \<or> c \<in> set marks) s"

definition validIdentityEpoch :: "string \<Rightarrow> bool" where
  "validIdentityEpoch = is_code 64 ''.-''"

definition validWriterRelease :: "string \<Rightarrow> bool" where
  "validWriterRelease = is_code 128 ''.:-''"

definition validCommitKind :: "string \<Rightarrow> bool" where
  "validCommitKind = is_code 64 ''.-''"

definition validDigest :: "string \<Rightarrow> bool" where
  "validDigest s \<longleftrightarrow> length s = 64 \<and> list_all (\<lambda>c. is_digit c \<or> c \<in> set ''abcdef'') s"

record EconomicClaimRecord =
  claimRevision :: RevisionRef
  recordClaim :: BookClaim
  claimAlias :: "AliasClass option"
  claimEpoch :: string
  claimObservation :: int
  claimParseRun :: int

definition validEconomicClaimRecord :: "EconomicClaimRecord \<Rightarrow> bool" where
  "validEconomicClaimRecord r \<longleftrightarrow>
     validRevisionRef (claimRevision r) \<and> validBookClaim (recordClaim r) \<and>
     (case claimAlias r of None \<Rightarrow> True
        | Some a \<Rightarrow> validAliasClass a \<and> aliasSourceId a = keySourceId (claimedKey (recordClaim r))) \<and>
     validIdentityEpoch (claimEpoch r) \<and> isSafeIntFrom 1 (claimObservation r) \<and> isSafeIntFrom 1 (claimParseRun r)"

datatype EventTimeRole = Trade_time | Settlement_time | Posting_time | Usage_time | Value_time

record EventTimeRecord =
  timeRevision :: RevisionRef
  eventTimeRole :: EventTimeRole
  eventTime :: TemporalValue

definition validEventTimeRecord :: "EventTimeRecord \<Rightarrow> bool" where
  "validEventTimeRecord r \<longleftrightarrow> validRevisionRef (timeRevision r) \<and> validTemporalValue (eventTime r)"

datatype LegEffect = Leg_movement | Leg_breakdown | Leg_correspondence

record LegEffectRecord =
  effectRevision :: RevisionRef
  effectLegIndex :: int
  legEffect :: LegEffect
  effectOfLeg :: "int option"

definition validLegEffectRecord :: "LegEffectRecord \<Rightarrow> bool" where
  "validLegEffectRecord r \<longleftrightarrow>
     validRevisionRef (effectRevision r) \<and> isSafeIntFrom 0 (effectLegIndex r) \<and>
     (if legEffect r = Leg_movement then effectOfLeg r = None
      else case effectOfLeg r of None \<Rightarrow> False | Some i \<Rightarrow> isSafeIntFrom 0 i \<and> i \<noteq> effectLegIndex r)"

text \<open>An object whose keys are subjects: its entries, each key once.\<close>

definition validIdentityPins :: "(string \<times> int) list \<Rightarrow> bool" where
  "validIdentityPins pins \<longleftrightarrow> length pins \<le> 256 \<and> list_all (\<lambda>(k, n). isText 512 k \<and> isSafeIntFrom 0 n) pins"

record RevisionSealRecord =
  sealRevision :: RevisionRef
  sealWriter :: string
  sealLegs :: int
  sealClaims :: int
  sealTimes :: int
  sealEffects :: int
  sealDigest :: string
  sealPins :: "(string \<times> int) list"
  sealEpoch :: string
  sealCommit :: CommitRef

definition validRevisionSealRecord :: "RevisionSealRecord \<Rightarrow> bool" where
  "validRevisionSealRecord r \<longleftrightarrow>
     validRevisionRef (sealRevision r) \<and> validWriterRelease (sealWriter r) \<and>
     isSafeIntFrom 0 (sealLegs r) \<and> isSafeIntFrom 0 (sealClaims r) \<and> isSafeIntFrom 0 (sealTimes r) \<and>
     isSafeIntFrom 0 (sealEffects r) \<and> validDigest (sealDigest r) \<and> validIdentityPins (sealPins r) \<and>
     validIdentityEpoch (sealEpoch r) \<and> validCommitRef (sealCommit r)"

record CommitMember =
  memberRevision :: RevisionRef
  memberSupersedes :: "RevisionRef list"

definition revisionText :: "RevisionRef \<Rightarrow> string" where
  "revisionText r = revisionEventId r @ ''@'' @ int_text (revisionNumber r)"

definition validCommitMember :: "CommitMember \<Rightarrow> bool" where
  "validCommitMember m \<longleftrightarrow>
     validRevisionRef (memberRevision m) \<and>
     length (memberSupersedes m) \<le> 16 \<and> list_all validRevisionRef (memberSupersedes m) \<and>
     length (js_set (map revisionText (memberSupersedes m))) = length (memberSupersedes m) \<and>
     \<not> list_ex (\<lambda>r. revisionEventId r = revisionEventId (memberRevision m) \<and>
         revisionNumber (memberRevision m) \<le> revisionNumber r) (memberSupersedes m)"

record CommitLogRecord =
  logCommit :: CommitRef
  logDecision :: string
  logOperation :: "string option"
  logPrincipal :: string
  logPayloadDigest :: string
  logKind :: string
  logMembers :: "CommitMember list"
  logClaims :: "BookClaim list"
  logReleased :: "BookClaim list"
  logKnownAt :: string

definition validCommitLogRecord :: "CommitLogRecord \<Rightarrow> bool" where
  "validCommitLogRecord r \<longleftrightarrow>
     validCommitRef (logCommit r) \<and> isText 256 (logDecision r) \<and>
     (case logOperation r of None \<Rightarrow> True | Some i \<Rightarrow> isText 256 i) \<and>
     isText 256 (logPrincipal r) \<and> validDigest (logPayloadDigest r) \<and> validCommitKind (logKind r) \<and>
     length (logMembers r) \<le> 16 \<and> list_all validCommitMember (logMembers r) \<and> logMembers r \<noteq> [] \<and>
     length (js_set (map (revisionEventId \<circ> memberRevision) (logMembers r))) = length (logMembers r) \<and>
     validBookClaimSet (logClaims r) \<and> validBookClaimSet (logReleased r) \<and> validKnownAt (logKnownAt r) \<and>
     list_all (\<lambda>c. bookClaimId c \<notin> set (map bookClaimId (logClaims r))) (logReleased r)"

definition commitMembersJson :: "CommitMember list \<Rightarrow> string" where
  "commitMembersJson ms = jsonText (JArray (map (\<lambda>m. JObject
     [(''eventId'', JText (revisionEventId (memberRevision m))),
      (''revision'', JNumber (revisionNumber (memberRevision m))),
      (''supersedes'', JArray (map (\<lambda>r. JArray [JText (revisionEventId r), JNumber (revisionNumber r)]) (memberSupersedes m)))]) ms))"

section \<open>Admission of an identity\<close>

datatype IdentityOriginBasis = Provider_id_basis | Fingerprint_occurrence_basis | Collector_fingerprint_basis
  | Evidence_digest_basis | Unrecorded_basis | Absent_basis

datatype IdentityWriterKind = Rule_writer | Human_writer

datatype IdentityRefusal = Identity_fingerprint_only | Identity_origin_unrecorded | Identity_digest_not_provider
  | Identity_resolver_missing | Identity_absent

record IdentityAdmissionInput =
  originBasis :: IdentityOriginBasis
  resolverDeclared :: bool
  writerKind :: IdentityWriterKind
  retireBeforeRecognise :: bool

text \<open>A refusal, or whether the writer must record an alias class.\<close>

definition admitIdentity :: "IdentityAdmissionInput \<Rightarrow> IdentityRefusal + bool" where
  "admitIdentity i =
     (if originBasis i = Absent_basis then Inl Identity_absent
      else if writerKind i = Rule_writer \<and> retireBeforeRecognise i then Inr False
      else case originBasis i of
          Fingerprint_occurrence_basis \<Rightarrow> Inl Identity_fingerprint_only
        | Collector_fingerprint_basis \<Rightarrow> Inl Identity_fingerprint_only
        | Evidence_digest_basis \<Rightarrow> Inl Identity_digest_not_provider
        | Unrecorded_basis \<Rightarrow> Inl Identity_origin_unrecorded
        | Provider_id_basis \<Rightarrow> if resolverDeclared i then Inr True else Inl Identity_resolver_missing
        | Absent_basis \<Rightarrow> Inl Identity_absent)"

section \<open>Texts determine what they were made of\<close>

lemma json_of_part_inject [simp]: "json_of_part p = json_of_part q \<longleftrightarrow> p = q"
  by (auto simp: json_of_part_def split: option.splits)

lemma map_json_of_part_inject [simp]: "map json_of_part ps = map json_of_part qs \<longleftrightarrow> ps = qs"
  by (rule inj_map_eq_map) (simp add: inj_def)

lemma key_of_parts_key [simp]: "key_of_parts (key_parts k) = Some k"
  by (simp add: key_parts_def)

lemma consumptionKeyText_inject [simp]: "consumptionKeyText k = consumptionKeyText l \<longleftrightarrow> k = l"
  unfolding consumptionKeyText_def jsonText_inject Json.inject map_json_of_part_inject by (metis key_of_parts_key option.inject)

lemma map_JText_inject [simp]: "map JText xs = map JText ys \<longleftrightarrow> xs = ys"
  by (rule inj_map_eq_map) (simp add: inj_def)

lemma aliasClassText_inject [simp]: "aliasClassText a = aliasClassText b \<longleftrightarrow> a = b"
  unfolding aliasClassText_def jsonText_inject by (cases a; cases b) simp

lemma book_text_inject [simp]: "book_text a = book_text b \<longleftrightarrow> a = b"
  by (cases a; cases b) simp_all

lemma bookClaimId_inject [simp]: "bookClaimId a = bookClaimId b \<longleftrightarrow> a = b"
  unfolding bookClaimId_def jsonText_inject by (cases a; cases b) simp

text \<open>
  Property C35: a stored key text is a key exactly when it is the text of that key. Parsing gives a key back
  only for a valid key's own text, and gives every valid key back; re-spaced or otherwise rendered texts are
  no key, so two keys never share a stored text.
\<close>

theorem key_text_roundtrip:
  "parseConsumptionKey t = Some k \<longleftrightarrow> validConsumptionKey k \<and> t = consumptionKeyText k"
proof -
  have "parseConsumptionKey (consumptionKeyText k) = (if validConsumptionKey k then Some k else None)"
    unfolding parseConsumptionKey_def by (simp add: consumptionKeyText_def read_array_text del: jsonText.simps)
  moreover have "t = consumptionKeyText k" if "parseConsumptionKey t = Some k"
    using that unfolding parseConsumptionKey_def by (auto split: option.splits if_splits)
  ultimately show ?thesis by (auto split: if_splits)
qed

section \<open>Sets of claims\<close>

lemma sortedBookClaims_mset [simp]: "mset (sortedBookClaims cs) = mset cs" "set (sortedBookClaims cs) = set cs"
  by (simp_all add: sortedBookClaims_def)

lemma sortedBookClaims_cong: "mset a = mset b \<Longrightarrow> sortedBookClaims a = sortedBookClaims b"
  unfolding sortedBookClaims_def by (rule text_order.js_sort_perm) auto

lemma bookClaimsJson_ids: "bookClaimsJson a = bookClaimsJson b \<longleftrightarrow> sortedBookClaims a = sortedBookClaims b"
proof -
  have "inj (\<lambda>c :: BookClaim. JArray [JText (book_text (claimBook c)), JText (consumptionKeyText (claimedKey c))])"
    by (rule injI, rule BookClaim.equality) simp_all
  then show ?thesis unfolding bookClaimsJson_def jsonText_inject by (simp add: inj_map_eq_map)
qed

lemma released_from_set: "set (released_from kept seen cs) = {c \<in> set cs. bookClaimId c \<notin> set kept \<and> bookClaimId c \<notin> set seen}"
  by (induction kept seen cs rule: released_from.induct) auto

lemma released_from_distinct: "distinct (released_from kept seen cs)"
  by (induction kept seen cs rule: released_from.induct) (auto simp: released_from_set)

lemma length_released_from: "length (released_from kept seen cs) \<le> length cs"
  by (induction kept seen cs rule: released_from.induct) auto

lemma released_facts:
  "set (releasedBookClaims prior nxt) = set prior - set nxt" "distinct (releasedBookClaims prior nxt)"
proof -
  show "set (releasedBookClaims prior nxt) = set prior - set nxt"
    by (auto simp: releasedBookClaims_def released_from_set image_iff)
  show "distinct (releasedBookClaims prior nxt)"
    unfolding releasedBookClaims_def
    using mset_eq_imp_distinct_iff [OF sortedBookClaims_mset(1) [of "released_from (map bookClaimId nxt) [] prior"]] released_from_distinct
    by blast
qed

lemma released_cong:
  assumes "set prior' = set prior" and "set nxt' = set nxt"
  shows "releasedBookClaims prior' nxt' = releasedBookClaims prior nxt"
  unfolding releasedBookClaims_def
proof (rule sortedBookClaims_cong)
  have "set (released_from (map bookClaimId nxt') [] prior') = set (released_from (map bookClaimId nxt) [] prior)"
    by (simp add: released_from_set assms)
  then show "mset (released_from (map bookClaimId nxt') [] prior') = mset (released_from (map bookClaimId nxt) [] prior)"
    by (rule set_eq_iff_mset_eq_distinct [THEN iffD1, rotated -1]) (rule released_from_distinct)+
qed

text \<open>
  The stored text of a set of claims determines the set, and nothing else does. Two lists have
  one text exactly when they hold the same claims the same number of times, in whatever order.
\<close>

theorem claims_text_canonical: "bookClaimsJson a = bookClaimsJson b \<longleftrightarrow> mset a = mset b"
  unfolding bookClaimsJson_ids using sortedBookClaims_cong [of a b] sortedBookClaims_mset(1) by metis

lemma released_set_valid: "validBookClaimSet prior \<Longrightarrow> validBookClaimSet (releasedBookClaims prior nxt)"
proof -
  assume prior: "validBookClaimSet prior"
  have "length (releasedBookClaims prior nxt) \<le> 64"
    using prior length_released_from [of "map bookClaimId nxt" "[]" prior]
    by (simp add: releasedBookClaims_def sortedBookClaims_def validBookClaimSet_def)
  moreover have "distinct (map bookClaimId (releasedBookClaims prior nxt))"
    using released_facts(2) [of prior nxt] by (simp add: distinct_map inj_on_def)
  ultimately show ?thesis
    using prior released_facts(1) [of prior nxt]
    by (auto simp: validBookClaimSet_def list_all_iff length_js_set [of "map bookClaimId _", unfolded length_map])
qed

lemma sameBookClaims_iff: "sameBookClaims a b \<longleftrightarrow> set a = set b"
proof -
  have ids: "set (map bookClaimId a) = set (map bookClaimId b) \<longleftrightarrow> set a = set b"
    unfolding set_map by (rule inj_image_eq_iff) (simp add: inj_def)
  have card: "length (js_set xs) = card (set xs)" for xs :: "string list"
    using distinct_card [of "js_set xs"] by simp
  have "set (map bookClaimId a) \<subseteq> set (map bookClaimId b) \<and> card (set (map bookClaimId a)) = card (set (map bookClaimId b)) \<longleftrightarrow>
      set (map bookClaimId a) = set (map bookClaimId b)"
    by (metis List.finite_set card_subset_eq order_refl)
  then show ?thesis unfolding sameBookClaims_def Let_def card list_all_iff set_js_set ids [symmetric] by blast
qed

text \<open>
  Property C36: what a commit releases. The released claims are those of the superseded revisions that the new
  ones do not claim again, each once and in the order of their texts, whatever order they were listed in;
  so a record that stores them meets the check that no released claim is claimed, and every claim of before is
  either released or claimed again, never both.
\<close>

theorem released_exactly:
  "set (releasedBookClaims prior nxt) = set prior - set nxt \<and> distinct (releasedBookClaims prior nxt) \<and>
   sorted (map bookClaimId (releasedBookClaims prior nxt)) \<and>
   list_all (\<lambda>c. bookClaimId c \<notin> set (map bookClaimId nxt)) (releasedBookClaims prior nxt) \<and>
   (\<forall>prior' nxt'. set prior' = set prior \<and> set nxt' = set nxt \<longrightarrow> releasedBookClaims prior' nxt' = releasedBookClaims prior nxt)"
proof (intro conjI allI impI)
  show "sorted (map bookClaimId (releasedBookClaims prior nxt))"
    unfolding releasedBookClaims_def sortedBookClaims_def sorted_map
    by (rule sorted_wrt_mono_rel [OF _ text_order.sorted_js_sort [of bookClaimId]]) simp
qed (auto simp: released_facts list_all_iff intro: released_cong)

definition ex_claim :: "Book \<Rightarrow> BookClaim" where
  "ex_claim b = \<lparr>claimBook = b, claimedKey = \<lparr>keySourceId = ''bank'', keyProducerId = ''p'', keyNamespace = None,
     keySourceAccount = ''a'', keyExternalId = ''1''\<rparr>\<rparr>"

lemma released_exactly_witness:
  "set (releasedBookClaims [ex_claim Card_usage, ex_claim Cash_movement_book, ex_claim Card_usage] [ex_claim Cash_movement_book]) =
     {ex_claim Card_usage} \<and>
   releasedBookClaims [ex_claim Cash_movement_book, ex_claim Card_usage] [ex_claim Cash_movement_book] =
     releasedBookClaims [ex_claim Card_usage, ex_claim Cash_movement_book, ex_claim Card_usage] [ex_claim Cash_movement_book]"
proof -
  define c d where cd: "c = ex_claim Card_usage" "d = ex_claim Cash_movement_book"
  have "c \<noteq> d" by (simp add: cd ex_claim_def)
  note r = released_exactly [of "[c, d, c]" "[d]"]
  have "set (releasedBookClaims [c, d, c] [d]) = {c}" using r [THEN conjunct1] \<open>c \<noteq> d\<close> by auto
  moreover have "set [d, c] = set [c, d, c] \<and> set [d] = set [d]" by auto
  with r have "releasedBookClaims [d, c] [d] = releasedBookClaims [c, d, c] [d]" by blast
  ultimately show ?thesis unfolding cd by (rule conjI)
qed

end
