(* ===== verification/Transaction_Families.thy ===== *)
theory Transaction_Families
  imports Economic_Contract
begin

text \<open>
  The transaction-family registry (\<open>packages/domain/src/event-families.ts\<close>): for each parser, which families
  its rows belong to, how its rows are identified and why no writer exists; and the identity a human-adopted
  writer may consume one row under (\<open>packages/domain/src/row-identity.ts\<close>).
\<close>

section \<open>Closed vocabularies\<close>

definition TRANSACTION_FAMILY_REGISTRY_VERSION :: string where
  "TRANSACTION_FAMILY_REGISTRY_VERSION = ''transaction-family-registry-v3''"

datatype TransactionFamily = Bank_movement | Stored_value_movement | Fx_exchange | Overseas_remittance
  | Securities_order | Securities_execution | Securities_settlement_cash | Crypto_execution | Crypto_fiat_remittance
  | Reward_exchange | Prepaid_funding | Prepaid_notification | Card_purchase_family | Card_settlement_family

datatype FamilyUnsupportedReason = No_event_writer | Fingerprint_only | Evidence_digest | Origin_unrecorded
  | Identity_missing | Direction_code_unmapped | Cash_amount_not_stated | Counterpart_not_stated | Not_collected
  | Semantics_unobserved | Snapshot_only | Writer_guard_pending

definition FAMILY_UNSUPPORTED_REASONS :: "FamilyUnsupportedReason list" where
  "FAMILY_UNSUPPORTED_REASONS = [No_event_writer, Fingerprint_only, Evidence_digest, Origin_unrecorded,
     Identity_missing, Direction_code_unmapped, Cash_amount_not_stated, Counterpart_not_stated, Not_collected,
     Semantics_unobserved, Snapshot_only, Writer_guard_pending]"

datatype ProviderLinkCode = Execution_sub_number | Value_date | Settlement_amount | Commission_stated
  | Exchange_rate_stated | No_link_stated

datatype ExternalIdBasis = Provider_id | Provider_id_tuple | Evidence_digest_id | Fingerprint_occurrence
  | Collector_fingerprint | No_external_id

datatype RecordedOriginKey = Identity_origin_key | External_id_origin_key

datatype StageAOriginReading = Reads_provider | Reads_fingerprint | Reads_unknown

record RecordedIdentity =
  externalIdBasis :: ExternalIdBasis
  originKey :: "RecordedOriginKey option"
  stageAReads :: StageAOriginReading

datatype RegistryObservationKind = Transaction_rows | Position_rows

datatype StatusVocabulary = Status_absent | Status_closed "string list" | Status_verbatim

text \<open>A supported membership has no reasons; an unsupported one lists them.\<close>

record FamilyMembership =
  memberFamily :: TransactionFamily
  memberSupported :: bool
  memberReasons :: "FamilyUnsupportedReason list"

record TransactionFamilyEntry =
  entrySource :: string
  entryParser :: string
  observationKinds :: "RegistryObservationKind list"
  entryIdentity :: RecordedIdentity
  entryStatuses :: StatusVocabulary
  providerLinks :: "ProviderLinkCode list"
  entryFamilies :: "FamilyMembership list"

section \<open>The registry\<close>

definition PENDING :: "FamilyUnsupportedReason list" where
  "PENDING = [No_event_writer, Writer_guard_pending]"

text \<open>The family-level statement: \<open>None\<close> when supported, the reasons otherwise.\<close>

fun FAMILY_SUPPORT :: "TransactionFamily \<Rightarrow> FamilyUnsupportedReason list option" where
  "FAMILY_SUPPORT Bank_movement = Some PENDING"
| "FAMILY_SUPPORT Stored_value_movement = Some PENDING"
| "FAMILY_SUPPORT Fx_exchange = Some PENDING"
| "FAMILY_SUPPORT Overseas_remittance = Some [No_event_writer, Semantics_unobserved, Writer_guard_pending]"
| "FAMILY_SUPPORT Securities_order = Some [No_event_writer, Not_collected]"
| "FAMILY_SUPPORT Securities_execution = Some PENDING"
| "FAMILY_SUPPORT Securities_settlement_cash = Some PENDING"
| "FAMILY_SUPPORT Crypto_execution = Some PENDING"
| "FAMILY_SUPPORT Crypto_fiat_remittance = Some PENDING"
| "FAMILY_SUPPORT Reward_exchange = Some [No_event_writer, Not_collected]"
| "FAMILY_SUPPORT Prepaid_funding = Some PENDING"
| "FAMILY_SUPPORT Prepaid_notification = Some [No_event_writer, Semantics_unobserved]"
| "FAMILY_SUPPORT Card_purchase_family = None"
| "FAMILY_SUPPORT Card_settlement_family = None"

definition familyReasons :: "TransactionFamily \<Rightarrow> FamilyUnsupportedReason list" where
  "familyReasons f = (case FAMILY_SUPPORT f of None \<Rightarrow> [] | Some rs \<Rightarrow> rs)"

definition supported :: "TransactionFamily \<Rightarrow> FamilyMembership" where
  "supported f = \<lparr>memberFamily = f, memberSupported = True, memberReasons = []\<rparr>"

definition unsupported :: "TransactionFamily \<Rightarrow> FamilyUnsupportedReason list \<Rightarrow> FamilyMembership" where
  "unsupported f extra = \<lparr>memberFamily = f, memberSupported = False,
     memberReasons = filter (\<lambda>r. r = No_event_writer \<or> r \<in> set (familyReasons f) \<or> r \<in> set extra) FAMILY_UNSUPPORTED_REASONS\<rparr>"

definition identity :: "ExternalIdBasis \<Rightarrow> RecordedIdentity" where
  "identity b = \<lparr>externalIdBasis = b, originKey = None, stageAReads = Reads_unknown\<rparr>"

definition recorded_under :: "ExternalIdBasis \<Rightarrow> StageAOriginReading \<Rightarrow> RecordedIdentity" where
  "recorded_under b reads = \<lparr>externalIdBasis = b, originKey = Some Identity_origin_key, stageAReads = reads\<rparr>"

definition FINGERPRINT :: RecordedIdentity where
  "FINGERPRINT = recorded_under Fingerprint_occurrence Reads_fingerprint"

definition POSTED :: StatusVocabulary where
  "POSTED = Status_closed [''posted'']"

abbreviation registry_entry where
  "registry_entry s p ks i st ls fs \<equiv> \<lparr>entrySource = s, entryParser = p, observationKinds = ks, entryIdentity = i,
     entryStatuses = st, providerLinks = ls, entryFamilies = fs\<rparr>"

definition TRANSACTION_FAMILY_REGISTRY :: "TransactionFamilyEntry list" where
  "TRANSACTION_FAMILY_REGISTRY = [
   registry_entry ''global-pass'' ''global-pass-activity'' [Transaction_rows] FINGERPRINT Status_absent
     [Settlement_amount, Commission_stated, Exchange_rate_stated]
     [unsupported Card_purchase_family [Fingerprint_only, Semantics_unobserved],
      unsupported Fx_exchange [Fingerprint_only, Semantics_unobserved]],
   registry_entry ''mizuho-bank'' ''mizuho-ordinary-history'' [Transaction_rows] FINGERPRINT POSTED [No_link_stated]
     [unsupported Bank_movement [Fingerprint_only, Counterpart_not_stated]],
   registry_entry ''mobile-suica'' ''mobile-suica-sf-history'' [Transaction_rows] FINGERPRINT POSTED [No_link_stated]
     [unsupported Stored_value_movement [Fingerprint_only],
      unsupported Prepaid_funding [Fingerprint_only, Counterpart_not_stated]],
   registry_entry ''moneyforward-me'' ''moneyforward-monthly-transactions'' [Transaction_rows] FINGERPRINT Status_absent [No_link_stated]
     [unsupported Bank_movement [Fingerprint_only, Counterpart_not_stated, Semantics_unobserved]],
   registry_entry ''myjcb'' ''myjcb-credit-ledger'' [Transaction_rows] FINGERPRINT
     (Status_closed [''confirmed'', ''unconfirmed'']) [No_link_stated] [supported Card_purchase_family],
   registry_entry ''paypay'' ''paypay-csv'' [Transaction_rows] (identity Provider_id) Status_absent
     [Settlement_amount, Exchange_rate_stated]
     [unsupported Stored_value_movement [Origin_unrecorded, Semantics_unobserved],
      unsupported Prepaid_funding [Origin_unrecorded, Counterpart_not_stated],
      unsupported Fx_exchange [Origin_unrecorded, Semantics_unobserved]],
   registry_entry ''sbi-securities'' ''sbi-domestic-cash-positions'' [Position_rows] (identity No_external_id) Status_absent
     [No_link_stated] [unsupported Securities_execution [Snapshot_only]],
   registry_entry ''sbi-securities'' ''sbi-domestic-trade-records'' [Transaction_rows]
     ((identity Collector_fingerprint)\<lparr>originKey := Some External_id_origin_key\<rparr>) Status_absent [Value_date]
     [unsupported Securities_execution [Fingerprint_only, Origin_unrecorded, Direction_code_unmapped]],
   registry_entry ''sbi-securities'' ''sbi-foreign-cash-positions'' [Position_rows] (identity No_external_id) Status_absent
     [No_link_stated] [unsupported Securities_execution [Snapshot_only]],
   registry_entry ''sbi-securities'' ''sbi-foreign-trade-records'' [Transaction_rows] FINGERPRINT POSTED
     [Value_date, Settlement_amount] [unsupported Securities_execution [Fingerprint_only, Direction_code_unmapped]],
   registry_entry ''sbi-securities'' ''sbi-yen-detail-history'' [Transaction_rows] (identity Provider_id) POSTED [No_link_stated]
     [unsupported Securities_settlement_cash [Origin_unrecorded, Counterpart_not_stated]],
   registry_entry ''sbi-shinsei-bank'' ''sbi-shinsei-top-balances-and-activity'' [Transaction_rows]
     (recorded_under Provider_id Reads_provider) Status_absent [No_link_stated]
     [unsupported Bank_movement [Counterpart_not_stated],
      unsupported Fx_exchange [Counterpart_not_stated, Semantics_unobserved], supported Card_settlement_family],
   registry_entry ''sbi-vc-trade'' ''sbi-vc-cashflows'' [Transaction_rows] (identity Provider_id) Status_verbatim [Value_date]
     [unsupported Crypto_fiat_remittance [Origin_unrecorded, Counterpart_not_stated]],
   registry_entry ''sbi-vc-trade'' ''sbi-vc-executions'' [Transaction_rows] (identity Provider_id_tuple) Status_absent
     [Execution_sub_number, Value_date, Commission_stated]
     [unsupported Crypto_execution [Origin_unrecorded, Cash_amount_not_stated]],
   registry_entry ''sbi-vc-trade'' ''sbi-vc-position-summary'' [Position_rows] (identity No_external_id) Status_absent
     [No_link_stated] [unsupported Crypto_execution [Snapshot_only]],
   registry_entry ''smbc-bank'' ''smbc-direct-transactions'' [Transaction_rows] (recorded_under Provider_id Reads_provider) POSTED
     [No_link_stated] [unsupported Bank_movement [Counterpart_not_stated], supported Card_settlement_family],
   registry_entry ''sony-bank'' ''sony-bank-history-csv'' [Transaction_rows] FINGERPRINT POSTED [Exchange_rate_stated]
     [unsupported Bank_movement [Fingerprint_only, Counterpart_not_stated],
      unsupported Fx_exchange [Fingerprint_only, Counterpart_not_stated, Semantics_unobserved]],
   registry_entry ''sony-bank'' ''sony-bank-history-json'' [Transaction_rows] FINGERPRINT POSTED [Exchange_rate_stated]
     [unsupported Bank_movement [Fingerprint_only, Counterpart_not_stated],
      unsupported Fx_exchange [Fingerprint_only, Counterpart_not_stated, Semantics_unobserved]],
   registry_entry ''sony-bank'' ''sony-bank-wallet-history'' [Transaction_rows] FINGERPRINT
     (Status_closed [''pending'', ''posted'']) [Value_date, Settlement_amount, Commission_stated, Exchange_rate_stated]
     [unsupported Card_purchase_family [Fingerprint_only, Counterpart_not_stated],
      unsupported Fx_exchange [Fingerprint_only, Semantics_unobserved]],
   registry_entry ''st-george'' ''st-george-transactions'' [Transaction_rows] FINGERPRINT Status_absent [No_link_stated]
     [unsupported Bank_movement [Fingerprint_only, Counterpart_not_stated]],
   registry_entry ''v-point-pay'' ''v-point-pay-notification-event'' [Transaction_rows]
     (recorded_under Evidence_digest_id Reads_provider) (Status_closed [''notified'', ''declined'']) [No_link_stated]
     [unsupported Prepaid_notification [Evidence_digest],
      unsupported Stored_value_movement [Evidence_digest, Semantics_unobserved],
      unsupported Prepaid_funding [Evidence_digest, Counterpart_not_stated, Semantics_unobserved]],
   registry_entry ''v-point'' ''v-point-history-page'' [Transaction_rows] (identity No_external_id) Status_absent [Value_date]
     [unsupported Reward_exchange [Identity_missing, Semantics_unobserved]],
   registry_entry ''vpass'' ''vpass-statement-page'' [Transaction_rows] FINGERPRINT
     (Status_closed [''posted'', ''unconfirmed'']) [Settlement_amount, Exchange_rate_stated]
     [supported Card_purchase_family, unsupported Fx_exchange [Fingerprint_only, Semantics_unobserved]]]"

text \<open>\<open>None\<close> as source accounts stands for any source account.\<close>

record ProviderIdentityFunction =
  functionSource :: string
  functionParser :: string
  functionAccounts :: "string list option"
  componentFields :: "string list"
  functionRuleVersion :: string

definition PROVIDER_IDENTITY_FUNCTIONS :: "ProviderIdentityFunction list" where
  "PROVIDER_IDENTITY_FUNCTIONS = [
     \<lparr>functionSource = ''smbc-bank'', functionParser = ''smbc-direct-transactions'', functionAccounts = None,
      componentFields = [''id''], functionRuleVersion = ''smbc-meisai-id-v1''\<rparr>,
     \<lparr>functionSource = ''sbi-shinsei-bank'', functionParser = ''sbi-shinsei-top-balances-and-activity'', functionAccounts = None,
      componentFields = [''txnReferenceNo''], functionRuleVersion = ''sbi-shinsei-txn-reference-no-v1''\<rparr>]"

definition providerIdentityFunction :: "string \<Rightarrow> string \<Rightarrow> string \<Rightarrow> ProviderIdentityFunction option" where
  "providerIdentityFunction source parser account =
     List.find (\<lambda>f. functionSource f = source \<and> functionParser f = parser \<and>
       (case functionAccounts f of None \<Rightarrow> True | Some accounts \<Rightarrow> account \<in> set accounts)) PROVIDER_IDENTITY_FUNCTIONS"

definition transactionFamilyEntry :: "string \<Rightarrow> string \<Rightarrow> TransactionFamilyEntry option" where
  "transactionFamilyEntry source parser =
     List.find (\<lambda>e. entrySource e = source \<and> entryParser e = parser) TRANSACTION_FAMILY_REGISTRY"

definition transactionFamilyEntries :: "TransactionFamily \<Rightarrow> TransactionFamilyEntry list" where
  "transactionFamilyEntries f = filter (\<lambda>e. list_ex (\<lambda>m. memberFamily m = f) (entryFamilies e)) TRANSACTION_FAMILY_REGISTRY"

definition familyUnsupportedReasons :: "TransactionFamily \<Rightarrow> FamilyUnsupportedReason list" where
  "familyUnsupportedReasons f =
     (let found = familyReasons f @ concat (map (\<lambda>e. concat (map memberReasons (filter (\<lambda>m. memberFamily m = f) (entryFamilies e))))
            (transactionFamilyEntries f))
      in filter (\<lambda>r. r \<in> set found) FAMILY_UNSUPPORTED_REASONS)"

definition distinctNonEmpty :: "('a \<Rightarrow> bool) \<Rightarrow> 'a list \<Rightarrow> bool" where
  "distinctNonEmpty valid xs \<longleftrightarrow> xs \<noteq> [] \<and> list_all valid xs \<and> length (js_set xs) = length xs"

definition validIdentity :: "RecordedIdentity \<Rightarrow> bool" where
  "validIdentity i \<longleftrightarrow> (originKey i = Some Identity_origin_key) = (stageAReads i \<noteq> Reads_unknown)"

fun validStatuses :: "StatusVocabulary \<Rightarrow> bool" where
  "validStatuses (Status_closed vs) \<longleftrightarrow> distinctNonEmpty (isText 64) vs"
| "validStatuses Status_absent \<longleftrightarrow> True"
| "validStatuses Status_verbatim \<longleftrightarrow> True"

definition validMembership :: "FamilyMembership \<Rightarrow> bool" where
  "validMembership m \<longleftrightarrow>
     (if memberSupported m then memberReasons m = []
      else distinctNonEmpty (\<lambda>_. True) (memberReasons m) \<and> No_event_writer \<in> set (memberReasons m))"

definition validTransactionFamilyEntry :: "TransactionFamilyEntry \<Rightarrow> bool" where
  "validTransactionFamilyEntry e \<longleftrightarrow>
     isText 64 (entrySource e) \<and> isText 128 (entryParser e) \<and> distinctNonEmpty (\<lambda>_. True) (observationKinds e) \<and>
     validIdentity (entryIdentity e) \<and> validStatuses (entryStatuses e) \<and>
     distinctNonEmpty (\<lambda>_. True) (providerLinks e) \<and>
     (No_link_stated \<in> set (providerLinks e) \<longrightarrow> length (providerLinks e) = 1) \<and>
     entryFamilies e \<noteq> [] \<and> list_all validMembership (entryFamilies e) \<and>
     length (js_set (map memberFamily (entryFamilies e))) = length (entryFamilies e)"

section \<open>The identity of one row\<close>

text \<open>
  The row's \<open>extra\<close> is a parsed JSON value: the entries of an object, or \<open>None\<close> for anything else. Booleans and
  fractions are not told from other values that are neither text nor object.
\<close>

record HumanAdoptedRowInput =
  rowSource :: string
  rowParser :: string
  rowAccount :: string
  rowExternalId :: "string option"
  rowExtra :: "(string \<times> Json) list option"
  rowAccountId :: string

fun object_entries :: "Json option \<Rightarrow> (string \<times> Json) list option" where
  "object_entries (Some (JObject kvs)) = Some kvs"
| "object_entries _ = None"

fun text_value :: "Json option \<Rightarrow> string option" where
  "text_value (Some (JText t)) = Some t"
| "text_value _ = None"

definition recorded_origin :: "(string \<times> Json) list option \<Rightarrow> string option" where
  "recorded_origin extra =
     (case object_entries (Option.bind extra (\<lambda>kvs. map_of kvs ''_kogane'')) of
        None \<Rightarrow> None
      | Some kogane \<Rightarrow> text_value (map_of kogane ''identityOrigin''))"

definition rowOriginBasis :: "HumanAdoptedRowInput \<Rightarrow> IdentityOriginBasis" where
  "rowOriginBasis r =
     (if rowExternalId r = None \<or> rowExternalId r = Some [] then Absent_basis
      else case transactionFamilyEntry (rowSource r) (rowParser r) of
          None \<Rightarrow> Unrecorded_basis
        | Some e \<Rightarrow>
            (case externalIdBasis (entryIdentity e) of
               No_external_id \<Rightarrow> Absent_basis
             | Fingerprint_occurrence \<Rightarrow> Fingerprint_occurrence_basis
             | Collector_fingerprint \<Rightarrow> Collector_fingerprint_basis
             | Evidence_digest_id \<Rightarrow> Evidence_digest_basis
             | _ \<Rightarrow> if recorded_origin (rowExtra r) = Some ''provider-id'' then Provider_id_basis else Unrecorded_basis))"

definition component_text :: "(string \<times> Json) list \<Rightarrow> string \<Rightarrow> string option" where
  "component_text extra field =
     (case text_value (map_of extra field) of None \<Rightarrow> None | Some t \<Rightarrow> if t = [] then None else Some t)"

definition declaredAliasClass :: "HumanAdoptedRowInput \<Rightarrow> AliasClass option" where
  "declaredAliasClass r =
     (case (providerIdentityFunction (rowSource r) (rowParser r) (rowAccount r), rowExtra r) of
        (Some f, Some extra) \<Rightarrow>
          (let parts = map (component_text extra) (componentFields f)
           in if None \<in> set parts then None
              else let a = \<lparr>aliasSourceId = rowSource r, aliasComponents = map the parts, aliasAccountId = rowAccountId r,
                     aliasRuleVersion = functionRuleVersion f\<rparr>
                   in if validAliasClass a then Some a else None)
      | _ \<Rightarrow> None)"

definition humanAdoptedRowIdentity :: "HumanAdoptedRowInput \<Rightarrow> IdentityRefusal + AliasClass" where
  "humanAdoptedRowIdentity r =
     (case admitIdentity \<lparr>originBasis = rowOriginBasis r,
             resolverDeclared = providerIdentityFunction (rowSource r) (rowParser r) (rowAccount r) \<noteq> None,
             writerKind = Human_writer, retireBeforeRecognise = False\<rparr> of
        Inl refusal \<Rightarrow> Inl refusal
      | Inr _ \<Rightarrow> (case declaredAliasClass r of None \<Rightarrow> Inl Identity_absent | Some a \<Rightarrow> Inr a))"

section \<open>What the registry and the admission promise\<close>

text \<open>Every entry is well formed and no parser has two, so looking one up does not depend on the order.\<close>

lemma registry_valid: "list_all validTransactionFamilyEntry TRANSACTION_FAMILY_REGISTRY"
  by code_simp

lemma registry_keys: "distinct (map (\<lambda>e. (entrySource e, entryParser e)) TRANSACTION_FAMILY_REGISTRY)"
  by code_simp

text \<open>The rows of a parser with an identity function are provider rows, and belong to the paired family.\<close>

lemma functions_in_registry:
  "list_all (\<lambda>f. case transactionFamilyEntry (functionSource f) (functionParser f) of
       None \<Rightarrow> False
     | Some e \<Rightarrow> externalIdBasis (entryIdentity e) = Provider_id \<and> Bank_movement \<in> set (map memberFamily (entryFamilies e)))
     PROVIDER_IDENTITY_FUNCTIONS"
  by code_simp

lemma find_declared:
  "providerIdentityFunction s p a = Some f \<Longrightarrow> f \<in> set PROVIDER_IDENTITY_FUNCTIONS \<and> functionSource f = s \<and> functionParser f = p"
  by (auto simp: providerIdentityFunction_def find_Some_iff in_set_conv_nth)

text \<open>A human writer is admitted exactly for a recorded provider id under a declared function.\<close>

lemma admit_human:
  "admitIdentity \<lparr>originBasis = b, resolverDeclared = d, writerKind = Human_writer, retireBeforeRecognise = False\<rparr> = Inr x \<longleftrightarrow>
     b = Provider_id_basis \<and> d \<and> x"
  by (cases b) (auto simp: admitIdentity_def)

lemma provider_basis:
  assumes "providerIdentityFunction (rowSource r) (rowParser r) (rowAccount r) = Some f"
  shows "rowOriginBasis r = Provider_id_basis \<longleftrightarrow>
    rowExternalId r \<noteq> None \<and> rowExternalId r \<noteq> Some [] \<and> recorded_origin (rowExtra r) = Some ''provider-id''"
proof -
  obtain e where e: "transactionFamilyEntry (rowSource r) (rowParser r) = Some e" "externalIdBasis (entryIdentity e) = Provider_id"
    using find_declared [OF assms] functions_in_registry by (auto simp: list_all_iff split: option.splits)
  show ?thesis unfolding rowOriginBasis_def e option.case by (simp add: e(2))
qed

lemma declared_parts:
  "declaredAliasClass r = Some a \<longleftrightarrow>
     (\<exists>f extra. providerIdentityFunction (rowSource r) (rowParser r) (rowAccount r) = Some f \<and> rowExtra r = Some extra \<and>
        map (component_text extra) (componentFields f) = map Some (aliasComponents a) \<and>
        aliasSourceId a = rowSource r \<and> aliasAccountId a = rowAccountId r \<and> aliasRuleVersion a = functionRuleVersion f \<and>
        validAliasClass a)"
proof -
  have "None \<notin> set ps \<Longrightarrow> map Some (map the ps) = ps" for ps :: "string option list" by (induction ps) auto
  then have parts: "None \<notin> set ps \<and> ts = map the ps \<longleftrightarrow> ps = map Some ts" for ps :: "string option list" and ts
    by (auto simp: comp_def)
  show ?thesis
    unfolding declaredAliasClass_def Let_def parts [symmetric]
    by (cases a) (auto split: option.splits)
qed

lemma human_parts:
  "humanAdoptedRowIdentity r = Inr a \<longleftrightarrow>
     rowOriginBasis r = Provider_id_basis \<and> providerIdentityFunction (rowSource r) (rowParser r) (rowAccount r) \<noteq> None \<and>
     declaredAliasClass r = Some a"
proof (cases "admitIdentity \<lparr>originBasis = rowOriginBasis r,
    resolverDeclared = providerIdentityFunction (rowSource r) (rowParser r) (rowAccount r) \<noteq> None,
    writerKind = Human_writer, retireBeforeRecognise = False\<rparr>")
  case (Inl e)
  then show ?thesis
    using admit_human [of "rowOriginBasis r" "providerIdentityFunction (rowSource r) (rowParser r) (rowAccount r) \<noteq> None" True]
    unfolding humanAdoptedRowIdentity_def by simp
next
  case (Inr x)
  then show ?thesis
    using admit_human [of "rowOriginBasis r" "providerIdentityFunction (rowSource r) (rowParser r) (rowAccount r) \<noteq> None" x]
    unfolding humanAdoptedRowIdentity_def by (cases "declaredAliasClass r") simp_all
qed

text \<open>
  Property C34: which rows a human-adopted writer may consume, and under which alias class. A row is admitted
  exactly when its id is present and recorded as issued by the provider, a provider identity function is
  declared for its parser and account, and every component the function names is a non-empty text of the row;
  the class is the source, those texts, the resolved account and the function's version, and is well formed. So
  the producer, the namespace and the text of the external id have no influence on the class.
\<close>

theorem row_admitted_exactly:
  "humanAdoptedRowIdentity r = Inr a \<longleftrightarrow>
     rowExternalId r \<noteq> None \<and> rowExternalId r \<noteq> Some [] \<and> recorded_origin (rowExtra r) = Some ''provider-id'' \<and>
     (\<exists>f extra. f \<in> set PROVIDER_IDENTITY_FUNCTIONS \<and> providerIdentityFunction (rowSource r) (rowParser r) (rowAccount r) = Some f \<and>
        rowExtra r = Some extra \<and> map (component_text extra) (componentFields f) = map Some (aliasComponents a) \<and>
        aliasSourceId a = rowSource r \<and> aliasAccountId a = rowAccountId r \<and> aliasRuleVersion a = functionRuleVersion f \<and>
        validAliasClass a)"
proof (cases "providerIdentityFunction (rowSource r) (rowParser r) (rowAccount r)")
  case None
  then show ?thesis unfolding human_parts by simp
next
  case (Some f)
  then show ?thesis unfolding human_parts provider_basis [OF Some] declared_parts using find_declared [OF Some] by auto
qed

end
