(* ===== verification/Own_Transfer.thy ===== *)
theory Own_Transfer
  imports Transaction_Families Card_Settlement
begin

text \<open>
  Own-transfer proposals (\<open>packages/domain/src/own-transfer-proposals.ts\<close>): the policy, the admission of a
  row, the check of a pair, and the engine that pairs debits and credits of the person's own accounts.
  The ownership read is an input of the code and an argument here; \<open>sha\<close> is the runtime's SHA-256.
\<close>

section \<open>Policy\<close>

definition OWN_TRANSFER_ENGINE_RELEASE :: string where
  "OWN_TRANSFER_ENGINE_RELEASE = ''own-transfer-proposals-v1''"

definition OWN_TRANSFER_ROWS_MAX :: nat where
  "OWN_TRANSFER_ROWS_MAX = 500"

definition OWN_TRANSFER_WINDOW_DAYS_MAX :: int where
  "OWN_TRANSFER_WINDOW_DAYS_MAX = 31"

text \<open>The amounts of a rule are decimal texts, by currency.\<close>

datatype OwnTransferDifferenceRule = Exact_rule | Fee_within "(string \<times> string) list"

record OwnTransferPolicy =
  transferPolicyVersion :: string
  minDaysAfterDebit :: int
  maxDaysAfterDebit :: int
  difference :: OwnTransferDifferenceRule

definition validTransferPolicyVersion :: "string \<Rightarrow> bool" where
  "validTransferPolicyVersion s \<longleftrightarrow> is_code 64 ''.-'' s \<and> (is_lower (hd s) \<or> is_digit (hd s))"

definition validCurrency :: "string \<Rightarrow> bool" where
  "validCurrency s \<longleftrightarrow> length s = 3 \<and> list_all (\<lambda>c. 65 \<le> (of_char c :: nat) \<and> (of_char c :: nat) \<le> 90) s"

definition positiveDecimal :: "string \<Rightarrow> ExactDecimal option" where
  "positiveDecimal t =
     (case decimalFromString t of
        Inl _ \<Rightarrow> None
      | Inr v \<Rightarrow> if 0 < compareDecimals v (integerDecimal 0) then Some v else None)"

fun validDifferenceRule :: "OwnTransferDifferenceRule \<Rightarrow> bool" where
  "validDifferenceRule Exact_rule \<longleftrightarrow> True"
| "validDifferenceRule (Fee_within xs) \<longleftrightarrow>
     length xs \<le> 16 \<and> list_all (\<lambda>(c, a). validCurrency c \<and> positiveDecimal a \<noteq> None) xs \<and>
     0 < length xs \<and> length (js_set (map fst xs)) = length xs"

definition validOwnTransferPolicy :: "OwnTransferPolicy \<Rightarrow> bool" where
  "validOwnTransferPolicy p \<longleftrightarrow>
     validTransferPolicyVersion (transferPolicyVersion p) \<and>
     - OWN_TRANSFER_WINDOW_DAYS_MAX \<le> minDaysAfterDebit p \<and> minDaysAfterDebit p \<le> OWN_TRANSFER_WINDOW_DAYS_MAX \<and>
     - OWN_TRANSFER_WINDOW_DAYS_MAX \<le> maxDaysAfterDebit p \<and> maxDaysAfterDebit p \<le> OWN_TRANSFER_WINDOW_DAYS_MAX \<and>
     minDaysAfterDebit p \<le> maxDaysAfterDebit p \<and> validDifferenceRule (difference p)"

section \<open>Rows\<close>

text \<open>Any state the source does not name is unresolved.\<close>

datatype AccountOwnership = Owned_self string | Owned_other | Owned_unresolved

record OwnTransferRowInput =
  observationId :: int
  parseRunId :: int
  rowKey :: ConsumptionKey
  parserName :: string
  extra :: "(string \<times> Json) list option"
  rowAmount :: string
  rowCurrency :: string
  postingDate :: "string option"

datatype OwnTransferRunRefusal = Policy_missing | Policy_unsupported | Input_bound_exceeded | Identity_epoch_invalid
  | Ownership_version_invalid

datatype OwnTransferRowRefusal = Row_invalid | Family_unsupported | Ownership_unresolved | Owner_not_self
  | Identity_refused IdentityRefusal | Amount_not_exact | Amount_zero | Currency_invalid | Posting_date_missing
  | Duplicate_unresolved | Same_fact_recaptured | Alias_conflict | Economic_claim_held

fun row_refusal_text :: "OwnTransferRowRefusal \<Rightarrow> string" where
  "row_refusal_text Row_invalid = ''row_invalid''"
| "row_refusal_text Family_unsupported = ''family_unsupported''"
| "row_refusal_text Ownership_unresolved = ''ownership_unresolved''"
| "row_refusal_text Owner_not_self = ''owner_not_self''"
| "row_refusal_text (Identity_refused Identity_absent) = ''identity_absent''"
| "row_refusal_text (Identity_refused Identity_fingerprint_only) = ''identity_fingerprint_only''"
| "row_refusal_text (Identity_refused Identity_digest_not_provider) = ''identity_digest_not_provider''"
| "row_refusal_text (Identity_refused Identity_origin_unrecorded) = ''identity_origin_unrecorded''"
| "row_refusal_text (Identity_refused Identity_resolver_missing) = ''identity_resolver_missing''"
| "row_refusal_text Amount_not_exact = ''amount_not_exact''"
| "row_refusal_text Amount_zero = ''amount_zero''"
| "row_refusal_text Currency_invalid = ''currency_invalid''"
| "row_refusal_text Posting_date_missing = ''posting_date_missing''"
| "row_refusal_text Duplicate_unresolved = ''duplicate_unresolved''"
| "row_refusal_text Same_fact_recaptured = ''same_fact_recaptured''"
| "row_refusal_text Alias_conflict = ''alias_conflict''"
| "row_refusal_text Economic_claim_held = ''economic_claim_held''"

record OwnTransferLeg =
  legObservation :: int
  legParseRun :: int
  legEvidence :: SourceFactRef
  legKey :: ConsumptionKey
  legAlias :: AliasClass
  legAccount :: string

text \<open>A row without a posting day is refused, and kept as a competitor.\<close>

record AdmittedRow =
  admittedRow :: OwnTransferRowInput
  admittedLeg :: OwnTransferLeg
  admittedAmount :: ExactDecimal
  admittedDay :: "int option"

definition transactionRowRef :: "int \<Rightarrow> int \<Rightarrow> SourceFactRef" where
  "transactionRowRef obs run = \<lparr>factKind = TransactionKind, factId = ''transaction:'' @ int_text obs,
     factRevision = ''parse_run:'' @ int_text run\<rparr>"

definition admitRow :: "OwnTransferRowInput \<Rightarrow> (string \<Rightarrow> string \<Rightarrow> AccountOwnership) \<Rightarrow> OwnTransferRowRefusal + AdmittedRow" where
  "admitRow r ownershipOf =
     (if \<not> isSafeIntFrom 1 (observationId r) \<or> \<not> isSafeIntFrom 1 (parseRunId r) \<or> \<not> validConsumptionKey (rowKey r) \<or>
         \<not> isText 256 (parserName r) then Inl Row_invalid
      else case transactionFamilyEntry (keySourceId (rowKey r)) (parserName r) of
        None \<Rightarrow> Inl Family_unsupported
      | Some entry \<Rightarrow>
          if \<not> list_ex (\<lambda>m. memberFamily m = Bank_movement) (entryFamilies entry) then Inl Family_unsupported
          else case ownershipOf (keySourceId (rowKey r)) (keySourceAccount (rowKey r)) of
            Owned_other \<Rightarrow> Inl Owner_not_self
          | Owned_unresolved \<Rightarrow> Inl Ownership_unresolved
          | Owned_self account \<Rightarrow>
              if \<not> isText 256 account then Inl Ownership_unresolved
              else case humanAdoptedRowIdentity \<lparr>rowSource = keySourceId (rowKey r), rowParser = parserName r,
                  rowAccount = keySourceAccount (rowKey r), rowExternalId = Some (keyExternalId (rowKey r)),
                  rowExtra = extra r, rowAccountId = account\<rparr> of
                Inl refusal \<Rightarrow> Inl (Identity_refused refusal)
              | Inr alias \<Rightarrow>
                  (case decimalFromString (rowAmount r) of
                     Inl _ \<Rightarrow> Inl Amount_not_exact
                   | Inr amount \<Rightarrow>
                       if isZeroDecimal amount then Inl Amount_zero
                       else if \<not> validCurrency (rowCurrency r) then Inl Currency_invalid
                       else Inr \<lparr>admittedRow = r,
                         admittedLeg = \<lparr>legObservation = observationId r, legParseRun = parseRunId r,
                           legEvidence = transactionRowRef (observationId r) (parseRunId r), legKey = rowKey r,
                           legAlias = alias, legAccount = account\<rparr>,
                         admittedAmount = amount,
                         admittedDay = map_option (daysBetween \<lparr>year = 1970, month = 1, day = 1\<rparr>)
                           (Option.bind (postingDate r) parseLocalDate)\<rparr>))"

section \<open>Pairs\<close>

datatype OwnTransferPairRefusal = Same_account | Currency_differs | Date_outside_window | Amount_outside_policy

datatype OwnTransferProposalCode = Both_accounts_self | Same_currency | Date_within_window | Amount_equal
  | Difference_within_policy | Candidate_not_unique

fun proposal_code_text :: "OwnTransferProposalCode \<Rightarrow> string" where
  "proposal_code_text Both_accounts_self = ''both_accounts_self''"
| "proposal_code_text Same_currency = ''same_currency''"
| "proposal_code_text Date_within_window = ''date_within_window''"
| "proposal_code_text Amount_equal = ''amount_equal''"
| "proposal_code_text Difference_within_policy = ''difference_within_policy''"
| "proposal_code_text Candidate_not_unique = ''candidate_not_unique''"

definition maxDifference :: "OwnTransferPolicy \<Rightarrow> string \<Rightarrow> ExactDecimal option" where
  "maxDifference p currency =
     (case difference p of
        Exact_rule \<Rightarrow> Some (integerDecimal 0)
      | Fee_within xs \<Rightarrow>
          (case List.find (\<lambda>(c, a). c = currency) xs of None \<Rightarrow> None | Some (c, a) \<Rightarrow> positiveDecimal a))"

definition outsideWindow :: "OwnTransferPolicy \<Rightarrow> AdmittedRow \<Rightarrow> AdmittedRow \<Rightarrow> bool" where
  "outsideWindow p debit credit \<longleftrightarrow>
     (case (admittedDay debit, admittedDay credit) of
        (Some d, Some c) \<Rightarrow> c - d < minDaysAfterDebit p \<or> maxDaysAfterDebit p < c - d
      | _ \<Rightarrow> False)"

definition pairCheck :: "AdmittedRow \<Rightarrow> AdmittedRow \<Rightarrow> OwnTransferPolicy \<Rightarrow> OwnTransferPairRefusal + OwnTransferProposalCode list" where
  "pairCheck debit credit p =
     (if legAccount (admittedLeg debit) = legAccount (admittedLeg credit) then Inl Same_account
      else if rowCurrency (admittedRow debit) \<noteq> rowCurrency (admittedRow credit) then Inl Currency_differs
      else if outsideWindow p debit credit then Inl Date_outside_window
      else
        let gap = subtractDecimals (negateDecimal (admittedAmount debit)) (admittedAmount credit);
            allowed = maxDifference p (rowCurrency (admittedRow debit));
            order = compareDecimals gap (integerDecimal 0)
        in if order < 0 \<or> (case allowed of None \<Rightarrow> True | Some most \<Rightarrow> 0 < compareDecimals gap most) then Inl Amount_outside_policy
           else Inr [Both_accounts_self, Same_currency, Date_within_window,
             if order = 0 then Amount_equal else Difference_within_policy])"

definition sameValues :: "AdmittedRow \<Rightarrow> AdmittedRow \<Rightarrow> bool" where
  "sameValues a b \<longleftrightarrow>
     consumptionKeyText (legKey (admittedLeg a)) = consumptionKeyText (legKey (admittedLeg b)) \<and>
     compareDecimals (admittedAmount a) (admittedAmount b) = 0 \<and>
     rowCurrency (admittedRow a) = rowCurrency (admittedRow b) \<and> admittedDay a = admittedDay b"

definition isDebit :: "AdmittedRow \<Rightarrow> bool" where
  "isDebit r \<longleftrightarrow> coefficient (admittedAmount r) < 0"

definition fits_pair :: "OwnTransferPolicy \<Rightarrow> AdmittedRow \<Rightarrow> AdmittedRow \<Rightarrow> bool" where
  "fits_pair p row other \<longleftrightarrow>
     isDebit row \<noteq> isDebit other \<and>
     (case (if isDebit row then pairCheck row other p else pairCheck other row p) of Inl _ \<Rightarrow> False | Inr _ \<Rightarrow> True)"

section \<open>The engine\<close>

record HeldCashClaims =
  heldKeys :: "string list"
  heldAliases :: "string list"

record OwnTransferProposalInput =
  transferRows :: "OwnTransferRowInput list"
  ownershipVersion :: string
  ownershipOf :: "string \<Rightarrow> string \<Rightarrow> AccountOwnership"
  transferPolicy :: "OwnTransferPolicy option"
  transferEpoch :: string
  heldClaims :: HeldCashClaims

datatype OwnTransferProposalStatus = Proposed | Needs_review

record OwnTransferManifest =
  manifestEngine :: string
  manifestPolicyVersion :: string
  manifestPolicyDigest :: string
  manifestEpoch :: string
  manifestAliasRules :: "string list"
  manifestRegistry :: string
  manifestOwnership :: string
  manifestArithmetic :: string
  manifestContract :: string

record OwnTransferProposal =
  proposalId :: string
  proposalDigest :: string
  proposalStatus :: OwnTransferProposalStatus
  proposalCodes :: "OwnTransferProposalCode list"
  proposalDebit :: OwnTransferLeg
  proposalCredit :: OwnTransferLeg
  proposalPolicy :: string
  proposalEngine :: string
  proposalEpoch :: string

record RowRefusal =
  refusedRow :: int
  rowCode :: OwnTransferRowRefusal

record PairRefusal =
  refusedDebit :: int
  refusedCredit :: int
  pairCode :: OwnTransferPairRefusal

record OwnTransferRun =
  runManifest :: OwnTransferManifest
  runProposals :: "OwnTransferProposal list"
  rowRefusals :: "RowRefusal list"
  pairRefusals :: "PairRefusal list"

definition ECONOMIC_CONTRACT_VERSION :: string where
  "ECONOMIC_CONTRACT_VERSION = ''economic-contract-v1''"

text \<open>Rows in the order of their observation; an observation given twice is no row.\<close>

definition byObservation :: "('a \<Rightarrow> int) \<Rightarrow> 'a \<Rightarrow> 'a \<Rightarrow> int" where
  "byObservation f a b = f a - f b"

definition rowOutcome ::
  "(string \<Rightarrow> string \<Rightarrow> AccountOwnership) \<Rightarrow> OwnTransferRowInput list \<Rightarrow> OwnTransferRowInput \<Rightarrow> OwnTransferRowRefusal + AdmittedRow"
where
  "rowOutcome owners rows r =
     (if 1 < length (filter (\<lambda>q. observationId q = observationId r) rows) then Inl Row_invalid else admitRow r owners)"

text \<open>
  What one row comes to before it is grouped: a refusal, a competitor without a day (refused too), or an
  admitted row. The id of a refusal is the row's when it is a safe integer.
\<close>

definition refusalOf :: "int \<Rightarrow> OwnTransferRowRefusal \<Rightarrow> RowRefusal" where
  "refusalOf obs code = \<lparr>refusedRow = (if \<bar>obs\<bar> \<le> MAX_SAFE_INTEGER then obs else 0), rowCode = code\<rparr>"

definition firstRefusal :: "OwnTransferRowInput \<times> (OwnTransferRowRefusal + AdmittedRow) \<Rightarrow> RowRefusal option" where
  "firstRefusal x =
     (case snd x of
        Inl code \<Rightarrow> Some (refusalOf (observationId (fst x)) code)
      | Inr a \<Rightarrow> if admittedDay a = None then Some (refusalOf (observationId (fst x)) Posting_date_missing) else None)"

definition datedRow :: "OwnTransferRowInput \<times> (OwnTransferRowRefusal + AdmittedRow) \<Rightarrow> AdmittedRow option" where
  "datedRow x = (case snd x of Inl _ \<Rightarrow> None | Inr a \<Rightarrow> if admittedDay a = None then None else Some a)"

definition datelessRow :: "OwnTransferRowInput \<times> (OwnTransferRowRefusal + AdmittedRow) \<Rightarrow> AdmittedRow option" where
  "datelessRow x = (case snd x of Inl _ \<Rightarrow> None | Inr a \<Rightarrow> if admittedDay a = None then Some a else None)"

definition aliasTextOf :: "AdmittedRow \<Rightarrow> string" where
  "aliasTextOf a = aliasClassText (legAlias (admittedLeg a))"

definition aliasGroups :: "AdmittedRow list \<Rightarrow> AdmittedRow list list" where
  "aliasGroups rows = map (\<lambda>t. filter (\<lambda>a. aliasTextOf a = t) rows) (js_set (map aliasTextOf rows))"

definition observationOf :: "AdmittedRow \<Rightarrow> int" where
  "observationOf a = legObservation (admittedLeg a)"

record GroupOutcome =
  groupRefusals :: "RowRefusal list"
  groupUsable :: "AdmittedRow list"
  groupUnresolved :: "AdmittedRow list list"

definition groupOutcome :: "HeldCashClaims \<Rightarrow> AdmittedRow list \<Rightarrow> GroupOutcome" where
  "groupOutcome held grp =
     (let refuse = (\<lambda>code a. \<lparr>refusedRow = observationOf a, rowCode = code\<rparr>); first = hd grp; rest = tl grp
      in if \<not> list_all (sameValues first) rest then
           \<lparr>groupRefusals = map (refuse Duplicate_unresolved) grp, groupUsable = [], groupUnresolved = [grp]\<rparr>
         else
           let again = map (refuse Same_fact_recaptured) rest
           in if aliasTextOf first \<in> set (heldAliases held) then
                \<lparr>groupRefusals = again @ [refuse Alias_conflict first], groupUsable = [], groupUnresolved = []\<rparr>
              else if consumptionKeyText (legKey (admittedLeg first)) \<in> set (heldKeys held) then
                \<lparr>groupRefusals = again @ [refuse Economic_claim_held first], groupUsable = [], groupUnresolved = []\<rparr>
              else \<lparr>groupRefusals = again, groupUsable = [first], groupUnresolved = []\<rparr>)"

record Candidate =
  candDebit :: AdmittedRow
  candCredit :: AdmittedRow
  candCodes :: "OwnTransferProposalCode list"

definition checkedPairs :: "OwnTransferPolicy \<Rightarrow> AdmittedRow list \<Rightarrow> (PairRefusal + Candidate) list" where
  "checkedPairs p usable =
     concat (map (\<lambda>d. map (\<lambda>c. case pairCheck d c p of
           Inl code \<Rightarrow> Inl \<lparr>refusedDebit = observationOf d, refusedCredit = observationOf c, pairCode = code\<rparr>
         | Inr codes \<Rightarrow> Inr \<lparr>candDebit = d, candCredit = c, candCodes = codes\<rparr>)
       (filter (\<lambda>c. \<not> isDebit c) usable)) (filter isDebit usable))"

definition left_of :: "'a + 'b \<Rightarrow> 'a option" where
  "left_of x = (case x of Inl a \<Rightarrow> Some a | Inr _ \<Rightarrow> None)"

definition right_of :: "'a + 'b \<Rightarrow> 'b option" where
  "right_of x = (case x of Inl _ \<Rightarrow> None | Inr b \<Rightarrow> Some b)"

text \<open>How often a row is taken: by candidates, and by groups of refused rows that fit it.\<close>

definition degree :: "Candidate list \<Rightarrow> OwnTransferPolicy \<Rightarrow> AdmittedRow list \<Rightarrow> AdmittedRow list list \<Rightarrow> int \<Rightarrow> nat" where
  "degree cands p usable competitors obs =
     length (filter (\<lambda>k. k = obs) (concat (map (\<lambda>c. [observationOf (candDebit c), observationOf (candCredit c)]) cands))) +
     length (filter (\<lambda>(r, grp). observationOf r = obs \<and> list_ex (fits_pair p r) grp)
       (concat (map (\<lambda>r. map (\<lambda>grp. (r, grp)) competitors) usable)))"

fun legJson :: "OwnTransferLeg \<Rightarrow> Json" where
  "legJson l = JObject [(''observationId'', JNumber (legObservation l)), (''parseRunId'', JNumber (legParseRun l)),
     (''key'', JText (consumptionKeyText (legKey l))), (''aliasClass'', JText (aliasClassText (legAlias l))),
     (''accountId'', JText (legAccount l))]"

definition status_text :: "OwnTransferProposalStatus \<Rightarrow> string" where
  "status_text s = (case s of Proposed \<Rightarrow> ''proposed'' | Needs_review \<Rightarrow> ''needs_review'')"

text \<open>The body of a proposal: everything but its digest.\<close>

definition proposalJson :: "OwnTransferProposal \<Rightarrow> Json" where
  "proposalJson b = JObject [(''proposalId'', JText (proposalId b)), (''status'', JText (status_text (proposalStatus b))),
     (''codes'', JArray (map (JText \<circ> proposal_code_text) (proposalCodes b))),
     (''debit'', legJson (proposalDebit b)), (''credit'', legJson (proposalCredit b)),
     (''policyVersion'', JText (proposalPolicy b)), (''engineRelease'', JText (proposalEngine b)),
     (''identityEpoch'', JText (proposalEpoch b))]"

definition proposalIdJson :: "OwnTransferPolicy \<Rightarrow> string \<Rightarrow> Candidate \<Rightarrow> Json" where
  "proposalIdJson p epoch c = JObject [(''engineRelease'', JText OWN_TRANSFER_ENGINE_RELEASE),
     (''policyVersion'', JText (transferPolicyVersion p)), (''identityEpoch'', JText epoch),
     (''debit'', JText (aliasTextOf (candDebit c))), (''credit'', JText (aliasTextOf (candCredit c)))]"

definition differenceJson :: "OwnTransferDifferenceRule \<Rightarrow> Json" where
  "differenceJson d = (case d of
     Exact_rule \<Rightarrow> JObject [(''rule'', JText ''exact'')]
   | Fee_within xs \<Rightarrow> JObject [(''rule'', JText ''fee-within''),
       (''maxByCurrency'', JArray (map (\<lambda>(c, a). JObject [(''currency'', JText c), (''amount'', JText a)]) xs))])"

definition policyJson :: "OwnTransferPolicy \<Rightarrow> Json" where
  "policyJson p = JObject [(''policyVersion'', JText (transferPolicyVersion p)), (''family'', JText ''bank-movement''),
     (''currencyRule'', JText ''same-currency''),
     (''window'', JObject [(''minDaysAfterDebit'', JNumber (minDaysAfterDebit p)), (''maxDaysAfterDebit'', JNumber (maxDaysAfterDebit p))]),
     (''difference'', differenceJson (difference p))]"

definition transferProposalOf :: "(string \<Rightarrow> string) \<Rightarrow> OwnTransferPolicy \<Rightarrow> string \<Rightarrow> (int \<Rightarrow> nat) \<Rightarrow> Candidate \<Rightarrow> OwnTransferProposal option" where
  "transferProposalOf sha p epoch deg c =
     (let ambiguous = (1 < deg (observationOf (candDebit c)) \<or> 1 < deg (observationOf (candCredit c)))
      in Option.bind (canonicalDigest sha (proposalIdJson p epoch c)) (\<lambda>idHash.
         let body = \<lparr>proposalId = ''otp_'' @ idHash, proposalDigest = [],
               proposalStatus = (if ambiguous then Needs_review else Proposed),
               proposalCodes = (if ambiguous then candCodes c @ [Candidate_not_unique] else candCodes c),
               proposalDebit = admittedLeg (candDebit c), proposalCredit = admittedLeg (candCredit c),
               proposalPolicy = transferPolicyVersion p, proposalEngine = OWN_TRANSFER_ENGINE_RELEASE, proposalEpoch = epoch\<rparr>
         in map_option (\<lambda>digest. body\<lparr>proposalDigest := digest\<rparr>) (canonicalDigest sha (proposalJson body))))"

definition compareRefusals :: "RowRefusal \<Rightarrow> RowRefusal \<Rightarrow> int" where
  "compareRefusals a b = or_else (refusedRow a - refusedRow b) (compareText (row_refusal_text (rowCode a)) (row_refusal_text (rowCode b)))"

text \<open>What the rows come to, before anything is digested.\<close>

record Paired =
  pairedRefusals :: "RowRefusal list"
  pairedUsable :: "AdmittedRow list"
  pairedCompetitors :: "AdmittedRow list list"
  pairedAdmitted :: "AdmittedRow list"

definition pairRows :: "OwnTransferProposalInput \<Rightarrow> Paired" where
  "pairRows x =
     (let rows = js_sort (byObservation observationId) (transferRows x);
          outcomes = map (\<lambda>r. (r, rowOutcome (ownershipOf x) rows r)) rows;
          admitted = List.map_filter datedRow outcomes;
          groups = map (groupOutcome (heldClaims x)) (aliasGroups admitted)
      in \<lparr>pairedRefusals = js_sort compareRefusals (List.map_filter firstRefusal outcomes @ concat (map groupRefusals groups)),
          pairedUsable = js_sort (byObservation observationOf) (concat (map groupUsable groups)),
          pairedCompetitors = concat (map groupUnresolved groups) @ map (\<lambda>a. [a]) (List.map_filter datelessRow outcomes),
          pairedAdmitted = admitted\<rparr>)"

definition proposeOwnTransfers :: "(string \<Rightarrow> string) \<Rightarrow> OwnTransferProposalInput \<Rightarrow> (OwnTransferRunRefusal + OwnTransferRun) option" where
  "proposeOwnTransfers sha x =
     (case transferPolicy x of
        None \<Rightarrow> Some (Inl Policy_missing)
      | Some p \<Rightarrow>
          if \<not> validOwnTransferPolicy p then Some (Inl Policy_unsupported)
          else if OWN_TRANSFER_ROWS_MAX < length (transferRows x) then Some (Inl Input_bound_exceeded)
          else if \<not> validIdentityEpoch (transferEpoch x) then Some (Inl Identity_epoch_invalid)
          else if \<not> isText 128 (ownershipVersion x) then Some (Inl Ownership_version_invalid)
          else
            let paired = pairRows x;
                pairs = checkedPairs p (pairedUsable paired);
                cands = List.map_filter right_of pairs;
                deg = degree cands p (pairedUsable paired) (pairedCompetitors paired)
            in Option.bind (canonicalDigest sha (policyJson p)) (\<lambda>policyDigest.
               map_option (\<lambda>proposals. Inr
                 \<lparr>runManifest = \<lparr>manifestEngine = OWN_TRANSFER_ENGINE_RELEASE, manifestPolicyVersion = transferPolicyVersion p,
                    manifestPolicyDigest = policyDigest, manifestEpoch = transferEpoch x,
                    manifestAliasRules = sorted_set (map (aliasRuleVersion \<circ> legAlias \<circ> admittedLeg) (pairedAdmitted paired)),
                    manifestRegistry = TRANSACTION_FAMILY_REGISTRY_VERSION, manifestOwnership = ownershipVersion x,
                    manifestArithmetic = ARITHMETIC_POLICY_VERSION, manifestContract = ECONOMIC_CONTRACT_VERSION\<rparr>,
                  runProposals = js_sort (\<lambda>a b. compareText (proposalId a) (proposalId b)) proposals,
                  rowRefusals = pairedRefusals paired,
                  pairRefusals = List.map_filter left_of pairs\<rparr>)
                 (all_some (map (transferProposalOf sha p (transferEpoch x) deg) cands))))"

section \<open>The stored shape\<close>

definition validTransferLeg :: "OwnTransferLeg \<Rightarrow> bool" where
  "validTransferLeg l \<longleftrightarrow>
     isSafeIntFrom 1 (legObservation l) \<and> isSafeIntFrom 1 (legParseRun l) \<and> validSourceFactRef (legEvidence l) \<and>
     legEvidence l = transactionRowRef (legObservation l) (legParseRun l) \<and>
     validConsumptionKey (legKey l) \<and> validAliasClass (legAlias l) \<and> isText 256 (legAccount l) \<and>
     aliasAccountId (legAlias l) = legAccount l \<and> aliasSourceId (legAlias l) = keySourceId (legKey l)"

definition validOwnTransferProposal :: "OwnTransferProposal \<Rightarrow> bool" where
  "validOwnTransferProposal b \<longleftrightarrow>
     take 4 (proposalId b) = ''otp_'' \<and> validDigest (drop 4 (proposalId b)) \<and> validDigest (proposalDigest b) \<and>
     length (proposalCodes b) \<le> 6 \<and> length (js_set (proposalCodes b)) = length (proposalCodes b) \<and>
     (Candidate_not_unique \<in> set (proposalCodes b)) = (proposalStatus b = Needs_review) \<and>
     validTransferLeg (proposalDebit b) \<and> validTransferLeg (proposalCredit b) \<and>
     legAccount (proposalDebit b) \<noteq> legAccount (proposalCredit b) \<and>
     validTransferPolicyVersion (proposalPolicy b) \<and> isText 64 (proposalEngine b) \<and> validIdentityEpoch (proposalEpoch b)"

end
