(* ===== verification/Own_Transfer_Contract.thy ===== *)
theory Own_Transfer_Contract
  imports Own_Transfer
begin

text \<open>
  What becomes of the rows of a run before they are paired: what an admitted row is, that the groups of one
  alias class partition the admitted rows, what a usable row satisfies, and that every row is refused or usable.
\<close>

section \<open>Admitted rows\<close>

lemma admitRow_facts:
  assumes "admitRow r owners = Inr a"
  shows "admittedRow a = r" and "observationOf a = observationId r" and "legKey (admittedLeg a) = rowKey r"
    and "owners (keySourceId (rowKey r)) (keySourceAccount (rowKey r)) = Owned_self (legAccount (admittedLeg a))"
    and "decimalFromString (rowAmount r) = Inr (admittedAmount a)" and "\<not> isZeroDecimal (admittedAmount a)"
    and "validCurrency (rowCurrency r)"
    and "admittedDay a = map_option (daysBetween \<lparr>year = 1970, month = 1, day = 1\<rparr>) (Option.bind (postingDate r) parseLocalDate)"
    and "validConsumptionKey (rowKey r)" and "isSafeIntFrom 1 (observationId r)" and "isSafeIntFrom 1 (parseRunId r)"
    and "legParseRun (admittedLeg a) = parseRunId r" and "legEvidence (admittedLeg a) = transactionRowRef (observationId r) (parseRunId r)"
    and "isText 256 (legAccount (admittedLeg a))"
    and "humanAdoptedRowIdentity \<lparr>rowSource = keySourceId (rowKey r), rowParser = parserName r,
       rowAccount = keySourceAccount (rowKey r), rowExternalId = Some (keyExternalId (rowKey r)),
       rowExtra = extra r, rowAccountId = legAccount (admittedLeg a)\<rparr> = Inr (legAlias (admittedLeg a))"
  using assms
  by (auto simp: admitRow_def observationOf_def split: if_splits option.splits AccountOwnership.splits sum.splits)

lemma text_of_int: "isSafeIntFrom 1 n \<Longrightarrow> length (int_text n) \<le> 16"
proof -
  assume n: "isSafeIntFrom 1 n"
  then have "nat n < 10 ^ 16" by (simp add: isSafeIntFrom_def MAX_SAFE_INTEGER_def nat_less_iff)
  then have "length (nat_text (nat n)) \<le> 16" by (rule nat_text_length_bound) simp
  with n show ?thesis by (simp add: isSafeIntFrom_def int_text_def)
qed

lemma admitted_leg_valid: "admitRow r owners = Inr a \<Longrightarrow> validTransferLeg (admittedLeg a)"
proof -
  assume a: "admitRow r owners = Inr a"
  note facts = admitRow_facts [OF a]
  have als: "validAliasClass (legAlias (admittedLeg a))" "aliasAccountId (legAlias (admittedLeg a)) = legAccount (admittedLeg a)"
    "aliasSourceId (legAlias (admittedLeg a)) = keySourceId (rowKey r)"
    using facts(15) unfolding human_parts declared_parts by auto
  have "validSourceFactRef (transactionRowRef (observationId r) (parseRunId r))"
    using text_of_int [OF facts(10)] text_of_int [OF facts(11)]
    by (simp add: validSourceFactRef_def transactionRowRef_def isText_def)
  with facts als show ?thesis by (simp add: validTransferLeg_def observationOf_def)
qed

section \<open>Rows and groups\<close>

text \<open>The outcomes of the rows, in the order of their observation.\<close>

definition sortedRows :: "OwnTransferProposalInput \<Rightarrow> OwnTransferRowInput list" where
  "sortedRows x = js_sort (byObservation observationId) (transferRows x)"

definition outcomesOf :: "OwnTransferProposalInput \<Rightarrow> (OwnTransferRowInput \<times> (OwnTransferRowRefusal + AdmittedRow)) list" where
  "outcomesOf x = map (\<lambda>r. (r, rowOutcome (ownershipOf x) (sortedRows x) r)) (sortedRows x)"

lemma pairRows_parts:
  "pairedAdmitted (pairRows x) = List.map_filter datedRow (outcomesOf x)"
  "pairedUsable (pairRows x) = js_sort (byObservation observationOf)
     (concat (map (groupUsable \<circ> groupOutcome (heldClaims x)) (aliasGroups (pairedAdmitted (pairRows x)))))"
  "pairedCompetitors (pairRows x) =
     concat (map (groupUnresolved \<circ> groupOutcome (heldClaims x)) (aliasGroups (pairedAdmitted (pairRows x)))) @
     map (\<lambda>a. [a]) (List.map_filter datelessRow (outcomesOf x))"
  "pairedRefusals (pairRows x) = js_sort compareRefusals (List.map_filter firstRefusal (outcomesOf x) @
     concat (map (groupRefusals \<circ> groupOutcome (heldClaims x)) (aliasGroups (pairedAdmitted (pairRows x)))))"
  by (simp_all add: pairRows_def Let_def outcomesOf_def sortedRows_def comp_def)

lemma set_sortedRows [simp]: "set (sortedRows x) = set (transferRows x)"
  by (simp add: sortedRows_def)

lemma unique_observation:
  assumes "length (filter (\<lambda>q. f q = f r) rows) \<le> 1" and "r \<in> set rows" and "s \<in> set rows" and "f s = f r"
  shows "s = r"
proof (rule ccontr)
  assume ne: "s \<noteq> r"
  have "{r, s} \<subseteq> set (filter (\<lambda>q. f q = f r) rows)" using assms(2-4) by auto
  then have "card {r, s} \<le> length (filter (\<lambda>q. f q = f r) rows)"
    by (metis List.finite_set card_length card_mono le_trans)
  with ne assms(1) show False by simp
qed

lemma outcome_admitted:
  "rowOutcome owners rows r = Inr a \<longleftrightarrow> length (filter (\<lambda>q. observationId q = observationId r) rows) \<le> 1 \<and> admitRow r owners = Inr a"
  by (auto simp: rowOutcome_def)

lemma row_kinds:
  "datedRow (r, y) = Some a \<longleftrightarrow> y = Inr a \<and> admittedDay a \<noteq> None"
  "datelessRow (r, y) = Some a \<longleftrightarrow> y = Inr a \<and> admittedDay a = None"
  by (cases y; auto simp: datedRow_def datelessRow_def)+

lemma admitted_iff:
  "a \<in> set (pairedAdmitted (pairRows x)) \<longleftrightarrow>
     (\<exists>r\<in>set (transferRows x). rowOutcome (ownershipOf x) (sortedRows x) r = Inr a \<and> admittedDay a \<noteq> None)"
  by (auto simp: pairRows_parts(1) set_map_filter outcomesOf_def row_kinds)

lemma dated_distinct:
  assumes "\<forall>r\<in>set rs. \<forall>a. f r = Inr a \<longrightarrow> length (filter (\<lambda>q. observationId q = observationId r) rows) \<le> 1 \<and> observationOf a = observationId r"
    and "\<exists>pre. rows = pre @ rs"
  shows "distinct (map observationOf (List.map_filter datedRow (map (\<lambda>r. (r, f r)) rs)))"
  using assms
proof (induction rs)
  case (Cons r rs)
  have IH: "distinct (map observationOf (List.map_filter datedRow (map (\<lambda>r. (r, f r)) rs)))"
    using Cons.prems by (intro Cons.IH) (auto intro: exI [of _ "_ @ [r]"])
  show ?case
  proof (cases "datedRow (r, f r)")
    case None
    with IH show ?thesis by (simp add: List.map_filter_simps)
  next
    case (Some a)
    then have a: "f r = Inr a" by (simp add: row_kinds)
    have "observationOf a \<noteq> observationOf b" if b: "b \<in> set (List.map_filter datedRow (map (\<lambda>r. (r, f r)) rs))" for b
    proof
      assume eq: "observationOf a = observationOf b"
      from b obtain s where s: "s \<in> set rs" "f s = Inr b" by (auto simp: set_map_filter row_kinds)
      from Cons.prems(2) obtain pre where rows: "rows = pre @ r # rs" by blast
      have "observationId s = observationId r" using Cons.prems(1) a s eq by auto
      then have "2 \<le> length (filter (\<lambda>q. observationId q = observationId r) rows)"
        using s(1) by (auto simp: rows filter_empty_conv Suc_le_eq dest: split_list)
      with Cons.prems(1) a show False by fastforce
    qed
    with IH Some show ?thesis by (auto simp: List.map_filter_simps)
  qed
qed (simp add: List.map_filter_simps)

lemma transfer_rows_distinct: "distinct (map observationOf (pairedAdmitted (pairRows x)))"
  unfolding pairRows_parts(1) outcomesOf_def
  by (rule dated_distinct [of _ _ "sortedRows x"]) (auto simp: outcome_admitted admitRow_facts(2))

lemma group_shape:
  assumes "grp \<in> set (aliasGroups rows)"
  shows "grp \<noteq> []" and "set grp \<subseteq> set rows" and "\<forall>a\<in>set grp. \<forall>b\<in>set grp. aliasTextOf a = aliasTextOf b"
  using assms by (auto simp: aliasGroups_def filter_empty_conv)

lemma mset_aliasGroups: "mset (concat (aliasGroups rows)) = mset rows"
proof -
  have "mset (concat (map (\<lambda>t. filter (\<lambda>a. f a = t) rows) ts)) = mset (filter (\<lambda>a. f a \<in> set ts) rows)"
    if "distinct ts" for ts and f :: "AdmittedRow \<Rightarrow> string"
    using that
  proof (induction ts)
    case (Cons t ts)
    have "filter (\<lambda>a. f a \<in> set (t # ts)) rows = filter (\<lambda>a. f a = t \<or> f a \<in> set ts) rows" by simp
    moreover have "mset (filter (\<lambda>a. f a = t \<or> f a \<in> set ts) rows) =
        mset (filter (\<lambda>a. f a = t) rows) + mset (filter (\<lambda>a. f a \<in> set ts) rows)"
      using Cons.prems by (induction rows) auto
    ultimately show ?case using Cons by simp
  qed simp
  from this [of "js_set (map aliasTextOf rows)" aliasTextOf] show ?thesis by (simp add: aliasGroups_def)
qed

text \<open>One group: its rows are refused, or all but the first are and that one is usable.\<close>

lemma groupOutcome_cases:
  assumes "grp \<noteq> []"
  obtains "groupUsable (groupOutcome held grp) = []" "map refusedRow (groupRefusals (groupOutcome held grp)) = map observationOf grp"
      "groupUnresolved (groupOutcome held grp) = [grp]"
    | "groupUsable (groupOutcome held grp) = []" "mset (map refusedRow (groupRefusals (groupOutcome held grp))) = mset (map observationOf grp)"
      "groupUnresolved (groupOutcome held grp) = []"
    | first rest where "grp = first # rest" "groupUsable (groupOutcome held grp) = [first]"
      "map refusedRow (groupRefusals (groupOutcome held grp)) = map observationOf rest"
      "groupUnresolved (groupOutcome held grp) = []" "aliasTextOf first \<notin> set (heldAliases held)"
      "consumptionKeyText (legKey (admittedLeg first)) \<notin> set (heldKeys held)" "list_all (sameValues first) rest"
proof -
  obtain first rest where grp: "grp = first # rest" using assms by (cases grp) auto
  consider "\<not> list_all (sameValues first) rest" | "list_all (sameValues first) rest" "aliasTextOf first \<in> set (heldAliases held)"
    | "list_all (sameValues first) rest" "aliasTextOf first \<notin> set (heldAliases held)"
      "consumptionKeyText (legKey (admittedLeg first)) \<in> set (heldKeys held)"
    | "list_all (sameValues first) rest" "aliasTextOf first \<notin> set (heldAliases held)"
      "consumptionKeyText (legKey (admittedLeg first)) \<notin> set (heldKeys held)" by blast
  then show thesis
  proof cases
    case 1
    with grp that(1) show thesis by (simp add: groupOutcome_def Let_def comp_def)
  next
    case 2
    with grp that(2) show thesis by (simp add: groupOutcome_def Let_def comp_def)
  next
    case 3
    with grp that(2) show thesis by (simp add: groupOutcome_def Let_def comp_def)
  next
    case 4
    with grp that(3) [of first rest] show thesis by (simp add: groupOutcome_def Let_def comp_def)
  qed
qed

lemma group_accounted:
  assumes "grp \<noteq> []"
  shows "mset (map refusedRow (groupRefusals (groupOutcome held grp))) + mset (map observationOf (groupUsable (groupOutcome held grp))) =
    mset (map observationOf grp)"
  using assms by (cases rule: groupOutcome_cases [of grp held]) simp_all

lemma group_usable_sub: "grp \<noteq> [] \<Longrightarrow> mset (groupUsable (groupOutcome held grp)) \<subseteq># mset grp"
  by (cases rule: groupOutcome_cases [of grp held]) simp_all

lemma mset_concat_sub:
  "(\<And>g. g \<in> set gs \<Longrightarrow> mset (h g) \<subseteq># mset g) \<Longrightarrow> mset (concat (map h gs)) \<subseteq># mset (concat gs)"
  by (induction gs) (auto intro: subset_mset.add_mono)

lemma distinct_sub: "mset xs \<subseteq># mset ys \<Longrightarrow> distinct (map f ys) \<Longrightarrow> distinct (map f xs)"
proof -
  assume "mset xs \<subseteq># mset ys" and d: "distinct (map f ys)"
  then have sub: "mset (map f xs) \<subseteq># mset (map f ys)" by (simp add: image_mset_subseteq_mono)
  then have "count (mset (map f xs)) a \<le> 1" for a
    using d mset_subset_eq_count [OF sub, of a] by (simp only: distinct_count_atmost_1) (auto split: if_splits)
  moreover have "a \<in> set (map f xs) \<Longrightarrow> 0 < count (mset (map f xs)) a" for a by (simp only: count_greater_zero_iff set_mset_mset)
  ultimately show ?thesis unfolding distinct_count_atmost_1
    by (metis count_mset_0_iff le_antisym less_one not_le_imp_less)
qed

lemma usable_sub: "mset (pairedUsable (pairRows x)) \<subseteq># mset (pairedAdmitted (pairRows x))"
proof -
  have "mset (pairedUsable (pairRows x)) \<subseteq># mset (concat (aliasGroups (pairedAdmitted (pairRows x))))"
    unfolding pairRows_parts(2) mset_js_sort
    by (rule mset_concat_sub) (simp add: group_usable_sub group_shape(1))
  then show ?thesis by (simp only: mset_aliasGroups)
qed

lemma usable_distinct: "distinct (map observationOf (pairedUsable (pairRows x)))"
  using usable_sub transfer_rows_distinct by (rule distinct_sub)

lemma usable_facts:
  assumes "u \<in> set (pairedUsable (pairRows x))"
  obtains r day where "r \<in> set (transferRows x)" "admitRow r (ownershipOf x) = Inr u" "admittedDay u = Some day"
    "aliasTextOf u \<notin> set (heldAliases (heldClaims x))" "consumptionKeyText (legKey (admittedLeg u)) \<notin> set (heldKeys (heldClaims x))"
proof -
  obtain grp where grp: "grp \<in> set (aliasGroups (pairedAdmitted (pairRows x)))"
    "u \<in> set (groupUsable (groupOutcome (heldClaims x) grp))"
    using assms by (auto simp: pairRows_parts(2))
  from group_shape(1) [OF grp(1)] have held: "aliasTextOf u \<notin> set (heldAliases (heldClaims x))"
    "consumptionKeyText (legKey (admittedLeg u)) \<notin> set (heldKeys (heldClaims x))"
    using grp(2) by (cases rule: groupOutcome_cases [of grp "heldClaims x"]; simp)+
  have "u \<in># mset (pairedAdmitted (pairRows x))" using usable_sub assms by (meson in_multiset_in_set mset_subset_eqD)
  then obtain r where r: "r \<in> set (transferRows x)" "rowOutcome (ownershipOf x) (sortedRows x) r = Inr u" "admittedDay u \<noteq> None"
    by (auto simp: admitted_iff)
  with that [of r "the (admittedDay u)"] held outcome_admitted [of "ownershipOf x" "sortedRows x" r u] show thesis by auto
qed

section \<open>Every row is accounted for\<close>

text \<open>The id a refusal names.\<close>

definition reportedId :: "OwnTransferRowInput \<Rightarrow> int" where
  "reportedId r = (if \<bar>observationId r\<bar> \<le> MAX_SAFE_INTEGER then observationId r else 0)"

lemma first_refusal_or_admitted:
  "(case firstRefusal (r, rowOutcome owners rows r) of Some q \<Rightarrow> refusedRow q = reportedId r \<and> datedRow (r, rowOutcome owners rows r) = None
     | None \<Rightarrow> (\<exists>a. datedRow (r, rowOutcome owners rows r) = Some a \<and> observationOf a = reportedId r))"
proof (cases "rowOutcome owners rows r")
  case (Inl code)
  then show ?thesis by (simp add: firstRefusal_def datedRow_def refusalOf_def reportedId_def)
next
  case (Inr a)
  then have a: "admitRow r owners = Inr a" by (simp add: outcome_admitted)
  with admitRow_facts(2,10) [OF a] have "observationOf a = reportedId r" by (simp add: reportedId_def isSafeIntFrom_def)
  with Inr show ?thesis by (simp add: firstRefusal_def datedRow_def refusalOf_def reportedId_def)
qed

lemma first_accounted:
  "mset (map refusedRow (List.map_filter firstRefusal (map (\<lambda>r. (r, rowOutcome owners rows r)) rs))) +
   mset (map observationOf (List.map_filter datedRow (map (\<lambda>r. (r, rowOutcome owners rows r)) rs))) = mset (map reportedId rs)"
proof (induction rs)
  case (Cons r rs)
  then show ?case using first_refusal_or_admitted [of r owners rows]
    by (auto simp: List.map_filter_simps split: option.splits)
qed (simp add: List.map_filter_simps)

lemma rows_accounted_paired:
  "mset (map refusedRow (pairedRefusals (pairRows x))) + mset (map observationOf (pairedUsable (pairRows x))) =
   mset (map reportedId (transferRows x))"
proof -
  let ?groups = "aliasGroups (pairedAdmitted (pairRows x))"
  have "mset (map refusedRow (concat (map (groupRefusals \<circ> groupOutcome (heldClaims x)) gs))) +
      mset (map observationOf (concat (map (groupUsable \<circ> groupOutcome (heldClaims x)) gs))) = mset (map observationOf (concat gs))"
    if "\<forall>g\<in>set gs. g \<noteq> []" for gs
    using that
  proof (induction gs)
    case (Cons g gs)
    with group_accounted [of g "heldClaims x"] show ?case by (simp add: ac_simps)
  qed simp
  moreover have "mset (map observationOf (concat ?groups)) = mset (map observationOf (pairedAdmitted (pairRows x)))"
    by (simp only: mset_map mset_aliasGroups)
  ultimately have groups:
    "mset (map refusedRow (concat (map (groupRefusals \<circ> groupOutcome (heldClaims x)) ?groups))) +
     mset (map observationOf (concat (map (groupUsable \<circ> groupOutcome (heldClaims x)) ?groups))) =
     mset (map observationOf (pairedAdmitted (pairRows x)))"
    using group_shape(1) by metis
  have rows: "mset (sortedRows x) = mset (transferRows x)" by (simp add: sortedRows_def)
  show ?thesis
    using groups first_accounted [of "ownershipOf x" "sortedRows x" "sortedRows x", folded outcomesOf_def pairRows_parts(1)]
    by (simp add: pairRows_parts(2,4) rows ac_simps)
qed

end
