(* ===== verification/Own_Transfer_Example.thy ===== *)
theory Own_Transfer_Example
  imports Own_Transfer
begin

text \<open>
  A concrete run of the own-transfer engine: one withdrawal at one bank and one deposit at another, both of the
  person's own accounts and on one day, evaluated by the simplifier.
\<close>

definition ex_sha :: "string \<Rightarrow> string" where
  "ex_sha t = replicate 64 (CHR ''0'')"

definition ex_bank_row :: "string \<Rightarrow> string \<Rightarrow> string \<Rightarrow> int \<Rightarrow> string \<Rightarrow> OwnTransferRowInput" where
  "ex_bank_row source parser field n amount = \<lparr>observationId = n, parseRunId = 1,
     rowKey = \<lparr>keySourceId = source, keyProducerId = ''c'', keyNamespace = None, keySourceAccount = ''1'', keyExternalId = ''x''\<rparr>,
     parserName = parser,
     extra = Some [(field, JText ''x''), (''_kogane'', JObject [(''identityOrigin'', JText ''provider-id'')])],
     rowAmount = amount, rowCurrency = ''JPY'', postingDate = Some ''2024-01-10''\<rparr>"

definition ex_transfer_policy :: OwnTransferPolicy where
  "ex_transfer_policy = \<lparr>transferPolicyVersion = ''p1'', minDaysAfterDebit = 0, maxDaysAfterDebit = 3, difference = Exact_rule\<rparr>"

definition ex_transfer_debit :: OwnTransferRowInput where
  "ex_transfer_debit = ex_bank_row ''smbc-bank'' ''smbc-direct-transactions'' ''id'' 1 ''-5''"

definition ex_transfer_credit :: OwnTransferRowInput where
  "ex_transfer_credit = ex_bank_row ''sbi-shinsei-bank'' ''sbi-shinsei-top-balances-and-activity'' ''txnReferenceNo'' 2 ''5''"

definition ex_transfer :: OwnTransferProposalInput where
  "ex_transfer = \<lparr>transferRows = [ex_transfer_credit, ex_transfer_debit], ownershipVersion = ''v1'', ownershipOf = (\<lambda>source account. Owned_self source),
     transferPolicy = Some ex_transfer_policy, transferEpoch = ''e1'', heldClaims = \<lparr>heldKeys = [], heldAliases = []\<rparr>\<rparr>"

text \<open>An admitted row of the example.\<close>

definition ex_transfer_admitted :: "OwnTransferRowInput \<Rightarrow> string \<Rightarrow> int \<Rightarrow> AdmittedRow" where
  "ex_transfer_admitted r rule n = \<lparr>admittedRow = r,
     admittedLeg = \<lparr>legObservation = observationId r, legParseRun = parseRunId r,
       legEvidence = transactionRowRef (observationId r) (parseRunId r), legKey = rowKey r,
       legAlias = \<lparr>aliasSourceId = keySourceId (rowKey r), aliasComponents = [''x''], aliasAccountId = keySourceId (rowKey r),
         aliasRuleVersion = rule\<rparr>, legAccount = keySourceId (rowKey r)\<rparr>,
     admittedAmount = integerDecimal n, admittedDay = Some 19732\<rparr>"

definition ex_transfer_sides :: "AdmittedRow list" where
  "ex_transfer_sides = [ex_transfer_admitted ex_transfer_debit ''smbc-meisai-id-v1'' (- 5), ex_transfer_admitted ex_transfer_credit ''sbi-shinsei-txn-reference-no-v1'' 5]"

lemma ex_transfer_paired: "pairRows ex_transfer = \<lparr>pairedRefusals = [], pairedUsable = ex_transfer_sides, pairedCompetitors = [], pairedAdmitted = ex_transfer_sides\<rparr>"
  by code_simp

lemma ex_transfer_candidates: "List.map_filter right_of (checkedPairs ex_transfer_policy ex_transfer_sides) =
    [\<lparr>candDebit = hd ex_transfer_sides, candCredit = ex_transfer_sides ! 1, candCodes = [Both_accounts_self, Same_currency, Date_within_window, Amount_equal]\<rparr>]"
  by code_simp

lemma ex_transfer_observations: "map observationOf ex_transfer_sides = [1, 2]" by code_simp

lemma ex_transfer_valid: "validOwnTransferPolicy ex_transfer_policy" "validIdentityEpoch ''e1''" "isText 128 ''v1''"
  by code_simp+

end
