(* ===== verification/Own_Transfer_Proposals.thy ===== *)
theory Own_Transfer_Proposals
  imports Own_Transfer_Contract Own_Transfer_Example
begin

text \<open>
  What the own-transfer engine promises of its proposals: what each states holds of two rows of the input, one
  is made without review exactly when its rows fit nothing else, the order of the rows does not matter, every
  row and pair is decided once, and a run always ends, with proposals that pass the check of the stored shape.
\<close>

section \<open>Candidates and proposals\<close>

definition candidatesOf :: "OwnTransferProposalInput \<Rightarrow> OwnTransferPolicy \<Rightarrow> Candidate list" where
  "candidatesOf x p = List.map_filter right_of (checkedPairs p (pairedUsable (pairRows x)))"

definition degreeOf :: "OwnTransferProposalInput \<Rightarrow> OwnTransferPolicy \<Rightarrow> int \<Rightarrow> nat" where
  "degreeOf x p = degree (candidatesOf x p) p (pairedUsable (pairRows x)) (pairedCompetitors (pairRows x))"

lemma all_some_iff: "all_some xs = Some ys \<longleftrightarrow> xs = map Some ys"
  by (induction xs arbitrary: ys rule: all_some.induct) auto

lemma run_parts:
  assumes "proposeOwnTransfers sha x = Some (Inr run)"
  obtains p props where "transferPolicy x = Some p" "validOwnTransferPolicy p" "validIdentityEpoch (transferEpoch x)"
    "map (transferProposalOf sha p (transferEpoch x) (degreeOf x p)) (candidatesOf x p) = map Some props"
    "runProposals run = js_sort (\<lambda>a b. compareText (proposalId a) (proposalId b)) props"
    "rowRefusals run = pairedRefusals (pairRows x)"
    "pairRefusals run = List.map_filter left_of (checkedPairs p (pairedUsable (pairRows x)))"
proof -
  from assms obtain p where p: "transferPolicy x = Some p" by (auto simp: proposeOwnTransfers_def split: option.splits)
  from assms obtain props where "all_some (map (transferProposalOf sha p (transferEpoch x) (degreeOf x p)) (candidatesOf x p)) = Some props"
    "runProposals run = js_sort (\<lambda>a b. compareText (proposalId a) (proposalId b)) props"
    "rowRefusals run = pairedRefusals (pairRows x)"
    "pairRefusals run = List.map_filter left_of (checkedPairs p (pairedUsable (pairRows x)))"
    "validOwnTransferPolicy p" "validIdentityEpoch (transferEpoch x)"
    unfolding proposeOwnTransfers_def p Let_def degreeOf_def candidatesOf_def
    by (auto simp: bind_eq_Some_conv split: if_splits)
  with that p show thesis unfolding all_some_iff by blast
qed

lemma right_case: "right_of (case y of Inl a \<Rightarrow> Inl (f a) | Inr b \<Rightarrow> Inr (g b)) = Some k \<longleftrightarrow> (\<exists>b. y = Inr b \<and> k = g b)"
  by (cases y) (auto simp: right_of_def)

lemma candidate_iff:
  "c \<in> set (candidatesOf x p) \<longleftrightarrow>
     candDebit c \<in> set (pairedUsable (pairRows x)) \<and> isDebit (candDebit c) \<and>
     candCredit c \<in> set (pairedUsable (pairRows x)) \<and> \<not> isDebit (candCredit c) \<and>
     pairCheck (candDebit c) (candCredit c) p = Inr (candCodes c)"
  unfolding candidatesOf_def checkedPairs_def set_map_filter
  by (cases c) (auto simp: right_case)

lemma pairCheck_meaning:
  "pairCheck d c p = Inr codes \<longleftrightarrow>
     legAccount (admittedLeg d) \<noteq> legAccount (admittedLeg c) \<and> rowCurrency (admittedRow d) = rowCurrency (admittedRow c) \<and>
     \<not> outsideWindow p d c \<and>
     0 \<le> - dec_value (admittedAmount d) - dec_value (admittedAmount c) \<and>
     (\<exists>most. maxDifference p (rowCurrency (admittedRow d)) = Some most \<and>
        - dec_value (admittedAmount d) - dec_value (admittedAmount c) \<le> dec_value most) \<and>
     codes = [Both_accounts_self, Same_currency, Date_within_window,
       if - dec_value (admittedAmount d) = dec_value (admittedAmount c) then Amount_equal else Difference_within_policy]"
  by (auto simp: pairCheck_def Let_def value_simps not_less split: option.splits if_splits)

lemma dec_sign: "coefficient v < 0 \<longleftrightarrow> dec_value v < 0" "isZeroDecimal v \<longleftrightarrow> dec_value v = 0"
  by (simp_all add: dec_value_def isZeroDecimal_def divide_less_0_iff)


section \<open>What a proposal states\<close>

lemma transferProposalOf_facts:
  assumes "transferProposalOf sha p epoch deg c = Some b"
  shows "proposalDebit b = admittedLeg (candDebit c)" and "proposalCredit b = admittedLeg (candCredit c)"
    and "proposalStatus b = Proposed \<longleftrightarrow> deg (observationOf (candDebit c)) \<le> 1 \<and> deg (observationOf (candCredit c)) \<le> 1"
    and "proposalCodes b = candCodes c @ (if proposalStatus b = Proposed then [] else [Candidate_not_unique])"
    and "proposalPolicy b = transferPolicyVersion p" and "proposalEngine b = OWN_TRANSFER_ENGINE_RELEASE"
    and "proposalEpoch b = epoch"
    and "\<exists>t u. proposalId b = ''otp_'' @ sha t \<and> proposalDigest b = sha u"
proof -
  define amb where "amb \<longleftrightarrow> 1 < deg (observationOf (candDebit c)) \<or> 1 < deg (observationOf (candCredit c))"
  obtain t u where b: "b = \<lparr>proposalId = ''otp_'' @ sha t, proposalDigest = sha u,
      proposalStatus = (if amb then Needs_review else Proposed),
      proposalCodes = (if amb then candCodes c @ [Candidate_not_unique] else candCodes c),
      proposalDebit = admittedLeg (candDebit c), proposalCredit = admittedLeg (candCredit c),
      proposalPolicy = transferPolicyVersion p, proposalEngine = OWN_TRANSFER_ENGINE_RELEASE, proposalEpoch = epoch\<rparr>"
    using assms unfolding transferProposalOf_def Let_def canonicalDigest_def amb_def [symmetric]
    by (auto simp: bind_eq_Some_conv)
  show "proposalDebit b = admittedLeg (candDebit c)" "proposalCredit b = admittedLeg (candCredit c)"
    "proposalPolicy b = transferPolicyVersion p" "proposalEngine b = OWN_TRANSFER_ENGINE_RELEASE" "proposalEpoch b = epoch"
    "proposalCodes b = candCodes c @ (if proposalStatus b = Proposed then [] else [Candidate_not_unique])"
    "\<exists>t u. proposalId b = ''otp_'' @ sha t \<and> proposalDigest b = sha u"
    by (auto simp: b)
  show "proposalStatus b = Proposed \<longleftrightarrow> deg (observationOf (candDebit c)) \<le> 1 \<and> deg (observationOf (candCredit c)) \<le> 1"
    by (auto simp: b amb_def not_less)
qed

lemma proposal_candidate:
  assumes "proposeOwnTransfers sha x = Some (Inr run)" and "b \<in> set (runProposals run)"
  obtains p c where "transferPolicy x = Some p" "validOwnTransferPolicy p" "validIdentityEpoch (transferEpoch x)"
    "c \<in> set (candidatesOf x p)" "transferProposalOf sha p (transferEpoch x) (degreeOf x p) c = Some b"
proof -
  from assms(1) obtain p props where run: "transferPolicy x = Some p" "validOwnTransferPolicy p" "validIdentityEpoch (transferEpoch x)"
    "map (transferProposalOf sha p (transferEpoch x) (degreeOf x p)) (candidatesOf x p) = map Some props"
    "runProposals run = js_sort (\<lambda>a b. compareText (proposalId a) (proposalId b)) props" by (rule run_parts)
  with assms(2) have "Some b \<in> set (map Some props)" by simp
  then have "Some b \<in> set (map (transferProposalOf sha p (transferEpoch x) (degreeOf x p)) (candidatesOf x p))"
    by (simp only: run(4))
  with that run(1-3) show thesis by auto
qed

text \<open>
  Property C17: what a proposal states holds. Its debit and its credit are two rows of the input that the
  identity rules admit, under accounts the ownership read calls the person's own and that differ; the debit is
  negative and the credit positive, both in one currency; both have a posting day, the credit's within the
  window of the policy; the debit's magnitude exceeds the credit by no more than the policy allows for the
  currency, and the proposal says whether the amounts are equal; neither row is held by another event.
\<close>

theorem proposal_states_facts:
  assumes "proposeOwnTransfers sha x = Some (Inr run)" and "b \<in> set (runProposals run)"
  shows "\<exists>p d c ad ac td tc most. transferPolicy x = Some p \<and> d \<in> set (transferRows x) \<and> c \<in> set (transferRows x) \<and>
    admitRow d (ownershipOf x) = Inr ad \<and> admitRow c (ownershipOf x) = Inr ac \<and>
    proposalDebit b = admittedLeg ad \<and> proposalCredit b = admittedLeg ac \<and>
    ownershipOf x (keySourceId (rowKey d)) (keySourceAccount (rowKey d)) = Owned_self (legAccount (proposalDebit b)) \<and>
    ownershipOf x (keySourceId (rowKey c)) (keySourceAccount (rowKey c)) = Owned_self (legAccount (proposalCredit b)) \<and>
    legAccount (proposalDebit b) \<noteq> legAccount (proposalCredit b) \<and> rowCurrency d = rowCurrency c \<and>
    admittedDay ad = Some td \<and> admittedDay ac = Some tc \<and> minDaysAfterDebit p \<le> tc - td \<and> tc - td \<le> maxDaysAfterDebit p \<and>
    dec_value (admittedAmount ad) < 0 \<and> 0 < dec_value (admittedAmount ac) \<and>
    maxDifference p (rowCurrency d) = Some most \<and> 0 \<le> - dec_value (admittedAmount ad) - dec_value (admittedAmount ac) \<and>
    - dec_value (admittedAmount ad) - dec_value (admittedAmount ac) \<le> dec_value most \<and>
    (Amount_equal \<in> set (proposalCodes b)) = (- dec_value (admittedAmount ad) = dec_value (admittedAmount ac)) \<and>
    aliasClassText (legAlias (proposalDebit b)) \<notin> set (heldAliases (heldClaims x)) \<and>
    aliasClassText (legAlias (proposalCredit b)) \<notin> set (heldAliases (heldClaims x)) \<and>
    consumptionKeyText (legKey (proposalDebit b)) \<notin> set (heldKeys (heldClaims x)) \<and>
    consumptionKeyText (legKey (proposalCredit b)) \<notin> set (heldKeys (heldClaims x))"
proof -
  from assms obtain p c where p: "transferPolicy x = Some p" and c: "c \<in> set (candidatesOf x p)"
    "transferProposalOf sha p (transferEpoch x) (degreeOf x p) c = Some b" by (rule proposal_candidate)
  note facts = transferProposalOf_facts(1,2,4) [OF c(2)]
  from c(1) have cand: "candDebit c \<in> set (pairedUsable (pairRows x))" "candCredit c \<in> set (pairedUsable (pairRows x))"
    and sign: "isDebit (candDebit c)" "\<not> isDebit (candCredit c)"
    and pair: "pairCheck (candDebit c) (candCredit c) p = Inr (candCodes c)" unfolding candidate_iff by blast+
  from cand(1) obtain d td where d: "d \<in> set (transferRows x)" "admitRow d (ownershipOf x) = Inr (candDebit c)"
    "admittedDay (candDebit c) = Some td" "aliasTextOf (candDebit c) \<notin> set (heldAliases (heldClaims x))"
    "consumptionKeyText (legKey (admittedLeg (candDebit c))) \<notin> set (heldKeys (heldClaims x))" by (rule usable_facts)
  from cand(2) obtain k tc where k: "k \<in> set (transferRows x)" "admitRow k (ownershipOf x) = Inr (candCredit c)"
    "admittedDay (candCredit c) = Some tc" "aliasTextOf (candCredit c) \<notin> set (heldAliases (heldClaims x))"
    "consumptionKeyText (legKey (admittedLeg (candCredit c))) \<notin> set (heldKeys (heldClaims x))" by (rule usable_facts)
  have signs: "dec_value (admittedAmount (candDebit c)) < 0" "0 < dec_value (admittedAmount (candCredit c))"
    using sign admitRow_facts(6) [OF k(2)] by (auto simp: isDebit_def dec_sign)
  from pair obtain most where m: "maxDifference p (rowCurrency d) = Some most"
    "- dec_value (admittedAmount (candDebit c)) - dec_value (admittedAmount (candCredit c)) \<le> dec_value most"
    by (auto simp: pairCheck_meaning admitRow_facts(1) [OF d(2)])
  show ?thesis
    using p d k m signs pair facts admitRow_facts(1,4) [OF d(2)] admitRow_facts(1,4) [OF k(2)]
    by (intro exI [of _ p] exI [of _ d] exI [of _ k] exI [of _ "candDebit c"] exI [of _ "candCredit c"] exI [of _ td]
          exI [of _ tc] exI [of _ most])
      (auto simp: pairCheck_meaning outsideWindow_def aliasTextOf_def not_less split: if_splits)
qed


section \<open>Ambiguity\<close>

definition touches :: "int \<Rightarrow> OwnTransferProposal \<Rightarrow> bool" where
  "touches i b \<longleftrightarrow> legObservation (proposalDebit b) = i \<or> legObservation (proposalCredit b) = i"

text \<open>A usable row is contested when it also fits a row that was refused as a possible duplicate or for its date.\<close>

definition contested :: "OwnTransferProposalInput \<Rightarrow> OwnTransferPolicy \<Rightarrow> int \<Rightarrow> bool" where
  "contested x p i \<longleftrightarrow> (\<exists>u\<in>set (pairedUsable (pairRows x)). \<exists>grp\<in>set (pairedCompetitors (pairRows x)). \<exists>y\<in>set grp.
     observationOf u = i \<and> fits_pair p u y)"

lemma candidate_sides: "c \<in> set (candidatesOf x p) \<Longrightarrow> observationOf (candDebit c) \<noteq> observationOf (candCredit c)"
  using usable_distinct [of x] unfolding candidate_iff by (auto simp: distinct_map inj_on_def)

lemma sides_count:
  assumes "\<forall>c\<in>set cs. observationOf (candDebit c) \<noteq> observationOf (candCredit c)"
  shows "length (filter (\<lambda>k. k = i) (concat (map (\<lambda>c. [observationOf (candDebit c), observationOf (candCredit c)]) cs))) =
    length (filter (\<lambda>c. observationOf (candDebit c) = i \<or> observationOf (candCredit c) = i) cs)"
  using assms by (induction cs) auto

lemma proposals_count:
  assumes "\<forall>c\<in>set cs. \<forall>b. f c = Some b \<longrightarrow> proposalDebit b = admittedLeg (candDebit c) \<and> proposalCredit b = admittedLeg (candCredit c)"
    and "map f cs = map Some bs"
  shows "length (filter (touches i) bs) =
    length (filter (\<lambda>c. observationOf (candDebit c) = i \<or> observationOf (candCredit c) = i) cs)"
  using assms
proof (induction cs arbitrary: bs)
  case (Cons c cs)
  then obtain b bs' where "bs = b # bs'" "f c = Some b" "map f cs = map Some bs'" by (cases bs) auto
  with Cons show ?case by (auto simp: touches_def observationOf_def)
qed simp

lemma degree_parts:
  "degreeOf x p i = length (filter (\<lambda>c. observationOf (candDebit c) = i \<or> observationOf (candCredit c) = i) (candidatesOf x p)) +
     length (filter (\<lambda>(r, grp). observationOf r = i \<and> list_ex (fits_pair p r) grp)
       (concat (map (\<lambda>r. map (\<lambda>grp. (r, grp)) (pairedCompetitors (pairRows x))) (pairedUsable (pairRows x)))))"
  unfolding degreeOf_def degree_def using sides_count [of "candidatesOf x p" i] candidate_sides by simp

lemma contested_iff:
  "filter (\<lambda>(r, grp). observationOf r = i \<and> list_ex (fits_pair p r) grp)
     (concat (map (\<lambda>r. map (\<lambda>grp. (r, grp)) (pairedCompetitors (pairRows x))) (pairedUsable (pairRows x)))) = [] \<longleftrightarrow>
   \<not> contested x p i"
  by (auto simp: filter_empty_conv contested_def list_ex_iff)

lemma degree_one:
  assumes "0 < length (filter (\<lambda>c. observationOf (candDebit c) = i \<or> observationOf (candCredit c) = i) (candidatesOf x p))"
  shows "degreeOf x p i \<le> 1 \<longleftrightarrow>
    length (filter (\<lambda>c. observationOf (candDebit c) = i \<or> observationOf (candCredit c) = i) (candidatesOf x p)) = 1 \<and> \<not> contested x p i"
proof -
  have "0 < a \<Longrightarrow> a + b \<le> 1 \<longleftrightarrow> a = 1 \<and> b = 0" for a b :: nat by auto
  from this [OF assms] show ?thesis unfolding degree_parts contested_iff [symmetric] length_0_conv [symmetric] .
qed

lemma status_iff:
  assumes "proposeOwnTransfers sha x = Some (Inr run)" and "transferPolicy x = Some p" and "b \<in> set (runProposals run)"
  shows "proposalStatus b = Proposed \<longleftrightarrow>
    length (filter (touches (legObservation (proposalDebit b))) (runProposals run)) = 1 \<and>
    length (filter (touches (legObservation (proposalCredit b))) (runProposals run)) = 1 \<and>
    \<not> contested x p (legObservation (proposalDebit b)) \<and> \<not> contested x p (legObservation (proposalCredit b))"
proof -
  from assms(1) obtain q props where run: "transferPolicy x = Some q"
    "map (transferProposalOf sha q (transferEpoch x) (degreeOf x q)) (candidatesOf x q) = map Some props"
    "runProposals run = js_sort (\<lambda>a b. compareText (proposalId a) (proposalId b)) props" by (rule run_parts)
  with assms(2) have q: "q = p" by simp
  let ?with = "\<lambda>i. filter (\<lambda>c. observationOf (candDebit c) = i \<or> observationOf (candCredit c) = i) (candidatesOf x p)"
  have count: "length (filter (touches i) (runProposals run)) = length (?with i)" for i
  proof -
    have "length (filter (touches i) (runProposals run)) = length (filter (touches i) props)"
      by (metis mset_filter mset_js_sort run(3) size_mset)
    also have "\<dots> = length (?with i)"
      by (rule proposals_count [OF _ run(2) [unfolded q]]) (use transferProposalOf_facts(1,2) in blast)
    finally show ?thesis .
  qed
  from assms(1,3) obtain p' c where "transferPolicy x = Some p'" and c: "c \<in> set (candidatesOf x p')"
    "transferProposalOf sha p' (transferEpoch x) (degreeOf x p') c = Some b" by (rule proposal_candidate)
  with assms(2) have p': "p' = p" by simp
  note facts = transferProposalOf_facts(1-3) [OF c(2) [unfolded p']]
  have some: "0 < length (?with (observationOf (candDebit c)))" "0 < length (?with (observationOf (candCredit c)))"
    using c(1) by (auto simp: p' filter_empty_conv)
  show ?thesis unfolding facts(3) degree_one [OF some(1)] degree_one [OF some(2)] count
    by (auto simp: facts(1,2) observationOf_def)
qed

text \<open>
  Property C18: a row is proposed at most once. A proposal is made without review exactly when no other proposal
  of the run has its debit or its credit and neither of them also fits a row that was refused as a possible
  duplicate or for a missing date; in every other case it needs review and says that it is not unique.
\<close>

theorem proposed_when_unique:
  assumes "proposeOwnTransfers sha x = Some (Inr run)" and "transferPolicy x = Some p" and "b \<in> set (runProposals run)"
  shows "(proposalStatus b = Proposed) =
      (length (filter (touches (legObservation (proposalDebit b))) (runProposals run)) = 1 \<and>
       length (filter (touches (legObservation (proposalCredit b))) (runProposals run)) = 1 \<and>
       \<not> contested x p (legObservation (proposalDebit b)) \<and> \<not> contested x p (legObservation (proposalCredit b))) \<and>
    (Candidate_not_unique \<in> set (proposalCodes b)) = (proposalStatus b = Needs_review)"
proof -
  from assms(1,3) obtain q c where c: "c \<in> set (candidatesOf x q)"
    "transferProposalOf sha q (transferEpoch x) (degreeOf x q) c = Some b" by (rule proposal_candidate)
  then have "Candidate_not_unique \<notin> set (candCodes c)" by (auto simp: candidate_iff pairCheck_meaning)
  with transferProposalOf_facts(4) [OF c(2)] status_iff [OF assms] show ?thesis
    by (cases "proposalStatus b") auto
qed


section \<open>The order of the rows\<close>

interpretation observation_order: comparator "byObservation f" for f :: "'a \<Rightarrow> int"
  by unfold_locales (auto simp: byObservation_def)

lemma js_sort_natural: "map g (js_sort (byObservation (f \<circ> g)) xs) = js_sort (byObservation f) (map g xs)"
proof -
  have "map g (sort_insert (byObservation (f \<circ> g)) x xs) = sort_insert (byObservation f) (g x) (map g xs)" for x xs
    by (induction xs) (auto simp: byObservation_def)
  then show ?thesis by (induction xs) auto
qed

lemma sort_map_eq:
  assumes "mset xs = mset ys" and "\<And>a b. a \<in> set xs \<Longrightarrow> b \<in> set xs \<Longrightarrow> f a = f b \<Longrightarrow> h a = h b"
  shows "map h (js_sort (byObservation f) xs) = map h (js_sort (byObservation f) ys)"
proof -
  let ?g = "\<lambda>a. (f a, h a)"
  have "js_sort (byObservation fst) (map ?g xs) = js_sort (byObservation fst) (map ?g ys)"
  proof (rule observation_order.js_sort_perm)
    show "mset (map ?g xs) = mset (map ?g ys)" using assms(1) by simp
    show "a = b" if "a \<in> set (map ?g xs)" "b \<in> set (map ?g xs)" "byObservation fst a b \<le> 0" "byObservation fst b a \<le> 0" for a b
    proof -
      from that(1,2) obtain r q where rq: "r \<in> set xs" "q \<in> set xs" "a = (f r, h r)" "b = (f q, h q)" by auto
      with that(3,4) have "f r = f q" by (simp add: byObservation_def)
      with rq assms(2) [OF rq(1,2)] show ?thesis by simp
    qed
  qed
  then have "map ?g (js_sort (byObservation f) xs) = map ?g (js_sort (byObservation f) ys)"
    using js_sort_natural [of ?g fst xs] js_sort_natural [of ?g fst ys] by (simp add: comp_def)
  then have "map snd (map ?g (js_sort (byObservation f) xs)) = map snd (map ?g (js_sort (byObservation f) ys))" by (rule arg_cong)
  then show ?thesis by (simp add: comp_def)
qed

lemma map_filter_map: "List.map_filter g (map f xs) = List.map_filter (g \<circ> f) xs"
  by (induction xs) (auto simp: List.map_filter_simps split: option.splits)

lemma map_filter_cong: "map f xs = map f ys \<Longrightarrow> List.map_filter f xs = List.map_filter f ys"
  using map_filter_map [of id f xs] map_filter_map [of id f ys] by simp

lemma same_observation:
  assumes "r \<in> set rows" and "s \<in> set rows" and "observationId r = observationId s" and "mset srt = mset rows"
  shows "firstRefusal (r, rowOutcome owners srt r) = firstRefusal (s, rowOutcome owners srt s)"
    and "datedRow (r, rowOutcome owners srt r) = datedRow (s, rowOutcome owners srt s)"
    and "datelessRow (r, rowOutcome owners srt r) = datelessRow (s, rowOutcome owners srt s)"
proof -
  have "r = s \<or> (rowOutcome owners srt r = Inl Row_invalid \<and> rowOutcome owners srt s = Inl Row_invalid)"
  proof (cases "length (filter (\<lambda>q. observationId q = observationId r) srt) \<le> 1")
    case True
    with assms unique_observation [of observationId r srt s] show ?thesis by (metis set_mset_mset)
  next
    case False
    with assms(3) show ?thesis by (simp add: rowOutcome_def)
  qed
  then show "firstRefusal (r, rowOutcome owners srt r) = firstRefusal (s, rowOutcome owners srt s)"
    "datedRow (r, rowOutcome owners srt r) = datedRow (s, rowOutcome owners srt s)"
    "datelessRow (r, rowOutcome owners srt r) = datelessRow (s, rowOutcome owners srt s)"
    using assms(3) by (auto simp: firstRefusal_def datedRow_def datelessRow_def)
qed

lemma pairRows_perm:
  assumes "mset rows = mset (transferRows x)"
  shows "pairRows (x\<lparr>transferRows := rows\<rparr>) = pairRows x"
proof -
  let ?x = "x\<lparr>transferRows := rows\<rparr>" and ?srt = "sortedRows x"
  let ?out = "\<lambda>r. (r, rowOutcome (ownershipOf x) ?srt r)"
  have srt: "mset ?srt = mset (transferRows x)" "mset (sortedRows ?x) = mset ?srt" by (simp_all add: sortedRows_def assms)
  have "rowOutcome (ownershipOf x) (sortedRows ?x) = rowOutcome (ownershipOf x) ?srt"
    unfolding rowOutcome_def fun_eq_iff using srt(2) by (metis mset_filter size_mset)
  then have outs: "outcomesOf ?x = map ?out (sortedRows ?x)" "outcomesOf x = map ?out ?srt" by (simp_all add: outcomesOf_def)
  have eq: "List.map_filter k (outcomesOf ?x) = List.map_filter k (outcomesOf x)"
    if "\<And>r s. r \<in> set rows \<Longrightarrow> s \<in> set rows \<Longrightarrow> observationId r = observationId s \<Longrightarrow> (k \<circ> ?out) r = (k \<circ> ?out) s" for k :: "_ \<Rightarrow> 'b option"
  proof -
    have "map (k \<circ> ?out) (js_sort (byObservation observationId) rows) =
        map (k \<circ> ?out) (js_sort (byObservation observationId) (transferRows x))"
      by (rule sort_map_eq [OF assms that])
    then have "List.map_filter (k \<circ> ?out) (sortedRows ?x) = List.map_filter (k \<circ> ?out) ?srt"
      by (intro map_filter_cong) (simp add: sortedRows_def)
    then show ?thesis unfolding outs map_filter_map .
  qed
  have mrows: "mset ?srt = mset rows" using srt(1) assms by simp
  have lists: "List.map_filter firstRefusal (outcomesOf ?x) = List.map_filter firstRefusal (outcomesOf x)"
    "List.map_filter datedRow (outcomesOf ?x) = List.map_filter datedRow (outcomesOf x)"
    "List.map_filter datelessRow (outcomesOf ?x) = List.map_filter datelessRow (outcomesOf x)"
    by (rule eq, unfold comp_def, rule same_observation [OF _ _ _ mrows], assumption+)+
  show ?thesis
    by (rule Paired.equality) (simp_all add: pairRows_parts lists)
qed

text \<open>
  Property C20: the order of the rows does not matter. A run gives the same result, refusals, digests and the
  manifest included, for every order in which the same rows are listed, also when an observation occurs twice.
\<close>

theorem transfer_order_free:
  assumes "mset rows = mset (transferRows x)"
  shows "proposeOwnTransfers sha (x\<lparr>transferRows := rows\<rparr>) = proposeOwnTransfers sha x"
proof -
  have "length rows = length (transferRows x)" using assms by (metis size_mset)
  then show ?thesis unfolding proposeOwnTransfers_def pairRows_perm [OF assms] by (simp cong: if_cong option.case_cong)
qed

section \<open>Accounts and totality\<close>

lemma left_right_of: "mset (map l (List.map_filter left_of ys)) + mset (map r (List.map_filter right_of ys)) =
    mset (map (\<lambda>y. case y of Inl a \<Rightarrow> l a | Inr b \<Rightarrow> r b) ys)"
  by (induction ys) (auto simp: List.map_filter_simps left_of_def right_of_def split: sum.splits)

definition pairs_of :: "AdmittedRow list \<Rightarrow> (int \<times> int) list" where
  "pairs_of usable = List.product (map observationOf (filter isDebit usable)) (map observationOf (filter (\<lambda>u. \<not> isDebit u) usable))"

lemma checked_pairs:
  "map (\<lambda>y. case y of Inl q \<Rightarrow> (refusedDebit q, refusedCredit q) | Inr c \<Rightarrow> (observationOf (candDebit c), observationOf (candCredit c)))
     (checkedPairs p usable) = pairs_of usable"
proof -
  have "map (\<lambda>y. case y of Inl q \<Rightarrow> (refusedDebit q, refusedCredit q) | Inr c \<Rightarrow> (observationOf (candDebit c), observationOf (candCredit c)))
      (concat (map (\<lambda>d. map (\<lambda>c. case pairCheck d c p of
           Inl code \<Rightarrow> Inl \<lparr>refusedDebit = observationOf d, refusedCredit = observationOf c, pairCode = code\<rparr>
         | Inr codes \<Rightarrow> Inr \<lparr>candDebit = d, candCredit = c, candCodes = codes\<rparr>) cs) ds)) =
      List.product (map observationOf ds) (map observationOf cs)" for ds cs
    by (induction ds) (auto simp: comp_def split: sum.splits)
  then show ?thesis by (simp add: checkedPairs_def pairs_of_def)
qed

text \<open>
  Property C19: every row and every pair is decided once. The observations refused and those of the usable rows
  are together the observations of the input, with repetitions counted; and each debit and credit among the
  usable rows are either refused as a pair, for one reason, or proposed, exactly once.
\<close>

theorem rows_and_pairs_accounted:
  assumes "proposeOwnTransfers sha x = Some (Inr run)"
  shows "mset (map refusedRow (rowRefusals run)) + mset (map observationOf (pairedUsable (pairRows x))) =
      mset (map reportedId (transferRows x)) \<and>
    mset (map (\<lambda>q. (refusedDebit q, refusedCredit q)) (pairRefusals run)) +
      mset (map (\<lambda>b. (legObservation (proposalDebit b), legObservation (proposalCredit b))) (runProposals run)) =
      mset (pairs_of (pairedUsable (pairRows x)))"
proof -
  from assms obtain p props where run:
    "map (transferProposalOf sha p (transferEpoch x) (degreeOf x p)) (candidatesOf x p) = map Some props"
    "runProposals run = js_sort (\<lambda>a b. compareText (proposalId a) (proposalId b)) props"
    "rowRefusals run = pairedRefusals (pairRows x)"
    "pairRefusals run = List.map_filter left_of (checkedPairs p (pairedUsable (pairRows x)))" by (rule run_parts)
  have legs: "map (\<lambda>b. (legObservation (proposalDebit b), legObservation (proposalCredit b))) bs =
      map (\<lambda>c. (observationOf (candDebit c), observationOf (candCredit c))) cs"
    if "map (transferProposalOf sha p (transferEpoch x) (degreeOf x p)) cs = map Some bs" for cs bs
    using that
  proof (induction cs arbitrary: bs)
    case (Cons c cs)
    then obtain b bs' where "bs = b # bs'" "transferProposalOf sha p (transferEpoch x) (degreeOf x p) c = Some b"
      "map (transferProposalOf sha p (transferEpoch x) (degreeOf x p)) cs = map Some bs'" by (cases bs) auto
    with Cons.IH [of bs'] transferProposalOf_facts(1,2) show ?case by (simp add: observationOf_def)
  qed simp
  have "mset (map (\<lambda>b. (legObservation (proposalDebit b), legObservation (proposalCredit b))) (runProposals run)) =
      mset (map (\<lambda>c. (observationOf (candDebit c), observationOf (candCredit c))) (candidatesOf x p))"
    unfolding legs [OF run(1), symmetric] by (simp add: run(2))
  with left_right_of [of "\<lambda>q. (refusedDebit q, refusedCredit q)" "checkedPairs p (pairedUsable (pairRows x))"
      "\<lambda>c. (observationOf (candDebit c), observationOf (candCredit c))"] rows_accounted_paired [of x]
  show ?thesis unfolding checked_pairs by (simp add: run(3,4) candidatesOf_def)
qed


lemma digest_fits: "canonicalDigest sha v \<noteq> None \<longleftrightarrow> fits 0 v"
  by (simp add: canonicalDigest_def canonicalJson_def canonicalize_text)

lemma policy_fits: "validOwnTransferPolicy p \<Longrightarrow> fits 0 (policyJson p)"
  by (auto simp: policyJson_def differenceJson_def validOwnTransferPolicy_def OWN_TRANSFER_WINDOW_DAYS_MAX_def
      MAX_CANONICAL_INTEGER_def CANONICAL_MAX_DEPTH_def list_all_iff split: OwnTransferDifferenceRule.split)

lemma leg_fits: "validTransferLeg l \<Longrightarrow> fits 1 (legJson l)"
  by (simp add: validTransferLeg_def isSafeIntFrom_def MAX_SAFE_INTEGER_def MAX_CANONICAL_INTEGER_def CANONICAL_MAX_DEPTH_def)

lemma body_fits: "validTransferLeg (proposalDebit b) \<Longrightarrow> validTransferLeg (proposalCredit b) \<Longrightarrow> fits 0 (proposalJson b)"
  using leg_fits [of "proposalDebit b"] leg_fits [of "proposalCredit b"]
  by (simp add: proposalJson_def CANONICAL_MAX_DEPTH_def list_all_iff del: legJson.simps)

lemma candidate_legs:
  assumes "c \<in> set (candidatesOf x p)"
  shows "validTransferLeg (admittedLeg (candDebit c))" and "validTransferLeg (admittedLeg (candCredit c))"
  using assms unfolding candidate_iff by (blast elim: usable_facts intro: admitted_leg_valid)+

lemma proposal_some:
  assumes "c \<in> set (candidatesOf x p)"
  shows "transferProposalOf sha p epoch deg c \<noteq> None"
proof -
  have "fits 0 (proposalIdJson p epoch c)" by (simp add: proposalIdJson_def CANONICAL_MAX_DEPTH_def)
  then obtain h where h: "canonicalDigest sha (proposalIdJson p epoch c) = Some h" using digest_fits by blast
  have "canonicalDigest sha (proposalJson b) \<noteq> None" if "proposalDebit b = admittedLeg (candDebit c)"
    "proposalCredit b = admittedLeg (candCredit c)" for b
    using that candidate_legs [OF assms] by (simp only: digest_fits) (simp add: body_fits)
  then show ?thesis by (simp add: transferProposalOf_def h Let_def)
qed

text \<open>The checks a run makes before it looks at a row.\<close>

definition runGuards :: "OwnTransferProposalInput \<Rightarrow> bool" where
  "runGuards x \<longleftrightarrow> (case transferPolicy x of None \<Rightarrow> False | Some p \<Rightarrow> validOwnTransferPolicy p) \<and>
     length (transferRows x) \<le> OWN_TRANSFER_ROWS_MAX \<and> validIdentityEpoch (transferEpoch x) \<and> isText 128 (ownershipVersion x)"

lemma own_transfers_some:
  obtains r where "proposeOwnTransfers sha x = Some r" "(\<exists>run. r = Inr run) \<longleftrightarrow> runGuards x"
proof (cases "transferPolicy x")
  case None
  with that [of "Inl Policy_missing"] show thesis by (simp add: proposeOwnTransfers_def runGuards_def)
next
  case (Some p)
  have "None \<notin> set (map (transferProposalOf sha p (transferEpoch x) (degreeOf x p)) (candidatesOf x p))"
    using proposal_some by (metis (no_types, lifting) imageE set_map)
  then have "all_some (map (transferProposalOf sha p (transferEpoch x) (degreeOf x p)) (candidatesOf x p)) \<noteq> None"
    using all_some_None by blast
  then obtain props where props: "all_some (map (transferProposalOf sha p (transferEpoch x)
      (degree (List.map_filter right_of (checkedPairs p (pairedUsable (pairRows x)))) p (pairedUsable (pairRows x))
        (pairedCompetitors (pairRows x)))) (List.map_filter right_of (checkedPairs p (pairedUsable (pairRows x))))) = Some props"
    unfolding degreeOf_def [abs_def] candidatesOf_def by blast
  have digest: "\<exists>h. canonicalDigest sha (policyJson p) = Some h" if "validOwnTransferPolicy p"
    using digest_fits [of sha "policyJson p"] policy_fits [OF that] by blast
  show thesis
  proof (cases "runGuards x")
    case True
    with Some obtain h where "canonicalDigest sha (policyJson p) = Some h" using digest by (auto simp: runGuards_def)
    with True Some props that show thesis
      by (simp add: proposeOwnTransfers_def runGuards_def Let_def)
  next
    case False
    then have "\<exists>e. proposeOwnTransfers sha x = Some (Inl e)"
      unfolding runGuards_def Some option.case by (simp add: proposeOwnTransfers_def Some not_le [symmetric])
    then obtain e where "proposeOwnTransfers sha x = Some (Inl e)" by blast
    with that [of "Inl e"] False show thesis by simp
  qed
qed

text \<open>
  Property C21: a run always ends with an answer. Whatever rows, ownership read, policy and claims it is given,
  no value it digests is outside the canonical form; and it gives a result exactly when there is a supported
  policy, at most 500 rows, a valid identity epoch and a valid ownership version, and a refusal otherwise.
\<close>

theorem own_transfers_return:
  "\<exists>r. proposeOwnTransfers sha x = Some r \<and> (\<exists>run. r = Inr run) = runGuards x"
  by (rule own_transfers_some [of sha x]) auto

text \<open>
  Property C22: what is proposed is what may be stored. Every proposal of a run passes the check of the stored
  shape, when the digest function gives 64 lower-case hexadecimal digits.
\<close>

theorem own_transfers_validate:
  assumes "\<And>t. validDigest (sha t)" and "proposeOwnTransfers sha x = Some (Inr run)"
  shows "list_all validOwnTransferProposal (runProposals run)"
  unfolding list_all_iff
proof
  fix b assume "b \<in> set (runProposals run)"
  with assms(2) obtain p c where p: "validOwnTransferPolicy p" "validIdentityEpoch (transferEpoch x)"
    and c: "c \<in> set (candidatesOf x p)" "transferProposalOf sha p (transferEpoch x) (degreeOf x p) c = Some b"
    by (rule proposal_candidate)
  note facts = transferProposalOf_facts [OF c(2)]
  obtain codes where codes: "candCodes c = codes" "Candidate_not_unique \<notin> set codes" "distinct codes" "length codes \<le> 4"
    "legAccount (admittedLeg (candDebit c)) \<noteq> legAccount (admittedLeg (candCredit c))"
    using c(1) by (auto simp: candidate_iff pairCheck_meaning)
  have "distinct (proposalCodes b)" "length (proposalCodes b) \<le> 6"
    "(Candidate_not_unique \<in> set (proposalCodes b)) = (proposalStatus b = Needs_review)"
    using codes facts(4) by (cases "proposalStatus b"; simp)+
  moreover have "isText 64 OWN_TRANSFER_ENGINE_RELEASE" by (simp add: isText_def OWN_TRANSFER_ENGINE_RELEASE_def)
  moreover have "validTransferPolicyVersion (transferPolicyVersion p)" using p(1) by (simp add: validOwnTransferPolicy_def)
  ultimately show "validOwnTransferProposal b"
    using facts(1,2,5-8) candidate_legs [OF c(1)] codes(5) p(2) assms(1)
    by (auto simp: validOwnTransferProposal_def length_js_set)
qed

section \<open>A run with one proposal\<close>

lemma ex_transfer_run:
  obtains run b where "proposeOwnTransfers ex_sha ex_transfer = Some (Inr run)" "runProposals run = [b]"
    "legObservation (proposalDebit b) = 1" "legObservation (proposalCredit b) = 2" "proposalStatus b = Proposed"
proof -
  obtain d c where sides: "ex_transfer_sides = [d, c]" "observationOf d = 1" "observationOf c = 2"
    by (simp add: ex_transfer_sides_def ex_transfer_admitted_def observationOf_def ex_transfer_debit_def ex_transfer_credit_def ex_bank_row_def)
  note paired = ex_transfer_paired [unfolded sides(1)]
  have x: "transferPolicy ex_transfer = Some ex_transfer_policy" "transferEpoch ex_transfer = ''e1''"
    "ownershipVersion ex_transfer = ''v1''" "length (transferRows ex_transfer) = 2" by (simp_all add: ex_transfer_def)
  have "runGuards ex_transfer" using ex_transfer_valid by (simp add: runGuards_def x OWN_TRANSFER_ROWS_MAX_def)
  then obtain run where run: "proposeOwnTransfers ex_sha ex_transfer = Some (Inr run)"
    by (rule_tac own_transfers_some [of ex_sha ex_transfer]) auto
  obtain cand where cand: "candidatesOf ex_transfer ex_transfer_policy = [cand]" "candDebit cand = d" "candCredit cand = c"
    using ex_transfer_candidates by (simp add: candidatesOf_def paired sides(1))
  have deg: "degreeOf ex_transfer ex_transfer_policy 1 = 1" "degreeOf ex_transfer ex_transfer_policy 2 = 1"
    by (simp_all add: degree_parts cand paired sides)
  from run x(1) obtain props where props: "runProposals run = js_sort (\<lambda>a b. compareText (proposalId a) (proposalId b)) props"
    "map (transferProposalOf ex_sha ex_transfer_policy ''e1'' (degreeOf ex_transfer ex_transfer_policy)) [cand] = map Some props"
    by (elim run_parts) (simp add: x(2) cand(1))
  then obtain b where b: "props = [b]"
    "transferProposalOf ex_sha ex_transfer_policy ''e1'' (degreeOf ex_transfer ex_transfer_policy) cand = Some b" by auto
  show thesis
    using that [OF run, of b] props(1) b(1) transferProposalOf_facts(1-3) [OF b(2)] sides(2,3) deg
    by (simp add: cand observationOf_def)
qed

theorem proposal_states_facts_witness:
  "\<exists>run b. proposeOwnTransfers ex_sha ex_transfer = Some (Inr run) \<and> b \<in> set (runProposals run) \<and>
     legAccount (proposalDebit b) \<noteq> legAccount (proposalCredit b)"
proof (rule ex_transfer_run)
  fix run b assume run: "proposeOwnTransfers ex_sha ex_transfer = Some (Inr run)" "runProposals run = [b]"
  with proposal_states_facts [OF run(1), of b] show ?thesis by auto
qed

theorem proposed_when_unique_witness:
  "\<exists>run b. proposeOwnTransfers ex_sha ex_transfer = Some (Inr run) \<and> b \<in> set (runProposals run) \<and> proposalStatus b = Proposed \<and>
     \<not> contested ex_transfer ex_transfer_policy 1 \<and> length (filter (touches 1) (runProposals run)) = 1"
proof (rule ex_transfer_run)
  fix run b assume run: "proposeOwnTransfers ex_sha ex_transfer = Some (Inr run)" "runProposals run = [b]"
    "legObservation (proposalDebit b) = 1" "proposalStatus b = Proposed"
  with proposed_when_unique [OF run(1), of ex_transfer_policy b] have
    "\<not> contested ex_transfer ex_transfer_policy 1 \<and> length (filter (touches 1) (runProposals run)) = 1"
    by (simp add: ex_transfer_def)
  with run show ?thesis by auto
qed

theorem transfer_order_free_witness:
  "proposeOwnTransfers ex_sha (ex_transfer\<lparr>transferRows := [ex_transfer_debit, ex_transfer_credit]\<rparr>) = proposeOwnTransfers ex_sha ex_transfer"
  by (rule transfer_order_free) (simp add: ex_transfer_def)

theorem rows_and_pairs_accounted_witness:
  "\<exists>run. proposeOwnTransfers ex_sha ex_transfer = Some (Inr run) \<and> rowRefusals run = [] \<and> pairRefusals run = []"
proof (rule ex_transfer_run)
  fix run b assume run: "proposeOwnTransfers ex_sha ex_transfer = Some (Inr run)" "runProposals run = [b]"
    "legObservation (proposalDebit b) = 1" "legObservation (proposalCredit b) = 2"
  have paired: "map observationOf (pairedUsable (pairRows ex_transfer)) = [1, 2]"
    "pairs_of (pairedUsable (pairRows ex_transfer)) = [(1, 2)]" "map reportedId (transferRows ex_transfer) = [2, 1]"
    by (simp_all add: ex_transfer_paired ex_transfer_observations) code_simp+
  have "mset (map refusedRow (rowRefusals run)) = {#}" "mset (map (\<lambda>q. (refusedDebit q, refusedCredit q)) (pairRefusals run)) = {#}"
    using rows_and_pairs_accounted [OF run(1)] unfolding mset_map [symmetric] paired run(2) by (simp_all add: run(3,4) add_mset_commute)
  with run(1) show ?thesis by auto
qed

theorem own_transfers_validate_witness:
  "\<exists>run. proposeOwnTransfers ex_sha ex_transfer = Some (Inr run) \<and> runProposals run \<noteq> [] \<and>
     list_all validOwnTransferProposal (runProposals run)"
proof (rule ex_transfer_run)
  fix run b assume run: "proposeOwnTransfers ex_sha ex_transfer = Some (Inr run)" "runProposals run = [b]"
  have "validDigest (ex_sha t)" for t unfolding ex_sha_def by code_simp
  from own_transfers_validate [OF this run(1)] run show ?thesis by (intro exI [of _ run]) simp
qed

end
