(* ===== verification/Spec2Isabelle.thy ===== *)
theory Spec2Isabelle
  imports Lot_Book_Contract Calculation Decisions Card_Allocation_Contract
    Collection_Lease Reconcile Reward_Expiry_Contract
    Reconstruction_Contract Own_Transfer_Proposals
begin

text \<open>
  A verification development for kogane, a personal-finance system that collects observations from
  providers, normalizes them, and computes positions, lots, settlements and reports from them.

  \<^bold>\<open>The program.\<close> Collectors (\<open>services/collector-*\<close>) fetch provider pages; parsers turn them into
  observed rows with normalized decimals; the processor (\<open>services/processor\<close>) stores runs and facts in a
  database; the app serves views of them. The calculations on facts are pure functions of
  \<open>packages/domain/src\<close>, and this development is mostly about those: exact arithmetic and quantities, civil time,
  the lot engine, calculation policies, decision records, card settlement and statement allocation,
  reconciliation, reward programs, economic events, own-transfer proposals, and the reconstruction of a state
  from events known at a cut; beside them the lease that keeps two collections of one source apart. They
  call each other in that order: the lot engine and the planner use the quantity arithmetic and the
  civil calendar, and every refusal travels up as a value.

  \<^bold>\<open>How code becomes definitions.\<close> A TypeScript type that a guard checks is a record or a datatype here,
  so a guard keeps only what it checks of the values (lengths, signs, validity of dates). BigInt is
  \<open>int\<close>; a decimal is a coefficient and a scale; text is a list of characters, ordered by code unit as
  \<open>compareText\<close> does. Results with \<open>ok: false\<close> are the \<open>Inl\<close> side of a sum, \<open>null\<close> is \<open>None\<close>, and a
  throw is the outer \<open>None\<close> of a function that can throw, with a theorem that says it does not. A JS
  \<open>Map\<close> or \<open>Set\<close> read in insertion order is a list or an association list, one read by key only is a
  HOL map. \<open>Array.prototype.sort\<close> is the stable insertion \<open>js_sort\<close> of the prelude. Loops are structural
  recursions or folds, so no fuel is needed; the remaining loops (\<open>gcd\<close>, the removal of factors) are
  functions with a termination proof.

  \<^bold>\<open>Theories.\<close>
  \<^item> \<^theory_text>\<open>Kogane_Prelude\<close>: text of numbers, \<open>js_sort\<close> with the locale \<open>comparator\<close> (a total preorder read
    off a sign; a sort of elements it tells apart does not depend on the input order), sets in
    insertion order, truncating division.
  \<^item> \<^theory_text>\<open>Exact_Values\<close> (\<open>values.ts\<close>, \<open>guards.ts\<close>, \<open>normalized-decimal.ts\<close>): decimals, ratios, rounding,
    quantities. Arithmetic denotes rational arithmetic and keeps the canonical form; printing and
    parsing are inverse; a sum exists exactly for exact operands of one unit.
  \<^item> \<^theory_text>\<open>Civil_Time\<close> (\<open>time.ts\<close>): the calendar, instants, periods, the semantic order. Day numbers and
    dates are in bijection, the parser and the formatter are inverse.
  \<^item> \<^theory_text>\<open>Lot_Inputs\<close>, \<^theory_text>\<open>Lot_Amounts\<close>, \<^theory_text>\<open>Lot_Book\<close> (\<open>lots.ts\<close>): inputs and their validators, amounts and
    shares, and every operation of a book. \<^theory_text>\<open>Lot_Plans\<close>, \<^theory_text>\<open>Lot_Invariants\<close>, \<^theory_text>\<open>Lot_Conservation\<close>:
    a plan takes what it says, every operation keeps the book's shape and its ledger.
    \<^theory_text>\<open>Lot_Runs\<close>, \<^theory_text>\<open>Lot_Order\<close>, \<^theory_text>\<open>Lot_Engine\<close>, \<^theory_text>\<open>Lot_Books\<close>, \<^theory_text>\<open>Lot_Pools\<close>, \<^theory_text>\<open>Lot_Results\<close>: runs of
    inputs, grouping by time and its reference, the gates, pooled disposals, and the whole run.
    \<^theory_text>\<open>Lot_Contract\<close>, \<^theory_text>\<open>Lot_Book_Contract\<close>: what a computed result and a single book promise.
  \<^item> \<^theory_text>\<open>Calculation\<close> (\<open>calculation.ts\<close>, prices of \<open>metrics.ts\<close>): valuation of a holding, rounding
    policies and their residual, profit attribution, summaries and net worth.
  \<^item> \<^theory_text>\<open>Decisions\<close> (\<open>decisions.ts\<close>): decision records and the two conservation checks.
  \<^item> \<^theory_text>\<open>Card_Settlement\<close>, \<^theory_text>\<open>Card_Allocation\<close>, \<^theory_text>\<open>Card_Allocation_Contract\<close> (\<open>card-settlement.ts\<close>,
    \<open>card-settlement-allocation.ts\<close>): settlement candidates, and the planner that allocates debits to
    statements: exact proposals, the pruned search against the sub-list reference, no debit used twice.
  \<^item> \<^theory_text>\<open>Reconcile\<close> (\<open>reconcile.ts\<close>): the three stages that propose matching rows; only the provider's own
    identifiers make a proposal automatic, stage B does not depend on the order, its ambiguity is exact.
  \<^item> \<^theory_text>\<open>Rewards\<close> (\<open>rewards.ts\<close>): holdings, what an offer accepts, one conversion and the account of a
    redemption. \<^theory_text>\<open>Reward_Search\<close>: the budgeted search for conversion paths, which returns a prefix of the
    unbudgeted exploration, made of chains of feasible plans. \<^theory_text>\<open>Reward_Expiry\<close>, \<^theory_text>\<open>Reward_Expiry_Contract\<close>:
    the expiry estimate; when it gives a date, that the order of the history does not matter, and when
    the bases it returns pass their own validator.
  \<^item> \<^theory_text>\<open>Economic_Events\<close> (\<open>events.ts\<close>): states and transitions of an event, the stored forms, and the checks
    of conservation, settlement and refund over exact amounts.
  \<^item> \<^theory_text>\<open>Knowledge_Cut\<close>, \<^theory_text>\<open>Knowledge_Cut_Contract\<close> (\<open>reconstruction.ts\<close>, first half): which revision of
    an event is in force at a cut of the decision history. The walk that looks for cycles finds exactly
    the cycles; the selection is independent of the order of its rows and passes its own check.
  \<^item> \<^theory_text>\<open>Reconstruction\<close>, \<^theory_text>\<open>Reconstruction_Fold\<close>, \<^theory_text>\<open>Reconstruction_State\<close> (\<open>reconstruction.ts\<close>, second half):
    the fold of a start snapshot and the selected legs into cells, explained against the reported end.
    \<^theory_text>\<open>Reconstruction_Cells\<close>: a figure is the start plus what was applied, or a gap says why it is absent.
    \<^theory_text>\<open>Reconstruction_Explained\<close>: which legs are applied, and what the remainder of a compared cell is.
    \<^theory_text>\<open>Reconstruction_Coverage\<close>: the sweep over coverage rows against its reading day by day, and the reach of
    flags as a closure. \<^theory_text>\<open>Reconstruction_Records\<close>: one record per leg. \<^theory_text>\<open>Reconstruction_Total\<close>: no throw.
    \<^theory_text>\<open>Reconstruction_Flags\<close>: a flag blocks the cells its chain touched. \<^theory_text>\<open>Reconstruction_Example\<close>: one input
    run to its end; \<^theory_text>\<open>Reconstruction_Contract\<close>: the promises.
  \<^item> \<^theory_text>\<open>Json_Text\<close> (\<open>JSON.stringify\<close>, \<open>context.ts\<close>): the texts the contracts store; different values have different
    texts, and the canonical text is that of the value with sorted keys. \<^theory_text>\<open>Economic_Contract\<close>
    (\<open>economic-contract.ts\<close>): keys, alias classes, claims and commit records; a set of claims has one text.
    \<^theory_text>\<open>Transaction_Families\<close> (\<open>event-families.ts\<close>, \<open>row-identity.ts\<close>): the registry of parsers, and which rows a
    human-adopted writer may consume. \<^theory_text>\<open>Own_Transfer\<close> (\<open>own-transfer-proposals.ts\<close>):
    proposals that two rows are one movement between own accounts. \<^theory_text>\<open>Own_Transfer_Contract\<close>: the rows
    before they are paired. \<^theory_text>\<open>Own_Transfer_Proposals\<close>: what a proposal states, when it needs no review, the order
    of the rows, that every row and pair is decided once, totality; \<^theory_text>\<open>Own_Transfer_Example\<close>: one run.
  \<^item> \<^theory_text>\<open>Evaluation\<close>: rewrite rules with which the simplifier reads and prints numbers, dates and instants.
  \<^item> \<^theory_text>\<open>Collection_Lease\<close> (\<open>schedule-lease.ts\<close>, \<open>schedule-store.ts\<close>): the lease of a source as a step
    relation of calls, statements, timers, the sweep and operator releases, which may come at any time: of two
    live calls the operator cleared the lease of one, and that one stops within a bound; no lease is left for
    good. The answer of a claim within eight and a half minutes is assumed.

  \<^bold>\<open>Bounds.\<close> The source's bounds are kept as they are (16 statements, 32 debits, 3 debits of an
  allocation, 31 days, 500 rows of a transfer run, 4096 digits of a decimal, the lengths of texts). JS numbers that the code
  bounds to safe integers are \<open>int\<close> with the bound as a check.

  \<^bold>\<open>Not modelled.\<close> Browser automation, HTTP, database statements, wire formats, user interface, build and
  deployment code are input and output. Of the domain package the
  adapter that builds event sets, \<open>knowledge-selector.ts\<close>, market data, the metric registry and the candidate selectors over stored rows
  are not modelled yet; nor is the collection schedule beyond its lease.
\<close>

end
